(* ===== verification/Prelude.thy ===== *)
theory Prelude
  imports Main "HOL-Library.AList"
begin

text \<open>
  Shared vocabulary of the development: fallible results (a Python exception is the left
  injection of a sum), the lock discipline of \<open>threading.Lock\<close>, command runs of a
  component, and the few facts on lists every component theory uses.

  A method that raises leaves no trace in the model: the SQLite transaction is rolled back
  by the context manager \<open>with self.conn\<close>, so the caller keeps the state it had.
\<close>

section \<open>Fallible results\<close>

named_theorems res_simps \<open>evaluation and inversion of sequenced fallible statements\<close>

definition res_bind :: "'e + 'a \<Rightarrow> ('a \<Rightarrow> 'e + 'b) \<Rightarrow> 'e + 'b" where
  "res_bind m f = (case m of Inl e \<Rightarrow> Inl e | Inr x \<Rightarrow> f x)"

lemma res_bind_Inl [simp]: "res_bind (Inl e) f = Inl e"
  by (simp add: res_bind_def)

lemma res_bind_Inr [simp]: "res_bind (Inr x) f = f x"
  by (simp add: res_bind_def)

lemma res_bind_eq_Inr [res_simps]:
  "res_bind m f = Inr y \<longleftrightarrow> (\<exists>x. m = Inr x \<and> f x = Inr y)"
  by (cases m) (auto simp: res_bind_def)

lemma res_bind_eq_Inl [res_simps]:
  "res_bind m f = Inl e \<longleftrightarrow> m = Inl e \<or> (\<exists>x. m = Inr x \<and> f x = Inl e)"
  by (cases m) (auto simp: res_bind_def)

lemma res_bind_cong [fundef_cong]:
  "m = m' \<Longrightarrow> (\<And>x. m' = Inr x \<Longrightarrow> f x = g x) \<Longrightarrow> res_bind m f = res_bind m' g"
  by (cases m') (auto simp: res_bind_def)

definition ensure :: "bool \<Rightarrow> 'e \<Rightarrow> 'e + unit" where
  "ensure b e = (if b then Inr () else Inl e)"

lemma ensure_eq_Inr [res_simps]: "ensure b e = Inr u \<longleftrightarrow> b"
  by (cases u) (simp add: ensure_def)

lemma ensure_eq_Inl [res_simps]: "ensure b e = Inl e' \<longleftrightarrow> \<not> b \<and> e = e'"
  by (auto simp: ensure_def)

lemma ensure_True [simp]: "ensure True e = Inr ()"
  by (simp add: ensure_def)

lemma ensure_False [simp]: "ensure False e = Inl e"
  by (simp add: ensure_def)

text \<open>The left-to-right fold of a fallible statement over a list: a \<open>for\<close> loop whose body
  may raise.\<close>

fun res_fold :: "('x \<Rightarrow> 's \<Rightarrow> 'e + 's) \<Rightarrow> 'x list \<Rightarrow> 's \<Rightarrow> 'e + 's" where
  "res_fold f [] s = Inr s"
| "res_fold f (x # xs) s = res_bind (f x s) (res_fold f xs)"

lemma res_fold_append: "res_fold f (xs @ ys) s = res_bind (res_fold f xs s) (res_fold f ys)"
  by (induction xs arbitrary: s) (auto simp: res_bind_def split: sum.splits)

lemma res_fold_snoc_Inr:
  "res_fold f (xs @ [x]) s = Inr t \<longleftrightarrow> (\<exists>u. res_fold f xs s = Inr u \<and> f x u = Inr t)"
  by (auto simp: res_fold_append res_simps)

lemma res_fold_invariant:
  assumes "res_fold f xs s = Inr t" and "P s"
    and "\<And>x u v. x \<in> set xs \<Longrightarrow> P u \<Longrightarrow> f x u = Inr v \<Longrightarrow> P v"
  shows "P t"
  using assms by (induction xs arbitrary: s) (auto simp: res_simps)

section \<open>Runs of commands\<close>

text \<open>
  A client issues commands one after the other; a command that raises leaves the state as
  it was and the client may go on.
\<close>

definition attempt :: "('c \<Rightarrow> 's \<Rightarrow> 'e + 's) \<Rightarrow> 'c \<Rightarrow> 's \<Rightarrow> 's" where
  "attempt step c s = (case step c s of Inl e \<Rightarrow> s | Inr s' \<Rightarrow> s')"

fun run_cmds :: "('c \<Rightarrow> 's \<Rightarrow> 'e + 's) \<Rightarrow> 'c list \<Rightarrow> 's \<Rightarrow> 's" where
  "run_cmds step [] s = s"
| "run_cmds step (c # cs) s = run_cmds step cs (attempt step c s)"

lemma run_cmds_append:
  "run_cmds step (cs @ ds) s = run_cmds step ds (run_cmds step cs s)"
  by (induction cs arbitrary: s) auto

text \<open>The contract a component's commands promise: every successful one keeps the
  invariant.  Clients of the contract obtain the invariant for whole runs.\<close>

locale guarded_machine =
  fixes step :: "'c \<Rightarrow> 's \<Rightarrow> 'e + 's"
    and inv :: "'s \<Rightarrow> bool"
  assumes step_inv: "inv s \<Longrightarrow> step c s = Inr s' \<Longrightarrow> inv s'"
begin

lemma attempt_inv: "inv s \<Longrightarrow> inv (attempt step c s)"
  by (auto simp: attempt_def dest: step_inv split: sum.splits)

lemma run_inv: "inv s \<Longrightarrow> inv (run_cmds step cs s)"
  by (induction cs arbitrary: s) (auto intro: attempt_inv)

end

text \<open>A machine that in addition moves a quantity in one direction only (a clock, an
  epoch, a log that only grows).\<close>

locale monotone_machine = guarded_machine step inv
  for step :: "'c \<Rightarrow> 's \<Rightarrow> 'e + 's" and inv :: "'s \<Rightarrow> bool" +
  fixes level :: "'s \<Rightarrow> 'l::preorder"
  assumes step_level: "inv s \<Longrightarrow> step c s = Inr s' \<Longrightarrow> level s \<le> level s'"
begin

lemma attempt_level: "inv s \<Longrightarrow> level s \<le> level (attempt step c s)"
  by (auto simp: attempt_def dest: step_level split: sum.splits)

lemma run_level: "inv s \<Longrightarrow> level s \<le> level (run_cmds step cs s)"
proof (induction cs arbitrary: s)
  case Nil
  then show ?case by simp
next
  case (Cons c cs)
  have "level s \<le> level (attempt step c s)"
    using Cons.prems by (rule attempt_level)
  also have "\<dots> \<le> level (run_cmds step cs (attempt step c s))"
    using attempt_inv [OF Cons.prems] by (rule Cons.IH)
  finally show ?case by simp
qed

end

section \<open>Choosing by rank\<close>

text \<open>A scan that keeps the better of two candidates.  When \<open>beats\<close> compares ranks, the scan ends
  with a candidate of least rank; with distinct ranks the order of the scan does not matter.\<close>

fun pick_best :: "('a \<Rightarrow> 'a \<Rightarrow> bool) \<Rightarrow> 'a \<Rightarrow> 'a list \<Rightarrow> 'a" where
  "pick_best beats a [] = a"
| "pick_best beats a (x # xs) = pick_best beats (if beats a x then a else x) xs"

lemma pick_best_member: "pick_best beats a xs \<in> set (a # xs)"
  by (induction xs arbitrary: a) (auto split: if_splits)

locale ranked_choice =
  fixes beats :: "'a \<Rightarrow> 'a \<Rightarrow> bool" and rank :: "'a \<Rightarrow> 'r::linorder"
  assumes beats_iff: "beats x y \<longleftrightarrow> rank x < rank y"
begin

lemma pick_best_least: "x \<in> set (a # xs) \<Longrightarrow> rank (pick_best beats a xs) \<le> rank x"
proof (induction xs arbitrary: a x)
  case (Cons y ys)
  let ?w = "if beats a y then a else y"
  have w: "rank ?w \<le> rank a" "rank ?w \<le> rank y" by (auto simp: beats_iff)
  have "rank (pick_best beats a (y # ys)) \<le> rank ?w" using Cons.IH [of ?w ?w] by simp
  with w Cons.IH [of x ?w] Cons.prems show ?case by auto
qed simp

lemma pick_best_unique:
  assumes "inj_on rank (set (a # xs))" and "m \<in> set (a # xs)"
    and "\<And>x. x \<in> set (a # xs) \<Longrightarrow> rank m \<le> rank x"
  shows "pick_best beats a xs = m"
proof -
  have "rank (pick_best beats a xs) = rank m"
    using pick_best_least [OF assms(2)] assms(3) [OF pick_best_member] by (rule antisym)
  with assms(1) show ?thesis using pick_best_member assms(2) by (rule inj_onD)
qed

lemma pick_best_order:
  assumes "set (a # xs) = set (b # ys)" and "inj_on rank (set (a # xs))"
  shows "pick_best beats a xs = pick_best beats b ys"
  using assms(2) pick_best_member [of beats b ys]
  by (intro pick_best_unique) (simp_all only: assms(1) pick_best_least)

lemma beats_antisym: "beats x y \<Longrightarrow> \<not> beats y x"
  by (auto simp: beats_iff)

lemma beats_total: "rank x \<noteq> rank y \<Longrightarrow> beats x y \<longleftrightarrow> \<not> beats y x"
  by (auto simp: beats_iff)

end

section \<open>Sliding windows\<close>

text \<open>A limiter keeps the times of accepted requests that are \<open>after\<close> a cutoff, which moves with the clock,
  and accepts a request when fewer than a limit are left.\<close>

locale sliding_window =
  fixes after :: "'t::linorder \<Rightarrow> 't \<Rightarrow> bool"
  assumes after_mono: "t \<le> t' \<Longrightarrow> after t' ts \<Longrightarrow> after t ts"
begin

lemma filter_later: "t \<le> t' \<Longrightarrow> filter (after t') (filter (after t) xs) = filter (after t') xs"
  by (auto intro!: filter_cong dest: after_mono)

lemma length_later: "t \<le> t' \<Longrightarrow> length (filter (after t') xs) \<le> length (filter (after t) xs)"
  by (metis filter_later length_filter_le)

lemma window_le: "length (filter (\<lambda>ts. after t ts \<and> ts \<le> t) xs) \<le> length (filter (after t) xs)"
  by (induction xs) auto

lemma window_extend:
  assumes "\<And>t. length (filter (\<lambda>ts. after t ts \<and> ts \<le> t) xs) \<le> n" and "length (filter (after now) xs) < n"
  shows "length (filter (\<lambda>ts. after t ts \<and> ts \<le> t) (xs @ [now])) \<le> n"
proof (cases "t < now")
  case True
  with assms(1) [of t] show ?thesis by auto
next
  case False
  have "length (filter (\<lambda>ts. after t ts \<and> ts \<le> t) (xs @ [now])) \<le> Suc (length (filter (\<lambda>ts. after t ts \<and> ts \<le> t) xs))"
    by simp
  moreover have "length (filter (\<lambda>ts. after t ts \<and> ts \<le> t) xs) \<le> length (filter (after now) xs)"
    using window_le [of t xs] length_later [of now t xs] False by (meson not_less order_trans)
  ultimately show ?thesis using assms(2) by linarith
qed

end

section \<open>Iterating over a set\<close>

text \<open>Python iterates over a set in an order it does not specify.  A model that does takes the order as
  an argument, of which only this is assumed.\<close>

definition lists_sets :: "('a set \<Rightarrow> 'a list) \<Rightarrow> bool" where
  "lists_sets order \<longleftrightarrow> (\<forall>A. finite A \<longrightarrow> set (order A) = A \<and> distinct (order A))"

lemma lists_sets_sorted: "lists_sets (sorted_list_of_set :: 'a::linorder set \<Rightarrow> 'a list)"
  by (simp add: lists_sets_def)

section \<open>Lists\<close>

lemma sum_list_filter_split:
  "sum_list (map f xs) =
     sum_list (map f (filter P xs)) + (sum_list (map f (filter (\<lambda>x. \<not> P x) xs)) :: 'a::comm_monoid_add)"
  by (induction xs) (auto simp: ac_simps)

lemma set_map_filter: "y \<in> set (List.map_filter f xs) \<longleftrightarrow> (\<exists>x \<in> set xs. f x = Some y)"
  by (induction xs) (auto simp: List.map_filter_simps split: option.splits)

lemma sum_list_nonneg_int: "(\<And>x. x \<in> set xs \<Longrightarrow> 0 \<le> f x) \<Longrightarrow> 0 \<le> (\<Sum>x\<leftarrow>xs. f x :: int)"
  by (induction xs) auto

lemma member_le_sum_list_int:
  "x \<in> set xs \<Longrightarrow> (\<And>y. y \<in> set xs \<Longrightarrow> 0 \<le> f y) \<Longrightarrow> f x \<le> (\<Sum>y\<leftarrow>xs. f y :: int)"
proof (induction xs)
  case (Cons a xs)
  have "0 \<le> (\<Sum>y\<leftarrow>xs. f y)"
    using Cons.prems(2) by (intro sum_list_nonneg_int) auto
  with Cons show ?case by fastforce
qed simp

text \<open>Values of type \<open>Any\<close>: what JSON can carry (a dictionary in insertion order).\<close>

datatype json =
    JNull
  | JBool bool
  | JInt int
  | JStr string
  | JList "json list"
  | JObj "(string \<times> json) list"

text \<open>Python's \<open>str.strip\<close> leaves nothing exactly when every character is white space.\<close>

definition py_space :: "char \<Rightarrow> bool" where
  "py_space c \<longleftrightarrow> (let n = (of_char c :: nat) in (9 \<le> n \<and> n \<le> 13) \<or> (28 \<le> n \<and> n \<le> 32) \<or> n = 133 \<or> n = 160)"

definition blank :: "string \<Rightarrow> bool" where
  "blank s \<longleftrightarrow> list_all py_space s"

end
