(* ===== verification/Tables.thy ===== *)
theory Tables
  imports Prelude
begin

text \<open>
  SQL tables with a primary key and Python dictionaries.  Both are association lists with
  distinct keys: a table in row order, a dictionary in insertion order, which is the order
  Python iterates in.  \<open>update_row\<close> is \<open>UPDATE ... WHERE key = k\<close> (no effect when no row
  matches), \<open>add_row\<close> appends the row of an \<open>INSERT\<close> whose key is new, \<open>AList.update\<close> is
  \<open>d[k] = v\<close> and \<open>AList.delete\<close> is \<open>d.pop(k, None)\<close> or \<open>DELETE\<close>.
\<close>

type_synonym ('k, 'v) table = "('k \<times> 'v) list"

abbreviation keys :: "('k, 'v) table \<Rightarrow> 'k list" where
  "keys t \<equiv> map fst t"

definition keyed :: "('k, 'v) table \<Rightarrow> bool" where
  "keyed t \<longleftrightarrow> distinct (keys t)"

definition update_row :: "'k \<Rightarrow> ('v \<Rightarrow> 'v) \<Rightarrow> ('k, 'v) table \<Rightarrow> ('k, 'v) table" where
  "update_row k f t = map (\<lambda>(k', v). (k', if k' = k then f v else v)) t"

definition add_row :: "'k \<Rightarrow> 'v \<Rightarrow> ('k, 'v) table \<Rightarrow> ('k, 'v) table" where
  "add_row k v t = t @ [(k, v)]"

definition has_key :: "'k \<Rightarrow> ('k, 'v) table \<Rightarrow> bool" where
  "has_key k t \<longleftrightarrow> map_of t k \<noteq> None"

text \<open>The sum of a column over all rows.\<close>

definition col_sum :: "('v \<Rightarrow> int) \<Rightarrow> ('k, 'v) table \<Rightarrow> int" where
  "col_sum g t = (\<Sum>(k, v)\<leftarrow>t. g v)"

section \<open>Keys and lookups\<close>

lemma keyed_Nil [simp]: "keyed []"
  by (simp add: keyed_def)

lemma keys_update_row [simp]: "keys (update_row k f t) = keys t"
  by (induction t) (auto simp: update_row_def)

lemma keyed_update_row [simp]: "keyed (update_row k f t) = keyed t"
  by (simp add: keyed_def)

lemma has_key_iff: "has_key k t \<longleftrightarrow> k \<in> set (keys t)"
  by (auto simp: has_key_def map_of_eq_None_iff)

lemma keyed_add_row [simp]: "\<not> has_key k t \<Longrightarrow> keyed (add_row k v t) = keyed t"
  by (auto simp: keyed_def add_row_def has_key_iff)

lemma map_of_update_row [simp]:
  "map_of (update_row k f t) j = (if j = k then map_option f (map_of t k) else map_of t j)"
  by (induction t) (auto simp: update_row_def)

lemma map_of_add_row [simp]:
  "map_of (add_row k v t) j = (case map_of t j of None \<Rightarrow> if j = k then Some v else None | Some w \<Rightarrow> Some w)"
  by (auto simp: add_row_def map_add_def split: option.splits)

lemma has_key_update_row [simp]: "has_key j (update_row k f t) = has_key j t"
  by (auto simp: has_key_def)

lemma has_key_add_row [simp]: "has_key j (add_row k v t) \<longleftrightarrow> j = k \<or> has_key j t"
  by (auto simp: has_key_def split: option.splits)

lemma keyed_dict_update [simp]: "keyed (AList.update k v t) = keyed t"
proof -
  have "keyed (AList.update k v t)" if "keyed t"
    using that by (simp add: keyed_def distinct_update)
  moreover have "keyed t" if "keyed (AList.update k v t)"
    using that
  proof (induction t)
    case (Cons p t)
    then show ?case
      by (cases p) (auto simp: keyed_def update_keys split: if_splits)
  qed simp
  ultimately show ?thesis by blast
qed

lemma keyed_delete [simp]: "keyed t \<Longrightarrow> keyed (AList.delete k t)"
  by (simp add: keyed_def distinct_delete)

lemma map_of_dict_update [simp]: "map_of (AList.update k v t) = (map_of t)(k \<mapsto> v)"
  by (rule update_conv')

lemma map_of_dict_delete [simp]: "map_of (AList.delete k t) = (map_of t)(k := None)"
  by (rule delete_conv')

lemma has_key_dict_update [simp]: "has_key j (AList.update k v t) \<longleftrightarrow> j = k \<or> has_key j t"
  by (auto simp: has_key_def)

lemma has_key_delete [simp]: "has_key j (AList.delete k t) \<longleftrightarrow> j \<noteq> k \<and> has_key j t"
  by (auto simp: has_key_def)

lemma keyed_map_of: "keyed t \<Longrightarrow> (k, v) \<in> set t \<longleftrightarrow> map_of t k = Some v"
  by (auto simp: keyed_def dest: map_of_SomeD)

section \<open>Column sums\<close>

lemma col_sum_Nil [simp]: "col_sum g [] = 0"
  by (simp add: col_sum_def)

lemma col_sum_Cons [simp]: "col_sum g ((k, v) # t) = g v + col_sum g t"
  by (simp add: col_sum_def)

lemma col_sum_add_row [simp]: "col_sum g (add_row k v t) = col_sum g t + g v"
  by (simp add: col_sum_def add_row_def)

lemma update_row_absent: "\<not> has_key k t \<Longrightarrow> update_row k f t = t"
  by (induction t) (auto simp: update_row_def has_key_iff split: if_splits)

lemma col_sum_update_row:
  assumes "keyed t"
  shows "col_sum g (update_row k f t) =
    col_sum g t + (case map_of t k of None \<Rightarrow> 0 | Some v \<Rightarrow> g (f v) - g v)"
  using assms
proof (induction t)
  case (Cons p t)
  obtain j v where p: "p = (j, v)" by (cases p)
  show ?case
  proof (cases "j = k")
    case True
    with Cons.prems p have "\<not> has_key k t" by (auto simp: keyed_def has_key_iff)
    then have "update_row k f t = t" by (rule update_row_absent)
    with True p show ?thesis by (simp add: update_row_def)
  next
    case False
    with Cons p show ?thesis by (simp add: update_row_def keyed_def)
  qed
qed (simp add: update_row_def)

lemma col_sum_nonneg:
  assumes "keyed t" and "\<And>k v. map_of t k = Some v \<Longrightarrow> 0 \<le> g v"
  shows "0 \<le> col_sum g t"
  unfolding col_sum_def
proof (rule sum_list_nonneg_int)
  fix p assume p: "p \<in> set t"
  then show "0 \<le> (case p of (k, v) \<Rightarrow> g v)"
    using assms keyed_map_of [OF assms(1)] by (auto split: prod.split)
qed

lemma col_sum_member_le:
  assumes "keyed t" and "map_of t k = Some v"
    and "\<And>k v. map_of t k = Some v \<Longrightarrow> 0 \<le> g v"
  shows "g v \<le> col_sum g t"
proof -
  have "(k, v) \<in> set t" using assms(2) by (rule map_of_SomeD)
  then have "(case (k, v) of (k, v) \<Rightarrow> g v) \<le> (\<Sum>p\<leftarrow>t. case p of (k, v) \<Rightarrow> g v)"
    by (rule member_le_sum_list_int)
       (use assms(1,3) in \<open>auto simp: keyed_map_of\<close>)
  then show ?thesis by (simp add: col_sum_def)
qed

lemma col_sum_cong:
  "(\<And>k v. (k, v) \<in> set t \<Longrightarrow> g v = h v) \<Longrightarrow> col_sum g t = col_sum h t"
  unfolding col_sum_def by (rule arg_cong [where f = sum_list], rule map_cong) auto

end
