(* ===== verification/Ledger.thy ===== *)
theory Ledger
  imports Tables
begin

text \<open>
  The credit ledger of \<open>src/economics/ledger.py\<close> with the validation rules of
  \<open>src/economics/operations.py\<close>.  The SQLite tables \<open>accounts\<close>, \<open>operations\<close> and
  \<open>escrows\<close> are association lists in row order, with their CHECK and PRIMARY KEY
  constraints written out; \<open>supply_tracking\<close> has one row and is the field
  \<open>total_supply\<close>.  \<open>lock_held\<close> is the state of the \<open>threading.Lock\<close> the ledger shares
  with the managers built on it: the lock is not re-entrant, so a method called while the
  same thread already holds it never returns, which the model writes as the value
  \<open>Inl Deadlock\<close>.  Fresh UUIDs and the clock are arguments.

  The record is extensible: the stake, slashing and bounty managers add their own tables to
  the same database, and every operation below works on the extended state as well.
\<close>

section \<open>State\<close>

datatype error =
    ValueError string
  | InsufficientBalanceError
  | AccountExistsError
  | EscrowNotFoundError
  | EscrowAlreadyReleasedError
  | InsufficientStakeError
  | IntegrityError
  | Deadlock

record account_row =
  balance :: int
  locked :: int
  unbonding :: int

record escrow_row =
  esc_account :: string
  esc_amount :: int
  esc_created_at :: int
  esc_released :: bool
  esc_released_to :: "string option"

datatype op_type = MINT | TRANSFER | ESCROW | RELEASE | SLASH

record ledger_op =
  op_id :: string
  op_account :: string
  op_kind :: string
  op_amount :: int
  op_timestamp :: int
  op_metadata :: "(string \<times> json) list"

record ledger =
  lock_held :: bool
  accounts :: "(string, account_row) table"
  operations :: "ledger_op list"
  escrows :: "(string, escrow_row) table"
  total_supply :: int

definition init_ledger :: ledger where
  "init_ledger = \<lparr>lock_held = False, accounts = [], operations = [], escrows = [],
     total_supply = 0\<rparr>"

definition MAX_SUPPLY :: int where
  "MAX_SUPPLY = 1000000000000"

definition SYSTEM_ACCOUNT_ID :: string where
  "SYSTEM_ACCOUNT_ID = ''system''"

text \<open>\<open>OpType(value)\<close> looks an enum member up by its value and raises ValueError on any
  other string.\<close>

fun op_type_value :: "op_type \<Rightarrow> string" where
  "op_type_value MINT = ''MINT''"
| "op_type_value TRANSFER = ''TRANSFER''"
| "op_type_value ESCROW = ''ESCROW''"
| "op_type_value RELEASE = ''RELEASE''"
| "op_type_value SLASH = ''SLASH''"

definition op_type_of :: "string \<Rightarrow> op_type option" where
  "op_type_of s = List.find (\<lambda>t. op_type_value t = s) [MINT, TRANSFER, ESCROW, RELEASE, SLASH]"

section \<open>Statements\<close>

definition check_row :: "account_row \<Rightarrow> bool" where
  "check_row r \<longleftrightarrow> 0 \<le> balance r \<and> 0 \<le> locked r \<and> 0 \<le> unbonding r"

definition insert_account :: "string \<Rightarrow> int \<Rightarrow> 'a ledger_scheme \<Rightarrow> error + 'a ledger_scheme" where
  "insert_account a b db =
     (if has_key a (accounts db) \<or> b < 0 then Inl IntegrityError
      else Inr (db\<lparr>accounts := add_row a \<lparr>balance = b, locked = 0, unbonding = 0\<rparr> (accounts db)\<rparr>))"

definition update_account ::
  "string \<Rightarrow> (account_row \<Rightarrow> account_row) \<Rightarrow> 'a ledger_scheme \<Rightarrow> error + 'a ledger_scheme" where
  "update_account a f db =
     (if (case map_of (accounts db) a of None \<Rightarrow> True | Some r \<Rightarrow> check_row (f r))
      then Inr (db\<lparr>accounts := update_row a f (accounts db)\<rparr>)
      else Inl IntegrityError)"

definition insert_op :: "ledger_op \<Rightarrow> 'a ledger_scheme \<Rightarrow> error + 'a ledger_scheme" where
  "insert_op op db =
     (if op_id op \<in> set (map op_id (operations db)) then Inl IntegrityError
      else Inr (db\<lparr>operations := operations db @ [op]\<rparr>))"

definition insert_escrow :: "string \<Rightarrow> escrow_row \<Rightarrow> 'a ledger_scheme \<Rightarrow> error + 'a ledger_scheme" where
  "insert_escrow e row db =
     (if has_key e (escrows db) then Inl IntegrityError
      else Inr (db\<lparr>escrows := add_row e row (escrows db)\<rparr>))"

definition settle_escrow :: "string \<Rightarrow> string \<Rightarrow> 'a ledger_scheme \<Rightarrow> 'a ledger_scheme" where
  "settle_escrow e to db =
     db\<lparr>escrows := update_row e (\<lambda>r. r\<lparr>esc_released := True, esc_released_to := Some to\<rparr>) (escrows db)\<rparr>"

definition with_lock ::
  "('a ledger_scheme \<Rightarrow> error + 'r \<times> 'a ledger_scheme) \<Rightarrow> 'a ledger_scheme
     \<Rightarrow> error + 'r \<times> 'a ledger_scheme" where
  "with_lock body db =
     (if lock_held db then Inl Deadlock
      else case body (db\<lparr>lock_held := True\<rparr>) of
             Inl e \<Rightarrow> Inl e
           | Inr (x, db') \<Rightarrow> Inr (x, db'\<lparr>lock_held := False\<rparr>))"

definition credit :: "int \<Rightarrow> account_row \<Rightarrow> account_row" where
  "credit n r = r\<lparr>balance := balance r + n\<rparr>"

definition move_to_locked :: "int \<Rightarrow> account_row \<Rightarrow> account_row" where
  "move_to_locked n r = r\<lparr>balance := balance r - n, locked := locked r + n\<rparr>"

definition unlock :: "int \<Rightarrow> account_row \<Rightarrow> account_row" where
  "unlock n r = r\<lparr>locked := locked r - n\<rparr>"

section \<open>Validation\<close>

definition validate_account_id :: "string \<Rightarrow> error + unit" where
  "validate_account_id a = ensure (\<not> blank a) (ValueError ''Account ID cannot be empty'')"

definition validate_amount :: "int \<Rightarrow> error + unit" where
  "validate_amount n = ensure (0 < n) (ValueError ''Amount must be positive'')"

text \<open>\<open>validate_operation\<close> checks the metadata keys an audit record must have.\<close>

definition validate_operation :: "op_type \<Rightarrow> ledger_op \<Rightarrow> error + unit" where
  "validate_operation ty op =
     res_bind (validate_account_id (op_account op)) (\<lambda>_.
     res_bind (validate_amount (op_amount op)) (\<lambda>_.
     let has = (\<lambda>k. has_key k (op_metadata op)) in
     case ty of
       TRANSFER \<Rightarrow> ensure (has ''to_account'') (ValueError ''TRANSFER requires to_account in metadata'')
     | ESCROW \<Rightarrow> ensure (has ''escrow_id'') (ValueError ''ESCROW requires escrow_id in metadata'')
     | RELEASE \<Rightarrow>
         (if \<not> has ''escrow_id'' then Inl (ValueError ''RELEASE requires escrow_id in metadata'')
          else ensure (has ''to_account'') (ValueError ''RELEASE requires to_account in metadata''))
     | _ \<Rightarrow> Inr ()))"

section \<open>Queries\<close>

definition get_balance :: "string \<Rightarrow> 'a ledger_scheme \<Rightarrow> int" where
  "get_balance a db = (case map_of (accounts db) a of None \<Rightarrow> 0 | Some r \<Rightarrow> balance r)"

definition get_account :: "string \<Rightarrow> 'a ledger_scheme \<Rightarrow> account_row option" where
  "get_account a db = map_of (accounts db) a"

definition get_total_supply :: "'a ledger_scheme \<Rightarrow> error + int \<times> 'a ledger_scheme" where
  "get_total_supply db = with_lock (\<lambda>db. Inr (total_supply db, db)) db"

text \<open>\<open>ORDER BY timestamp_ns DESC LIMIT ?\<close>; a negative limit means no limit in SQLite.  SQL
  leaves the order of rows with equal timestamps open; the model takes the insertion order.
  The second component of an entry is the parsed operation type.\<close>

definition sql_limit :: "int \<Rightarrow> 'a list \<Rightarrow> 'a list" where
  "sql_limit n xs = (if n < 0 then xs else take (nat n) xs)"

fun parse_ops :: "ledger_op list \<Rightarrow> error + (ledger_op \<times> op_type) list" where
  "parse_ops [] = Inr []"
| "parse_ops (op # ops) =
     (case op_type_of (op_kind op) of
        None \<Rightarrow> Inl (ValueError ''not a valid OpType'')
      | Some ty \<Rightarrow> res_bind (parse_ops ops) (\<lambda>rest. Inr ((op, ty) # rest)))"

definition get_audit_trail ::
  "string option \<Rightarrow> int \<Rightarrow> 'a ledger_scheme \<Rightarrow> error + (ledger_op \<times> op_type) list" where
  "get_audit_trail acct limit db =
     (let rows = (case acct of
                    None \<Rightarrow> operations db
                  | Some a \<Rightarrow> if a = [] then operations db
                             else filter (\<lambda>op. op_account op = a) (operations db))
      in parse_ops (sql_limit limit (sort_key (\<lambda>op. - op_timestamp op) rows)))"

section \<open>Operations\<close>

definition create_account ::
  "string \<Rightarrow> int \<Rightarrow> string option \<Rightarrow> string \<Rightarrow> int \<Rightarrow> 'a ledger_scheme
     \<Rightarrow> error + unit \<times> 'a ledger_scheme" where
  "create_account a b minter uuid now db =
     res_bind (validate_account_id a) (\<lambda>_.
     if b < 0 then Inl (ValueError ''Initial balance cannot be negative'')
     else let m = (case minter of None \<Rightarrow> SYSTEM_ACCOUNT_ID | Some m \<Rightarrow> m) in
     if 0 < b \<and> m \<noteq> SYSTEM_ACCOUNT_ID then Inl (ValueError ''not authorized to mint credits'')
     else with_lock (\<lambda>db.
       if has_key a (accounts db) then Inl AccountExistsError
       else if 0 < b \<and> total_supply db + b > MAX_SUPPLY
       then Inl (ValueError ''would exceed MAX_SUPPLY'')
       else res_bind (insert_account a b db) (\<lambda>db.
         if 0 < b then
           res_bind (insert_op \<lparr>op_id = uuid, op_account = a, op_kind = op_type_value MINT,
               op_amount = b, op_timestamp = now,
               op_metadata = [(''reason'', JStr ''initial_balance''), (''minter'', JStr m)]\<rparr> db) (\<lambda>db.
           Inr ((), db\<lparr>total_supply := total_supply db + b\<rparr>))
         else Inr ((), db))) db)"

definition transfer ::
  "string \<Rightarrow> string \<Rightarrow> int \<Rightarrow> bool \<Rightarrow> string \<times> string \<times> string \<Rightarrow> int \<Rightarrow> 'a ledger_scheme
     \<Rightarrow> error + string \<times> 'a ledger_scheme" where
  "transfer from_id to_id amount allow_create_recipient uuids now db =
     (let (transfer_id, debit_id, credit_id) = uuids in
     res_bind (validate_account_id from_id) (\<lambda>_.
     res_bind (validate_account_id to_id) (\<lambda>_.
     res_bind (validate_amount amount) (\<lambda>_.
     with_lock (\<lambda>db.
       if get_balance from_id db < amount then Inl InsufficientBalanceError
       else if \<not> has_key to_id (accounts db) \<and> \<not> allow_create_recipient
       then Inl (ValueError ''Recipient account does not exist'')
       else
         res_bind (if has_key to_id (accounts db) then Inr db else insert_account to_id 0 db) (\<lambda>db.
         res_bind (update_account from_id (credit (- amount)) db) (\<lambda>db.
         res_bind (if has_key to_id (accounts db)
                   then update_account to_id (credit amount) db
                   else insert_account to_id amount db) (\<lambda>db.
         res_bind (insert_op \<lparr>op_id = debit_id, op_account = from_id,
             op_kind = op_type_value TRANSFER, op_amount = - amount, op_timestamp = now,
             op_metadata = [(''to_account'', JStr to_id), (''transfer_id'', JStr transfer_id)]\<rparr> db) (\<lambda>db.
         res_bind (insert_op \<lparr>op_id = credit_id, op_account = to_id,
             op_kind = op_type_value TRANSFER, op_amount = amount, op_timestamp = now,
             op_metadata = [(''from_account'', JStr from_id), (''transfer_id'', JStr transfer_id)]\<rparr> db) (\<lambda>db.
         Inr (transfer_id, db))))))) db))))"

definition escrow ::
  "string \<Rightarrow> int \<Rightarrow> string \<Rightarrow> string \<Rightarrow> int \<Rightarrow> 'a ledger_scheme \<Rightarrow> error + unit \<times> 'a ledger_scheme" where
  "escrow account_id amount escrow_id uuid now db =
     res_bind (validate_account_id account_id) (\<lambda>_.
     res_bind (validate_amount amount) (\<lambda>_.
     with_lock (\<lambda>db.
       if get_balance account_id db < amount then Inl InsufficientBalanceError
       else
         res_bind (update_account account_id (move_to_locked amount) db) (\<lambda>db.
         res_bind (insert_escrow escrow_id \<lparr>esc_account = account_id, esc_amount = amount,
             esc_created_at = now, esc_released = False, esc_released_to = None\<rparr> db) (\<lambda>db.
         res_bind (insert_op \<lparr>op_id = uuid, op_account = account_id,
             op_kind = op_type_value ESCROW, op_amount = amount, op_timestamp = now,
             op_metadata = [(''escrow_id'', JStr escrow_id)]\<rparr> db) (\<lambda>db.
         Inr ((), db))))) db))"

definition release_escrow ::
  "string \<Rightarrow> string \<Rightarrow> string \<Rightarrow> int \<Rightarrow> 'a ledger_scheme \<Rightarrow> error + unit \<times> 'a ledger_scheme" where
  "release_escrow escrow_id to_id uuid now db =
     res_bind (validate_account_id to_id) (\<lambda>_.
     with_lock (\<lambda>db.
       case map_of (escrows db) escrow_id of
         None \<Rightarrow> Inl EscrowNotFoundError
       | Some row \<Rightarrow>
           if esc_released row then Inl EscrowAlreadyReleasedError
           else
             res_bind (update_account (esc_account row) (unlock (esc_amount row)) db) (\<lambda>db.
             res_bind (if has_key to_id (accounts db)
                       then update_account to_id (credit (esc_amount row)) db
                       else insert_account to_id (esc_amount row) db) (\<lambda>db.
             let db = settle_escrow escrow_id to_id db in
             res_bind (insert_op \<lparr>op_id = uuid, op_account = to_id,
                 op_kind = op_type_value RELEASE, op_amount = esc_amount row, op_timestamp = now,
                 op_metadata = [(''escrow_id'', JStr escrow_id),
                                (''from_account'', JStr (esc_account row))]\<rparr> db) (\<lambda>db.
             Inr ((), db))))) db)"

definition cancel_escrow ::
  "string \<Rightarrow> string \<Rightarrow> int \<Rightarrow> 'a ledger_scheme \<Rightarrow> error + unit \<times> 'a ledger_scheme" where
  "cancel_escrow escrow_id uuid now db =
     with_lock (\<lambda>db.
       case map_of (escrows db) escrow_id of
         None \<Rightarrow> Inl EscrowNotFoundError
       | Some row \<Rightarrow>
           if esc_released row then Inl EscrowAlreadyReleasedError
           else
             res_bind (update_account (esc_account row) (move_to_locked (- esc_amount row)) db) (\<lambda>db.
             let db = settle_escrow escrow_id (esc_account row) db in
             res_bind (insert_op \<lparr>op_id = uuid, op_account = esc_account row,
                 op_kind = op_type_value ESCROW, op_amount = - esc_amount row, op_timestamp = now,
                 op_metadata = [(''escrow_id'', JStr escrow_id), (''action'', JStr ''cancel'')]\<rparr> db) (\<lambda>db.
             Inr ((), db)))) db"

section \<open>Statement lemmas\<close>

text \<open>Each statement is characterised by an equivalence, so that \<open>simp add: stmt_simps\<close>
  turns a successful method body into its guards and the state it computes.\<close>

named_theorems stmt_simps \<open>inversion of successful SQL statements and of the lock\<close>

lemma insert_account_Inr [stmt_simps]:
  "insert_account a b db = Inr db' \<longleftrightarrow>
     \<not> has_key a (accounts db) \<and> 0 \<le> b \<and>
     db' = db\<lparr>accounts := add_row a \<lparr>balance = b, locked = 0, unbonding = 0\<rparr> (accounts db)\<rparr>"
  by (auto simp: insert_account_def)

lemma update_account_Inr [stmt_simps]:
  "update_account a f db = Inr db' \<longleftrightarrow>
     (\<forall>r. map_of (accounts db) a = Some r \<longrightarrow> check_row (f r)) \<and>
     db' = db\<lparr>accounts := update_row a f (accounts db)\<rparr>"
  by (auto simp: update_account_def split: option.splits)

lemma insert_op_Inr [stmt_simps]:
  "insert_op op db = Inr db' \<longleftrightarrow>
     op_id op \<notin> set (map op_id (operations db)) \<and> db' = db\<lparr>operations := operations db @ [op]\<rparr>"
  by (auto simp: insert_op_def)

lemma insert_escrow_Inr [stmt_simps]:
  "insert_escrow e row db = Inr db' \<longleftrightarrow>
     \<not> has_key e (escrows db) \<and> db' = db\<lparr>escrows := add_row e row (escrows db)\<rparr>"
  by (auto simp: insert_escrow_def)

lemma with_lock_Inr [stmt_simps]:
  "with_lock body db = Inr (x, db') \<longleftrightarrow>
     \<not> lock_held db \<and>
     (\<exists>db1. body (db\<lparr>lock_held := True\<rparr>) = Inr (x, db1) \<and> db' = db1\<lparr>lock_held := False\<rparr>)"
  by (auto simp: with_lock_def split: sum.splits)

lemma with_lock_deadlock [simp]: "lock_held db \<Longrightarrow> with_lock body db = Inl Deadlock"
  by (simp add: with_lock_def)

lemma validate_account_id_Inr [stmt_simps]: "validate_account_id a = Inr u \<longleftrightarrow> \<not> blank a"
  by (simp add: validate_account_id_def res_simps)

lemma validate_amount_Inr [stmt_simps]: "validate_amount n = Inr u \<longleftrightarrow> 0 < n"
  by (simp add: validate_amount_def res_simps)

lemmas row_defs = credit_def move_to_locked_def unlock_def check_row_def

lemma if_Inr_iff [stmt_simps]:
  "(if b then Inl e else x) = Inr y \<longleftrightarrow> \<not> b \<and> x = Inr y"
  "(if b then x else Inl e) = Inr y \<longleftrightarrow> b \<and> x = Inr y"
  by auto

section \<open>Successful operations\<close>

text \<open>What a successful call means, one lemma per operation: the guards that held, and the
  new state as an update of the old one.\<close>

definition mk_op :: "string \<Rightarrow> string \<Rightarrow> op_type \<Rightarrow> int \<Rightarrow> int \<Rightarrow> (string \<times> json) list \<Rightarrow> ledger_op" where
  "mk_op i a ty n t m = \<lparr>op_id = i, op_account = a, op_kind = op_type_value ty, op_amount = n,
     op_timestamp = t, op_metadata = m\<rparr>"

lemma create_account_Inr:
  assumes "create_account a b minter uuid now db = Inr (u, db')"
  shows "\<not> blank a \<and> 0 \<le> b \<and> \<not> lock_held db \<and> \<not> has_key a (accounts db) \<and>
    (0 < b \<longrightarrow> (minter = None \<or> minter = Some SYSTEM_ACCOUNT_ID) \<and>
       total_supply db + b \<le> MAX_SUPPLY \<and> uuid \<notin> set (map op_id (operations db))) \<and>
    db' = db\<lparr>lock_held := False,
       accounts := add_row a \<lparr>balance = b, locked = 0, unbonding = 0\<rparr> (accounts db),
       operations := operations db @
         (if 0 < b then [mk_op uuid a MINT b now
            [(''reason'', JStr ''initial_balance''), (''minter'', JStr SYSTEM_ACCOUNT_ID)]] else []),
       total_supply := total_supply db + b\<rparr>"
proof (cases "0 < b")
  case True
  with assms show ?thesis
    by (auto simp: create_account_def Let_def res_simps stmt_simps mk_op_def split: option.splits)
next
  case False
  with assms show ?thesis
    by (auto simp: create_account_def Let_def res_simps stmt_simps split: option.splits if_splits)
qed

definition open_row :: "string \<Rightarrow> (string, account_row) table \<Rightarrow> (string, account_row) table" where
  "open_row a t = (if has_key a t then t else add_row a \<lparr>balance = 0, locked = 0, unbonding = 0\<rparr> t)"

lemma transfer_Inr:
  assumes "transfer f t n allow (i, d, c) now db = Inr (r, db')"
  shows "r = i \<and> \<not> blank f \<and> \<not> blank t \<and> 0 < n \<and> \<not> lock_held db \<and> n \<le> get_balance f db \<and>
    (has_key t (accounts db) \<or> allow) \<and>
    d \<noteq> c \<and> d \<notin> set (map op_id (operations db)) \<and> c \<notin> set (map op_id (operations db)) \<and>
    db' = db\<lparr>lock_held := False,
       accounts := update_row t (credit n) (update_row f (credit (- n)) (open_row t (accounts db))),
       operations := operations db @
         [mk_op d f TRANSFER (- n) now [(''to_account'', JStr t), (''transfer_id'', JStr i)],
          mk_op c t TRANSFER n now [(''from_account'', JStr f), (''transfer_id'', JStr i)]]\<rparr>"
proof (cases "has_key t (accounts db)")
  case True
  with assms show ?thesis
    by (auto simp: transfer_def Let_def res_simps stmt_simps mk_op_def open_row_def get_balance_def)
next
  case False
  with assms show ?thesis
    by (auto simp: transfer_def Let_def res_simps stmt_simps mk_op_def open_row_def get_balance_def)
qed

lemma escrow_Inr:
  assumes "escrow a n e uuid now db = Inr (u, db')"
  shows "\<not> blank a \<and> 0 < n \<and> \<not> lock_held db \<and> n \<le> get_balance a db \<and>
    \<not> has_key e (escrows db) \<and> uuid \<notin> set (map op_id (operations db)) \<and>
    db' = db\<lparr>lock_held := False,
       accounts := update_row a (move_to_locked n) (accounts db),
       escrows := add_row e \<lparr>esc_account = a, esc_amount = n, esc_created_at = now,
          esc_released = False, esc_released_to = None\<rparr> (escrows db),
       operations := operations db @ [mk_op uuid a ESCROW n now [(''escrow_id'', JStr e)]]\<rparr>"
  using assms by (auto simp: escrow_def res_simps stmt_simps mk_op_def get_balance_def)

lemma update_row_add_row:
  "\<not> has_key a t \<Longrightarrow> update_row a f (add_row a r t) = add_row a (f r) t"
  using update_row_absent [of a t f] by (simp add: add_row_def update_row_def)

lemma credit_open_row:
  "(if has_key a t then update_row a (credit n) t
    else add_row a \<lparr>balance = n, locked = 0, unbonding = 0\<rparr> t) = update_row a (credit n) (open_row a t)"
  by (simp add: open_row_def update_row_add_row credit_def)

lemma release_escrow_Inr:
  assumes "release_escrow e t uuid now db = Inr (u, db')"
  obtains row where "map_of (escrows db) e = Some row" and "\<not> esc_released row" and "\<not> blank t"
    and "\<not> lock_held db" and "uuid \<notin> set (map op_id (operations db))"
    and "\<And>r. map_of (accounts db) (esc_account row) = Some r \<Longrightarrow> check_row (unlock (esc_amount row) r)"
    and "db' = db\<lparr>lock_held := False,
       accounts := update_row t (credit (esc_amount row)) (open_row t
         (update_row (esc_account row) (unlock (esc_amount row)) (accounts db))),
       escrows := update_row e (\<lambda>r. r\<lparr>esc_released := True, esc_released_to := Some t\<rparr>) (escrows db),
       operations := operations db @ [mk_op uuid t RELEASE (esc_amount row) now
         [(''escrow_id'', JStr e), (''from_account'', JStr (esc_account row))]]\<rparr>"
proof -
  from assms obtain row where row: "map_of (escrows db) e = Some row" and nr: "\<not> esc_released row"
    by (auto simp: release_escrow_def res_simps stmt_simps split: option.splits if_splits)
  show thesis
  proof (rule that [OF row nr])
    let ?t = "update_row (esc_account row) (unlock (esc_amount row)) (accounts db)"
    show "db' = db\<lparr>lock_held := False,
       accounts := update_row t (credit (esc_amount row)) (open_row t ?t),
       escrows := update_row e (\<lambda>r. r\<lparr>esc_released := True, esc_released_to := Some t\<rparr>) (escrows db),
       operations := operations db @ [mk_op uuid t RELEASE (esc_amount row) now
         [(''escrow_id'', JStr e), (''from_account'', JStr (esc_account row))]]\<rparr>"
      using assms row nr credit_open_row [of t ?t "esc_amount row"]
      by (auto simp: release_escrow_def res_simps stmt_simps mk_op_def settle_escrow_def Let_def
            split: if_splits)
  qed (use assms row nr in \<open>auto simp: release_escrow_def res_simps stmt_simps Let_def
        settle_escrow_def split: if_splits\<close>)
qed

lemma cancel_escrow_Inr:
  assumes "cancel_escrow e uuid now db = Inr (u, db')"
  obtains row where "map_of (escrows db) e = Some row" and "\<not> esc_released row"
    and "\<not> lock_held db" and "uuid \<notin> set (map op_id (operations db))"
    and "\<And>r. map_of (accounts db) (esc_account row) = Some r \<Longrightarrow>
           check_row (move_to_locked (- esc_amount row) r)"
    and "db' = db\<lparr>lock_held := False,
       accounts := update_row (esc_account row) (move_to_locked (- esc_amount row)) (accounts db),
       escrows := update_row e (\<lambda>r. r\<lparr>esc_released := True, esc_released_to := Some (esc_account row)\<rparr>)
         (escrows db),
       operations := operations db @ [mk_op uuid (esc_account row) ESCROW (- esc_amount row) now
         [(''escrow_id'', JStr e), (''action'', JStr ''cancel'')]]\<rparr>"
  using assms that
  by (auto simp: cancel_escrow_def res_simps stmt_simps mk_op_def settle_escrow_def Let_def
        split: option.splits if_splits)

section \<open>Cells and totals of the accounts table\<close>

definition cell :: "('v \<Rightarrow> int) \<Rightarrow> 'k \<Rightarrow> ('k, 'v) table \<Rightarrow> int" where
  "cell g a t = (case map_of t a of None \<Rightarrow> 0 | Some r \<Rightarrow> g r)"

definition holdings :: "account_row \<Rightarrow> int" where
  "holdings r = balance r + locked r + unbonding r"

definition rows_ok :: "(string, account_row) table \<Rightarrow> bool" where
  "rows_ok t \<longleftrightarrow> keyed t \<and> (\<forall>a r. map_of t a = Some r \<longrightarrow> check_row r)"

text \<open>\<open>row_simps\<close> says what every row update does to a cell, to the total and to the keys.\<close>

named_theorems row_simps \<open>effect of the row updates on cells, totals and keys\<close>

lemma cell_add_row [row_simps]:
  "\<not> has_key a t \<Longrightarrow> cell g b (add_row a r t) = (if b = a then g r else cell g b t)"
  by (auto simp: cell_def has_key_def split: option.splits)

lemma cell_update_row [row_simps]:
  "(\<And>r. g (f r) = g r + n) \<Longrightarrow>
     cell g b (update_row a f t) = cell g b t + (if b = a \<and> has_key a t then n else 0)"
  by (auto simp: cell_def has_key_def split: option.splits)

lemma credit_cells [row_simps]:
  "cell balance b (update_row a (credit n) t) = cell balance b t + (if b = a \<and> has_key a t then n else 0)"
  "cell locked b (update_row a (credit n) t) = cell locked b t"
  "cell unbonding b (update_row a (credit n) t) = cell unbonding b t"
  by (auto simp: cell_def has_key_def credit_def split: option.splits)

lemma move_to_locked_cells [row_simps]:
  "cell balance b (update_row a (move_to_locked n) t) =
     cell balance b t - (if b = a \<and> has_key a t then n else 0)"
  "cell locked b (update_row a (move_to_locked n) t) =
     cell locked b t + (if b = a \<and> has_key a t then n else 0)"
  "cell unbonding b (update_row a (move_to_locked n) t) = cell unbonding b t"
  by (auto simp: cell_def has_key_def move_to_locked_def split: option.splits)

lemma unlock_cells [row_simps]:
  "cell balance b (update_row a (unlock n) t) = cell balance b t"
  "cell locked b (update_row a (unlock n) t) =
     cell locked b t - (if b = a \<and> has_key a t then n else 0)"
  "cell unbonding b (update_row a (unlock n) t) = cell unbonding b t"
  by (auto simp: cell_def has_key_def unlock_def split: option.splits)

lemma open_row_simps [row_simps]:
  "cell balance b (open_row a t) = cell balance b t"
  "cell locked b (open_row a t) = cell locked b t"
  "cell unbonding b (open_row a t) = cell unbonding b t"
  "has_key b (open_row a t) \<longleftrightarrow> b = a \<or> has_key b t"
  "keyed (open_row a t) = keyed t"
  "col_sum holdings (open_row a t) = col_sum holdings t"
  by (auto simp: open_row_def cell_add_row cell_def has_key_def holdings_def split: option.splits)

lemma total_update_row [row_simps]:
  "keyed t \<Longrightarrow> (\<And>r. g (f r) = g r + n) \<Longrightarrow>
     col_sum g (update_row a f t) = col_sum g t + (if has_key a t then n else 0)"
  by (auto simp: col_sum_update_row has_key_def split: option.splits)

lemma holdings_updates [row_simps]:
  "holdings (credit n r) = holdings r + n"
  "holdings (move_to_locked n r) = holdings r"
  "holdings (unlock n r) = holdings r - n"
  by (auto simp: holdings_def credit_def move_to_locked_def unlock_def)

lemma total_credit [row_simps]:
  "keyed t \<Longrightarrow> col_sum holdings (update_row a (credit n) t) =
     col_sum holdings t + (if has_key a t then n else 0)"
  by (rule total_update_row) (simp_all add: holdings_updates)

lemma total_move_to_locked [row_simps]:
  "keyed t \<Longrightarrow> col_sum holdings (update_row a (move_to_locked n) t) = col_sum holdings t"
  by (subst total_update_row [where n = 0]) (simp_all add: holdings_updates)

lemma total_unlock [row_simps]:
  "keyed t \<Longrightarrow> col_sum holdings (update_row a (unlock n) t) =
     col_sum holdings t - (if has_key a t then n else 0)"
  by (subst total_update_row [where n = "- n"]) (simp_all add: holdings_updates)

lemma has_key_of_positive: "0 < cell g a t \<Longrightarrow> has_key a t"
  by (auto simp: cell_def has_key_def split: option.splits)

lemma get_balance_cell: "get_balance a db = cell balance a (accounts db)"
  by (simp add: get_balance_def cell_def)

end
