(* ===== verification/LedgerProps.thy ===== *)
theory LedgerProps
  imports Ledger
begin

text \<open>
  Correctness of the credit ledger: well-formedness of its tables, conservation of credits,
  replay of the audit trail, backing of escrows by locked credits, and what each operation
  does.  The operations are the commands of a machine; the invariant is a contract of the
  locale \<open>guarded_machine\<close>, interpreted here on the model of the code.
\<close>

section \<open>The ledger as a machine\<close>

datatype ledger_cmd =
    CreateAccount string int "string option" string int
  | Transfer string string int bool "string \<times> string \<times> string" int
  | Escrow string int string string int
  | ReleaseEscrow string string string int
  | CancelEscrow string string int

definition forget :: "error + 'r \<times> 's \<Rightarrow> error + 's" where
  "forget m = res_bind m (\<lambda>(_, s). Inr s)"

lemma forget_Inr [res_simps]: "forget m = Inr s \<longleftrightarrow> (\<exists>r. m = Inr (r, s))"
  by (auto simp: forget_def res_simps)

fun ledger_step :: "ledger_cmd \<Rightarrow> 'a ledger_scheme \<Rightarrow> error + 'a ledger_scheme" where
  "ledger_step (CreateAccount a b m i now) db = forget (create_account a b m i now db)"
| "ledger_step (Transfer f t n allow ids now) db = forget (transfer f t n allow ids now db)"
| "ledger_step (Escrow a n e i now) db = forget (escrow a n e i now db)"
| "ledger_step (ReleaseEscrow e t i now) db = forget (release_escrow e t i now db)"
| "ledger_step (CancelEscrow e i now) db = forget (cancel_escrow e i now db)"

section \<open>Invariants\<close>

definition escrow_rows_ok :: "'a ledger_scheme \<Rightarrow> bool" where
  "escrow_rows_ok db \<longleftrightarrow> keyed (escrows db) \<and>
     (\<forall>e r. map_of (escrows db) e = Some r \<longrightarrow> 0 < esc_amount r \<and> has_key (esc_account r) (accounts db))"

definition ledger_wf :: "'a ledger_scheme \<Rightarrow> bool" where
  "ledger_wf db \<longleftrightarrow> \<not> lock_held db \<and> rows_ok (accounts db) \<and> escrow_rows_ok db \<and>
     distinct (map op_id (operations db))"

definition credits :: "'a ledger_scheme \<Rightarrow> int" where
  "credits db = col_sum holdings (accounts db)"

definition solvent :: "'a ledger_scheme \<Rightarrow> bool" where
  "solvent db \<longleftrightarrow> credits db = total_supply db \<and> total_supply db \<le> MAX_SUPPLY"

text \<open>The change of the available balance that an audit record stands for.  The kinds that
  the stake and slashing managers write are included.\<close>

definition effect :: "ledger_op \<Rightarrow> int" where
  "effect op =
     (if op_kind op \<in> {''MINT'', ''TRANSFER'', ''RELEASE'', ''COMPLETE_UNBONDING'', ''SLASH_REWARD''}
      then op_amount op
      else if op_kind op \<in> {''ESCROW'', ''STAKE''} then - op_amount op
      else 0)"

definition audit_balance :: "string \<Rightarrow> ledger_op list \<Rightarrow> int" where
  "audit_balance a ops = (\<Sum>op\<leftarrow>ops. if op_account op = a then effect op else 0)"

definition audited :: "'a ledger_scheme \<Rightarrow> bool" where
  "audited db \<longleftrightarrow> (\<forall>a. get_balance a db = audit_balance a (operations db))"

definition outstanding :: "string \<Rightarrow> (string, escrow_row) table \<Rightarrow> int" where
  "outstanding a es =
     col_sum (\<lambda>r. if esc_account r = a \<and> \<not> esc_released r then esc_amount r else 0) es"

definition backed :: "'a ledger_scheme \<Rightarrow> bool" where
  "backed db \<longleftrightarrow> (\<forall>a. outstanding a (escrows db) = cell locked a (accounts db))"

text \<open>What holds of every ledger, also when other managers write to its tables, and what holds
  in addition of a ledger that only its own operations touch.\<close>

definition sound_ledger :: "'a ledger_scheme \<Rightarrow> bool" where
  "sound_ledger db \<longleftrightarrow> ledger_wf db \<and> solvent db \<and> audited db"

definition good_ledger :: "'a ledger_scheme \<Rightarrow> bool" where
  "good_ledger db \<longleftrightarrow> sound_ledger db \<and> backed db"

section \<open>Preservation\<close>

named_theorems rows_intros \<open>row updates that keep the CHECK constraints\<close>

lemma rows_ok_update:
  "rows_ok t \<Longrightarrow> (\<And>r. map_of t a = Some r \<Longrightarrow> check_row (f r)) \<Longrightarrow> rows_ok (update_row a f t)"
  by (auto simp: rows_ok_def split: if_splits)

lemma rows_ok_add [rows_intros]:
  "rows_ok t \<Longrightarrow> \<not> has_key a t \<Longrightarrow> 0 \<le> b \<Longrightarrow>
     rows_ok (add_row a \<lparr>balance = b, locked = 0, unbonding = 0\<rparr> t)"
  by (auto simp: rows_ok_def check_row_def split: option.splits if_splits)

lemma rows_ok_open [rows_intros]: "rows_ok t \<Longrightarrow> rows_ok (open_row a t)"
  by (auto simp: open_row_def intro: rows_ok_add)

lemma rows_ok_credit [rows_intros]: "rows_ok t \<Longrightarrow> 0 \<le> n \<Longrightarrow> rows_ok (update_row a (credit n) t)"
  by (rule rows_ok_update) (auto simp: rows_ok_def row_defs)

lemma rows_ok_debit [rows_intros]:
  "rows_ok t \<Longrightarrow> n \<le> cell balance a t \<Longrightarrow> rows_ok (update_row a (credit (- n)) t)"
  by (rule rows_ok_update) (auto simp: rows_ok_def row_defs cell_def)

lemma rows_ok_lock [rows_intros]:
  "rows_ok t \<Longrightarrow> 0 \<le> n \<Longrightarrow> n \<le> cell balance a t \<Longrightarrow> rows_ok (update_row a (move_to_locked n) t)"
  by (rule rows_ok_update) (auto simp: rows_ok_def row_defs cell_def)

lemma rows_ok_keyed [simp]: "rows_ok t \<Longrightarrow> keyed t"
  by (simp add: rows_ok_def)

lemma op_id_mk_op [simp]: "op_id (mk_op i a ty n t m) = i"
  by (simp add: mk_op_def)

lemma audit_balance_append [simp]:
  "audit_balance a (xs @ ys) = audit_balance a xs + audit_balance a ys"
  by (simp add: audit_balance_def)

lemma audit_balance_Nil [simp]: "audit_balance a [] = 0"
  by (simp add: audit_balance_def)

lemma audit_balance_mk_op [simp]:
  "audit_balance a (mk_op i b ty n t m # ops) =
     (if b = a then (case ty of ESCROW \<Rightarrow> - n | SLASH \<Rightarrow> 0 | _ \<Rightarrow> n) else 0) + audit_balance a ops"
  by (cases ty) (simp_all add: audit_balance_def effect_def mk_op_def)

lemma outstanding_add [simp]:
  "outstanding a (add_row e r es) =
     outstanding a es + (if esc_account r = a \<and> \<not> esc_released r then esc_amount r else 0)"
  by (simp add: outstanding_def)

lemma outstanding_settle:
  assumes "keyed es" and "map_of es e = Some row" and "\<not> esc_released row"
  shows "outstanding a (update_row e (\<lambda>r. r\<lparr>esc_released := True, esc_released_to := Some t\<rparr>) es) =
    outstanding a es - (if esc_account row = a then esc_amount row else 0)"
  using assms by (simp add: outstanding_def col_sum_update_row)

lemma escrow_rows_ok_accounts:
  "escrow_rows_ok db \<Longrightarrow> (\<And>a. has_key a (accounts db) \<Longrightarrow> has_key a t) \<Longrightarrow>
     escrow_rows_ok (db\<lparr>accounts := t\<rparr>)"
  by (auto simp: escrow_rows_ok_def)

lemma cell_absent [simp]: "\<not> has_key a t \<Longrightarrow> cell g a t = 0"
  by (simp add: cell_def has_key_def)

lemma sound_ledgerI:
  assumes "ledger_wf db" and "solvent db" and "audited db"
  shows "sound_ledger db"
  using assms by (simp add: sound_ledger_def)

lemmas sound_defs = sound_ledger_def ledger_wf_def solvent_def credits_def audited_def
  get_balance_cell escrow_rows_ok_def

lemmas good_defs = good_ledger_def backed_def sound_defs

lemma create_account_sound:
  assumes "sound_ledger db" and "create_account a b m i now db = Inr (u, db')"
  shows "sound_ledger db'"
proof -
  note cr = create_account_Inr [OF assms(2)]
  have db: "\<not> lock_held db" "rows_ok (accounts db)" "escrow_rows_ok db" "solvent db" "audited db"
    "distinct (map op_id (operations db))"
    using assms(1) by (auto simp: sound_ledger_def ledger_wf_def)
  have a: "audit_balance a (operations db) = 0"
    using db cr by (auto simp: audited_def get_balance_cell dest!: spec [of _ a])
  show ?thesis
  proof (rule sound_ledgerI)
    show "ledger_wf db'"
      using db cr by (cases "0 < b") (auto simp: ledger_wf_def escrow_rows_ok_def intro!: rows_intros)
    show "solvent db'"
      using db cr by (cases "0 < b") (auto simp: solvent_def credits_def holdings_def)
    show "audited db'"
      using db cr a by (cases "0 < b") (auto simp: audited_def get_balance_cell row_simps)
  qed
qed

lemma create_account_backed:
  assumes "backed db" and "create_account a b m i now db = Inr (u, db')"
  shows "backed db'"
proof -
  note cr = create_account_Inr [OF assms(2)]
  have "outstanding a (escrows db) = 0"
    using assms(1) cr by (auto simp: backed_def dest!: spec [of _ a])
  then show ?thesis
    using assms(1) cr by (auto simp: backed_def row_simps)
qed

lemma transfer_sound:
  assumes "sound_ledger db" and "transfer f t n allow ids now db = Inr (r, db')"
  shows "sound_ledger db'"
proof -
  obtain i d c where ids: "ids = (i, d, c)" by (cases ids)
  note tr = transfer_Inr [OF assms(2) [unfolded ids]]
  have f: "has_key f (accounts db)"
    using tr by (intro has_key_of_positive [of balance]) (auto simp: get_balance_cell)
  have rows: "rows_ok (accounts db')"
    using assms(1) tr by (auto simp: sound_defs row_simps intro!: rows_intros)
  show ?thesis
    using assms(1) tr f rows by (auto simp: sound_defs row_simps)
qed

lemma transfer_backed:
  assumes "backed db" and "transfer f t n allow ids now db = Inr (r, db')"
  shows "backed db'"
  using assms by (cases ids) (auto simp: backed_def row_simps dest!: transfer_Inr)

lemma escrow_sound:
  assumes "sound_ledger db" and "escrow a n e i now db = Inr (u, db')"
  shows "sound_ledger db'"
proof -
  note es = escrow_Inr [OF assms(2)]
  have a: "has_key a (accounts db)"
    using es by (intro has_key_of_positive [of balance]) (auto simp: get_balance_cell)
  have rows: "rows_ok (accounts db')"
    using assms(1) es by (simp add: sound_defs rows_intros)
  show ?thesis
  proof (rule sound_ledgerI)
    show "ledger_wf db'"
      using assms(1) es a rows
      by (auto simp: sound_defs row_simps split: option.splits if_splits)
  qed (use assms(1) es a in \<open>auto simp: sound_defs row_simps\<close>)
qed

lemma escrow_backed:
  assumes "backed db" and "escrow a n e i now db = Inr (u, db')"
  shows "backed db'"
proof -
  note es = escrow_Inr [OF assms(2)]
  have "has_key a (accounts db)"
    using es by (intro has_key_of_positive [of balance]) (auto simp: get_balance_cell)
  then show ?thesis
    using assms(1) es by (auto simp: backed_def row_simps)
qed

lemma release_escrow_sound_backed:
  assumes "sound_ledger db" and "release_escrow e t i now db = Inr (u, db')"
  shows "sound_ledger db' \<and> (backed db \<longrightarrow> backed db')"
proof -
  from assms(2) show ?thesis
  proof (rule release_escrow_Inr)
    fix row
    assume row: "map_of (escrows db) e = Some row" "\<not> esc_released row"
      and i: "i \<notin> set (map op_id (operations db))"
      and chk: "\<And>r. map_of (accounts db) (esc_account row) = Some r \<Longrightarrow> check_row (unlock (esc_amount row) r)"
      and db': "db' = db\<lparr>lock_held := False,
       accounts := update_row t (credit (esc_amount row)) (open_row t
         (update_row (esc_account row) (unlock (esc_amount row)) (accounts db))),
       escrows := update_row e (\<lambda>r. r\<lparr>esc_released := True, esc_released_to := Some t\<rparr>) (escrows db),
       operations := operations db @ [mk_op i t RELEASE (esc_amount row) now
         [(''escrow_id'', JStr e), (''from_account'', JStr (esc_account row))]]\<rparr>"
    have es: "keyed (escrows db)" "0 < esc_amount row" "has_key (esc_account row) (accounts db)"
      using assms(1) row by (auto simp: sound_defs)
    have "rows_ok (update_row (esc_account row) (unlock (esc_amount row)) (accounts db))"
      using assms(1) chk by (intro rows_ok_update) (auto simp: sound_defs)
    then have rows: "rows_ok (accounts db')"
      using es db' by (simp add: rows_intros)
    have "sound_ledger db'"
    proof (rule sound_ledgerI)
      show "ledger_wf db'"
        using assms(1) row i es rows db' by (auto simp: sound_defs row_simps split: if_splits)
    qed (use assms(1) row es db' in \<open>auto simp: sound_defs row_simps\<close>)
    moreover have "backed db'" if "backed db"
      using that row es db' by (auto simp: backed_def row_simps outstanding_settle [OF es(1) row])
    ultimately show "sound_ledger db' \<and> (backed db \<longrightarrow> backed db')" by blast
  qed
qed

lemma cancel_escrow_sound_backed:
  assumes "sound_ledger db" and "cancel_escrow e i now db = Inr (u, db')"
  shows "sound_ledger db' \<and> (backed db \<longrightarrow> backed db')"
proof -
  from assms(2) show ?thesis
  proof (rule cancel_escrow_Inr)
    fix row
    assume row: "map_of (escrows db) e = Some row" "\<not> esc_released row"
      and i: "i \<notin> set (map op_id (operations db))"
      and chk: "\<And>r. map_of (accounts db) (esc_account row) = Some r \<Longrightarrow>
           check_row (move_to_locked (- esc_amount row) r)"
      and db': "db' = db\<lparr>lock_held := False,
       accounts := update_row (esc_account row) (move_to_locked (- esc_amount row)) (accounts db),
       escrows := update_row e (\<lambda>r. r\<lparr>esc_released := True, esc_released_to := Some (esc_account row)\<rparr>)
         (escrows db),
       operations := operations db @ [mk_op i (esc_account row) ESCROW (- esc_amount row) now
         [(''escrow_id'', JStr e), (''action'', JStr ''cancel'')]]\<rparr>"
    have es: "keyed (escrows db)" "0 < esc_amount row" "has_key (esc_account row) (accounts db)"
      using assms(1) row by (auto simp: sound_defs)
    have rows: "rows_ok (accounts db')"
      using assms(1) chk db' by (auto simp: sound_defs intro!: rows_ok_update)
    have "sound_ledger db'"
    proof (rule sound_ledgerI)
      show "ledger_wf db'"
        using assms(1) row i es rows db' by (auto simp: sound_defs row_simps split: if_splits)
    qed (use assms(1) row es db' in \<open>auto simp: sound_defs row_simps\<close>)
    moreover have "backed db'" if "backed db"
      using that row es db' by (auto simp: backed_def row_simps outstanding_settle [OF es(1) row])
    ultimately show "sound_ledger db' \<and> (backed db \<longrightarrow> backed db')" by blast
  qed
qed

lemma ledger_step_sound:
  "sound_ledger db \<Longrightarrow> ledger_step c db = Inr db' \<Longrightarrow> sound_ledger db'"
  by (cases c)
     (auto simp: res_simps intro: create_account_sound transfer_sound escrow_sound
        dest: release_escrow_sound_backed cancel_escrow_sound_backed)

lemma ledger_step_backed:
  "sound_ledger db \<Longrightarrow> backed db \<Longrightarrow> ledger_step c db = Inr db' \<Longrightarrow> backed db'"
  by (cases c)
     (auto simp: res_simps intro: create_account_backed transfer_backed escrow_backed
        dest: release_escrow_sound_backed cancel_escrow_sound_backed)

lemma ledger_step_good:
  "good_ledger db \<Longrightarrow> ledger_step c db = Inr db' \<Longrightarrow> good_ledger db'"
  by (auto simp: good_ledger_def intro: ledger_step_sound ledger_step_backed)

interpretation ledger: guarded_machine ledger_step good_ledger
  by unfold_locales (rule ledger_step_good)

lemma good_init_ledger: "good_ledger init_ledger"
  by (simp add: good_defs init_ledger_def rows_ok_def cell_def outstanding_def MAX_SUPPLY_def)

text \<open>What never shrinks: the audit trail, and the set of settled escrows.\<close>

definition settled :: "'a ledger_scheme \<Rightarrow> string set" where
  "settled db = {e. \<exists>r. map_of (escrows db) e = Some r \<and> esc_released r}"

lemma ledger_step_operations:
  "ledger_step c db = Inr db' \<Longrightarrow> set (operations db) \<subseteq> set (operations db')"
  by (cases c)
     (auto simp: res_simps dest!: create_account_Inr transfer_Inr escrow_Inr
        elim!: release_escrow_Inr cancel_escrow_Inr)

lemma ledger_step_settled:
  "ledger_step c db = Inr db' \<Longrightarrow> settled db \<subseteq> settled db'"
  by (cases c)
     (auto simp: res_simps settled_def dest!: create_account_Inr transfer_Inr escrow_Inr
        elim!: release_escrow_Inr cancel_escrow_Inr split: option.splits)

definition always :: "'s \<Rightarrow> bool" where
  "always s \<longleftrightarrow> True"

interpretation audit_log: monotone_machine ledger_step always "\<lambda>db. set (operations db)"
  by unfold_locales (simp_all add: always_def ledger_step_operations)

interpretation settlement: monotone_machine ledger_step always settled
  by unfold_locales (simp_all add: always_def ledger_step_settled)

lemma settled_run: "e \<in> settled db \<Longrightarrow> e \<in> settled (run_cmds ledger_step cs db)"
  using settlement.run_level [of db cs] by (auto simp: always_def)

lemma settled_release: "release_escrow e t i now db = Inr (u, db') \<Longrightarrow> e \<in> settled db'"
  by (auto simp: settled_def elim!: release_escrow_Inr)

lemma settled_cancel: "cancel_escrow e i now db = Inr (u, db') \<Longrightarrow> e \<in> settled db'"
  by (auto simp: settled_def elim!: cancel_escrow_Inr)

lemma settled_no_release:
  "e \<in> settled db \<Longrightarrow> \<not> lock_held db \<Longrightarrow> \<not> blank t \<Longrightarrow>
     release_escrow e t i now db = Inl EscrowAlreadyReleasedError"
  by (auto simp: settled_def release_escrow_def validate_account_id_def with_lock_def)

lemma settled_no_cancel:
  "e \<in> settled db \<Longrightarrow> \<not> lock_held db \<Longrightarrow>
     cancel_escrow e i now db = Inl EscrowAlreadyReleasedError"
  by (auto simp: settled_def cancel_escrow_def with_lock_def)

lemma run_unlocked: "good_ledger db \<Longrightarrow> \<not> lock_held (run_cmds ledger_step cs db)"
  using ledger.run_inv [of db cs] by (simp add: good_defs)

section \<open>Properties\<close>

text \<open>Claim C1. Credits are conserved: after any sequence of account creations, transfers,
  escrows, releases and cancellations, failed ones included, the balances, locked and
  unbonding amounts of all accounts add up to exactly the supply that was minted, which never
  exceeds MAX_SUPPLY, and no account has a negative component.\<close>

theorem ledger_conserves_credits:
  "credits (run_cmds ledger_step cs init_ledger) = total_supply (run_cmds ledger_step cs init_ledger) \<and>
   total_supply (run_cmds ledger_step cs init_ledger) \<le> MAX_SUPPLY \<and>
   list_all (\<lambda>(a, r). check_row r) (accounts (run_cmds ledger_step cs init_ledger))"
proof -
  have good: "good_ledger (run_cmds ledger_step cs init_ledger)"
    by (rule ledger.run_inv) (rule good_init_ledger)
  then have rows: "rows_ok (accounts (run_cmds ledger_step cs init_ledger))"
    by (simp add: good_defs)
  have "check_row r" if "(a, r) \<in> set (accounts (run_cmds ledger_step cs init_ledger))" for a r
    using rows that keyed_map_of [of "accounts (run_cmds ledger_step cs init_ledger)" a r]
    by (auto simp: rows_ok_def)
  then show ?thesis using good by (auto simp: good_defs list_all_iff)
qed

text \<open>Claim C2. The audit trail is complete: replaying the operations table (mints, transfer
  legs, releases add; escrows subtract, a negative escrow record is a cancellation) gives the
  available balance of every account after any run.\<close>

theorem audit_trail_replays_balances:
  "get_balance a (run_cmds ledger_step cs init_ledger) =
     audit_balance a (operations (run_cmds ledger_step cs init_ledger))"
  using ledger.run_inv [OF good_init_ledger, of cs] by (simp add: good_ledger_def sound_ledger_def audited_def)

lemma outstanding_member:
  assumes "escrow_rows_ok db" and "map_of (escrows db) e = Some row" and "\<not> esc_released row"
  shows "esc_amount row \<le> outstanding (esc_account row) (escrows db)"
proof -
  let ?g = "\<lambda>r. if esc_account r = esc_account row \<and> \<not> esc_released r then esc_amount r else 0"
  have "?g row \<le> col_sum ?g (escrows db)"
    using assms(1,2) by (intro col_sum_member_le) (auto simp: escrow_rows_ok_def less_imp_le)
  then show ?thesis using assms(3) by (simp add: outstanding_def)
qed

text \<open>Releasing an open escrow to a non-blank account succeeds exactly when the locked column
  still covers it, and then moves the escrowed amount.\<close>

lemma release_escrow_Inr_iff:
  assumes "sound_ledger db" and "map_of (escrows db) e = Some row" and "\<not> esc_released row"
    and "\<not> blank t" and "i \<notin> set (map op_id (operations db))"
  shows "(\<exists>db'. release_escrow e t i now db = Inr ((), db')) \<longleftrightarrow>
     esc_amount row \<le> cell locked (esc_account row) (accounts db)"
proof
  have wf: "escrow_rows_ok db" "rows_ok (accounts db)" "\<not> lock_held db"
    using assms(1) by (auto simp: sound_ledger_def ledger_wf_def)
  from wf assms(2) have acc: "has_key (esc_account row) (accounts db)" and pos: "0 < esc_amount row"
    by (auto simp: escrow_rows_ok_def)
  show "esc_amount row \<le> cell locked (esc_account row) (accounts db)"
    if ok: "\<exists>db'. release_escrow e t i now db = Inr ((), db')"
  proof -
    obtain r where r: "map_of (accounts db) (esc_account row) = Some r" using acc by (auto simp: has_key_def)
    from ok obtain db' where "release_escrow e t i now db = Inr ((), db')" by blast
    then have "check_row (unlock (esc_amount row) r)"
      by (rule release_escrow_Inr) (use assms(2) r in auto)
    then show ?thesis using r by (simp add: cell_def row_defs)
  qed
  show "\<exists>db'. release_escrow e t i now db = Inr ((), db')"
    if "esc_amount row \<le> cell locked (esc_account row) (accounts db)"
  proof -
    have chk: "check_row (unlock (esc_amount row) r)"
      if "map_of (accounts db) (esc_account row) = Some r" for r
      using wf(2) that \<open>esc_amount row \<le> _\<close> by (auto simp: rows_ok_def cell_def row_defs)
    have rows: "rows_ok (update_row (esc_account row) (unlock (esc_amount row)) (accounts db))"
      using wf(2) chk by (rule rows_ok_update)
    have chk2: "check_row (credit (esc_amount row) r)"
      if "map_of (update_row (esc_account row) (unlock (esc_amount row)) (accounts db)) t = Some r" for r
      using rows that pos by (simp only: rows_ok_def) (auto simp: row_defs)
    show ?thesis
      using assms(2-5) wf chk chk2 pos
      by (auto simp: release_escrow_def validate_account_id_def with_lock_def update_account_def
          insert_account_def insert_op_def settle_escrow_def Let_def has_key_def map_of_update_row
          simp del: map_of_update_row split: option.splits)
  qed
qed

lemma release_escrow_effect:
  assumes "sound_ledger db" and "map_of (escrows db) e = Some row"
    and "release_escrow e t i now db = Inr ((), db')"
  shows "get_balance t db' = get_balance t db + esc_amount row \<and>
     cell locked (esc_account row) (accounts db') = cell locked (esc_account row) (accounts db) - esc_amount row \<and>
     credits db' = credits db"
  using assms(3)
proof (rule release_escrow_Inr)
qed (use assms(1,2) in \<open>auto simp: sound_ledger_def ledger_wf_def escrow_rows_ok_def
    get_balance_cell credits_def row_simps\<close>)

text \<open>What the locked column holds beyond the open escrows of the account.  The ledger's own
  operations never change it.\<close>

definition surplus_locked :: "string \<Rightarrow> 'a ledger_scheme \<Rightarrow> int" where
  "surplus_locked a db = cell locked a (accounts db) - outstanding a (escrows db)"

lemma outstanding_absent:
  assumes "escrow_rows_ok db" and "\<not> has_key a (accounts db)"
  shows "outstanding a (escrows db) = 0"
proof -
  have "esc_account r \<noteq> a" if "(i, r) \<in> set (escrows db)" for i r
    using assms that by (auto simp: escrow_rows_ok_def keyed_map_of)
  then have "outstanding a (escrows db) = col_sum (\<lambda>r. 0) (escrows db)"
    unfolding outstanding_def by (intro col_sum_cong) auto
  also have "col_sum (\<lambda>r. 0) t = 0" for t :: "(string, escrow_row) table"
    by (induction t) auto
  finally show ?thesis .
qed

lemma ledger_step_surplus:
  assumes "sound_ledger db" and "ledger_step c db = Inr db'"
  shows "surplus_locked a db' = surplus_locked a db"
proof -
  have wf: "escrow_rows_ok db" using assms(1) by (simp add: sound_ledger_def ledger_wf_def)
  then have keyed: "keyed (escrows db)"
    and acc: "map_of (escrows db) e = Some r \<Longrightarrow> has_key (esc_account r) (accounts db)" for e r
    by (auto simp: escrow_rows_ok_def)
  show ?thesis
  proof (cases c)
    case (CreateAccount b n m i now)
    then show ?thesis
      using assms(2) outstanding_absent [OF wf, of b]
      by (auto simp: res_simps surplus_locked_def row_simps dest!: create_account_Inr)
  next
    case (Transfer f t n allow ids now)
    then show ?thesis
      using assms(2) by (cases ids) (auto simp: res_simps surplus_locked_def row_simps dest!: transfer_Inr)
  next
    case (Escrow b n e i now)
    with assms(2) obtain u where es: "escrow b n e i now db = Inr (u, db')" by (auto simp: res_simps)
    note es = escrow_Inr [OF es]
    have "has_key b (accounts db)"
      using es by (intro has_key_of_positive [of balance]) (auto simp: get_balance_cell)
    then show ?thesis using es by (auto simp: surplus_locked_def row_simps)
  next
    case (ReleaseEscrow e t i now)
    then show ?thesis
      using assms(2) acc by (auto simp: res_simps surplus_locked_def row_simps
          outstanding_settle [OF keyed] elim!: release_escrow_Inr)
  next
    case (CancelEscrow e i now)
    then show ?thesis
      using assms(2) acc by (auto simp: res_simps surplus_locked_def row_simps
          outstanding_settle [OF keyed] elim!: cancel_escrow_Inr)
  qed
qed

definition demo_cmds :: "ledger_cmd list" where
  "demo_cmds = [CreateAccount ''alice'' 100 None ''op1'' 0, Escrow ''alice'' 40 ''job'' ''op2'' 1]"

lemma demo_run:
  "map_of (escrows (run_cmds ledger_step demo_cmds init_ledger)) ''job'' =
     Some \<lparr>esc_account = ''alice'', esc_amount = 40, esc_created_at = 1, esc_released = False,
       esc_released_to = None\<rparr>"
  "map op_id (operations (run_cmds ledger_step demo_cmds init_ledger)) = [''op1'', ''op2'']"
  "accounts (run_cmds ledger_step demo_cmds init_ledger) =
     [(''alice'', \<lparr>balance = 60, locked = 40, unbonding = 0\<rparr>)]"
  "lock_held (run_cmds ledger_step demo_cmds init_ledger) = False"
  by code_simp+

text \<open>Claim C3. An escrow is settled at most once: after a successful release or cancellation,
  no run of further ledger operations, however long, makes a second release or cancellation of
  the same escrow possible; both raise EscrowAlreadyReleasedError.\<close>

theorem escrow_settled_once:
  assumes "good_ledger db"
    and "release_escrow e t i now db = Inr ((), db') \<or> cancel_escrow e i now db = Inr ((), db')"
    and "\<not> blank t'"
  shows "release_escrow e t' i' now' (run_cmds ledger_step cs db') = Inl EscrowAlreadyReleasedError \<and>
     cancel_escrow e i' now' (run_cmds ledger_step cs db') = Inl EscrowAlreadyReleasedError"
proof -
  have "e \<in> settled (run_cmds ledger_step cs db')"
    using assms(2) by (intro settled_run) (auto intro: settled_release settled_cancel)
  moreover have "good_ledger db'"
    using assms(2,1) unfolding good_ledger_def
    by (elim disjE) (blast dest: release_escrow_sound_backed cancel_escrow_sound_backed)+
  ultimately show ?thesis
    using run_unlocked [of db' cs] assms(3)
    by (simp add: settled_no_release settled_no_cancel)
qed

theorem escrow_settled_once_witness:
  "cancel_escrow ''job'' ''op9'' 9 (run_cmds ledger_step [CreateAccount ''bob'' 0 None ''op8'' 8]
     (run_cmds ledger_step [ReleaseEscrow ''job'' ''bob'' ''op3'' 2]
        (run_cmds ledger_step demo_cmds init_ledger))) = Inl EscrowAlreadyReleasedError"
proof -
  let ?db = "run_cmds ledger_step demo_cmds init_ledger"
  let ?db' = "run_cmds ledger_step [ReleaseEscrow ''job'' ''bob'' ''op3'' 2] ?db"
  have good: "good_ledger ?db"
    by (intro ledger.run_inv good_init_ledger)
  have rel: "release_escrow ''job'' ''bob'' ''op3'' 2 ?db = Inr ((), ?db')"
    by code_simp
  have "\<not> blank ''bob''" by (simp add: blank_def py_space_def)
  from escrow_settled_once [OF good disjI1 [OF rel] this] show ?thesis by blast
qed

text \<open>A transfer does exactly what it says: it succeeds if and only if both ids are
  non-blank, the amount is positive and covered by the source balance, the recipient exists or
  may be created, and the two audit ids are fresh and different; then it moves the amount
  between the two balances (a transfer to oneself changes nothing), leaves every other account
  and all locked credits alone, and records a debit and a credit leg.\<close>

theorem transfer_correct:
  assumes "good_ledger db"
  shows "(\<exists>db'. transfer f t n allow (i, d, c) now db = Inr (i, db')) =
       (\<not> blank f \<and> \<not> blank t \<and> 0 < n \<and> n \<le> get_balance f db \<and>
        (has_key t (accounts db) \<or> allow) \<and> d \<noteq> c \<and>
        d \<notin> set (map op_id (operations db)) \<and> c \<notin> set (map op_id (operations db))) \<and>
     (\<forall>r db' a. transfer f t n allow (i, d, c) now db = Inr (r, db') \<longrightarrow>
        r = i \<and>
        get_balance a db' = get_balance a db + (if a = t then n else 0) - (if a = f then n else 0) \<and>
        cell locked a (accounts db') = cell locked a (accounts db) \<and>
        escrows db' = escrows db \<and> total_supply db' = total_supply db \<and>
        length (operations db') = length (operations db) + 2)"
proof (intro conjI allI impI)
  have unl: "\<not> lock_held db" and rows: "rows_ok (accounts db)"
    using assms by (auto simp: good_defs)
  show "(\<exists>db'. transfer f t n allow (i, d, c) now db = Inr (i, db')) =
       (\<not> blank f \<and> \<not> blank t \<and> 0 < n \<and> n \<le> get_balance f db \<and>
        (has_key t (accounts db) \<or> allow) \<and> d \<noteq> c \<and>
        d \<notin> set (map op_id (operations db)) \<and> c \<notin> set (map op_id (operations db)))"
    (is "?l = ?r")
  proof
    assume ?l
    then show ?r by (auto dest!: transfer_Inr)
  next
    assume r: ?r
    let ?t0 = "open_row t (accounts db)"
    let ?t1 = "update_row f (credit (- n)) ?t0"
    have f: "n \<le> cell balance f ?t0"
      using r by (simp add: row_simps get_balance_cell)
    have rows0: "rows_ok ?t0" using rows by (rule rows_ok_open)
    then have chk0: "check_row (credit (- n) q)" if "map_of ?t0 f = Some q" for q
      using that f by (auto simp: rows_ok_def cell_def row_defs)
    have rows1: "rows_ok ?t1" using rows0 f by (rule rows_ok_debit)
    then have chk1: "check_row (credit n q)" if "map_of ?t1 t = Some q" for q
      using that r by (simp only: rows_ok_def) (auto simp: row_defs)
    have "transfer f t n allow (i, d, c) now db = Inr (i, db\<lparr>lock_held := False,
       accounts := update_row t (credit n) ?t1,
       operations := operations db @
         [mk_op d f TRANSFER (- n) now [(''to_account'', JStr t), (''transfer_id'', JStr i)],
          mk_op c t TRANSFER n now [(''from_account'', JStr f), (''transfer_id'', JStr i)]]\<rparr>)"
      using r unl chk0 chk1
      by (auto simp: transfer_def Let_def res_simps stmt_simps mk_op_def open_row_def get_balance_def
          simp del: map_of_update_row map_of_add_row split: if_splits)
    then show ?l by blast
  qed
next
  fix r db' a
  assume tr: "transfer f t n allow (i, d, c) now db = Inr (r, db')"
  note * = transfer_Inr [OF tr]
  have f: "has_key f (accounts db)"
    using * by (intro has_key_of_positive [of balance]) (auto simp: get_balance_cell)
  show "r = i"
    using * by simp
  show "get_balance a db' = get_balance a db + (if a = t then n else 0) - (if a = f then n else 0)"
    using * f by (auto simp: get_balance_cell row_simps)
  show "cell locked a (accounts db') = cell locked a (accounts db)" "escrows db' = escrows db"
    "total_supply db' = total_supply db" "length (operations db') = length (operations db) + 2"
    using * by (auto simp: row_simps)
qed

theorem transfer_correct_witness:
  "good_ledger (run_cmds ledger_step demo_cmds init_ledger) \<and>
   (\<exists>db'. transfer ''alice'' ''bob'' 10 True (''t'', ''op3'', ''op4'') 5
       (run_cmds ledger_step demo_cmds init_ledger) = Inr (''t'', db'))"
proof -
  have good: "good_ledger (run_cmds ledger_step demo_cmds init_ledger)"
    by (intro ledger.run_inv good_init_ledger)
  show ?thesis
    using transfer_correct [OF good, of "''alice''" "''bob''" 10 True "''t''" "''op3''" "''op4''" 5]
      good demo_run
    by (auto simp: blank_def py_space_def get_balance_def)
qed

end
