(* ===== verification/Stake.thy ===== *)
theory Stake
  imports LedgerProps
begin

text \<open>
  The stake manager of \<open>src/economics/stake.py\<close>.  It shares the ledger's connection and lock,
  adds the table \<open>unbonding\<close> and writes the \<open>accounts\<close> and \<open>operations\<close> tables with its own
  SQL: staked credits live in the same column \<open>locked\<close> as escrowed ones.
  \<open>unbonding_seconds\<close> is the field the constructor computes from its argument in days.
\<close>

section \<open>State and operations\<close>

record unbonding_row =
  unb_account :: string
  unb_amount :: int
  unb_started_at :: int
  unb_completed_at :: int
  unb_completed :: bool

record stake_ledger = ledger +
  unbondings :: "(string, unbonding_row) table"

definition init_stake_ledger :: stake_ledger where
  "init_stake_ledger = ledger.extend init_ledger (stake_ledger.fields [])"

definition raw_op :: "string \<Rightarrow> string \<Rightarrow> string \<Rightarrow> int \<Rightarrow> int \<Rightarrow> (string \<times> json) list \<Rightarrow> ledger_op" where
  "raw_op i a k n t m = \<lparr>op_id = i, op_account = a, op_kind = k, op_amount = n,
     op_timestamp = t, op_metadata = m\<rparr>"

definition get_staked_amount :: "string \<Rightarrow> 'a ledger_scheme \<Rightarrow> int" where
  "get_staked_amount a db = (case get_account a db of None \<Rightarrow> 0 | Some r \<Rightarrow> locked r)"

definition get_unbonding_amount :: "string \<Rightarrow> 'a ledger_scheme \<Rightarrow> int" where
  "get_unbonding_amount a db = (case get_account a db of None \<Rightarrow> 0 | Some r \<Rightarrow> unbonding r)"

definition move_to_unbonding :: "int \<Rightarrow> account_row \<Rightarrow> account_row" where
  "move_to_unbonding n r = r\<lparr>locked := locked r - n, unbonding := unbonding r + n\<rparr>"

definition finish_unbonding :: "int \<Rightarrow> account_row \<Rightarrow> account_row" where
  "finish_unbonding n r = r\<lparr>unbonding := unbonding r - n, balance := balance r + n\<rparr>"

definition stake :: "string \<Rightarrow> int \<Rightarrow> string \<Rightarrow> int \<Rightarrow> 'a ledger_scheme \<Rightarrow> error + unit \<times> 'a ledger_scheme" where
  "stake account_id amount uuid now db =
     (if amount \<le> 0 then Inl (ValueError ''Stake amount must be positive'')
      else with_lock (\<lambda>db.
        if get_balance account_id db < amount then Inl InsufficientBalanceError
        else
          res_bind (update_account account_id (move_to_locked amount) db) (\<lambda>db.
          res_bind (insert_op (raw_op uuid account_id ''STAKE'' amount now
              [(''action'', JStr ''stake'')]) db) (\<lambda>db.
          Inr ((), db)))) db)"

definition insert_unbonding ::
  "string \<Rightarrow> unbonding_row \<Rightarrow> 'a stake_ledger_scheme \<Rightarrow> error + 'a stake_ledger_scheme" where
  "insert_unbonding i row db =
     (if has_key i (unbondings db) then Inl IntegrityError
      else Inr (db\<lparr>unbondings := add_row i row (unbondings db)\<rparr>))"

definition unstake ::
  "int \<Rightarrow> string \<Rightarrow> int \<Rightarrow> string \<times> string \<Rightarrow> int \<Rightarrow> 'a stake_ledger_scheme
     \<Rightarrow> error + string \<times> 'a stake_ledger_scheme" where
  "unstake unbonding_seconds account_id amount uuids now db =
     (let (unbonding_id, uuid) = uuids in
      if amount \<le> 0 then Inl (ValueError ''Unstake amount must be positive'')
      else with_lock (\<lambda>db.
        if get_staked_amount account_id db < amount then Inl InsufficientStakeError
        else
          let completed_at = now + unbonding_seconds * 1000000000 in
          res_bind (update_account account_id (move_to_unbonding amount) db) (\<lambda>db.
          res_bind (insert_unbonding unbonding_id \<lparr>unb_account = account_id, unb_amount = amount,
              unb_started_at = now, unb_completed_at = completed_at, unb_completed = False\<rparr> db) (\<lambda>db.
          res_bind (insert_op (raw_op uuid account_id ''UNSTAKE'' amount now
              [(''unbonding_id'', JStr unbonding_id), (''completed_at'', JInt completed_at)]) db) (\<lambda>db.
          Inr (unbonding_id, db))))) db)"

text \<open>The rows \<open>complete_unbonding\<close> selects.\<close>

definition matured :: "string \<Rightarrow> int \<Rightarrow> unbonding_row \<Rightarrow> bool" where
  "matured a now r \<longleftrightarrow> unb_account r = a \<and> \<not> unb_completed r \<and> unb_completed_at r \<le> now"

definition mark_completed :: "string \<Rightarrow> 'a stake_ledger_scheme \<Rightarrow> 'a stake_ledger_scheme" where
  "mark_completed i db = db\<lparr>unbondings := update_row i (\<lambda>r. r\<lparr>unb_completed := True\<rparr>) (unbondings db)\<rparr>"

fun complete_rows ::
  "string \<Rightarrow> int \<Rightarrow> (nat \<Rightarrow> string) \<Rightarrow> nat \<Rightarrow> (string \<times> int) list \<Rightarrow> 'a stake_ledger_scheme
     \<Rightarrow> error + 'a stake_ledger_scheme" where
  "complete_rows a now uuid k [] db = Inr db"
| "complete_rows a now uuid k ((i, n) # rows) db =
     res_bind (insert_op (raw_op (uuid k) a ''COMPLETE_UNBONDING'' n now
         [(''unbonding_id'', JStr i)]) (mark_completed i db))
       (complete_rows a now uuid (Suc k) rows)"

definition matured_rows :: "string \<Rightarrow> int \<Rightarrow> 'a stake_ledger_scheme \<Rightarrow> (string \<times> int) list" where
  "matured_rows a now db =
     map (\<lambda>(i, r). (i, unb_amount r)) (filter (\<lambda>(i, r). matured a now r) (unbondings db))"

definition complete_unbonding ::
  "string \<Rightarrow> (nat \<Rightarrow> string) \<Rightarrow> int \<Rightarrow> 'a stake_ledger_scheme \<Rightarrow> error + int \<times> 'a stake_ledger_scheme" where
  "complete_unbonding a uuid now db =
     with_lock (\<lambda>db.
       let records = matured_rows a now db in
       if records = [] then Inr (0, db)
       else
         let total_released = (\<Sum>(i, n)\<leftarrow>records. n) in
         res_bind (update_account a (finish_unbonding total_released) db) (\<lambda>db.
         res_bind (complete_rows a now uuid 0 records db) (\<lambda>db.
         Inr (total_released, db)))) db"

definition get_unbonding_records ::
  "string \<Rightarrow> bool \<Rightarrow> 'a stake_ledger_scheme \<Rightarrow> (string \<times> unbonding_row) list" where
  "get_unbonding_records a include_completed db =
     sort_key (\<lambda>(i, r). - unb_started_at r)
       (filter (\<lambda>(i, r). unb_account r = a \<and> (include_completed \<or> \<not> unb_completed r)) (unbondings db))"

section \<open>Successful operations\<close>

lemma op_id_raw_op [simp]: "op_id (raw_op i a k n t m) = i"
  by (simp add: raw_op_def)

lemma audit_balance_raw_op [simp]:
  "audit_balance b (raw_op i a k n t m # ops) =
     (if a = b then
        (if k \<in> {''MINT'', ''TRANSFER'', ''RELEASE'', ''COMPLETE_UNBONDING'', ''SLASH_REWARD''} then n
         else if k \<in> {''ESCROW'', ''STAKE''} then - n else 0)
      else 0) + audit_balance b ops"
  by (simp add: audit_balance_def effect_def raw_op_def)

lemma stake_Inr:
  assumes "stake a n uuid now db = Inr (u, db')"
  shows "0 < n \<and> \<not> lock_held db \<and> n \<le> get_balance a db \<and>
    uuid \<notin> set (map op_id (operations db)) \<and>
    db' = db\<lparr>lock_held := False,
       accounts := update_row a (move_to_locked n) (accounts db),
       operations := operations db @ [raw_op uuid a ''STAKE'' n now [(''action'', JStr ''stake'')]]\<rparr>"
  using assms by (auto simp: stake_def res_simps stmt_simps get_balance_def)

lemma insert_unbonding_Inr [stmt_simps]:
  "insert_unbonding i row db = Inr db' \<longleftrightarrow>
     \<not> has_key i (unbondings db) \<and> db' = db\<lparr>unbondings := add_row i row (unbondings db)\<rparr>"
  by (auto simp: insert_unbonding_def)

lemma get_staked_amount_cell: "get_staked_amount a db = cell locked a (accounts db)"
  by (simp add: get_staked_amount_def get_account_def cell_def)

lemma unstake_Inr:
  assumes "unstake secs a n (i, uuid) now db = Inr (r, db')"
  shows "r = i \<and> 0 < n \<and> \<not> lock_held db \<and> n \<le> cell locked a (accounts db) \<and>
    \<not> has_key i (unbondings db) \<and> uuid \<notin> set (map op_id (operations db)) \<and>
    db' = db\<lparr>lock_held := False,
       accounts := update_row a (move_to_unbonding n) (accounts db),
       unbondings := add_row i \<lparr>unb_account = a, unb_amount = n, unb_started_at = now,
          unb_completed_at = now + secs * 1000000000, unb_completed = False\<rparr> (unbondings db),
       operations := operations db @ [raw_op uuid a ''UNSTAKE'' n now
         [(''unbonding_id'', JStr i), (''completed_at'', JInt (now + secs * 1000000000))]]\<rparr>"
  using assms
  by (auto simp: unstake_def res_simps stmt_simps get_staked_amount_def get_account_def cell_def Let_def)

lemma move_to_unbonding_cells [row_simps]:
  "cell balance b (update_row a (move_to_unbonding n) t) = cell balance b t"
  "cell locked b (update_row a (move_to_unbonding n) t) =
     cell locked b t - (if b = a \<and> has_key a t then n else 0)"
  "cell unbonding b (update_row a (move_to_unbonding n) t) =
     cell unbonding b t + (if b = a \<and> has_key a t then n else 0)"
  by (auto simp: cell_def has_key_def move_to_unbonding_def split: option.splits)

lemma finish_unbonding_cells [row_simps]:
  "cell balance b (update_row a (finish_unbonding n) t) =
     cell balance b t + (if b = a \<and> has_key a t then n else 0)"
  "cell locked b (update_row a (finish_unbonding n) t) = cell locked b t"
  "cell unbonding b (update_row a (finish_unbonding n) t) =
     cell unbonding b t - (if b = a \<and> has_key a t then n else 0)"
  by (auto simp: cell_def has_key_def finish_unbonding_def split: option.splits)

lemma total_unbonding_moves [row_simps]:
  "keyed t \<Longrightarrow> col_sum holdings (update_row a (move_to_unbonding n) t) = col_sum holdings t"
  "keyed t \<Longrightarrow> col_sum holdings (update_row a (finish_unbonding n) t) = col_sum holdings t"
  by (subst total_update_row [where n = 0],
      simp_all add: holdings_def move_to_unbonding_def finish_unbonding_def)+

lemma rows_ok_unbonding [rows_intros]:
  "rows_ok t \<Longrightarrow> 0 \<le> n \<Longrightarrow> n \<le> cell locked a t \<Longrightarrow> rows_ok (update_row a (move_to_unbonding n) t)"
  by (rule rows_ok_update) (auto simp: rows_ok_def check_row_def move_to_unbonding_def cell_def)

lemma rows_ok_finish [rows_intros]:
  "rows_ok t \<Longrightarrow> 0 \<le> n \<Longrightarrow> n \<le> cell unbonding a t \<Longrightarrow> rows_ok (update_row a (finish_unbonding n) t)"
  by (rule rows_ok_update) (auto simp: rows_ok_def check_row_def finish_unbonding_def cell_def)

end
