(* ===== verification/PyFloat.thy ===== *)
theory PyFloat
  imports Complex_Main "HOL-Library.Log_Nat"
begin

text \<open>
  Python's \<open>float\<close>: IEEE 754 double precision, as exact rational values with every operation
  rounded to the nearest 53-bit significand, ties to even.  The exponent range is unbounded
  (no overflow, no subnormals, no NaN): the code computes with amounts, weights and clock
  readings far inside the range.  A literal such as \<open>0.3\<close> is the rounded value of 3/10, and
  \<open>int(x)\<close> truncates towards zero.  All definitions compute.
\<close>

section \<open>Rounding\<close>

type_synonym pyfloat = rat

definition pow2 :: "int \<Rightarrow> rat" where
  "pow2 k = (if 0 \<le> k then 2 ^ nat k else 1 / 2 ^ nat (- k))"

text \<open>The exponent of the leading bit of a positive rational.\<close>

definition ilog2 :: "rat \<Rightarrow> int" where
  "ilog2 x = (let (p, q) = quotient_of x; e = bitlen p - bitlen q
              in if pow2 e \<le> x then e else e - 1)"

definition half_even :: "rat \<Rightarrow> int" where
  "half_even x =
     (let f = \<lfloor>x\<rfloor>; d = x - of_int f
      in if d < 1 / 2 then f else if 1 / 2 < d then f + 1 else if even f then f else f + 1)"

definition round_pos :: "rat \<Rightarrow> pyfloat" where
  "round_pos x = (let u = pow2 (ilog2 x - 52) in of_int (half_even (x / u)) * u)"

definition rnd :: "rat \<Rightarrow> pyfloat" where
  "rnd x = (if x = 0 then 0 else if 0 < x then round_pos x else - round_pos (- x))"

definition fadd :: "pyfloat \<Rightarrow> pyfloat \<Rightarrow> pyfloat" where "fadd x y = rnd (x + y)"
definition fsub :: "pyfloat \<Rightarrow> pyfloat \<Rightarrow> pyfloat" where "fsub x y = rnd (x - y)"
definition fmul :: "pyfloat \<Rightarrow> pyfloat \<Rightarrow> pyfloat" where "fmul x y = rnd (x * y)"
definition fdiv :: "pyfloat \<Rightarrow> pyfloat \<Rightarrow> pyfloat" where "fdiv x y = rnd (x / y)"
definition to_float :: "int \<Rightarrow> pyfloat" where "to_float n = rnd (of_int n)"

definition py_int :: "pyfloat \<Rightarrow> int" where
  "py_int x = (if 0 \<le> x then \<lfloor>x\<rfloor> else - \<lfloor>- x\<rfloor>)"

text \<open>The correctly rounded square root of \<open>math.sqrt\<close>: the integer root of the scaled argument has 57 bits, and a half
  stands for any digits after them.\<close>

function isqrt :: "int \<Rightarrow> int" where
  "isqrt n = (if n \<le> 0 then 0 else let r = 2 * isqrt (n div 4) in if (r + 1) * (r + 1) \<le> n then r + 1 else r)"
  by auto
termination by (relation "measure nat") auto

declare isqrt.simps [simp del]

lemma isqrt_bounds: "0 \<le> n \<Longrightarrow> 0 \<le> isqrt n \<and> isqrt n * isqrt n \<le> n \<and> n < (isqrt n + 1) * (isqrt n + 1)"
proof (induction n rule: isqrt.induct)
  case (1 n)
  show ?case
  proof (cases "n = 0")
    case False
    define q where "q = isqrt (n div 4)"
    have q: "0 \<le> q" "q * q \<le> n div 4" "n div 4 < (q + 1) * (q + 1)"
      using 1 False by (auto simp: q_def)
    have "4 * (q * q) \<le> n" using q(2) by linarith
    moreover have "n < 4 * ((q + 1) * (q + 1))" using q(3) by linarith
    moreover have "isqrt n = (if (2 * q + 1) * (2 * q + 1) \<le> n then 2 * q + 1 else 2 * q)"
      using 1(2) False by (subst isqrt.simps) (simp add: q_def Let_def)
    ultimately show ?thesis using q(1) by (auto simp: algebra_simps)
  qed (simp add: isqrt.simps)
qed

definition fsqrt :: "pyfloat \<Rightarrow> pyfloat" where
  "fsqrt x =
     (if x \<le> 0 then 0
      else let s = 56 - ilog2 x div 2; y = x * pow2 (2 * s); m = isqrt \<lfloor>y\<rfloor>
           in rnd ((of_int m + (if of_int (m * m) = y then 0 else 1 / 2)) * pow2 (- s)))"

section \<open>Powers of two\<close>

lemma pow2_pos [simp]: "0 < pow2 k"
  by (simp add: pow2_def)

lemma pow2_nonzero [simp]: "pow2 k \<noteq> 0"
  using pow2_pos [of k] by linarith

lemma pow2_0 [simp]: "pow2 0 = 1"
  by (simp add: pow2_def)

lemma pow2_of_nat: "pow2 (int n) = 2 ^ n"
  by (simp add: pow2_def)

lemma pow2_Suc: "pow2 (k + 1) = 2 * pow2 k"
proof (cases "0 \<le> k")
  case True
  then show ?thesis by (simp add: pow2_def nat_add_distrib)
next
  case False
  then have "nat (- k) = Suc (nat (- (k + 1)))" by simp
  with False show ?thesis
    by (cases "k = -1") (auto simp: pow2_def)
qed

lemma pow2_add_nat: "pow2 (k + int n) = pow2 k * 2 ^ n"
proof (induction n)
  case (Suc n)
  have "pow2 (k + int (Suc n)) = pow2 ((k + int n) + 1)" by (simp add: ac_simps)
  also have "\<dots> = pow2 k * 2 ^ Suc n" by (simp only: pow2_Suc Suc) simp
  finally show ?case .
qed simp

lemma pow2_add: "pow2 (j + k) = pow2 j * pow2 k"
proof (cases "0 \<le> k")
  case True
  then show ?thesis using pow2_add_nat [of j "nat k"] by (simp add: pow2_def)
next
  case False
  have "pow2 j = pow2 (j + k) * 2 ^ nat (- k)"
    using pow2_add_nat [of "j + k" "nat (- k)"] False by simp
  with False show ?thesis by (simp add: pow2_def [of k])
qed

lemma pow2_mono: "j \<le> k \<Longrightarrow> pow2 j \<le> pow2 k"
proof -
  assume "j \<le> k"
  then have "pow2 k = pow2 j * 2 ^ nat (k - j)"
    using pow2_add_nat [of j "nat (k - j)"] by simp
  moreover have "(1::rat) \<le> 2 ^ nat (k - j)" by simp
  ultimately show ?thesis
    using mult_left_mono [of 1 "2 ^ nat (k - j)" "pow2 j"] by simp
qed

lemma pow2_less_iff: "pow2 j < pow2 k \<longleftrightarrow> j < k"
proof
  assume "pow2 j < pow2 k"
  then show "j < k" using pow2_mono [of k j] by linarith
next
  assume "j < k"
  then have "2 * pow2 j \<le> pow2 k" using pow2_mono [of "j + 1" k] by (simp add: pow2_Suc)
  then show "pow2 j < pow2 k" using pow2_pos [of j] by linarith
qed

lemma bitlen_bounds_rat:
  assumes "0 < p"
  shows "pow2 (bitlen p - 1) \<le> of_int p \<and> of_int p < pow2 (bitlen p)"
proof -
  have b: "2 ^ nat (bitlen p - 1) \<le> p" "p < 2 ^ nat (bitlen p)" and l: "0 < bitlen p"
    using bitlen_bounds [OF assms] assms by (auto simp: bitlen_eq_zero_iff bitlen_nonneg order_less_le)
  have "(of_int (2 ^ nat (bitlen p - 1)) :: rat) \<le> of_int p" "(of_int p :: rat) < of_int (2 ^ nat (bitlen p))"
    using b by (simp_all only: of_int_le_iff of_int_less_iff)
  with l show ?thesis by (simp add: pow2_def)
qed

text \<open>The leading exponent is the floor of the binary logarithm.\<close>

lemma ilog2_bounds:
  assumes "0 < x"
  shows "pow2 (ilog2 x) \<le> x \<and> x < pow2 (ilog2 x + 1)"
proof -
  obtain p q where pq: "quotient_of x = (p, q)" by (cases "quotient_of x")
  have q: "0 < q" using quotient_of_denom_pos [OF pq] .
  have x: "x = of_int p / of_int q" using quotient_of_div [OF pq] .
  have p: "0 < p" using assms x q by (simp add: zero_less_divide_iff)
  let ?e = "bitlen p - bitlen q"
  have pb: "pow2 (bitlen p - 1) \<le> of_int p" "of_int p < pow2 (bitlen p)"
    and qb: "pow2 (bitlen q - 1) \<le> of_int q" "of_int q < pow2 (bitlen q)"
    using bitlen_bounds_rat [OF p] bitlen_bounds_rat [OF q] by auto
  have q0: "(0::rat) < of_int q" using q by simp
  have up: "x < pow2 (?e + 1)"
  proof -
    have "of_int p < pow2 (?e + 1) * pow2 (bitlen q - 1)"
      using pb(2) by (simp add: pow2_add [symmetric])
    also have "\<dots> \<le> pow2 (?e + 1) * of_int q"
      using qb(1) by (intro mult_left_mono) (simp_all add: less_imp_le)
    finally show ?thesis using q0 by (simp add: x divide_less_eq)
  qed
  have low: "pow2 (?e - 1) \<le> x"
  proof -
    have "pow2 (?e - 1) * of_int q \<le> pow2 (?e - 1) * pow2 (bitlen q)"
      using qb(2) by (intro mult_left_mono) (simp_all add: less_imp_le)
    also have "\<dots> \<le> of_int p"
      using pb(1) by (simp add: pow2_add [symmetric])
    finally show ?thesis using q0 by (simp add: x le_divide_eq)
  qed
  show ?thesis using up low by (auto simp: ilog2_def pq Let_def)
qed

lemma ilog2_unique:
  assumes "pow2 e \<le> x" and "x < pow2 (e + 1)"
  shows "ilog2 x = e"
proof -
  have x: "0 < x" using assms(1) pow2_pos [of e] by linarith
  have "pow2 (ilog2 x) < pow2 (e + 1)" "pow2 e < pow2 (ilog2 x + 1)"
    using assms ilog2_bounds [OF x] by linarith+
  then show ?thesis by (simp add: pow2_less_iff)
qed

section \<open>Rounding is monotone and exact on representable values\<close>

lemma half_even_mono:
  assumes "x \<le> y"
  shows "half_even x \<le> half_even y"
proof -
  have fl: "\<lfloor>x\<rfloor> \<le> \<lfloor>y\<rfloor>" using assms by (rule floor_mono)
  show ?thesis
  proof (cases "\<lfloor>x\<rfloor> = \<lfloor>y\<rfloor>")
    case True
    with assms show ?thesis by (auto simp: half_even_def Let_def)
  next
    case False
    with fl have "\<lfloor>x\<rfloor> + 1 \<le> \<lfloor>y\<rfloor>" by simp
    then show ?thesis by (auto simp: half_even_def Let_def)
  qed
qed

lemma half_even_of_int [simp]: "half_even (of_int n) = n"
  by (simp add: half_even_def)

lemma round_pos_bounds:
  assumes "0 < x"
  shows "pow2 (ilog2 x) \<le> round_pos x \<and> round_pos x \<le> pow2 (ilog2 x + 1)"
proof -
  let ?u = "pow2 (ilog2 x - 52)"
  have 52: "pow2 (ilog2 x) = of_int (2 ^ 52) * ?u" and 53: "pow2 (ilog2 x + 1) = of_int (2 ^ 53) * ?u"
    using pow2_add_nat [of "ilog2 x - 52" 52] pow2_add_nat [of "ilog2 x - 52" 53]
    by (simp_all add: mult.commute add.commute)
  have "of_int (2 ^ 52) \<le> x / ?u" "x / ?u \<le> of_int (2 ^ 53)"
    using ilog2_bounds [OF assms] unfolding 52 53
    by (simp_all only: le_divide_eq divide_le_eq pow2_pos if_True less_imp_le)
  then have "2 ^ 52 \<le> half_even (x / ?u)" "half_even (x / ?u) \<le> 2 ^ 53"
    using half_even_mono [of "of_int (2 ^ 52)" "x / ?u"] half_even_mono [of "x / ?u" "of_int (2 ^ 53)"]
    by (simp_all only: half_even_of_int)
  then have "(of_int (2 ^ 52) :: rat) \<le> of_int (half_even (x / ?u))"
    "(of_int (half_even (x / ?u)) :: rat) \<le> of_int (2 ^ 53)"
    by (simp_all only: of_int_le_iff)
  then show ?thesis
    unfolding 52 53 by (simp add: round_pos_def Let_def mult_right_mono less_imp_le del: of_int_power)
qed

lemma round_pos_mono:
  assumes "0 < x" and "x \<le> y"
  shows "round_pos x \<le> round_pos y"
proof -
  have y: "0 < y" using assms by linarith
  have "pow2 (ilog2 x) < pow2 (ilog2 y + 1)"
    using ilog2_bounds [OF assms(1)] ilog2_bounds [OF y] assms(2) by linarith
  then have le: "ilog2 x \<le> ilog2 y" by (simp add: pow2_less_iff)
  show ?thesis
  proof (cases "ilog2 x = ilog2 y")
    case True
    let ?u = "pow2 (ilog2 y - 52)"
    have "half_even (x / ?u) \<le> half_even (y / ?u)"
      using assms(2) by (intro half_even_mono divide_right_mono) (simp_all add: less_imp_le)
    then show ?thesis
      using True by (simp add: round_pos_def Let_def mult_right_mono less_imp_le)
  next
    case False
    with le have "pow2 (ilog2 x + 1) \<le> pow2 (ilog2 y)" by (intro pow2_mono) simp
    with round_pos_bounds [OF assms(1)] round_pos_bounds [OF y] show ?thesis by linarith
  qed
qed

lemma rnd_nonneg: "0 \<le> x \<Longrightarrow> 0 \<le> rnd x"
proof (cases "x = 0")
  case False
  assume "0 \<le> x"
  with False have "0 < x" by simp
  then have "0 \<le> round_pos x"
    using round_pos_bounds [of x] pow2_pos [of "ilog2 x"] by linarith
  with \<open>0 < x\<close> show ?thesis by (simp add: rnd_def)
qed (simp add: rnd_def)

lemma rnd_mono:
  assumes "x \<le> y"
  shows "rnd x \<le> rnd y"
proof -
  consider "0 < x" | "x = 0" | "x < 0" "y < 0" | "x < 0" "0 \<le> y" by linarith
  then show ?thesis
  proof cases
    case 1
    with assms round_pos_mono [of x y] show ?thesis by (simp add: rnd_def)
  next
    case 2
    with assms rnd_nonneg [of y] show ?thesis by (simp add: rnd_def)
  next
    case 3
    with assms round_pos_mono [of "- y" "- x"] show ?thesis by (simp add: rnd_def)
  next
    case 4
    have "0 \<le> round_pos (- x)"
      using 4 round_pos_bounds [of "- x"] pow2_pos [of "ilog2 (- x)"] by linarith
    with 4 rnd_nonneg [of y] show ?thesis by (simp add: rnd_def)
  qed
qed

lemma rnd_uminus: "rnd (- x) = - rnd x"
  by (simp add: rnd_def)

lemma round_pos_exact:
  assumes "x / pow2 (ilog2 x - 52) = of_int n"
  shows "round_pos x = x"
  using assms by (simp add: round_pos_def Let_def) (simp add: field_simps)

lemma rnd_exact:
  assumes "x = of_int m * pow2 k" and "\<bar>m\<bar> \<le> 2 ^ 53"
  shows "rnd x = x"
proof -
  have pos: "round_pos y = y" if y: "y = of_int n * pow2 k" and n: "0 < n" "n \<le> 2 ^ 53" for n y
  proof -
    have y0: "0 < y" using n(1) by (simp add: y)
    have "(of_int n :: rat) \<le> of_int (2 ^ 53)" using n(2) by (simp only: of_int_le_iff)
    then have "of_int n * pow2 k \<le> of_int (2 ^ 53) * pow2 k"
      by (rule mult_right_mono) (simp add: less_imp_le)
    also have "\<dots> = pow2 (k + 53)"
      using pow2_add_nat [of k 53] by simp
    finally have up: "y \<le> pow2 (k + 53)" by (simp add: y)
    with ilog2_bounds [OF y0] have "pow2 (ilog2 y) < pow2 (k + 53 + 1)"
      using pow2_less_iff [of "k + 53" "k + 53 + 1"] by linarith
    then have e: "ilog2 y \<le> k + 53" by (simp add: pow2_less_iff)
    show ?thesis
    proof (cases "ilog2 y = k + 53")
      case True
      then have "y = pow2 (k + 53)" using up ilog2_bounds [OF y0] by simp
      moreover have "pow2 (k + 53) = of_int (2 ^ 52) * pow2 (k + 1)"
        using pow2_add_nat [of "k + 1" 52] by (simp add: add.commute mult.commute)
      ultimately have "y / pow2 (ilog2 y - 52) = of_int (2 ^ 52)"
        using True by (simp add: ac_simps)
      then show ?thesis by (rule round_pos_exact)
    next
      case False
      with e have j: "0 \<le> k - (ilog2 y - 52)" by simp
      have "y = of_int n * (pow2 (k - (ilog2 y - 52)) * pow2 (ilog2 y - 52))"
        by (simp add: y pow2_add [symmetric])
      moreover have "pow2 (k - (ilog2 y - 52)) = of_int (2 ^ nat (k - (ilog2 y - 52)))"
        using j by (simp add: pow2_def)
      ultimately have "y / pow2 (ilog2 y - 52) = of_int (n * 2 ^ nat (k - (ilog2 y - 52)))"
        by (simp add: field_simps)
      then show ?thesis by (rule round_pos_exact)
    qed
  qed
  consider "m = 0" | "0 < m" | "m < 0" by linarith
  then show ?thesis
  proof cases
    case 2
    with assms pos [of x m] show ?thesis by (simp add: rnd_def)
  next
    case 3
    then have "x < 0" using assms(1) by (simp add: mult_neg_pos)
    moreover have "round_pos (- x) = - x" using 3 assms by (intro pos [of _ "- m"]) simp_all
    ultimately show ?thesis by (simp add: rnd_def)
  qed (simp add: assms rnd_def)
qed

lemma rnd_of_int: "\<bar>m\<bar> \<le> 2 ^ 53 \<Longrightarrow> rnd (of_int m) = of_int m"
  by (rule rnd_exact [where k = 0]) simp_all

lemma to_float_exact: "\<bar>m\<bar> \<le> 2 ^ 53 \<Longrightarrow> to_float m = of_int m"
  by (simp add: to_float_def rnd_of_int)

lemma rnd_half: "\<bar>m\<bar> \<le> 2 ^ 53 \<Longrightarrow> rnd (of_int m / 2) = of_int m / 2"
  by (rule rnd_exact [where k = "- 1"]) (simp_all add: pow2_def)

lemma rnd_0 [simp]: "rnd 0 = 0"
  by (simp add: rnd_def)

lemma rnd_ge_int: "of_int m \<le> x \<Longrightarrow> \<bar>m\<bar> \<le> 2 ^ 53 \<Longrightarrow> of_int m \<le> rnd x"
  using rnd_mono [of "of_int m" x] by (simp add: rnd_of_int)

lemma rnd_le_int: "x \<le> of_int m \<Longrightarrow> \<bar>m\<bar> \<le> 2 ^ 53 \<Longrightarrow> rnd x \<le> of_int m"
  using rnd_mono [of x "of_int m"] by (simp add: rnd_of_int)

text \<open>A quotient of integers is at least the literal \<open>p / q\<close> in floats exactly when it is, as long as the denominator
  is too small for the rounding to reach the literal.\<close>

lemma rnd_fraction_threshold:
  assumes "0 < n" and "n \<le> N" and "0 < q" and "rnd (of_int p / of_int q - 1 / (of_int q * of_int N)) < rnd (of_int p / of_int q)"
  shows "rnd (of_int p / of_int q) \<le> rnd (of_int m / of_int n) \<longleftrightarrow> p * n \<le> q * m"
proof
  assume "p * n \<le> q * m"
  then have "rat_of_int (p * n) \<le> of_int (q * m)" by (simp only: of_int_le_iff)
  then have "rat_of_int p / of_int q \<le> of_int m / of_int n" using assms(1,3) by (simp add: field_simps)
  then show "rnd (of_int p / of_int q) \<le> rnd (of_int m / of_int n)" by (rule rnd_mono)
next
  have "rnd (of_int m / of_int n) < rnd (of_int p / of_int q)" if "q * m < p * n"
  proof -
    from that have "rat_of_int (q * m + 1) \<le> of_int (p * n)" by (simp only: of_int_le_iff)
    then have "rat_of_int m / of_int n \<le> of_int p / of_int q - 1 / (of_int q * of_int n)"
      using assms(1,3) by (simp add: field_simps)
    also have "\<dots> \<le> of_int p / of_int q - 1 / (of_int q * of_int N)"
      using assms(1-3) by (intro diff_left_mono divide_left_mono mult_left_mono mult_pos_pos) simp_all
    finally have "rnd (of_int m / of_int n) \<le> rnd (of_int p / of_int q - 1 / (of_int q * of_int N))" by (rule rnd_mono)
    with assms(4) show ?thesis by linarith
  qed
  moreover assume "rnd (of_int p / of_int q) \<le> rnd (of_int m / of_int n)"
  ultimately show "p * n \<le> q * m" by force
qed

section \<open>Truncation\<close>

lemma py_int_mono: "0 \<le> x \<Longrightarrow> x \<le> y \<Longrightarrow> py_int x \<le> py_int y"
  by (auto simp: py_int_def intro: floor_mono)

lemma py_int_nonneg: "0 \<le> x \<Longrightarrow> 0 \<le> py_int x"
  by (simp add: py_int_def)

lemma py_int_of_int [simp]: "py_int (of_int n) = n"
  by (auto simp: py_int_def)

lemma py_int_le: "0 \<le> x \<Longrightarrow> x \<le> of_int n \<Longrightarrow> py_int x \<le> n"
  using py_int_mono [of x "of_int n"] by simp

lemma py_int_ge: "of_int n \<le> x \<Longrightarrow> 0 \<le> n \<Longrightarrow> n \<le> py_int x"
  using py_int_mono [of "of_int n" x] by simp

lemma py_int_half: "0 \<le> n \<Longrightarrow> py_int (of_int n / 2) = n div 2"
  using floor_divide_of_int_eq [of n 2, where ?'a = rat] by (simp add: py_int_def)

text \<open>Multiplication by the literal 0.5 is exact.\<close>

lemma py_int_times_half:
  assumes "0 \<le> n" and "n \<le> 2 ^ 53"
  shows "py_int (fmul (to_float n) (rnd (1 / 2))) = n div 2"
proof -
  have half: "rnd (1 / 2) = 1 / 2" by code_simp
  show ?thesis
    using assms by (simp add: fmul_def to_float_exact half rnd_half py_int_half)
qed

text \<open>The literal 0.40 lies a little above two fifths, too little to reach the next integer.\<close>

lemma py_int_times_two_fifths:
  assumes "0 \<le> n" and "n \<le> 2 ^ 49"
  shows "py_int (fmul (to_float n) (rnd (2 / 5))) = (2 * n) div 5"
proof -
  let ?q = "rnd (2 / 5)" and ?m = "(2 * n) div 5"
  have q: "2 / 5 \<le> ?q" "?q \<le> 2 / 5 + 1 / 2 ^ 54" by code_simp+
  have m: "5 * ?m \<le> 2 * n" "2 * n \<le> 5 * ?m + 4" by presburger+
  have m0: "0 \<le> ?m" using assms(1) by (simp add: pos_imp_zdiv_nonneg_iff)
  have mr: "5 * rat_of_int ?m \<le> 2 * rat_of_int n" "2 * rat_of_int n \<le> 5 * rat_of_int ?m + 4"
    using m by linarith+
  have nr: "0 \<le> rat_of_int n" "rat_of_int n \<le> 2 ^ 49"
    using assms of_int_le_iff [of n "2 ^ 49", where ?'a = rat] by simp_all
  have lo: "rat_of_int ?m \<le> of_int n * ?q"
  proof -
    have "of_int n * (2 / 5) \<le> of_int n * ?q" using q(1) nr(1) by (rule mult_left_mono)
    with mr(1) show ?thesis by linarith
  qed
  have hi: "of_int n * ?q \<le> rat_of_int (8 * ?m + 7) * pow2 (- 3)"
  proof -
    have "of_int n * ?q \<le> of_int n * (2 / 5 + 1 / 2 ^ 54)" using q(2) nr(1) by (rule mult_left_mono)
    also have "\<dots> = of_int n * (2 / 5) + of_int n / 2 ^ 54" by (simp add: algebra_simps)
    also have "of_int n / 2 ^ 54 \<le> (1 / 32 :: rat)" using nr(2) by (simp add: field_simps)
    finally have "of_int n * ?q \<le> of_int n * (2 / 5) + 1 / 32" by simp
    moreover have "rat_of_int (8 * ?m + 7) * pow2 (- 3) = rat_of_int ?m + 7 / 8"
      by (simp add: pow2_def field_simps)
    ultimately show ?thesis using mr(2) by linarith
  qed
  have mb: "?m \<le> 2 ^ 49" using m(1) m0 assms(2) by linarith
  have ex: "rnd (rat_of_int (8 * ?m + 7) * pow2 (- 3)) = rat_of_int (8 * ?m + 7) * pow2 (- 3)"
    by (rule rnd_exact [OF refl]) (use m0 mb in simp)
  have lo': "rat_of_int ?m \<le> rnd (of_int n * ?q)"
    using lo by (rule rnd_ge_int) (use m0 mb in simp)
  have "rnd (of_int n * ?q) \<le> rat_of_int (8 * ?m + 7) * pow2 (- 3)"
    using rnd_mono [OF hi] ex by simp
  also have "\<dots> = rat_of_int ?m + 7 / 8" by (simp add: pow2_def field_simps)
  finally have hi': "rnd (of_int n * ?q) < rat_of_int ?m + 1" by simp
  have "\<lfloor>rnd (of_int n * ?q)\<rfloor> = ?m"
    using lo' hi' by (simp add: floor_eq_iff)
  moreover have "0 \<le> rnd (of_int n * ?q)" using lo' m0 by (meson of_int_0_le_iff order_trans)
  ultimately show ?thesis
    using assms by (simp add: fmul_def to_float_exact py_int_def)
qed

end
