(* ===== verification/Slashing.thy ===== *)
theory Slashing
  imports Stake PyFloat
begin

text \<open>
  The slashing rules of \<open>src/economics/slashing.py\<close>: the penalty for a violation (float
  arithmetic, \<open>PyFloat\<close>), the execution of one slash, and the slashing of several verifiers
  with the distribution of the proceeds.  \<open>slash_verifiers\<close> runs one transaction per verifier
  and one for the payouts, so its result pairs the value or the exception with the state that
  is left: an exception does not undo the transactions before it.
\<close>

section \<open>State\<close>

datatype violation_type = FAILED_CHALLENGE | MISSED_HEARTBEAT | POLICY_VIOLATION

fun violation_value :: "violation_type \<Rightarrow> string" where
  "violation_value FAILED_CHALLENGE = ''FAILED_CHALLENGE''"
| "violation_value MISSED_HEARTBEAT = ''MISSED_HEARTBEAT''"
| "violation_value POLICY_VIOLATION = ''POLICY_VIOLATION''"

record slash_event =
  sl_event_id :: string
  sl_account :: string
  sl_reason :: violation_type
  sl_amount :: int
  sl_evidence :: string
  sl_severity :: int
  sl_timestamp :: int

record slash_ledger = stake_ledger +
  slash_events :: "slash_event list"

definition init_slash_ledger :: slash_ledger where
  "init_slash_ledger = stake_ledger.extend init_stake_ledger (slash_ledger.fields [])"

section \<open>Operations\<close>

definition calculate_slash_amount ::
  "string \<Rightarrow> violation_type \<Rightarrow> int \<Rightarrow> 'a ledger_scheme \<Rightarrow> error + int" where
  "calculate_slash_amount account_id violation severity db =
     (if severity < 0 \<or> 10 < severity then Inl (ValueError ''Severity must be 0-10'')
      else let staked = to_float (get_staked_amount account_id db) in
        case violation of
          FAILED_CHALLENGE \<Rightarrow> Inr (py_int (fmul staked (rnd (1 / 2))))
        | MISSED_HEARTBEAT \<Rightarrow>
            let percentage = fmul (to_float (min severity 10)) (rnd (1 / 100))
            in Inr (py_int (fmul staked percentage))
        | POLICY_VIOLATION \<Rightarrow>
            let multiplier = fadd 1 (fdiv (to_float severity) 10);
                percentage = fmul (rnd (1 / 10)) multiplier
            in Inr (py_int (fmul staked percentage)))"

definition insert_slash_event :: "slash_event \<Rightarrow> 'a slash_ledger_scheme \<Rightarrow> error + 'a slash_ledger_scheme" where
  "insert_slash_event ev db =
     (if sl_event_id ev \<in> set (map sl_event_id (slash_events db)) then Inl IntegrityError
      else Inr (db\<lparr>slash_events := slash_events db @ [ev]\<rparr>))"

definition execute_slash ::
  "slash_event \<Rightarrow> string \<Rightarrow> 'a slash_ledger_scheme \<Rightarrow> error + unit \<times> 'a slash_ledger_scheme" where
  "execute_slash ev uuid db =
     with_lock (\<lambda>db.
       let actual_slash = min (get_staked_amount (sl_account ev) db) (sl_amount ev) in
       res_bind
         (if 0 < actual_slash then
            res_bind (update_account (sl_account ev) (unlock actual_slash) db) (\<lambda>db.
            insert_op (raw_op uuid (sl_account ev) ''SLASH'' actual_slash (sl_timestamp ev)
              [(''event_id'', JStr (sl_event_id ev)), (''reason'', JStr (violation_value (sl_reason ev))),
               (''severity'', JInt (sl_severity ev)), (''evidence_hash'', JStr (sl_evidence ev))]) db)
          else Inr db) (\<lambda>db.
       res_bind (insert_slash_event (ev\<lparr>sl_amount := actual_slash\<rparr>) db) (\<lambda>db.
       Inr ((), db)))) db"

definition get_slash_history :: "string \<Rightarrow> int \<Rightarrow> 'a slash_ledger_scheme \<Rightarrow> slash_event list" where
  "get_slash_history a limit db =
     sql_limit limit (sort_key (\<lambda>ev. - sl_timestamp ev)
       (filter (\<lambda>ev. sl_account ev = a) (slash_events db)))"

text \<open>The loop over the verifiers: each turn calculates the penalty from the stake as it is
  then, executes it and adds it up.  \<open>uuid\<close> supplies the fresh identifiers; turn \<open>k\<close> uses two.\<close>

fun slash_each ::
  "(nat \<Rightarrow> string) \<Rightarrow> string \<Rightarrow> int \<Rightarrow> nat \<Rightarrow> string list \<Rightarrow> slash_event list \<Rightarrow> int
     \<Rightarrow> 'a slash_ledger_scheme \<Rightarrow> (error + slash_event list \<times> int) \<times> 'a slash_ledger_scheme" where
  "slash_each uuid evidence ts k [] events tot db = (Inr (events, tot), db)"
| "slash_each uuid evidence ts k (v # vs) events tot db =
     (case calculate_slash_amount v FAILED_CHALLENGE 10 db of
        Inl e \<Rightarrow> (Inl e, db)
      | Inr slash_amount \<Rightarrow>
          let ev = \<lparr>sl_event_id = uuid (2 * k), sl_account = v, sl_reason = FAILED_CHALLENGE,
                    sl_amount = slash_amount, sl_evidence = evidence, sl_severity = 10,
                    sl_timestamp = ts\<rparr> in
          case execute_slash ev (uuid (2 * k + 1)) db of
            Inl e \<Rightarrow> (Inl e, db)
          | Inr (u, db) \<Rightarrow>
              slash_each uuid evidence ts (Suc k) vs (events @ [ev]) (tot + slash_amount) db)"

definition pay_reward ::
  "string \<Rightarrow> string \<Rightarrow> int \<Rightarrow> string \<Rightarrow> string \<Rightarrow> int \<Rightarrow> 'a ledger_scheme \<Rightarrow> error + 'a ledger_scheme" where
  "pay_reward uuid reason ts evidence a n db =
     res_bind (update_account a (credit n) db) (\<lambda>db.
       insert_op (raw_op uuid a ''SLASH_REWARD'' n ts
         [(''reason'', JStr reason), (''evidence_hash'', JStr evidence)]) db)"

fun pay_honest ::
  "(nat \<Rightarrow> string) \<Rightarrow> string \<Rightarrow> int \<Rightarrow> int \<Rightarrow> int \<Rightarrow> nat \<Rightarrow> nat \<Rightarrow> string list
     \<Rightarrow> 'a ledger_scheme \<Rightarrow> error + 'a ledger_scheme" where
  "pay_honest uuid evidence ts share rest base i [] db = Inr db"
| "pay_honest uuid evidence ts share rest base i (v # vs) db =
     res_bind (pay_reward (uuid (base + i)) ''honest_verifier'' ts evidence v
                 (share + (if i = 0 then rest else 0)) db)
       (pay_honest uuid evidence ts share rest base (Suc i) vs)"

record slash_result =
  total_slashed :: int
  challenger_payout :: int
  honest_payout :: int
  burned :: int
  sr_events :: "slash_event list"

text \<open>The attestation log is a list of JSON records; an entry is the verifier id of a record
  that is a dictionary with the key \<open>verifier_id\<close>, \<open>None\<close> for any other entry.\<close>

definition slash_verifiers ::
  "(nat \<Rightarrow> string) \<Rightarrow> string list \<Rightarrow> string \<Rightarrow> string \<Rightarrow> string list option
     \<Rightarrow> int \<Rightarrow> string option list option \<Rightarrow> 'a slash_ledger_scheme
     \<Rightarrow> (error + slash_result) \<times> 'a slash_ledger_scheme" where
  "slash_verifiers uuid verifiers evidence challenger honest ts attestation_log db =
     (if verifiers = [] then
        (Inr \<lparr>total_slashed = 0, challenger_payout = 0, honest_payout = 0, burned = 0, sr_events = []\<rparr>, db)
      else case attestation_log of
        None \<Rightarrow> (Inl (ValueError ''attestation_log is required for slash_verifiers''), db)
      | Some records \<Rightarrow>
          let honest_verifiers = (case honest of None \<Rightarrow> [] | Some h \<Rightarrow> h);
              unverified_honest = filter (\<lambda>v. Some v \<notin> set records) honest_verifiers in
          if unverified_honest \<noteq> [] then
            (Inl (ValueError ''Unverified honest_verifiers claimed without proof''), db)
          else
            case slash_each uuid evidence ts 0 verifiers [] 0 db of
              (Inl e, db) \<Rightarrow> (Inl e, db)
            | (Inr (events, tot), db) \<Rightarrow>
                let chal = (tot * 50) div 100; honest_total = (tot * 40) div 100 in
                case with_lock (\<lambda>db.
                       res_bind (if 0 < chal
                                 then pay_reward (uuid (2 * length verifiers)) ''challenge_upheld'' ts evidence challenger chal db
                                 else Inr db) (\<lambda>db.
                       res_bind (if 0 < honest_total \<and> honest_verifiers \<noteq> []
                                 then pay_honest uuid evidence ts
                                        (honest_total div int (length honest_verifiers))
                                        (honest_total mod int (length honest_verifiers))
                                        (Suc (2 * length verifiers)) 0 honest_verifiers db
                                 else Inr db) (\<lambda>db.
                       Inr ((), db)))) db of
                  Inl e \<Rightarrow> (Inl e, db)
                | Inr (u, db) \<Rightarrow>
                    (Inr \<lparr>total_slashed = tot, challenger_payout = chal, honest_payout = honest_total,
                       burned = tot - chal - honest_total, sr_events = events\<rparr>, db))"

end
