(* ===== verification/StakeProps.thy ===== *)
theory StakeProps
  imports Stake
begin

text \<open>
  Correctness of staking: the unbonding column of every account is the sum of its open
  unbonding records, completion releases exactly the matured records and never an immature
  one, and the ledger's conservation and audit laws survive.  Two results are negative:
  staking shares the column \<open>locked\<close> with escrow, so escrowed credits can be unstaked, and it
  writes audit kinds that \<open>get_audit_trail\<close> cannot parse.
\<close>

section \<open>Invariant\<close>

definition pending :: "string \<Rightarrow> (string, unbonding_row) table \<Rightarrow> int" where
  "pending a us =
     col_sum (\<lambda>r. if unb_account r = a \<and> \<not> unb_completed r then unb_amount r else 0) us"

definition unbonding_ok :: "'a stake_ledger_scheme \<Rightarrow> bool" where
  "unbonding_ok db \<longleftrightarrow> keyed (unbondings db) \<and>
     (\<forall>i r. map_of (unbondings db) i = Some r \<longrightarrow>
        0 < unb_amount r \<and> has_key (unb_account r) (accounts db)) \<and>
     (\<forall>a. pending a (unbondings db) = cell unbonding a (accounts db))"

definition good_stake :: "'a stake_ledger_scheme \<Rightarrow> bool" where
  "good_stake db \<longleftrightarrow> sound_ledger db \<and> unbonding_ok db"

datatype stake_cmd =
    LedgerCmd ledger_cmd
  | StakeCmd string int string int
  | Unstake int string int "string \<times> string" int
  | CompleteUnbonding string "nat \<Rightarrow> string" int

fun stake_step :: "stake_cmd \<Rightarrow> 'a stake_ledger_scheme \<Rightarrow> error + 'a stake_ledger_scheme" where
  "stake_step (LedgerCmd c) db = ledger_step c db"
| "stake_step (StakeCmd a n i now) db = forget (stake a n i now db)"
| "stake_step (Unstake secs a n ids now) db = forget (unstake secs a n ids now db)"
| "stake_step (CompleteUnbonding a uuid now) db = forget (complete_unbonding a uuid now db)"

section \<open>Completing unbonding records\<close>

definition finish_row :: "string \<Rightarrow> int \<Rightarrow> unbonding_row \<Rightarrow> unbonding_row" where
  "finish_row a now r = (if matured a now r then r\<lparr>unb_completed := True\<rparr> else r)"

definition finish_rows ::
  "string \<Rightarrow> int \<Rightarrow> (string, unbonding_row) table \<Rightarrow> (string, unbonding_row) table" where
  "finish_rows a now us = map (\<lambda>(i, r). (i, finish_row a now r)) us"

definition matured_sum :: "string \<Rightarrow> int \<Rightarrow> (string, unbonding_row) table \<Rightarrow> int" where
  "matured_sum a now us = col_sum (\<lambda>r. if matured a now r then unb_amount r else 0) us"

text \<open>What the update loop of \<open>complete_unbonding\<close> does to each part of the state.\<close>

lemma complete_rows_Inr:
  assumes "complete_rows a now uuid k rows db = Inr db'"
  shows "\<exists>ops. db' = db\<lparr>unbondings :=
        map (\<lambda>(i, r). (i, if i \<in> set (map fst rows) then r\<lparr>unb_completed := True\<rparr> else r)) (unbondings db),
      operations := operations db @ ops\<rparr> \<and>
     (\<forall>b. audit_balance b ops = (if a = b then (\<Sum>(i, n)\<leftarrow>rows. n) else 0)) \<and>
     (distinct (map op_id (operations db)) \<longrightarrow> distinct (map op_id (operations db')))"
  using assms
proof (induction rows arbitrary: k db)
  case Nil
  then show ?case by (intro exI [of _ "[]"]) auto
next
  case (Cons row rows)
  obtain i n where row: "row = (i, n)" by (cases row)
  let ?op = "raw_op (uuid k) a ''COMPLETE_UNBONDING'' n now [(''unbonding_id'', JStr i)]"
  from Cons.prems row have fresh: "uuid k \<notin> set (map op_id (operations db))"
    and rest: "complete_rows a now uuid (Suc k) rows
       ((mark_completed i db)\<lparr>operations := operations db @ [?op]\<rparr>) = Inr db'"
    by (auto simp: res_simps stmt_simps mark_completed_def)
  from Cons.IH [OF rest] obtain ops where
    db': "db' = ((mark_completed i db)\<lparr>operations := operations db @ [?op]\<rparr>)\<lparr>unbondings :=
        map (\<lambda>(i, r). (i, if i \<in> set (map fst rows) then r\<lparr>unb_completed := True\<rparr> else r))
          (unbondings (mark_completed i db)),
      operations := (operations db @ [?op]) @ ops\<rparr>"
    and ops: "\<forall>b. audit_balance b ops = (if a = b then (\<Sum>(i, n)\<leftarrow>rows. n) else 0)"
    and dist: "distinct (map op_id (operations db @ [?op])) \<longrightarrow> distinct (map op_id (operations db'))"
    by auto
  have "unbondings db' =
     map (\<lambda>(j, r). (j, if j \<in> set (map fst (row # rows)) then r\<lparr>unb_completed := True\<rparr> else r)) (unbondings db)"
    using row by (auto simp: db' mark_completed_def update_row_def comp_def split: prod.splits)
  then show ?case
    using row ops dist fresh
    by (intro exI [of _ "?op # ops"]) (auto simp: db' mark_completed_def)
qed

lemma sum_matured_rows: "(\<Sum>(i, n)\<leftarrow>matured_rows a now db. n) = matured_sum a now (unbondings db)"
proof -
  have "(\<Sum>(i, n)\<leftarrow>map (\<lambda>(i, r). (i, unb_amount r)) (filter (\<lambda>(i, r). matured a now r) us). n) =
     matured_sum a now us" for us
    by (induction us) (auto simp: matured_sum_def)
  then show ?thesis by (simp add: matured_rows_def)
qed

lemma finish_matured_rows:
  assumes "keyed (unbondings db)"
  shows "map (\<lambda>(i, r). (i, if i \<in> set (map fst (matured_rows a now db)) then r\<lparr>unb_completed := True\<rparr> else r))
      (unbondings db) = finish_rows a now (unbondings db)"
  unfolding finish_rows_def
proof (rule map_cong [OF refl])
  fix p assume p: "p \<in> set (unbondings db)"
  obtain i r where ir: "p = (i, r)" by (cases p)
  have uniq: "r' = r" if "(i, r') \<in> set (unbondings db)" for r'
    using that p ir assms by (simp add: keyed_map_of)
  have "i \<in> set (map fst (matured_rows a now db)) \<longleftrightarrow>
      (\<exists>r'. (i, r') \<in> set (unbondings db) \<and> matured a now r')"
    by (force simp: matured_rows_def)
  also have "\<dots> \<longleftrightarrow> matured a now r"
    using uniq p ir by blast
  finally show "(case p of (i, r) \<Rightarrow>
       (i, if i \<in> set (map fst (matured_rows a now db)) then r\<lparr>unb_completed := True\<rparr> else r)) =
    (case p of (i, r) \<Rightarrow> (i, finish_row a now r))"
    using ir by (simp add: finish_row_def)
qed

lemma complete_unbonding_Inr:
  assumes "complete_unbonding a uuid now db = Inr (n, db')" and "keyed (unbondings db)"
  shows "n = matured_sum a now (unbondings db) \<and> \<not> lock_held db \<and>
    (\<exists>ops. db' = db\<lparr>lock_held := False,
        accounts := update_row a (finish_unbonding n) (accounts db),
        unbondings := finish_rows a now (unbondings db),
        operations := operations db @ ops\<rparr> \<and>
     (\<forall>b. audit_balance b ops = (if a = b then n else 0)) \<and>
     (distinct (map op_id (operations db)) \<longrightarrow> distinct (map op_id (operations db'))))"
proof (cases "matured_rows a now db = []")
  case True
  then have none: "\<forall>(i, r) \<in> set (unbondings db). \<not> matured a now r"
    by (auto simp: matured_rows_def filter_empty_conv)
  have same: "update_row a (finish_unbonding 0) (accounts db) = accounts db"
    by (auto simp: update_row_def finish_unbonding_def intro!: map_idI)
  have "finish_rows a now (unbondings db) = unbondings db"
    using none by (auto simp: finish_rows_def finish_row_def intro!: map_idI)
  moreover have "matured_sum a now (unbondings db) = 0"
    using True sum_matured_rows [of a now db] by simp
  moreover have "matured_rows a now (db\<lparr>lock_held := True\<rparr>) = []"
    using True by (simp add: matured_rows_def)
  ultimately show ?thesis
    using assms(1) True same
    by (intro conjI exI [of _ "[]"]) (auto simp: complete_unbonding_def stmt_simps)
next
  case False
  let ?rows = "matured_rows a now db"
  have lk: "matured_rows a now (db\<lparr>lock_held := True\<rparr>) = ?rows"
    by (simp add: matured_rows_def)
  from assms(1) False lk obtain db1 where
    loop: "complete_rows a now uuid 0 ?rows
       (db\<lparr>lock_held := True, accounts := update_row a (finish_unbonding (\<Sum>(i, n)\<leftarrow>?rows. n)) (accounts db)\<rparr>) = Inr db1"
    and n: "n = (\<Sum>(i, n)\<leftarrow>?rows. n)" and db': "db' = db1\<lparr>lock_held := False\<rparr>" and unl: "\<not> lock_held db"
    by (auto simp: complete_unbonding_def stmt_simps res_simps Let_def)
  from complete_rows_Inr [OF loop] obtain ops where
    "db1 = db\<lparr>lock_held := True, accounts := update_row a (finish_unbonding n) (accounts db),
       unbondings := finish_rows a now (unbondings db), operations := operations db @ ops\<rparr>"
    and "\<forall>b. audit_balance b ops = (if a = b then n else 0)"
    and "distinct (map op_id (operations db)) \<longrightarrow> distinct (map op_id (operations db1))"
    using finish_matured_rows [OF assms(2), of a now] by (auto simp: n)
  then show ?thesis
    using unl n by (intro conjI exI [of _ ops]) (auto simp: db' sum_matured_rows)
qed

section \<open>Preservation\<close>

lemma pending_add [simp]:
  "pending a (add_row i r us) =
     pending a us + (if unb_account r = a \<and> \<not> unb_completed r then unb_amount r else 0)"
  by (simp add: pending_def)

lemma pending_finish:
  "pending b (finish_rows a now us) = pending b us - (if a = b then matured_sum a now us else 0)"
  by (induction us)
     (auto simp: pending_def finish_rows_def finish_row_def matured_sum_def matured_def)

lemma keys_finish_rows [simp]: "keys (finish_rows a now us) = keys us"
  by (induction us) (auto simp: finish_rows_def)

lemma keyed_finish_rows [simp]: "keyed (finish_rows a now us) = keyed us"
  by (simp add: keyed_def)

lemma map_of_finish_rows [simp]:
  "map_of (finish_rows a now us) i = map_option (finish_row a now) (map_of us i)"
  by (induction us) (auto simp: finish_rows_def)

lemma finish_row_simps [simp]:
  "unb_amount (finish_row a now r) = unb_amount r"
  "unb_account (finish_row a now r) = unb_account r"
  by (auto simp: finish_row_def)

lemma matured_sum_bounds:
  assumes "\<And>i r. (i, r) \<in> set us \<Longrightarrow> 0 < unb_amount r"
  shows "0 \<le> matured_sum a now us \<and> matured_sum a now us \<le> pending a us"
  using assms
proof (induction us)
  case (Cons p us)
  have "0 \<le> matured_sum a now us \<and> matured_sum a now us \<le> pending a us"
    using Cons.prems by (intro Cons.IH) auto
  moreover have "0 < unb_amount (snd p)"
    using Cons.prems [of "fst p" "snd p"] by simp
  ultimately show ?case
    by (cases p) (auto simp: matured_sum_def pending_def matured_def)
qed (simp add: matured_sum_def pending_def)

lemma unbonding_ok_amounts:
  "unbonding_ok db \<Longrightarrow> (i, r) \<in> set (unbondings db) \<Longrightarrow> 0 < unb_amount r"
  by (auto simp: unbonding_ok_def keyed_map_of)

lemma ledger_step_frame:
  assumes "ledger_step c (db :: 'a stake_ledger_scheme) = Inr db'"
  shows "unbondings db' = unbondings db \<and>
    (\<forall>a. cell unbonding a (accounts db') = cell unbonding a (accounts db)) \<and>
    (\<forall>a. has_key a (accounts db) \<longrightarrow> has_key a (accounts db'))"
proof (cases c)
  case (CreateAccount a b m i now)
  with assms show ?thesis by (auto simp: res_simps row_simps dest!: create_account_Inr)
next
  case (Transfer f t n allow ids now)
  with assms show ?thesis by (cases ids) (auto simp: res_simps row_simps dest!: transfer_Inr)
next
  case (Escrow a n e i now)
  with assms show ?thesis by (auto simp: res_simps row_simps dest!: escrow_Inr)
next
  case (ReleaseEscrow e t i now)
  with assms show ?thesis by (auto simp: res_simps row_simps elim!: release_escrow_Inr)
next
  case (CancelEscrow e i now)
  with assms show ?thesis by (auto simp: res_simps row_simps elim!: cancel_escrow_Inr)
qed

lemma ledger_step_stake:
  "good_stake db \<Longrightarrow> ledger_step c db = Inr db' \<Longrightarrow> good_stake db'"
  using ledger_step_frame [of c db db']
  by (auto simp: good_stake_def unbonding_ok_def intro: ledger_step_sound)

lemma stake_good:
  assumes "good_stake db" and "stake a n i now db = Inr (u, db')"
  shows "good_stake db'"
proof -
  note st = stake_Inr [OF assms(2)]
  have a: "has_key a (accounts db)"
    using st by (intro has_key_of_positive [of balance]) (auto simp: get_balance_cell)
  have rows: "rows_ok (accounts db')"
    using assms(1) st by (simp add: good_stake_def sound_defs rows_intros)
  show ?thesis
    using assms(1) st a rows
    by (auto simp: good_stake_def sound_defs row_simps unbonding_ok_def)
qed

lemma unstake_good:
  assumes "good_stake db" and "unstake secs a n ids now db = Inr (u, db')"
  shows "good_stake db'"
proof -
  obtain i uuid where ids: "ids = (i, uuid)" by (cases ids)
  note st = unstake_Inr [OF assms(2) [unfolded ids]]
  have a: "has_key a (accounts db)"
    using st by (intro has_key_of_positive [of locked]) auto
  have rows: "rows_ok (accounts db')"
    using assms(1) st by (simp add: good_stake_def sound_defs rows_intros)
  have "sound_ledger db'"
    using assms(1) st a rows by (auto simp: good_stake_def sound_defs row_simps)
  moreover have "unbonding_ok db'"
    using assms(1) st a
    by (auto simp: good_stake_def unbonding_ok_def row_simps split: option.splits if_splits)
  ultimately show ?thesis by (simp add: good_stake_def)
qed

lemma complete_unbonding_good:
  assumes "good_stake db" and "complete_unbonding a uuid now db = Inr (n, db')"
  shows "good_stake db'"
proof -
  have us: "keyed (unbondings db)" "unbonding_ok db"
    using assms(1) by (auto simp: good_stake_def unbonding_ok_def)
  from complete_unbonding_Inr [OF assms(2) us(1)] obtain ops where
    n: "n = matured_sum a now (unbondings db)"
    and db': "db' = db\<lparr>lock_held := False, accounts := update_row a (finish_unbonding n) (accounts db),
        unbondings := finish_rows a now (unbondings db), operations := operations db @ ops\<rparr>"
    and ops: "\<forall>b. audit_balance b ops = (if a = b then n else 0)"
    and dist: "distinct (map op_id (operations db)) \<longrightarrow> distinct (map op_id (operations db'))"
    by auto
  have bounds: "0 \<le> n" "n \<le> cell unbonding a (accounts db)"
    using matured_sum_bounds [of "unbondings db" a now] unbonding_ok_amounts [OF us(2)] us(2)
    by (auto simp: n unbonding_ok_def)
  have n0: "n = 0" if "\<not> has_key a (accounts db)"
    using that bounds by simp
  have "sound_ledger db'"
    using assms(1) db' ops dist bounds n0
    by (auto simp: good_stake_def sound_defs row_simps intro!: rows_intros)
  moreover have "unbonding_ok db'"
    using us n0 by (auto simp: db' unbonding_ok_def row_simps pending_finish n)
  ultimately show ?thesis by (simp add: good_stake_def)
qed

lemma stake_step_good: "good_stake db \<Longrightarrow> stake_step c db = Inr db' \<Longrightarrow> good_stake db'"
  by (cases c)
     (auto simp: res_simps intro: ledger_step_stake stake_good unstake_good complete_unbonding_good)

interpretation staking: guarded_machine stake_step good_stake
  by unfold_locales (rule stake_step_good)

lemma good_init_stake: "good_stake init_stake_ledger"
  by (simp add: good_stake_def sound_defs unbonding_ok_def init_stake_ledger_def init_ledger_def
      ledger.defs stake_ledger.defs rows_ok_def cell_def pending_def MAX_SUPPLY_def)

section \<open>Properties\<close>

text \<open>Claim C5. Staking conserves credits: after any interleaving of ledger and staking
  operations the holdings add up to the minted supply, the audit trail (with the kinds the
  stake manager writes) replays every balance, and the unbonding column of every account is
  exactly the sum of its open unbonding records.\<close>

theorem staking_conserves_credits:
  "credits (run_cmds stake_step cs init_stake_ledger) = total_supply (run_cmds stake_step cs init_stake_ledger) \<and>
   get_balance a (run_cmds stake_step cs init_stake_ledger) =
     audit_balance a (operations (run_cmds stake_step cs init_stake_ledger)) \<and>
   get_unbonding_amount a (run_cmds stake_step cs init_stake_ledger) =
     pending a (unbondings (run_cmds stake_step cs init_stake_ledger))"
proof -
  have "good_stake (run_cmds stake_step cs init_stake_ledger)"
    by (rule staking.run_inv) (rule good_init_stake)
  then show ?thesis
    by (auto simp: good_stake_def sound_ledger_def solvent_def audited_def unbonding_ok_def
        get_unbonding_amount_def get_account_def cell_def)
qed

lemma complete_rows_succeeds:
  assumes "inj uuid" and "\<forall>j\<ge>k. uuid j \<notin> set (map op_id (operations db))"
  shows "\<exists>db'. complete_rows a now uuid k rows db = Inr db'"
  using assms(2)
proof (induction rows arbitrary: k db)
  case (Cons row rows)
  obtain i n where row: "row = (i, n)" by (cases row)
  let ?db = "(mark_completed i db)\<lparr>operations := operations db @
      [raw_op (uuid k) a ''COMPLETE_UNBONDING'' n now [(''unbonding_id'', JStr i)]]\<rparr>"
  have "\<forall>j\<ge>Suc k. uuid j \<notin> set (map op_id (operations ?db))"
    using Cons.prems assms(1) by (auto dest: injD)
  from Cons.IH [OF this] show ?case
    using Cons.prems row by (simp add: insert_op_def mark_completed_def)
qed simp

text \<open>Completing unbonding always works and is exact: in every reachable state, with
  fresh audit ids, \<open>complete_unbonding\<close> succeeds, returns the sum of the account's matured
  records, moves exactly that amount from unbonding to the balance, marks those records and no
  others, and leaves the locked credits and the total alone.\<close>

theorem complete_unbonding_exact:
  assumes "db = run_cmds stake_step cs init_stake_ledger"
    and "inj uuid" and "\<forall>j. uuid j \<notin> set (map op_id (operations db))"
  shows "\<exists>db'. complete_unbonding a uuid now db = Inr (matured_sum a now (unbondings db), db') \<and>
     get_balance b db' = get_balance b db + (if b = a then matured_sum a now (unbondings db) else 0) \<and>
     get_staked_amount b db' = get_staked_amount b db \<and>
     unbondings db' = finish_rows a now (unbondings db) \<and> credits db' = credits db"
proof -
  have good: "good_stake db"
    using staking.run_inv [OF good_init_stake, of cs] assms(1) by simp
  then have us: "keyed (unbondings db)" "unbonding_ok db" and unl: "\<not> lock_held db"
    and rows: "rows_ok (accounts db)"
    by (auto simp: good_stake_def unbonding_ok_def sound_defs)
  let ?n = "matured_sum a now (unbondings db)"
  have bounds: "0 \<le> ?n" "?n \<le> cell unbonding a (accounts db)"
    using matured_sum_bounds [of "unbondings db" a now] unbonding_ok_amounts [OF us(2)] us(2)
    by (auto simp: unbonding_ok_def)
  have chk: "check_row (finish_unbonding ?n r)" if "map_of (accounts db) a = Some r" for r
    using that bounds rows
    by (auto simp: rows_ok_def check_row_def finish_unbonding_def cell_def)
  let ?db = "db\<lparr>lock_held := True, accounts := update_row a (finish_unbonding ?n) (accounts db)\<rparr>"
  have upd: "update_account a (finish_unbonding ?n) (db\<lparr>lock_held := True\<rparr>) = Inr ?db"
    using chk by (auto simp: stmt_simps)
  obtain db1 where loop: "complete_rows a now uuid 0 (matured_rows a now db) ?db = Inr db1"
    using complete_rows_succeeds [of uuid 0 ?db a now "matured_rows a now db"] assms(2,3) by fastforce
  have "matured_rows a now (db\<lparr>lock_held := True\<rparr>) = matured_rows a now db"
    by (simp add: matured_rows_def)
  then obtain n db' where res: "complete_unbonding a uuid now db = Inr (n, db')"
    using unl upd loop sum_matured_rows [of a now db]
    by (cases "matured_rows a now db = []") (auto simp: complete_unbonding_def with_lock_def Let_def)
  have "?n = 0" if "\<not> has_key a (accounts db)"
    using that bounds by simp
  then show ?thesis
    using complete_unbonding_Inr [OF res us(1)] res rows
    by (auto simp: get_balance_cell get_staked_amount_cell credits_def row_simps)
qed

definition demo_uuid :: "nat \<Rightarrow> string" where
  "demo_uuid k = replicate k (CHR ''u'')"

theorem complete_unbonding_exact_witness:
  "\<exists>db'. complete_unbonding ''a'' demo_uuid 9
     (run_cmds stake_step [LedgerCmd (CreateAccount ''a'' 5 None ''op1'' 0), StakeCmd ''a'' 4 ''op2'' 1,
        Unstake 0 ''a'' 3 (''r1'', ''op3'') 2] init_stake_ledger) = Inr (3, db')"
proof -
  let ?cs = "[LedgerCmd (CreateAccount ''a'' 5 None ''op1'' 0), StakeCmd ''a'' 4 ''op2'' 1,
        Unstake 0 ''a'' 3 (''r1'', ''op3'') 2]"
  let ?db = "run_cmds stake_step ?cs init_stake_ledger"
  have inj: "inj demo_uuid"
    by (rule injI) (metis demo_uuid_def length_replicate)
  have ids: "map op_id (operations ?db) = [''op1'', ''op2'', ''op3'']"
    by code_simp
  have "CHR ''o'' \<notin> set (demo_uuid j)" for j
    by (simp add: demo_uuid_def)
  then have "demo_uuid j \<noteq> ''op1'' \<and> demo_uuid j \<noteq> ''op2'' \<and> demo_uuid j \<noteq> ''op3''" for j
    by (metis list.set_intros(1))
  then have fresh: "\<forall>j. demo_uuid j \<notin> set (map op_id (operations ?db))"
    by (simp add: ids del: run_cmds.simps)
  have "matured_sum ''a'' 9 (unbondings ?db) = 3"
    by code_simp
  with complete_unbonding_exact [OF refl inj fresh, of "''a''" 9 "''a''"] show ?thesis
    by (auto simp del: run_cmds.simps)
qed

section \<open>The unbonding period\<close>

fun completion_before :: "int \<Rightarrow> stake_cmd \<Rightarrow> bool" where
  "completion_before t (CompleteUnbonding a uuid now) \<longleftrightarrow> now < t"
| "completion_before t c \<longleftrightarrow> True"

lemma stake_step_keeps_immature:
  assumes "good_stake db" and "stake_step c db = Inr db'"
    and "map_of (unbondings db) i = Some r" and "completion_before (unb_completed_at r) c"
  shows "map_of (unbondings db') i = Some r"
proof (cases c)
  case (LedgerCmd c')
  with assms ledger_step_frame show ?thesis by fastforce
next
  case (StakeCmd a n j now)
  with assms show ?thesis by (auto simp: res_simps dest!: stake_Inr)
next
  case (Unstake secs a n ids now)
  with assms show ?thesis by (cases ids) (auto simp: res_simps dest!: unstake_Inr)
next
  case (CompleteUnbonding a uuid now)
  with assms obtain n where cu: "complete_unbonding a uuid now db = Inr (n, db')"
    by (auto simp: res_simps)
  have "keyed (unbondings db)" using assms(1) by (simp add: good_stake_def unbonding_ok_def)
  from complete_unbonding_Inr [OF cu this] have "unbondings db' = finish_rows a now (unbondings db)"
    by auto
  then show ?thesis using assms CompleteUnbonding by (auto simp: finish_row_def matured_def)
qed

text \<open>The unbonding period is enforced: the record an unstake creates stays open,
  with its amount, through every later run of ledger and staking operations in which no
  completion is executed at or after the end of the period.\<close>

theorem unbonding_period_enforced:
  assumes "good_stake db" and "unstake secs a n (i, uuid) t0 db = Inr (i, db')"
    and "\<forall>c \<in> set cs. completion_before (t0 + secs * 1000000000) c"
  shows "map_of (unbondings (run_cmds stake_step cs db')) i =
     Some \<lparr>unb_account = a, unb_amount = n, unb_started_at = t0,
       unb_completed_at = t0 + secs * 1000000000, unb_completed = False\<rparr>"
proof -
  let ?r = "\<lparr>unb_account = a, unb_amount = n, unb_started_at = t0,
       unb_completed_at = t0 + secs * 1000000000, unb_completed = False\<rparr>"
  have "map_of (unbondings (run_cmds stake_step cs s)) i = Some ?r"
    if "good_stake s" and "map_of (unbondings s) i = Some ?r" for s
    using assms(3) that
  proof (induction cs arbitrary: s)
    case (Cons c cs)
    show ?case
    proof (cases "stake_step c s")
      case (Inl e)
      with Cons show ?thesis by (simp add: attempt_def)
    next
      case (Inr s')
      then have "good_stake s'" using Cons.prems(2) by (rule stake_step_good [rotated])
      moreover have "map_of (unbondings s') i = Some ?r"
        using Cons.prems by (intro stake_step_keeps_immature [OF Cons.prems(2) Inr]) auto
      ultimately show ?thesis using Cons Inr by (simp add: attempt_def)
    qed
  qed simp
  moreover have "map_of (unbondings db') i = Some ?r"
    using unstake_Inr [OF assms(2)] by (auto simp: has_key_def)
  ultimately show ?thesis
    using unstake_good [OF assms(1,2)] by blast
qed

theorem unbonding_period_enforced_witness:
  "\<exists>db'. unstake 7 ''a'' 3 (''r1'', ''op3'') 2
       (run_cmds stake_step [LedgerCmd (CreateAccount ''a'' 5 None ''op1'' 0), StakeCmd ''a'' 4 ''op2'' 1]
          init_stake_ledger) = Inr (''r1'', db') \<and>
     map_option unb_completed (map_of (unbondings
       (run_cmds stake_step [CompleteUnbonding ''a'' demo_uuid 7000000001] db')) ''r1'') = Some False"
proof -
  let ?db = "run_cmds stake_step [LedgerCmd (CreateAccount ''a'' 5 None ''op1'' 0),
      StakeCmd ''a'' 4 ''op2'' 1] init_stake_ledger"
  let ?db' = "run_cmds stake_step [Unstake 7 ''a'' 3 (''r1'', ''op3'') 2] ?db"
  have good: "good_stake ?db" by (intro staking.run_inv good_init_stake)
  have un: "unstake 7 ''a'' 3 (''r1'', ''op3'') 2 ?db = Inr (''r1'', ?db')" by code_simp
  have c: "\<forall>c \<in> set [CompleteUnbonding ''a'' demo_uuid 7000000001]. completion_before (2 + 7 * 1000000000) c"
    by simp
  from unbonding_period_enforced [OF good un c] un show ?thesis
    by (intro exI [of _ ?db']) (simp del: run_cmds.simps)
qed

section \<open>Locked credits are shared\<close>

text \<open>An escrow is backed by the locked column, which staking uses as well.  As long as nothing is
  unstaked the column covers the open escrows; an unstake takes from it whatever the column holds.\<close>

fun is_unstake :: "stake_cmd \<Rightarrow> bool" where
  "is_unstake (Unstake secs a n ids now) = True"
| "is_unstake c = False"

definition covered :: "'a stake_ledger_scheme \<Rightarrow> bool" where
  "covered db \<longleftrightarrow> (\<forall>a. 0 \<le> surplus_locked a db)"

lemma stake_step_covered:
  assumes "good_stake db" and "covered db" and "stake_step c db = Inr db'" and "\<not> is_unstake c"
  shows "covered db'"
proof (cases c)
  case (LedgerCmd c')
  with assms(3) have "ledger_step c' db = Inr db'" by simp
  from ledger_step_surplus [OF _ this] assms(1,2) show ?thesis
    by (simp add: good_stake_def covered_def)
next
  case (StakeCmd a n i now)
  with assms(3) obtain u where st: "stake a n i now db = Inr (u, db')" by (auto simp: res_simps)
  have "has_key a (accounts db)"
    using stake_Inr [OF st] by (intro has_key_of_positive [of balance]) (auto simp: get_balance_cell)
  then have "surplus_locked b db \<le> surplus_locked b db'" for b
    using stake_Inr [OF st] by (auto simp: surplus_locked_def row_simps)
  then show ?thesis using assms(2) by (auto simp: covered_def intro: order_trans)
next
  case (CompleteUnbonding a uuid now)
  with assms obtain n where cu: "complete_unbonding a uuid now db = Inr (n, db')"
    by (auto simp: res_simps)
  have "keyed (unbondings db)" using assms(1) by (simp add: good_stake_def unbonding_ok_def)
  from complete_unbonding_Inr [OF cu this] show ?thesis
    using assms(2) by (auto simp: covered_def surplus_locked_def row_simps)
qed (use assms(4) in simp)

lemma run_covered:
  "good_stake db \<Longrightarrow> covered db \<Longrightarrow> list_all (\<lambda>c. \<not> is_unstake c) cs \<Longrightarrow> covered (run_cmds stake_step cs db)"
proof (induction cs arbitrary: db)
  case (Cons c cs)
  show ?case
  proof (cases "stake_step c db")
    case (Inr db')
    with Cons.prems have "good_stake db'" "covered db'"
      by (auto intro: stake_step_good stake_step_covered)
    with Cons Inr show ?thesis by (simp add: attempt_def)
  qed (use Cons in \<open>simp add: attempt_def\<close>)
qed simp

text \<open>Claim C4. When an open escrow can be paid out: in every state that ledger and staking
  operations reach, in any order, releasing an escrow that exists and is not settled to a non-blank
  account succeeds exactly when the account's locked credits still cover the escrowed amount, and
  raises IntegrityError otherwise; a release that succeeds credits the recipient with exactly the
  escrowed amount, takes it from the locked credits of the escrow's account and leaves the total
  alone.  As long as nothing was unstaked the locked credits always cover it.\<close>

theorem release_escrow_succeeds:
  assumes "db = run_cmds stake_step cs init_stake_ledger"
    and "map_of (escrows db) e = Some row" and "\<not> esc_released row"
    and "\<not> blank t" and "i \<notin> set (map op_id (operations db))"
  shows "(if esc_amount row \<le> get_staked_amount (esc_account row) db
     then \<exists>db'. release_escrow e t i now db = Inr ((), db') \<and>
       get_balance t db' = get_balance t db + esc_amount row \<and>
       get_staked_amount (esc_account row) db' = get_staked_amount (esc_account row) db - esc_amount row \<and>
       credits db' = credits db
     else release_escrow e t i now db = Inl IntegrityError) \<and>
     (list_all (\<lambda>c. \<not> is_unstake c) cs \<longrightarrow> esc_amount row \<le> get_staked_amount (esc_account row) db)"
proof -
  have good: "good_stake db"
    using staking.run_inv [OF good_init_stake, of cs] assms(1) by simp
  then have sound: "sound_ledger db" and wf: "escrow_rows_ok db" "\<not> lock_held db"
    by (auto simp: good_stake_def sound_ledger_def ledger_wf_def)
  note iff = release_escrow_Inr_iff [OF sound assms(2-5), of now]
  have "esc_amount row \<le> cell locked (esc_account row) (accounts db)" if "list_all (\<lambda>c. \<not> is_unstake c) cs"
  proof -
    have "covered init_stake_ledger"
      by (simp add: covered_def surplus_locked_def init_stake_ledger_def init_ledger_def cell_def outstanding_def
          ledger.defs stake_ledger.defs)
    with that have "covered db" using assms(1) by (simp add: run_covered good_init_stake)
    then have "outstanding (esc_account row) (escrows db) \<le> cell locked (esc_account row) (accounts db)"
      by (simp add: covered_def surplus_locked_def)
    with outstanding_member [OF wf(1) assms(2,3)] show ?thesis by linarith
  qed
  moreover have "release_escrow e t i now db = Inl IntegrityError"
    if "\<not> esc_amount row \<le> cell locked (esc_account row) (accounts db)"
  proof -
    obtain r where r: "map_of (accounts db) (esc_account row) = Some r"
      using wf(1) assms(2) by (auto simp: escrow_rows_ok_def has_key_def)
    then have "\<not> check_row (unlock (esc_amount row) r)" using that by (simp add: cell_def row_defs)
    then show ?thesis
      using assms(2-4) wf(2) r
      by (simp add: release_escrow_def validate_account_id_def with_lock_def update_account_def)
  qed
  ultimately show ?thesis
    using iff release_escrow_effect [OF sound assms(2)] by (auto simp: get_staked_amount_cell)
qed

theorem release_escrow_succeeds_witness:
  "(\<exists>db'. release_escrow ''job'' ''bob'' ''op4'' 2 (run_cmds stake_step
     [LedgerCmd (CreateAccount ''alice'' 100 None ''op1'' 0), StakeCmd ''alice'' 10 ''op2'' 1,
      LedgerCmd (Escrow ''alice'' 40 ''job'' ''op3'' 1)] init_stake_ledger) = Inr ((), db') \<and>
     get_balance ''bob'' db' = 40)"
proof -
  let ?cs = "[LedgerCmd (CreateAccount ''alice'' 100 None ''op1'' 0), StakeCmd ''alice'' 10 ''op2'' 1,
      LedgerCmd (Escrow ''alice'' 40 ''job'' ''op3'' 1)]"
  let ?db = "run_cmds stake_step ?cs init_stake_ledger"
  let ?row = "\<lparr>esc_account = ''alice'', esc_amount = 40, esc_created_at = 1, esc_released = False,
       esc_released_to = None\<rparr>"
  have row: "map_of (escrows ?db) ''job'' = Some ?row" by code_simp
  have ids: "''op4'' \<notin> set (map op_id (operations ?db))" by code_simp
  have bal: "get_balance ''bob'' ?db = 0" by code_simp
  have "\<not> blank ''bob''" by (simp add: blank_def py_space_def)
  from release_escrow_succeeds [OF refl row _ this ids, of 2] bal show ?thesis
    by (auto simp del: run_cmds.simps)
qed

text \<open>Staking breaks the ledger's escrow guarantee: an unstake is allowed whenever
  the locked column covers it, also when the locked credits back an open escrow; once less than
  the escrowed amount is left, releasing the escrow raises IntegrityError (the CHECK on the
  locked column) although the escrow exists and is not settled.\<close>

theorem unstake_can_strand_escrow:
  assumes "good_stake db" and "unstake secs a n ids now db = Inr (u, db')"
    and "map_of (escrows db) e = Some row" and "\<not> esc_released row" and "esc_account row = a"
    and "get_staked_amount a db < n + esc_amount row" and "\<not> blank t"
  shows "release_escrow e t i now' db' = Inl IntegrityError"
proof -
  obtain j uuid where ids: "ids = (j, uuid)" by (cases ids)
  note st = unstake_Inr [OF assms(2) [unfolded ids]]
  have a: "has_key a (accounts db)"
    using st by (intro has_key_of_positive [of locked]) auto
  then obtain r where r: "map_of (accounts db) a = Some r" by (auto simp: has_key_def)
  have neg: "\<not> check_row (unlock (esc_amount row) (move_to_unbonding n r))"
    using assms(6) r by (simp add: row_defs move_to_unbonding_def get_staked_amount_cell cell_def)
  have "map_of (escrows db') e = Some row" "\<not> lock_held db'"
    "map_of (accounts db') a = Some (move_to_unbonding n r)"
    using st assms(3) r by auto
  then show ?thesis
    using assms(4,5,7) neg
    by (simp add: release_escrow_def validate_account_id_def with_lock_def update_account_def)
qed

theorem unstake_can_strand_escrow_witness:
  "release_escrow ''job'' ''bob'' ''op4'' 3
     (run_cmds stake_step [LedgerCmd (CreateAccount ''alice'' 100 None ''op1'' 0),
        LedgerCmd (Escrow ''alice'' 40 ''job'' ''op2'' 1), Unstake 0 ''alice'' 40 (''r1'', ''op3'') 2]
        init_stake_ledger) = Inl IntegrityError"
proof -
  let ?db = "run_cmds stake_step [LedgerCmd (CreateAccount ''alice'' 100 None ''op1'' 0),
        LedgerCmd (Escrow ''alice'' 40 ''job'' ''op2'' 1)] init_stake_ledger"
  let ?db' = "run_cmds stake_step [Unstake 0 ''alice'' 40 (''r1'', ''op3'') 2] ?db"
  let ?row = "\<lparr>esc_account = ''alice'', esc_amount = 40, esc_created_at = 1, esc_released = False,
       esc_released_to = None\<rparr>"
  have good: "good_stake ?db" by (intro staking.run_inv good_init_stake)
  have un: "unstake 0 ''alice'' 40 (''r1'', ''op3'') 2 ?db = Inr (''r1'', ?db')" by code_simp
  have row: "map_of (escrows ?db) ''job'' = Some ?row" by code_simp
  have st: "get_staked_amount ''alice'' ?db < 40 + esc_amount ?row" by code_simp
  have "\<not> blank ''bob''" by (simp add: blank_def py_space_def)
  from unstake_can_strand_escrow [OF good un row _ _ st this] show ?thesis by simp
qed

section \<open>The audit trail of a staking ledger cannot be read\<close>

lemma parse_ops_unknown:
  "op \<in> set ops \<Longrightarrow> op_type_of (op_kind op) = None \<Longrightarrow> \<exists>e. parse_ops ops = Inl e"
  by (induction ops) (auto split: option.splits simp: res_bind_eq_Inl)

text \<open>\<open>get_audit_trail\<close> fails on a ledger with staking: after any successful stake,
  asking for the whole trail, or for the staking account's, raises ValueError, because the kind
  STAKE the stake manager writes is no member of the enum OpType the reader parses with.\<close>

theorem audit_trail_unreadable_after_stake:
  assumes "stake a n i now db = Inr (u, db')"
    and "limit < 0 \<or> int (length (operations db')) \<le> limit" and "acct = None \<or> acct = Some a"
  shows "\<exists>e. get_audit_trail acct limit db' = Inl e"
proof -
  let ?op = "raw_op i a ''STAKE'' n now [(''action'', JStr ''stake'')]"
  define rows where "rows = (case acct of None \<Rightarrow> operations db'
      | Some a \<Rightarrow> if a = [] then operations db' else filter (\<lambda>op. op_account op = a) (operations db'))"
  have "?op \<in> set (operations db')"
    using stake_Inr [OF assms(1)] by simp
  then have "?op \<in> set rows"
    using assms(3) by (auto simp: rows_def raw_op_def)
  moreover have "length rows \<le> length (operations db')"
    by (auto simp: rows_def split: option.splits)
  ultimately have "?op \<in> set (sql_limit limit (sort_key (\<lambda>op. - op_timestamp op) rows))"
    using assms(2) by (auto simp: sql_limit_def)
  moreover have "op_type_of (op_kind ?op) = None"
    by (simp add: raw_op_def op_type_of_def)
  ultimately have "\<exists>e. parse_ops (sql_limit limit (sort_key (\<lambda>op. - op_timestamp op) rows)) = Inl e"
    by (rule parse_ops_unknown)
  then show ?thesis by (simp add: get_audit_trail_def rows_def)
qed

theorem audit_trail_unreadable_after_stake_witness:
  "\<exists>e. get_audit_trail None 100 (run_cmds stake_step
     [LedgerCmd (CreateAccount ''a'' 5 None ''op1'' 0), StakeCmd ''a'' 4 ''op2'' 1] init_stake_ledger) = Inl e"
proof -
  let ?db = "run_cmds stake_step [LedgerCmd (CreateAccount ''a'' 5 None ''op1'' 0)] init_stake_ledger"
  let ?db' = "run_cmds stake_step [StakeCmd ''a'' 4 ''op2'' 1] ?db"
  have st: "stake ''a'' 4 ''op2'' 1 ?db = Inr ((), ?db')" by code_simp
  have "int (length (operations ?db')) \<le> 100" by code_simp
  then have "100 < (0::int) \<or> int (length (operations ?db')) \<le> 100" by blast
  from audit_trail_unreadable_after_stake [OF st this, of None] show ?thesis by simp
qed

end
