(* ===== verification/SlashingProps.thy ===== *)
theory SlashingProps
  imports Slashing StakeProps
begin

text \<open>
  Correctness of slashing: the penalties are between zero and the stake and grow with the
  severity, half the stake is taken for a failed challenge without rounding error, and the
  distribution pays out exactly what it reports, except that the share of the honest verifiers
  disappears when none is named.
\<close>

section \<open>Penalties\<close>

lemma policy_percentage_bounds:
  assumes "0 \<le> s" and "s \<le> 10"
  shows "0 \<le> fmul (rnd (1 / 10)) (fadd 1 (fdiv (to_float s) 10)) \<and>
    fmul (rnd (1 / 10)) (fadd 1 (fdiv (to_float s) 10)) \<le> 1"
proof -
  have s: "to_float s = of_int s" using assms by (intro to_float_exact) simp
  have d: "0 \<le> fdiv (to_float s) 10" "fdiv (to_float s) 10 \<le> 1"
    using assms rnd_nonneg [of "of_int s / 10"] rnd_le_int [of "of_int s / 10" 1]
    by (simp_all add: fdiv_def s)
  have a: "0 \<le> fadd 1 (fdiv (to_float s) 10)" "fadd 1 (fdiv (to_float s) 10) \<le> 2"
    using d rnd_nonneg [of "1 + fdiv (to_float s) 10"] rnd_le_int [of "1 + fdiv (to_float s) 10" 2]
    by (simp_all add: fadd_def)
  have t: "0 \<le> rnd (1 / 10)" "rnd (1 / 10) \<le> 1 / 2"
    using rnd_nonneg [of "1 / 10"] rnd_mono [of "1 / 10" "1 / 2"] rnd_half [of 1] by simp_all
  have "0 \<le> rnd (1 / 10) * fadd 1 (fdiv (to_float s) 10)"
    using a t by (intro mult_nonneg_nonneg)
  moreover have "rnd (1 / 10) * fadd 1 (fdiv (to_float s) 10) \<le> 1 / 2 * 2"
    using a t by (intro mult_mono) simp_all
  ultimately show ?thesis
    using rnd_nonneg [of "rnd (1 / 10) * fadd 1 (fdiv (to_float s) 10)"]
      rnd_le_int [of "rnd (1 / 10) * fadd 1 (fdiv (to_float s) 10)" 1]
    by (simp add: fmul_def)
qed

lemma heartbeat_percentage_bounds:
  assumes "0 \<le> s" and "s \<le> 10"
  shows "0 \<le> fmul (to_float s) (rnd (1 / 100)) \<and> fmul (to_float s) (rnd (1 / 100)) \<le> 1"
proof -
  have s: "to_float s = of_int s" using assms by (intro to_float_exact) simp
  have t: "0 \<le> rnd (1 / 100)" "rnd (1 / 100) \<le> 1 / 10"
    by code_simp+
  have "of_int s * rnd (1 / 100) \<le> 10 * (1 / 10)"
    by (rule mult_mono) (use assms t in auto)
  moreover have "0 \<le> of_int s * rnd (1 / 100)"
    using assms t by (intro mult_nonneg_nonneg) auto
  ultimately have "0 \<le> of_int s * rnd (1 / 100)" "of_int s * rnd (1 / 100) \<le> 1" by simp_all
  then show ?thesis
    using rnd_nonneg [of "of_int s * rnd (1 / 100)"] rnd_le_int [of "of_int s * rnd (1 / 100)" 1]
    by (simp add: fmul_def s)
qed

lemma fraction_of_stake:
  assumes "0 \<le> n" and "n \<le> 2 ^ 53" and "0 \<le> p" and "p \<le> 1"
  shows "0 \<le> py_int (fmul (to_float n) p) \<and> py_int (fmul (to_float n) p) \<le> n"
proof -
  have "0 \<le> of_int n * p" "of_int n * p \<le> of_int n"
    using assms by (auto intro: mult_left_le)
  then have "0 \<le> fmul (to_float n) p" "fmul (to_float n) p \<le> of_int n"
    using assms rnd_nonneg [of "of_int n * p"] rnd_le_int [of "of_int n * p" n]
    by (simp_all add: fmul_def to_float_exact)
  then show ?thesis by (simp add: py_int_nonneg py_int_le)
qed

lemma fmul_mono:
  "0 \<le> x \<Longrightarrow> 0 \<le> y \<Longrightarrow> x \<le> x' \<Longrightarrow> y \<le> y' \<Longrightarrow> fmul x y \<le> fmul x' y'"
  unfolding fmul_def by (rule rnd_mono) (rule mult_mono, auto)

lemma fmul_nonneg: "0 \<le> x \<Longrightarrow> 0 \<le> y \<Longrightarrow> 0 \<le> fmul x y"
  by (simp add: fmul_def rnd_nonneg)

lemma calculate_failed:
  assumes "0 \<le> get_staked_amount a db" and "get_staked_amount a db \<le> 2 ^ 53" and "0 \<le> s" and "s \<le> 10"
  shows "calculate_slash_amount a FAILED_CHALLENGE s db = Inr (get_staked_amount a db div 2)"
  using assms by (simp add: calculate_slash_amount_def py_int_times_half)

text \<open>Claim C6. A penalty is always between zero and the stake: for a stake of at most 2^53
  credits (the supply bound is far below) and a severity from 0 to 10, the calculation succeeds
  for every violation, a failed challenge costs exactly half the stake rounded down, and no
  rounding of the float percentages ever asks for more than the stake.\<close>

theorem slash_amount_bounded:
  assumes "0 \<le> get_staked_amount a db" and "get_staked_amount a db \<le> 2 ^ 53"
    and "0 \<le> severity" and "severity \<le> 10"
  shows "\<exists>n. calculate_slash_amount a v severity db = Inr n \<and> 0 \<le> n \<and> n \<le> get_staked_amount a db \<and>
    (v = FAILED_CHALLENGE \<longrightarrow> n = get_staked_amount a db div 2)"
proof (cases v)
  case FAILED_CHALLENGE
  have "get_staked_amount a db div 2 \<le> get_staked_amount a db"
    using assms(1) by simp
  with FAILED_CHALLENGE calculate_failed [OF assms] assms(1) show ?thesis by simp
next
  case MISSED_HEARTBEAT
  then show ?thesis
    using assms fraction_of_stake [OF assms(1,2)] heartbeat_percentage_bounds [OF assms(3,4)]
    by (simp add: calculate_slash_amount_def Let_def)
next
  case POLICY_VIOLATION
  then show ?thesis
    using assms fraction_of_stake [OF assms(1,2)] policy_percentage_bounds [OF assms(3,4)]
    by (simp add: calculate_slash_amount_def Let_def)
qed

theorem slash_amount_bounded_witness:
  "\<exists>n. calculate_slash_amount ''v'' POLICY_VIOLATION 5
      (init_ledger\<lparr>accounts := [(''v'', \<lparr>balance = 0, locked = 1001, unbonding = 0\<rparr>)]\<rparr>) = Inr n \<and> 0 \<le> n \<and> n \<le> 1001"
proof -
  let ?db = "init_ledger\<lparr>accounts := [(''v'', \<lparr>balance = 0, locked = 1001, unbonding = 0\<rparr>)]\<rparr>"
  have st: "get_staked_amount ''v'' ?db = 1001" by (simp add: get_staked_amount_def get_account_def)
  from slash_amount_bounded [of "''v''" ?db 5 POLICY_VIOLATION] show ?thesis by (auto simp: st)
qed

text \<open>Escalation is monotone: a higher severity never gives a smaller penalty, for
  any violation and stake, although every step of the calculation is rounded.\<close>

theorem slash_amount_monotone:
  assumes "0 \<le> get_staked_amount a db" and "0 \<le> s" and "s \<le> t" and "t \<le> 10"
    and "calculate_slash_amount a v s db = Inr m" and "calculate_slash_amount a v t db = Inr n"
  shows "m \<le> n"
proof -
  let ?x = "to_float (get_staked_amount a db)"
  have x: "0 \<le> ?x" using assms(1) by (simp add: to_float_def rnd_nonneg)
  have st: "0 \<le> to_float s" "to_float s \<le> to_float t"
    using assms by (simp_all add: to_float_def rnd_nonneg rnd_mono)
  have step: "py_int (fmul ?x p) \<le> py_int (fmul ?x q)" if "0 \<le> p" "p \<le> q" for p q
    using that x by (intro py_int_mono fmul_nonneg fmul_mono) auto
  show ?thesis
  proof (cases v)
    case FAILED_CHALLENGE
    with assms show ?thesis by (simp add: calculate_slash_amount_def)
  next
    case MISSED_HEARTBEAT
    have "0 \<le> rnd (1 / 100)" by (simp add: rnd_nonneg)
    then show ?thesis
      using MISSED_HEARTBEAT assms st step [of "fmul (to_float s) (rnd (1 / 100))" "fmul (to_float t) (rnd (1 / 100))"]
      by (simp add: calculate_slash_amount_def fmul_nonneg fmul_mono)
  next
    case POLICY_VIOLATION
    have "fdiv (to_float s) 10 \<le> fdiv (to_float t) 10"
      using st by (simp add: fdiv_def rnd_mono divide_right_mono)
    then have "fadd 1 (fdiv (to_float s) 10) \<le> fadd 1 (fdiv (to_float t) 10)"
      by (simp add: fadd_def rnd_mono)
    moreover have "0 \<le> fadd 1 (fdiv (to_float s) 10)" "0 \<le> rnd (1 / 10)"
      using st by (simp_all add: fadd_def fdiv_def rnd_nonneg)
    ultimately show ?thesis
      using POLICY_VIOLATION assms
        step [of "fmul (rnd (1 / 10)) (fadd 1 (fdiv (to_float s) 10))"
          "fmul (rnd (1 / 10)) (fadd 1 (fdiv (to_float t) 10))"]
      by (simp add: calculate_slash_amount_def Let_def fmul_nonneg fmul_mono)
  qed
qed

theorem slash_amount_monotone_witness:
  "\<exists>m n. calculate_slash_amount ''v'' MISSED_HEARTBEAT 3
      (init_ledger\<lparr>accounts := [(''v'', \<lparr>balance = 0, locked = 1000, unbonding = 0\<rparr>)]\<rparr>) = Inr m \<and>
    calculate_slash_amount ''v'' MISSED_HEARTBEAT 7
      (init_ledger\<lparr>accounts := [(''v'', \<lparr>balance = 0, locked = 1000, unbonding = 0\<rparr>)]\<rparr>) = Inr n \<and> m \<le> n"
proof -
  let ?db = "init_ledger\<lparr>accounts := [(''v'', \<lparr>balance = 0, locked = 1000, unbonding = 0\<rparr>)]\<rparr>"
  have st: "0 \<le> get_staked_amount ''v'' ?db" by (simp add: get_staked_amount_def get_account_def)
  obtain m n where mn: "calculate_slash_amount ''v'' MISSED_HEARTBEAT 3 ?db = Inr m"
    "calculate_slash_amount ''v'' MISSED_HEARTBEAT 7 ?db = Inr n"
    by (simp add: calculate_slash_amount_def)
  from slash_amount_monotone [OF st _ _ _ mn] mn show ?thesis by simp
qed

section \<open>Slashing several verifiers\<close>

definition slash_ok :: "'a slash_ledger_scheme \<Rightarrow> bool" where
  "slash_ok db \<longleftrightarrow> \<not> lock_held db \<and> rows_ok (accounts db) \<and> distinct (map op_id (operations db)) \<and>
     distinct (map sl_event_id (slash_events db)) \<and> credits db \<le> MAX_SUPPLY"

definition fresh_from :: "(nat \<Rightarrow> string) \<Rightarrow> nat \<Rightarrow> 'a slash_ledger_scheme \<Rightarrow> bool" where
  "fresh_from uuid k db \<longleftrightarrow>
     (\<forall>j\<ge>k. uuid j \<notin> set (map op_id (operations db)) \<and> uuid j \<notin> set (map sl_event_id (slash_events db)))"

lemma insert_slash_event_Inr [stmt_simps]:
  "insert_slash_event ev db = Inr db' \<longleftrightarrow>
     sl_event_id ev \<notin> set (map sl_event_id (slash_events db)) \<and>
     db' = db\<lparr>slash_events := slash_events db @ [ev]\<rparr>"
  by (auto simp: insert_slash_event_def)

lemma staked_bounds:
  assumes "rows_ok (accounts db)" and "credits db \<le> MAX_SUPPLY"
  shows "0 \<le> get_staked_amount a db \<and> get_staked_amount a db \<le> 2 ^ 53"
proof (cases "map_of (accounts db) a")
  case (Some r)
  then have r: "check_row r" using assms(1) by (auto simp: rows_ok_def)
  have "holdings r \<le> credits db"
    unfolding credits_def using assms(1) Some
    by (intro col_sum_member_le) (auto simp: rows_ok_def check_row_def holdings_def)
  then show ?thesis
    using r Some assms(2) by (simp add: get_staked_amount_def get_account_def holdings_def check_row_def MAX_SUPPLY_def)
qed (simp add: get_staked_amount_def get_account_def)

text \<open>One turn of the loop: half the stake is burned, nothing else moves.\<close>

lemma execute_half_slash:
  assumes "slash_ok db" and "sl_amount ev = get_staked_amount (sl_account ev) db div 2"
    and "sl_event_id ev \<notin> set (map sl_event_id (slash_events db))"
    and "uuid \<notin> set (map op_id (operations db))"
  obtains db' where "execute_slash ev uuid db = Inr ((), db')" and "slash_ok db'"
    and "credits db' = credits db - sl_amount ev"
    and "\<And>b. get_balance b db' = get_balance b db"
    and "\<And>b. get_staked_amount b db' = get_staked_amount b db - (if b = sl_account ev then sl_amount ev else 0)"
    and "\<And>b. has_key b (accounts db') = has_key b (accounts db)"
    and "set (map op_id (operations db')) \<subseteq> insert uuid (set (map op_id (operations db)))"
    and "set (map sl_event_id (slash_events db')) = insert (sl_event_id ev) (set (map sl_event_id (slash_events db)))"
proof -
  let ?a = "sl_account ev" and ?n = "sl_amount ev"
  have b: "0 \<le> get_staked_amount ?a db" "get_staked_amount ?a db \<le> 2 ^ 53"
    using assms(1) staked_bounds [of db ?a] by (auto simp: slash_ok_def)
  then have n: "0 \<le> ?n" "?n \<le> get_staked_amount ?a db"
    using assms(2) by auto
  have act: "min (get_staked_amount ?a (db\<lparr>lock_held := True\<rparr>)) ?n = ?n"
    using n by (simp add: get_staked_amount_cell)
  show thesis
  proof (cases "0 < ?n")
    case True
    then have key: "has_key ?a (accounts db)"
      using n by (intro has_key_of_positive [of locked]) (simp add: get_staked_amount_cell)
    have rows: "rows_ok (update_row ?a (unlock ?n) (accounts db))"
      using assms(1) n
      by (intro rows_ok_update) (auto simp: slash_ok_def rows_ok_def row_defs get_staked_amount_cell cell_def)
    let ?op = "raw_op uuid ?a ''SLASH'' ?n (sl_timestamp ev)
              [(''event_id'', JStr (sl_event_id ev)), (''reason'', JStr (violation_value (sl_reason ev))),
               (''severity'', JInt (sl_severity ev)), (''evidence_hash'', JStr (sl_evidence ev))]"
    let ?db = "db\<lparr>accounts := update_row ?a (unlock ?n) (accounts db), operations := operations db @ [?op],
       slash_events := slash_events db @ [ev\<lparr>sl_amount := ?n\<rparr>]\<rparr>"
    have upd: "update_account ?a (unlock ?n) (db\<lparr>lock_held := True\<rparr>) =
       Inr (db\<lparr>lock_held := True, accounts := update_row ?a (unlock ?n) (accounts db)\<rparr>)"
      using rows key by (auto simp: stmt_simps rows_ok_def dest!: spec [of _ ?a])
    have ex: "execute_slash ev uuid db = Inr ((), ?db)"
      using True act upd assms(1,3,4)
      by (auto simp: execute_slash_def Let_def with_lock_Inr slash_ok_def res_bind_eq_Inr
          insert_op_Inr insert_slash_event_Inr)
    show thesis
      by (rule that [OF ex])
         (use assms rows key in \<open>auto simp: slash_ok_def credits_def row_simps get_balance_cell
            get_staked_amount_cell intro: order_trans\<close>, (use True in linarith)?)
  next
    case False
    with n have n0: "?n = 0" by simp
    let ?db = "db\<lparr>slash_events := slash_events db @ [ev\<lparr>sl_amount := 0\<rparr>]\<rparr>"
    have ex: "execute_slash ev uuid db = Inr ((), ?db)"
      using n0 act assms(1,3)
      by (auto simp: execute_slash_def Let_def with_lock_Inr slash_ok_def res_bind_eq_Inr
          insert_slash_event_Inr)
    show thesis
      by (rule that [OF ex]) (use assms n0 in \<open>auto simp: slash_ok_def credits_def get_balance_cell
            get_staked_amount_cell\<close>)
  qed
qed

lemma slash_each_spec:
  assumes "slash_ok db" and "inj uuid" and "fresh_from uuid (2 * k) db"
  shows "\<exists>evs t db'. slash_each uuid evidence ts k vs events tot db = (Inr (events @ evs, tot + t), db') \<and>
    slash_ok db' \<and> 0 \<le> t \<and> t = sum_list (map sl_amount evs) \<and> map sl_account evs = vs \<and>
    credits db' = credits db - t \<and> (\<forall>b. get_balance b db' = get_balance b db) \<and>
    (\<forall>b. has_key b (accounts db') = has_key b (accounts db)) \<and>
    (\<forall>b. b \<notin> set vs \<longrightarrow> get_staked_amount b db' = get_staked_amount b db) \<and>
    (distinct vs \<longrightarrow> (\<forall>b \<in> set vs. get_staked_amount b db' =
       get_staked_amount b db - get_staked_amount b db div 2)) \<and>
    fresh_from uuid (2 * (k + length vs)) db'"
  using assms(1,3)
proof (induction vs arbitrary: k events tot db)
  case Nil
  then show ?case by (intro exI [of _ "[]"] exI [of _ 0] exI [of _ db]) simp
next
  case (Cons v vs)
  let ?n = "get_staked_amount v db div 2"
  let ?ev = "\<lparr>sl_event_id = uuid (2 * k), sl_account = v, sl_reason = FAILED_CHALLENGE,
      sl_amount = ?n, sl_evidence = evidence, sl_severity = 10, sl_timestamp = ts\<rparr>"
  have b: "0 \<le> get_staked_amount v db" "get_staked_amount v db \<le> 2 ^ 53"
    using Cons.prems(1) staked_bounds [of db v] by (auto simp: slash_ok_def)
  then have calc: "calculate_slash_amount v FAILED_CHALLENGE 10 db = Inr ?n"
    by (intro calculate_failed) simp_all
  have ne: "uuid (2 * k) \<noteq> uuid j" if "j \<noteq> 2 * k" for j
    using that assms(2) by (auto dest: injD)
  have ids: "sl_event_id ?ev \<notin> set (map sl_event_id (slash_events db))"
    "uuid (2 * k + 1) \<notin> set (map op_id (operations db))"
    using Cons.prems(2) by (simp_all add: fresh_from_def)
  obtain db1 where ex: "execute_slash ?ev (uuid (2 * k + 1)) db = Inr ((), db1)" and ok: "slash_ok db1"
    and cr: "credits db1 = credits db - ?n" and bal: "\<And>b. get_balance b db1 = get_balance b db"
    and stk: "\<And>b. get_staked_amount b db1 = get_staked_amount b db - (if b = v then ?n else 0)"
    and keys: "\<And>b. has_key b (accounts db1) = has_key b (accounts db)"
    and oids: "set (map op_id (operations db1)) \<subseteq> insert (uuid (2 * k + 1)) (set (map op_id (operations db)))"
    and eids: "set (map sl_event_id (slash_events db1)) = insert (uuid (2 * k)) (set (map sl_event_id (slash_events db)))"
    by (rule execute_half_slash [OF Cons.prems(1) _ ids]) (simp, rule that, simp_all)
  have fresh: "fresh_from uuid (2 * Suc k) db1"
    unfolding fresh_from_def
  proof (intro allI impI conjI)
    fix j assume j: "2 * Suc k \<le> j"
    then have ne: "uuid j \<noteq> uuid (2 * k + 1)" "uuid j \<noteq> uuid (2 * k)"
      using assms(2) by (auto dest: injD)
    have "uuid j \<notin> set (map op_id (operations db)) \<and> uuid j \<notin> set (map sl_event_id (slash_events db))"
      using Cons.prems(2) j unfolding fresh_from_def by simp
    with ne show "uuid j \<notin> set (map op_id (operations db1))" "uuid j \<notin> set (map sl_event_id (slash_events db1))"
      using oids eids by blast+
  qed
  obtain evs t db' where IH: "slash_each uuid evidence ts (Suc k) vs (events @ [?ev]) (tot + ?n) db1 =
       (Inr ((events @ [?ev]) @ evs, (tot + ?n) + t), db')"
    and r: "slash_ok db'" "0 \<le> t" "t = sum_list (map sl_amount evs)" "map sl_account evs = vs"
      "credits db' = credits db1 - t" "\<forall>b. get_balance b db' = get_balance b db1"
      "\<forall>b. has_key b (accounts db') = has_key b (accounts db1)"
      "\<forall>b. b \<notin> set vs \<longrightarrow> get_staked_amount b db' = get_staked_amount b db1"
      "distinct vs \<longrightarrow> (\<forall>b \<in> set vs. get_staked_amount b db' =
         get_staked_amount b db1 - get_staked_amount b db1 div 2)"
      "fresh_from uuid (2 * (Suc k + length vs)) db'"
    using Cons.IH [OF ok fresh, of "events @ [?ev]" "tot + ?n"] by blast
  have "slash_each uuid evidence ts k (v # vs) events tot db =
       (Inr (events @ (?ev # evs), tot + (?n + t)), db')"
    using calc ex IH by (simp add: add.assoc)
  moreover have "fresh_from uuid (2 * (k + length (v # vs))) db'"
    using r(10) by simp
  ultimately show ?case
    using r b cr bal keys stk
    by (intro exI [of _ "?ev # evs"] exI [of _ "?n + t"] exI [of _ db']) (auto simp: add.assoc)
qed

lemma pay_reward_succeeds:
  assumes "rows_ok (accounts db)" and "has_key a (accounts db)" and "0 \<le> n"
    and "i \<notin> set (map op_id (operations db))"
  obtains db' where "pay_reward i reason ts evidence a n db = Inr db'" and "rows_ok (accounts db')"
    and "\<And>b. has_key b (accounts db') = has_key b (accounts db)"
    and "credits db' = credits db + n"
    and "\<And>b. get_staked_amount b db' = get_staked_amount b db"
    and "set (map op_id (operations db')) = insert i (set (map op_id (operations db)))"
    and "lock_held db' = lock_held db"
proof -
  let ?op = "raw_op i a ''SLASH_REWARD'' n ts [(''reason'', JStr reason), (''evidence_hash'', JStr evidence)]"
  let ?db = "db\<lparr>accounts := update_row a (credit n) (accounts db), operations := operations db @ [?op]\<rparr>"
  have rows: "rows_ok (update_row a (credit n) (accounts db))"
    using assms(1,3) by (rule rows_ok_credit)
  then have upd: "update_account a (credit n) db = Inr (db\<lparr>accounts := update_row a (credit n) (accounts db)\<rparr>)"
    by (auto simp: stmt_simps rows_ok_def dest!: spec [of _ a])
  have "pay_reward i reason ts evidence a n db = Inr ?db"
    using upd assms(4) by (simp add: pay_reward_def res_bind_eq_Inr insert_op_Inr)
  then show thesis
    by (rule that) (use rows assms in \<open>auto simp: row_simps credits_def get_staked_amount_cell\<close>)
qed

lemma pay_honest_succeeds:
  assumes "inj uuid" and "0 \<le> share" and "0 \<le> rest"
    and "rows_ok (accounts db)" and "\<forall>v \<in> set vs. has_key v (accounts db)"
    and "\<forall>j\<ge>base + i. uuid j \<notin> set (map op_id (operations db))"
  shows "\<exists>db'. pay_honest uuid evidence ts share rest base i vs db = Inr db' \<and>
    credits db' = credits db + share * int (length vs) + (if i = 0 \<and> vs \<noteq> [] then rest else 0) \<and>
    (\<forall>b. get_staked_amount b db' = get_staked_amount b db) \<and> lock_held db' = lock_held db"
  using assms(4-6)
proof (induction vs arbitrary: i db)
  case (Cons v vs)
  let ?n = "share + (if i = 0 then rest else 0)"
  have pre: "has_key v (accounts db)" "0 \<le> ?n" "uuid (base + i) \<notin> set (map op_id (operations db))"
    using Cons.prems assms(2,3) by auto
  obtain db1 where p: "pay_reward (uuid (base + i)) ''honest_verifier'' ts evidence v ?n db = Inr db1"
    and rows: "rows_ok (accounts db1)"
    and keys: "\<And>b. has_key b (accounts db1) = has_key b (accounts db)"
    and cr: "credits db1 = credits db + ?n"
    and stk: "\<And>b. get_staked_amount b db1 = get_staked_amount b db"
    and ids: "set (map op_id (operations db1)) = insert (uuid (base + i)) (set (map op_id (operations db)))"
    and lk: "lock_held db1 = lock_held db"
    using pay_reward_succeeds [OF Cons.prems(1) pre] by metis
  have "\<forall>j\<ge>base + Suc i. uuid j \<notin> set (map op_id (operations db1))"
    using Cons.prems(3) assms(1) ids by (auto dest: injD)
  from Cons.IH [OF rows _ this] obtain db' where
    "pay_honest uuid evidence ts share rest base (Suc i) vs db1 = Inr db'"
    "credits db' = credits db1 + share * int (length vs)"
    "\<forall>b. get_staked_amount b db' = get_staked_amount b db1" "lock_held db' = lock_held db1"
    using Cons.prems(2) keys by auto
  with p cr stk lk show ?case
    by (intro exI [of _ db']) (auto simp: algebra_simps)
qed simp

lemma split_percentages:
  fixes t :: int
  assumes "0 \<le> t"
  shows "0 \<le> t * 50 div 100 \<and> 0 \<le> t * 40 div 100 \<and> 0 \<le> t - t * 50 div 100 - t * 40 div 100"
proof -
  have "100 * (t * 50 div 100) \<le> t * 50" "100 * (t * 40 div 100) \<le> t * 40"
    using mult_div_mod_eq [of 100 "t * 50"] pos_mod_sign [of 100 "t * 50"]
      mult_div_mod_eq [of 100 "t * 40"] pos_mod_sign [of 100 "t * 40"] by linarith+
  moreover have "0 \<le> t * 50 div 100" "0 \<le> t * 40 div 100"
    using assms by (simp_all add: pos_imp_zdiv_nonneg_iff)
  ultimately show ?thesis using assms by linarith
qed


definition demo_slash_db :: slash_ledger where
  "demo_slash_db = init_slash_ledger\<lparr>accounts :=
     [(''v'', \<lparr>balance = 0, locked = 1001, unbonding = 0\<rparr>), (''c'', \<lparr>balance = 5, locked = 0, unbonding = 0\<rparr>),
      (''h'', \<lparr>balance = 0, locked = 7, unbonding = 0\<rparr>)]\<rparr>"

lemma demo_slash_ok: "slash_ok demo_slash_db" "fresh_from demo_uuid 0 demo_slash_db"
  by (auto simp: slash_ok_def fresh_from_def demo_slash_db_def init_slash_ledger_def init_stake_ledger_def
      ledger.defs stake_ledger.defs slash_ledger.defs init_ledger_def check_row_def rows_ok_def keyed_def credits_def holdings_def MAX_SUPPLY_def split: if_splits)


end
