(* ===== verification/Calls.thy ===== *)
theory Calls
  imports Ledger
begin

text \<open>
  Methods that take the lock of the ledger, a \<open>threading.Lock\<close> that is not re-entrant, and call others that take it
  again.  A call returns its result together with the state it leaves; a call that blocks never returns, and never
  releases the lock.
\<close>

type_synonym ('r, 's) call = "'s \<Rightarrow> (error + 'r) \<times> 's"

definition call_bind :: "('a, 's) call \<Rightarrow> ('a \<Rightarrow> ('b, 's) call) \<Rightarrow> ('b, 's) call" where
  "call_bind m f s = (case m s of (Inl e, s') \<Rightarrow> (Inl e, s') | (Inr x, s') \<Rightarrow> f x s')"

definition raise_error :: "error \<Rightarrow> ('a, 's) call" where
  "raise_error e s = (Inl e, s)"

definition return_value :: "'a \<Rightarrow> ('a, 's) call" where
  "return_value x s = (Inr x, s)"

text \<open>A call of a ledger method: an exception has rolled its transaction back.\<close>

definition call_ledger :: "('s \<Rightarrow> error + 'r \<times> 's) \<Rightarrow> ('r, 's) call" where
  "call_ledger op s = (case op s of Inl e \<Rightarrow> (Inl e, s) | Inr (x, s') \<Rightarrow> (Inr x, s'))"

text \<open>\<open>with self.lock:\<close> releases the lock on a return and on an exception; a call that blocks
  inside never gets there.\<close>

definition holding_lock :: "('r, 'a ledger_scheme) call \<Rightarrow> ('r, 'a ledger_scheme) call" where
  "holding_lock body db =
     (if lock_held db then (Inl Deadlock, db)
      else let (res, db') = body (db\<lparr>lock_held := True\<rparr>) in
        (res, if res = Inl Deadlock then db' else db'\<lparr>lock_held := False\<rparr>))"

end
