(* ===== verification/Relationships.thy ===== *)
theory Relationships
  imports Tables
begin

text \<open>
  Related-party detection of \<open>src/economics/relationships.py\<close>: the cache of registered parties
  and the three tests (organisation, autonomous system, identity proof).  An absent string and
  the empty string are both false in Python, \<open>truthy\<close> says so.
\<close>

record party_info =
  account_id :: string
  org_domain :: "string option"
  asn :: "int option"
  identity_hash :: "string option"

type_synonym party_cache = "(string, party_info) table"

definition truthy :: "string option \<Rightarrow> bool" where
  "truthy s \<longleftrightarrow> (case s of None \<Rightarrow> False | Some x \<Rightarrow> x \<noteq> [])"

definition register_party :: "party_info \<Rightarrow> party_cache \<Rightarrow> party_cache" where
  "register_party p cache = AList.update (account_id p) p cache"

definition get_party_info :: "string \<Rightarrow> party_cache \<Rightarrow> party_info option" where
  "get_party_info a cache = map_of cache a"

definition detect_same_org :: "string list \<Rightarrow> string option \<Rightarrow> party_cache \<Rightarrow> bool" where
  "detect_same_org verifiers challenger cache =
     (if \<not> truthy challenger then False
      else case get_party_info (the challenger) cache of
        None \<Rightarrow> False
      | Some ci \<Rightarrow>
          if \<not> truthy (org_domain ci) then False
          else list_ex (\<lambda>v. case get_party_info v cache of
                              None \<Rightarrow> False
                            | Some vi \<Rightarrow> truthy (org_domain vi) \<and> org_domain vi = org_domain ci) verifiers)"

definition detect_same_asn :: "string list \<Rightarrow> string option \<Rightarrow> party_cache \<Rightarrow> bool" where
  "detect_same_asn verifiers challenger cache =
     (if \<not> truthy challenger then False
      else case get_party_info (the challenger) cache of
        None \<Rightarrow> False
      | Some ci \<Rightarrow>
          if asn ci = None then False
          else list_ex (\<lambda>v. case get_party_info v cache of
                              None \<Rightarrow> False
                            | Some vi \<Rightarrow> asn vi \<noteq> None \<and> asn vi = asn ci) verifiers)"

definition detect_identity_links :: "string list \<Rightarrow> string option \<Rightarrow> party_cache \<Rightarrow> bool" where
  "detect_identity_links verifiers challenger cache =
     (if \<not> truthy challenger then False
      else case get_party_info (the challenger) cache of
        None \<Rightarrow> False
      | Some ci \<Rightarrow>
          if \<not> truthy (identity_hash ci) then False
          else list_ex (\<lambda>v. case get_party_info v cache of
                              None \<Rightarrow> False
                            | Some vi \<Rightarrow> truthy (identity_hash vi) \<and> identity_hash vi = identity_hash ci) verifiers)"

definition detect_any_relationship :: "string list \<Rightarrow> string option \<Rightarrow> party_cache \<Rightarrow> bool" where
  "detect_any_relationship verifiers challenger cache \<longleftrightarrow>
     detect_same_org verifiers challenger cache \<or> detect_same_asn verifiers challenger cache \<or>
     detect_identity_links verifiers challenger cache"

text \<open>The loop of \<open>get_related_parties\<close>: the first test that applies adds the verifier and goes
  on with the next one.\<close>

fun related_loop :: "party_info \<Rightarrow> party_cache \<Rightarrow> string list \<Rightarrow> string set \<Rightarrow> string set" where
  "related_loop ci cache [] related = related"
| "related_loop ci cache (v # vs) related =
     (case get_party_info v cache of
        None \<Rightarrow> related_loop ci cache vs related
      | Some vi \<Rightarrow>
          if truthy (org_domain ci) \<and> truthy (org_domain vi) \<and> org_domain ci = org_domain vi
          then related_loop ci cache vs (insert v related)
          else if asn ci \<noteq> None \<and> asn vi \<noteq> None \<and> asn ci = asn vi
          then related_loop ci cache vs (insert v related)
          else if truthy (identity_hash ci) \<and> truthy (identity_hash vi) \<and> identity_hash ci = identity_hash vi
          then related_loop ci cache vs (insert v related)
          else related_loop ci cache vs related)"

definition get_related_parties :: "string list \<Rightarrow> string option \<Rightarrow> party_cache \<Rightarrow> string set" where
  "get_related_parties verifiers challenger cache =
     (if \<not> truthy challenger then {}
      else case get_party_info (the challenger) cache of
        None \<Rightarrow> {}
      | Some ci \<Rightarrow> related_loop ci cache verifiers {})"

section \<open>The two views of a relationship agree\<close>

definition related :: "party_info \<Rightarrow> party_info \<Rightarrow> bool" where
  "related p q \<longleftrightarrow>
     (truthy (org_domain p) \<and> org_domain q = org_domain p) \<or>
     (asn p \<noteq> None \<and> asn q = asn p) \<or>
     (truthy (identity_hash p) \<and> identity_hash q = identity_hash p)"

lemma related_loop_eq:
  "related_loop ci cache vs acc =
     acc \<union> {v \<in> set vs. \<exists>vi. get_party_info v cache = Some vi \<and> related ci vi}"
proof (induction vs arbitrary: acc)
  case (Cons v vs)
  show ?case
  proof (cases "get_party_info v cache")
    case (Some vi)
    have *: "related_loop ci cache (v # vs) acc =
        related_loop ci cache vs (if related ci vi then insert v acc else acc)"
      using Some by (auto simp: related_def)
    show ?thesis unfolding * Cons.IH using Some by auto
  qed (use Cons in auto)
qed simp

lemma get_related_parties_eq:
  "get_related_parties vs (Some c) cache = {v \<in> set vs. c \<noteq> [] \<and>
     (\<exists>ci vi. get_party_info c cache = Some ci \<and> get_party_info v cache = Some vi \<and> related ci vi)}"
  by (auto simp: get_related_parties_def related_loop_eq truthy_def split: option.splits)

lemma detect_any_iff:
  "detect_any_relationship vs (Some c) cache \<longleftrightarrow>
     (\<exists>v \<in> set vs. c \<noteq> [] \<and> (\<exists>ci vi. get_party_info c cache = Some ci \<and> get_party_info v cache = Some vi \<and> related ci vi))"
proof (cases "get_party_info c cache")
  case None
  then show ?thesis
    by (simp add: detect_any_relationship_def detect_same_org_def detect_same_asn_def detect_identity_links_def)
next
  case (Some ci)
  then show ?thesis
    by (cases ci)
       (fastforce simp: detect_any_relationship_def detect_same_org_def detect_same_asn_def
          detect_identity_links_def list_ex_iff related_def truthy_def split: option.splits if_splits)
qed

text \<open>The yes/no detection and the list of offenders agree: \<open>detect_any_relationship\<close>
  answers yes exactly when \<open>get_related_parties\<close> returns a verifier, and what it returns are
  exactly the listed verifiers that share a domain, an autonomous system or an identity proof
  with the registered challenger.\<close>

theorem detect_any_agrees_with_related_parties:
  "(detect_any_relationship verifiers challenger cache \<longleftrightarrow> get_related_parties verifiers challenger cache \<noteq> {}) \<and>
   get_related_parties verifiers challenger cache =
     {v \<in> set verifiers. truthy challenger \<and>
       (\<exists>ci vi. get_party_info (the challenger) cache = Some ci \<and> get_party_info v cache = Some vi \<and> related ci vi)}"
proof (cases challenger)
  case None
  then show ?thesis
    by (simp add: detect_any_relationship_def detect_same_org_def detect_same_asn_def
        detect_identity_links_def get_related_parties_def truthy_def)
next
  case (Some c)
  show ?thesis unfolding Some get_related_parties_eq detect_any_iff by (auto simp: truthy_def)
qed

end
