(* ===== verification/Bounties.thy ===== *)
theory Bounties
  imports Calls LedgerProps PyFloat Relationships
begin

text \<open>
  The bounty manager (\<open>src/economics/bounties.py\<close>) and the payout distributor
  (\<open>src/economics/payout.py\<close>).  The manager shares the connection and the lock of the ledger:
  \<open>self.lock = ledger.lock\<close>, a \<open>threading.Lock\<close> that is not re-entrant.  A thread that asks for
  it while it holds it never returns and never releases it, so the methods here return the
  result together with the state that is left, and \<open>Deadlock\<close> leaves the lock held.
\<close>

section \<open>State\<close>

datatype task_class = SIMPLE | COMPLEX | CRITICAL

fun bounty_cap :: "task_class \<Rightarrow> int" where
  "bounty_cap SIMPLE = 10"
| "bounty_cap COMPLEX = 100"
| "bounty_cap CRITICAL = 1000"

datatype bounty_status = CREATED | ESCROWED | DISTRIBUTED | CANCELLED

record bounty_row =
  bty_task_id :: string
  bty_amount :: int
  bty_class :: task_class
  bty_creator_id :: string
  bty_escrow_id :: "string option"
  bty_created_at :: int
  bty_escrowed_at :: "int option"
  bty_distributed_at :: "int option"
  bty_status :: bounty_status

record bounty_ledger = ledger +
  bounties :: "(string, bounty_row) table"

definition init_bounty_ledger :: bounty_ledger where
  "init_bounty_ledger = ledger.extend init_ledger (bounty_ledger.fields [])"

definition update_bounty ::
  "string \<Rightarrow> (bounty_row \<Rightarrow> bounty_row) \<Rightarrow> (unit, 'a bounty_ledger_scheme) call" where
  "update_bounty i f db = (Inr (), db\<lparr>bounties := update_row i f (bounties db)\<rparr>)"

section \<open>Bounty operations\<close>

definition create_bounty ::
  "string \<Rightarrow> int \<Rightarrow> task_class \<Rightarrow> string \<Rightarrow> string \<Rightarrow> int \<Rightarrow> (string, 'a bounty_ledger_scheme) call" where
  "create_bounty task_id amount cls creator_id uuid now =
     (if amount > bounty_cap cls then raise_error (ValueError ''Bounty amount exceeds cap'')
      else if amount \<le> 0 then raise_error (ValueError ''Bounty amount must be positive'')
      else holding_lock (\<lambda>db.
        if has_key uuid (bounties db) then (Inl IntegrityError, db)
        else (Inr uuid, db\<lparr>bounties := add_row uuid
               \<lparr>bty_task_id = task_id, bty_amount = amount, bty_class = cls, bty_creator_id = creator_id,
                bty_escrow_id = None, bty_created_at = now, bty_escrowed_at = None,
                bty_distributed_at = None, bty_status = CREATED\<rparr> (bounties db)\<rparr>)))"

text \<open>\<open>CreditLedger.escrow\<close> has no return statement, so \<open>escrow_id\<close> is \<open>None\<close>.\<close>

definition escrow_bounty ::
  "string \<Rightarrow> string \<Rightarrow> int \<Rightarrow> int \<Rightarrow> (string option, 'a bounty_ledger_scheme) call" where
  "escrow_bounty bounty_id uuid now now2 =
     holding_lock (\<lambda>db.
       case map_of (bounties db) bounty_id of
         None \<Rightarrow> raise_error (ValueError ''Bounty not found'') db
       | Some row \<Rightarrow>
           if bty_status row \<noteq> CREATED then raise_error (ValueError ''Bounty already processed'') db
           else
             call_bind (call_ledger (escrow (bty_creator_id row) (bty_amount row) bounty_id uuid now)) (\<lambda>u.
             let escrow_id = None in
             call_bind (update_bounty bounty_id (\<lambda>r. r\<lparr>bty_escrow_id := escrow_id,
                 bty_escrowed_at := Some now2, bty_status := ESCROWED\<rparr>)) (\<lambda>_.
             return_value escrow_id)) db)"

text \<open>A settlement with \<open>escrow_id = None\<close> finds no row, because SQL's \<open>= NULL\<close> is never true.
  \<open>uuids\<close> and \<open>clock\<close> supply the identifiers and the readings of the clock of the ledger calls.\<close>

definition release_opt ::
  "string option \<Rightarrow> string \<Rightarrow> string \<Rightarrow> int \<Rightarrow> 'a ledger_scheme \<Rightarrow> error + unit \<times> 'a ledger_scheme" where
  "release_opt eid to_id uuid now db =
     (case eid of
        None \<Rightarrow> res_bind (validate_account_id to_id) (\<lambda>_. with_lock (\<lambda>db. Inl EscrowNotFoundError) db)
      | Some e \<Rightarrow> release_escrow e to_id uuid now db)"

definition cancel_opt ::
  "string option \<Rightarrow> string \<Rightarrow> int \<Rightarrow> 'a ledger_scheme \<Rightarrow> error + unit \<times> 'a ledger_scheme" where
  "cancel_opt eid uuid now db =
     (case eid of
        None \<Rightarrow> with_lock (\<lambda>db. Inl EscrowNotFoundError) db
      | Some e \<Rightarrow> cancel_escrow e uuid now db)"

fun transfer_all ::
  "string \<Rightarrow> (nat \<Rightarrow> string \<times> string \<times> string) \<Rightarrow> (nat \<Rightarrow> int) \<Rightarrow> nat \<Rightarrow> (string, int) table
     \<Rightarrow> (unit, 'a ledger_scheme) call" where
  "transfer_all from_id uuids clock k [] = return_value ()"
| "transfer_all from_id uuids clock k ((to_id, n) # rest) =
     call_bind (call_ledger (transfer from_id to_id n False (uuids k) (clock k))) (\<lambda>_.
       transfer_all from_id uuids clock (Suc k) rest)"

text \<open>\<open>get_account("burn")\<close> returns \<open>None\<close> for a missing account and does not raise, so the
  \<open>except\<close> branch that would create the account is never taken.\<close>

definition distribute_bounty ::
  "string \<Rightarrow> (string, int) table \<Rightarrow> string \<Rightarrow> (nat \<Rightarrow> string \<times> string \<times> string) \<Rightarrow> int \<Rightarrow> (nat \<Rightarrow> int) \<Rightarrow> int
     \<Rightarrow> (unit, 'a bounty_ledger_scheme) call" where
  "distribute_bounty bounty_id recipients uuid uuids now clock now2 =
     holding_lock (\<lambda>db.
       case map_of (bounties db) bounty_id of
         None \<Rightarrow> raise_error (ValueError ''Bounty not found'') db
       | Some row \<Rightarrow>
           if bty_status row \<noteq> ESCROWED then raise_error (ValueError ''Bounty not escrowed'') db
           else let total_distributed = sum_list (map snd recipients) in
           if total_distributed > bty_amount row
           then raise_error (ValueError ''Distribution total exceeds bounty'') db
           else
             call_bind
               (if recipients = [] then call_ledger (cancel_opt (bty_escrow_id row) uuid now)
                else let first_recipient = fst (hd recipients) in
                  call_bind (call_ledger (release_opt (bty_escrow_id row) first_recipient uuid now)) (\<lambda>_.
                  call_bind (transfer_all first_recipient uuids clock 0
                      (filter (\<lambda>(k, v). k \<noteq> first_recipient) recipients)) (\<lambda>_.
                  let burn_amount = bty_amount row - total_distributed in
                  if 0 < burn_amount
                  then call_bind (call_ledger (transfer first_recipient ''burn'' burn_amount False
                         (uuids (length recipients)) (clock (length recipients)))) (\<lambda>_. return_value ())
                  else return_value ()))) (\<lambda>_.
             update_bounty bounty_id (\<lambda>r. r\<lparr>bty_distributed_at := Some now2, bty_status := DISTRIBUTED\<rparr>)) db)"

definition cancel_bounty :: "string \<Rightarrow> string \<Rightarrow> int \<Rightarrow> (unit, 'a bounty_ledger_scheme) call" where
  "cancel_bounty bounty_id uuid now =
     holding_lock (\<lambda>db.
       case map_of (bounties db) bounty_id of
         None \<Rightarrow> raise_error (ValueError ''Bounty not found'') db
       | Some row \<Rightarrow>
           call_bind
             (if bty_status row = ESCROWED \<and> truthy (bty_escrow_id row)
              then call_ledger (cancel_opt (bty_escrow_id row) uuid now)
              else return_value ()) (\<lambda>_.
           update_bounty bounty_id (\<lambda>r. r\<lparr>bty_status := CANCELLED\<rparr>)) db)"

definition get_bounty :: "string \<Rightarrow> 'a bounty_ledger_scheme \<Rightarrow> bounty_row option" where
  "get_bounty bounty_id db = map_of (bounties db) bounty_id"

definition get_task_bounty :: "string \<Rightarrow> 'a bounty_ledger_scheme \<Rightarrow> (string \<times> bounty_row) option" where
  "get_task_bounty task_id db =
     (case sort_key (\<lambda>(i, r). - bty_created_at r) (filter (\<lambda>(i, r). bty_task_id r = task_id) (bounties db)) of
        [] \<Rightarrow> None
      | row # _ \<Rightarrow> Some row)"

section \<open>Payouts\<close>

datatype share_type = COMMITTEE | CHALLENGER | BURN

record payout_share =
  sh_recipient :: string
  sh_amount :: int
  sh_type :: share_type

record payout_distributor =
  relationship_detector :: party_cache
  invalidated_tasks :: "string set"

definition T_CHALLENGE_NS :: int where
  "T_CHALLENGE_NS = 5 * 60 * 1000000000"

text \<open>The loop that splits an amount: the first member gets the remainder.\<close>

fun committee_shares :: "int \<Rightarrow> int \<Rightarrow> nat \<Rightarrow> string list \<Rightarrow> payout_share list" where
  "committee_shares share remainder i [] = []"
| "committee_shares share remainder i (c # cs) =
     \<lparr>sh_recipient = c, sh_amount = share + (if i = 0 then remainder else 0), sh_type = COMMITTEE\<rparr>
     # committee_shares share remainder (Suc i) cs"

definition calculate_shares ::
  "int \<Rightarrow> string list \<Rightarrow> string option \<Rightarrow> error + payout_share list" where
  "calculate_shares bounty_amount committee challenger =
     (if committee = [] then Inl (ValueError ''Committee cannot be empty'')
      else if truthy challenger \<and> the challenger \<in> set committee
      then Inl (ValueError ''Challenger cannot be in committee'')
      else let n = int (length committee) in
        if \<not> truthy challenger
        then Inr (committee_shares (bounty_amount div n) (bounty_amount mod n) 0 committee)
        else
          let challenger_amount = py_int (fmul (to_float bounty_amount) (rnd (1 / 2)));
              verifier_total = py_int (fmul (to_float bounty_amount) (rnd (2 / 5)));
              burn_amount = bounty_amount - challenger_amount - verifier_total
          in Inr (\<lparr>sh_recipient = the challenger, sh_amount = challenger_amount, sh_type = CHALLENGER\<rparr>
               # committee_shares (verifier_total div n) (verifier_total mod n) 0 committee
               @ (if 0 < burn_amount
                  then [\<lparr>sh_recipient = ''burn'', sh_amount = burn_amount, sh_type = BURN\<rparr>] else [])))"

definition mark_invalidated :: "string \<Rightarrow> payout_distributor \<Rightarrow> payout_distributor" where
  "mark_invalidated task_id pd = pd\<lparr>invalidated_tasks := insert task_id (invalidated_tasks pd)\<rparr>"

definition is_invalidated :: "string \<Rightarrow> payout_distributor \<Rightarrow> bool" where
  "is_invalidated task_id pd \<longleftrightarrow> task_id \<in> invalidated_tasks pd"

definition can_payout :: "string \<Rightarrow> int \<Rightarrow> int \<Rightarrow> payout_distributor \<Rightarrow> bool \<times> string" where
  "can_payout task_id task_completion_time_ns current_time_ns pd =
     (if is_invalidated task_id pd then (False, ''Task has been invalidated'')
      else let elapsed = current_time_ns - task_completion_time_ns;
               required_wait = 2 * T_CHALLENGE_NS in
        if elapsed < required_wait then (False, ''Challenge period not elapsed'') else (True, ''OK''))"

definition validate_related_parties :: "string list \<Rightarrow> string option \<Rightarrow> bool" where
  "validate_related_parties committee challenger =
     (case challenger of None \<Rightarrow> True | Some c \<Rightarrow> c \<notin> set committee)"

definition validate_related_parties_advanced ::
  "string list \<Rightarrow> string option \<Rightarrow> payout_distributor \<Rightarrow> bool" where
  "validate_related_parties_advanced committee challenger pd =
     (case challenger of
        None \<Rightarrow> True
      | Some c \<Rightarrow>
          if c \<in> set committee then False
          else if detect_any_relationship committee challenger (relationship_detector pd) then False
          else True)"

definition collect_recipients :: "payout_share list \<Rightarrow> (string, int) table" where
  "collect_recipients shares =
     fold (\<lambda>s d. if sh_type s \<noteq> BURN
                 then AList.update (sh_recipient s)
                        ((case map_of d (sh_recipient s) of None \<Rightarrow> 0 | Some n \<Rightarrow> n) + sh_amount s) d
                 else d) shares []"

definition execute_payout ::
  "string \<Rightarrow> string \<Rightarrow> string list \<Rightarrow> int \<Rightarrow> string option \<Rightarrow> int \<Rightarrow> string
     \<Rightarrow> (nat \<Rightarrow> string \<times> string \<times> string) \<Rightarrow> int \<Rightarrow> (nat \<Rightarrow> int) \<Rightarrow> int \<Rightarrow> payout_distributor
     \<Rightarrow> (unit, 'a bounty_ledger_scheme) call" where
  "execute_payout bounty_id task_id committee completion challenger current uuid uuids now clock now2 pd db =
     (if \<not> fst (can_payout task_id completion current pd)
      then raise_error (ValueError ''Cannot execute payout'') db
      else if \<not> validate_related_parties_advanced committee challenger pd
      then raise_error (ValueError ''Related party conflict detected'') db
      else case get_bounty bounty_id db of
        None \<Rightarrow> raise_error (ValueError ''Bounty not found'') db
      | Some bounty \<Rightarrow>
          (case calculate_shares (bty_amount bounty) committee challenger of
             Inl e \<Rightarrow> raise_error e db
           | Inr shares \<Rightarrow>
               distribute_bounty bounty_id (collect_recipients shares) uuid uuids now clock now2 db))"

end
