(* ===== verification/BountyProps.thy ===== *)
theory BountyProps
  imports Bounties
begin

text \<open>
  What the bounty manager and the payout rules achieve.  The shares of a payout are exact.
  The escrow step never completes, because it asks for the lock it holds; hence no bounty
  is ever escrowed or paid, and the first attempt blocks the ledger for good.
\<close>

section \<open>Bounties as a machine\<close>

datatype bounty_cmd =
    OnLedger ledger_cmd
  | CreateBounty string int task_class string string int
  | EscrowBounty string string int int
  | DistributeBounty string "(string, int) table" string "nat \<Rightarrow> string \<times> string \<times> string" int "nat \<Rightarrow> int" int
  | CancelBounty string string int

fun bounty_step :: "bounty_cmd \<Rightarrow> 'a bounty_ledger_scheme \<Rightarrow> error + 'a bounty_ledger_scheme" where
  "bounty_step (OnLedger c) db = ledger_step c db"
| "bounty_step (CreateBounty t n c a i now) db = Inr (snd (create_bounty t n c a i now db))"
| "bounty_step (EscrowBounty b i now now2) db = Inr (snd (escrow_bounty b i now now2 db))"
| "bounty_step (DistributeBounty b rs i is now clock now2) db = Inr (snd (distribute_bounty b rs i is now clock now2 db))"
| "bounty_step (CancelBounty b i now) db = Inr (snd (cancel_bounty b i now db))"

definition unpaid_row :: "bounty_row \<Rightarrow> bool" where
  "unpaid_row r \<longleftrightarrow> bty_status r \<in> {CREATED, CANCELLED} \<and> bty_escrow_id r = None \<and>
     0 < bty_amount r \<and> bty_amount r \<le> bounty_cap (bty_class r)"

definition unpaid :: "'a bounty_ledger_scheme \<Rightarrow> bool" where
  "unpaid db \<longleftrightarrow> (\<forall>i r. map_of (bounties db) i = Some r \<longrightarrow> unpaid_row r)"

lemma unpaid_cancelled: "unpaid_row r \<Longrightarrow> unpaid_row (r\<lparr>bty_status := CANCELLED\<rparr>)"
  by (simp add: unpaid_row_def)

lemma unpaid_rowD:
  assumes "unpaid db" and "map_of (bounties db) i = Some r"
  shows "unpaid_row r" and "bty_status r \<noteq> ESCROWED"
proof -
  show "unpaid_row r" using assms by (auto simp: unpaid_def)
  then show "bty_status r \<noteq> ESCROWED" by (auto simp: unpaid_row_def)
qed

lemma ledger_step_needs_lock:
  assumes "ledger_step c db = Inr db'"
  shows "\<not> lock_held db"
  using assms
  by (cases c) (auto simp: res_simps split: prod.splits
      dest!: create_account_Inr transfer_Inr escrow_Inr elim!: release_escrow_Inr cancel_escrow_Inr)

lemma ledger_step_bounties:
  assumes "ledger_step c (db :: 'a bounty_ledger_scheme) = Inr db'"
  shows "bounties db' = bounties db"
proof (cases c)
  case (CreateAccount a b m i now)
  with assms show ?thesis by (auto simp: res_simps dest!: create_account_Inr)
next
  case (Transfer f t n allow ids now)
  with assms show ?thesis by (cases ids) (auto simp: res_simps dest!: transfer_Inr)
next
  case (Escrow a n e i now)
  with assms show ?thesis by (auto simp: res_simps dest!: escrow_Inr)
next
  case (ReleaseEscrow e t i now)
  with assms show ?thesis by (auto simp: res_simps elim!: release_escrow_Inr)
next
  case (CancelEscrow e i now)
  with assms show ?thesis by (auto simp: res_simps elim!: cancel_escrow_Inr)
qed

lemma escrow_when_locked:
  assumes "lock_held db"
  shows "\<exists>e. escrow a n i u now db = Inl e \<and> (0 < n \<longrightarrow> e = (if blank a then ValueError ''Account ID cannot be empty'' else Deadlock))"
  using assms
  by (cases "blank a"; cases "0 < n")
     (auto simp: escrow_def validate_account_id_def validate_amount_def)

text \<open>The escrow step under the lock.\<close>

lemma escrow_bounty_created:
  assumes "map_of (bounties db) b = Some r" and "bty_status r = CREATED" and "0 < bty_amount r"
    and "\<not> lock_held db"
  shows "escrow_bounty b u now now2 db =
    (if blank (bty_creator_id r) then (Inl (ValueError ''Account ID cannot be empty''), db)
     else (Inl Deadlock, db\<lparr>lock_held := True\<rparr>))"
proof -
  obtain e where e: "escrow (bty_creator_id r) (bty_amount r) b u now (db\<lparr>lock_held := True\<rparr>) = Inl e"
    "e = (if blank (bty_creator_id r) then ValueError ''Account ID cannot be empty'' else Deadlock)"
    using escrow_when_locked [of "db\<lparr>lock_held := True\<rparr>" "bty_creator_id r" "bty_amount r" b u now] assms(3)
    by auto
  have "db\<lparr>lock_held := False\<rparr> = db" using assms(4) by simp
  then show ?thesis
    using assms e by (simp add: escrow_bounty_def holding_lock_def call_bind_def call_ledger_def)
qed

lemma escrow_bounty_keeps_unpaid:
  assumes "unpaid db"
  shows "\<exists>l. snd (escrow_bounty b u now now2 db) = db\<lparr>lock_held := l\<rparr>"
proof (cases "lock_held db")
  case True
  then have "snd (escrow_bounty b u now now2 db) = db\<lparr>lock_held := True\<rparr>"
    by (simp add: escrow_bounty_def holding_lock_def)
  then show ?thesis by blast
next
  case unl: False
  have same: "db\<lparr>lock_held := False\<rparr> = db" using unl by simp
  show ?thesis
  proof (cases "\<exists>r. map_of (bounties db) b = Some r \<and> bty_status r = CREATED")
    case True
    then obtain r where r: "map_of (bounties db) b = Some r" "bty_status r = CREATED" by blast
    then have "0 < bty_amount r" using assms by (auto simp: unpaid_def unpaid_row_def)
    from escrow_bounty_created [OF r this unl] show ?thesis by (auto intro: exI [of _ False] simp: same)
  next
    case False
    then have "snd (escrow_bounty b u now now2 db) = db"
      using unl by (auto simp: escrow_bounty_def holding_lock_def raise_error_def split: option.splits)
    with same show ?thesis by metis
  qed
qed

lemma distribute_unpaid:
  assumes "unpaid db"
  shows "\<exists>e. distribute_bounty b rs u us now clock now2 db = (Inl e, db)"
proof (cases "lock_held db")
  case True
  then show ?thesis by (simp add: distribute_bounty_def holding_lock_def)
next
  case False
  then have same: "db\<lparr>lock_held := False\<rparr> = db" by simp
  show ?thesis
  proof (cases "map_of (bounties db) b")
    case None
    with False same show ?thesis by (simp add: distribute_bounty_def holding_lock_def raise_error_def)
  next
    case (Some r)
    with assms have "bty_status r \<noteq> ESCROWED" by (rule unpaid_rowD(2))
    with False same Some show ?thesis by (simp add: distribute_bounty_def holding_lock_def raise_error_def)
  qed
qed

lemma cancel_bounty_state:
  assumes "unpaid db"
  shows "snd (cancel_bounty b u now db) \<in> {db, db\<lparr>bounties :=
    update_row b (\<lambda>r. r\<lparr>bty_status := CANCELLED\<rparr>) (bounties db)\<rparr>}"
proof (cases "\<not> lock_held db \<and> has_key b (bounties db)")
  case True
  then obtain r where r: "map_of (bounties db) b = Some r" by (auto simp: has_key_def)
  with assms have "bty_status r \<noteq> ESCROWED" by (rule unpaid_rowD(2))
  with r True show ?thesis
    by (simp add: cancel_bounty_def holding_lock_def call_bind_def return_value_def update_bounty_def)
next
  case False
  then show ?thesis
    by (auto simp: cancel_bounty_def holding_lock_def raise_error_def has_key_def)
qed

lemma create_bounty_state:
  "bounties (snd (create_bounty t n cls a i now db)) = bounties db \<or>
   (\<exists>r. bounties (snd (create_bounty t n cls a i now db)) = add_row i r (bounties db) \<and> unpaid_row r)"
proof (cases "n > bounty_cap cls \<or> n \<le> 0 \<or> lock_held db \<or> has_key i (bounties db)")
  case True
  then show ?thesis by (auto simp: create_bounty_def holding_lock_def raise_error_def)
next
  case False
  let ?r = "\<lparr>bty_task_id = t, bty_amount = n, bty_class = cls, bty_creator_id = a,
     bty_escrow_id = None, bty_created_at = now, bty_escrowed_at = None,
     bty_distributed_at = None, bty_status = CREATED\<rparr>"
  have "unpaid_row ?r" using False by (simp add: unpaid_row_def)
  moreover have "bounties (snd (create_bounty t n cls a i now db)) = add_row i ?r (bounties db)"
    using False by (simp add: create_bounty_def holding_lock_def)
  ultimately show ?thesis by blast
qed

lemma unpaid_bounties:
  "unpaid db \<Longrightarrow> bounties db' = bounties db \<Longrightarrow> unpaid db'"
  by (simp add: unpaid_def)

lemma unpaid_step: "unpaid db \<Longrightarrow> bounty_step c db = Inr db' \<Longrightarrow> unpaid db'"
proof (cases c)
  case (OnLedger l)
  moreover assume a: "unpaid db" "bounty_step c db = Inr db'"
  ultimately have "bounties db' = bounties db" using ledger_step_bounties by simp
  with a(1) show ?thesis by (rule unpaid_bounties)
next
  case (CreateBounty t n cls a i now)
  moreover assume "unpaid db" "bounty_step c db = Inr db'"
  ultimately show ?thesis
    using create_bounty_state [of t n cls a i now db] by (auto simp: unpaid_def split: option.splits if_splits)
next
  case (EscrowBounty b i now now2)
  moreover assume a: "unpaid db" "bounty_step c db = Inr db'"
  ultimately obtain l where "db' = db\<lparr>lock_held := l\<rparr>" using escrow_bounty_keeps_unpaid [OF a(1)] by fastforce
  with a show ?thesis by (simp add: unpaid_def)
next
  case (DistributeBounty b rs i ids now clock now2)
  moreover assume a: "unpaid db" "bounty_step c db = Inr db'"
  moreover obtain e where "distribute_bounty b rs i ids now clock now2 db = (Inl e, db)"
    using distribute_unpaid [OF a(1)] by blast
  ultimately show ?thesis by simp
next
  case (CancelBounty b i now)
  moreover assume a: "unpaid db" "bounty_step c db = Inr db'"
  ultimately show ?thesis
    using cancel_bounty_state [OF a(1), of b i now] by (auto simp: unpaid_def unpaid_cancelled split: if_splits)
qed

interpretation bounty: guarded_machine bounty_step unpaid
  by unfold_locales (rule unpaid_step)

lemma unpaid_init: "unpaid init_bounty_ledger"
  by (simp add: unpaid_def init_bounty_ledger_def ledger.defs bounty_ledger.defs)

lemma execute_payout_unpaid:
  assumes "unpaid db"
  shows "\<exists>e. execute_payout b t cs done ch cur u us now clock now2 pd db = (Inl e, db)"
  using distribute_unpaid [OF assms]
  by (auto simp: execute_payout_def raise_error_def split: option.splits sum.splits)

text \<open>Whatever ledger and bounty operations a client issues on a fresh database, no bounty
  is ever escrowed or distributed, and every payout fails and changes nothing: the escrow step
  cannot complete under the lock it shares with the ledger.\<close>

theorem bounties_never_paid:
  "(\<forall>i r. map_of (bounties (run_cmds bounty_step cs init_bounty_ledger)) i = Some r \<longrightarrow>
     bty_status r \<in> {CREATED, CANCELLED}) \<and>
   (\<exists>e. execute_payout b t committee completion challenger current u us now clock now2 pd
        (run_cmds bounty_step cs init_bounty_ledger) =
      (Inl e, run_cmds bounty_step cs init_bounty_ledger))"
proof -
  have inv: "unpaid (run_cmds bounty_step cs init_bounty_ledger)"
    using unpaid_init by (rule bounty.run_inv)
  show ?thesis
    using execute_payout_unpaid [OF inv] inv by (auto simp: unpaid_def unpaid_row_def)
qed

theorem bounties_never_paid_witness:
  "\<exists>r. map_of (bounties (run_cmds bounty_step [CreateBounty ''t'' 5 SIMPLE ''a'' ''b1'' 1, EscrowBounty ''b1'' ''o'' 2 3]
      init_bounty_ledger)) ''b1'' = Some r \<and> bty_status r \<in> {CREATED, CANCELLED}"
proof -
  let ?db = "run_cmds bounty_step [CreateBounty ''t'' 5 SIMPLE ''a'' ''b1'' 1, EscrowBounty ''b1'' ''o'' 2 3] init_bounty_ledger"
  have "map_of (bounties ?db) ''b1'' \<noteq> None"
    by (simp add: attempt_def create_bounty_def escrow_bounty_def holding_lock_def init_bounty_ledger_def
        init_ledger_def ledger.defs bounty_ledger.defs has_key_def add_row_def call_bind_def call_ledger_def
        escrow_def validate_account_id_def validate_amount_def blank_def py_space_def)
  then obtain r where "map_of (bounties ?db) ''b1'' = Some r" by blast
  with bounties_never_paid [of "[CreateBounty ''t'' 5 SIMPLE ''a'' ''b1'' 1, EscrowBounty ''b1'' ''o'' 2 3]"]
  show ?thesis by blast
qed

lemma locked_step: "lock_held db \<Longrightarrow> attempt bounty_step c db = db"
proof (cases c)
  case (OnLedger l)
  moreover assume "lock_held db"
  ultimately show ?thesis
    using ledger_step_needs_lock [of l db] by (auto simp: attempt_def split: sum.splits)
qed (auto simp: attempt_def holding_lock_def raise_error_def create_bounty_def escrow_bounty_def
    distribute_bounty_def cancel_bounty_def)

lemma locked_run: "lock_held db \<Longrightarrow> run_cmds bounty_step cs db = db"
  by (induction cs) (auto simp: locked_step)

text \<open>The first attempt to escrow a bounty blocks for good: for a bounty in state CREATED
  with a positive amount and a creator whose id is not blank, \<open>escrow_bounty\<close> does not return, the
  lock stays held, and after it no sequence of ledger and bounty operations changes the
  database any more.\<close>

theorem escrow_bounty_blocks_ledger:
  assumes "map_of (bounties db) b = Some r" and "bty_status r = CREATED" and "0 < bty_amount r"
    and "\<not> blank (bty_creator_id r)" and "\<not> lock_held db"
  shows "fst (escrow_bounty b u now now2 db) = Inl Deadlock \<and>
    run_cmds bounty_step cs (snd (escrow_bounty b u now now2 db)) = db\<lparr>lock_held := True\<rparr>"
  using escrow_bounty_created [OF assms(1-3,5)] assms(4) locked_run [of "db\<lparr>lock_held := True\<rparr>" cs] by simp

definition demo_bounty_db :: bounty_ledger where
  "demo_bounty_db = snd (create_bounty ''t1'' 50 COMPLEX ''alice'' ''b1'' 1 init_bounty_ledger)"

theorem escrow_bounty_blocks_ledger_witness:
  "fst (escrow_bounty ''b1'' ''o1'' 2 3 demo_bounty_db) = Inl Deadlock \<and>
    run_cmds bounty_step [OnLedger (CreateAccount ''bob'' 5 None ''o2'' 4)]
      (snd (escrow_bounty ''b1'' ''o1'' 2 3 demo_bounty_db)) = demo_bounty_db\<lparr>lock_held := True\<rparr>"
proof -
  let ?r = "\<lparr>bty_task_id = ''t1'', bty_amount = 50, bty_class = COMPLEX, bty_creator_id = ''alice'',
     bty_escrow_id = None, bty_created_at = 1, bty_escrowed_at = None,
     bty_distributed_at = None, bty_status = CREATED\<rparr>"
  have "map_of (bounties demo_bounty_db) ''b1'' = Some ?r" "\<not> lock_held demo_bounty_db"
    by (simp_all add: demo_bounty_db_def create_bounty_def holding_lock_def init_bounty_ledger_def
        init_ledger_def ledger.defs bounty_ledger.defs has_key_def add_row_def)
  moreover have "\<not> blank ''alice''" by code_simp
  ultimately show ?thesis
    by (intro escrow_bounty_blocks_ledger [where r = ?r]) simp_all
qed

section \<open>Shares\<close>

lemma committee_shares_sum:
  "(\<Sum>s\<leftarrow>committee_shares q m i cs. sh_amount s) = q * int (length cs) + (if i = 0 \<and> cs \<noteq> [] then m else 0)"
  by (induction cs arbitrary: i) (auto simp: algebra_simps)

lemma committee_shares_recipients: "map sh_recipient (committee_shares q m i cs) = cs"
  by (induction cs arbitrary: i) auto

lemma committee_shares_type: "s \<in> set (committee_shares q m i cs) \<Longrightarrow> sh_type s = COMMITTEE"
  by (induction cs arbitrary: i) auto

lemma committee_shares_bounds:
  "s \<in> set (committee_shares q m i cs) \<Longrightarrow> 0 \<le> m \<Longrightarrow> q \<le> sh_amount s \<and> sh_amount s \<le> q + m"
  by (induction cs arbitrary: i) auto

lemma split_total:
  fixes t :: int
  assumes "cs \<noteq> []"
  shows "(\<Sum>s\<leftarrow>committee_shares (t div int (length cs)) (t mod int (length cs)) 0 cs. sh_amount s) = t"
  using assms by (simp add: committee_shares_sum)

lemma split_share_bounds:
  fixes t :: int
  assumes "cs \<noteq> []" and "0 \<le> t" and "s \<in> set (committee_shares (t div int (length cs)) (t mod int (length cs)) 0 cs)"
  shows "0 \<le> sh_amount s"
proof -
  have "0 \<le> t mod int (length cs)" "0 \<le> t div int (length cs)"
    using assms(1,2) by (simp_all add: pos_imp_zdiv_nonneg_iff)
  with committee_shares_bounds [OF assms(3)] show ?thesis by linarith
qed

text \<open>The shares of a payout are exact: for every bounty up to 2^49 credits (the caps stop at
  1000), a non-empty committee and a challenger outside it, the calculation succeeds, no share is
  negative, the shares add up to the bounty to the last credit, every committee member gets one
  share in order, and with a challenger half of the bounty goes to the challenger and two fifths
  to the committee, both rounded down: the float factors 0.50 and 0.40 lose nothing.\<close>

theorem shares_exact:
  assumes "0 \<le> amount" and "amount \<le> 2 ^ 49" and "committee \<noteq> []"
    and "case challenger of None \<Rightarrow> True | Some c \<Rightarrow> c \<notin> set committee"
  shows "\<exists>shares. calculate_shares amount committee challenger = Inr shares \<and>
    (\<Sum>s\<leftarrow>shares. sh_amount s) = amount \<and> (\<forall>s \<in> set shares. 0 \<le> sh_amount s) \<and>
    map sh_recipient (filter (\<lambda>s. sh_type s = COMMITTEE) shares) = committee \<and>
    (\<Sum>s\<leftarrow>filter (\<lambda>s. sh_type s = COMMITTEE) shares. sh_amount s) =
       (if truthy challenger then 2 * amount div 5 else amount) \<and>
    (truthy challenger \<longrightarrow> filter (\<lambda>s. sh_type s = CHALLENGER) shares =
       [\<lparr>sh_recipient = the challenger, sh_amount = amount div 2, sh_type = CHALLENGER\<rparr>])"
proof -
  let ?split = "\<lambda>t. committee_shares (t div int (length committee)) (t mod int (length committee)) 0 committee"
  have all: "filter (\<lambda>s. sh_type s = COMMITTEE) (?split t) = ?split t"
    "filter (\<lambda>s. sh_type s = CHALLENGER) (?split t) = []" for t
    by (auto simp: filter_id_conv filter_empty_conv dest: committee_shares_type)
  show ?thesis
  proof (cases "truthy challenger")
    case False
    then have "calculate_shares amount committee challenger = Inr (?split amount)"
      using assms(3) by (simp add: calculate_shares_def Let_def)
    with False show ?thesis
      using assms(1,3) all split_total [OF assms(3)] split_share_bounds [OF assms(3,1)] committee_shares_recipients
      by auto
  next
    case True
    then obtain c where c: "challenger = Some c" by (auto simp: truthy_def split: option.splits)
    let ?v = "2 * amount div 5" and ?c = "amount div 2"
    let ?burn = "amount - ?c - ?v"
    have v: "0 \<le> ?v" "0 \<le> ?c" "0 \<le> ?burn" using assms(1) by presburger+
    let ?shares = "\<lparr>sh_recipient = c, sh_amount = ?c, sh_type = CHALLENGER\<rparr> # ?split ?v @
      (if 0 < ?burn then [\<lparr>sh_recipient = ''burn'', sh_amount = ?burn, sh_type = BURN\<rparr>] else [])"
    have "calculate_shares amount committee challenger = Inr ?shares"
      using True c assms
      by (simp add: calculate_shares_def Let_def py_int_times_half py_int_times_two_fifths)
    moreover have "(\<Sum>s\<leftarrow>?shares. sh_amount s) = amount"
      using v split_total [OF assms(3), of ?v] by simp
    moreover have "\<forall>s \<in> set ?shares. 0 \<le> sh_amount s"
      using v split_share_bounds [OF assms(3), of ?v] by auto
    ultimately show ?thesis
      using True c all split_total [OF assms(3), of ?v] committee_shares_recipients by simp
  qed
qed

theorem shares_exact_witness:
  "\<exists>shares. calculate_shares 101 [''v1'', ''v2'', ''v3''] (Some ''c'') = Inr shares \<and>
    (\<Sum>s\<leftarrow>shares. sh_amount s) = 101 \<and>
    (\<Sum>s\<leftarrow>filter (\<lambda>s. sh_type s = COMMITTEE) shares. sh_amount s) = 40 \<and>
    filter (\<lambda>s. sh_type s = CHALLENGER) shares =
       [\<lparr>sh_recipient = ''c'', sh_amount = 50, sh_type = CHALLENGER\<rparr>]"
  using shares_exact [of 101 "[''v1'', ''v2'', ''v3'']" "Some ''c''"] by (auto simp: truthy_def)

end
