(* ===== verification/Leases.thy ===== *)
theory Leases
  imports Tables
begin

text \<open>
  Leases and heartbeats: \<open>src/leases/manager.py\<close> (the SQLite table of leases),
  \<open>src/leases/heartbeat.py\<close> (the dictionary of expected heartbeats) and the periodic pass of
  \<open>src/daemons/lease_monitor.py\<close>, which publishes a RELEASE for every lease it ends.  Every
  reading of \<open>time.time_ns()\<close> is an argument.  The daemon's thread only repeats the pass.
\<close>

section \<open>State\<close>

record lease_row =
  ls_task_id :: string
  ls_worker_id :: string
  ls_ttl :: int
  ls_created_at :: int
  ls_last_heartbeat :: int
  ls_heartbeat_interval :: int

record release_message =
  rel_task_id :: string
  rel_lease_id :: string
  rel_reason :: string

record lease_system =
  leases :: "(string, lease_row) table"
  expectations :: "(string, int) table"
  published :: "release_message list option"

section \<open>Lease manager\<close>

definition create_lease ::
  "string \<Rightarrow> string \<Rightarrow> string \<Rightarrow> int \<Rightarrow> int \<Rightarrow> int \<Rightarrow> lease_system \<Rightarrow> string option \<times> lease_system" where
  "create_lease uuid task_id worker_id ttl heartbeat_interval now s =
     (if has_key uuid (leases s) then (None, s)
      else (Some uuid, s\<lparr>leases := add_row uuid
        \<lparr>ls_task_id = task_id, ls_worker_id = worker_id, ls_ttl = ttl, ls_created_at = now,
         ls_last_heartbeat = now, ls_heartbeat_interval = heartbeat_interval\<rparr> (leases s)\<rparr>))"

definition renew_lease :: "string \<Rightarrow> int \<Rightarrow> lease_system \<Rightarrow> bool \<times> lease_system" where
  "renew_lease l now s =
     (if \<not> has_key l (leases s) then (False, s)
      else (True, s\<lparr>leases := update_row l (\<lambda>r. r\<lparr>ls_created_at := now, ls_last_heartbeat := now\<rparr>) (leases s)\<rparr>))"

definition heartbeat :: "string \<Rightarrow> int \<Rightarrow> lease_system \<Rightarrow> bool \<times> lease_system" where
  "heartbeat l now s =
     (if \<not> has_key l (leases s) then (False, s)
      else (True, s\<lparr>leases := update_row l (\<lambda>r. r\<lparr>ls_last_heartbeat := now\<rparr>) (leases s)\<rparr>))"

definition lease_expired :: "int \<Rightarrow> lease_row \<Rightarrow> bool" where
  "lease_expired now r \<longleftrightarrow> now > ls_created_at r + ls_ttl r * 1000000000"

definition check_expiry :: "int \<Rightarrow> lease_system \<Rightarrow> string list" where
  "check_expiry now s = map fst (filter (\<lambda>(l, r). lease_expired now r) (leases s))"

definition get_lease :: "string \<Rightarrow> lease_system \<Rightarrow> lease_row option" where
  "get_lease l s = map_of (leases s) l"

definition get_leases_for_worker :: "string \<Rightarrow> lease_system \<Rightarrow> (string \<times> lease_row) list" where
  "get_leases_for_worker w s =
     sort_key (\<lambda>(l, r). - ls_created_at r) (filter (\<lambda>(l, r). ls_worker_id r = w) (leases s))"

definition delete_lease :: "string \<Rightarrow> lease_system \<Rightarrow> bool \<times> lease_system" where
  "delete_lease l s =
     (if \<not> has_key l (leases s) then (False, s)
      else (True, s\<lparr>leases := AList.delete l (leases s)\<rparr>))"

definition scavenge_expired :: "int \<Rightarrow> lease_system \<Rightarrow> string list \<times> lease_system" where
  "scavenge_expired now s =
     (let expired = check_expiry now s in (expired, fold (\<lambda>l s. snd (delete_lease l s)) expired s))"

section \<open>Heartbeat protocol\<close>

definition expect_heartbeat :: "string \<Rightarrow> int \<Rightarrow> int \<Rightarrow> lease_system \<Rightarrow> lease_system" where
  "expect_heartbeat l interval now s =
     s\<lparr>expectations := AList.update l (now + interval * 1000000000) (expectations s)\<rparr>"

definition remove_expectation :: "string \<Rightarrow> lease_system \<Rightarrow> lease_system" where
  "remove_expectation l s = s\<lparr>expectations := AList.delete l (expectations s)\<rparr>"

definition receive_heartbeat :: "string \<Rightarrow> int \<Rightarrow> lease_system \<Rightarrow> lease_system" where
  "receive_heartbeat l now s =
     (case get_lease l s of
        None \<Rightarrow> remove_expectation l s
      | Some r \<Rightarrow>
          s\<lparr>expectations := AList.update l (now + ls_heartbeat_interval r * 1000000000) (expectations s)\<rparr>)"

definition check_missed_heartbeats :: "int \<Rightarrow> lease_system \<Rightarrow> string list" where
  "check_missed_heartbeats now s = map fst (filter (\<lambda>(l, e). now > e) (expectations s))"

definition get_next_expected_heartbeat :: "string \<Rightarrow> lease_system \<Rightarrow> int option" where
  "get_next_expected_heartbeat l s = map_of (expectations s) l"

section \<open>Lease monitor\<close>

definition publish_release :: "string \<Rightarrow> string \<Rightarrow> string \<Rightarrow> lease_system \<Rightarrow> lease_system" where
  "publish_release task_id l reason s =
     (case published s of
        None \<Rightarrow> s
      | Some msgs \<Rightarrow>
          s\<lparr>published := Some (msgs @ [\<lparr>rel_task_id = task_id, rel_lease_id = l, rel_reason = reason\<rparr>])\<rparr>)"

definition handle_expired :: "string \<Rightarrow> lease_system \<Rightarrow> lease_system" where
  "handle_expired l s =
     (case get_lease l s of
        None \<Rightarrow> s
      | Some r \<Rightarrow>
          let s = publish_release (ls_task_id r) l ''timeout'' s;
              s = remove_expectation l s
          in snd (delete_lease l s))"

definition handle_missed_heartbeat :: "string \<Rightarrow> lease_system \<Rightarrow> lease_system" where
  "handle_missed_heartbeat l s =
     (case get_lease l s of
        None \<Rightarrow> remove_expectation l s
      | Some r \<Rightarrow>
          let s = publish_release (ls_task_id r) l ''heartbeat_miss'' s;
              s = remove_expectation l s
          in snd (delete_lease l s))"

definition check_expired_leases :: "int \<Rightarrow> int \<Rightarrow> lease_system \<Rightarrow> lease_system" where
  "check_expired_leases now1 now2 s =
     (let s = fold handle_expired (check_expiry now1 s) s
      in fold handle_missed_heartbeat (check_missed_heartbeats now2 s) s)"

section \<open>Specification of a pass\<close>

definition without :: "'k set \<Rightarrow> ('k, 'v) table \<Rightarrow> ('k, 'v) table" where
  "without ks t = filter (\<lambda>(k, v). k \<notin> ks) t"

definition release_of :: "string \<Rightarrow> (string, lease_row) table \<Rightarrow> string \<Rightarrow> release_message list" where
  "release_of reason t l =
     (case map_of t l of None \<Rightarrow> []
      | Some r \<Rightarrow> [\<lparr>rel_task_id = ls_task_id r, rel_lease_id = l, rel_reason = reason\<rparr>])"

definition leases_wf :: "lease_system \<Rightarrow> bool" where
  "leases_wf s \<longleftrightarrow> keyed (leases s) \<and> keyed (expectations s)"

lemma without_empty [simp]: "without {} t = t"
  by (simp add: without_def)

lemma without_without [simp]: "without A (without B t) = without (A \<union> B) t"
  by (auto simp: without_def intro: filter_cong)

lemma delete_without: "AList.delete k t = without {k} t"
  by (induction t) (auto simp: without_def)

lemma map_of_without [simp]: "map_of (without A t) k = (if k \<in> A then None else map_of t k)"
  by (induction t) (auto simp: without_def)

lemma keyed_without [simp]: "keyed t \<Longrightarrow> keyed (without A t)"
  by (induction t) (auto simp: keyed_def without_def)

lemma has_key_without [simp]: "has_key k (without A t) \<longleftrightarrow> k \<notin> A \<and> has_key k t"
  by (simp add: has_key_def)

lemma without_absent: "map_of t k = None \<Longrightarrow> without {k} t = t"
  unfolding without_def by (rule filter_True) (force simp: map_of_eq_None_iff)

lemma release_of_without:
  "l \<notin> A \<Longrightarrow> release_of reason (without A t) l = release_of reason t l"
  by (simp add: release_of_def)

lemma handle_expired_eq:
  "handle_expired l s =
     s\<lparr>leases := without {l} (leases s),
       expectations := without (if has_key l (leases s) then {l} else {}) (expectations s),
       published := map_option (\<lambda>ms. ms @ release_of ''timeout'' (leases s) l) (published s)\<rparr>"
proof (cases "map_of (leases s) l")
  case None
  then show ?thesis
    by (cases "published s")
       (auto simp: handle_expired_def get_lease_def has_key_def release_of_def without_absent)
next
  case (Some r)
  then show ?thesis
    by (cases "published s")
       (auto simp: handle_expired_def get_lease_def has_key_def release_of_def publish_release_def
          remove_expectation_def delete_lease_def delete_without)
qed

lemma handle_missed_eq:
  "handle_missed_heartbeat l s =
     s\<lparr>leases := without {l} (leases s), expectations := without {l} (expectations s),
       published := map_option (\<lambda>ms. ms @ release_of ''heartbeat_miss'' (leases s) l) (published s)\<rparr>"
proof (cases "map_of (leases s) l")
  case None
  then show ?thesis
    by (cases "published s")
       (auto simp: handle_missed_heartbeat_def remove_expectation_def delete_without get_lease_def
          has_key_def release_of_def without_absent)
next
  case (Some r)
  then show ?thesis
    by (cases "published s")
       (auto simp: handle_missed_heartbeat_def get_lease_def has_key_def release_of_def publish_release_def
          remove_expectation_def delete_lease_def delete_without)
qed

lemma fold_handle_expired:
  assumes "distinct ls"
  shows "fold handle_expired ls s =
     s\<lparr>leases := without (set ls) (leases s),
       expectations := without {l \<in> set ls. has_key l (leases s)} (expectations s),
       published := map_option (\<lambda>ms. ms @ concat (map (release_of ''timeout'' (leases s)) ls)) (published s)\<rparr>"
  using assms
proof (induction ls arbitrary: s)
  case Nil
  then show ?case by (cases "published s") simp_all
next
  case (Cons l ls)
  have rel: "map (release_of ''timeout'' (without {l} (leases s))) ls = map (release_of ''timeout'' (leases s)) ls"
    by (rule map_cong [OF refl], rule release_of_without) (use Cons.prems in auto)
  have keys: "{k \<in> set ls. has_key k (without {l} (leases s))} = {k \<in> set ls. has_key k (leases s)}"
    using Cons.prems by auto
  have ins: "has_key l (leases s) \<Longrightarrow> {k. (k = l \<or> k \<in> set ls) \<and> has_key k (leases s)} =
      insert l {k \<in> set ls. has_key k (leases s)}"
    "\<not> has_key l (leases s) \<Longrightarrow> {k. (k = l \<or> k \<in> set ls) \<and> has_key k (leases s)} =
      {k \<in> set ls. has_key k (leases s)}"
    by auto
  have "fold handle_expired (l # ls) s = fold handle_expired ls (handle_expired l s)" by simp
  also have "\<dots> = s\<lparr>leases := without (set (l # ls)) (leases s),
       expectations := without {k \<in> set (l # ls). has_key k (leases s)} (expectations s),
       published := map_option (\<lambda>ms. ms @ concat (map (release_of ''timeout'' (leases s)) (l # ls))) (published s)\<rparr>"
    using Cons.prems
    by (simp add: Cons.IH handle_expired_eq [of l] rel keys ins option.map_comp comp_def del: has_key_without)
  finally show ?case .
qed

lemma fold_handle_missed:
  assumes "distinct ls"
  shows "fold handle_missed_heartbeat ls s =
     s\<lparr>leases := without (set ls) (leases s), expectations := without (set ls) (expectations s),
       published := map_option (\<lambda>ms. ms @ concat (map (release_of ''heartbeat_miss'' (leases s)) ls)) (published s)\<rparr>"
  using assms
proof (induction ls arbitrary: s)
  case Nil
  then show ?case by (cases "published s") simp_all
next
  case (Cons l ls)
  have rel: "map (release_of ''heartbeat_miss'' (without {l} (leases s))) ls =
      map (release_of ''heartbeat_miss'' (leases s)) ls"
    by (rule map_cong [OF refl], rule release_of_without) (use Cons.prems in auto)
  show ?case
    using Cons.prems by (simp add: Cons.IH handle_missed_eq [of l] rel option.map_comp comp_def)
qed

end
