(* ===== verification/LeaseProps.thy ===== *)
theory LeaseProps
  imports Leases
begin

text \<open>
  Correctness of leases: the effect of one monitor pass, the refinement of the whole system to
  independent two-timer automata (one per lease id), and the race between scavenging and renewal.
\<close>

section \<open>One monitor pass\<close>

definition overdue :: "int \<Rightarrow> (string, int) table \<Rightarrow> string \<Rightarrow> bool" where
  "overdue now es l \<longleftrightarrow> (case map_of es l of None \<Rightarrow> False | Some e \<Rightarrow> now > e)"

definition expired_now :: "int \<Rightarrow> (string, lease_row) table \<Rightarrow> string \<Rightarrow> bool" where
  "expired_now now t l \<longleftrightarrow> (case map_of t l of None \<Rightarrow> False | Some r \<Rightarrow> lease_expired now r)"

lemma set_filter_keys:
  assumes "keyed t"
  shows "set (map fst (filter (\<lambda>(k, v). P v) t)) = {k. \<exists>v. map_of t k = Some v \<and> P v}"
  using keyed_map_of [OF assms] by force

lemma distinct_filter_keys: "keyed t \<Longrightarrow> distinct (map fst (filter (\<lambda>(k, v). P v) t))"
  by (induction t) (auto simp: keyed_def)

lemma check_expiry_distinct: "keyed (leases s) \<Longrightarrow> distinct (check_expiry now s)"
  unfolding check_expiry_def by (rule distinct_filter_keys)

lemma check_expiry_set: "keyed (leases s) \<Longrightarrow> set (check_expiry now s) = {l. expired_now now (leases s) l}"
  unfolding check_expiry_def by (subst set_filter_keys) (auto simp: expired_now_def split: option.splits)

lemma check_missed_distinct: "keyed (expectations s) \<Longrightarrow> distinct (check_missed_heartbeats now s)"
  unfolding check_missed_heartbeats_def by (rule distinct_filter_keys)

lemma check_missed_set: "keyed (expectations s) \<Longrightarrow> set (check_missed_heartbeats now s) = {l. overdue now (expectations s) l}"
  unfolding check_missed_heartbeats_def by (subst set_filter_keys) (auto simp: overdue_def split: option.splits)

lemma expired_has_key: "expired_now now t l \<Longrightarrow> has_key l t"
  by (auto simp: expired_now_def has_key_def split: option.splits)

text \<open>The state after the first loop and after the whole pass.\<close>

lemma after_expired:
  assumes "leases_wf s"
  shows "fold handle_expired (check_expiry now s) s =
    s\<lparr>leases := without {l. expired_now now (leases s) l} (leases s),
      expectations := without {l. expired_now now (leases s) l} (expectations s),
      published := map_option (\<lambda>ms. ms @ concat (map (release_of ''timeout'' (leases s)) (check_expiry now s))) (published s)\<rparr>"
proof -
  have "{l \<in> set (check_expiry now s). has_key l (leases s)} = {l. expired_now now (leases s) l}"
    using assms by (auto simp: leases_wf_def check_expiry_set expired_has_key)
  moreover have "set (check_expiry now s) = {l. expired_now now (leases s) l}"
    using assms by (auto simp: leases_wf_def check_expiry_set)
  ultimately show ?thesis
    using assms by (simp add: fold_handle_expired leases_wf_def check_expiry_distinct)
qed

lemma monitor_pass:
  fixes now1 now2 :: int
  assumes "leases_wf s"
  defines "gone \<equiv> {l. expired_now now1 (leases s) l}"
  defines "late \<equiv> {l. overdue now2 (expectations s) l \<and> \<not> expired_now now1 (leases s) l}"
  shows "leases (check_expired_leases now1 now2 s) = without (gone \<union> late) (leases s) \<and>
    expectations (check_expired_leases now1 now2 s) = without (gone \<union> late) (expectations s) \<and>
    published (check_expired_leases now1 now2 s) = map_option (\<lambda>ms. ms @
      concat (map (release_of ''timeout'' (leases s)) (check_expiry now1 s)) @
      concat (map (release_of ''heartbeat_miss'' (without gone (leases s)))
        (map fst (filter (\<lambda>(l, e). now2 > e) (without gone (expectations s)))))) (published s)"
proof -
  let ?s = "fold handle_expired (check_expiry now1 s) s"
  have s: "leases ?s = without gone (leases s)" "expectations ?s = without gone (expectations s)"
    "published ?s = map_option (\<lambda>ms. ms @ concat (map (release_of ''timeout'' (leases s)) (check_expiry now1 s))) (published s)"
    using after_expired [OF assms(1)] by (simp_all add: gone_def)
  have k: "keyed (expectations ?s)" using assms(1) s by (simp add: leases_wf_def)
  have "set (check_missed_heartbeats now2 ?s) = late"
    unfolding check_missed_set [OF k] s by (auto simp: late_def gone_def overdue_def split: option.splits if_splits)
  with fold_handle_missed [OF check_missed_distinct [OF k], of now2 ?s] show ?thesis
    by (simp add: check_expired_leases_def Let_def s check_missed_heartbeats_def option.map_comp comp_def Un_commute)
qed

lemma releases_of_rows:
  "(\<And>l r. (l, r) \<in> set xs \<Longrightarrow> map_of t l = Some r) \<Longrightarrow>
   concat (map (release_of reason t) (map fst xs)) =
     map (\<lambda>(l, r). \<lparr>rel_task_id = ls_task_id r, rel_lease_id = l, rel_reason = reason\<rparr>) xs"
  by (induction xs) (fastforce simp: release_of_def)+

lemma releases_of_ids:
  "concat (map (release_of reason t) ls) =
     map (\<lambda>(l, r). \<lparr>rel_task_id = ls_task_id r, rel_lease_id = l, rel_reason = reason\<rparr>)
       (map (\<lambda>l. (l, the (map_of t l))) (filter (\<lambda>l. has_key l t) ls))"
  by (induction ls) (auto simp: release_of_def has_key_def)

text \<open>One pass of the monitor does exactly its job: with \<open>now1\<close> and \<open>now2\<close> the two clock readings,
  the leases that remain are exactly those whose time to live has not run out and whose expected
  heartbeat is not overdue, unchanged and in their order; and the messages published are one RELEASE
  with reason timeout for every expired lease, followed by one with reason heartbeat\_miss for
  every other lease with an overdue heartbeat, each with the task of its lease.\<close>

theorem monitor_pass_exact:
  assumes "leases_wf s" and "published s = Some old"
  shows "leases (check_expired_leases now1 now2 s) =
      filter (\<lambda>(l, r). \<not> lease_expired now1 r \<and> \<not> overdue now2 (expectations s) l) (leases s) \<and>
    (\<exists>missed. published (check_expired_leases now1 now2 s) = Some (old @
        map (\<lambda>(l, r). \<lparr>rel_task_id = ls_task_id r, rel_lease_id = l, rel_reason = ''timeout''\<rparr>)
          (filter (\<lambda>(l, r). lease_expired now1 r) (leases s)) @
        map (\<lambda>(l, r). \<lparr>rel_task_id = ls_task_id r, rel_lease_id = l, rel_reason = ''heartbeat_miss''\<rparr>) missed) \<and>
      distinct (map fst missed) \<and>
      set missed = {(l, r) \<in> set (leases s). \<not> lease_expired now1 r \<and> overdue now2 (expectations s) l})"
proof -
  let ?gone = "{l. expired_now now1 (leases s) l}"
  let ?late = "{l. overdue now2 (expectations s) l \<and> \<not> expired_now now1 (leases s) l}"
  let ?t = "without ?gone (leases s)"
  have kl: "keyed (leases s)" and ke: "keyed (expectations s)" using assms(1) by (auto simp: leases_wf_def)
  have ex: "expired_now now1 (leases s) l \<longleftrightarrow> lease_expired now1 r" if "(l, r) \<in> set (leases s)" for l r
    using that keyed_map_of [OF kl] by (auto simp: expired_now_def)
  have L: "without (?gone \<union> ?late) (leases s) =
      filter (\<lambda>(l, r). \<not> lease_expired now1 r \<and> \<not> overdue now2 (expectations s) l) (leases s)"
    unfolding without_def by (rule filter_cong) (auto simp: ex)
  have T: "concat (map (release_of ''timeout'' (leases s)) (check_expiry now1 s)) =
      map (\<lambda>(l, r). \<lparr>rel_task_id = ls_task_id r, rel_lease_id = l, rel_reason = ''timeout''\<rparr>)
          (filter (\<lambda>(l, r). lease_expired now1 r) (leases s))"
    unfolding check_expiry_def by (rule releases_of_rows) (use keyed_map_of [OF kl] in auto)
  let ?ids = "filter (\<lambda>l. has_key l ?t) (map fst (filter (\<lambda>(l, e). now2 > e) (without ?gone (expectations s))))"
  let ?missed = "map (\<lambda>l. (l, the (map_of ?t l))) ?ids"
  have ids: "map fst ?missed = ?ids" by (simp add: comp_def)
  have M: "concat (map (release_of ''heartbeat_miss'' ?t)
        (map fst (filter (\<lambda>(l, e). now2 > e) (without ?gone (expectations s))))) =
      map (\<lambda>(l, r). \<lparr>rel_task_id = ls_task_id r, rel_lease_id = l, rel_reason = ''heartbeat_miss''\<rparr>) ?missed"
    by (rule releases_of_ids)
  have dist: "distinct (map fst ?missed)"
    unfolding ids by (intro distinct_filter distinct_filter_keys keyed_without ke)
  have idset: "set ?ids = {l. has_key l (leases s) \<and> \<not> expired_now now1 (leases s) l \<and> overdue now2 (expectations s) l}"
    unfolding set_filter set_filter_keys [OF keyed_without [OF ke]]
    by (auto simp: overdue_def split: option.splits if_splits)
  have "set ?missed = {(l, r) \<in> set (leases s). \<not> lease_expired now1 r \<and> overdue now2 (expectations s) l}"
  proof -
    have mem: "(l, r) \<in> set ?missed \<longleftrightarrow> l \<in> set ?ids \<and> r = the (map_of ?t l)" for l r
      unfolding set_map image_iff by blast
    have "(l, r) \<in> set ?missed \<longleftrightarrow>
        (l, r) \<in> set (leases s) \<and> \<not> lease_expired now1 r \<and> overdue now2 (expectations s) l" for l r
      unfolding mem idset keyed_map_of [OF kl]
      by (cases "map_of (leases s) l") (auto simp: has_key_def expired_now_def)
    then show ?thesis by auto
  qed
  then obtain missed where m: "missed = ?missed" "distinct (map fst missed)"
    "set missed = {(l, r) \<in> set (leases s). \<not> lease_expired now1 r \<and> overdue now2 (expectations s) l}"
    using dist by metis
  from monitor_pass [OF assms(1), of now1 now2, unfolded L T M assms(2) option.map, folded m(1)]
  show ?thesis using m(2,3) by blast
qed

theorem monitor_pass_exact_witness:
  "leases (check_expired_leases 20000000000 21000000000
     \<lparr>leases = [(''a'', \<lparr>ls_task_id = ''t1'', ls_worker_id = ''w'', ls_ttl = 10, ls_created_at = 0, ls_last_heartbeat = 0, ls_heartbeat_interval = 5\<rparr>),
                (''b'', \<lparr>ls_task_id = ''t2'', ls_worker_id = ''w'', ls_ttl = 60, ls_created_at = 0, ls_last_heartbeat = 0, ls_heartbeat_interval = 5\<rparr>)],
      expectations = [(''a'', 25000000000), (''b'', 5000000000)], published = Some []\<rparr>) = []"
  (is "leases (check_expired_leases ?n1 ?n2 ?s) = []")
proof -
  have "leases_wf ?s" by (simp add: leases_wf_def keyed_def)
  from monitor_pass_exact [OF this, of "[]" ?n1 ?n2] show ?thesis
    by (simp add: lease_expired_def overdue_def)
qed

section \<open>Every lease is a two-timer automaton\<close>

datatype lease_cmd =
    Create string string string int int int
  | Renew string int
  | Beat string int
  | Expect string int int
  | Receive string int
  | Forget string
  | Delete string
  | Scavenge int
  | MonitorPass int int

fun lease_step :: "lease_cmd \<Rightarrow> lease_system \<Rightarrow> lease_system" where
  "lease_step (Create i t w ttl iv now) s = snd (create_lease i t w ttl iv now s)"
| "lease_step (Renew l now) s = snd (renew_lease l now s)"
| "lease_step (Beat l now) s = snd (heartbeat l now s)"
| "lease_step (Expect l iv now) s = expect_heartbeat l iv now s"
| "lease_step (Receive l now) s = receive_heartbeat l now s"
| "lease_step (Forget l) s = remove_expectation l s"
| "lease_step (Delete l) s = snd (delete_lease l s)"
| "lease_step (Scavenge now) s = snd (scavenge_expired now s)"
| "lease_step (MonitorPass now1 now2) s = check_expired_leases now1 now2 s"

text \<open>The abstract state of one lease id: its row, if it is leased, and the deadline of its next
  heartbeat, if one is expected.  Commands on other ids do not touch it.\<close>

type_synonym timer = "lease_row option \<times> int option"

definition timer_of :: "string \<Rightarrow> lease_system \<Rightarrow> timer" where
  "timer_of l s = (map_of (leases s) l, map_of (expectations s) l)"

definition late_beat :: "int \<Rightarrow> int option \<Rightarrow> bool" where
  "late_beat now e \<longleftrightarrow> (case e of None \<Rightarrow> False | Some d \<Rightarrow> now > d)"

definition out_of_time :: "int \<Rightarrow> lease_row option \<Rightarrow> bool" where
  "out_of_time now r \<longleftrightarrow> (case r of None \<Rightarrow> False | Some r \<Rightarrow> lease_expired now r)"

fun timer_step :: "string \<Rightarrow> lease_cmd \<Rightarrow> timer \<Rightarrow> timer" where
  "timer_step l (Create i t w ttl iv now) (r, e) =
     (if i = l \<and> r = None
      then (Some \<lparr>ls_task_id = t, ls_worker_id = w, ls_ttl = ttl, ls_created_at = now,
              ls_last_heartbeat = now, ls_heartbeat_interval = iv\<rparr>, e)
      else (r, e))"
| "timer_step l (Renew k now) (r, e) =
     (if k = l then map_option (\<lambda>r. r\<lparr>ls_created_at := now, ls_last_heartbeat := now\<rparr>) r else r, e)"
| "timer_step l (Beat k now) (r, e) =
     (if k = l then map_option (\<lambda>r. r\<lparr>ls_last_heartbeat := now\<rparr>) r else r, e)"
| "timer_step l (Expect k iv now) (r, e) = (r, if k = l then Some (now + iv * 1000000000) else e)"
| "timer_step l (Receive k now) (r, e) =
     (r, if k = l then map_option (\<lambda>r. now + ls_heartbeat_interval r * 1000000000) r else e)"
| "timer_step l (Forget k) (r, e) = (r, if k = l then None else e)"
| "timer_step l (Delete k) (r, e) = (if k = l then None else r, e)"
| "timer_step l (Scavenge now) (r, e) = (if out_of_time now r then None else r, e)"
| "timer_step l (MonitorPass now1 now2) (r, e) =
     (if out_of_time now1 r \<or> late_beat now2 e then (None, None) else (r, e))"

lemma fold_delete_lease:
  "fold (\<lambda>l s. snd (delete_lease l s)) ls s = s\<lparr>leases := without (set ls) (leases s)\<rparr>"
proof (induction ls arbitrary: s)
  case (Cons l ls)
  have "snd (delete_lease l s) = s\<lparr>leases := without {l} (leases s)\<rparr>"
    by (cases "map_of (leases s) l") (auto simp: delete_lease_def has_key_def delete_without without_absent)
  with Cons show ?case by simp
qed simp

lemma scavenge_eq:
  "leases_wf s \<Longrightarrow> snd (scavenge_expired now s) =
     s\<lparr>leases := without {l. expired_now now (leases s) l} (leases s)\<rparr>"
  by (simp add: scavenge_expired_def Let_def fold_delete_lease check_expiry_set leases_wf_def)

lemma lease_step_wf: "leases_wf s \<Longrightarrow> leases_wf (lease_step c s)"
proof (cases c)
  case (MonitorPass n1 n2)
  moreover assume "leases_wf s"
  ultimately show ?thesis using monitor_pass [of s n1 n2] by (simp add: leases_wf_def)
next
  case (Scavenge now)
  moreover assume "leases_wf s"
  ultimately show ?thesis by (simp add: scavenge_eq leases_wf_def)
qed (auto simp: leases_wf_def create_lease_def renew_lease_def heartbeat_def expect_heartbeat_def
    receive_heartbeat_def remove_expectation_def delete_lease_def split: option.splits)

lemma timer_of_step:
  assumes "leases_wf s"
  shows "timer_of l (lease_step c s) = timer_step l c (timer_of l s)"
proof (cases c)
  case (MonitorPass n1 n2)
  then show ?thesis
    using monitor_pass [OF assms, of n1 n2]
    by (auto simp: timer_of_def expired_now_def overdue_def out_of_time_def late_beat_def split: option.splits)
next
  case (Scavenge now)
  then show ?thesis
    by (auto simp: scavenge_eq [OF assms] timer_of_def expired_now_def out_of_time_def split: option.splits)
next
  case (Create i t w ttl iv now)
  then show ?thesis
    by (auto simp: timer_of_def create_lease_def has_key_def split: option.splits)
next
  case (Receive k now)
  then show ?thesis
    by (auto simp: timer_of_def receive_heartbeat_def get_lease_def remove_expectation_def split: option.splits)
qed (auto simp: timer_of_def renew_lease_def heartbeat_def has_key_def expect_heartbeat_def
    remove_expectation_def delete_lease_def)

definition init_leases :: lease_system where
  "init_leases = \<lparr>leases = [], expectations = [], published = Some []\<rparr>"

text \<open>Claim C8. Refinement: in every run of lease operations and monitor passes from an empty table,
  each lease id behaves as its own automaton with two timers, one for the time to live and one
  for the next heartbeat.  In particular no operation on one lease ever affects another, and a
  lease is ended by a monitor pass exactly when one of its own timers has run out.\<close>

theorem leases_refine_timers:
  "timer_of l (fold lease_step cs init_leases) = fold (timer_step l) cs (None, None)"
proof -
  have "timer_of l (fold lease_step cs s) = fold (timer_step l) cs (timer_of l s)" if "leases_wf s" for s
    using that
  proof (induction cs arbitrary: s)
    case (Cons c cs)
    then show ?case using Cons.IH [OF lease_step_wf [OF Cons.prems, of c]] by (simp add: timer_of_step)
  qed simp
  from this [of init_leases] show ?thesis
    by (simp add: init_leases_def leases_wf_def timer_of_def)
qed

section \<open>Scavenging is not atomic\<close>

text \<open>\<open>scavenge_expired\<close> reads the expired leases first and deletes them one at a time under
  the lock, so it is not atomic: a worker that renews an expired lease in between is told that the
  renewal succeeded, the lease has its full time to live again, and it is deleted all the same.\<close>

theorem scavenge_loses_renewal:
  assumes "l \<in> set (check_expiry now s)" and "keyed (leases s)" and "now2 \<le> now3" and "now3 \<le> now2 + ttl * 1000000000"
    and "map_option ls_ttl (map_of (leases s) l) = Some ttl"
  shows "fst (renew_lease l now2 s) \<and>
    \<not> expired_now now3 (leases (snd (renew_lease l now2 s))) l \<and>
    get_lease l (fold (\<lambda>l s. snd (delete_lease l s)) (check_expiry now s) (snd (renew_lease l now2 s))) = None"
  using assms
  by (auto simp: renew_lease_def fold_delete_lease get_lease_def expired_now_def lease_expired_def
      check_expiry_def has_key_iff map_of_eq_None_iff split: option.splits)

theorem scavenge_loses_renewal_witness:
  "\<exists>s. fst (renew_lease ''a'' 30 s) \<and>
    get_lease ''a'' (fold (\<lambda>l s. snd (delete_lease l s)) (check_expiry 20000000000 s) (snd (renew_lease ''a'' 30 s))) = None"
proof -
  let ?s = "\<lparr>leases = [(''a'', \<lparr>ls_task_id = ''t1'', ls_worker_id = ''w'', ls_ttl = 10, ls_created_at = 0,
     ls_last_heartbeat = 0, ls_heartbeat_interval = 5\<rparr>)], expectations = [], published = None\<rparr>"
  have "''a'' \<in> set (check_expiry 20000000000 ?s)" by (simp add: check_expiry_def lease_expired_def)
  from scavenge_loses_renewal [OF this, of 30 30 10] show ?thesis
    by (intro exI [of _ ?s]) (simp add: keyed_def)
qed

end
