(* ===== verification/PyString.thy ===== *)
theory PyString
  imports Prelude "HOL-Library.Char_ord" "HOL-Library.List_Lexorder"
begin

text \<open>
  The string operations of Python the program uses: \<open>str\<close> and \<open>int\<close> on decimal numbers,
  \<open>str.split\<close> on a separator, zero padding in f-strings, and the order of strings, which is the
  lexicographic one on characters (\<open>HOL-Library.List_Lexorder\<close> over \<open>Char_ord\<close>).
\<close>

section \<open>Decimal numbers\<close>

definition digit_char :: "nat \<Rightarrow> char" where
  "digit_char n = char_of (48 + n)"

definition is_digit :: "char \<Rightarrow> bool" where
  "is_digit c \<longleftrightarrow> 48 \<le> (of_char c :: nat) \<and> (of_char c :: nat) \<le> 57"

definition digit_value :: "char \<Rightarrow> nat" where
  "digit_value c = of_char c - 48"

fun str_of_nat :: "nat \<Rightarrow> string" where
  "str_of_nat n = (if n < 10 then [digit_char n] else str_of_nat (n div 10) @ [digit_char (n mod 10)])"

declare str_of_nat.simps [simp del]

definition str_of_int :: "int \<Rightarrow> string" where
  "str_of_int i = (if i < 0 then CHR ''-'' # str_of_nat (nat (- i)) else str_of_nat (nat i))"

text \<open>The digits of \<open>int(s)\<close>: a single underscore may stand between two digits.\<close>

fun digits_value :: "nat \<Rightarrow> bool \<Rightarrow> string \<Rightarrow> nat option" where
  "digits_value acc after_digit [] = (if after_digit then Some acc else None)"
| "digits_value acc after_digit (c # cs) =
     (if is_digit c then digits_value (10 * acc + digit_value c) True cs
      else if c = CHR ''_'' \<and> after_digit then digits_value acc False cs
      else None)"

definition py_strip :: "string \<Rightarrow> string" where
  "py_strip s = rev (dropWhile py_space (rev (dropWhile py_space s)))"

definition parse_int :: "string \<Rightarrow> int option" where
  "parse_int s =
     (case py_strip s of
        [] \<Rightarrow> None
      | c # cs \<Rightarrow>
          if c = CHR ''-'' then map_option (\<lambda>n. - int n) (digits_value 0 False cs)
          else if c = CHR ''+'' then map_option int (digits_value 0 False cs)
          else map_option int (digits_value 0 False (c # cs)))"

lemma of_char_digit [simp]: "d < 10 \<Longrightarrow> (of_char (digit_char d) :: nat) = 48 + d"
  by (simp add: digit_char_def)

lemma digit_char_simps [simp]:
  assumes "d < 10"
  shows "is_digit (digit_char d)" "digit_value (digit_char d) = d"
  using assms by (simp_all add: is_digit_def digit_value_def)

lemma digits_value_append_digit:
  "digits_value acc b (s @ [digit_char d]) = map_option (\<lambda>n. 10 * n + d) (digits_value acc True s)"
  if "d < 10" and "list_all is_digit s"
  using that by (induction s arbitrary: acc b) auto

lemma list_all_digits: "list_all is_digit (str_of_nat n)"
proof (induction n rule: str_of_nat.induct)
  case (1 n)
  then show ?case by (subst str_of_nat.simps) auto
qed

lemma str_of_nat_nonempty [simp]: "str_of_nat n \<noteq> []"
  by (subst str_of_nat.simps) simp

lemma digits_value_after: "s \<noteq> [] \<Longrightarrow> list_all is_digit s \<Longrightarrow> digits_value acc b s = digits_value acc True s"
  by (cases s) auto

lemma digits_value_str: "digits_value 0 b (str_of_nat n) = Some n"
proof (induction n arbitrary: b rule: str_of_nat.induct)
  case (1 n)
  show ?case
  proof (cases "n < 10")
    case True
    then show ?thesis by (subst str_of_nat.simps) simp
  next
    case False
    have "digits_value 0 b (str_of_nat n) = map_option (\<lambda>m. 10 * m + n mod 10) (digits_value 0 True (str_of_nat (n div 10)))"
      using False by (subst str_of_nat.simps) (simp add: digits_value_append_digit list_all_digits)
    then show ?thesis using 1 [OF False, of True] by simp
  qed
qed

lemma digit_not_special: "is_digit c \<Longrightarrow> \<not> py_space c \<and> c \<noteq> CHR ''-'' \<and> c \<noteq> CHR ''+'' \<and> c \<noteq> CHR ''/'' "
  by (auto simp: is_digit_def py_space_def Let_def)

lemma strip_digits: "list_all is_digit s \<Longrightarrow> py_strip s = s"
proof -
  have drop: "dropWhile py_space t = t" if "list_all is_digit t" for t
    using that by (cases t) (auto simp: digit_not_special)
  assume "list_all is_digit s"
  moreover have "list_all is_digit (rev s)" using \<open>list_all is_digit s\<close> by (simp add: list_all_iff)
  ultimately show ?thesis by (simp add: py_strip_def drop)
qed

lemma parse_int_str: "parse_int (str_of_nat n) = Some (int n)"
proof -
  obtain c cs where s: "str_of_nat n = c # cs" by (cases "str_of_nat n") auto
  have d: "is_digit c" and st: "py_strip (c # cs) = c # cs"
    using list_all_digits [of n] strip_digits [of "c # cs"] s by simp_all
  from d have "c \<noteq> CHR ''-''" "c \<noteq> CHR ''+''" by (auto dest: digit_not_special)
  with digits_value_str [of False n] show ?thesis
    unfolding s parse_int_def st by (simp del: digits_value.simps)
qed

lemma dash_not_in_str: "CHR ''-'' \<notin> set (str_of_nat n)"
  using list_all_digits [of n] digit_not_special by (auto simp: list_all_iff)

text \<open>Zero padding to three digits, \<open>f"{n:03d}"\<close>.\<close>

definition pad3 :: "nat \<Rightarrow> string" where
  "pad3 n = (let s = str_of_nat n in replicate (3 - length s) (CHR ''0'') @ s)"

lemma length_str_of_nat: "n < 1000 \<Longrightarrow> length (str_of_nat n) \<le> 3"
  by (subst str_of_nat.simps, subst str_of_nat.simps, subst str_of_nat.simps) auto

lemma length_pad3: "n < 1000 \<Longrightarrow> length (pad3 n) = 3"
  using length_str_of_nat [of n] by (simp add: pad3_def Let_def)

section \<open>Splitting\<close>

fun split_on :: "char \<Rightarrow> string \<Rightarrow> string list" where
  "split_on c [] = [[]]"
| "split_on c (x # xs) =
     (if x = c then [] # split_on c xs
      else case split_on c xs of [] \<Rightarrow> [[x]] | y # ys \<Rightarrow> (x # y) # ys)"

lemma split_on_append: "c \<notin> set s \<Longrightarrow> split_on c (s @ c # t) = s # split_on c t"
  by (induction s) auto

lemma split_on_nonempty [simp]: "split_on c s \<noteq> []"
  by (cases s) (auto split: list.splits)

end
