(* ===== verification/Consensus.thy ===== *)
theory Consensus
  imports Tables PyFloat PyString
begin

text \<open>
  The consensus core: epochs and fencing tokens (\<open>src/consensus/epochs.py\<close>), attestation quorums
  (\<open>quorum.py\<close>), the quorum size (\<open>bootstrap.py\<close> and \<open>src/daemons/bootstrap_monitor.py\<close>), the
  merge rule after a partition (\<open>merge.py\<close>) and the DECIDE record in etcd (\<open>raft_adapter.py\<close>).
\<close>

section \<open>Epochs\<close>

record epoch_manager =
  current_epoch :: int
  epoch_start :: int
  coordinator_id :: string
  epoch_db :: "(int \<times> int \<times> string) option"

definition persist_state :: "epoch_manager \<Rightarrow> epoch_manager" where
  "persist_state m = m\<lparr>epoch_db := Some (current_epoch m, epoch_start m, coordinator_id m)\<rparr>"

text \<open>A new \<open>EpochManager\<close> on a database file: the fields come from the stored row or are
  initialised and stored.\<close>

definition load_or_init_state :: "int \<Rightarrow> (int \<times> int \<times> string) option \<Rightarrow> epoch_manager" where
  "load_or_init_state now db =
     (case db of
        Some (e, s, c) \<Rightarrow> \<lparr>current_epoch = e, epoch_start = s, coordinator_id = c, epoch_db = db\<rparr>
      | None \<Rightarrow> persist_state \<lparr>current_epoch = 1, epoch_start = now, coordinator_id = ''system'', epoch_db = None\<rparr>)"

definition create_fence_token :: "int option \<Rightarrow> epoch_manager \<Rightarrow> string" where
  "create_fence_token epoch m =
     (let e = (case epoch of None \<Rightarrow> current_epoch m | Some e \<Rightarrow> e) in
      ''epoch-'' @ str_of_int e @ ''-'' @ str_of_int (epoch_start m))"

definition validate_fence_token :: "string \<Rightarrow> int \<Rightarrow> bool" where
  "validate_fence_token token cur =
     (let parts = split_on (CHR ''-'') token in
      if length parts < 2 then False
      else case parse_int (parts ! 1) of None \<Rightarrow> False | Some e \<Rightarrow> cur \<le> e)"

definition advance_epoch :: "int \<Rightarrow> epoch_manager \<Rightarrow> int \<times> epoch_manager" where
  "advance_epoch now m =
     (let m = m\<lparr>current_epoch := current_epoch m + 1, epoch_start := now\<rparr>;
          m = persist_state m
      in (current_epoch m, m))"

section \<open>Quorum size\<close>

record bootstrap_manager =
  bootstrap_threshold :: int
  bootstrap_stable_hours :: int
  bm_k_target :: int

definition default_bootstrap :: bootstrap_manager where
  "default_bootstrap = \<lparr>bootstrap_threshold = 10, bootstrap_stable_hours = 24, bm_k_target = 5\<rparr>"

definition is_bootstrap_mode :: "bootstrap_manager \<Rightarrow> int \<Rightarrow> bool" where
  "is_bootstrap_mode bm active_verifiers \<longleftrightarrow> active_verifiers < bootstrap_threshold bm"

definition calculate_k_result :: "bootstrap_manager \<Rightarrow> int \<Rightarrow> bool option \<Rightarrow> int" where
  "calculate_k_result bm active_verifiers mode =
     (let bootstrap_mode = (case mode of None \<Rightarrow> is_bootstrap_mode bm active_verifiers | Some b \<Rightarrow> b) in
      if bootstrap_mode then 1
      else let progressive_k = max 2 (py_int (fmul (to_float active_verifiers) (rnd (3 / 10)))) in
        min (bm_k_target bm) progressive_k)"

definition should_exit_bootstrap :: "bootstrap_manager \<Rightarrow> int \<Rightarrow> int \<Rightarrow> bool" where
  "should_exit_bootstrap bm active_verifiers hours_above_threshold \<longleftrightarrow>
     bootstrap_threshold bm \<le> active_verifiers \<and> bootstrap_stable_hours bm \<le> hours_above_threshold"

definition boost_challenge_reward :: "int \<Rightarrow> bool \<Rightarrow> int" where
  "boost_challenge_reward base_reward bootstrap_mode = (if bootstrap_mode then base_reward * 2 else base_reward)"

definition get_k_plan :: "int \<Rightarrow> pyfloat \<Rightarrow> int \<Rightarrow> int" where
  "get_k_plan active_verifiers alpha k_target =
     (let calculated = max 1 (py_int (fmul (to_float active_verifiers) alpha)) in min k_target calculated)"

definition get_k_plan_with_bootstrap :: "int \<Rightarrow> int" where
  "get_k_plan_with_bootstrap active_verifiers =
     calculate_k_result default_bootstrap active_verifiers
       (Some (is_bootstrap_mode default_bootstrap active_verifiers))"

text \<open>One hourly check of the bootstrap monitor; the last component says whether the line
  "BOOTSTRAP EXIT CRITERIA MET" is logged.\<close>

record bootstrap_monitor =
  hours_above_threshold :: int
  last_bootstrap_status :: bool

definition check_bootstrap_status :: "int \<Rightarrow> bootstrap_monitor \<Rightarrow> bootstrap_monitor \<times> bool" where
  "check_bootstrap_status active_verifiers mon =
     (let bm = default_bootstrap;
          is_bootstrap = is_bootstrap_mode bm active_verifiers;
          hours = (if bootstrap_threshold bm \<le> active_verifiers then hours_above_threshold mon + 1 else 0);
          should_exit = should_exit_bootstrap bm active_verifiers hours
      in (mon\<lparr>hours_above_threshold := hours, last_bootstrap_status := is_bootstrap\<rparr>,
          should_exit \<and> is_bootstrap))"

section \<open>Quorum tracking\<close>

record quorum_state =
  qs_need_id :: string
  qs_proposal_id :: string
  attestations :: "string set"
  k_plan_required :: int

definition has_quorum :: "quorum_state \<Rightarrow> bool" where
  "has_quorum q \<longleftrightarrow> k_plan_required q \<le> int (card (attestations q))"

definition add_attestation :: "string \<Rightarrow> quorum_state \<Rightarrow> bool \<times> quorum_state" where
  "add_attestation v q =
     (let was_quorum = has_quorum q;
          q = q\<lparr>attestations := insert v (attestations q)\<rparr>;
          is_quorum = has_quorum q
      in (is_quorum \<and> \<not> was_quorum, q))"

type_synonym quorum_tracker = "(string \<times> string, quorum_state) table"

definition record_attestation ::
  "string \<Rightarrow> string \<Rightarrow> string \<Rightarrow> int \<Rightarrow> quorum_tracker \<Rightarrow> bool \<times> quorum_tracker" where
  "record_attestation need_id proposal_id verifier_id k_plan states =
     (let key = (need_id, proposal_id);
          states = (if \<not> has_key key states
                    then AList.update key \<lparr>qs_need_id = need_id, qs_proposal_id = proposal_id, attestations = {}, k_plan_required = k_plan\<rparr> states
                    else states)
      in case map_of states key of
           None \<Rightarrow> (False, states)
         | Some state \<Rightarrow>
             let (completes, state) = add_attestation verifier_id state
             in (completes, AList.update key state states))"

definition check_quorum :: "string \<Rightarrow> string \<Rightarrow> quorum_tracker \<Rightarrow> bool" where
  "check_quorum need_id proposal_id states =
     (case map_of states (need_id, proposal_id) of None \<Rightarrow> False | Some q \<Rightarrow> has_quorum q)"

definition get_attestation_count :: "string \<Rightarrow> string \<Rightarrow> quorum_tracker \<Rightarrow> nat" where
  "get_attestation_count need_id proposal_id states =
     (case map_of states (need_id, proposal_id) of None \<Rightarrow> 0 | Some q \<Rightarrow> card (attestations q))"

section \<open>Merging after a partition\<close>

text \<open>A DECIDE dictionary: \<open>d["need_id"]\<close> is always there, the other keys may be missing and
  then \<open>d.get\<close> supplies the default.\<close>

record decide =
  dc_need_id :: string
  dc_proposal_id :: "string option"
  dc_epoch :: "int option"
  dc_lamport :: "int option"
  dc_decider_id :: "string option"

datatype side = Local | Remote

record decide_conflict =
  cf_need_id :: string
  cf_local :: decide
  cf_remote :: decide
  cf_winner :: side
  cf_reason :: string

definition get_or :: "'a \<Rightarrow> 'a option \<Rightarrow> 'a" where
  "get_or d x = (case x of None \<Rightarrow> d | Some y \<Rightarrow> y)"

definition highest_epoch_wins :: "decide \<Rightarrow> decide \<Rightarrow> side" where
  "highest_epoch_wins l r =
     (let local_epoch = get_or 0 (dc_epoch l); remote_epoch = get_or 0 (dc_epoch r) in
      if local_epoch \<noteq> remote_epoch then (if local_epoch > remote_epoch then Local else Remote)
      else
        let local_lamport = get_or 0 (dc_lamport l); remote_lamport = get_or 0 (dc_lamport r) in
        if local_lamport \<noteq> remote_lamport then (if local_lamport > remote_lamport then Local else Remote)
        else
          let local_id = get_or [] (dc_decider_id l); remote_id = get_or [] (dc_decider_id r) in
          if local_id < remote_id then Local else Remote)"

text \<open>\<open>{d["need_id"]: d for d in decides}\<close>: a later record replaces an earlier one.\<close>

definition by_need :: "decide list \<Rightarrow> (string, decide) table" where
  "by_need ds = fold (\<lambda>d t. AList.update (dc_need_id d) d t) ds []"

definition conflict_reason :: "decide \<Rightarrow> decide \<Rightarrow> string" where
  "conflict_reason l r =
     ''Epoch '' @ str_of_int (get_or 0 (dc_epoch l)) @ '' vs '' @ str_of_int (get_or 0 (dc_epoch r))"

text \<open>The iteration order of a Python set is unspecified; \<open>order\<close> lists the elements of a set.\<close>

fun merge_needs :: "(string, decide) table \<Rightarrow> (string, decide) table \<Rightarrow> string list \<Rightarrow> decide_conflict list" where
  "merge_needs ls rs [] = []"
| "merge_needs ls rs (n # ns) =
     (let l = the (map_of ls n); r = the (map_of rs n) in
      if dc_proposal_id l = dc_proposal_id r then merge_needs ls rs ns
      else \<lparr>cf_need_id = n, cf_local = l, cf_remote = r, cf_winner = highest_epoch_wins l r,
              cf_reason = conflict_reason l r\<rparr>
           # merge_needs ls rs ns)"

definition merge_on_heal ::
  "(string set \<Rightarrow> string list) \<Rightarrow> decide list \<Rightarrow> decide list \<Rightarrow> decide_conflict list" where
  "merge_on_heal order locals remotes =
     (let local_by_need = by_need locals; remote_by_need = by_need remotes
      in merge_needs local_by_need remote_by_need
           (order (set (keys local_by_need) \<inter> set (keys remote_by_need))))"

section \<open>DECIDE in etcd\<close>

text \<open>The etcd client and SHA-256 are parameters: \<open>txn k v\<close> is the transaction that puts \<open>v\<close> under
  \<open>k\<close> if the key has no create revision, \<open>get\<close> reads a key, \<open>sha256\<close> gives the digest as bytes.
  The stored value is the record itself: \<open>json.loads\<close> inverts \<open>json.dumps\<close> on it.\<close>

record decide_record =
  dr_need_id :: string
  dr_proposal_id :: string
  dr_epoch :: int
  dr_lamport :: int
  dr_k_plan :: int
  dr_decider_id :: string
  dr_timestamp_ns :: int

definition get_bucket_for_need :: "(string \<Rightarrow> nat list) \<Rightarrow> string \<Rightarrow> nat" where
  "get_bucket_for_need sha256 need_id = hd (sha256 need_id)"

definition get_decide_key :: "(string \<Rightarrow> nat list) \<Rightarrow> string \<Rightarrow> string" where
  "get_decide_key sha256 need_id =
     ''/decide/bucket-'' @ pad3 (get_bucket_for_need sha256 need_id) @ ''/'' @ need_id"

definition try_decide ::
  "(string \<Rightarrow> nat list) \<Rightarrow> (string \<Rightarrow> decide_record \<Rightarrow> 'e \<Rightarrow> bool \<times> 'e) \<Rightarrow> (string \<Rightarrow> 'e \<Rightarrow> decide_record option)
     \<Rightarrow> int \<Rightarrow> decide_record \<Rightarrow> 'e \<Rightarrow> decide_record option \<times> 'e" where
  "try_decide sha256 txn get cur record etcd =
     (if dr_epoch record < cur then (None, etcd)
      else let key = get_decide_key sha256 (dr_need_id record) in
        case txn key record etcd of
          (True, etcd) \<Rightarrow> (Some record, etcd)
        | (False, etcd) \<Rightarrow>
            (case get key etcd of
               None \<Rightarrow> (None, etcd)
             | Some existing \<Rightarrow>
                 if dr_proposal_id existing = dr_proposal_id record \<and> dr_epoch existing = dr_epoch record
                 then (Some record, etcd) else (None, etcd)))"

definition get_decide ::
  "(string \<Rightarrow> nat list) \<Rightarrow> (string \<Rightarrow> 'e \<Rightarrow> decide_record option) \<Rightarrow> string \<Rightarrow> 'e \<Rightarrow> decide_record option" where
  "get_decide sha256 get need_id etcd = get (get_decide_key sha256 need_id) etcd"

end
