(* ===== verification/ConsensusProps.thy ===== *)
theory ConsensusProps
  imports Consensus "HOL-Library.Product_Lexorder"
begin

text \<open>
  Correctness of the consensus core: fencing tokens expire exactly when the epoch advances, the
  quorum sizes computed in floating point, one completion per quorum, agreement of the merge rule
  on both sides of a partition, and at most one DECIDE per need.
\<close>

section \<open>Epochs\<close>

datatype epoch_cmd = Advance int | Restart int

fun epoch_step :: "epoch_cmd \<Rightarrow> epoch_manager \<Rightarrow> unit + epoch_manager" where
  "epoch_step (Advance now) m = Inr (snd (advance_epoch now m))"
| "epoch_step (Restart now) m = Inr (load_or_init_state now (epoch_db m))"

definition epoch_ok :: "epoch_manager \<Rightarrow> bool" where
  "epoch_ok m \<longleftrightarrow> 1 \<le> current_epoch m \<and> epoch_db m = Some (current_epoch m, epoch_start m, coordinator_id m)"

lemma advance_epoch_simps:
  "current_epoch (snd (advance_epoch now m)) = current_epoch m + 1"
  "epoch_ok m \<Longrightarrow> epoch_ok (snd (advance_epoch now m))"
  by (auto simp: advance_epoch_def persist_state_def epoch_ok_def)

lemma restart_same: "epoch_ok m \<Longrightarrow> load_or_init_state now (epoch_db m) = m"
  by (simp add: epoch_ok_def load_or_init_state_def)

interpretation epochs: monotone_machine epoch_step epoch_ok current_epoch
proof
  fix m c m'
  assume "epoch_ok m" "epoch_step c m = Inr m'"
  then show "epoch_ok m'" and "current_epoch m \<le> current_epoch m'"
    by (cases c; auto simp: restart_same advance_epoch_simps)+
qed

lemma epoch_ok_init: "epoch_ok (load_or_init_state now None)"
  by (simp add: load_or_init_state_def persist_state_def epoch_ok_def)

fun advances :: "epoch_cmd list \<Rightarrow> nat" where
  "advances [] = 0"
| "advances (Advance now # cs) = Suc (advances cs)"
| "advances (Restart now # cs) = advances cs"

lemma epoch_after_run:
  "epoch_ok m \<Longrightarrow> current_epoch (run_cmds epoch_step cs m) = current_epoch m + int (advances cs)"
proof (induction cs arbitrary: m)
  case (Cons c cs)
  then show ?case
    by (cases c) (auto simp: attempt_def restart_same advance_epoch_simps)
qed simp

lemma validate_create:
  assumes "0 \<le> e"
  shows "validate_fence_token (create_fence_token (Some e) m) cur \<longleftrightarrow> cur \<le> e"
proof -
  have "create_fence_token (Some e) m =
      ''epoch'' @ CHR ''-'' # (str_of_nat (nat e) @ CHR ''-'' # str_of_int (epoch_start m))"
    using assms by (simp add: create_fence_token_def str_of_int_def)
  then have "split_on (CHR ''-'') (create_fence_token (Some e) m) =
      ''epoch'' # str_of_nat (nat e) # split_on (CHR ''-'') (str_of_int (epoch_start m))"
    by (simp only:) (simp add: split_on_append dash_not_in_str)
  with assms show ?thesis
    by (simp add: validate_fence_token_def parse_int_str)
qed

text \<open>Fencing tokens expire exactly when they should: a token created for the current epoch of
  any reachable epoch manager, printed as a string and parsed again, is valid against the epoch
  reached later if and only if the epoch has not been advanced in between, however often the
  process was restarted on its database.\<close>

theorem fence_tokens_expire:
  "let m = run_cmds epoch_step cs (load_or_init_state now None) in
     validate_fence_token (create_fence_token None m) (current_epoch (run_cmds epoch_step cs' m)) \<longleftrightarrow>
       advances cs' = 0"
proof -
  define m where "m = run_cmds epoch_step cs (load_or_init_state now None)"
  have ok: "epoch_ok m" unfolding m_def using epoch_ok_init by (rule epochs.run_inv)
  have "create_fence_token None m = create_fence_token (Some (current_epoch m)) m"
    by (simp add: create_fence_token_def)
  then have "validate_fence_token (create_fence_token None m) (current_epoch (run_cmds epoch_step cs' m)) \<longleftrightarrow> advances cs' = 0"
    using ok by (simp add: validate_create epoch_after_run epoch_ok_def)
  then show ?thesis by (simp add: m_def Let_def)
qed

section \<open>Quorum size\<close>

definition three_tenths_of :: "int \<Rightarrow> int" where
  "three_tenths_of n = py_int (fmul (to_float n) (rnd (3 / 10)))"

lemma three_tenths_small:
  "three_tenths_of 0 = 0"
  "three_tenths_of 1 = 0"
  "three_tenths_of 2 = 0"
  "three_tenths_of 3 = 0"
  "three_tenths_of 4 = 1"
  "three_tenths_of 5 = 1"
  "three_tenths_of 6 = 1"
  "three_tenths_of 7 = 2"
  "three_tenths_of 8 = 2"
  "three_tenths_of 9 = 2"
  "three_tenths_of 10 = 3"
  "three_tenths_of 11 = 3"
  "three_tenths_of 12 = 3"
  "three_tenths_of 13 = 3"
  "three_tenths_of 14 = 4"
  "three_tenths_of 15 = 4"
  "three_tenths_of 16 = 4"
  by code_simp+

lemma three_tenths:
  assumes "0 \<le> n" and "n \<le> 2 ^ 53"
  shows "min 5 (py_int (fmul (to_float n) (rnd (3 / 10)))) = min 5 (3 * n div 10)"
proof (cases "n \<le> 16")
  case True
  have "\<forall>m \<in> set [0..16]. three_tenths_of m = 3 * m div 10"
    by (simp add: upto.simps three_tenths_small)
  with True assms(1) have "three_tenths_of n = 3 * n div 10" by simp
  then show ?thesis by (simp add: three_tenths_of_def)
next
  case False
  have q: "5 / 17 \<le> rnd (3 / 10)" by code_simp
  have "17 \<le> rat_of_int n" using False by linarith
  then have "17 * (5 / 17) \<le> rat_of_int n * rnd (3 / 10)"
    using q by (intro mult_mono) simp_all
  then have "rat_of_int 5 \<le> rat_of_int n * rnd (3 / 10)" by simp
  then have "rat_of_int 5 \<le> fmul (to_float n) (rnd (3 / 10))"
    using assms rnd_ge_int [of 5 "rat_of_int n * rnd (3 / 10)"] by (simp add: fmul_def to_float_exact)
  then have "5 \<le> py_int (fmul (to_float n) (rnd (3 / 10)))" by (rule py_int_ge) simp
  moreover have "5 \<le> 3 * n div 10" using False by presburger
  ultimately show ?thesis by simp
qed

text \<open>The quorum sizes are the documented ones for every number of verifiers, although they are
  computed with the float 0.3: K is the minimum of 5 and 30 percent of the verifiers rounded down,
  at least 1 (at least 2 outside bootstrap mode, exactly 1 inside), it never decreases when verifiers
  join, and it never exceeds the number of verifiers there are.\<close>

theorem quorum_size_exact:
  assumes "0 \<le> n" and "n \<le> 2 ^ 53"
  shows "get_k_plan n (rnd (3 / 10)) 5 = min 5 (max 1 (3 * n div 10)) \<and>
    get_k_plan_with_bootstrap n = (if n < 10 then 1 else min 5 (max 2 (3 * n div 10))) \<and>
    calculate_k_result default_bootstrap n None = get_k_plan_with_bootstrap n \<and>
    (0 < n \<longrightarrow> get_k_plan n (rnd (3 / 10)) 5 \<le> n \<and> get_k_plan_with_bootstrap n \<le> n) \<and>
    (\<forall>m. 0 \<le> m \<and> m \<le> n \<longrightarrow> get_k_plan m (rnd (3 / 10)) 5 \<le> get_k_plan n (rnd (3 / 10)) 5 \<and>
       get_k_plan_with_bootstrap m \<le> get_k_plan_with_bootstrap n)"
proof -
  have k: "get_k_plan m (rnd (3 / 10)) 5 = min 5 (max 1 (3 * m div 10))" if "0 \<le> m" "m \<le> 2 ^ 53" for m
    using three_tenths [OF that] by (simp add: get_k_plan_def Let_def min_def max_def split: if_splits)
  have b: "get_k_plan_with_bootstrap m = (if m < 10 then 1 else min 5 (max 2 (3 * m div 10)))"
    if "0 \<le> m" "m \<le> 2 ^ 53" for m
    using three_tenths [OF that]
    by (simp add: get_k_plan_with_bootstrap_def calculate_k_result_def default_bootstrap_def
        is_bootstrap_mode_def Let_def min_def max_def split: if_splits)
  have "calculate_k_result default_bootstrap n None = get_k_plan_with_bootstrap n"
    by (simp add: get_k_plan_with_bootstrap_def calculate_k_result_def)
  moreover have "0 < n \<longrightarrow> min 5 (max 1 (3 * n div 10)) \<le> n \<and> (if n < 10 then 1 else min 5 (max 2 (3 * n div 10))) \<le> n"
    using assms by auto
  moreover have "min 5 (max 1 (3 * m div 10)) \<le> min 5 (max 1 (3 * n div 10)) \<and>
      (if m < 10 then 1 else min 5 (max 2 (3 * m div 10))) \<le> (if n < 10 then 1 else min 5 (max 2 (3 * n div 10)))"
    if "0 \<le> m" "m \<le> n" for m
  proof -
    have "3 * m div 10 \<le> 3 * n div 10" using that by (intro zdiv_mono1) auto
    then show ?thesis using that by auto
  qed
  ultimately show ?thesis using assms k b by simp
qed

theorem quorum_size_exact_witness:
  "get_k_plan 10 (rnd (3 / 10)) 5 = 3 \<and> get_k_plan_with_bootstrap 20 = 5"
  using quorum_size_exact [of 10] quorum_size_exact [of 20] by simp

text \<open>The stability requirement of the bootstrap phase has no effect: K leaves its bootstrap value
  as soon as there are ten verifiers, whatever the number of hours above the threshold, and the
  monitor's exit message can never be logged, because its two conditions exclude each other.\<close>

theorem bootstrap_exit_unreachable:
  "\<not> snd (check_bootstrap_status n mon) \<and>
   (should_exit_bootstrap default_bootstrap n h \<longrightarrow> \<not> is_bootstrap_mode default_bootstrap n) \<and>
   (10 \<le> n \<longrightarrow> 2 \<le> calculate_k_result default_bootstrap n None)"
  by (auto simp: check_bootstrap_status_def should_exit_bootstrap_def is_bootstrap_mode_def
      default_bootstrap_def calculate_k_result_def Let_def)

theorem bootstrap_exit_unreachable_witness:
  "2 \<le> calculate_k_result default_bootstrap 10 None \<and> \<not> is_bootstrap_mode default_bootstrap 12"
proof -
  have "should_exit_bootstrap default_bootstrap 12 30"
    by (simp add: should_exit_bootstrap_def default_bootstrap_def)
  then show ?thesis using bootstrap_exit_unreachable [of 10] bootstrap_exit_unreachable [of 12 _ 30] by simp
qed

section \<open>Quorum completion\<close>

type_synonym attest_event = "(string \<times> string) \<times> string \<times> int"

definition attest_step ::
  "attest_event \<Rightarrow> ((string \<times> string) \<times> bool) list \<times> quorum_tracker \<Rightarrow> ((string \<times> string) \<times> bool) list \<times> quorum_tracker" where
  "attest_step ev s =
     (case ev of ((n, p), v, k) \<Rightarrow>
        let (completes, states) = record_attestation n p v k (snd s)
        in (fst s @ [((n, p), completes)], states))"

definition attest_run :: "attest_event list \<Rightarrow> ((string \<times> string) \<times> bool) list \<times> quorum_tracker" where
  "attest_run evs = fold attest_step evs ([], [])"

text \<open>What a list of attestations says about one proposal: who attested, and the quorum size
  given with the first attestation.\<close>

definition attestors :: "string \<times> string \<Rightarrow> attest_event list \<Rightarrow> string set" where
  "attestors key evs = {v. \<exists>k. (key, v, k) \<in> set evs}"

definition required :: "string \<times> string \<Rightarrow> attest_event list \<Rightarrow> int option" where
  "required key evs = map_option (\<lambda>(_, _, k). k) (List.find (\<lambda>(key', _). key' = key) evs)"

definition quorum_reached :: "string \<times> string \<Rightarrow> attest_event list \<Rightarrow> bool" where
  "quorum_reached key evs \<longleftrightarrow>
     (case required key evs of None \<Rightarrow> False | Some k \<Rightarrow> k \<le> int (card (attestors key evs)))"

lemma attestors_snoc: "attestors key (evs @ [(key', v, k)]) = (if key' = key then insert v (attestors key evs) else attestors key evs)"
  by (auto simp: attestors_def)

lemma find_snoc: "List.find P (xs @ [x]) = (case List.find P xs of None \<Rightarrow> if P x then Some x else None | Some y \<Rightarrow> Some y)"
  by (induction xs) auto

lemma required_snoc: "required key (evs @ [(key', v, k)]) =
    (case required key evs of None \<Rightarrow> if key' = key then Some k else None | Some k \<Rightarrow> Some k)"
  by (auto simp: required_def find_snoc split: option.splits)

lemma required_None: "required key evs = None \<Longrightarrow> attestors key evs = {}"
  by (cases key) (fastforce simp: required_def attestors_def find_None_iff)

lemma finite_attestors [simp]: "finite (attestors key evs)"
proof -
  have "attestors key evs \<subseteq> (\<lambda>(_, v, _). v) ` set evs" by (force simp: attestors_def)
  then show ?thesis by (rule finite_subset) simp
qed

definition tracked :: "string \<times> string \<Rightarrow> attest_event list \<Rightarrow> quorum_state option" where
  "tracked key evs = map_option (\<lambda>k. \<lparr>qs_need_id = fst key, qs_proposal_id = snd key,
     attestations = attestors key evs, k_plan_required = k\<rparr>) (required key evs)"

lemma record_attestation_spec:
  assumes "map_of states (n, p) = tracked (n, p) evs"
  shows "fst (record_attestation n p v k states) =
      (quorum_reached (n, p) (evs @ [((n, p), v, k)]) \<and>
       (case required (n, p) evs of None \<Rightarrow> 0 < k | Some k' \<Rightarrow> int (card (attestors (n, p) evs)) < k'))"
    and "map_of (snd (record_attestation n p v k states)) key =
      (if key = (n, p) then tracked (n, p) (evs @ [((n, p), v, k)]) else map_of states key)"
proof -
  show "fst (record_attestation n p v k states) =
      (quorum_reached (n, p) (evs @ [((n, p), v, k)]) \<and>
       (case required (n, p) evs of None \<Rightarrow> 0 < k | Some k' \<Rightarrow> int (card (attestors (n, p) evs)) < k'))"
  proof (cases "required (n, p) evs")
    case None
    then show ?thesis
      using assms required_None [OF None]
      by (auto simp: record_attestation_def tracked_def has_key_def add_attestation_def has_quorum_def
          quorum_reached_def required_snoc attestors_snoc Let_def)
  next
    case (Some k')
    then show ?thesis
      using assms
      by (auto simp: record_attestation_def tracked_def has_key_def add_attestation_def has_quorum_def
          quorum_reached_def required_snoc attestors_snoc Let_def)
  qed
  show "map_of (snd (record_attestation n p v k states)) key =
      (if key = (n, p) then tracked (n, p) (evs @ [((n, p), v, k)]) else map_of states key)"
  proof (cases "required (n, p) evs")
    case None
    then show ?thesis
      using assms required_None [OF None]
      by (auto simp: record_attestation_def tracked_def has_key_def add_attestation_def
          required_snoc attestors_snoc Let_def)
  next
    case (Some k')
    then show ?thesis
      using assms
      by (auto simp: record_attestation_def tracked_def has_key_def add_attestation_def
          required_snoc attestors_snoc Let_def)
  qed
qed

lemma attest_run_snoc:
  "attest_run (evs @ [((n, p), v, k)]) =
     (fst (attest_run evs) @ [((n, p), fst (record_attestation n p v k (snd (attest_run evs))))],
      snd (record_attestation n p v k (snd (attest_run evs))))"
  by (simp add: attest_run_def attest_step_def split_def Let_def)

lemma attest_run_states: "map_of (snd (attest_run evs)) key = tracked key evs"
proof (induction evs arbitrary: key rule: rev_induct)
  case Nil
  then show ?case by (simp add: attest_run_def tracked_def required_def)
next
  case (snoc e evs)
  obtain n p v k where e: "e = ((n, p), v, k)" by (metis surj_pair)
  show ?case
    unfolding e attest_run_snoc snd_conv record_attestation_spec(2) [OF snoc]
    by (auto simp: snoc tracked_def required_snoc attestors_snoc split: option.splits)
qed

definition completions :: "string \<times> string \<Rightarrow> attest_event list \<Rightarrow> nat" where
  "completions key evs = length (filter (\<lambda>(key', done). key' = key \<and> done) (fst (attest_run evs)))"

lemma quorum_reached_snoc_same:
  "quorum_reached key (evs @ [(key, v, k)]) \<longleftrightarrow>
     (case required key evs of None \<Rightarrow> k \<le> 1 | Some k' \<Rightarrow> k' \<le> int (card (insert v (attestors key evs))))"
  by (auto simp: quorum_reached_def required_snoc attestors_snoc required_None split: option.splits)

text \<open>A quorum is completed exactly once: after any sequence of attestations, repeated and for any
  proposals, \<open>record_attestation\<close> has returned true for a proposal once if the verifiers that attested
  it, each counted once, are at least as many as the quorum size given with its first attestation, and
  never otherwise; the count and \<open>check_quorum\<close> agree with this.  With a quorum size of zero or less
  it never returns true although \<open>check_quorum\<close> answers yes.\<close>

theorem quorum_completes_once:
  "completions (n, p) evs = (if quorum_reached (n, p) evs \<and> (\<exists>k. required (n, p) evs = Some k \<and> 0 < k) then 1 else 0) \<and>
   check_quorum n p (snd (attest_run evs)) = quorum_reached (n, p) evs \<and>
   get_attestation_count n p (snd (attest_run evs)) = card (attestors (n, p) evs)"
proof -
  have "completions key evs = (if quorum_reached key evs \<and> (\<exists>k. required key evs = Some k \<and> 0 < k) then 1 else 0)" for key
  proof (induction evs rule: rev_induct)
    case Nil
    then show ?case by (simp add: completions_def attest_run_def quorum_reached_def required_def)
  next
    case (snoc e evs)
    obtain n p v k where e: "e = ((n, p), v, k)" by (metis surj_pair)
    have c: "completions key (evs @ [e]) = completions key evs +
        (if (n, p) = key \<and> fst (record_attestation n p v k (snd (attest_run evs))) then 1 else 0)"
      unfolding e completions_def attest_run_snoc by auto
    show ?case
    proof (cases "(n, p) = key")
      case False
      then have "quorum_reached key (evs @ [e]) = quorum_reached key evs" "required key (evs @ [e]) = required key evs"
        by (auto simp: e quorum_reached_def required_snoc attestors_snoc split: option.splits)
      with False c snoc show ?thesis by simp
    next
      case True
      have r: "fst (record_attestation n p v k (snd (attest_run evs))) =
          (quorum_reached (n, p) (evs @ [((n, p), v, k)]) \<and>
           (case required (n, p) evs of None \<Rightarrow> 0 < k | Some k' \<Rightarrow> int (card (attestors (n, p) evs)) < k'))"
        using attest_run_states by (rule record_attestation_spec(1))
      show ?thesis
      proof (cases "required key evs")
        case None
        then have "quorum_reached key evs = False" by (simp add: quorum_reached_def)
        with None True c snoc r show ?thesis by (auto simp: e required_snoc)
      next
        case (Some k')
        have "card (attestors key evs) \<le> card (insert v (attestors key evs))" by (rule card_mono) auto
        with Some True c snoc r show ?thesis
          by (auto simp: e required_snoc quorum_reached_snoc_same) (auto simp: quorum_reached_def)
      qed
    qed
  qed
  moreover have "check_quorum n p (snd (attest_run evs)) = quorum_reached (n, p) evs"
    by (auto simp: check_quorum_def attest_run_states tracked_def quorum_reached_def has_quorum_def split: option.splits)
  moreover have "get_attestation_count n p (snd (attest_run evs)) = card (attestors (n, p) evs)"
    by (auto simp: get_attestation_count_def attest_run_states tracked_def required_None split: option.splits)
  ultimately show ?thesis by blast
qed

section \<open>Merging\<close>

definition decide_rank :: "decide \<Rightarrow> int \<times> int \<times> string" where
  "decide_rank d = (- get_or 0 (dc_epoch d), - get_or 0 (dc_lamport d), get_or [] (dc_decider_id d))"

lemma highest_epoch_wins_iff: "highest_epoch_wins l r = Local \<longleftrightarrow> decide_rank l < decide_rank r"
  by (auto simp: highest_epoch_wins_def decide_rank_def Let_def)

abbreviation local_wins :: "decide \<Rightarrow> decide \<Rightarrow> bool" where
  "local_wins l r \<equiv> highest_epoch_wins l r = Local"

interpretation merge: ranked_choice local_wins decide_rank
  by unfold_locales (rule highest_epoch_wins_iff)

text \<open>Merging many partitions needs no order: when the DECIDE records carry pairwise different
  (epoch, lamport, decider), combining them two at a time with \<open>highest_epoch_wins\<close> gives the same
  record for every order in which the partitions heal, and it is a record no other one beats.\<close>

theorem merge_order_irrelevant:
  assumes "set (d # ds) = set (e # es)" and "inj_on decide_rank (set (d # ds))"
  shows "pick_best (\<lambda>l r. highest_epoch_wins l r = Local) d ds = pick_best (\<lambda>l r. highest_epoch_wins l r = Local) e es \<and>
    (\<forall>x \<in> set (d # ds). highest_epoch_wins x (pick_best (\<lambda>l r. highest_epoch_wins l r = Local) d ds) = Remote)"
proof -
  have "highest_epoch_wins x (pick_best local_wins d ds) = Remote" if "x \<in> set (d # ds)" for x
  proof -
    have "\<not> decide_rank x < decide_rank (pick_best local_wins d ds)"
      using merge.pick_best_least [OF that] by simp
    then have "highest_epoch_wins x (pick_best local_wins d ds) \<noteq> Local"
      by (simp only: highest_epoch_wins_iff not_False_eq_True)
    then show ?thesis by (cases "highest_epoch_wins x (pick_best local_wins d ds)") (iprover, assumption)
  qed
  with merge.pick_best_order [OF assms] show ?thesis by (intro conjI ballI)
qed

theorem merge_order_irrelevant_witness:
  "let a = \<lparr>dc_need_id = ''n'', dc_proposal_id = Some ''p'', dc_epoch = Some 2, dc_lamport = Some 7, dc_decider_id = Some ''x''\<rparr>;
       b = \<lparr>dc_need_id = ''n'', dc_proposal_id = Some ''q'', dc_epoch = Some 3, dc_lamport = Some 1, dc_decider_id = None\<rparr>
   in pick_best (\<lambda>l r. highest_epoch_wins l r = Local) a [b] = pick_best (\<lambda>l r. highest_epoch_wins l r = Local) b [a]"
proof -
  let ?a = "\<lparr>dc_need_id = ''n'', dc_proposal_id = Some ''p'', dc_epoch = Some 2, dc_lamport = Some 7, dc_decider_id = Some ''x''\<rparr>"
  let ?b = "\<lparr>dc_need_id = ''n'', dc_proposal_id = Some ''q'', dc_epoch = Some 3, dc_lamport = Some 1, dc_decider_id = None\<rparr>"
  have "set (?a # [?b]) = set (?b # [?a])" by auto
  moreover have "inj_on decide_rank (set (?a # [?b]))" by (auto simp: inj_on_def decide_rank_def get_or_def)
  ultimately show ?thesis unfolding Let_def by (rule merge_order_irrelevant [THEN conjunct1])
qed

lemma set_merge_needs:
  "c \<in> set (merge_needs ls rs ns) \<longleftrightarrow>
     (\<exists>n l r. n \<in> set ns \<and> l = the (map_of ls n) \<and> r = the (map_of rs n) \<and> dc_proposal_id l \<noteq> dc_proposal_id r \<and>
        c = \<lparr>cf_need_id = n, cf_local = l, cf_remote = r, cf_winner = highest_epoch_wins l r,
             cf_reason = conflict_reason l r\<rparr>)"
  by (induction ns) (auto simp: Let_def)

lemma merge_on_heal_iff:
  assumes "lists_sets order"
  shows "c \<in> set (merge_on_heal order ls rs) \<longleftrightarrow>
    map_of (by_need ls) (cf_need_id c) = Some (cf_local c) \<and> map_of (by_need rs) (cf_need_id c) = Some (cf_remote c) \<and>
    dc_proposal_id (cf_local c) \<noteq> dc_proposal_id (cf_remote c) \<and>
    cf_winner c = highest_epoch_wins (cf_local c) (cf_remote c) \<and>
    cf_reason c = conflict_reason (cf_local c) (cf_remote c)"
proof -
  have s: "set (order (set (keys (by_need ls)) \<inter> set (keys (by_need rs)))) = set (keys (by_need ls)) \<inter> set (keys (by_need rs))"
    using assms by (simp add: lists_sets_def)
  have k: "n \<in> set (keys t) \<longleftrightarrow> (\<exists>d. map_of t n = Some d)" for n and t :: "(string, decide) table"
    by (metis map_of_eq_None_iff not_None_eq set_map)
  show ?thesis
    unfolding merge_on_heal_def Let_def set_merge_needs s Int_iff k
    by (cases c) (simp only: decide_conflict.simps, force)
qed

definition winning_decide :: "decide_conflict \<Rightarrow> decide" where
  "winning_decide c = (case cf_winner c of Local \<Rightarrow> cf_local c | Remote \<Rightarrow> cf_remote c)"

text \<open>Claim C9. Both sides of a healed partition decide alike: every conflict one side finds, the other side
  finds as well with the roles exchanged, and both keep the same record, unless the two records
  agree in epoch, lamport and decider; then each side keeps the other's record and the plans
  diverge.  This holds for any iteration order of Python's sets.\<close>

theorem heal_agreement:
  assumes "lists_sets order" and "lists_sets order'" and "c \<in> set (merge_on_heal order ls rs)"
  shows "\<exists>c' \<in> set (merge_on_heal order' rs ls). cf_need_id c' = cf_need_id c \<and>
    cf_local c' = cf_remote c \<and> cf_remote c' = cf_local c \<and>
    (if decide_rank (cf_local c) = decide_rank (cf_remote c)
     then winning_decide c = cf_remote c \<and> winning_decide c' = cf_local c \<and> winning_decide c \<noteq> winning_decide c'
     else winning_decide c' = winning_decide c)"
proof -
  let ?c' = "\<lparr>cf_need_id = cf_need_id c, cf_local = cf_remote c, cf_remote = cf_local c,
     cf_winner = highest_epoch_wins (cf_remote c) (cf_local c),
     cf_reason = conflict_reason (cf_remote c) (cf_local c)\<rparr>"
  have c: "map_of (by_need ls) (cf_need_id c) = Some (cf_local c)" "map_of (by_need rs) (cf_need_id c) = Some (cf_remote c)"
    "dc_proposal_id (cf_local c) \<noteq> dc_proposal_id (cf_remote c)" "cf_winner c = highest_epoch_wins (cf_local c) (cf_remote c)"
    using assms(3) merge_on_heal_iff [OF assms(1)] by blast+
  have m: "?c' \<in> set (merge_on_heal order' rs ls)"
    using c by (simp add: merge_on_heal_iff [OF assms(2)])
  have w: "highest_epoch_wins a b = (if decide_rank a < decide_rank b then Local else Remote)" for a b
    using highest_epoch_wins_iff [of a b] by (cases "highest_epoch_wins a b") auto
  show ?thesis
  proof (rule bexI [OF _ m], intro conjI)
    let ?a = "cf_local c" and ?b = "cf_remote c"
    have win: "winning_decide c = (if decide_rank ?a < decide_rank ?b then ?a else ?b)"
      "winning_decide ?c' = (if decide_rank ?b < decide_rank ?a then ?b else ?a)"
      using c(4) by (simp_all add: winning_decide_def w)
    have "?a \<noteq> ?b" using c(3) by auto
    then show "if decide_rank ?a = decide_rank ?b
      then winning_decide c = ?b \<and> winning_decide ?c' = ?a \<and> winning_decide c \<noteq> winning_decide ?c'
      else winning_decide ?c' = winning_decide c"
      unfolding win using linorder_less_linear [of "decide_rank ?a" "decide_rank ?b"] by auto
  qed simp_all
qed

theorem heal_agreement_witness:
  "\<exists>c' \<in> set (merge_on_heal sorted_list_of_set
        [\<lparr>dc_need_id = ''n'', dc_proposal_id = Some ''q'', dc_epoch = Some 1, dc_lamport = Some 4, dc_decider_id = Some ''a''\<rparr>]
        [\<lparr>dc_need_id = ''n'', dc_proposal_id = Some ''p'', dc_epoch = Some 2, dc_lamport = Some 3, dc_decider_id = Some ''a''\<rparr>]).
     dc_proposal_id (winning_decide c') = Some ''p''"
  (is "\<exists>c' \<in> set (merge_on_heal _ [?a] [?b]). _")
proof -
  have o: "lists_sets sorted_list_of_set" by (simp add: lists_sets_def)
  let ?c = "\<lparr>cf_need_id = ''n'', cf_local = ?b, cf_remote = ?a, cf_winner = Local, cf_reason = conflict_reason ?b ?a\<rparr>"
  have "?c \<in> set (merge_on_heal sorted_list_of_set [?b] [?a])"
    unfolding merge_on_heal_iff [OF o] by (simp add: by_need_def highest_epoch_wins_def get_or_def)
  from heal_agreement [OF o o this] obtain c' where
    "c' \<in> set (merge_on_heal sorted_list_of_set [?a] [?b])" "winning_decide c' = winning_decide ?c"
    by (auto simp: decide_rank_def get_or_def)
  moreover have "winning_decide ?c = ?b" by (simp add: winning_decide_def)
  ultimately show ?thesis by (intro bexI [of _ c']) simp_all
qed

section \<open>At most one DECIDE\<close>

text \<open>The documented behaviour of etcd: the transaction succeeds and writes exactly when the key is absent;
  it touches no other key.  The digest is a non-empty list of bytes.\<close>

definition etcd_laws ::
  "(string \<Rightarrow> decide_record \<Rightarrow> 'e \<Rightarrow> bool \<times> 'e) \<Rightarrow> (string \<Rightarrow> 'e \<Rightarrow> decide_record option) \<Rightarrow> bool" where
  "etcd_laws txn get \<longleftrightarrow>
     (\<forall>k v e. fst (txn k v e) = (get k e = None) \<and>
        get k (snd (txn k v e)) = (case get k e of None \<Rightarrow> Some v | Some w \<Rightarrow> Some w) \<and>
        (\<forall>k'. k' \<noteq> k \<longrightarrow> get k' (snd (txn k v e)) = get k' e))"

definition byte_digest :: "(string \<Rightarrow> nat list) \<Rightarrow> bool" where
  "byte_digest sha256 \<longleftrightarrow> (\<forall>s. sha256 s \<noteq> [] \<and> hd (sha256 s) < 256)"

fun decide_run ::
  "(string \<Rightarrow> nat list) \<Rightarrow> (string \<Rightarrow> decide_record \<Rightarrow> 'e \<Rightarrow> bool \<times> 'e) \<Rightarrow> (string \<Rightarrow> 'e \<Rightarrow> decide_record option)
     \<Rightarrow> (int \<times> decide_record) list \<Rightarrow> 'e \<Rightarrow> decide_record list \<times> 'e" where
  "decide_run sha256 txn get [] e = ([], e)"
| "decide_run sha256 txn get ((cur, r) # rs) e =
     (let (res, e) = try_decide sha256 txn get cur r e;
          (accepted, e) = decide_run sha256 txn get rs e
      in ((case res of None \<Rightarrow> [] | Some d \<Rightarrow> [d]) @ accepted, e))"

lemma decide_key_inj:
  assumes "byte_digest sha256" and "get_decide_key sha256 n = get_decide_key sha256 m"
  shows "n = m"
proof -
  have len: "length (pad3 (get_bucket_for_need sha256 s)) = 3" for s
  proof -
    have "get_bucket_for_need sha256 s < 256" using assms(1) by (simp add: byte_digest_def get_bucket_for_need_def)
    then show ?thesis by (intro length_pad3) simp
  qed
  have "drop 19 (get_decide_key sha256 s) = s" for s
    using len [of s] by (simp add: get_decide_key_def)
  with assms(2) show ?thesis by metis
qed

lemma try_decide_state:
  "snd (try_decide sha256 txn get cur r e) \<in> {e, snd (txn (get_decide_key sha256 (dr_need_id r)) r e)}"
  by (cases "txn (get_decide_key sha256 (dr_need_id r)) r e")
     (auto simp: try_decide_def Let_def split: option.splits bool.splits)

lemma try_decide_keeps:
  assumes "etcd_laws txn get" and "get k e = Some d"
  shows "get k (snd (try_decide sha256 txn get cur r e)) = Some d"
proof -
  have "get k (snd (txn k' r e)) = Some d" for k'
    using assms by (cases "k' = k") (auto simp: etcd_laws_def)
  then show ?thesis
    using assms(2) try_decide_state [of sha256 txn get cur r e] by auto
qed

lemma decide_run_keeps:
  "etcd_laws txn get \<Longrightarrow> get k e = Some d \<Longrightarrow> get k (snd (decide_run sha256 txn get rs e)) = Some d"
proof (induction rs arbitrary: e)
  case (Cons cr rs)
  obtain cur r where cr: "cr = (cur, r)" by (cases cr)
  from Cons.IH [OF Cons.prems(1) try_decide_keeps [OF Cons.prems, of sha256 cur r]] show ?case
    by (simp add: cr Let_def split_def)
qed simp

lemma try_decide_accepted:
  assumes "etcd_laws txn get" and "try_decide sha256 txn get cur r e = (Some d, e')"
  shows "d = r \<and> cur \<le> dr_epoch r \<and> (\<exists>s. get (get_decide_key sha256 (dr_need_id r)) e' = Some s \<and>
    dr_proposal_id s = dr_proposal_id r \<and> dr_epoch s = dr_epoch r)"
proof (cases "get (get_decide_key sha256 (dr_need_id r)) e")
  case None
  then have "fst (txn (get_decide_key sha256 (dr_need_id r)) r e)"
    "get (get_decide_key sha256 (dr_need_id r)) (snd (txn (get_decide_key sha256 (dr_need_id r)) r e)) = Some r"
    using assms(1) by (auto simp: etcd_laws_def)
  with assms(2) show ?thesis
    by (cases "txn (get_decide_key sha256 (dr_need_id r)) r e") (auto simp: try_decide_def Let_def split: if_splits)
next
  case (Some s)
  then have "\<not> fst (txn (get_decide_key sha256 (dr_need_id r)) r e)"
    "get (get_decide_key sha256 (dr_need_id r)) (snd (txn (get_decide_key sha256 (dr_need_id r)) r e)) = Some s"
    using assms(1) by (auto simp: etcd_laws_def)
  with assms(2) show ?thesis
    by (cases "txn (get_decide_key sha256 (dr_need_id r)) r e") (auto simp: try_decide_def Let_def split: if_splits)
qed

lemma decide_run_accepted:
  assumes "etcd_laws txn get" and "d \<in> set (fst (decide_run sha256 txn get rs e))"
  shows "\<exists>s. get_decide sha256 get (dr_need_id d) (snd (decide_run sha256 txn get rs e)) = Some s \<and>
    dr_proposal_id s = dr_proposal_id d \<and> dr_epoch s = dr_epoch d \<and> (\<exists>cur. (cur, d) \<in> set rs \<and> cur \<le> dr_epoch d)"
  using assms(2)
proof (induction rs arbitrary: e)
  case (Cons cr rs)
  obtain cur r where cr: "cr = (cur, r)" by (cases cr)
  obtain res e1 where t: "try_decide sha256 txn get cur r e = (res, e1)" by fastforce
  have run: "fst (decide_run sha256 txn get (cr # rs) e) = (case res of None \<Rightarrow> [] | Some d \<Rightarrow> [d]) @ fst (decide_run sha256 txn get rs e1)"
    "snd (decide_run sha256 txn get (cr # rs) e) = snd (decide_run sha256 txn get rs e1)"
    by (simp_all add: cr t Let_def split_def)
  show ?case
  proof (cases "d \<in> set (fst (decide_run sha256 txn get rs e1))")
    case True
    from Cons.IH [OF this] show ?thesis unfolding run(2) by (metis list.set_intros(2))
  next
    case False
    with Cons.prems run(1) have "res = Some d" by (auto split: option.splits)
    with t have t': "try_decide sha256 txn get cur r e = (Some d, e1)" by simp
    from try_decide_accepted [OF assms(1) t'] obtain s where
      s: "d = r" "cur \<le> dr_epoch r" "get (get_decide_key sha256 (dr_need_id r)) e1 = Some s"
      "dr_proposal_id s = dr_proposal_id r" "dr_epoch s = dr_epoch r" by blast
    have "get (get_decide_key sha256 (dr_need_id r)) (snd (decide_run sha256 txn get rs e1)) = Some s"
      using assms(1) s(3) by (rule decide_run_keeps)
    with s show ?thesis unfolding run(2) get_decide_def using cr by auto
  qed
qed simp

text \<open>Claim C10. At most one DECIDE per need: for any number of deciders and retries in any order, all accepted
  DECIDEs for the same need agree on proposal and epoch, the stored record agrees with them, and a
  decide whose epoch lies behind the current one is never accepted.  The hypothesis is etcd's
  transaction semantics.\<close>

theorem decide_at_most_once:
  assumes "etcd_laws txn get"
    and "d \<in> set (fst (decide_run sha256 txn get rs etcd))" and "d' \<in> set (fst (decide_run sha256 txn get rs etcd))"
    and "dr_need_id d = dr_need_id d'"
  shows "dr_proposal_id d = dr_proposal_id d' \<and> dr_epoch d = dr_epoch d' \<and>
    (\<exists>s. get_decide sha256 get (dr_need_id d) (snd (decide_run sha256 txn get rs etcd)) = Some s \<and>
       dr_proposal_id s = dr_proposal_id d \<and> dr_epoch s = dr_epoch d) \<and>
    (\<exists>cur. (cur, d) \<in> set rs \<and> cur \<le> dr_epoch d)"
  using decide_run_accepted [OF assms(1,2)] decide_run_accepted [OF assms(1,3)] assms(4) by auto

lemma decide_run_other:
  assumes "etcd_laws txn get" and "byte_digest sha256" and "\<forall>(cur, r) \<in> set rs. dr_need_id r \<noteq> n"
  shows "get_decide sha256 get n (snd (decide_run sha256 txn get rs e)) = get_decide sha256 get n e"
  using assms(3)
proof (induction rs arbitrary: e)
  case (Cons cr rs)
  obtain cur r where cr: "cr = (cur, r)" by (cases cr)
  with Cons.prems have "get_decide_key sha256 n \<noteq> get_decide_key sha256 (dr_need_id r)"
    using decide_key_inj [OF assms(2)] by auto
  then have "get_decide sha256 get n (snd (try_decide sha256 txn get cur r e)) = get_decide sha256 get n e"
    using try_decide_state [of sha256 txn get cur r e] assms(1) by (auto simp: get_decide_def etcd_laws_def)
  with Cons show ?case by (simp add: cr Let_def split_def)
qed simp

text \<open>Needs do not interfere: whatever was decided for other needs, the first attempt for an
  undecided need with a current epoch succeeds and is what is stored, because the bucketed key
  determines the need.\<close>

theorem undecided_need_can_be_decided:
  assumes "etcd_laws txn get" and "byte_digest sha256" and "get_decide sha256 get n etcd = None"
    and "\<forall>(cur, r) \<in> set rs. dr_need_id r \<noteq> n" and "dr_need_id d = n" and "cur \<le> dr_epoch d"
  shows "fst (try_decide sha256 txn get cur d (snd (decide_run sha256 txn get rs etcd))) = Some d \<and>
    get_decide sha256 get n (snd (try_decide sha256 txn get cur d (snd (decide_run sha256 txn get rs etcd)))) = Some d"
proof -
  let ?e = "snd (decide_run sha256 txn get rs etcd)" and ?k = "get_decide_key sha256 n"
  have "get ?k ?e = None"
    using decide_run_other [OF assms(1,2,4), of etcd] assms(3) by (simp add: get_decide_def)
  then have "fst (txn ?k d ?e)" "get ?k (snd (txn ?k d ?e)) = Some d"
    using assms(1) by (auto simp: etcd_laws_def)
  then show ?thesis
    using assms(5,6) by (cases "txn ?k d ?e") (auto simp: try_decide_def Let_def get_decide_def)
qed

definition map_txn :: "string \<Rightarrow> decide_record \<Rightarrow> (string \<rightharpoonup> decide_record) \<Rightarrow> bool \<times> (string \<rightharpoonup> decide_record)" where
  "map_txn k v e = (case e k of None \<Rightarrow> (True, e(k \<mapsto> v)) | Some w \<Rightarrow> (False, e))"

lemma map_txn_laws: "etcd_laws map_txn (\<lambda>k e. e k)"
  by (auto simp: etcd_laws_def map_txn_def split: option.splits)

theorem decide_at_most_once_witness:
  "let r = \<lparr>dr_need_id = ''n'', dr_proposal_id = ''p'', dr_epoch = 2, dr_lamport = 5, dr_k_plan = 3, dr_decider_id = ''a'', dr_timestamp_ns = 9\<rparr>;
       accepted = fst (decide_run (\<lambda>s. [7]) map_txn (\<lambda>k e. e k)
         [(2, r), (2, r\<lparr>dr_proposal_id := ''q''\<rparr>), (2, r\<lparr>dr_decider_id := ''b''\<rparr>)] Map.empty)
   in accepted = [r, r\<lparr>dr_decider_id := ''b''\<rparr>] \<and>
      dr_proposal_id (accepted ! 0) = dr_proposal_id (accepted ! 1)"
proof -
  let ?r = "\<lparr>dr_need_id = ''n'', dr_proposal_id = ''p'', dr_epoch = 2, dr_lamport = 5, dr_k_plan = 3, dr_decider_id = ''a'', dr_timestamp_ns = 9\<rparr>"
  let ?b = "?r\<lparr>dr_decider_id := ''b''\<rparr>"
  let ?rs = "[(2, ?r), (2, ?r\<lparr>dr_proposal_id := ''q''\<rparr>), (2, ?b)]"
  have acc: "fst (decide_run (\<lambda>s. [7]) map_txn (\<lambda>k e. e k) ?rs Map.empty) = [?r, ?b]"
    by (simp add: try_decide_def map_txn_def get_decide_key_def Let_def)
  have "dr_proposal_id ?r = dr_proposal_id ?b"
    using decide_at_most_once [OF map_txn_laws, of ?r "\<lambda>s. [7]" ?rs Map.empty ?b] unfolding acc by simp
  with acc show ?thesis by (simp add: Let_def)
qed

theorem undecided_need_can_be_decided_witness:
  "let r = \<lparr>dr_need_id = ''n'', dr_proposal_id = ''p'', dr_epoch = 2, dr_lamport = 5, dr_k_plan = 3, dr_decider_id = ''a'', dr_timestamp_ns = 9\<rparr>
   in fst (try_decide (\<lambda>s. [7]) map_txn (\<lambda>k e. e k) 1 r
        (snd (decide_run (\<lambda>s. [7]) map_txn (\<lambda>k e. e k) [(2, r\<lparr>dr_need_id := ''m''\<rparr>)] Map.empty))) = Some r"
proof -
  let ?r = "\<lparr>dr_need_id = ''n'', dr_proposal_id = ''p'', dr_epoch = 2, dr_lamport = 5, dr_k_plan = 3, dr_decider_id = ''a'', dr_timestamp_ns = 9\<rparr>"
  have "byte_digest (\<lambda>s. [7])" by (simp add: byte_digest_def)
  from undecided_need_can_be_decided [OF map_txn_laws this, of "''n''" Map.empty "[(2, ?r\<lparr>dr_need_id := ''m''\<rparr>)]" ?r 1]
  show ?thesis by (simp add: get_decide_def Let_def)
qed

end
