(* ===== verification/Plan.thy ===== *)
theory Plan
  imports Tables
begin

text \<open>
  The plan: the SQLite op log with its derived tables (\<open>src/plan_store.py\<close>) and the in-memory
  CRDT document (\<open>src/plan/automerge_store.py\<close>).  A payload is a dictionary of JSON values;
  \<open>payload["state"]\<close>, \<open>payload["parent"]\<close> and \<open>payload["child"]\<close> are read as strings and raise
  \<open>KeyError\<close> when they are missing.
\<close>

section \<open>Operations\<close>

datatype plan_op_type = ADD_TASK | REQUIRES | PRODUCES | STATE | LINK | ANNOTATE

record plan_op =
  po_op_id :: string
  po_thread_id :: string
  po_lamport :: int
  po_actor_id :: string
  po_type :: plan_op_type
  po_task_id :: string
  po_payload :: "(string, json) table"
  po_timestamp_ns :: int

datatype plan_error = KeyError string | TypeError | UniqueViolation | TaskNotFound

record task_row =
  tk_thread_id :: string
  tk_task_type :: json
  tk_state :: string
  tk_last_lamport :: int

definition payload_string :: "string \<Rightarrow> plan_op \<Rightarrow> plan_error + string" where
  "payload_string k op =
     (case map_of (po_payload op) k of
        None \<Rightarrow> Inl (KeyError k)
      | Some (JStr s) \<Rightarrow> Inr s
      | Some _ \<Rightarrow> Inl TypeError)"

definition payload_get :: "string \<Rightarrow> plan_op \<Rightarrow> json" where
  "payload_get k op = (case map_of (po_payload op) k of None \<Rightarrow> JNull | Some v \<Rightarrow> v)"

section \<open>The SQLite plan store\<close>

record plan_store =
  ps_ops :: "plan_op list"
  ps_tasks :: "(string, task_row) table"
  ps_edges :: "(string \<times> string) list"

definition init_plan_store :: plan_store where
  "init_plan_store = \<lparr>ps_ops = [], ps_tasks = [], ps_edges = []\<rparr>"

text \<open>\<open>INSERT OR IGNORE\<close> does nothing when the key is there.\<close>

definition insert_task_or_ignore :: "string \<Rightarrow> task_row \<Rightarrow> (string, task_row) table \<Rightarrow> (string, task_row) table" where
  "insert_task_or_ignore t r ts = (if has_key t ts then ts else add_row t r ts)"

definition apply_op :: "plan_op \<Rightarrow> plan_store \<Rightarrow> plan_error + plan_store" where
  "apply_op op db =
     (case po_type op of
        ADD_TASK \<Rightarrow>
          Inr (db\<lparr>ps_tasks := insert_task_or_ignore (po_task_id op)
            \<lparr>tk_thread_id = po_thread_id op, tk_task_type = payload_get ''type'' op,
             tk_state = ''DRAFT'', tk_last_lamport = po_lamport op\<rparr> (ps_tasks db)\<rparr>)
      | STATE \<Rightarrow>
          let ts = insert_task_or_ignore (po_task_id op)
            \<lparr>tk_thread_id = po_thread_id op, tk_task_type = JNull, tk_state = ''DRAFT'', tk_last_lamport = 0\<rparr>
            (ps_tasks db)
          in res_bind (payload_string ''state'' op) (\<lambda>new_state.
             Inr (db\<lparr>ps_tasks := update_row (po_task_id op)
               (\<lambda>r. if tk_last_lamport r < po_lamport op
                    then r\<lparr>tk_state := new_state, tk_last_lamport := po_lamport op\<rparr> else r) ts\<rparr>))
      | LINK \<Rightarrow>
          res_bind (payload_string ''parent'' op) (\<lambda>parent.
          res_bind (payload_string ''child'' op) (\<lambda>child.
          Inr (db\<lparr>ps_edges := (if (parent, child) \<in> set (ps_edges db) then ps_edges db
                               else ps_edges db @ [(parent, child)])\<rparr>)))
      | _ \<Rightarrow> Inr db)"

definition append_op :: "plan_op \<Rightarrow> plan_store \<Rightarrow> plan_error + plan_store" where
  "append_op op db =
     (if po_op_id op \<in> set (map po_op_id (ps_ops db)) then Inl UniqueViolation
      else apply_op op (db\<lparr>ps_ops := ps_ops db @ [op]\<rparr>))"

definition get_task :: "string \<Rightarrow> plan_store \<Rightarrow> task_row option" where
  "get_task t db = map_of (ps_tasks db) t"

definition get_ops_for_thread :: "string \<Rightarrow> plan_store \<Rightarrow> plan_op list" where
  "get_ops_for_thread th db = sort_key po_lamport (filter (\<lambda>op. po_thread_id op = th) (ps_ops db))"

text \<open>\<open>now\<close> and \<open>now2\<close> are the two readings of \<open>time.time_ns()\<close>.\<close>

definition annotate_task ::
  "string \<Rightarrow> (string, json) table \<Rightarrow> string \<Rightarrow> int \<Rightarrow> int \<Rightarrow> plan_store \<Rightarrow> plan_error + plan_store" where
  "annotate_task t annotations uuid now now2 db =
     (case get_task t db of
        None \<Rightarrow> Inl TaskNotFound
      | Some r \<Rightarrow>
          append_op \<lparr>po_op_id = uuid, po_thread_id = tk_thread_id r, po_lamport = now div 1000,
            po_actor_id = ''system'', po_type = ANNOTATE, po_task_id = t, po_payload = annotations,
            po_timestamp_ns = now2\<rparr> db)"

section \<open>The CRDT document\<close>

record annotation =
  an_value :: json
  an_lamport :: int

record crdt_document =
  dc_tasks :: "(string, task_row) table"
  dc_edges :: "(string, string list) table"
  dc_annotations :: "(string, (string, annotation) table) table"
  dc_ops :: "plan_op list"
  dc_version :: int

text \<open>The two views hold the dictionaries they were built from; they are rebuilt by
  \<open>_update_views\<close>.\<close>

record automerge_store =
  am_doc :: crdt_document
  am_op_ids :: "string set"
  am_task_view :: "(string, task_row) table"
  am_graph_view :: "(string, string list) table"

definition empty_document :: crdt_document where
  "empty_document = \<lparr>dc_tasks = [], dc_edges = [], dc_annotations = [], dc_ops = [], dc_version = 0\<rparr>"

definition update_views :: "automerge_store \<Rightarrow> automerge_store" where
  "update_views st = st\<lparr>am_task_view := dc_tasks (am_doc st), am_graph_view := dc_edges (am_doc st)\<rparr>"

definition init_automerge :: automerge_store where
  "init_automerge = update_views
     \<lparr>am_doc = empty_document, am_op_ids = {}, am_task_view = [], am_graph_view = []\<rparr>"

text \<open>The loop of the annotation case: last writer wins, key by key.\<close>

fun write_annotations :: "int \<Rightarrow> (string, json) table \<Rightarrow> (string, annotation) table \<Rightarrow> (string, annotation) table" where
  "write_annotations l [] anns = anns"
| "write_annotations l ((k, v) # kvs) anns =
     write_annotations l kvs
       (case map_of anns k of
          None \<Rightarrow> AList.update k \<lparr>an_value = v, an_lamport = l\<rparr> anns
        | Some a \<Rightarrow> if l > an_lamport a then AList.update k \<lparr>an_value = v, an_lamport = l\<rparr> anns else anns)"

definition apply_to_state :: "plan_op \<Rightarrow> crdt_document \<Rightarrow> plan_error + crdt_document" where
  "apply_to_state op doc =
     (case po_type op of
        ADD_TASK \<Rightarrow>
          Inr (if has_key (po_task_id op) (dc_tasks doc) then doc
               else doc\<lparr>dc_tasks := AList.update (po_task_id op)
                 \<lparr>tk_thread_id = po_thread_id op, tk_task_type = payload_get ''type'' op,
                  tk_state = ''DRAFT'', tk_last_lamport = po_lamport op\<rparr> (dc_tasks doc)\<rparr>)
      | STATE \<Rightarrow>
          (case map_of (dc_tasks doc) (po_task_id op) of
             None \<Rightarrow>
               res_bind (payload_string ''state'' op) (\<lambda>new_state.
               Inr (doc\<lparr>dc_tasks := AList.update (po_task_id op)
                 \<lparr>tk_thread_id = po_thread_id op, tk_task_type = JNull, tk_state = new_state,
                  tk_last_lamport = po_lamport op\<rparr> (dc_tasks doc)\<rparr>))
           | Some r \<Rightarrow>
               if po_lamport op > tk_last_lamport r
               then res_bind (payload_string ''state'' op) (\<lambda>new_state.
                    Inr (doc\<lparr>dc_tasks := AList.update (po_task_id op)
                      (r\<lparr>tk_state := new_state, tk_last_lamport := po_lamport op\<rparr>) (dc_tasks doc)\<rparr>))
               else Inr doc)
      | LINK \<Rightarrow>
          res_bind (payload_string ''parent'' op) (\<lambda>parent.
          res_bind (payload_string ''child'' op) (\<lambda>child.
          let edges = (if has_key parent (dc_edges doc) then dc_edges doc
                       else AList.update parent [] (dc_edges doc));
              children = the (map_of edges parent)
          in Inr (doc\<lparr>dc_edges := (if child \<in> set children then edges
                                  else AList.update parent (children @ [child]) edges)\<rparr>)))
      | ANNOTATE \<Rightarrow>
          let anns = (case map_of (dc_annotations doc) (po_task_id op) of None \<Rightarrow> [] | Some a \<Rightarrow> a)
          in Inr (doc\<lparr>dc_annotations := AList.update (po_task_id op)
               (write_annotations (po_lamport op) (po_payload op) anns) (dc_annotations doc)\<rparr>)
      | _ \<Rightarrow> Inr doc)"

text \<open>\<open>append_op\<close> mutates the document before it may raise, so an operation with a broken payload
  stays in the log; the result pairs the exception with the state that is left.\<close>

definition am_append_op :: "plan_op \<Rightarrow> automerge_store \<Rightarrow> plan_error option \<times> automerge_store" where
  "am_append_op op st =
     (if po_op_id op \<in> am_op_ids st then (None, st)
      else
        let doc = am_doc st;
            doc = doc\<lparr>dc_ops := dc_ops doc @ [op], dc_version := dc_version doc + 1\<rparr>;
            st = st\<lparr>am_doc := doc, am_op_ids := insert (po_op_id op) (am_op_ids st)\<rparr>
        in case apply_to_state op doc of
             Inl e \<Rightarrow> (Some e, st)
           | Inr doc \<Rightarrow> (None, update_views (st\<lparr>am_doc := doc\<rparr>)))"

definition am_get_task :: "string \<Rightarrow> automerge_store \<Rightarrow> (task_row \<times> (string, json) table) option" where
  "am_get_task t st =
     (case map_of (dc_tasks (am_doc st)) t of
        None \<Rightarrow> None
      | Some r \<Rightarrow> Some (r, (case map_of (dc_annotations (am_doc st)) t of
                             None \<Rightarrow> [] | Some anns \<Rightarrow> map (\<lambda>(k, a). (k, an_value a)) anns)))"

definition am_get_ops_for_thread :: "string \<Rightarrow> automerge_store \<Rightarrow> plan_op list" where
  "am_get_ops_for_thread th st =
     sort_key po_lamport (filter (\<lambda>op. po_thread_id op = th) (dc_ops (am_doc st)))"

text \<open>Saving and loading: the bytes are the JSON text of the document, here the document itself.\<close>

definition get_save_data :: "automerge_store \<Rightarrow> crdt_document" where
  "get_save_data st = am_doc st"

definition load_from_data :: "crdt_document \<Rightarrow> automerge_store \<Rightarrow> automerge_store" where
  "load_from_data doc st = st\<lparr>am_doc := doc, am_op_ids := set (map po_op_id (dc_ops doc))\<rparr>"

definition rebuild_state_from_ops :: "crdt_document \<Rightarrow> plan_error + crdt_document" where
  "rebuild_state_from_ops doc =
     res_fold apply_to_state (dc_ops doc) (doc\<lparr>dc_tasks := [], dc_edges := [], dc_annotations := []\<rparr>)"

text \<open>\<open>merge_with_peer\<close> for operations whose payloads are well formed; otherwise the replay raises.\<close>

definition merge_with_peer :: "crdt_document \<Rightarrow> automerge_store \<Rightarrow> plan_error + automerge_store" where
  "merge_with_peer peer st =
     (let new_ops = filter (\<lambda>op. po_op_id op \<notin> am_op_ids st) (dc_ops peer);
          doc = am_doc st;
          ops = sort_key po_lamport (dc_ops doc @ new_ops);
          ids = am_op_ids st \<union> set (map po_op_id new_ops)
      in res_bind (rebuild_state_from_ops (doc\<lparr>dc_ops := ops\<rparr>)) (\<lambda>doc.
         let st = update_views (st\<lparr>am_doc := doc, am_op_ids := ids\<rparr>)
         in Inr (st\<lparr>am_doc := (am_doc st)\<lparr>dc_version := dc_version (am_doc st) + 1\<rparr>\<rparr>)))"

definition get_edges :: "string \<Rightarrow> automerge_store \<Rightarrow> string list" where
  "get_edges parent st = (case map_of (dc_edges (am_doc st)) parent of None \<Rightarrow> [] | Some cs \<Rightarrow> cs)"

definition get_all_tasks :: "automerge_store \<Rightarrow> (task_row \<times> (string, json) table) list" where
  "get_all_tasks st = List.map_filter (\<lambda>(t, r). am_get_task t st) (dc_tasks (am_doc st))"

end
