(* ===== verification/PlanProps.thy ===== *)
theory PlanProps
  imports Plan
begin

text \<open>
  Correctness of the plan: convergence of merged CRDT documents, agreement of the two stores, and
  what the last-writer-wins state of a task is, with the cases in which the documented
  convergence fails.
\<close>

section \<open>Reachable CRDT stores\<close>

inductive am_reachable :: "automerge_store \<Rightarrow> bool" where
  init: "am_reachable init_automerge"
| append: "am_reachable st \<Longrightarrow> am_append_op op st = (e, st') \<Longrightarrow> am_reachable st'"
| merge: "am_reachable st \<Longrightarrow> am_reachable peer \<Longrightarrow> merge_with_peer (get_save_data peer) st = Inr st' \<Longrightarrow>
    am_reachable st'"
| load: "am_reachable st \<Longrightarrow> am_reachable peer \<Longrightarrow> am_reachable (load_from_data (get_save_data peer) st)"

inductive_cases am_reachableE: "am_reachable st"

definition am_ok :: "automerge_store \<Rightarrow> bool" where
  "am_ok st \<longleftrightarrow> am_op_ids st = set (map po_op_id (dc_ops (am_doc st))) \<and> distinct (map po_op_id (dc_ops (am_doc st)))"

lemma apply_to_state_frame:
  "apply_to_state op doc = Inr doc' \<Longrightarrow> dc_ops doc' = dc_ops doc \<and> dc_version doc' = dc_version doc"
  by (auto simp: apply_to_state_def res_simps Let_def split: plan_op_type.splits option.splits if_splits)

lemma apply_to_state_update:
  "apply_to_state op (doc\<lparr>dc_version := v, dc_ops := ops\<rparr>) =
    (case apply_to_state op doc of Inl e \<Rightarrow> Inl e | Inr d \<Rightarrow> Inr (d\<lparr>dc_version := v, dc_ops := ops\<rparr>))"
proof (cases "po_type op")
  case STATE
  then show ?thesis
    by (cases "payload_string ''state'' op"; cases "map_of (dc_tasks doc) (po_task_id op)")
       (simp_all add: apply_to_state_def)
next
  case LINK
  then show ?thesis
    by (cases "payload_string ''parent'' op"; cases "payload_string ''child'' op")
       (simp_all add: apply_to_state_def Let_def)
qed (simp_all add: apply_to_state_def Let_def)

lemma replay_update:
  "res_fold apply_to_state ops doc = Inr doc' \<Longrightarrow>
    res_fold apply_to_state ops (doc\<lparr>dc_version := v, dc_ops := xs\<rparr>) = Inr (doc'\<lparr>dc_version := v, dc_ops := xs\<rparr>)"
proof (induction ops arbitrary: doc)
  case (Cons op ops)
  from Cons.prems obtain d where d: "apply_to_state op doc = Inr d" "res_fold apply_to_state ops d = Inr doc'"
    by (auto simp: res_simps)
  show ?case unfolding res_fold.simps apply_to_state_update d(1) using Cons.IH [OF d(2)] by simp
qed simp

lemma replay_frame:
  "res_fold apply_to_state ops doc = Inr doc' \<Longrightarrow> dc_ops doc' = dc_ops doc \<and> dc_version doc' = dc_version doc"
  by (induction ops arbitrary: doc) (auto simp: res_simps dest!: apply_to_state_frame)

definition merged_ops :: "automerge_store \<Rightarrow> crdt_document \<Rightarrow> plan_op list" where
  "merged_ops st peer = sort_key po_lamport
     (dc_ops (am_doc st) @ filter (\<lambda>op. po_op_id op \<notin> am_op_ids st) (dc_ops peer))"

lemma merge_with_peer_Inr:
  assumes "merge_with_peer peer st = Inr st'"
  obtains doc where "res_fold apply_to_state (merged_ops st peer) (empty_document\<lparr>dc_version := dc_version (am_doc st), dc_ops := merged_ops st peer\<rparr>) = Inr doc"
    and "am_doc st' = doc\<lparr>dc_version := dc_version (am_doc st) + 1\<rparr>"
    and "am_op_ids st' = am_op_ids st \<union> set (map po_op_id (filter (\<lambda>op. po_op_id op \<notin> am_op_ids st) (dc_ops peer)))"
proof -
  have e: "(am_doc st)\<lparr>dc_ops := ops, dc_tasks := [], dc_edges := [], dc_annotations := []\<rparr> =
      empty_document\<lparr>dc_version := dc_version (am_doc st), dc_ops := ops\<rparr>" for ops
    by (simp add: empty_document_def)
  from assms obtain doc where d: "res_fold apply_to_state (merged_ops st peer) (empty_document\<lparr>dc_version := dc_version (am_doc st), dc_ops := merged_ops st peer\<rparr>) = Inr doc"
    "st' = st\<lparr>am_op_ids := am_op_ids st \<union> set (map po_op_id (filter (\<lambda>op. po_op_id op \<notin> am_op_ids st) (dc_ops peer))),
       am_task_view := dc_tasks doc, am_graph_view := dc_edges doc,
       am_doc := doc\<lparr>dc_version := dc_version doc + 1\<rparr>\<rparr>"
    by (auto simp: merge_with_peer_def Let_def res_simps rebuild_state_from_ops_def e update_views_def
        merged_ops_def [symmetric])
  with replay_frame [OF d(1)] show thesis by (intro that [OF d(1)]) simp_all
qed

lemma merge_with_peer_intro:
  assumes "res_fold apply_to_state (merged_ops st peer) (empty_document\<lparr>dc_version := dc_version (am_doc st), dc_ops := merged_ops st peer\<rparr>) = Inr doc"
  shows "\<exists>st'. merge_with_peer peer st = Inr st' \<and> am_doc st' = doc\<lparr>dc_version := dc_version (am_doc st) + 1\<rparr>"
proof -
  have e: "(am_doc st)\<lparr>dc_ops := ops, dc_tasks := [], dc_edges := [], dc_annotations := []\<rparr> =
      empty_document\<lparr>dc_version := dc_version (am_doc st), dc_ops := ops\<rparr>" for ops
    by (simp add: empty_document_def)
  have "dc_version doc = dc_version (am_doc st)" using replay_frame [OF assms] by simp
  with assms show ?thesis
    by (simp add: merge_with_peer_def Let_def rebuild_state_from_ops_def e update_views_def
        merged_ops_def [symmetric])
qed

lemma am_ok_reachable: "am_reachable st \<Longrightarrow> am_ok st"
proof (induction rule: am_reachable.induct)
  case init
  then show ?case by (simp add: am_ok_def init_automerge_def update_views_def empty_document_def)
next
  case (append st op e st')
  then show ?case
    by (auto simp: am_ok_def am_append_op_def Let_def update_views_def dest!: apply_to_state_frame
        split: if_splits sum.splits)
next
  case (merge st peer st')
  from merge.hyps(3) show ?case
  proof (rule merge_with_peer_Inr)
    fix doc
    assume r: "res_fold apply_to_state (merged_ops st (get_save_data peer)) (empty_document\<lparr>dc_version := dc_version (am_doc st), dc_ops := merged_ops st (get_save_data peer)\<rparr>) = Inr doc"
      and d: "am_doc st' = doc\<lparr>dc_version := dc_version (am_doc st) + 1\<rparr>"
      and i: "am_op_ids st' = am_op_ids st \<union> set (map po_op_id (filter (\<lambda>op. po_op_id op \<notin> am_op_ids st) (dc_ops (get_save_data peer))))"
    have ops: "dc_ops (am_doc st') = merged_ops st (get_save_data peer)"
      using replay_frame [OF r] d by simp
    have "distinct (map po_op_id (filter (\<lambda>op. po_op_id op \<notin> am_op_ids st) (dc_ops (am_doc peer))))"
      using merge.IH(2) unfolding am_ok_def by (simp add: distinct_map inj_on_def)
    moreover have "x \<notin> am_op_ids st"
      if "x \<in> set (map po_op_id (filter (\<lambda>op. po_op_id op \<notin> am_op_ids st) (dc_ops (am_doc peer))))" for x
      using that by auto
    ultimately have "distinct (map po_op_id (dc_ops (am_doc st) @ filter (\<lambda>op. po_op_id op \<notin> am_op_ids st) (dc_ops (am_doc peer))))"
      using merge.IH(1) unfolding am_ok_def distinct_append map_append by blast
    then have "distinct (map po_op_id (merged_ops st (get_save_data peer)))"
      unfolding merged_ops_def get_save_data_def distinct_map by simp
    with i ops merge.IH(1) show ?thesis by (auto simp: am_ok_def merged_ops_def)
  qed
next
  case (load st peer)
  then show ?case by (simp add: am_ok_def load_from_data_def get_save_data_def)
qed

section \<open>Convergence\<close>

lemma sort_key_unique:
  fixes f :: "'a \<Rightarrow> int"
  assumes "set xs = set ys" and "distinct xs" and "distinct ys" and "inj_on f (set xs)"
  shows "sort_key f xs = sort_key f ys"
proof -
  have "map f (sort_key f xs) = map f (sort_key f ys)"
  proof (rule sorted_distinct_set_unique)
    show "distinct (map f (sort_key f xs))" "distinct (map f (sort_key f ys))"
      using assms by (simp_all add: distinct_map)
    show "set (map f (sort_key f xs)) = set (map f (sort_key f ys))"
      using assms(1) by simp
  qed simp_all
  moreover have "inj_on f (set (sort_key f xs) \<union> set (sort_key f ys))" using assms by simp
  ultimately show ?thesis by (metis map_inj_on)
qed

definition same_state :: "crdt_document \<Rightarrow> crdt_document \<Rightarrow> bool" where
  "same_state d d' \<longleftrightarrow> dc_tasks d = dc_tasks d' \<and> dc_edges d = dc_edges d' \<and>
     dc_annotations d = dc_annotations d' \<and> dc_ops d = dc_ops d'"

text \<open>Claim C16. Merging converges: two reachable documents that merge with each other end with the same
  tasks, edges, annotations and operation log, and one merge succeeds exactly when the other does,
  provided that an id always names the same operation and that no two operations share a
  Lamport time.\<close>

theorem merge_converges:
  assumes "am_reachable a" and "am_reachable b"
    and "\<forall>x \<in> set (dc_ops (am_doc a)). \<forall>y \<in> set (dc_ops (am_doc b)). po_op_id x = po_op_id y \<longrightarrow> x = y"
    and "inj_on po_lamport (set (dc_ops (am_doc a)) \<union> set (dc_ops (am_doc b)))"
    and "merge_with_peer (get_save_data b) a = Inr a'"
  shows "\<exists>b'. merge_with_peer (get_save_data a) b = Inr b' \<and> same_state (am_doc a') (am_doc b')"
proof -
  let ?A = "dc_ops (am_doc a)" and ?B = "dc_ops (am_doc b)"
  have ok: "am_ok a" "am_ok b" using assms(1,2) by (auto intro: am_ok_reachable)
  have id_mem: "po_op_id x \<in> set (map po_op_id xs) \<longleftrightarrow> x \<in> set xs"
    if "\<forall>y \<in> set xs. po_op_id x = po_op_id y \<longrightarrow> x = y" for x xs
    using that by auto
  have new: "set (filter (\<lambda>op. po_op_id op \<notin> am_op_ids a) ?B) = set ?B - set ?A"
    "set (filter (\<lambda>op. po_op_id op \<notin> am_op_ids b) ?A) = set ?A - set ?B"
    using ok assms(3) id_mem by (fastforce simp: am_ok_def)+
  have "merged_ops a (am_doc b) = merged_ops b (am_doc a)"
    unfolding merged_ops_def
  proof (rule sort_key_unique)
    show "distinct (?A @ filter (\<lambda>op. po_op_id op \<notin> am_op_ids a) ?B)"
      "distinct (?B @ filter (\<lambda>op. po_op_id op \<notin> am_op_ids b) ?A)"
      using ok new by (auto simp: am_ok_def distinct_map)
    show "set (?A @ filter (\<lambda>op. po_op_id op \<notin> am_op_ids a) ?B) =
      set (?B @ filter (\<lambda>op. po_op_id op \<notin> am_op_ids b) ?A)"
      unfolding set_append new by blast
    show "inj_on po_lamport (set (?A @ filter (\<lambda>op. po_op_id op \<notin> am_op_ids a) ?B))"
      unfolding set_append new using assms(4) by (simp add: Un_Diff_cancel)
  qed
  then have m: "merged_ops b (get_save_data a) = merged_ops a (get_save_data b)"
    by (simp add: get_save_data_def)
  obtain doc where r: "res_fold apply_to_state (merged_ops a (get_save_data b))
      (empty_document\<lparr>dc_version := dc_version (am_doc a), dc_ops := merged_ops a (get_save_data b)\<rparr>) = Inr doc"
    and a': "am_doc a' = doc\<lparr>dc_version := dc_version (am_doc a) + 1\<rparr>"
    using assms(5) by (rule merge_with_peer_Inr)
  have "res_fold apply_to_state (merged_ops b (get_save_data a))
      (empty_document\<lparr>dc_version := dc_version (am_doc b), dc_ops := merged_ops b (get_save_data a)\<rparr>) =
      Inr (doc\<lparr>dc_version := dc_version (am_doc b), dc_ops := merged_ops a (get_save_data b)\<rparr>)"
    using replay_update [OF r, of "merged_ops a (get_save_data b)" "dc_version (am_doc b)"]
    unfolding m by simp
  from merge_with_peer_intro [OF this] a' replay_frame [OF r] show ?thesis
    by (auto simp: same_state_def)
qed

definition demo_plan_op :: "string \<Rightarrow> int \<Rightarrow> plan_op_type \<Rightarrow> (string, json) table \<Rightarrow> plan_op" where
  "demo_plan_op i l ty payload = \<lparr>po_op_id = i, po_thread_id = ''th'', po_lamport = l, po_actor_id = ''x'',
     po_type = ty, po_task_id = ''t'', po_payload = payload, po_timestamp_ns = 0\<rparr>"

definition demo_store :: "plan_op list \<Rightarrow> automerge_store" where
  "demo_store ops = fold (\<lambda>op st. snd (am_append_op op st)) ops init_automerge"

lemma am_reachable_fold: "am_reachable st \<Longrightarrow> am_reachable (fold (\<lambda>op st. snd (am_append_op op st)) ops st)"
proof (induction ops arbitrary: st)
  case (Cons op ops)
  have "am_reachable (snd (am_append_op op st))"
    using Cons.prems by (rule am_reachable.append) (rule prod.collapse [symmetric])
  with Cons.IH show ?case by simp
qed simp

lemma demo_reachable: "am_reachable (demo_store ops)"
  unfolding demo_store_def using am_reachable.init by (rule am_reachable_fold)

abbreviation "demo_a \<equiv> demo_store [demo_plan_op ''a1'' 3 ADD_TASK [], demo_plan_op ''a2'' 5 STATE [(''state'', JStr ''DECIDED'')]]"
abbreviation "demo_b \<equiv> demo_store [demo_plan_op ''b1'' 4 STATE [(''state'', JStr ''VERIFIED'')]]"

theorem merge_converges_witness:
  "\<exists>a' b'. merge_with_peer (get_save_data demo_b) demo_a = Inr a' \<and>
     merge_with_peer (get_save_data demo_a) demo_b = Inr b' \<and> same_state (am_doc a') (am_doc b')"
proof -
  have ops: "dc_ops (am_doc demo_a) = [demo_plan_op ''a1'' 3 ADD_TASK [], demo_plan_op ''a2'' 5 STATE [(''state'', JStr ''DECIDED'')]]"
    "dc_ops (am_doc demo_b) = [demo_plan_op ''b1'' 4 STATE [(''state'', JStr ''VERIFIED'')]]"
    by code_simp+
  have ok: "case merge_with_peer (get_save_data demo_b) demo_a of Inl e \<Rightarrow> False | Inr a' \<Rightarrow> True" by code_simp
  then obtain a' where a': "merge_with_peer (get_save_data demo_b) demo_a = Inr a'"
    by (auto split: sum.splits)
  from merge_converges [OF demo_reachable demo_reachable _ _ a'] show ?thesis
    unfolding ops using a' by (auto simp: demo_plan_op_def inj_on_def)
qed

text \<open>The assumption on Lamport times is needed: two peers that concurrently set the state of a task
  with the same Lamport time exchange their documents, both merges succeed, both hold all
  operations, and their task tables differ, because the sort keeps the local operations first.\<close>

theorem equal_lamports_diverge:
  "\<exists>a b a' b'. am_reachable a \<and> am_reachable b \<and>
     merge_with_peer (get_save_data b) a = Inr a' \<and> merge_with_peer (get_save_data a) b = Inr b' \<and>
     set (dc_ops (am_doc a')) = set (dc_ops (am_doc b')) \<and>
     map_option tk_state (map_of (dc_tasks (am_doc a')) ''t'') = Some ''DECIDED'' \<and>
     map_option tk_state (map_of (dc_tasks (am_doc b')) ''t'') = Some ''VERIFIED''"
proof -
  let ?x = "demo_plan_op ''a1'' 5 STATE [(''state'', JStr ''DECIDED'')]"
  let ?y = "demo_plan_op ''b1'' 5 STATE [(''state'', JStr ''VERIFIED'')]"
  let ?a = "demo_store [?x]" and ?b = "demo_store [?y]"
  have a: "case merge_with_peer (get_save_data ?b) ?a of Inl e \<Rightarrow> False | Inr a' \<Rightarrow>
      dc_ops (am_doc a') = [?x, ?y] \<and> map_option tk_state (map_of (dc_tasks (am_doc a')) ''t'') = Some ''DECIDED''"
    by code_simp
  have b: "case merge_with_peer (get_save_data ?a) ?b of Inl e \<Rightarrow> False | Inr a' \<Rightarrow>
      dc_ops (am_doc a') = [?y, ?x] \<and> map_option tk_state (map_of (dc_tasks (am_doc a')) ''t'') = Some ''VERIFIED''"
    by code_simp
  from a b obtain a' b' where "merge_with_peer (get_save_data ?b) ?a = Inr a'" "dc_ops (am_doc a') = [?x, ?y]"
    "map_option tk_state (map_of (dc_tasks (am_doc a')) ''t'') = Some ''DECIDED''"
    "merge_with_peer (get_save_data ?a) ?b = Inr b'" "dc_ops (am_doc b') = [?y, ?x]"
    "map_option tk_state (map_of (dc_tasks (am_doc b')) ''t'') = Some ''VERIFIED''"
    by (auto split: sum.splits)
  then show ?thesis using demo_reachable by (intro exI [of _ ?a] exI [of _ ?b] exI [of _ a'] exI [of _ b']) auto
qed

section \<open>The two stores agree\<close>

definition children_in :: "(string, string list) table \<Rightarrow> string \<Rightarrow> string list" where
  "children_in es p = (case map_of es p of None \<Rightarrow> [] | Some cs \<Rightarrow> cs)"

lemma get_edges_eq: "get_edges p st = children_in (dc_edges (am_doc st)) p"
  by (simp add: get_edges_def children_in_def)

lemma children_in_update [simp]: "children_in (AList.update p cs es) q = (if q = p then cs else children_in es q)"
  by (simp add: children_in_def)

definition add_child :: "string \<Rightarrow> string \<Rightarrow> (string, string list) table \<Rightarrow> (string, string list) table" where
  "add_child p c es =
     (let edges = (if has_key p es then es else AList.update p [] es); children = the (map_of edges p)
      in if c \<in> set children then edges else AList.update p (children @ [c]) edges)"

lemma add_child_children: "d \<in> set (children_in (add_child p c es) q) \<longleftrightarrow> d \<in> set (children_in es q) \<or> (q = p \<and> d = c)"
  by (cases "map_of es p") (auto simp: add_child_def has_key_def Let_def children_in_def)

lemma apply_link:
  assumes "po_type op = LINK" and "payload_string ''parent'' op = Inr p" and "payload_string ''child'' op = Inr c"
  shows "apply_to_state op doc = Inr (doc\<lparr>dc_edges := add_child p c (dc_edges doc)\<rparr>)"
  using assms by (simp add: apply_to_state_def add_child_def Let_def)

definition stores_related :: "plan_store \<Rightarrow> automerge_store \<Rightarrow> bool" where
  "stores_related db st \<longleftrightarrow> dc_ops (am_doc st) = ps_ops db \<and> am_op_ids st = set (map po_op_id (ps_ops db)) \<and>
     (\<forall>t. map_of (dc_tasks (am_doc st)) t = map_of (ps_tasks db) t) \<and>
     (\<forall>p c. c \<in> set (get_edges p st) \<longleftrightarrow> (p, c) \<in> set (ps_edges db))"

lemma am_append_new:
  assumes "po_op_id op \<notin> am_op_ids st" and "apply_to_state op (am_doc st) = Inr doc"
  shows "am_doc (snd (am_append_op op st)) =
      doc\<lparr>dc_version := dc_version (am_doc st) + 1, dc_ops := dc_ops (am_doc st) @ [op]\<rparr> \<and>
    am_op_ids (snd (am_append_op op st)) = insert (po_op_id op) (am_op_ids st)"
proof -
  have "apply_to_state op ((am_doc st)\<lparr>dc_ops := dc_ops (am_doc st) @ [op], dc_version := dc_version (am_doc st) + 1\<rparr>) =
      Inr (doc\<lparr>dc_version := dc_version (am_doc st) + 1, dc_ops := dc_ops (am_doc st) @ [op]\<rparr>)"
    using apply_to_state_update [of op "dc_ops (am_doc st) @ [op]" "dc_version (am_doc st) + 1" "am_doc st"] assms(2)
    by (cases "am_doc st") simp
  with assms(1) show ?thesis by (simp add: am_append_op_def Let_def update_views_def)
qed

lemma append_related:
  assumes rel: "stores_related db st" and app: "append_op op db = Inr db'"
    and pos: "po_type op = STATE \<Longrightarrow> 0 < po_lamport op"
  shows "stores_related db' (snd (am_append_op op st))"
proof -
  let ?doc = "am_doc st"
  have new: "po_op_id op \<notin> am_op_ids st" using rel app by (auto simp: stores_related_def append_op_def split: if_splits)
  have tasks: "map_of (dc_tasks ?doc) t = map_of (ps_tasks db) t" for t using rel by (simp add: stores_related_def)
  have edges: "c \<in> set (children_in (dc_edges ?doc) p) \<longleftrightarrow> (p, c) \<in> set (ps_edges db)" for p c
    using rel by (simp add: stores_related_def get_edges_eq)
  have app': "apply_op op (db\<lparr>ps_ops := ps_ops db @ [op]\<rparr>) = Inr db'"
    using app by (auto simp: append_op_def split: if_splits)
  have step: "\<exists>doc. apply_to_state op ?doc = Inr doc \<and> ps_ops db' = ps_ops db @ [op] \<and>
      (\<forall>t. map_of (dc_tasks doc) t = map_of (ps_tasks db') t) \<and>
      (\<forall>p c. c \<in> set (children_in (dc_edges doc) p) \<longleftrightarrow> (p, c) \<in> set (ps_edges db'))"
  proof (cases "po_type op")
    case ADD_TASK
    with app' show ?thesis
      by (cases "map_of (ps_tasks db) (po_task_id op)")
         (auto simp: apply_op_def apply_to_state_def insert_task_or_ignore_def has_key_def tasks edges split: option.splits)
  next
    case STATE
    with app' obtain s where s: "payload_string ''state'' op = Inr s" by (auto simp: apply_op_def res_simps Let_def)
    show ?thesis
    proof (cases "map_of (ps_tasks db) (po_task_id op)")
      case None
      with STATE s app' pos show ?thesis
        by (auto simp: apply_op_def apply_to_state_def insert_task_or_ignore_def has_key_def tasks edges split: option.splits)
    next
      case (Some r)
      with STATE s app' show ?thesis
        by (auto simp: apply_op_def apply_to_state_def insert_task_or_ignore_def has_key_def tasks edges)
    qed
  next
    case LINK
    with app' obtain p c where pc: "payload_string ''parent'' op = Inr p" "payload_string ''child'' op = Inr c"
      by (auto simp: apply_op_def res_simps)
    from LINK pc app' have "ps_ops db' = ps_ops db @ [op]" "ps_tasks db' = ps_tasks db"
      "\<forall>q d. (q, d) \<in> set (ps_edges db') \<longleftrightarrow> (q, d) \<in> set (ps_edges db) \<or> (q = p \<and> d = c)"
      by (auto simp: apply_op_def split: if_splits)
    then show ?thesis
      by (intro exI [of _ "?doc\<lparr>dc_edges := add_child p c (dc_edges ?doc)\<rparr>"])
         (simp add: apply_link [OF LINK pc] add_child_children tasks edges)
  qed (use app' tasks edges in \<open>auto simp: apply_op_def apply_to_state_def Let_def\<close>)
  then obtain doc where d: "apply_to_state op ?doc = Inr doc" and r: "ps_ops db' = ps_ops db @ [op]"
    "\<forall>t. map_of (dc_tasks doc) t = map_of (ps_tasks db') t"
    "\<forall>p c. c \<in> set (children_in (dc_edges doc) p) \<longleftrightarrow> (p, c) \<in> set (ps_edges db')"
    by blast
  show ?thesis
    using am_append_new [OF new d] r rel by (simp add: stores_related_def get_edges_eq)
qed

text \<open>The SQLite store and the CRDT document are interchangeable for local work: after the same
  operations, STATE operations having positive Lamport times, both hold the same log, the same
  tasks with the same states and the same edges.\<close>

theorem stores_agree:
  assumes "res_fold append_op ops init_plan_store = Inr db"
    and "\<forall>op \<in> set ops. po_type op = STATE \<longrightarrow> 0 < po_lamport op"
  shows "stores_related db (fold (\<lambda>op st. snd (am_append_op op st)) ops init_automerge)"
  using assms
proof (induction ops arbitrary: db rule: rev_induct)
  case Nil
  then show ?case
    by (auto simp: stores_related_def init_plan_store_def init_automerge_def update_views_def empty_document_def get_edges_def)
next
  case (snoc op ops)
  then obtain db1 where "res_fold append_op ops init_plan_store = Inr db1" "append_op op db1 = Inr db"
    by (auto simp: res_fold_snoc_Inr)
  with snoc show ?case by (auto intro: append_related)
qed

theorem stores_agree_witness:
  "\<exists>db. res_fold append_op [demo_plan_op ''a1'' 3 ADD_TASK [], demo_plan_op ''a2'' 5 STATE [(''state'', JStr ''DECIDED'')]] init_plan_store = Inr db \<and>
     map_of (dc_tasks (am_doc demo_a)) ''t'' = map_of (ps_tasks db) ''t''"
proof -
  let ?ops = "[demo_plan_op ''a1'' 3 ADD_TASK [], demo_plan_op ''a2'' 5 STATE [(''state'', JStr ''DECIDED'')]]"
  have "case res_fold append_op ?ops init_plan_store of Inl e \<Rightarrow> False | Inr db \<Rightarrow> True" by code_simp
  then obtain db where db: "res_fold append_op ?ops init_plan_store = Inr db" by (auto split: sum.splits)
  from stores_agree [OF db] have "stores_related db demo_a"
    by (simp add: demo_plan_op_def demo_store_def)
  with db show ?thesis by (auto simp: stores_related_def)
qed

section \<open>The state of a task\<close>

definition state_op :: "string \<Rightarrow> plan_op \<Rightarrow> bool" where
  "state_op t op \<longleftrightarrow> po_type op = STATE \<and> po_task_id op = t"

definition add_op :: "string \<Rightarrow> plan_op \<Rightarrow> bool" where
  "add_op t op \<longleftrightarrow> po_type op = ADD_TASK \<and> po_task_id op = t"

text \<open>Operations are causal for a task when every state change is later than the creation of the
  task and no two state changes have the same Lamport time.\<close>

definition causal :: "string \<Rightarrow> plan_op set \<Rightarrow> bool" where
  "causal t ops \<longleftrightarrow>
     (\<forall>s \<in> ops. state_op t s \<longrightarrow> 0 < po_lamport s \<and> (\<forall>a \<in> ops. add_op t a \<longrightarrow> po_lamport a < po_lamport s)) \<and>
     inj_on po_lamport {s \<in> ops. state_op t s}"

definition is_latest :: "string \<Rightarrow> plan_op set \<Rightarrow> plan_op \<Rightarrow> bool" where
  "is_latest t ops s \<longleftrightarrow> s \<in> ops \<and> state_op t s \<and> (\<forall>s' \<in> ops. state_op t s' \<longrightarrow> po_lamport s' \<le> po_lamport s)"

definition task_spec :: "string \<Rightarrow> plan_op set \<Rightarrow> task_row option \<Rightarrow> bool" where
  "task_spec t ops row \<longleftrightarrow>
     (case row of
        None \<Rightarrow> \<not> (\<exists>op \<in> ops. add_op t op \<or> state_op t op)
      | Some r \<Rightarrow>
          (\<exists>s. is_latest t ops s \<and> payload_string ''state'' s = Inr (tk_state r) \<and> tk_last_lamport r = po_lamport s) \<or>
          (\<not> (\<exists>s \<in> ops. state_op t s) \<and> tk_state r = ''DRAFT'' \<and>
           (\<exists>a \<in> ops. add_op t a \<and> tk_last_lamport r = po_lamport a)))"

lemma causal_subset: "causal t B \<Longrightarrow> A \<subseteq> B \<Longrightarrow> causal t A"
  unfolding causal_def by (blast intro: inj_on_subset)

lemma get_task_append:
  assumes "append_op op db = Inr db'"
  shows "get_task t db' =
    (if add_op t op then
       (case get_task t db of
          None \<Rightarrow> Some \<lparr>tk_thread_id = po_thread_id op, tk_task_type = payload_get ''type'' op,
                  tk_state = ''DRAFT'', tk_last_lamport = po_lamport op\<rparr>
        | Some r \<Rightarrow> Some r)
     else if state_op t op then
       (let r = (case get_task t db of
                   None \<Rightarrow> \<lparr>tk_thread_id = po_thread_id op, tk_task_type = JNull, tk_state = ''DRAFT'', tk_last_lamport = 0\<rparr>
                 | Some r \<Rightarrow> r)
        in Some (if tk_last_lamport r < po_lamport op
                 then r\<lparr>tk_state := projr (payload_string ''state'' op), tk_last_lamport := po_lamport op\<rparr> else r))
     else get_task t db)"
  using assms
  by (cases "po_type op")
     (auto simp: append_op_def apply_op_def get_task_def insert_task_or_ignore_def has_key_def add_op_def
       state_op_def res_simps Let_def split: if_splits option.splits)

lemma state_payload: "append_op op db = Inr db' \<Longrightarrow> state_op t op \<Longrightarrow>
    payload_string ''state'' op = Inr (projr (payload_string ''state'' op))"
  by (auto simp: append_op_def apply_op_def state_op_def res_simps Let_def split: if_splits)

lemma task_spec_step:
  assumes "task_spec t ops (get_task t db)" and "append_op op db = Inr db'" and "causal t (insert op ops)"
  shows "task_spec t (insert op ops) (get_task t db')"
proof (cases "state_op t op")
  case False
  show ?thesis
  proof (cases "add_op t op")
    case True
    with False assms(1) show ?thesis
      unfolding get_task_append [OF assms(2)]
      by (auto simp: task_spec_def is_latest_def split: option.splits)
  next
    case False
    with \<open>\<not> state_op t op\<close> assms(1) show ?thesis
      unfolding get_task_append [OF assms(2)]
      by (auto simp: task_spec_def is_latest_def split: option.splits)
  qed
next
  case True
  then have na: "\<not> add_op t op" by (auto simp: add_op_def state_op_def)
  note p = state_payload [OF assms(2) True]
  have pos: "0 < po_lamport op" and aft: "\<And>a. a \<in> ops \<Longrightarrow> add_op t a \<Longrightarrow> po_lamport a < po_lamport op"
    and inj: "\<And>s. s \<in> ops \<Longrightarrow> state_op t s \<Longrightarrow> po_lamport s = po_lamport op \<Longrightarrow> s = op"
    using assms(3) True by (auto simp: causal_def dest: inj_onD)
  show ?thesis
  proof (cases "get_task t db")
    case None
    then have "get_task t db' = Some \<lparr>tk_thread_id = po_thread_id op, tk_task_type = JNull,
        tk_state = projr (payload_string ''state'' op), tk_last_lamport = po_lamport op\<rparr>"
      using True na pos by (simp add: get_task_append [OF assms(2)])
    moreover have "is_latest t (insert op ops) op"
      using assms(1) None True by (auto simp: task_spec_def is_latest_def)
    ultimately show ?thesis using p by (auto simp: task_spec_def)
  next
    case (Some r)
    show ?thesis
    proof (cases "tk_last_lamport r < po_lamport op")
      case True
      have "is_latest t (insert op ops) op"
        using assms(1) Some True \<open>state_op t op\<close> by (fastforce simp: task_spec_def is_latest_def)
      moreover have "get_task t db' = Some (r\<lparr>tk_state := projr (payload_string ''state'' op), tk_last_lamport := po_lamport op\<rparr>)"
        using Some True \<open>state_op t op\<close> na by (simp add: get_task_append [OF assms(2)])
      ultimately show ?thesis using p by (auto simp: task_spec_def)
    next
      case False
      have "get_task t db' = Some r"
        using Some False \<open>state_op t op\<close> na by (simp add: get_task_append [OF assms(2)])
      moreover obtain s where "is_latest t ops s" "payload_string ''state'' s = Inr (tk_state r)" "tk_last_lamport r = po_lamport s"
        using assms(1) Some False aft by (auto simp: task_spec_def)
      moreover from this have "is_latest t (insert op ops) s" using False by (auto simp: is_latest_def)
      ultimately show ?thesis by (auto simp: task_spec_def)
    qed
  qed
qed

lemma task_spec_run:
  "res_fold append_op ops init_plan_store = Inr db \<Longrightarrow> causal t (set ops) \<Longrightarrow> task_spec t (set ops) (get_task t db)"
proof (induction ops arbitrary: db rule: rev_induct)
  case Nil
  then show ?case by (auto simp: task_spec_def get_task_def init_plan_store_def)
next
  case (snoc op ops)
  then obtain db1 where d: "res_fold append_op ops init_plan_store = Inr db1" "append_op op db1 = Inr db"
    by (auto simp: res_fold_snoc_Inr)
  have "causal t (set ops)" using snoc.prems(2) by (rule causal_subset) auto
  from task_spec_step [OF snoc.IH [OF d(1) this] d(2)] snoc.prems(2) show ?case by simp
qed

text \<open>Claim C15. The state of a task is the one of the latest state change: for operations that are causal
  for the task, delivered in any order, the task exists exactly when something created it, and
  its state is the payload of the STATE operation with the greatest Lamport time, or DRAFT if
  there is none; so two replicas that received the same operations in different orders agree.\<close>

theorem plan_state_is_latest:
  assumes "res_fold append_op ops init_plan_store = Inr db" and "res_fold append_op ops' init_plan_store = Inr db'"
    and "set ops = set ops'" and "causal t (set ops)"
  shows "task_spec t (set ops) (get_task t db) \<and>
    map_option tk_state (get_task t db) = map_option tk_state (get_task t db')"
proof -
  have a: "task_spec t (set ops) (get_task t db)" using assms(1,4) by (rule task_spec_run)
  have b: "task_spec t (set ops) (get_task t db')" using task_spec_run [OF assms(2)] assms(3,4) by simp
  have uniq: "s = s'" if "is_latest t (set ops) s" "is_latest t (set ops) s'" for s s'
  proof (rule inj_onD)
    show "inj_on po_lamport {s \<in> set ops. state_op t s}" using assms(4) by (simp add: causal_def)
    show "po_lamport s = po_lamport s'" using that by (auto simp: is_latest_def intro: antisym)
  qed (use that in \<open>auto simp: is_latest_def\<close>)
  have "map_option tk_state (get_task t db) = map_option tk_state (get_task t db')"
  proof (cases "get_task t db"; cases "get_task t db'")
    fix r r' assume r: "get_task t db = Some r" "get_task t db' = Some r'"
    show ?thesis
    proof (cases "\<exists>s \<in> set ops. state_op t s")
      case True
      with a b r obtain s s' where s: "is_latest t (set ops) s" "payload_string ''state'' s = Inr (tk_state r)"
        "is_latest t (set ops) s'" "payload_string ''state'' s' = Inr (tk_state r')"
        unfolding task_spec_def by auto
      with uniq [OF s(1,3)] r show ?thesis by simp
    next
      case False
      with a b r have "tk_state r = ''DRAFT''" "tk_state r' = ''DRAFT''"
        unfolding task_spec_def is_latest_def by auto
      with r show ?thesis by simp
    qed
  qed (use a b in \<open>auto simp: task_spec_def is_latest_def\<close>)
  with a show ?thesis by simp
qed

theorem plan_state_is_latest_witness:
  "\<exists>db db'. res_fold append_op [demo_plan_op ''a1'' 3 ADD_TASK [], demo_plan_op ''a2'' 5 STATE [(''state'', JStr ''DECIDED'')]] init_plan_store = Inr db \<and>
     res_fold append_op [demo_plan_op ''a2'' 5 STATE [(''state'', JStr ''DECIDED'')], demo_plan_op ''a1'' 3 ADD_TASK []] init_plan_store = Inr db' \<and>
     map_option tk_state (get_task ''t'' db) = map_option tk_state (get_task ''t'' db')"
proof -
  let ?xs = "[demo_plan_op ''a1'' 3 ADD_TASK [], demo_plan_op ''a2'' 5 STATE [(''state'', JStr ''DECIDED'')]]"
  let ?ys = "[demo_plan_op ''a2'' 5 STATE [(''state'', JStr ''DECIDED'')], demo_plan_op ''a1'' 3 ADD_TASK []]"
  have "case res_fold append_op ?xs init_plan_store of Inl e \<Rightarrow> False | Inr db \<Rightarrow> True"
    "case res_fold append_op ?ys init_plan_store of Inl e \<Rightarrow> False | Inr db \<Rightarrow> True"
    by code_simp+
  then obtain db db' where d: "res_fold append_op ?xs init_plan_store = Inr db" "res_fold append_op ?ys init_plan_store = Inr db'"
    by (auto split: sum.splits)
  have "set ?xs = set ?ys" by auto
  moreover have "causal ''t'' (set ?xs)" by (auto simp: causal_def demo_plan_op_def state_op_def add_op_def inj_on_def)
  ultimately show ?thesis using plan_state_is_latest [OF d] d by blast
qed

text \<open>Without causality the order of delivery matters, even with distinct Lamport times: a state
  change older than the creation of its task is lost when it arrives after the creation and
  kept when it arrives before.\<close>

theorem late_creation_loses_state:
  "\<exists>a s db db'. po_lamport s < po_lamport a \<and>
     res_fold append_op [a, s] init_plan_store = Inr db \<and> res_fold append_op [s, a] init_plan_store = Inr db' \<and>
     map_option tk_state (get_task ''t'' db) = Some ''DRAFT'' \<and>
     map_option tk_state (get_task ''t'' db') = Some ''DECIDED''"
proof -
  let ?a = "demo_plan_op ''a1'' 5 ADD_TASK []" and ?s = "demo_plan_op ''a2'' 3 STATE [(''state'', JStr ''DECIDED'')]"
  have "case res_fold append_op [?a, ?s] init_plan_store of Inl e \<Rightarrow> False
      | Inr db \<Rightarrow> map_option tk_state (get_task ''t'' db) = Some ''DRAFT''"
    "case res_fold append_op [?s, ?a] init_plan_store of Inl e \<Rightarrow> False
      | Inr db \<Rightarrow> map_option tk_state (get_task ''t'' db) = Some ''DECIDED''"
    by code_simp+
  moreover have "po_lamport ?s < po_lamport ?a" by (simp add: demo_plan_op_def)
  ultimately show ?thesis by (fastforce split: sum.splits)
qed

end
