(* ===== verification/Graph.thy ===== *)
theory Graph
  imports Plan
begin

text \<open>
  The derived views of the plan (\<open>src/plan/views.py\<close>): the task indexes with the ready tasks, and
  the graph view with its breadth-first closures, Kahn's topological sort and the depth-first
  cycle search.  Where the code iterates over a Python set, whose order is unspecified, the
  argument \<open>order\<close> lists the elements of a set.
\<close>

section \<open>Task view\<close>

definition by_state :: "(string, task_row) table \<Rightarrow> string \<Rightarrow> string set" where
  "by_state tasks s = fst ` {p \<in> set tasks. tk_state (snd p) = s}"

definition by_thread :: "(string, task_row) table \<Rightarrow> string \<Rightarrow> string set" where
  "by_thread tasks th = fst ` {p \<in> set tasks. tk_thread_id (snd p) = th}"

definition get_tasks_by_state ::
  "(string set \<Rightarrow> string list) \<Rightarrow> (string, task_row) table \<Rightarrow> string \<Rightarrow> (string \<times> task_row) list" where
  "get_tasks_by_state order tasks s =
     List.map_filter (\<lambda>t. map_option (\<lambda>r. (t, r)) (map_of tasks t)) (order (by_state tasks s))"

definition get_tasks_by_thread ::
  "(string set \<Rightarrow> string list) \<Rightarrow> (string, task_row) table \<Rightarrow> string \<Rightarrow> (string \<times> task_row) list" where
  "get_tasks_by_thread order tasks th =
     List.map_filter (\<lambda>t. map_option (\<lambda>r. (t, r)) (map_of tasks t)) (order (by_thread tasks th))"

section \<open>Graph view\<close>

type_synonym 'a edges = "('a, 'a list) table"

definition get_children :: "'a edges \<Rightarrow> 'a \<Rightarrow> 'a list" where
  "get_children es t = (case map_of es t of None \<Rightarrow> [] | Some cs \<Rightarrow> cs)"

fun add_parents :: "'a \<Rightarrow> 'a list \<Rightarrow> 'a edges \<Rightarrow> 'a edges" where
  "add_parents p [] rv = rv"
| "add_parents p (c # cs) rv = add_parents p cs (AList.update c (get_children rv c @ [p]) rv)"

fun build_reverse :: "'a edges \<Rightarrow> 'a edges \<Rightarrow> 'a edges" where
  "build_reverse [] rv = rv"
| "build_reverse ((p, cs) # es) rv = build_reverse es (add_parents p cs rv)"

definition reverse_edges :: "'a edges \<Rightarrow> 'a edges" where
  "reverse_edges es = build_reverse es []"

definition get_parents :: "'a edges \<Rightarrow> 'a \<Rightarrow> 'a list" where
  "get_parents es t = get_children (reverse_edges es) t"

text \<open>A draft task is ready when every parent that is a task is verified or final.\<close>

definition get_ready_tasks ::
  "(string set \<Rightarrow> string list) \<Rightarrow> (string, task_row) table \<Rightarrow> string edges \<Rightarrow> (string \<times> task_row) list" where
  "get_ready_tasks order tasks es =
     filter (\<lambda>(t, r). list_all (\<lambda>p. case map_of tasks p of
                                   None \<Rightarrow> True
                                 | Some pr \<Rightarrow> tk_state pr \<in> {''VERIFIED'', ''FINAL''}) (get_parents es t))
       (get_tasks_by_state order tasks ''DRAFT'')"

text \<open>The breadth-first loops of \<open>get_descendants\<close> and \<open>get_ancestors\<close> are the same code over the
  edges and over the reverse edges.\<close>

fun push_new :: "'a list \<Rightarrow> 'a set \<Rightarrow> 'a list \<Rightarrow> 'a set \<times> 'a list" where
  "push_new [] found queue = (found, queue)"
| "push_new (c # cs) found queue =
     (if c \<in> found then push_new cs found queue else push_new cs (insert c found) (queue @ [c]))"

definition targets :: "'a edges \<Rightarrow> 'a set" where
  "targets es = (\<Union>(p, cs) \<in> set es. set cs)"

lemma finite_targets [simp]: "finite (targets es)"
  by (auto simp: targets_def)

lemma get_children_targets: "set (get_children es t) \<subseteq> targets es"
  by (cases "map_of es t") (force simp: get_children_def targets_def dest: map_of_SomeD)+

lemma push_new_measure:
  assumes "set cs \<subseteq> U" and "finite U"
  shows "card (U - fst (push_new cs found q)) + length (snd (push_new cs found q)) = card (U - found) + length q"
  using assms(1)
proof (induction cs arbitrary: found q)
  case (Cons c cs)
  show ?case
  proof (cases "c \<in> found")
    case False
    with Cons.prems have "c \<in> U - found" by auto
    then have "card (U - found) = Suc (card (U - found - {c}))"
      using assms(2) by (metis card.remove finite_Diff)
    moreover have "U - found - {c} = U - insert c found" by auto
    ultimately show ?thesis using False Cons.IH [of "insert c found" "q @ [c]"] Cons.prems by simp
  qed (use Cons in simp)
qed simp

function closure_loop :: "'a edges \<Rightarrow> 'a list \<Rightarrow> 'a set \<Rightarrow> 'a set \<Rightarrow> 'a set" where
  "closure_loop es [] visited found = found"
| "closure_loop es (cur # queue) visited found =
     (if cur \<in> visited then closure_loop es queue visited found
      else closure_loop es (snd (push_new (get_children es cur) found queue)) (insert cur visited)
             (fst (push_new (get_children es cur) found queue)))"
  by pat_completeness auto

termination
proof (relation "measure (\<lambda>(es, queue, visited, found). card (targets es - found) + length queue)")
  fix es cur queue visited found
  show "((es, snd (push_new (get_children es cur) found queue), insert cur visited,
      fst (push_new (get_children es cur) found queue)), es, cur # queue, visited, found)
    \<in> measure (\<lambda>(es, queue, visited, found). card (targets es - found) + length queue)"
    using push_new_measure [OF get_children_targets finite_targets, of es cur found queue] by simp
qed auto

definition get_descendants :: "'a edges \<Rightarrow> 'a \<Rightarrow> 'a set" where
  "get_descendants es t = closure_loop es [t] {} {}"

definition get_ancestors :: "'a edges \<Rightarrow> 'a \<Rightarrow> 'a set" where
  "get_ancestors es t = closure_loop (reverse_edges es) [t] {} {}"

definition is_reachable :: "'a edges \<Rightarrow> 'a \<Rightarrow> 'a \<Rightarrow> bool" where
  "is_reachable es from_task to_task \<longleftrightarrow> to_task \<in> get_descendants es from_task"

definition all_nodes :: "'a edges \<Rightarrow> 'a set" where
  "all_nodes es = set (keys es) \<union> set (keys (reverse_edges es))"

definition get_leaf_tasks :: "('a set \<Rightarrow> 'a list) \<Rightarrow> 'a edges \<Rightarrow> 'a list" where
  "get_leaf_tasks order es = filter (\<lambda>t. length (get_children es t) = 0) (order (all_nodes es))"

definition get_root_tasks :: "('a set \<Rightarrow> 'a list) \<Rightarrow> 'a edges \<Rightarrow> 'a list" where
  "get_root_tasks order es = filter (\<lambda>t. length (get_parents es t) = 0) (order (all_nodes es))"

section \<open>Topological sort\<close>

datatype graph_error = CyclicGraph | NotInPath | OutOfFuel

fun count_children :: "'a set \<Rightarrow> 'a list \<Rightarrow> ('a \<Rightarrow> int) \<Rightarrow> 'a \<Rightarrow> int" where
  "count_children ids [] deg = deg"
| "count_children ids (c # cs) deg =
     count_children ids cs (if c \<in> ids then deg(c := deg c + 1) else deg)"

fun count_in_degrees :: "'a edges \<Rightarrow> 'a set \<Rightarrow> 'a list \<Rightarrow> ('a \<Rightarrow> int) \<Rightarrow> 'a \<Rightarrow> int" where
  "count_in_degrees es ids [] deg = deg"
| "count_in_degrees es ids (p # ps) deg =
     count_in_degrees es ids ps (count_children ids (get_children es p) deg)"

fun release_children :: "'a set \<Rightarrow> 'a list \<Rightarrow> ('a \<Rightarrow> int) \<Rightarrow> 'a list \<Rightarrow> ('a \<Rightarrow> int) \<times> 'a list" where
  "release_children ids [] deg queue = (deg, queue)"
| "release_children ids (c # cs) deg queue =
     (if c \<in> ids
      then release_children ids cs (deg(c := deg c - 1)) (if deg c - 1 = 0 then queue @ [c] else queue)
      else release_children ids cs deg queue)"

lemma release_children_measure:
  assumes "set cs \<subseteq> U" and "finite U"
  shows "card {c \<in> U. 0 < fst (release_children ids cs deg q) c} + length (snd (release_children ids cs deg q)) \<le>
    card {c \<in> U. 0 < deg c} + length q"
  using assms(1)
proof (induction cs arbitrary: deg q)
  case (Cons c cs)
  show ?case
  proof (cases "c \<in> ids")
    case True
    let ?deg = "deg(c := deg c - 1)" and ?q = "if deg c - 1 = 0 then q @ [c] else q"
    have fin: "finite {x \<in> U. 0 < deg x}" using assms(2) by simp
    have "card {x \<in> U. 0 < ?deg x} + length ?q \<le> card {x \<in> U. 0 < deg x} + length q"
    proof (cases "deg c - 1 = 0")
      case True
      then have "{x \<in> U. 0 < ?deg x} = {x \<in> U. 0 < deg x} - {c}" by auto
      moreover have "c \<in> {x \<in> U. 0 < deg x}" using True Cons.prems by auto
      ultimately have "card {x \<in> U. 0 < deg x} = Suc (card {x \<in> U. 0 < ?deg x})"
        using fin by (metis card.remove)
      with True show ?thesis by simp
    next
      case False
      have "{x \<in> U. 0 < ?deg x} \<subseteq> {x \<in> U. 0 < deg x}" by auto
      with False show ?thesis using fin by (simp add: card_mono)
    qed
    moreover have "card {x \<in> U. 0 < fst (release_children ids cs ?deg ?q) x} +
        length (snd (release_children ids cs ?deg ?q)) \<le> card {x \<in> U. 0 < ?deg x} + length ?q"
      using Cons.prems by (intro Cons.IH) simp
    ultimately show ?thesis using True by (simp del: fun_upd_apply)
  qed (use Cons in simp)
qed simp

function kahn_loop :: "'a edges \<Rightarrow> 'a set \<Rightarrow> ('a \<Rightarrow> int) \<Rightarrow> 'a list \<Rightarrow> 'a list \<Rightarrow> 'a list" where
  "kahn_loop es ids deg [] result = result"
| "kahn_loop es ids deg (cur # queue) result =
     kahn_loop es ids (fst (release_children ids (get_children es cur) deg queue))
       (snd (release_children ids (get_children es cur) deg queue)) (result @ [cur])"
  by pat_completeness auto

termination
proof (relation "measure (\<lambda>(es, ids, deg, queue, result). card {c \<in> targets es. 0 < deg c} + length queue)")
  fix es ids deg cur queue result
  show "((es, ids, fst (release_children ids (get_children es cur) deg queue),
      snd (release_children ids (get_children es cur) deg queue), result @ [cur]), es, ids, deg, cur # queue, result)
    \<in> measure (\<lambda>(es, ids, deg, queue, result). card {c \<in> targets es. 0 < deg c} + length queue)"
    using release_children_measure [OF get_children_targets finite_targets, of es ids cur deg queue]
    by simp
qed auto

definition topological_sort ::
  "('a set \<Rightarrow> 'a list) \<Rightarrow> 'a edges \<Rightarrow> 'a set option \<Rightarrow> graph_error + 'a list" where
  "topological_sort order es task_ids =
     (let ids = (case task_ids of None \<Rightarrow> all_nodes es | Some s \<Rightarrow> s);
          in_degree = count_in_degrees es ids (order ids) (\<lambda>_. 0);
          queue = filter (\<lambda>t. in_degree t = 0) (order ids);
          result = kahn_loop es ids in_degree queue []
      in if length result \<noteq> card ids then Inl CyclicGraph else Inr result)"

section \<open>Cycle search\<close>

record 'a dfs_state =
  df_visited :: "'a set"
  df_rec_stack :: "'a set"
  df_path :: "'a list"
  df_cycles :: "'a list list"

text \<open>The depth-first search with a bound on the depth of the recursion; the depth never exceeds the
  number of nodes, because every call visits a new one.  \<open>path.index(child)\<close> raises when the
  child is not on the path.\<close>

function (sequential) dfs :: "nat \<Rightarrow> 'a edges \<Rightarrow> 'a \<Rightarrow> 'a dfs_state \<Rightarrow> graph_error + bool \<times> 'a dfs_state"
  and dfs_children :: "nat \<Rightarrow> 'a edges \<Rightarrow> 'a \<Rightarrow> 'a list \<Rightarrow> 'a dfs_state \<Rightarrow> graph_error + bool \<times> 'a dfs_state" where
  "dfs 0 es t st = Inl OutOfFuel"
| "dfs (Suc n) es t st =
     dfs_children n es t (get_children es t)
       (st\<lparr>df_visited := insert t (df_visited st), df_rec_stack := insert t (df_rec_stack st),
           df_path := df_path st @ [t]\<rparr>)"
| "dfs_children n es t [] st =
     Inr (False, st\<lparr>df_path := butlast (df_path st), df_rec_stack := df_rec_stack st - {t}\<rparr>)"
| "dfs_children n es t (c # cs) st =
     (if c \<notin> df_visited st then
        (case dfs n es c st of
           Inl e \<Rightarrow> Inl e
         | Inr (True, st) \<Rightarrow> Inr (True, st)
         | Inr (False, st) \<Rightarrow> dfs_children n es t cs st)
      else if c \<in> df_rec_stack st then
        (if c \<in> set (df_path st)
         then Inr (True, st\<lparr>df_cycles := df_cycles st @ [dropWhile (\<lambda>x. x \<noteq> c) (df_path st) @ [c]]\<rparr>)
         else Inl NotInPath)
      else dfs_children n es t cs st)"
  by pat_completeness auto

termination
  by (relation "measures [\<lambda>x. case x of Inl (n, es, t, st) \<Rightarrow> n | Inr (n, es, t, cs, st) \<Rightarrow> n,
        \<lambda>x. case x of Inl (n, es, t, st) \<Rightarrow> 0 | Inr (n, es, t, cs, st) \<Rightarrow> Suc (length cs)]") auto

fun cycles_from :: "nat \<Rightarrow> 'a edges \<Rightarrow> 'a list \<Rightarrow> 'a dfs_state \<Rightarrow> graph_error + 'a dfs_state" where
  "cycles_from n es [] st = Inr st"
| "cycles_from n es (t # ts) st =
     (if t \<in> df_visited st then cycles_from n es ts st
      else case dfs n es t (st\<lparr>df_path := []\<rparr>) of
             Inl e \<Rightarrow> Inl e
           | Inr (b, st) \<Rightarrow> cycles_from n es ts st)"

definition detect_cycles :: "('a set \<Rightarrow> 'a list) \<Rightarrow> 'a edges \<Rightarrow> graph_error + 'a list list" where
  "detect_cycles order es =
     (case cycles_from (Suc (card (all_nodes es))) es (order (all_nodes es))
             \<lparr>df_visited = {}, df_rec_stack = {}, df_path = [], df_cycles = []\<rparr> of
        Inl e \<Rightarrow> Inl e
      | Inr st \<Rightarrow> Inr (df_cycles st))"

end
