(* ===== verification/GraphProps.thy ===== *)
theory GraphProps
  imports Graph PyString
begin

text \<open>
  Correctness of the graph view: the closures are transitive closures, the topological sort returns
  a valid order exactly for acyclic graphs, ready tasks exist while an acyclic plan is unfinished,
  and the cycle search can raise.
\<close>

section \<open>Edges as a relation\<close>

definition edge_rel :: "'a edges \<Rightarrow> ('a \<times> 'a) set" where
  "edge_rel es = {(p, c). c \<in> set (get_children es p)}"

lemma get_children_update [simp]: "get_children (AList.update k cs es) t = (if t = k then cs else get_children es t)"
  by (simp add: get_children_def)

lemma add_parents_children: "set (get_children (add_parents p cs rv) c) = set (get_children rv c) \<union> (if c \<in> set cs then {p} else {})"
  by (induction cs arbitrary: rv) auto

lemma build_reverse_children:
  "set (get_children (build_reverse es rv) c) = set (get_children rv c) \<union> {p. \<exists>cs. (p, cs) \<in> set es \<and> c \<in> set cs}"
proof (induction es arbitrary: rv)
  case (Cons e es)
  obtain p cs where e: "e = (p, cs)" by (cases e)
  show ?case unfolding e build_reverse.simps Cons.IH add_parents_children by auto
qed simp

lemma get_parents_iff:
  assumes "keyed es"
  shows "p \<in> set (get_parents es c) \<longleftrightarrow> (p, c) \<in> edge_rel es"
proof -
  have "set (get_parents es c) = {p. \<exists>cs. (p, cs) \<in> set es \<and> c \<in> set cs}"
    by (simp add: get_parents_def reverse_edges_def build_reverse_children) (simp add: get_children_def)
  then show ?thesis
    using keyed_map_of [OF assms] by (cases "map_of es p") (auto simp: edge_rel_def get_children_def)
qed

section \<open>Closures\<close>

lemma push_new_spec:
  "fst (push_new cs found q) = found \<union> set cs \<and> set (snd (push_new cs found q)) = set q \<union> (set cs - found)"
  by (induction cs arbitrary: found q) auto

lemma closure_loop_spec:
  assumes "found \<subseteq> (edge_rel es)\<^sup>+ `` {t}" and "set queue \<subseteq> insert t ((edge_rel es)\<^sup>+ `` {t})"
    and "\<forall>x \<in> visited. set (get_children es x) \<subseteq> found" and "insert t found \<subseteq> visited \<union> set queue"
  shows "closure_loop es queue visited found = (edge_rel es)\<^sup>+ `` {t}"
  using assms
proof (induction es queue visited found rule: closure_loop.induct)
  case (1 es visited found)
  have "y \<in> found" if "(t, y) \<in> (edge_rel es)\<^sup>+" for y
    using that
  proof (induction rule: trancl_induct)
    case (base y)
    then show ?case using 1 by (auto simp: edge_rel_def)
  next
    case (step y z)
    then show ?case using 1 by (auto simp: edge_rel_def)
  qed
  with 1 show ?case by auto
next
  case (2 es cur queue visited found)
  show ?case
  proof (cases "cur \<in> visited")
    case True
    have "closure_loop es queue visited found = (edge_rel es)\<^sup>+ `` {t}"
      using True 2(3-6) by (intro 2(1)) auto
    with True show ?thesis by simp
  next
    case False
    let ?f = "fst (push_new (get_children es cur) found queue)" and ?q = "snd (push_new (get_children es cur) found queue)"
    have fq: "?f = found \<union> set (get_children es cur)" "set ?q = set queue \<union> (set (get_children es cur) - found)"
      using push_new_spec [of "get_children es cur" found queue] by simp_all
    have reach: "set (get_children es cur) \<subseteq> (edge_rel es)\<^sup>+ `` {t}"
    proof
      fix c assume "c \<in> set (get_children es cur)"
      then have e: "(cur, c) \<in> edge_rel es" by (simp add: edge_rel_def)
      have "cur = t \<or> (t, cur) \<in> (edge_rel es)\<^sup>+" using 2(4) by auto
      with e show "c \<in> (edge_rel es)\<^sup>+ `` {t}" by (auto intro: trancl_into_trancl)
    qed
    have "closure_loop es ?q (insert cur visited) ?f = (edge_rel es)\<^sup>+ `` {t}"
    proof (rule 2(2) [OF False])
      show "?f \<subseteq> (edge_rel es)\<^sup>+ `` {t}" using 2(3) reach fq(1) by blast
      show "set ?q \<subseteq> insert t ((edge_rel es)\<^sup>+ `` {t})" using 2(4) reach fq(2) by auto
      show "\<forall>x \<in> insert cur visited. set (get_children es x) \<subseteq> ?f" using 2(5) fq(1) by blast
      show "insert t ?f \<subseteq> insert cur visited \<union> set ?q" using 2(6) fq by auto
    qed
    with False show ?thesis by simp
  qed
qed

lemma get_descendants_eq: "get_descendants es t = {d. (t, d) \<in> (edge_rel es)\<^sup>+}"
proof -
  have "get_descendants es t = (edge_rel es)\<^sup>+ `` {t}"
    unfolding get_descendants_def by (rule closure_loop_spec) auto
  then show ?thesis by auto
qed

lemma reverse_edge_rel: "keyed es \<Longrightarrow> edge_rel (reverse_edges es) = (edge_rel es)\<inverse>"
  using get_parents_iff [of es] by (auto simp: edge_rel_def [of "reverse_edges es"] get_parents_def [symmetric])

text \<open>The two breadth-first searches compute transitive closures: the descendants of a task are
  exactly the tasks reached by one or more edges, the ancestors exactly those that reach it (the
  task itself only when it lies on a cycle), and \<open>is_reachable\<close> is reachability; in particular
  ancestor and descendant are converse relations.\<close>

theorem closures_exact:
  assumes "keyed es"
  shows "get_descendants es t = {d. (t, d) \<in> (edge_rel es)\<^sup>+} \<and> get_ancestors es t = {a. (a, t) \<in> (edge_rel es)\<^sup>+} \<and>
    (is_reachable es s t \<longleftrightarrow> s \<in> get_ancestors es t)"
proof -
  have "get_ancestors es t = get_descendants (reverse_edges es) t"
    by (simp add: get_ancestors_def get_descendants_def)
  also have "\<dots> = {a. (a, t) \<in> (edge_rel es)\<^sup>+}"
    unfolding get_descendants_eq reverse_edge_rel [OF assms] trancl_converse by auto
  finally show ?thesis by (auto simp: is_reachable_def get_descendants_eq)
qed

theorem closures_exact_witness:
  "is_reachable [(''a'', [''b'']), (''b'', [''c''])] ''a'' ''c'' \<and>
   ''a'' \<in> get_ancestors [(''a'', [''b'']), (''b'', [''c''])] ''c''"
proof -
  let ?es = "[(''a'', [''b'']), (''b'', [''c''])] :: string edges"
  have "is_reachable ?es ''a'' ''c''" by code_simp
  with closures_exact [of ?es] show ?thesis by (simp add: keyed_def)
qed

section \<open>Topological sort\<close>

definition sub_rel :: "'a edges \<Rightarrow> 'a set \<Rightarrow> ('a \<times> 'a) set" where
  "sub_rel es ids = {(p, c). p \<in> ids \<and> c \<in> ids \<and> c \<in> set (get_children es p)}"

definition multiplicity :: "'a edges \<Rightarrow> 'a \<Rightarrow> 'a \<Rightarrow> int" where
  "multiplicity es p c = int (count_list (get_children es p) c)"

lemma multiplicity_nonneg [simp]: "0 \<le> multiplicity es p c"
  by (simp add: multiplicity_def)

lemma multiplicity_zero: "multiplicity es p c = 0 \<longleftrightarrow> c \<notin> set (get_children es p)"
  by (simp add: multiplicity_def count_list_0_iff)

lemma count_children_eq:
  "count_children ids cs deg c = deg c + (if c \<in> ids then int (count_list cs c) else 0)"
  by (induction cs arbitrary: deg) auto

lemma count_in_degrees_eq:
  "count_in_degrees es ids ps deg c = deg c + (if c \<in> ids then (\<Sum>p\<leftarrow>ps. multiplicity es p c) else 0)"
  by (induction ps arbitrary: deg) (auto simp: count_children_eq multiplicity_def)

lemma release_children_deg:
  "fst (release_children ids cs deg q) c = deg c - (if c \<in> ids then int (count_list cs c) else 0)"
  by (induction cs arbitrary: deg q) auto

lemma release_children_queue:
  assumes "\<forall>c \<in> ids. int (count_list cs c) \<le> deg c"
  shows "\<exists>new. snd (release_children ids cs deg q) = q @ new \<and> distinct new \<and>
    set new = {c \<in> ids. c \<in> set cs \<and> deg c = int (count_list cs c)}"
  using assms
proof (induction cs arbitrary: deg q)
  case (Cons c cs)
  show ?case
  proof (cases "c \<in> ids")
    case True
    let ?deg = "deg(c := deg c - 1)"
    have le: "\<forall>x \<in> ids. int (count_list cs x) \<le> ?deg x"
      using Cons.prems by (auto split: if_splits)
    obtain new where new: "snd (release_children ids cs ?deg (if deg c - 1 = 0 then q @ [c] else q)) =
        (if deg c - 1 = 0 then q @ [c] else q) @ new" "distinct new"
      "set new = {x \<in> ids. x \<in> set cs \<and> ?deg x = int (count_list cs x)}"
      using Cons.IH [OF le] by blast
    have rel: "snd (release_children ids (c # cs) deg q) =
        snd (release_children ids cs ?deg (if deg c - 1 = 0 then q @ [c] else q))"
      using True by simp
    have bound: "int (count_list cs c) \<le> deg c - 1" using Cons.prems True by auto
    have mem: "x \<in> set new \<longleftrightarrow> x \<in> ids \<and> x \<in> set cs \<and> deg x = int (count_list (c # cs) x)" for x
      unfolding new(3) by auto
    show ?thesis
    proof (cases "deg c = 1")
      case one: True
      with bound have c0: "count_list cs c = 0" by simp
      then have c: "c \<notin> set cs" by (simp add: count_list_0_iff)
      have "set (c # new) = {x \<in> ids. x \<in> set (c # cs) \<and> deg x = int (count_list (c # cs) x)}"
      proof (rule set_eqI)
        fix x
        show "x \<in> set (c # new) \<longleftrightarrow> x \<in> {x \<in> ids. x \<in> set (c # cs) \<and> deg x = int (count_list (c # cs) x)}"
          using mem [of x] True one c0 by (cases "x = c") simp_all
      qed
      moreover have "distinct (c # new)" using new(2) mem c by auto
      moreover have "snd (release_children ids (c # cs) deg q) = q @ c # new"
        unfolding rel new(1) using one by simp
      ultimately show ?thesis by blast
    next
      case False
      have "c \<in> set cs" if "deg c = int (count_list (c # cs) c)"
      proof (rule ccontr)
        assume "c \<notin> set cs"
        then have "count_list cs c = 0" by simp
        with that False show False by simp
      qed
      then have c: "deg c = int (count_list (c # cs) c) \<longrightarrow> c \<in> set cs" by blast
      have "set new = {x \<in> ids. x \<in> set (c # cs) \<and> deg x = int (count_list (c # cs) x)}"
      proof (rule set_eqI)
        fix x
        show "x \<in> set new \<longleftrightarrow> x \<in> {x \<in> ids. x \<in> set (c # cs) \<and> deg x = int (count_list (c # cs) x)}"
          unfolding mem mem_Collect_eq list.set insert_iff using c by blast
      qed
      moreover have "snd (release_children ids (c # cs) deg q) = q @ new"
        unfolding rel new(1) using False by simp
      ultimately show ?thesis using new(2) by blast
    qed
  next
    case False
    with Cons.IH [of deg q] Cons.prems show ?thesis by (auto split: if_splits)
  qed
qed simp

definition pre_closed :: "('a \<times> 'a) set \<Rightarrow> 'a list \<Rightarrow> bool" where
  "pre_closed r xs \<longleftrightarrow> (\<forall>as c bs. xs = as @ c # bs \<longrightarrow> {p. (p, c) \<in> r} \<subseteq> set as)"

lemma pre_closed_snoc: "pre_closed r xs \<Longrightarrow> {p. (p, c) \<in> r} \<subseteq> set xs \<Longrightarrow> pre_closed r (xs @ [c])"
  by (auto simp: pre_closed_def append_eq_append_conv2 append_eq_Cons_conv Cons_eq_append_conv)

text \<open>The counters may exceed the number of waiting parents by a constant \<open>extra\<close>: a task with a
  positive excess is never released.\<close>

definition kahn_inv :: "'a edges \<Rightarrow> 'a set \<Rightarrow> ('a \<Rightarrow> int) \<Rightarrow> ('a \<Rightarrow> int) \<Rightarrow> 'a list \<Rightarrow> 'a list \<Rightarrow> bool" where
  "kahn_inv es ids extra deg queue result \<longleftrightarrow>
     distinct (result @ queue) \<and> set (result @ queue) \<subseteq> ids \<and>
     (\<forall>c \<in> ids. 0 \<le> extra c \<and> deg c = extra c + (\<Sum>p \<in> ids - set result. multiplicity es p c)) \<and>
     (\<forall>c \<in> ids. c \<in> set (result @ queue) \<longleftrightarrow> deg c = 0) \<and> pre_closed (sub_rel es ids) result"

lemma kahn_step:
  assumes fin: "finite ids" and inv: "kahn_inv es ids extra deg (cur # queue) result"
  shows "kahn_inv es ids extra (fst (release_children ids (get_children es cur) deg queue))
    (snd (release_children ids (get_children es cur) deg queue)) (result @ [cur])"
proof -
  let ?deg = "fst (release_children ids (get_children es cur) deg queue)"
  have cur: "cur \<in> ids" "cur \<notin> set result" "cur \<notin> set queue" using inv by (auto simp: kahn_inv_def)
  have ext: "0 \<le> extra c" and deg: "deg c = extra c + (\<Sum>p \<in> ids - set result. multiplicity es p c)" if "c \<in> ids" for c
    using inv that by (simp_all add: kahn_inv_def)
  have split: "deg c = extra c + multiplicity es cur c + (\<Sum>p \<in> ids - set (result @ [cur]). multiplicity es p c)" if "c \<in> ids" for c
  proof -
    have "ids - set (result @ [cur]) = ids - set result - {cur}" by auto
    then show ?thesis using deg [OF that] cur fin by (simp add: sum.remove [of _ cur])
  qed
  have le: "\<forall>c \<in> ids. int (count_list (get_children es cur) c) \<le> deg c"
  proof
    fix c assume "c \<in> ids"
    from split [OF this] ext [OF this] show "int (count_list (get_children es cur) c) \<le> deg c"
      using sum_nonneg [of "ids - set (result @ [cur])" "\<lambda>p. multiplicity es p c"]
      by (simp add: multiplicity_def)
  qed
  obtain new where new: "snd (release_children ids (get_children es cur) deg queue) = queue @ new" "distinct new"
    "set new = {c \<in> ids. c \<in> set (get_children es cur) \<and> deg c = multiplicity es cur c}"
    using release_children_queue [OF le, of queue] by (auto simp: multiplicity_def)
  have deg': "?deg c = deg c - multiplicity es cur c" if "c \<in> ids" for c
    using that by (simp add: release_children_deg multiplicity_def)
  have zero: "c \<in> set (result @ cur # queue) \<longleftrightarrow> deg c = 0" if "c \<in> ids" for c
    using inv that by (simp add: kahn_inv_def)
  have new_pos: "deg c \<noteq> 0" if "c \<in> set new" for c
    using that new(3) multiplicity_zero [of es cur c] by auto
  have old0: "multiplicity es cur c = 0" if "c \<in> ids" "deg c = 0" for c
    using split [OF that(1)] ext [OF that(1)] that(2) multiplicity_nonneg [of es cur c]
      sum_nonneg [of "ids - set (result @ [cur])" "\<lambda>p. multiplicity es p c", OF multiplicity_nonneg]
    by linarith
  have "{p. (p, cur) \<in> sub_rel es ids} \<subseteq> set result"
  proof
    fix p assume "p \<in> {p. (p, cur) \<in> sub_rel es ids}"
    then have p: "p \<in> ids" "cur \<in> set (get_children es p)" by (auto simp: sub_rel_def)
    have "(\<Sum>p \<in> ids - set result. multiplicity es p cur) = 0"
      using zero [OF cur(1)] deg [OF cur(1)] ext [OF cur(1)] sum_nonneg [of "ids - set result" "\<lambda>p. multiplicity es p cur"]
      by simp
    then have "\<forall>p \<in> ids - set result. multiplicity es p cur = 0"
      using fin by (simp add: sum_nonneg_eq_0_iff)
    with p show "p \<in> set result" using multiplicity_zero [of es p cur] by blast
  qed
  then have "pre_closed (sub_rel es ids) (result @ [cur])"
    using inv by (intro pre_closed_snoc) (auto simp: kahn_inv_def)
  moreover have "distinct ((result @ [cur]) @ queue @ new)"
  proof -
    have "x \<notin> set (result @ cur # queue)" if "x \<in> set new" for x
      using that zero [of x] new_pos [of x] new(3) by blast
    moreover have "distinct (result @ cur # queue)" using inv by (simp add: kahn_inv_def)
    ultimately show ?thesis using new(2) by auto
  qed
  moreover have "set ((result @ [cur]) @ queue @ new) \<subseteq> ids"
    using inv new(3) by (auto simp: kahn_inv_def)
  moreover have "\<forall>c \<in> ids. 0 \<le> extra c \<and> ?deg c = extra c + (\<Sum>p \<in> ids - set (result @ [cur]). multiplicity es p c)"
    using deg' split ext by simp
  moreover have "\<forall>c \<in> ids. c \<in> set ((result @ [cur]) @ queue @ new) \<longleftrightarrow> ?deg c = 0"
  proof
    fix c assume c: "c \<in> ids"
    have "c \<in> set new \<longleftrightarrow> deg c \<noteq> 0 \<and> deg c = multiplicity es cur c"
      using c new(3) new_pos multiplicity_zero [of es cur c] by auto
    then show "c \<in> set ((result @ [cur]) @ queue @ new) \<longleftrightarrow> ?deg c = 0"
      using c zero [OF c] deg' [OF c] old0 [OF c] by auto
  qed
  ultimately show ?thesis unfolding kahn_inv_def new(1) by blast
qed

lemma kahn_loop_inv:
  assumes "finite ids" and "kahn_inv es ids extra deg queue result"
  shows "\<exists>deg'. kahn_inv es ids extra deg' [] (kahn_loop es ids deg queue result)"
  using assms
proof (induction es ids deg queue result rule: kahn_loop.induct)
  case (2 es ids deg cur queue result)
  then show ?case using kahn_step [OF 2(2,3)] by simp
qed auto

lemma takeWhile_first: "c \<notin> set as \<Longrightarrow> takeWhile (\<lambda>y. y \<noteq> c) (as @ c # bs) = as"
  by (induction as) auto

lemma pre_closed_acyclic:
  assumes "pre_closed r xs" and "\<And>p c. (p, c) \<in> r \<Longrightarrow> c \<in> set xs" and "distinct xs"
  shows "acyclic r"
proof (rule wf_acyclic, rule wf_subset)
  let ?f = "\<lambda>x. length (takeWhile (\<lambda>y. y \<noteq> x) xs)"
  show "wf (measure ?f)" by simp
  show "r \<subseteq> measure ?f"
  proof (clarsimp)
    fix p c assume e: "(p, c) \<in> r"
    then obtain as bs where xs: "xs = as @ c # bs" using assms(2) by (meson split_list)
    then have c: "c \<notin> set as" using assms(3) by simp
    have p: "p \<in> set as" using assms(1) e xs by (auto simp: pre_closed_def)
    then obtain us vs where as: "as = us @ p # vs" "p \<notin> set us" by (meson split_list_first)
    have "?f c = length as" using c xs by (simp add: takeWhile_first)
    moreover have "?f p = length us" using as xs by (simp add: takeWhile_first)
    ultimately show "?f p < ?f c" using as by simp
  qed
qed

lemma stuck_cyclic:
  assumes "finite R" and "R \<noteq> {}" and "R \<subseteq> ids" and "finite ids"
    and "\<And>c. c \<in> R \<Longrightarrow> \<exists>p \<in> R. (p, c) \<in> sub_rel es ids"
  shows "\<not> acyclic (sub_rel es ids)"
proof
  assume "acyclic (sub_rel es ids)"
  moreover have "finite (sub_rel es ids)"
    by (rule finite_subset [of _ "ids \<times> ids"]) (use assms(4) in \<open>auto simp: sub_rel_def\<close>)
  ultimately have "wf (sub_rel es ids)" by (simp add: finite_acyclic_wf)
  then obtain c where "c \<in> R" "\<And>p. (p, c) \<in> sub_rel es ids \<Longrightarrow> p \<notin> R"
    using assms(2) by (metis wfE_min ex_in_conv)
  with assms(5) show False by blast
qed

lemma kahn_result:
  assumes fin: "finite ids" and start: "kahn_inv es ids extra deg0 queue []"
  defines "r \<equiv> kahn_loop es ids deg0 queue []"
  shows "distinct r" and "set r \<subseteq> ids" and "pre_closed (sub_rel es ids) r"
    and "length r = card ids \<longleftrightarrow> acyclic (sub_rel es ids) \<and> (\<forall>c \<in> ids. extra c = 0)"
    and "length r = card ids \<Longrightarrow> set r = ids"
proof -
  obtain deg where inv: "kahn_inv es ids extra deg [] r"
    using kahn_loop_inv [OF fin start] unfolding r_def by blast
  show dist: "distinct r" and sub: "set r \<subseteq> ids" and pre: "pre_closed (sub_rel es ids) r"
    using inv by (auto simp: kahn_inv_def)
  have len: "length r = card ids \<longleftrightarrow> set r = ids"
    using dist sub fin by (metis card_subset_eq distinct_card)
  then show "length r = card ids \<Longrightarrow> set r = ids" by simp
  have "set r = ids" if ac: "acyclic (sub_rel es ids)" and no: "\<forall>c \<in> ids. extra c = 0"
  proof (rule ccontr)
    assume ne: "set r \<noteq> ids"
    let ?R = "ids - set r"
    have "\<exists>p \<in> ?R. (p, c) \<in> sub_rel es ids" if "c \<in> ?R" for c
    proof -
      have "deg c \<noteq> 0" "deg c = (\<Sum>p \<in> ?R. multiplicity es p c)"
        using inv that no by (auto simp: kahn_inv_def)
      then obtain p where "p \<in> ?R" "multiplicity es p c \<noteq> 0" by (metis sum.neutral)
      with that show ?thesis by (auto simp: sub_rel_def multiplicity_zero)
    qed
    moreover have "?R \<noteq> {}" using ne sub by blast
    ultimately have "\<not> acyclic (sub_rel es ids)" using fin by (intro stuck_cyclic [of ?R]) auto
    with ac show False by simp
  qed
  moreover have "acyclic (sub_rel es ids)" if "set r = ids"
    by (rule pre_closed_acyclic [OF pre _ dist]) (use that in \<open>auto simp: sub_rel_def\<close>)
  moreover have "extra c = 0" if "set r = ids" "c \<in> ids" for c
  proof -
    have "0 \<le> extra c" "extra c + (\<Sum>p \<in> ids - set r. multiplicity es p c) = 0"
      using inv that by (auto simp: kahn_inv_def)
    then show ?thesis using that by simp
  qed
  ultimately show "length r = card ids \<longleftrightarrow> acyclic (sub_rel es ids) \<and> (\<forall>c \<in> ids. extra c = 0)"
    using len by blast
qed

text \<open>Claim C17. Topological sorting is correct: for a finite set of tasks and any iteration order of sets,
  an acyclic graph gives a list that contains every task once, each after all its parents among
  the tasks, and a graph with a cycle raises; repeated edges do no harm.\<close>

theorem topological_sort_correct:
  assumes "lists_sets order" and "finite ids"
  shows "if acyclic (sub_rel es ids)
    then \<exists>xs. topological_sort order es (Some ids) = Inr xs \<and> distinct xs \<and> set xs = ids \<and> pre_closed (sub_rel es ids) xs
    else topological_sort order es (Some ids) = Inl CyclicGraph"
proof -
  have ord: "set (order ids) = ids" "distinct (order ids)" using assms by (auto simp: lists_sets_def)
  let ?deg = "count_in_degrees es ids (order ids) (\<lambda>_. 0)"
  let ?queue = "filter (\<lambda>t. ?deg t = 0) (order ids)"
  have "\<forall>c \<in> ids. ?deg c = (\<Sum>p \<in> ids - set []. multiplicity es p c)"
    using ord by (simp add: count_in_degrees_eq sum_list_distinct_conv_sum_set)
  then have "kahn_inv es ids (\<lambda>_. 0) ?deg ?queue []"
    using ord by (auto simp: kahn_inv_def pre_closed_def)
  note r = kahn_result [OF assms(2) this]
  show ?thesis using r by (auto simp: topological_sort_def Let_def)
qed

theorem topological_sort_correct_witness:
  "\<exists>xs. topological_sort sorted_list_of_set [(''b'', [''a'']), (''c'', [''b''])] (Some {''a'', ''b'', ''c''}) = Inr xs \<and>
     set xs = {''a'', ''b'', ''c''}"
proof -
  let ?es = "[(''b'', [''a'']), (''c'', [''b''])] :: string edges" and ?ids = "{''a'', ''b'', ''c''} :: string set"
  have "sub_rel ?es ?ids \<subseteq> measure (\<lambda>x. if x = ''c'' then 0 else if x = ''b'' then 1 else 2)"
    by (auto simp: sub_rel_def get_children_def split: if_splits)
  then have "acyclic (sub_rel ?es ?ids)" by (rule wf_acyclic [OF wf_subset [OF wf_measure]])
  with topological_sort_correct [OF lists_sets_sorted, of ?ids ?es] show ?thesis by auto
qed

section \<open>Ready tasks\<close>

lemma get_tasks_by_state_iff:
  assumes "lists_sets order" and "keyed tasks"
  shows "(t, r) \<in> set (get_tasks_by_state order tasks s) \<longleftrightarrow> map_of tasks t = Some r \<and> tk_state r = s"
proof -
  have "set (order (by_state tasks s)) = by_state tasks s"
    using assms(1) by (simp add: lists_sets_def by_state_def)
  moreover have "t \<in> by_state tasks s \<longleftrightarrow> (\<exists>r. map_of tasks t = Some r \<and> tk_state r = s)" for t
    using keyed_map_of [OF assms(2)] by (force simp: by_state_def)
  ultimately show ?thesis
    unfolding get_tasks_by_state_def set_map_filter by auto
qed

lemma finite_edge_rel: "finite (edge_rel es)"
proof (rule finite_subset)
  show "edge_rel es \<subseteq> set (keys es) \<times> targets es"
  proof (rule subrelI)
    fix p c assume "(p, c) \<in> edge_rel es"
    then have c: "c \<in> set (get_children es p)" by (simp add: edge_rel_def)
    then obtain cs where "map_of es p = Some cs" by (cases "map_of es p") (auto simp: get_children_def)
    from map_of_SomeD [OF this] c show "(p, c) \<in> set (keys es) \<times> targets es"
      using get_children_targets [of es p] by force
  qed
qed simp

text \<open>An acyclic plan does not get stuck: as long as a task is in draft and every other task is in
  draft, verified or final, some task is ready, for any iteration order of sets; and a task is
  ready exactly when it is in draft and every parent that is a task is verified or final.\<close>

theorem acyclic_plan_has_ready_task:
  assumes "lists_sets order" and "keyed tasks" and "keyed es" and "acyclic (edge_rel es)"
    and "\<forall>r \<in> snd ` set tasks. tk_state r \<in> {''DRAFT'', ''VERIFIED'', ''FINAL''}"
    and "\<exists>r \<in> snd ` set tasks. tk_state r = ''DRAFT''"
  shows "get_ready_tasks order tasks es \<noteq> [] \<and>
    (\<forall>t r. (t, r) \<in> set (get_ready_tasks order tasks es) \<longleftrightarrow> map_of tasks t = Some r \<and> tk_state r = ''DRAFT'' \<and>
       (\<forall>p pr. (p, t) \<in> edge_rel es \<and> map_of tasks p = Some pr \<longrightarrow> tk_state pr \<in> {''VERIFIED'', ''FINAL''}))"
proof -
  have ready: "(t, r) \<in> set (get_ready_tasks order tasks es) \<longleftrightarrow> map_of tasks t = Some r \<and> tk_state r = ''DRAFT'' \<and>
       (\<forall>p pr. (p, t) \<in> edge_rel es \<and> map_of tasks p = Some pr \<longrightarrow> tk_state pr \<in> {''VERIFIED'', ''FINAL''})" for t r
  proof -
    have "(t, r) \<in> set (get_ready_tasks order tasks es) \<longleftrightarrow>
        (t, r) \<in> set (get_tasks_by_state order tasks ''DRAFT'') \<and>
        (\<forall>p \<in> set (get_parents es t). case map_of tasks p of None \<Rightarrow> True | Some pr \<Rightarrow> tk_state pr \<in> {''VERIFIED'', ''FINAL''})"
      by (simp add: get_ready_tasks_def list_all_iff del: insert_iff)
    then show ?thesis
      unfolding get_tasks_by_state_iff [OF assms(1,2)] Ball_def get_parents_iff [OF assms(3)]
      by (auto split: option.splits)
  qed
  let ?D = "{t. \<exists>r. map_of tasks t = Some r \<and> tk_state r = ''DRAFT''}"
  obtain d dr where "(d, dr) \<in> set tasks" "tk_state dr = ''DRAFT''" using assms(6) by auto
  then have d: "d \<in> ?D" using keyed_map_of [OF assms(2)] by blast
  have "wf (edge_rel es)" using finite_edge_rel assms(4) by (rule finite_acyclic_wf)
  from this d obtain t where t: "t \<in> ?D" "\<And>p. (p, t) \<in> edge_rel es \<Longrightarrow> p \<notin> ?D"
    by (rule wfE_min) blast
  then obtain r where r: "map_of tasks t = Some r" "tk_state r = ''DRAFT''" by blast
  have "tk_state pr \<in> {''VERIFIED'', ''FINAL''}" if "(p, t) \<in> edge_rel es" "map_of tasks p = Some pr" for p pr
  proof -
    have "tk_state pr \<noteq> ''DRAFT''" using t(2) [OF that(1)] that(2) by blast
    moreover have "pr \<in> snd ` set tasks" using map_of_SomeD [OF that(2)] by force
    ultimately show ?thesis using assms(5) by blast
  qed
  with r have "(t, r) \<in> set (get_ready_tasks order tasks es)" unfolding ready by blast
  then show ?thesis using ready by (metis empty_iff list.set(1))
qed

definition demo_tasks :: "(string, task_row) table" where
  "demo_tasks = [(''a'', \<lparr>tk_thread_id = ''th'', tk_task_type = JNull, tk_state = ''FINAL'', tk_last_lamport = 1\<rparr>),
     (''b'', \<lparr>tk_thread_id = ''th'', tk_task_type = JNull, tk_state = ''DRAFT'', tk_last_lamport = 2\<rparr>)]"

theorem acyclic_plan_has_ready_task_witness:
  "get_ready_tasks sorted_list_of_set demo_tasks [(''a'', [''b''])] \<noteq> []"
proof -
  let ?es = "[(''a'', [''b''])] :: string edges"
  have "edge_rel ?es \<subseteq> measure (\<lambda>x. if x = ''a'' then 0 else 1)"
    by (auto simp: edge_rel_def get_children_def split: if_splits)
  then have "acyclic (edge_rel ?es)" by (rule wf_acyclic [OF wf_subset [OF wf_measure]])
  then show ?thesis
    using acyclic_plan_has_ready_task [OF lists_sets_sorted, of demo_tasks ?es]
    by (simp add: demo_tasks_def keyed_def)
qed

section \<open>The cycle search\<close>

text \<open>The cycle search can fail: after it has found a cycle it leaves the nodes of that search on its
  recursion stack, so on a graph with the cycle a, b and a further edge from c to a it raises
  ValueError (\<open>path.index\<close>) when c comes after a, while the same graph with c first gives the
  cycle; whether it raises depends on the iteration order of a set.\<close>

theorem detect_cycles_can_raise:
  "detect_cycles (\<lambda>A. [''a'', ''b'', ''c'']) [(''a'', [''b'']), (''b'', [''a'']), (''c'', [''a''])] = Inl NotInPath \<and>
   detect_cycles (\<lambda>A. [''c'', ''a'', ''b'']) [(''a'', [''b'']), (''b'', [''a'']), (''c'', [''a''])] = Inr [[''a'', ''b'', ''a'']] \<and>
   all_nodes [(''a'', [''b'']), (''b'', [''a'']), (''c'', [''a''])] = {''a'', ''b'', ''c''}"
  by code_simp

end
