(* ===== verification/Merkle.thy ===== *)
theory Merkle
  imports Prelude
begin

text \<open>
  The Merkle tree of checkpoints (\<open>src/checkpoint/merkle.py\<close>): construction level by level with the
  last hash of an odd level duplicated, inclusion proofs and their verification.  SHA-256 with
  hexadecimal output is the parameter \<open>h\<close>.  Indices are Python integers, so a negative one
  counts from the end; \<open>None\<close> in the last component of \<open>get_proof\<close> stands for IndexError.
\<close>

record merkle_proof =
  mp_leaf_index :: int
  mp_leaf_hash :: string
  mp_siblings :: "(string \<times> bool) list"
  mp_root_hash :: "string option"

record merkle_tree =
  mt_leaves :: "string list"
  mt_tree :: "string list list"
  mt_root :: "string option"

definition init_tree :: merkle_tree where
  "init_tree = \<lparr>mt_leaves = [], mt_tree = [], mt_root = None\<rparr>"

definition hash_pair :: "(string \<Rightarrow> string) \<Rightarrow> string \<Rightarrow> string \<Rightarrow> string" where
  "hash_pair h l r = h (l @ r)"

fun next_level :: "(string \<Rightarrow> string) \<Rightarrow> string list \<Rightarrow> string list" where
  "next_level h [] = []"
| "next_level h [l] = [hash_pair h l l]"
| "next_level h (l # r # rest) = hash_pair h l r # next_level h rest"

lemma length_next_level: "length (next_level h xs) = (length xs + 1) div 2"
  by (induction h xs rule: next_level.induct) auto

function build_levels :: "(string \<Rightarrow> string) \<Rightarrow> string list \<Rightarrow> string list list" where
  "build_levels h xs = (if length xs > 1 then xs # build_levels h (next_level h xs) else [xs])"
  by pat_completeness auto

termination
  by (relation "measure (\<lambda>(h, xs). length xs)") (auto simp: length_next_level)

declare build_levels.simps [simp del]

definition build_tree :: "(string \<Rightarrow> string) \<Rightarrow> string list \<Rightarrow> merkle_tree \<Rightarrow> string \<times> merkle_tree" where
  "build_tree h leaves t =
     (if leaves = [] then (h '''', t\<lparr>mt_root := Some (h '''')\<rparr>)
      else let levels = build_levels h leaves; root = hd (last levels)
           in (root, t\<lparr>mt_leaves := leaves, mt_tree := levels, mt_root := Some root\<rparr>))"

text \<open>\<open>xs[i]\<close> in Python.\<close>

definition py_nth :: "'a list \<Rightarrow> int \<Rightarrow> 'a option" where
  "py_nth xs i =
     (if 0 \<le> i \<and> i < int (length xs) then Some (xs ! nat i)
      else if - int (length xs) \<le> i \<and> i < 0 then Some (xs ! nat (int (length xs) + i))
      else None)"

fun collect_siblings :: "string list list \<Rightarrow> int \<Rightarrow> (string \<times> bool) list option" where
  "collect_siblings [] i = Some []"
| "collect_siblings [lvl] i = Some []"
| "collect_siblings (level # rest) i =
     (let (sibling_index, is_right) = (if i mod 2 = 0 then (i + 1, True) else (i - 1, False));
          sibling = (if sibling_index < int (length level) then py_nth level sibling_index else py_nth level i)
      in case sibling of
           None \<Rightarrow> None
         | Some s \<Rightarrow> map_option (\<lambda>ss. (s, is_right) # ss) (collect_siblings rest (i div 2)))"

text \<open>The outer option is the result of the method, the inner one the IndexError.\<close>

definition get_proof :: "int \<Rightarrow> merkle_tree \<Rightarrow> merkle_proof option option" where
  "get_proof leaf_index t =
     (if mt_tree t = [] \<or> leaf_index \<ge> int (length (mt_leaves t)) then Some None
      else case collect_siblings (mt_tree t) leaf_index of
        None \<Rightarrow> None
      | Some siblings \<Rightarrow>
          map_option (\<lambda>leaf. Some \<lparr>mp_leaf_index = leaf_index, mp_leaf_hash = leaf,
             mp_siblings = siblings, mp_root_hash = mt_root t\<rparr>) (py_nth (mt_leaves t) leaf_index))"

fun combine :: "(string \<Rightarrow> string) \<Rightarrow> string \<Rightarrow> (string \<times> bool) list \<Rightarrow> string" where
  "combine h cur [] = cur"
| "combine h cur ((s, is_right) # ss) =
     combine h (if is_right then hash_pair h cur s else hash_pair h s cur) ss"

definition verify_proof :: "(string \<Rightarrow> string) \<Rightarrow> string \<Rightarrow> merkle_proof \<Rightarrow> string \<Rightarrow> bool" where
  "verify_proof h leaf_hash p root \<longleftrightarrow>
     (if leaf_hash \<noteq> mp_leaf_hash p then False else combine h leaf_hash (mp_siblings p) = root)"

section \<open>Completeness\<close>

text \<open>The sibling of position \<open>i\<close> in a level.\<close>

definition sibling_at :: "string list \<Rightarrow> nat \<Rightarrow> string \<times> bool" where
  "sibling_at xs i =
     (if even i then (if i + 1 < length xs then xs ! (i + 1) else xs ! i, True) else (xs ! (i - 1), False))"

fun siblings_at :: "string list list \<Rightarrow> nat \<Rightarrow> (string \<times> bool) list" where
  "siblings_at [] i = []"
| "siblings_at [lvl] i = []"
| "siblings_at (level # rest) i = sibling_at level i # siblings_at rest (i div 2)"

lemma next_level_not_Nil [simp]: "next_level h xs = [] \<longleftrightarrow> xs = []"
  by (cases "(h, xs)" rule: next_level.cases) auto

lemma build_levels_not_Nil [simp]: "build_levels h xs \<noteq> []"
  by (simp add: build_levels.simps)

lemma sibling_at_shift: "sibling_at (l # r # rest) (Suc (Suc j)) = sibling_at rest j"
  by (cases j) (auto simp: sibling_at_def)

lemma next_level_nth:
  "i < length xs \<Longrightarrow> next_level h xs ! (i div 2) =
     (case sibling_at xs i of (s, r) \<Rightarrow> if r then hash_pair h (xs ! i) s else hash_pair h s (xs ! i))"
proof (induction h xs arbitrary: i rule: next_level.induct)
  case (3 h l r rest)
  consider "i = 0" | "i = 1" | j where "i = Suc (Suc j)" by (metis One_nat_def not0_implies_Suc)
  then show ?case
  proof cases
    case (3 j)
    then have "j < length rest" using "3.prems" by simp
    from "3.IH" [OF this] show ?thesis unfolding 3 by (simp add: sibling_at_shift split_def)
  qed (auto simp: sibling_at_def)
qed (auto simp: sibling_at_def)

lemma collect_siblings_eq:
  assumes "levels = build_levels h xs" and "i < length xs"
  shows "collect_siblings levels (int i) = Some (siblings_at levels i)"
  using assms
proof (induction h xs arbitrary: i levels rule: build_levels.induct)
  case (1 h xs)
  show ?case
  proof (cases "length xs > 1")
    case True
    let ?rest = "build_levels h (next_level h xs)"
    have lv: "levels = xs # ?rest" using 1(2) True by (subst (asm) build_levels.simps) simp
    obtain lv0 more where rest: "?rest = lv0 # more" by (cases ?rest) auto
    have i2: "i div 2 < length (next_level h xs)" using 1(3) by (simp add: length_next_level)
    have IH: "collect_siblings ?rest (int (i div 2)) = Some (siblings_at ?rest (i div 2))"
      using 1(1) [OF True refl i2] .
    have par: "int i mod 2 = 0 \<longleftrightarrow> even i" by presburger
    have "(if fst (if int i mod 2 = 0 then (int i + 1, True) else (int i - 1, False)) < int (length xs)
        then py_nth xs (fst (if int i mod 2 = 0 then (int i + 1, True) else (int i - 1, False))) else py_nth xs (int i)) =
        Some (fst (sibling_at xs i))"
      using 1(3) by (auto simp: par sibling_at_def py_nth_def nat_add_distrib nat_diff_distrib' elim!: oddE)
    moreover have "snd (if int i mod 2 = 0 then (int i + 1, True) else (int i - 1, False)) = snd (sibling_at xs i)"
      by (simp add: par sibling_at_def)
    ultimately show ?thesis
      using IH unfolding lv rest
      by (auto simp: Let_def split_def zdiv_int)
  next
    case False
    then have "levels = [xs]" using 1(2) by (subst (asm) build_levels.simps) simp
    then show ?thesis by simp
  qed
qed

lemma combine_siblings:
  assumes "levels = build_levels h xs" and "i < length xs"
  shows "combine h (xs ! i) (siblings_at levels i) = hd (last levels)"
  using assms
proof (induction h xs arbitrary: i levels rule: build_levels.induct)
  case (1 h xs)
  show ?case
  proof (cases "length xs > 1")
    case True
    let ?rest = "build_levels h (next_level h xs)"
    have lv: "levels = xs # ?rest" using 1(2) True by (subst (asm) build_levels.simps) simp
    obtain lv0 more where rest: "?rest = lv0 # more" by (cases ?rest) auto
    have i2: "i div 2 < length (next_level h xs)" using 1(3) by (simp add: length_next_level)
    have IH: "combine h (next_level h xs ! (i div 2)) (siblings_at ?rest (i div 2)) = hd (last ?rest)"
      using 1(1) [OF True refl i2] .
    have "siblings_at levels i = sibling_at xs i # siblings_at ?rest (i div 2)" unfolding lv rest by simp
    then show ?thesis
      using IH next_level_nth [OF 1(3), of h] rest unfolding lv
      by (cases "sibling_at xs i") (auto split: if_splits)
  next
    case False
    then have "levels = [xs]" "i = 0" using 1(2,3) by (auto simp: build_levels.simps)
    with 1(3) show ?thesis by (simp add: hd_conv_nth)
  qed
qed

end
