(* ===== verification/MerkleProps.thy ===== *)
theory MerkleProps
  imports Merkle
begin

text \<open>
  What the Merkle tree of checkpoints promises: proofs of its leaves verify, a proof of full depth
  verifies only for a leaf, and the two ways in which a root does not determine its leaves.
\<close>

section \<open>Completeness\<close>

lemma build_tree_fields:
  assumes "leaves \<noteq> []" and "build_tree h leaves t = (root, t')"
  shows "mt_leaves t' = leaves" and "mt_tree t' = build_levels h leaves"
    and "root = hd (last (build_levels h leaves))" and "mt_root t' = Some root"
  using assms by (auto simp: build_tree_def Let_def)

lemma length_siblings_at: "ls \<noteq> [] \<Longrightarrow> length (siblings_at ls j) + 1 = length ls"
  by (induction ls j rule: siblings_at.induct) auto

lemma proof_exists:
  assumes "build_tree h leaves t = (root, t')" and "i < length leaves"
  shows "\<exists>p. get_proof (int i) t' = Some (Some p) \<and> mp_leaf_hash p = leaves ! i \<and>
    mp_root_hash p = Some root \<and> length (mp_siblings p) + 1 = length (mt_tree t') \<and>
    verify_proof h (leaves ! i) p root"
proof -
  have ne: "leaves \<noteq> []" using assms(2) by auto
  note f = build_tree_fields [OF ne assms(1)]
  show ?thesis
    using assms(2) length_siblings_at [of "build_levels h leaves" i]
    by (simp add: get_proof_def f collect_siblings_eq py_nth_def verify_proof_def combine_siblings)
qed

text \<open>
  Claim C18. After \<open>build_tree\<close> on at least one leaf, every position inside the list has a proof,
  the proof carries the leaf and the root, and \<open>verify_proof\<close> accepts it.
\<close>

theorem merkle_proofs_complete:
  assumes "build_tree h leaves t = (root, t')" and "i < length leaves"
  shows "\<exists>p. get_proof (int i) t' = Some (Some p) \<and> mp_leaf_hash p = leaves ! i \<and>
    mp_root_hash p = Some root \<and> length (mp_siblings p) + 1 = length (mt_tree t') \<and>
    verify_proof h (leaves ! i) p root"
  using assms by (rule proof_exists)

lemma merkle_proofs_complete_witness:
  "\<exists>p. get_proof 2 (snd (build_tree (\<lambda>x. x) [''a'', ''b'', ''c''] init_tree)) = Some (Some p) \<and>
    mp_leaf_hash p = ''c'' \<and> mp_root_hash p = Some ''abcc'' \<and> verify_proof (\<lambda>x. x) ''c'' p ''abcc''"
proof -
  have "build_tree (\<lambda>x. x) [''a'', ''b'', ''c''] init_tree =
      (''abcc'', snd (build_tree (\<lambda>x. x) [''a'', ''b'', ''c''] init_tree))"
    by (simp add: build_tree_def build_levels.simps hash_pair_def Let_def)
  from merkle_proofs_complete [OF this, of 2] show ?thesis by auto
qed

section \<open>Soundness\<close>

text \<open>The strings hashed while a tree is built and while a proof is verified.\<close>

fun level_inputs :: "string list \<Rightarrow> string list" where
  "level_inputs [] = []"
| "level_inputs [l] = [l @ l]"
| "level_inputs (l # r # rest) = (l @ r) # level_inputs rest"

definition tree_inputs :: "string list list \<Rightarrow> string list" where
  "tree_inputs levels = concat (map level_inputs (butlast levels))"

fun path_inputs :: "(string \<Rightarrow> string) \<Rightarrow> string \<Rightarrow> (string \<times> bool) list \<Rightarrow> string list" where
  "path_inputs h cur [] = []"
| "path_inputs h cur ((s, is_right) # ss) =
     (let x = (if is_right then cur @ s else s @ cur) in x # path_inputs h (h x) ss)"

lemma next_level_inputs: "next_level h xs = map h (level_inputs xs)"
  by (induction h xs rule: next_level.induct) (auto simp: hash_pair_def)

lemma level_inputs_not_Nil [simp]: "level_inputs xs = [] \<longleftrightarrow> xs = []"
  by (cases xs rule: level_inputs.cases) auto

lemma level_inputs_halves:
  "x \<in> set (level_inputs xs) \<Longrightarrow> \<exists>l\<in>set xs. \<exists>r\<in>set xs. x = l @ r"
  by (induction xs rule: level_inputs.induct) auto

lemma tree_inputs_Cons [simp]:
  "rest \<noteq> [] \<Longrightarrow> tree_inputs (xs # rest) = level_inputs xs @ tree_inputs rest"
  by (simp add: tree_inputs_def)

text \<open>One step down the tree: a node of the next level comes from two nodes of this one.\<close>

lemma node_below:
  assumes "h x \<in> set (next_level h xs)" and "inj_on h A" and "x \<in> A" and "set (level_inputs xs) \<subseteq> A"
  shows "\<exists>l\<in>set xs. \<exists>r\<in>set xs. x = l @ r"
proof -
  obtain y where y: "y \<in> set (level_inputs xs)" "h x = h y"
    using assms(1) by (auto simp: next_level_inputs)
  then have "x = y" using assms(2-4) by (meson inj_onD subsetD)
  with y(1) show ?thesis using level_inputs_halves by blast
qed

lemma combine_sound:
  assumes "levels = build_levels h xs" and "xs \<noteq> []" and "length ss + 1 = length levels"
    and "combine h cur ss = hd (last levels)"
    and "set (tree_inputs levels) \<subseteq> A" and "set (path_inputs h cur ss) \<subseteq> A"
    and "\<forall>x\<in>set xs. length x = n" and "length cur = n" and "inj_on h A" and "\<forall>x. length (h x) = n"
  shows "cur \<in> set xs"
  using assms
proof (induction h xs arbitrary: cur ss levels rule: build_levels.induct)
  case (1 h xs)
  note prems = "1.prems"
  show ?case
  proof (cases "length xs > 1")
    case True
    let ?rest = "build_levels h (next_level h xs)"
    have lv: "levels = xs # ?rest" using prems(1) True by (subst (asm) build_levels.simps) simp
    then obtain s r ss' where ss: "ss = (s, r) # ss'" using prems(3) by (cases ss) auto
    define x where "x = (if r then cur @ s else s @ cur)"
    have path: "path_inputs h cur ss = x # path_inputs h (h x) ss'"
      by (simp add: ss x_def Let_def)
    have "combine h (h x) ss' = hd (last levels)"
      using prems(4) by (cases r) (simp_all add: ss x_def hash_pair_def)
    then have "h x \<in> set (next_level h xs)"
      using "1.IH" [OF True refl, of ss' "h x"] prems(2,3,5,6,9,10) path ss
      by (auto simp: lv next_level_inputs)
    then obtain l r' where lr: "l \<in> set xs" "r' \<in> set xs" "x = l @ r'"
      using node_below [of h x xs A] prems(5,6,9) path lv by auto
    then have "length l = n" "length r' = n" using prems(7) by auto
    with lr prems(8) show ?thesis by (cases r) (auto simp: x_def)
  next
    case False
    then have "levels = [xs]" "length xs = 1"
      using prems(1,2) by (auto simp: build_levels.simps le_Suc_eq not_less)
    then show ?thesis using prems(3,4) by (cases xs) auto
  qed
qed


definition letter_hash :: "string \<Rightarrow> string" where
  "letter_hash x = (if x = ''ab'' then ''d'' else if x = ''cc'' then ''e'' else if x = ''de'' then ''f'' else ''z'')"


section \<open>What a root does not determine\<close>

definition root_of :: "(string \<Rightarrow> string) \<Rightarrow> string list \<Rightarrow> string" where
  "root_of h leaves = fst (build_tree h leaves init_tree)"

lemma root_of_build_levels: "xs \<noteq> [] \<Longrightarrow> root_of h xs = hd (last (build_levels h xs))"
  by (simp add: root_of_def build_tree_def Let_def)

lemma root_of_next_level: "length xs > 1 \<Longrightarrow> root_of h (next_level h xs) = root_of h xs"
  using build_levels.simps [of h xs] by (cases xs) (auto simp: root_of_build_levels)

lemma next_level_repeat_last:
  "odd (length xs) \<Longrightarrow> next_level h (xs @ [last xs]) = next_level h xs"
  by (induction h xs rule: next_level.induct) auto

text \<open>
  The root does not determine the leaves, whatever the hash function: repeating the last
  of an odd number (at least three) of leaves gives the same root, and every node of the first inner
  level is accepted as a leaf under the same root, because leaves and inner nodes are hashed alike
  and the depth of a proof is not checked.
\<close>

theorem merkle_root_not_binding:
  assumes "odd (length leaves)" and "length leaves > 1" and "i < length (next_level h leaves)"
  shows "root_of h (leaves @ [last leaves]) = root_of h leaves \<and>
    (\<exists>p. verify_proof h (next_level h leaves ! i) p (root_of h leaves))"
proof
  have "root_of h (leaves @ [last leaves]) = root_of h (next_level h (leaves @ [last leaves]))"
    using assms(2) by (subst root_of_next_level) auto
  then show "root_of h (leaves @ [last leaves]) = root_of h leaves"
    using assms(1,2) by (simp add: next_level_repeat_last root_of_next_level)
  obtain t' where "build_tree h (next_level h leaves) init_tree = (root_of h (next_level h leaves), t')"
    by (cases "build_tree h (next_level h leaves) init_tree") (auto simp: root_of_def)
  then show "\<exists>p. verify_proof h (next_level h leaves ! i) p (root_of h leaves)"
    using proof_exists assms(2,3) by (metis root_of_next_level)
qed

lemma merkle_root_not_binding_witness:
  "root_of letter_hash [''a'', ''b'', ''c'', ''c''] = root_of letter_hash [''a'', ''b'', ''c''] \<and>
   (\<exists>p. verify_proof letter_hash ''d'' p (root_of letter_hash [''a'', ''b'', ''c'']))"
  using merkle_root_not_binding [of "[''a'', ''b'', ''c'']" 0 letter_hash]
  by (simp add: hash_pair_def letter_hash_def)

end
