(* ===== verification/Dependencies.thy ===== *)
theory Dependencies
  imports Graph
begin

text \<open>
  Dependencies between shards (\<open>sharding/dependencies.py\<close>): the dependency graph with its
  in-degree counters, Kahn's topological sort, the search for cycles, and the rollback handler.
  An edge \<open>from \<rightarrow> to\<close> says that \<open>from\<close> waits for \<open>to\<close>.  Adjacency sets are Python sets,
  so the order of a visit is the argument \<open>order\<close>; dictionaries keep the order of insertion.
\<close>

section \<open>The dependency graph\<close>

record dependency_edge =
  de_from_shard :: int
  de_to_shard :: int
  de_need_id :: string
  de_artifact_refs :: "string list"

record dependency_dag =
  dg_graph :: "(int, int set) table"
  dg_reverse_graph :: "(int, int set) table"
  dg_edges :: "dependency_edge list"
  dg_ready_shards :: "int set"
  dg_completed_shards :: "int set"
  dg_in_degree :: "(int, int) table"

definition empty_dag :: dependency_dag where
  "empty_dag = \<lparr>dg_graph = [], dg_reverse_graph = [], dg_edges = [], dg_ready_shards = {},
     dg_completed_shards = {}, dg_in_degree = []\<rparr>"

text \<open>Reading a \<open>defaultdict(set)\<close> and a \<open>defaultdict(int)\<close>.\<close>

definition shards_at :: "(int, int set) table \<Rightarrow> int \<Rightarrow> int set" where
  "shards_at t k = (case map_of t k of None \<Rightarrow> {} | Some s \<Rightarrow> s)"

definition degree_at :: "(int, int) table \<Rightarrow> int \<Rightarrow> int" where
  "degree_at t k = (case map_of t k of None \<Rightarrow> 0 | Some n \<Rightarrow> n)"

definition add_dependency ::
  "int \<Rightarrow> int \<Rightarrow> string \<Rightarrow> string list option \<Rightarrow> dependency_dag \<Rightarrow> dependency_dag" where
  "add_dependency from_shard to_shard need_id artifact_refs d =
     (let d = d\<lparr>dg_edges := dg_edges d @ [\<lparr>de_from_shard = from_shard, de_to_shard = to_shard, de_need_id = need_id,
            de_artifact_refs = (case artifact_refs of None \<Rightarrow> [] | Some r \<Rightarrow> r)\<rparr>]\<rparr>;
          d = d\<lparr>dg_graph := AList.update from_shard (insert to_shard (shards_at (dg_graph d) from_shard)) (dg_graph d),
                dg_reverse_graph := AList.update to_shard
                  (insert from_shard (shards_at (dg_reverse_graph d) to_shard)) (dg_reverse_graph d)\<rparr>;
          d = d\<lparr>dg_in_degree := AList.update from_shard (degree_at (dg_in_degree d) from_shard + 1) (dg_in_degree d)\<rparr>
      in if \<not> has_key to_shard (dg_graph d)
         then d\<lparr>dg_graph := AList.update to_shard {} (dg_graph d), dg_in_degree := AList.update to_shard 0 (dg_in_degree d)\<rparr>
         else d)"

fun release_waiting :: "int list \<Rightarrow> int set \<Rightarrow> dependency_dag \<Rightarrow> int set \<times> dependency_dag" where
  "release_waiting [] newly_ready d = (newly_ready, d)"
| "release_waiting (s # ss) newly_ready d =
     (let d = d\<lparr>dg_in_degree := AList.update s (degree_at (dg_in_degree d) s - 1) (dg_in_degree d)\<rparr>
      in if degree_at (dg_in_degree d) s = 0 \<and> s \<notin> dg_completed_shards d
         then release_waiting ss (insert s newly_ready) (d\<lparr>dg_ready_shards := insert s (dg_ready_shards d)\<rparr>)
         else release_waiting ss newly_ready d)"

definition mark_shard_complete ::
  "(int set \<Rightarrow> int list) \<Rightarrow> int \<Rightarrow> dependency_dag \<Rightarrow> int set \<times> dependency_dag" where
  "mark_shard_complete order shard_id d =
     (let d = d\<lparr>dg_completed_shards := insert shard_id (dg_completed_shards d)\<rparr>
      in release_waiting (order (shards_at (dg_reverse_graph d) shard_id)) {} d)"

definition get_ready_shards :: "dependency_dag \<Rightarrow> int list" where
  "get_ready_shards d =
     map fst (filter (\<lambda>(shard, degree). degree = 0 \<and> shard \<notin> dg_completed_shards d) (dg_in_degree d))"

definition get_dependencies :: "int \<Rightarrow> dependency_dag \<Rightarrow> int set" where
  "get_dependencies shard_id d = shards_at (dg_graph d) shard_id"

definition get_dependents :: "int \<Rightarrow> dependency_dag \<Rightarrow> int set" where
  "get_dependents shard_id d = shards_at (dg_reverse_graph d) shard_id"

definition get_blocking_shards :: "int \<Rightarrow> dependency_dag \<Rightarrow> int set" where
  "get_blocking_shards shard_id d = get_dependencies shard_id d - dg_completed_shards d"

section \<open>Topological sort\<close>

fun release_dependents :: "int list \<Rightarrow> (int \<Rightarrow> int) \<Rightarrow> int list \<Rightarrow> (int \<Rightarrow> int) \<times> int list" where
  "release_dependents [] deg queue = (deg, queue)"
| "release_dependents (s # ss) deg queue =
     release_dependents ss (deg(s := deg s - 1)) (if deg s - 1 = 0 then queue @ [s] else queue)"

lemma release_dependents_eq: "release_dependents ss deg queue = release_children UNIV ss deg queue"
  by (induction ss arbitrary: deg queue) auto

text \<open>The dependents of a shard, listed; the loop below is the one of \<open>GraphView\<close> on these lists.\<close>

definition dependent_lists :: "(int set \<Rightarrow> int list) \<Rightarrow> (int, int set) table \<Rightarrow> int edges" where
  "dependent_lists order rv = map (\<lambda>(t, fs). (t, order fs)) rv"

definition dependents_of :: "(int set \<Rightarrow> int list) \<Rightarrow> (int, int set) table \<Rightarrow> int \<Rightarrow> int list" where
  "dependents_of order rv s = (case map_of rv s of None \<Rightarrow> [] | Some fs \<Rightarrow> order fs)"

lemma dependents_of_eq: "dependents_of order rv s = get_children (dependent_lists order rv) s"
proof -
  have "map_of (dependent_lists order rv) s = map_option order (map_of rv s)"
    by (simp add: dependent_lists_def map_of_map)
  then show ?thesis by (simp add: dependents_of_def get_children_def split: option.split)
qed

function sort_loop :: "(int set \<Rightarrow> int list) \<Rightarrow> (int, int set) table \<Rightarrow> (int \<Rightarrow> int) \<Rightarrow> int list \<Rightarrow> int list \<Rightarrow> int list" where
  "sort_loop order rv deg [] result = result"
| "sort_loop order rv deg (s # queue) result =
     sort_loop order rv (fst (release_dependents (dependents_of order rv s) deg queue))
       (snd (release_dependents (dependents_of order rv s) deg queue)) (result @ [s])"
  by pat_completeness auto

termination
proof (relation "measure (\<lambda>(order, rv, deg, queue, result).
    card {c \<in> targets (dependent_lists order rv). 0 < deg c} + length queue)")
  fix order rv deg s queue result
  show "((order, rv, fst (release_dependents (dependents_of order rv s) deg queue),
      snd (release_dependents (dependents_of order rv s) deg queue), result @ [s]), order, rv, deg, s # queue, result)
    \<in> measure (\<lambda>(order, rv, deg, queue, result). card {c \<in> targets (dependent_lists order rv). 0 < deg c} + length queue)"
    using release_children_measure [OF get_children_targets [of "dependent_lists order rv" s] finite_targets, of UNIV deg queue]
    by (simp add: dependents_of_eq release_dependents_eq)
qed auto

definition topo_sort_shards :: "(int set \<Rightarrow> int list) \<Rightarrow> dependency_dag \<Rightarrow> int list option" where
  "topo_sort_shards order d =
     (let in_degree = degree_at (dg_in_degree d);
          queue = filter (\<lambda>s. in_degree s = 0) (keys (dg_graph d));
          result = sort_loop order (dg_reverse_graph d) in_degree queue []
      in if length result \<noteq> length (dg_graph d) then None else Some result)"

definition detect_deadlock :: "(int set \<Rightarrow> int list) \<Rightarrow> dependency_dag \<Rightarrow> bool" where
  "detect_deadlock order d \<longleftrightarrow> topo_sort_shards order d = None"

section \<open>Cycle search\<close>

record search_state =
  sr_visited :: "int set"
  sr_rec_stack :: "int set"
  sr_cycles :: "int list list"

text \<open>Every call gets its own copy of the path; \<open>path.index\<close> raises when the shard is not on it.\<close>

function (sequential) search :: "nat \<Rightarrow> (int set \<Rightarrow> int list) \<Rightarrow> (int, int set) table \<Rightarrow> int \<Rightarrow> int list \<Rightarrow> search_state
     \<Rightarrow> graph_error + search_state"
  and search_next :: "nat \<Rightarrow> (int set \<Rightarrow> int list) \<Rightarrow> (int, int set) table \<Rightarrow> int \<Rightarrow> int list \<Rightarrow> int list \<Rightarrow> search_state
     \<Rightarrow> graph_error + search_state" where
  "search 0 order g s path st = Inl OutOfFuel"
| "search (Suc n) order g s path st =
     search_next n order g s (path @ [s]) (order (shards_at g s))
       (st\<lparr>sr_visited := insert s (sr_visited st), sr_rec_stack := insert s (sr_rec_stack st)\<rparr>)"
| "search_next n order g s path [] st = Inr (st\<lparr>sr_rec_stack := sr_rec_stack st - {s}\<rparr>)"
| "search_next n order g s path (t # ts) st =
     (if t \<notin> sr_visited st then
        (case search n order g t path st of Inl e \<Rightarrow> Inl e | Inr st \<Rightarrow> search_next n order g s path ts st)
      else if t \<in> sr_rec_stack st then
        (if t \<in> set path
         then search_next n order g s path ts
                (st\<lparr>sr_cycles := sr_cycles st @ [dropWhile (\<lambda>x. x \<noteq> t) path @ [t]]\<rparr>)
         else Inl NotInPath)
      else search_next n order g s path ts st)"
  by pat_completeness auto

termination
  by (relation "measures [\<lambda>x. case x of Inl (n, _) \<Rightarrow> n | Inr (n, _) \<Rightarrow> n,
        \<lambda>x. case x of Inl (n, _) \<Rightarrow> 0 | Inr (n, order, g, s, path, ts, st) \<Rightarrow> Suc (length ts)]") auto

fun search_all :: "nat \<Rightarrow> (int set \<Rightarrow> int list) \<Rightarrow> (int, int set) table \<Rightarrow> int list \<Rightarrow> search_state
     \<Rightarrow> graph_error + search_state" where
  "search_all n order g [] st = Inr st"
| "search_all n order g (s # ss) st =
     (if s \<notin> sr_visited st
      then res_bind (search n order g s [] st) (search_all n order g ss)
      else search_all n order g ss st)"

definition find_cycles :: "(int set \<Rightarrow> int list) \<Rightarrow> dependency_dag \<Rightarrow> graph_error + int list list" where
  "find_cycles order d =
     res_bind (search_all (Suc (length (dg_graph d))) order (dg_graph d) (keys (dg_graph d))
                 \<lparr>sr_visited = {}, sr_rec_stack = {}, sr_cycles = []\<rparr>)
       (\<lambda>st. Inr (sr_cycles st))"

section \<open>Rollback\<close>

record rollback_record =
  rb_shard_id :: int
  rb_reason :: string
  rb_artifact_refs :: "string list"
  rb_salvaged :: bool
  rb_timestamp_ns :: int

record rollback_handler =
  rh_history :: "rollback_record list"
  rh_salvaged :: "(int, string list) table"

definition refs_at :: "(int, string list) table \<Rightarrow> int \<Rightarrow> string list" where
  "refs_at t k = (case map_of t k of None \<Rightarrow> [] | Some r \<Rightarrow> r)"

definition rollback_shard ::
  "int \<Rightarrow> string \<Rightarrow> string list option \<Rightarrow> int \<Rightarrow> rollback_handler \<Rightarrow> rollback_record \<times> rollback_handler" where
  "rollback_shard shard_id reason artifact_refs now h =
     (let r = \<lparr>rb_shard_id = shard_id, rb_reason = reason,
            rb_artifact_refs = (case artifact_refs of None \<Rightarrow> [] | Some a \<Rightarrow> a), rb_salvaged = False, rb_timestamp_ns = now\<rparr>
      in (r, h\<lparr>rh_history := rh_history h @ [r]\<rparr>))"

text \<open>The last record of the shard is marked: the first one of the reversed history.\<close>

fun mark_first :: "int \<Rightarrow> rollback_record list \<Rightarrow> rollback_record list" where
  "mark_first s [] = []"
| "mark_first s (r # rs) =
     (if rb_shard_id r = s then r\<lparr>rb_salvaged := True\<rparr> # rs else r # mark_first s rs)"

definition salvage_partial_work ::
  "int \<Rightarrow> string list \<Rightarrow> rollback_handler \<Rightarrow> string list \<times> rollback_handler" where
  "salvage_partial_work shard_id artifact_refs h =
     (let h = h\<lparr>rh_salvaged := fold (\<lambda>a t. AList.update shard_id (refs_at t shard_id @ [a]) t) artifact_refs (rh_salvaged h)\<rparr>
      in (artifact_refs, h\<lparr>rh_history := rev (mark_first shard_id (rev (rh_history h)))\<rparr>))"

definition get_salvaged_artifacts :: "int \<Rightarrow> rollback_handler \<Rightarrow> string list" where
  "get_salvaged_artifacts shard_id h = refs_at (rh_salvaged h) shard_id"

definition get_rollback_history :: "int option \<Rightarrow> rollback_handler \<Rightarrow> rollback_record list" where
  "get_rollback_history shard_id h =
     (case shard_id of None \<Rightarrow> rh_history h | Some s \<Rightarrow> filter (\<lambda>r. rb_shard_id r = s) (rh_history h))"

definition clear_history :: "rollback_handler \<Rightarrow> rollback_handler" where
  "clear_history h = h\<lparr>rh_history := [], rh_salvaged := []\<rparr>"

end
