(* ===== verification/Walks.thy ===== *)
theory Walks
  imports Main
begin

text \<open>
  Walks in a relation and the invariant of a depth-first search: a settled set is closed under successors and
  holds no cycle, so a node all of whose successors are settled can join it.
\<close>

fun walk :: "('a \<times> 'a) set \<Rightarrow> 'a list \<Rightarrow> bool" where
  "walk r (x # y # xs) \<longleftrightarrow> (x, y) \<in> r \<and> walk r (y # xs)"
| "walk r xs \<longleftrightarrow> True"

definition closed_walk :: "('a \<times> 'a) set \<Rightarrow> 'a list \<Rightarrow> bool" where
  "closed_walk r c \<longleftrightarrow> length c > 1 \<and> hd c = last c \<and> walk r c"

lemma walk_snoc: "walk r xs \<Longrightarrow> (xs \<noteq> [] \<Longrightarrow> (last xs, y) \<in> r) \<Longrightarrow> walk r (xs @ [y])"
  by (induction r xs rule: walk.induct) auto

lemma walk_suffix: "walk r (xs @ ys) \<Longrightarrow> walk r ys"
proof (induction xs)
  case (Cons x xs)
  then show ?case by (cases "xs @ ys") auto
qed simp

lemma walk_prefix: "walk r (xs @ ys) \<Longrightarrow> walk r xs"
  by (induction r xs rule: walk.induct) auto

lemma walk_trancl: "walk r (x # xs) \<Longrightarrow> xs \<noteq> [] \<Longrightarrow> (x, last xs) \<in> r\<^sup>+"
proof (induction xs arbitrary: x)
  case (Cons y ys)
  then show ?case by (cases ys) (auto intro: trancl_into_trancl2)
qed simp

lemma closed_walk_cyclic: "closed_walk r c \<Longrightarrow> \<not> acyclic r"
proof -
  assume c: "closed_walk r c"
  then have "length c > 1" by (simp add: closed_walk_def)
  then obtain x y ys where "c = x # y # ys" by (cases c; cases "tl c") auto
  with c walk_trancl [of r x "y # ys"] show ?thesis by (auto simp: closed_walk_def acyclic_def)
qed

lemma closed_walk_back_edge:
  assumes "walk r path" and "t \<in> set path" and "(last path, t) \<in> r"
  shows "closed_walk r (dropWhile (\<lambda>x. x \<noteq> t) path @ [t])"
proof -
  obtain us vs where p: "path = us @ t # vs" "t \<notin> set us" using assms(2) by (meson split_list_first)
  then have drop: "dropWhile (\<lambda>x. x \<noteq> t) path = t # vs" by (induction us arbitrary: path) auto
  have "walk r (t # vs)" using assms(1) p walk_suffix by metis
  then have "walk r ((t # vs) @ [t])" using assms(3) p by (intro walk_snoc) auto
  then show ?thesis by (simp add: closed_walk_def drop)
qed

definition settled :: "('a \<times> 'a) set \<Rightarrow> 'a set \<Rightarrow> bool" where
  "settled r B \<longleftrightarrow> (\<forall>x \<in> B. \<forall>y. (x, y) \<in> r \<longrightarrow> y \<in> B) \<and> acyclic (r \<inter> B \<times> B)"

lemma settled_insert:
  assumes "settled r B" and succ: "\<And>y. (s, y) \<in> r \<Longrightarrow> y \<in> B"
  shows "settled r (insert s B)"
proof (cases "s \<in> B")
  case False
  have closed: "\<And>x y. x \<in> B \<Longrightarrow> (x, y) \<in> r \<Longrightarrow> y \<in> B" and ac: "acyclic (r \<inter> B \<times> B)"
    using assms(1) by (auto simp: settled_def)
  let ?r = "r \<inter> insert s B \<times> insert s B"
  have up: "(y, z) \<in> (r \<inter> B \<times> B)\<^sup>+" if "(y, z) \<in> ?r\<^sup>+" "y \<in> B" for y z
    using that
  proof (induction rule: trancl_induct)
    case (base z)
    then show ?case using closed by blast
  next
    case (step z w)
    then have "z \<in> B" by (auto dest: tranclD2)
    with step show ?case using closed by (blast intro: trancl_into_trancl)
  qed
  have "(x, x) \<notin> ?r\<^sup>+" for x
  proof
    assume x: "(x, x) \<in> ?r\<^sup>+"
    then obtain z where z: "(x, z) \<in> ?r" "(z, x) \<in> ?r\<^sup>*" by (auto dest: tranclD)
    then have "z \<in> B" using closed succ by auto
    have "(z, z) \<in> ?r\<^sup>+" using z by (meson r_into_trancl rtrancl_into_trancl1)
    from up [OF this \<open>z \<in> B\<close>] ac show False by (auto simp: acyclic_def)
  qed
  then have "acyclic ?r" by (simp add: acyclic_def)
  then show ?thesis unfolding settled_def using closed succ by blast
qed (simp add: assms(1) insert_absorb)

lemma settled_empty [simp]: "settled r {}"
  by (simp add: settled_def acyclic_def)

lemma settled_all_acyclic: "settled r B \<Longrightarrow> Field r \<subseteq> B \<Longrightarrow> acyclic r"
proof -
  assume "settled r B" "Field r \<subseteq> B"
  moreover from this(2) have "r \<inter> B \<times> B = r" by (auto simp: Field_def)
  ultimately show "acyclic r" by (simp add: settled_def)
qed

end
