(* ===== verification/DependencyProps.thy ===== *)
theory DependencyProps
  imports Dependencies GraphProps Walks
begin

text \<open>
  What the dependency graph of shards promises.  Graphs are those that calls of
  \<open>add_dependency\<close> build; \<open>waits\<close> is the relation the calls describe.
\<close>

section \<open>Graphs built by calls\<close>

type_synonym dependency_call = "int \<times> int \<times> string \<times> string list option"

fun add_call :: "dependency_call \<Rightarrow> dependency_dag \<Rightarrow> dependency_dag" where
  "add_call (f, t, need, refs) d = add_dependency f t need refs d"

definition build_dag :: "dependency_call list \<Rightarrow> dependency_dag" where
  "build_dag cs = fold add_call cs empty_dag"

definition call_edges :: "dependency_call list \<Rightarrow> (int \<times> int) list" where
  "call_edges cs = map (\<lambda>(f, t, _). (f, t)) cs"

definition waits :: "dependency_call list \<Rightarrow> (int \<times> int) set" where
  "waits cs = set (call_edges cs)"

definition shards :: "dependency_call list \<Rightarrow> int set" where
  "shards cs = fst ` waits cs \<union> snd ` waits cs"

lemma shards_at_update [simp]: "shards_at (AList.update k v t) j = (if j = k then v else shards_at t j)"
  by (simp add: shards_at_def)

lemma degree_at_update [simp]: "degree_at (AList.update k v t) j = (if j = k then v else degree_at t j)"
  by (simp add: degree_at_def)

lemma shards_at_absent: "\<not> has_key k t \<Longrightarrow> shards_at t k = {}"
  by (simp add: shards_at_def has_key_def)

text \<open>What a list of calls leaves in the graph.\<close>

definition dag_of :: "(int \<times> int) list \<Rightarrow> dependency_dag \<Rightarrow> bool" where
  "dag_of es d \<longleftrightarrow> keyed (dg_graph d) \<and> keyed (dg_reverse_graph d) \<and> keyed (dg_in_degree d) \<and>
     (\<forall>f. shards_at (dg_graph d) f = {t. (f, t) \<in> set es}) \<and>
     (\<forall>t. shards_at (dg_reverse_graph d) t = {f. (f, t) \<in> set es}) \<and>
     (\<forall>s. has_key s (dg_graph d) \<longleftrightarrow> s \<in> fst ` set es \<union> snd ` set es) \<and>
     (\<forall>s. has_key s (dg_in_degree d) \<longleftrightarrow> s \<in> fst ` set es \<union> snd ` set es) \<and>
     (\<forall>s. degree_at (dg_in_degree d) s = int (length (filter (\<lambda>e. fst e = s) es)))"

lemma filter_none: "s \<notin> fst ` set es \<Longrightarrow> filter (\<lambda>e. fst e = s) es = []"
  by (force simp: filter_empty_conv)

lemma dag_of_add:
  assumes "dag_of es d"
  shows "dag_of (es @ [(f, t)]) (add_dependency f t need refs d)"
proof (cases "t = f \<or> has_key t (dg_graph d)")
  case True
  then show ?thesis
    using assms by (auto simp: dag_of_def add_dependency_def Let_def)
next
  case False
  then have "t \<notin> fst ` set es" using assms by (auto simp: dag_of_def)
  moreover from this have "{x. (t, x) \<in> set es} = {}" by force
  ultimately show ?thesis
    using False assms by (auto simp: dag_of_def add_dependency_def Let_def filter_none)
qed

lemma build_dag_snoc: "build_dag (cs @ [c]) = add_call c (build_dag cs)"
  by (simp add: build_dag_def)

lemma dag_of_build: "dag_of (call_edges cs) (build_dag cs)"
proof (induction cs rule: rev_induct)
  case Nil
  then show ?case
    by (simp add: dag_of_def build_dag_def empty_dag_def call_edges_def shards_at_def degree_at_def has_key_def)
next
  case (snoc c cs)
  obtain f t need refs where c: "c = (f, t, need, refs)" by (cases c)
  show ?case
    using dag_of_add [OF snoc] by (simp add: build_dag_snoc c call_edges_def)
qed

lemma build_dag_completed [simp]: "dg_completed_shards (build_dag cs) = {}"
proof (induction cs rule: rev_induct)
  case (snoc c cs)
  obtain f t need refs where c: "c = (f, t, need, refs)" by (cases c)
  from snoc show ?case by (simp add: build_dag_snoc c add_dependency_def Let_def)
qed (simp add: build_dag_def empty_dag_def)

lemma dag_keys:
  "set (keys (dg_graph (build_dag cs))) = shards cs" "distinct (keys (dg_graph (build_dag cs)))"
proof -
  note dag = dag_of_build [of cs]
  show "set (keys (dg_graph (build_dag cs))) = shards cs"
    by (rule set_eqI) (use dag in \<open>simp add: dag_of_def shards_def waits_def has_key_iff\<close>)
  show "distinct (keys (dg_graph (build_dag cs)))"
    using dag by (simp add: dag_of_def keyed_def)
qed

section \<open>Topological sort\<close>

lemma distinct_by_first:
  "distinct es \<longleftrightarrow> (\<forall>s \<in> fst ` set es. card {t. (s, t) \<in> set es} = length (filter (\<lambda>e. fst e = s) es))"
proof -
  have card: "card {t. (s, t) \<in> set es} = card (set (filter (\<lambda>e. fst e = s) es))" for s
  proof -
    have "set (filter (\<lambda>e. fst e = s) es) = Pair s ` {t. (s, t) \<in> set es}" by auto
    then show ?thesis by (simp add: card_image inj_on_def)
  qed
  have "distinct es \<longleftrightarrow> (\<forall>s \<in> fst ` set es. distinct (filter (\<lambda>e. fst e = s) es))"
  proof (induction es)
    case (Cons e es)
    have "(\<forall>s \<in> fst ` set (e # es). distinct (filter (\<lambda>e. fst e = s) (e # es))) \<longleftrightarrow>
        e \<notin> set es \<and> (\<forall>s \<in> fst ` set (e # es). distinct (filter (\<lambda>e. fst e = s) es))"
      by auto
    also have "(\<forall>s \<in> fst ` set (e # es). distinct (filter (\<lambda>e. fst e = s) es)) \<longleftrightarrow> distinct es"
      unfolding Cons.IH using filter_none [of "fst e" es] by (cases "fst e \<in> fst ` set es") auto
    finally show ?case by simp
  qed simp
  then show ?thesis unfolding card by (metis card_distinct distinct_card)
qed

lemma count_list_distinct: "distinct xs \<Longrightarrow> count_list xs x = (if x \<in> set xs then 1 else 0)"
  by (induction xs) auto

lemma sort_loop_eq:
  assumes "\<And>s. set (dependents_of order rv s) \<subseteq> ids"
  shows "sort_loop order rv deg queue result = kahn_loop (dependent_lists order rv) ids deg queue result"
proof -
  have rel: "release_dependents ss deg queue = release_children ids ss deg queue" if "set ss \<subseteq> ids" for ss deg queue
    using that by (induction ss arbitrary: deg queue) (auto simp del: fun_upd_apply)
  show ?thesis
    using assms
    by (induction order rv deg queue result rule: sort_loop.induct) (simp_all add: rel flip: dependents_of_eq)
qed

text \<open>The excess of a counter over the number of shards waited for.\<close>

definition surplus :: "dependency_call list \<Rightarrow> int \<Rightarrow> int" where
  "surplus cs s = degree_at (dg_in_degree (build_dag cs)) s - int (card {t. (s, t) \<in> waits cs})"

lemma degree_build: "degree_at (dg_in_degree (build_dag cs)) s = int (length (filter (\<lambda>e. fst e = s) (call_edges cs)))"
  using dag_of_build [of cs] by (simp add: dag_of_def)

lemma surplus_nonneg: "0 \<le> surplus cs s"
proof -
  have "{t. (s, t) \<in> waits cs} = snd ` set (filter (\<lambda>e. fst e = s) (call_edges cs))"
    by (force simp: waits_def)
  then show ?thesis
    unfolding surplus_def degree_build by (metis card_length diff_ge_0_iff_ge image_set length_map of_nat_mono)
qed

lemma surplus_zero_iff: "(\<forall>s \<in> shards cs. surplus cs s = 0) \<longleftrightarrow> distinct (call_edges cs)"
proof -
  have "surplus cs s = 0" if "s \<notin> fst ` waits cs" for s
  proof -
    have "{t. (s, t) \<in> waits cs} = {}" using that by force
    then show ?thesis using that by (simp add: surplus_def degree_build filter_none waits_def)
  qed
  then have "(\<forall>s \<in> shards cs. surplus cs s = 0) \<longleftrightarrow> (\<forall>s \<in> fst ` waits cs. surplus cs s = 0)"
    unfolding shards_def by blast
  then show ?thesis unfolding surplus_def degree_build distinct_by_first waits_def by auto
qed

lemma finite_waits [simp]: "finite (waits cs)" "finite (shards cs)" "finite {f. (f, t) \<in> waits cs}"
  "finite {t. (f, t) \<in> waits cs}"
proof -
  show fin: "finite (waits cs)" and "finite (shards cs)" by (simp_all add: waits_def shards_def)
  have "{f. (f, t) \<in> waits cs} \<subseteq> fst ` waits cs" "{t. (f, t) \<in> waits cs} \<subseteq> snd ` waits cs" by force+
  with fin show "finite {f. (f, t) \<in> waits cs}" "finite {t. (f, t) \<in> waits cs}"
    by (meson finite_imageI finite_subset)+
qed

lemma dependents_build:
  assumes "lists_sets order"
  shows "set (dependents_of order (dg_reverse_graph (build_dag cs)) t) = {f. (f, t) \<in> waits cs}"
    and "distinct (dependents_of order (dg_reverse_graph (build_dag cs)) t)"
proof -
  have "shards_at (dg_reverse_graph (build_dag cs)) t = {f. (f, t) \<in> waits cs}"
    using dag_of_build [of cs] by (simp add: dag_of_def waits_def)
  with assms show "set (dependents_of order (dg_reverse_graph (build_dag cs)) t) = {f. (f, t) \<in> waits cs}"
    "distinct (dependents_of order (dg_reverse_graph (build_dag cs)) t)"
    using finite_waits(3) [of t cs]
    by (auto simp: dependents_of_def shards_at_def lists_sets_def split: option.splits)
qed

lemma kahn_start:
  fixes cs
  assumes "lists_sets order"
  defines "es \<equiv> dependent_lists order (dg_reverse_graph (build_dag cs))"
    and "deg \<equiv> degree_at (dg_in_degree (build_dag cs))"
  shows "kahn_inv es (shards cs) (surplus cs) deg (filter (\<lambda>s. deg s = 0) (keys (dg_graph (build_dag cs)))) []"
    and "sub_rel es (shards cs) = (waits cs)\<inverse>"
proof -
  note deps = dependents_build [OF assms(1), of cs]
  have mult: "multiplicity es t s = (if (s, t) \<in> waits cs then 1 else 0)" for s t
    using deps(1) [of t] deps(2) [of t]
    by (simp add: es_def multiplicity_def count_list_distinct flip: dependents_of_eq)
  have "{t. (s, t) \<in> waits cs} \<subseteq> shards cs" for s by (force simp: shards_def)
  then have "(\<Sum>t \<in> shards cs. multiplicity es t s) = int (card {t. (s, t) \<in> waits cs})" for s
    by (simp add: mult sum.If_cases Int_absorb1)
  then show "kahn_inv es (shards cs) (surplus cs) deg (filter (\<lambda>s. deg s = 0) (keys (dg_graph (build_dag cs)))) []"
    using dag_keys [of cs] surplus_nonneg [of cs]
    by (auto simp: kahn_inv_def pre_closed_def deg_def surplus_def)
  show "sub_rel es (shards cs) = (waits cs)\<inverse>"
    using deps(1) by (force simp: es_def sub_rel_def shards_def simp flip: dependents_of_eq)
qed

text \<open>
  The topological sort of the shards is exact: when the waiting relation is acyclic and
  no pair of shards was added twice, it lists every shard once, each after all the shards it waits
  for; otherwise it reports a deadlock.  In particular a pair added twice (by two needs, say) is
  reported as a deadlock although nothing is cyclic, because the counter grows with every call and
  the adjacency set does not.
\<close>

theorem topo_sort_exact:
  assumes "lists_sets order"
  shows "if acyclic (waits cs) \<and> distinct (call_edges cs)
    then \<exists>xs. topo_sort_shards order (build_dag cs) = Some xs \<and> distinct xs \<and> set xs = shards cs \<and>
           pre_closed ((waits cs)\<inverse>) xs
    else detect_deadlock order (build_dag cs)"
proof -
  note start = kahn_start [OF assms, of cs]
  note r = kahn_result [OF finite_waits(2) start(1), unfolded start(2) surplus_zero_iff acyclic_converse]
  have loop: "sort_loop order (dg_reverse_graph (build_dag cs)) deg queue [] =
      kahn_loop (dependent_lists order (dg_reverse_graph (build_dag cs))) (shards cs) deg queue []" for deg queue
    by (rule sort_loop_eq) (use dependents_build(1) [OF assms, of cs] in \<open>force simp: shards_def\<close>)
  have "length (dg_graph (build_dag cs)) = card (shards cs)"
    using dag_keys [of cs] distinct_card [of "keys (dg_graph (build_dag cs))"] by simp
  then show ?thesis
    using r by (auto simp: topo_sort_shards_def detect_deadlock_def Let_def loop)
qed

lemma topo_sort_exact_witness:
  "topo_sort_shards sorted_list_of_set (build_dag [(1, 2, ''n'', None), (2, 3, ''n'', None)]) = Some [3, 2, 1] \<and>
   detect_deadlock sorted_list_of_set (build_dag [(1, 2, ''n'', None), (1, 2, ''m'', None)])"
proof -
  have "topo_sort_shards sorted_list_of_set (build_dag [(1, 2, ''n'', None), (2, 3, ''n'', None)]) = Some [3, 2, 1]"
    by code_simp
  moreover have "detect_deadlock sorted_list_of_set (build_dag [(1, 2, ''n'', None), (1, 2, ''m'', None)])"
    using topo_sort_exact [OF lists_sets_sorted, of "[(1, 2, ''n'', None), (1, 2, ''m'', None)]"]
    by (simp add: call_edges_def)
  ultimately show ?thesis by blast
qed

section \<open>Cycle search\<close>

definition adjacent :: "(int, int set) table \<Rightarrow> (int \<times> int) set" where
  "adjacent g = {(s, t). t \<in> shards_at g s}"

text \<open>The state of the search below a path: the path is the recursion stack; the nodes that are finished
  only reach finished nodes and are not on a cycle, unless one has been reported.\<close>

abbreviation finished :: "search_state \<Rightarrow> int set" where
  "finished st \<equiv> sr_visited st - sr_rec_stack st"

definition search_inv :: "int set \<Rightarrow> (int \<times> int) set \<Rightarrow> int list \<Rightarrow> search_state \<Rightarrow> bool" where
  "search_inv N r path st \<longleftrightarrow> sr_rec_stack st = set path \<and> distinct path \<and> walk r path \<and>
     set path \<subseteq> sr_visited st \<and> sr_visited st \<subseteq> N \<and> (\<forall>c \<in> set (sr_cycles st). closed_walk r c) \<and>
     (sr_cycles st = [] \<longrightarrow> settled r (finished st))"

lemma search_inv_enter:
  assumes "search_inv N r path st" and "s \<in> N" "s \<notin> sr_visited st" and "walk r (path @ [s])"
  shows "search_inv N r (path @ [s])
    (st\<lparr>sr_visited := insert s (sr_visited st), sr_rec_stack := insert s (sr_rec_stack st)\<rparr>)"
proof -
  have "insert s (sr_visited st) - insert s (sr_rec_stack st) = finished st" using assms(3) by auto
  then show ?thesis using assms by (auto simp: search_inv_def)
qed

lemma search_inv_leave:
  assumes "search_inv N r (path @ [s]) st" and "\<And>y. sr_cycles st = [] \<Longrightarrow> (s, y) \<in> r \<Longrightarrow> y \<in> finished st"
  shows "search_inv N r path (st\<lparr>sr_rec_stack := sr_rec_stack st - {s}\<rparr>)"
proof -
  have fin: "sr_visited st - set path = insert s (finished st)"
    using assms(1) by (auto simp: search_inv_def)
  have "settled r (sr_visited st - set path)" if "sr_cycles st = []"
    using that assms unfolding search_inv_def fin by (intro settled_insert) blast+
  moreover have "walk r path" if "walk r (path @ [s])"
    using that by (induction r path rule: walk.induct) auto
  moreover have "sr_rec_stack st - {s} = set path" using assms(1) by (auto simp: search_inv_def)
  ultimately show ?thesis using assms(1) by (simp add: search_inv_def)
qed

lemma search_inv_report:
  assumes "search_inv N r path st" and "t \<in> set path" and "(last path, t) \<in> r"
  shows "search_inv N r path (st\<lparr>sr_cycles := sr_cycles st @ [dropWhile (\<lambda>x. x \<noteq> t) path @ [t]]\<rparr>)"
  using assms closed_walk_back_edge [OF _ assms(2,3)] by (auto simp: search_inv_def)

definition search_grows :: "search_state \<Rightarrow> search_state \<Rightarrow> bool" where
  "search_grows st st' \<longleftrightarrow> sr_visited st \<subseteq> sr_visited st' \<and> (sr_cycles st' = [] \<longrightarrow> sr_cycles st = [])"

lemma search_grows_trans: "search_grows a b \<Longrightarrow> search_grows b c \<Longrightarrow> search_grows a c"
  by (auto simp: search_grows_def)

lemma card_unvisited_mono:
  "finite N \<Longrightarrow> search_grows st st' \<Longrightarrow> card (N - sr_visited st') \<le> card (N - sr_visited st)"
  by (intro card_mono) (auto simp: search_grows_def)

text \<open>The invariants at a call of \<open>dfs\<close> and at the head of its loop.\<close>

definition search_pre :: "int set \<Rightarrow> (int, int set) table \<Rightarrow> nat \<Rightarrow> int \<Rightarrow> int list \<Rightarrow> search_state \<Rightarrow> bool" where
  "search_pre N g n s path st \<longleftrightarrow> search_inv N (adjacent g) path st \<and> s \<in> N \<and> s \<notin> sr_visited st \<and>
     walk (adjacent g) (path @ [s]) \<and> card (N - sr_visited st) < n"

definition loop_pre :: "int set \<Rightarrow> (int, int set) table \<Rightarrow> nat \<Rightarrow> int \<Rightarrow> int list \<Rightarrow> int list \<Rightarrow> search_state \<Rightarrow> bool" where
  "loop_pre N g n s path ts st \<longleftrightarrow> search_inv N (adjacent g) path st \<and> path \<noteq> [] \<and> last path = s \<and> s \<in> N \<and>
     set ts \<subseteq> shards_at g s \<and> (sr_cycles st = [] \<longrightarrow> shards_at g s - set ts \<subseteq> finished st) \<and>
     card (N - sr_visited st) < n"

definition search_graph :: "int set \<Rightarrow> (int set \<Rightarrow> int list) \<Rightarrow> (int, int set) table \<Rightarrow> bool" where
  "search_graph N order g \<longleftrightarrow> lists_sets order \<and> finite N \<and> (\<forall>s \<in> N. shards_at g s \<subseteq> N)"

lemma search_graph_order: "search_graph N order g \<Longrightarrow> s \<in> N \<Longrightarrow> set (order (shards_at g s)) = shards_at g s"
  by (meson finite_subset lists_sets_def search_graph_def)

lemma loop_pre_next:
  assumes "loop_pre N g n s path (t # ts) st" and "search_inv N (adjacent g) path st'"
    and "search_grows st st'" and "finite N" and "sr_cycles st' = [] \<Longrightarrow> t \<in> finished st'"
  shows "loop_pre N g n s path ts st'"
proof -
  have rec: "sr_rec_stack st' = sr_rec_stack st"
    using assms(1,2) by (simp add: loop_pre_def search_inv_def)
  have "shards_at g s - set ts \<subseteq> finished st'" if "sr_cycles st' = []"
    using assms(1,3) assms(5) [OF that] that unfolding loop_pre_def search_grows_def rec by auto
  then show ?thesis
    using assms card_unvisited_mono [OF assms(4,3)] by (auto simp: loop_pre_def)
qed

lemma loop_pre_start:
  assumes "search_pre N g (Suc n) s path st" and "search_graph N order g"
  shows "loop_pre N g n s (path @ [s]) (order (shards_at g s))
    (st\<lparr>sr_visited := insert s (sr_visited st), sr_rec_stack := insert s (sr_rec_stack st)\<rparr>)"
proof -
  have fin: "finite N" using assms(2) by (simp add: search_graph_def)
  have s: "s \<in> N - sr_visited st" using assms(1) by (simp add: search_pre_def)
  have "N - insert s (sr_visited st) = N - sr_visited st - {s}" by auto
  then have "card (N - insert s (sr_visited st)) < n"
    using assms(1) fin s card_Suc_Diff1 [of "N - sr_visited st" s] by (auto simp: search_pre_def)
  moreover have "set (order (shards_at g s)) = shards_at g s"
    using assms(2) s by (intro search_graph_order) auto
  ultimately show ?thesis
    using assms(1) search_inv_enter [of N "adjacent g" path st s]
    by (auto simp: loop_pre_def search_pre_def)
qed

lemma search_correct:
  "search_pre N g n s path st \<Longrightarrow> search_graph N order g \<Longrightarrow>
      \<exists>st'. search n order g s path st = Inr st' \<and> search_inv N (adjacent g) path st' \<and> search_grows st st' \<and>
        s \<in> sr_visited st'"
  "loop_pre N g n s path ts st \<Longrightarrow> search_graph N order g \<Longrightarrow>
      \<exists>st'. search_next n order g s path ts st = Inr st' \<and> search_inv N (adjacent g) (butlast path) st' \<and>
        search_grows st st'"
proof (induction n order g s path st and n order g s path ts st rule: search_search_next.induct)
  case (1 order g s path st)
  then show ?case by (simp add: search_pre_def)
next
  case (2 n order g s path st)
  from 2(1) [OF loop_pre_start [OF 2(2,3)] 2(3)]
  show ?case by (fastforce simp: search_grows_def)
next
  case (3 n order g s path st)
  have path: "path = butlast path @ [s]" using 3(1) by (metis append_butlast_last_id loop_pre_def)
  have "search_inv N (adjacent g) (butlast path) (st\<lparr>sr_rec_stack := sr_rec_stack st - {s}\<rparr>)"
    by (rule search_inv_leave) (use 3(1) path in \<open>auto simp: loop_pre_def adjacent_def\<close>)
  then show ?case by (simp add: search_grows_def)
next
  case (4 n order g s path t ts st)
  note pre = 4(5) and graph = 4(6)
  have fin: "finite N" using graph by (simp add: search_graph_def)
  have inv: "search_inv N (adjacent g) path st" and last: "path \<noteq> []" "last path = s" "s \<in> N" "t \<in> shards_at g s"
    using pre by (auto simp: loop_pre_def)
  have rec: "sr_rec_stack st = set path" using inv by (simp add: search_inv_def)
  have edge: "(last path, t) \<in> adjacent g" using last by (simp add: adjacent_def)
  consider (new) "t \<notin> sr_visited st" | (cycle) "t \<in> sr_visited st" "t \<in> sr_rec_stack st" |
    (old) "t \<in> sr_visited st" "t \<notin> sr_rec_stack st" by blast
  then show ?case
  proof cases
    case new
    have "search_pre N g n t path st"
      using pre graph new last edge inv unfolding search_pre_def search_graph_def loop_pre_def
      by (auto simp: search_inv_def intro: walk_snoc)
    then obtain st1 where st1: "search n order g t path st = Inr st1" "search_inv N (adjacent g) path st1"
      "search_grows st st1" "t \<in> sr_visited st1"
      using 4(1) [OF new _ graph] by blast
    have "t \<in> finished st1"
      using new inv st1(2,4) by (auto simp: search_inv_def)
    then have "loop_pre N g n s path ts st1" by (intro loop_pre_next [OF pre st1(2,3) fin])
    from 4(2) [OF new st1(1) this graph] new st1(1,3) show ?thesis by (auto intro: search_grows_trans)
  next
    case cycle
    let ?st = "st\<lparr>sr_cycles := sr_cycles st @ [dropWhile (\<lambda>x. x \<noteq> t) path @ [t]]\<rparr>"
    have t: "t \<in> set path" using cycle rec by simp
    have grows: "search_grows st ?st" by (simp add: search_grows_def)
    have "loop_pre N g n s path ts ?st"
      by (rule loop_pre_next [OF pre search_inv_report [OF inv t edge] grows fin]) simp
    from 4(3) [OF _ cycle(2) t this graph] cycle t grows show ?thesis by (auto intro: search_grows_trans)
  next
    case old
    have grows: "search_grows st st" by (simp add: search_grows_def)
    have "loop_pre N g n s path ts st" by (rule loop_pre_next [OF pre inv grows fin]) (use old in simp)
    from 4(4) [OF _ old(2) this graph] old show ?thesis by auto
  qed
qed

lemma search_all_correct:
  assumes "search_graph N order g" and "set ss \<subseteq> N" and "search_inv N (adjacent g) [] st" and "card N < n"
  shows "\<exists>st'. search_all n order g ss st = Inr st' \<and> search_inv N (adjacent g) [] st' \<and> search_grows st st' \<and>
    set ss \<subseteq> sr_visited st'"
  using assms(2,3)
proof (induction ss arbitrary: st)
  case (Cons s ss)
  have fin: "finite N" using assms(1) by (simp add: search_graph_def)
  show ?case
  proof (cases "s \<in> sr_visited st")
    case True
    with Cons show ?thesis by (fastforce simp: search_grows_def)
  next
    case False
    have "card (N - sr_visited st) < n" using assms(4) fin by (meson card_mono Diff_subset le_less_trans)
    with False Cons.prems have "search_pre N g n s [] st" by (simp add: search_pre_def)
    from search_correct(1) [OF this assms(1)] obtain st1 where st1: "search n order g s [] st = Inr st1"
      "search_inv N (adjacent g) [] st1" "search_grows st st1" "s \<in> sr_visited st1" by blast
    from Cons.IH [OF _ st1(2)] Cons.prems(1) obtain st2 where "search_all n order g ss st1 = Inr st2"
      "search_inv N (adjacent g) [] st2" "search_grows st1 st2" "set ss \<subseteq> sr_visited st2" by auto
    with st1 False show ?thesis by (auto simp: search_grows_def)
  qed
qed (simp add: search_grows_def)

text \<open>
  The search for cycles always returns (no recursion without end, no failed
  \<open>path.index\<close>), every list it returns is a closed walk of the waiting relation, and it returns
  one exactly when that relation is cyclic, whatever the order in which sets are visited.
\<close>

theorem find_cycles_exact:
  assumes "lists_sets order"
  shows "\<exists>cycles. find_cycles order (build_dag cs) = Inr cycles \<and> (cycles \<noteq> [] \<longleftrightarrow> \<not> acyclic (waits cs)) \<and>
    list_all (closed_walk (waits cs)) cycles"
proof -
  let ?g = "dg_graph (build_dag cs)" and ?st = "\<lparr>sr_visited = {}, sr_rec_stack = {}, sr_cycles = []\<rparr>"
  have adj: "adjacent ?g = waits cs" using dag_of_build [of cs] by (auto simp: adjacent_def dag_of_def waits_def)
  have graph: "search_graph (shards cs) order ?g"
    using assms adj by (force simp: search_graph_def adjacent_def shards_def)
  have "length ?g = card (shards cs)"
    using dag_keys [of cs] distinct_card [of "keys ?g"] by simp
  then have card: "card (shards cs) < Suc (length ?g)" by simp
  have keys: "set (keys ?g) \<subseteq> shards cs" by (simp only: dag_keys(1))
  have "search_inv (shards cs) (adjacent ?g) [] ?st" by (simp add: search_inv_def settled_def acyclic_def)
  from search_all_correct [OF graph keys this card] obtain st where st: "search_all (Suc (length ?g)) order ?g (keys ?g) ?st = Inr st"
    "search_inv (shards cs) (waits cs) [] st" "shards cs \<subseteq> sr_visited st"
    unfolding adj dag_keys(1) by blast
  have sub: "waits cs \<inter> sr_visited st \<times> sr_visited st = waits cs" using st(3) by (force simp: shards_def)
  have "acyclic (waits cs)" if "sr_cycles st = []"
  proof -
    have "settled (waits cs) (sr_visited st)" using st(2) that by (auto simp: search_inv_def)
    then show ?thesis by (simp add: settled_def sub)
  qed
  moreover have "\<not> acyclic (waits cs)" if "sr_cycles st \<noteq> []"
    using st(2) that closed_walk_cyclic by (cases "sr_cycles st") (auto simp: search_inv_def)
  ultimately show ?thesis using st by (auto simp: find_cycles_def search_inv_def list_all_iff)
qed

lemma find_cycles_exact_witness:
  "find_cycles sorted_list_of_set (build_dag [(1, 2, ''n'', None), (2, 1, ''n'', None)]) = Inr [[1, 2, 1]] \<and>
   \<not> acyclic (waits [(1, 2, ''n'', None), (2, 1, ''n'', None)])"
proof -
  have "find_cycles sorted_list_of_set (build_dag [(1, 2, ''n'', None), (2, 1, ''n'', None)]) = Inr [[1, 2, 1]]"
    by code_simp
  with find_cycles_exact [OF lists_sets_sorted, of "[(1, 2, ''n'', None), (2, 1, ''n'', None)]"] show ?thesis by auto
qed

section \<open>Ready shards\<close>

definition complete_all :: "(int set \<Rightarrow> int list) \<Rightarrow> int list \<Rightarrow> dependency_dag \<Rightarrow> dependency_dag" where
  "complete_all order ss d = fold (\<lambda>s d. snd (mark_shard_complete order s d)) ss d"

lemma release_waiting_fields:
  "dg_graph (snd (release_waiting ss new d)) = dg_graph d \<and>
   dg_reverse_graph (snd (release_waiting ss new d)) = dg_reverse_graph d \<and>
   dg_completed_shards (snd (release_waiting ss new d)) = dg_completed_shards d \<and>
   keyed (dg_in_degree (snd (release_waiting ss new d))) = keyed (dg_in_degree d) \<and>
   (has_key k (dg_in_degree (snd (release_waiting ss new d))) \<longleftrightarrow> k \<in> set ss \<or> has_key k (dg_in_degree d))"
  by (induction ss arbitrary: new d) (auto simp: Let_def)

lemma release_waiting_degree:
  "distinct ss \<Longrightarrow> degree_at (dg_in_degree (snd (release_waiting ss new d))) k =
     degree_at (dg_in_degree d) k - (if k \<in> set ss then 1 else 0)"
  by (induction ss arbitrary: new d) (auto simp: Let_def)

lemma release_waiting_new:
  "distinct ss \<Longrightarrow> k \<in> fst (release_waiting ss new d) \<longleftrightarrow>
     k \<in> new \<or> k \<in> set ss \<and> degree_at (dg_in_degree d) k = 1 \<and> k \<notin> dg_completed_shards d"
proof (induction ss arbitrary: new d)
  case (Cons s ss)
  let ?d = "d\<lparr>dg_in_degree := AList.update s (degree_at (dg_in_degree d) s - 1) (dg_in_degree d)\<rparr>"
  have s: "s \<notin> set ss" and ss: "distinct ss" using Cons.prems by auto
  show ?case
  proof (cases "degree_at (dg_in_degree d) s = 1 \<and> s \<notin> dg_completed_shards d")
    case True
    then have eq: "fst (release_waiting (s # ss) new d) =
        fst (release_waiting ss (insert s new) (?d\<lparr>dg_ready_shards := insert s (dg_ready_shards d)\<rparr>))"
      by (simp add: Let_def)
    show ?thesis unfolding eq Cons.IH [OF ss] using True s by auto
  next
    case False
    then have eq: "fst (release_waiting (s # ss) new d) = fst (release_waiting ss new ?d)" by (auto simp: Let_def)
    show ?thesis unfolding eq Cons.IH [OF ss] using False s by auto
  qed
qed simp

text \<open>The counters of a graph in which some shards are complete.\<close>

definition counts :: "dependency_call list \<Rightarrow> int set \<Rightarrow> dependency_dag \<Rightarrow> bool" where
  "counts cs done d \<longleftrightarrow> dg_graph d = dg_graph (build_dag cs) \<and>
     dg_reverse_graph d = dg_reverse_graph (build_dag cs) \<and> dg_completed_shards d = done \<and>
     keyed (dg_in_degree d) \<and> (\<forall>s. has_key s (dg_in_degree d) \<longleftrightarrow> s \<in> shards cs) \<and>
     (\<forall>s. degree_at (dg_in_degree d) s = int (card ({t. (s, t) \<in> waits cs} - done)))"

lemma counts_build:
  assumes "distinct (call_edges cs)"
  shows "counts cs {} (build_dag cs)"
proof -
  have "surplus cs s = 0" for s
  proof (cases "s \<in> shards cs")
    case False
    then have "s \<notin> fst ` waits cs" "{t. (s, t) \<in> waits cs} = {}" by (force simp: shards_def)+
    then show ?thesis by (simp add: surplus_def degree_build filter_none waits_def)
  qed (use assms surplus_zero_iff in blast)
  then have "degree_at (dg_in_degree (build_dag cs)) s = int (card {t. (s, t) \<in> waits cs})" for s
    by (simp add: surplus_def)
  then show ?thesis
    using dag_of_build [of cs] by (simp add: counts_def dag_of_def shards_def waits_def)
qed

lemma dependents_counts:
  assumes "counts cs done d" and "lists_sets order"
  shows "set (order (shards_at (dg_reverse_graph d) t)) = {f. (f, t) \<in> waits cs}"
    and "distinct (order (shards_at (dg_reverse_graph d) t))"
proof -
  have "shards_at (dg_reverse_graph d) t = {f. (f, t) \<in> waits cs}"
    using assms(1) dag_of_build [of cs] by (simp add: counts_def dag_of_def waits_def)
  with assms(2) show "set (order (shards_at (dg_reverse_graph d) t)) = {f. (f, t) \<in> waits cs}"
    "distinct (order (shards_at (dg_reverse_graph d) t))"
    by (simp_all add: lists_sets_def)
qed

lemma counts_complete:
  assumes "counts cs done d" and "lists_sets order" and "s \<notin> done"
  shows "counts cs (insert s done) (snd (mark_shard_complete order s d))"
proof -
  let ?d = "d\<lparr>dg_completed_shards := insert s (dg_completed_shards d)\<rparr>"
  note deps = dependents_counts [OF assms(1,2), of s]
  have card: "int (card ({t. (k, t) \<in> waits cs} - insert s done)) =
      int (card ({t. (k, t) \<in> waits cs} - done)) - (if (k, s) \<in> waits cs then 1 else 0)" for k
  proof -
    have "{t. (k, t) \<in> waits cs} - insert s done = {t. (k, t) \<in> waits cs} - done - {s}" by auto
    then show ?thesis
      using assms(3) card_Suc_Diff1 [of "{t. (k, t) \<in> waits cs} - done" s] by (cases "(k, s) \<in> waits cs") auto
  qed
  have in_shards: "k \<in> shards cs" if "(k, s) \<in> waits cs" for k using that by (force simp: shards_def)
  show ?thesis
    using assms(1) deps release_waiting_fields [of "order (shards_at (dg_reverse_graph d) s)" "{}" ?d]
      release_waiting_degree [of "order (shards_at (dg_reverse_graph d) s)" "{}" ?d]
    by (auto simp: counts_def mark_shard_complete_def Let_def card in_shards)
qed

lemma counts_complete_all:
  assumes "counts cs done d" and "lists_sets order" and "distinct ss" and "set ss \<inter> done = {}"
  shows "counts cs (done \<union> set ss) (complete_all order ss d)"
  using assms(1,3,4)
proof (induction ss arbitrary: d "done")
  case (Cons s ss)
  have "counts cs (insert s done) (snd (mark_shard_complete order s d))"
    using Cons.prems by (intro counts_complete assms(2)) auto
  from Cons.IH [OF this] Cons.prems show ?case by (simp add: complete_all_def)
qed (simp add: complete_all_def)



end
