(* ===== verification/Commitment.thy ===== *)
theory Commitment
  imports Tables PyString "HOL-Library.List_Lexorder" "HOL-Library.Char_ord"
begin

text \<open>
  Commit by reference (\<open>sharding/commitment.py\<close>): shards publish commitments that name the hashes
  of the commitments they depend on; a commitment is finalized once all of these are, and the
  finalization cascades.  The registry lives in memory, so an exception keeps the changes made before
  it: errors carry the state they leave.  SHA-256 with hexadecimal output is the parameter \<open>h\<close>.
\<close>

record commitment_artifact =
  ca_shard_id :: int
  ca_need_id :: string
  ca_artifact_hash :: string
  ca_timestamp_ns :: int
  ca_commitment_hash :: string
  ca_dependencies :: "string list"

fun join_with :: "string \<Rightarrow> string list \<Rightarrow> string" where
  "join_with sep [] = []"
| "join_with sep [x] = x"
| "join_with sep (x # xs) = x @ sep @ join_with sep xs"

definition calculate_hash :: "(string \<Rightarrow> string) \<Rightarrow> commitment_artifact \<Rightarrow> string" where
  "calculate_hash h c =
     h (str_of_int (ca_shard_id c) @ ''|'' @ ca_need_id c @ ''|'' @ ca_artifact_hash c @ ''|'' @
        str_of_int (ca_timestamp_ns c) @ ''|'' @ join_with '','' (sort (ca_dependencies c)))"

record commitment_protocol =
  cp_commitments :: "(int \<times> string, commitment_artifact) table"
  cp_by_hash :: "(string, commitment_artifact) table"
  cp_finalized :: "string set"
  cp_pending :: "(string, string set) table"

definition init_protocol :: commitment_protocol where
  "init_protocol = \<lparr>cp_commitments = [], cp_by_hash = [], cp_finalized = {}, cp_pending = []\<rparr>"

definition create_commitment ::
  "(string \<Rightarrow> string) \<Rightarrow> int \<Rightarrow> string \<Rightarrow> string \<Rightarrow> string list option \<Rightarrow> int \<Rightarrow> commitment_artifact" where
  "create_commitment h shard_id need_id artifact_ref dependencies now =
     (let c = \<lparr>ca_shard_id = shard_id, ca_need_id = need_id, ca_artifact_hash = artifact_ref, ca_timestamp_ns = now,
         ca_commitment_hash = [], ca_dependencies = (case dependencies of None \<Rightarrow> [] | Some ds \<Rightarrow> ds)\<rparr>
      in c\<lparr>ca_commitment_hash := calculate_hash h c\<rparr>)"

definition verify_commitment :: "(string \<Rightarrow> string) \<Rightarrow> commitment_artifact \<Rightarrow> bool" where
  "verify_commitment h c \<longleftrightarrow> ca_commitment_hash c = calculate_hash h c"

definition get_commitment :: "int \<Rightarrow> string \<Rightarrow> commitment_protocol \<Rightarrow> commitment_artifact option" where
  "get_commitment shard_id need_id s = map_of (cp_commitments s) (shard_id, need_id)"

definition get_commitment_by_hash :: "string \<Rightarrow> commitment_protocol \<Rightarrow> commitment_artifact option" where
  "get_commitment_by_hash ch s = map_of (cp_by_hash s) ch"

definition is_finalized :: "string \<Rightarrow> commitment_protocol \<Rightarrow> bool" where
  "is_finalized ch s \<longleftrightarrow> ch \<in> cp_finalized s"

section \<open>Finalization\<close>

datatype commitment_error = KeyError | RecursionLimit

text \<open>\<open>all(dep in self.finalized for dep in commitment.dependencies)\<close>.\<close>

definition deps_finalized :: "commitment_artifact \<Rightarrow> commitment_protocol \<Rightarrow> bool" where
  "deps_finalized c s \<longleftrightarrow> list_all (\<lambda>d. d \<in> cp_finalized s) (ca_dependencies c)"

definition waiting_on :: "string \<Rightarrow> commitment_protocol \<Rightarrow> string list" where
  "waiting_on ch s = map fst (filter (\<lambda>(c, deps). ch \<in> deps) (cp_pending s))"

text \<open>The three mutually recursive methods, with a bound on the depth of the recursion.  The state is
  threaded through the loop of \<open>_cascade_finalize\<close>, whose list of waiting commitments was computed
  before it; \<open>self.pending[comm_hash]\<close> raises KeyError when an inner call has removed the entry.\<close>

function (sequential) finalize_commitment :: "nat \<Rightarrow> string \<Rightarrow> commitment_protocol
     \<Rightarrow> commitment_error \<times> commitment_protocol + bool \<times> commitment_protocol"
  and try_finalize :: "nat \<Rightarrow> string \<Rightarrow> commitment_protocol \<Rightarrow> commitment_error \<times> commitment_protocol + commitment_protocol"
  and cascade_finalize :: "nat \<Rightarrow> string \<Rightarrow> string list \<Rightarrow> commitment_protocol
     \<Rightarrow> commitment_error \<times> commitment_protocol + commitment_protocol" where
  "finalize_commitment 0 ch s = Inl (RecursionLimit, s)"
| "finalize_commitment (Suc n) ch s =
     (if ch \<in> cp_finalized s then Inr (False, s)
      else case map_of (cp_by_hash s) ch of
             None \<Rightarrow> Inr (False, s)
           | Some c \<Rightarrow>
               if \<not> deps_finalized c s then Inr (False, s)
               else let s = s\<lparr>cp_finalized := insert ch (cp_finalized s), cp_pending := AList.delete ch (cp_pending s)\<rparr>
                    in res_bind (cascade_finalize n ch (waiting_on ch s) s) (\<lambda>s. Inr (True, s)))"
| "try_finalize n ch s =
     (if ch \<in> cp_finalized s then Inr s
      else case map_of (cp_by_hash s) ch of
             None \<Rightarrow> Inr s
           | Some c \<Rightarrow>
               if deps_finalized c s then res_bind (finalize_commitment n ch s) (\<lambda>(_, s). Inr s) else Inr s)"
| "cascade_finalize n ch [] s = Inr s"
| "cascade_finalize n ch (w # ws) s =
     (case map_of (cp_pending s) w of
        None \<Rightarrow> Inl (KeyError, s)
      | Some deps \<Rightarrow>
          res_bind (try_finalize n w (s\<lparr>cp_pending := AList.update w (deps - {ch}) (cp_pending s)\<rparr>))
            (cascade_finalize n ch ws))"
  by pat_completeness auto

termination
  by (relation "measures [\<lambda>x. case x of Inl (n, _) \<Rightarrow> 3 * n | Inr (Inl (n, _)) \<Rightarrow> 3 * n + 1 | Inr (Inr (n, _)) \<Rightarrow> 3 * n + 2,
        \<lambda>x. case x of Inl _ \<Rightarrow> 0 | Inr (Inl _) \<Rightarrow> 0 | Inr (Inr (n, ch, ws, s)) \<Rightarrow> length ws]") auto

text \<open>A depth that is enough: every call of \<open>finalize_commitment\<close> that goes on finalizes one more of
  the published commitments.\<close>

definition enough_depth :: "commitment_protocol \<Rightarrow> nat" where
  "enough_depth s = Suc (card (set (keys (cp_by_hash s)) - cp_finalized s))"

section \<open>Publication and removal\<close>

definition publish_commitment ::
  "commitment_artifact \<Rightarrow> commitment_protocol \<Rightarrow> commitment_error \<times> commitment_protocol + bool \<times> commitment_protocol" where
  "publish_commitment c s =
     (let key = (ca_shard_id c, ca_need_id c); ch = ca_commitment_hash c in
      if has_key key (cp_commitments s) then Inr (False, s)
      else
        let s = s\<lparr>cp_commitments := AList.update key c (cp_commitments s), cp_by_hash := AList.update ch c (cp_by_hash s)\<rparr>;
            pending_deps = set (ca_dependencies c) - cp_finalized s;
            s = (if pending_deps \<noteq> {} then s\<lparr>cp_pending := AList.update ch pending_deps (cp_pending s)\<rparr> else s)
        in res_bind (try_finalize (enough_depth s) ch s) (\<lambda>s. Inr (True, s)))"

definition finalize_call ::
  "string \<Rightarrow> commitment_protocol \<Rightarrow> commitment_error \<times> commitment_protocol + bool \<times> commitment_protocol" where
  "finalize_call ch s = finalize_commitment (enough_depth s) ch s"

definition get_pending_dependencies :: "string \<Rightarrow> commitment_protocol \<Rightarrow> string set" where
  "get_pending_dependencies ch s = (case map_of (cp_pending s) ch of None \<Rightarrow> {} | Some deps \<Rightarrow> deps)"

definition get_all_commitments :: "string \<Rightarrow> commitment_protocol \<Rightarrow> commitment_artifact list" where
  "get_all_commitments need_id s = map snd (filter (\<lambda>((shard, nid), c). nid = need_id) (cp_commitments s))"

text \<open>\<open>del self.commitment_by_hash[...]\<close> raises when the hash is not registered.\<close>

fun clear_keys :: "(int \<times> string) list \<Rightarrow> commitment_protocol
     \<Rightarrow> commitment_error \<times> commitment_protocol + commitment_protocol" where
  "clear_keys [] s = Inr s"
| "clear_keys (k # ks) s =
     (case map_of (cp_commitments s) k of
        None \<Rightarrow> Inl (KeyError, s)
      | Some c \<Rightarrow>
          let s = s\<lparr>cp_commitments := AList.delete k (cp_commitments s)\<rparr>; ch = ca_commitment_hash c in
          if \<not> has_key ch (cp_by_hash s) then Inl (KeyError, s)
          else clear_keys ks (s\<lparr>cp_by_hash := AList.delete ch (cp_by_hash s),
                 cp_finalized := cp_finalized s - {ch}, cp_pending := AList.delete ch (cp_pending s)\<rparr>))"

definition clear_need :: "string \<Rightarrow> commitment_protocol \<Rightarrow> commitment_error \<times> commitment_protocol + commitment_protocol" where
  "clear_need need_id s =
     clear_keys (map fst (filter (\<lambda>((shard, nid), c). nid = need_id) (cp_commitments s))) s"

end
