(* ===== verification/CommitmentProps.thy ===== *)
theory CommitmentProps
  imports Commitment
begin

text \<open>
  What commit by reference promises: a call never recurses without end, only commitments whose
  dependencies are finalized become final, a cascade that does not raise misses none, and a diamond
  of dependencies makes it raise.
\<close>

section \<open>States left by the mutually recursive methods\<close>

fun final_state :: "commitment_error \<times> commitment_protocol + bool \<times> commitment_protocol \<Rightarrow> commitment_protocol" where
  "final_state (Inl (e, s)) = s"
| "final_state (Inr (b, s)) = s"

fun left_state :: "commitment_error \<times> commitment_protocol + commitment_protocol \<Rightarrow> commitment_protocol" where
  "left_state (Inl (e, s)) = s"
| "left_state (Inr s) = s"

text \<open>The hashes that can become final: the least set closed under the rule of the protocol.\<close>

inductive committable :: "(string \<rightharpoonup> commitment_artifact) \<Rightarrow> string \<Rightarrow> bool" for reg where
  "reg ch = Some c \<Longrightarrow> (\<And>d. d \<in> set (ca_dependencies c) \<Longrightarrow> committable reg d) \<Longrightarrow> committable reg ch"

abbreviation registry :: "commitment_protocol \<Rightarrow> string \<rightharpoonup> commitment_artifact" where
  "registry s \<equiv> map_of (cp_by_hash s)"

definition sound_final :: "commitment_protocol \<Rightarrow> bool" where
  "sound_final s \<longleftrightarrow> (\<forall>ch \<in> cp_finalized s. committable (registry s) ch)"

text \<open>Every unfinished dependency of an unfinished commitment is recorded as pending.\<close>

definition covered :: "commitment_protocol \<Rightarrow> bool" where
  "covered s \<longleftrightarrow> (\<forall>ch c d. registry s ch = Some c \<and> ch \<notin> cp_finalized s \<and> d \<in> set (ca_dependencies c) \<and>
     d \<notin> cp_finalized s \<longrightarrow> d \<in> get_pending_dependencies ch s)"

definition ready :: "commitment_protocol \<Rightarrow> string set" where
  "ready s = {ch. ch \<notin> cp_finalized s \<and> (\<exists>c. registry s ch = Some c \<and> deps_finalized c s)}"

definition advances :: "commitment_protocol \<Rightarrow> commitment_protocol \<Rightarrow> bool" where
  "advances s t \<longleftrightarrow> cp_by_hash t = cp_by_hash s \<and> cp_commitments t = cp_commitments s \<and>
     cp_finalized s \<subseteq> cp_finalized t \<and> (sound_final s \<longrightarrow> sound_final t) \<and> (covered s \<longrightarrow> covered t)"

lemma advances_refl [simp]: "advances s s"
  by (simp add: advances_def)

lemma advances_trans: "advances s t \<Longrightarrow> advances t u \<Longrightarrow> advances s u"
  by (auto simp: advances_def)

lemma deps_finalized_iff: "deps_finalized c s \<longleftrightarrow> set (ca_dependencies c) \<subseteq> cp_finalized s"
  by (auto simp: deps_finalized_def list_all_iff)

lemma pending_delete [simp]:
  "get_pending_dependencies x (s\<lparr>cp_pending := AList.delete ch (cp_pending s)\<rparr>) =
     (if x = ch then {} else get_pending_dependencies x s)"
  by (simp add: get_pending_dependencies_def)

lemma pending_update [simp]:
  "get_pending_dependencies x (s\<lparr>cp_pending := AList.update ch deps (cp_pending s)\<rparr>) =
     (if x = ch then deps else get_pending_dependencies x s)"
  by (simp add: get_pending_dependencies_def)

definition mark_final :: "string \<Rightarrow> commitment_protocol \<Rightarrow> commitment_protocol" where
  "mark_final ch s = s\<lparr>cp_finalized := insert ch (cp_finalized s), cp_pending := AList.delete ch (cp_pending s)\<rparr>"

lemma mark_final_fields [simp]:
  "cp_finalized (mark_final ch s) = insert ch (cp_finalized s)" "cp_by_hash (mark_final ch s) = cp_by_hash s"
  "cp_commitments (mark_final ch s) = cp_commitments s"
  "get_pending_dependencies x (mark_final ch s) = (if x = ch then {} else get_pending_dependencies x s)"
  by (simp_all add: mark_final_def get_pending_dependencies_def)

lemma advances_mark_final:
  assumes "registry s ch = Some c" and "deps_finalized c s"
  shows "advances s (mark_final ch s)"
proof -
  have "committable (registry s) ch" if "sound_final s"
    using assms that by (auto intro: committable.intros simp: sound_final_def deps_finalized_iff)
  then show ?thesis by (auto simp: advances_def sound_final_def covered_def)
qed

lemma advances_discard:
  assumes "map_of (cp_pending s) w = Some deps" and "ch \<in> cp_finalized s"
  shows "advances s (s\<lparr>cp_pending := AList.update w (deps - {ch}) (cp_pending s)\<rparr>)"
proof -
  have "deps = get_pending_dependencies w s" using assms(1) by (simp add: get_pending_dependencies_def)
  then show ?thesis using assms(2) by (auto simp: advances_def sound_final_def covered_def)
qed

lemma finalize_Suc:
  "finalize_commitment (Suc n) ch s =
     (if ch \<in> cp_finalized s then Inr (False, s)
      else case registry s ch of
             None \<Rightarrow> Inr (False, s)
           | Some c \<Rightarrow>
               if \<not> deps_finalized c s then Inr (False, s)
               else res_bind (cascade_finalize n ch (waiting_on ch (mark_final ch s)) (mark_final ch s)) (\<lambda>s. Inr (True, s)))"
  by (auto simp: mark_final_def Let_def split: option.split)

declare finalize_commitment.simps(2) [simp del]

lemma final_state_bind: "final_state (res_bind r (\<lambda>s. Inr (b, s))) = left_state r"
  by (cases r rule: left_state.cases) auto

lemma left_state_bind: "left_state (res_bind r (\<lambda>(b, s). Inr s)) = final_state r"
  by (cases r rule: final_state.cases) auto

lemma methods_advance:
  "advances s (final_state (finalize_commitment n ch s))"
  "advances s (left_state (try_finalize n ch s))"
  "ch \<in> cp_finalized s \<Longrightarrow> advances s (left_state (cascade_finalize n ch ws s))"
proof (induction n ch s and n ch s and n ch ws s rule: finalize_commitment_try_finalize_cascade_finalize.induct)
  case (2 n ch s)
  show ?case
  proof (cases "ch \<in> cp_finalized s \<or> (\<forall>c. registry s ch = Some c \<longrightarrow> \<not> deps_finalized c s)")
    case True
    then show ?thesis by (auto simp: finalize_Suc split: option.splits)
  next
    case False
    then obtain c where c: "ch \<notin> cp_finalized s" "registry s ch = Some c" "deps_finalized c s" by blast
    have "advances (mark_final ch s) (left_state (cascade_finalize n ch (waiting_on ch (mark_final ch s)) (mark_final ch s)))"
      using 2 c by (simp add: mark_final_def)
    from advances_trans [OF advances_mark_final [OF c(2,3)] this] show ?thesis
      using c by (simp add: finalize_Suc final_state_bind)
  qed
next
  case (3 n ch s)
  then show ?case by (auto simp: left_state_bind split: option.splits)
next
  case (5 n ch w ws s)
  show ?case
  proof (cases "map_of (cp_pending s) w")
    case (Some deps)
    let ?s = "s\<lparr>cp_pending := AList.update w (deps - {ch}) (cp_pending s)\<rparr>"
    have 1: "advances s (left_state (try_finalize n w ?s))"
      using advances_discard [OF Some 5(3)] 5(1) [OF Some] by (rule advances_trans)
    show ?thesis
    proof (cases "try_finalize n w ?s")
      case (Inl e)
      with 1 Some show ?thesis by (cases e) simp
    next
      case (Inr t)
      with 1 have t: "advances s t" by simp
      then have "ch \<in> cp_finalized t" using 5(3) by (auto simp: advances_def)
      from 5(2) [OF Some Inr this] t Inr Some show ?thesis by (auto intro: advances_trans)
    qed
  qed simp
qed simp_all

section \<open>Termination\<close>

abbreviation unfinished :: "commitment_protocol \<Rightarrow> string set" where
  "unfinished s \<equiv> set (keys (cp_by_hash s)) - cp_finalized s"

lemma unfinished_advances: "advances s t \<Longrightarrow> card (unfinished t) \<le> card (unfinished s)"
  by (intro card_mono) (auto simp: advances_def)

lemma unfinished_mark_final:
  assumes "ch \<notin> cp_finalized s" and "registry s ch = Some c"
  shows "Suc (card (unfinished (mark_final ch s))) = card (unfinished s)"
proof -
  have "ch \<in> unfinished s" using assms by (force dest: map_of_SomeD)
  moreover have "unfinished (mark_final ch s) = unfinished s - {ch}" by auto
  ultimately show ?thesis using card_Suc_Diff1 [of "unfinished s" ch] by simp
qed

fun within_depth :: "(commitment_error \<times> 's) + 'r \<Rightarrow> bool" where
  "within_depth (Inl (e, s)) \<longleftrightarrow> e \<noteq> RecursionLimit"
| "within_depth (Inr r) \<longleftrightarrow> True"

lemma within_depth_bind:
  "within_depth (res_bind r (\<lambda>x. Inr (f x))) \<longleftrightarrow> within_depth r"
  by (cases r rule: within_depth.cases) auto

lemma within_depth_bind_pair:
  "within_depth (res_bind r (\<lambda>(b, s). Inr s)) \<longleftrightarrow> within_depth r"
  by (cases r rule: within_depth.cases) auto

lemma methods_terminate:
  "card (unfinished s) < n \<Longrightarrow> within_depth (finalize_commitment n ch s)"
  "card (unfinished s) < n \<Longrightarrow> within_depth (try_finalize n ch s)"
  "ch \<in> cp_finalized s \<Longrightarrow> card (unfinished s) < n \<Longrightarrow> within_depth (cascade_finalize n ch ws s)"
proof (induction n ch s and n ch s and n ch ws s rule: finalize_commitment_try_finalize_cascade_finalize.induct)
  case (2 n ch s)
  show ?case
  proof (cases "ch \<in> cp_finalized s \<or> (\<forall>c. registry s ch = Some c \<longrightarrow> \<not> deps_finalized c s)")
    case True
    then show ?thesis by (auto simp: finalize_Suc split: option.splits)
  next
    case False
    then obtain c where c: "ch \<notin> cp_finalized s" "registry s ch = Some c" "deps_finalized c s" by blast
    have "card (unfinished (mark_final ch s)) < n" using 2(2) unfinished_mark_final [OF c(1,2)] by simp
    then have "within_depth (cascade_finalize n ch (waiting_on ch (mark_final ch s)) (mark_final ch s))"
      using 2(1) c by (simp add: mark_final_def)
    with c show ?thesis by (simp add: finalize_Suc within_depth_bind)
  qed
next
  case (3 n ch s)
  then show ?case by (auto simp: within_depth_bind_pair split: option.splits)
next
  case (5 n ch w ws s)
  show ?case
  proof (cases "map_of (cp_pending s) w")
    case (Some deps)
    let ?s = "s\<lparr>cp_pending := AList.update w (deps - {ch}) (cp_pending s)\<rparr>"
    have depth: "within_depth (try_finalize n w ?s)" using 5(1) [OF Some] 5(4) by simp
    show ?thesis
    proof (cases "try_finalize n w ?s")
      case (Inl e)
      with depth Some show ?thesis by (cases e) simp
    next
      case (Inr t)
      then have t: "advances s t"
        using advances_trans [OF advances_discard [OF Some 5(3)] methods_advance(2) [of ?s n w]] by simp
      then have "ch \<in> cp_finalized t" using 5(3) by (auto simp: advances_def)
      moreover have "card (unfinished t) < n" using unfinished_advances [OF t] 5(4) by simp
      ultimately show ?thesis using 5(2) [OF Some Inr] Inr Some by simp
    qed
  qed simp
qed simp_all

section \<open>Cascades that do not raise are complete\<close>

lemma covered_ready:
  assumes "covered s" and "w \<in> ready (mark_final ch s)"
  shows "w \<in> ready s - {ch} \<or> w \<in> set (waiting_on ch (mark_final ch s))"
proof (cases "w \<in> ready s")
  case False
  with assms obtain c where c: "registry s w = Some c" "w \<notin> cp_finalized s" "w \<noteq> ch" "ch \<in> set (ca_dependencies c)"
    "ch \<notin> cp_finalized s"
    by (auto simp: ready_def deps_finalized_iff)
  then have "ch \<in> get_pending_dependencies w s" using assms(1) by (auto simp: covered_def)
  then obtain deps where "map_of (cp_pending s) w = Some deps" "ch \<in> deps"
    by (auto simp: get_pending_dependencies_def split: option.splits)
  then have "(w, deps) \<in> set (AList.delete ch (cp_pending s))" "ch \<in> deps"
    using c(3) by (auto intro: map_of_SomeD)
  then have "w \<in> set (waiting_on ch (mark_final ch s))"
    unfolding waiting_on_def mark_final_def by force
  then show ?thesis ..
qed (use assms in \<open>auto simp: ready_def\<close>)

lemma methods_complete:
  "covered s \<Longrightarrow> finalize_commitment n ch s = Inr (b, t) \<Longrightarrow> ready t \<subseteq> ready s - {ch}"
  "covered s \<Longrightarrow> try_finalize n ch s = Inr t \<Longrightarrow> ready t \<subseteq> ready s - {ch}"
  "covered s \<Longrightarrow> ch \<in> cp_finalized s \<Longrightarrow> cascade_finalize n ch ws s = Inr t \<Longrightarrow> ready t \<subseteq> ready s - set ws"
proof (induction n ch s and n ch s and n ch ws s arbitrary: b t and t and t
    rule: finalize_commitment_try_finalize_cascade_finalize.induct)
  case (2 n ch s)
  show ?case
  proof (cases "ch \<in> cp_finalized s \<or> (\<forall>c. registry s ch = Some c \<longrightarrow> \<not> deps_finalized c s)")
    case True
    with 2(3) have "t = s" by (auto simp: finalize_Suc split: option.splits if_splits)
    with True show ?thesis by (auto simp: ready_def)
  next
    case False
    then obtain c where c: "ch \<notin> cp_finalized s" "registry s ch = Some c" "deps_finalized c s" by blast
    let ?s = "mark_final ch s"
    have cov: "covered ?s" using advances_mark_final [OF c(2,3)] 2(2) by (simp add: advances_def)
    have "cascade_finalize n ch (waiting_on ch ?s) ?s = Inr t"
      using 2(3) c by (auto simp: finalize_Suc res_simps)
    then have "ready t \<subseteq> ready ?s - set (waiting_on ch ?s)"
      using 2(1) [of c ?s t] c cov by (simp add: mark_final_def)
    with covered_ready [OF 2(2)] show ?thesis by blast
  qed
next
  case (3 n ch s)
  show ?case
  proof (cases "ch \<in> cp_finalized s \<or> (\<forall>c. registry s ch = Some c \<longrightarrow> \<not> deps_finalized c s)")
    case True
    with 3(3) have "t = s" by (auto split: option.splits if_splits)
    with True show ?thesis by (auto simp: ready_def)
  next
    case False
    then obtain c where "ch \<notin> cp_finalized s" "registry s ch = Some c" "deps_finalized c s" by blast
    with 3 show ?thesis by (auto simp: res_simps)
  qed
next
  case (5 n ch w ws s)
  then obtain deps where deps: "map_of (cp_pending s) w = Some deps" by (cases "map_of (cp_pending s) w") auto
  let ?s = "s\<lparr>cp_pending := AList.update w (deps - {ch}) (cp_pending s)\<rparr>"
  obtain u where u: "try_finalize n w ?s = Inr u" "cascade_finalize n ch ws u = Inr t"
    using 5(5) deps by (auto simp: res_simps)
  have s: "advances s ?s" by (rule advances_discard [OF deps 5(4)])
  then have su: "advances s u" using advances_trans [OF s methods_advance(2) [of ?s n w]] u(1) by simp
  have "ready u \<subseteq> ready ?s - {w}" using 5(1) [OF deps _ u(1)] s 5(3) by (simp add: advances_def)
  moreover have "ready ?s = ready s" by (simp add: ready_def deps_finalized_def)
  moreover have "ready t \<subseteq> ready u - set ws"
    using 5(2) [OF deps u(1) _ _ u(2)] su 5(3,4) by (auto simp: advances_def)
  ultimately show ?case by auto
qed auto

section \<open>Runs of the protocol\<close>

datatype commitment_call = Publish commitment_artifact | Finalize string

fun commitment_step :: "commitment_call \<Rightarrow> commitment_protocol
     \<Rightarrow> commitment_error \<times> commitment_protocol + bool \<times> commitment_protocol" where
  "commitment_step (Publish c) s = publish_commitment c s"
| "commitment_step (Finalize ch) s = finalize_call ch s"

text \<open>A client goes on after an exception, with the state the call left.\<close>

definition commitment_run :: "commitment_call list \<Rightarrow> commitment_protocol" where
  "commitment_run calls = fold (\<lambda>x s. final_state (commitment_step x s)) calls init_protocol"

definition raises :: "(commitment_error \<times> 's) + 'r \<Rightarrow> bool" where
  "raises r \<longleftrightarrow> (case r of Inl _ \<Rightarrow> True | Inr _ \<Rightarrow> False)"

fun quiet_run :: "commitment_call list \<Rightarrow> commitment_protocol \<Rightarrow> bool" where
  "quiet_run [] s \<longleftrightarrow> True"
| "quiet_run (x # xs) s \<longleftrightarrow> \<not> raises (commitment_step x s) \<and> quiet_run xs (final_state (commitment_step x s))"

text \<open>What \<open>publish_commitment\<close> enters before it tries to finalize.\<close>

definition enter :: "commitment_artifact \<Rightarrow> commitment_protocol \<Rightarrow> commitment_protocol" where
  "enter c s =
     (let ch = ca_commitment_hash c;
          s = s\<lparr>cp_commitments := AList.update (ca_shard_id c, ca_need_id c) c (cp_commitments s),
                cp_by_hash := AList.update ch c (cp_by_hash s)\<rparr>;
          pending_deps = set (ca_dependencies c) - cp_finalized s
      in if pending_deps \<noteq> {} then s\<lparr>cp_pending := AList.update ch pending_deps (cp_pending s)\<rparr> else s)"

lemma publish_eq:
  "publish_commitment c s =
     (if has_key (ca_shard_id c, ca_need_id c) (cp_commitments s) then Inr (False, s)
      else res_bind (try_finalize (enough_depth (enter c s)) (ca_commitment_hash c) (enter c s)) (\<lambda>s. Inr (True, s)))"
  by (auto simp: publish_commitment_def enter_def Let_def enough_depth_def)

text \<open>
  Claim C21. Publishing and finalizing always return: the recursion through the cascade is never
  deeper than the number of published commitments that are not final, from any state.
\<close>

theorem commitments_terminate:
  "within_depth (publish_commitment c s) \<and> within_depth (finalize_call ch s)"
proof
  have "within_depth (try_finalize (enough_depth t) ch t)" for t ch
    by (rule methods_terminate) (simp add: enough_depth_def)
  then show "within_depth (publish_commitment c s)"
    by (auto simp: publish_eq within_depth_bind)
  show "within_depth (finalize_call ch s)"
    unfolding finalize_call_def by (rule methods_terminate) (simp add: enough_depth_def)
qed

lemma enter_fields [simp]:
  "cp_finalized (enter c s) = cp_finalized s"
  "cp_by_hash (enter c s) = AList.update (ca_commitment_hash c) c (cp_by_hash s)"
  "cp_commitments (enter c s) = AList.update (ca_shard_id c, ca_need_id c) c (cp_commitments s)"
  by (simp_all add: enter_def Let_def)

lemma covered_enter: "covered s \<Longrightarrow> covered (enter c s)"
  unfolding covered_def by (auto simp: enter_def Let_def get_pending_dependencies_def)

lemma ready_enter: "ready (enter c s) \<subseteq> insert (ca_commitment_hash c) (ready s)"
  by (auto simp: ready_def deps_finalized_def split: if_splits)

lemma committable_mono:
  assumes "committable r ch" and "r \<subseteq>\<^sub>m r'"
  shows "committable r' ch"
  using assms
proof (induction rule: committable.induct)
  case (1 ch c)
  then have "r' ch = Some c" by (auto simp: map_le_def dom_def)
  with 1 show ?case by (auto intro: committable.intros)
qed

lemma sound_enter:
  assumes "sound_final s" and "registry s (ca_commitment_hash c) = None"
  shows "sound_final (enter c s)"
proof -
  have "registry s \<subseteq>\<^sub>m registry (enter c s)" using assms(2) by (auto simp: map_le_def)
  then show ?thesis using assms(1) committable_mono unfolding sound_final_def enter_fields by blast
qed

definition hashes_identify :: "commitment_call list \<Rightarrow> bool" where
  "hashes_identify calls \<longleftrightarrow> (\<forall>c c'. Publish c \<in> set calls \<and> Publish c' \<in> set calls \<and>
     ca_commitment_hash c = ca_commitment_hash c' \<longrightarrow> c = c')"

definition run_inv :: "commitment_call list \<Rightarrow> commitment_protocol \<Rightarrow> bool" where
  "run_inv calls s \<longleftrightarrow> covered s \<and> sound_final s \<and> (\<forall>ch c. registry s ch = Some c \<longrightarrow>
     Publish c \<in> set calls \<and> ca_commitment_hash c = ch \<and> has_key (ca_shard_id c, ca_need_id c) (cp_commitments s))"

lemma run_inv_advances: "run_inv calls s \<Longrightarrow> advances s t \<Longrightarrow> run_inv calls t"
  by (simp add: run_inv_def advances_def)

lemma run_inv_enter:
  assumes "run_inv calls s" and "hashes_identify calls" and "Publish c \<in> set calls"
    and "\<not> has_key (ca_shard_id c, ca_need_id c) (cp_commitments s)"
  shows "run_inv calls (enter c s)"
proof -
  have "registry s (ca_commitment_hash c) = None"
  proof (cases "registry s (ca_commitment_hash c)")
    case (Some c')
    with assms show ?thesis unfolding run_inv_def hashes_identify_def by metis
  qed
  then show ?thesis using assms(1,3) sound_enter covered_enter by (auto simp: run_inv_def)
qed

lemma run_inv_step:
  assumes "run_inv calls s" and "hashes_identify calls" and "x \<in> set calls"
  shows "run_inv calls (final_state (commitment_step x s))"
    and "\<not> raises (commitment_step x s) \<Longrightarrow> ready s = {} \<Longrightarrow> ready (final_state (commitment_step x s)) = {}"
proof -
  have "run_inv calls (final_state (commitment_step x s)) \<and>
    (\<not> raises (commitment_step x s) \<longrightarrow> ready s = {} \<longrightarrow> ready (final_state (commitment_step x s)) = {})"
  proof (cases x)
    case (Finalize ch)
    have cov: "covered s" using assms(1) by (simp add: run_inv_def)
    let ?r = "finalize_commitment (enough_depth s) ch s"
    have inv: "run_inv calls (final_state ?r)" by (rule run_inv_advances [OF assms(1) methods_advance(1)])
    show ?thesis
    proof (cases ?r rule: final_state.cases)
      case (2 b t)
      with methods_complete(1) [OF cov 2] inv show ?thesis by (auto simp: Finalize finalize_call_def)
    qed (use inv in \<open>simp add: Finalize finalize_call_def raises_def\<close>)
  next
    case (Publish c)
    show ?thesis
    proof (cases "has_key (ca_shard_id c, ca_need_id c) (cp_commitments s)")
      case True
      with assms(1) Publish show ?thesis by (simp add: publish_eq)
    next
      case False
      let ?r = "try_finalize (enough_depth (enter c s)) (ca_commitment_hash c) (enter c s)"
      have ent: "run_inv calls (enter c s)" using run_inv_enter assms Publish False by simp
      then have cov: "covered (enter c s)" by (simp add: run_inv_def)
      have inv: "run_inv calls (left_state ?r)" by (rule run_inv_advances [OF ent methods_advance(2)])
      show ?thesis
      proof (cases ?r rule: left_state.cases)
        case (2 t)
        with methods_complete(2) [OF cov 2] ready_enter [of c s] inv False Publish show ?thesis
          by (auto simp: publish_eq)
      qed (use inv False Publish in \<open>simp add: publish_eq raises_def\<close>)
    qed
  qed
  then show "run_inv calls (final_state (commitment_step x s))"
    and "\<not> raises (commitment_step x s) \<Longrightarrow> ready s = {} \<Longrightarrow> ready (final_state (commitment_step x s)) = {}"
    by blast+
qed

lemma run_inv_run:
  assumes "run_inv calls s" and "hashes_identify calls" and "set xs \<subseteq> set calls"
  shows "run_inv calls (fold (\<lambda>x s. final_state (commitment_step x s)) xs s) \<and>
    (ready s = {} \<and> quiet_run xs s \<longrightarrow> ready (fold (\<lambda>x s. final_state (commitment_step x s)) xs s) = {})"
  using assms(1,3)
proof (induction xs arbitrary: s)
  case (Cons x xs)
  from run_inv_step [OF Cons.prems(1) assms(2), of x] Cons show ?case by auto
qed simp

lemma ready_empty_complete: "committable (registry s) ch \<Longrightarrow> ready s = {} \<Longrightarrow> ch \<in> cp_finalized s"
proof (induction rule: committable.induct)
  case (1 ch c)
  then have "set (ca_dependencies c) \<subseteq> cp_finalized s" by blast
  with 1 show ?case by (auto simp: ready_def deps_finalized_iff)
qed

text \<open>
  Claim C22. When a hash identifies a commitment, only commitments all of whose dependencies can
  become final (recursively) are ever finalized, whatever the order of the calls that publish and
  finalize and even when calls raise; and after calls of which none raised, all of them are: the
  finalized hashes are the least set closed under the rule.  \<open>clear_need\<close>, which forgets
  commitments, is not among the calls.
\<close>

theorem finalized_least_fixpoint:
  assumes "hashes_identify calls"
  defines "s \<equiv> commitment_run calls"
  shows "cp_finalized s \<subseteq> {ch. committable (registry s) ch} \<and>
    (quiet_run calls init_protocol \<longrightarrow> cp_finalized s = {ch. committable (registry s) ch})"
proof -
  have "run_inv calls init_protocol" "ready init_protocol = {}"
    by (simp_all add: run_inv_def init_protocol_def covered_def sound_final_def ready_def)
  from run_inv_run [OF this(1) assms(1), of calls] this(2)
  have "run_inv calls s" "quiet_run calls init_protocol \<longrightarrow> ready s = {}"
    by (simp_all add: s_def commitment_run_def)
  then show ?thesis using ready_empty_complete [of s] by (auto simp: run_inv_def sound_final_def)
qed

definition demo_commitment :: "int \<Rightarrow> string \<Rightarrow> string list \<Rightarrow> commitment_artifact" where
  "demo_commitment shard ch deps = \<lparr>ca_shard_id = shard, ca_need_id = ''need'', ca_artifact_hash = [], ca_timestamp_ns = 0,
     ca_commitment_hash = ch, ca_dependencies = deps\<rparr>"

lemma finalized_least_fixpoint_witness:
  "let calls = [Publish (demo_commitment 2 ''b'' [''a'']), Publish (demo_commitment 1 ''a'' [])]
   in cp_finalized (commitment_run calls) = {ch. committable (registry (commitment_run calls)) ch} \<and>
     ''b'' \<in> cp_finalized (commitment_run calls)"
proof -
  let ?calls = "[Publish (demo_commitment 2 ''b'' [''a'']), Publish (demo_commitment 1 ''a'' [])]"
  have "hashes_identify ?calls" by (auto simp: hashes_identify_def demo_commitment_def)
  moreover have "quiet_run ?calls init_protocol" by code_simp
  moreover have "''b'' \<in> cp_finalized (commitment_run ?calls)" by code_simp
  ultimately show ?thesis using finalized_least_fixpoint [of ?calls] by (simp add: Let_def)
qed

text \<open>
  A diamond makes the cascade raise: when \<open>c\<close> waits for \<open>a\<close> and \<open>b\<close> and
  \<open>b\<close> for \<open>a\<close>, publishing \<open>a\<close> last finalizes \<open>c\<close> inside the loop that
  still holds it, \<open>self.pending\<close> raises KeyError, and \<open>d\<close>, which only waits for
  \<open>a\<close>, is never finalized although it could be.
\<close>

theorem diamond_raises:
  "let s = commitment_run [Publish (demo_commitment 2 ''b'' [''a'']), Publish (demo_commitment 3 ''c'' [''a'', ''b'']),
         Publish (demo_commitment 4 ''d'' [''a''])];
       r = publish_commitment (demo_commitment 1 ''a'' []) s
   in fst (projl r) = KeyError \<and> raises r \<and> cp_finalized (final_state r) = {''a'', ''b'', ''c''} \<and>
     ''d'' \<in> ready (final_state r)"
proof -
  let ?s = "commitment_run [Publish (demo_commitment 2 ''b'' [''a'']), Publish (demo_commitment 3 ''c'' [''a'', ''b'']),
         Publish (demo_commitment 4 ''d'' [''a''])]"
  let ?r = "publish_commitment (demo_commitment 1 ''a'' []) ?s"
  have "fst (projl ?r) = KeyError" "raises ?r" by code_simp+
  moreover have fin: "cp_finalized (final_state ?r) = {''a'', ''b'', ''c''}" by code_simp
  moreover have "registry (final_state ?r) ''d'' = Some (demo_commitment 4 ''d'' [''a''])" by code_simp
  then have "''d'' \<in> ready (final_state ?r)"
    unfolding ready_def by (simp add: fin deps_finalized_iff) (simp add: demo_commitment_def)
  ultimately show ?thesis by (simp add: Let_def)
qed

end
