(* ===== verification/Sharding.thy ===== *)
theory Sharding
  imports Tables PyFloat
begin

text \<open>
  Shard placement and membership (\<open>sharding/topology.py\<close>), the router between shards
  (\<open>sharding/router.py\<close>) and the escrow of artifacts (\<open>sharding/escrow.py\<close>).  SHA-256 is a
  function from strings to the list of its digest bytes; readings of the clock and UUIDs are
  arguments; the order in which a set of nodes is visited is the argument \<open>order\<close>.
\<close>

section \<open>Topology\<close>

definition get_shard_for_need :: "(string \<Rightarrow> nat list) \<Rightarrow> int \<Rightarrow> string \<Rightarrow> int" where
  "get_shard_for_need sha256 num_shards need_id =
     (let hash_value = foldl (\<lambda>acc b. 256 * acc + int b) 0 (take 4 (sha256 need_id)) in hash_value mod num_shards)"

definition get_bucket_range :: "int \<Rightarrow> int \<Rightarrow> int \<times> int" where
  "get_bucket_range num_shards shard_id =
     (let bucket_size = 2 ^ 32 div num_shards in (shard_id * bucket_size, (shard_id + 1) * bucket_size - 1))"

section \<open>Registry of nodes\<close>

record node_info =
  ni_address :: string
  ni_capabilities :: "string list"
  ni_joined_at_ns :: int
  ni_last_heartbeat_ns :: int

text \<open>\<open>now\<close> is the float \<open>datetime.utcnow().timestamp() * 1e9\<close>.\<close>

definition is_healthy :: "pyfloat \<Rightarrow> node_info \<Rightarrow> bool" where
  "is_healthy now n \<longleftrightarrow> fsub now (to_float (ni_last_heartbeat_ns n)) < 30000000000"

record shard_registry =
  sg_shard_map :: "(int, string set) table"
  sg_nodes :: "(string, node_info) table"
  sg_capabilities :: "(int, string set) table"

definition set_at :: "('k, 'v set) table \<Rightarrow> 'k \<Rightarrow> 'v set" where
  "set_at t k = (case map_of t k of None \<Rightarrow> {} | Some s \<Rightarrow> s)"

definition register_shard :: "int \<Rightarrow> string \<Rightarrow> string \<Rightarrow> string list \<Rightarrow> int \<Rightarrow> shard_registry \<Rightarrow> shard_registry" where
  "register_shard shard_id node_id address capabilities now g =
     (let node = (case map_of (sg_nodes g) node_id of
             Some n \<Rightarrow> n\<lparr>ni_address := address, ni_capabilities := capabilities, ni_last_heartbeat_ns := now\<rparr>
           | None \<Rightarrow> \<lparr>ni_address = address, ni_capabilities = capabilities, ni_joined_at_ns = now, ni_last_heartbeat_ns = now\<rparr>)
      in g\<lparr>sg_nodes := AList.update node_id node (sg_nodes g),
           sg_shard_map := AList.update shard_id (insert node_id (set_at (sg_shard_map g) shard_id)) (sg_shard_map g),
           sg_capabilities := AList.update shard_id (set_at (sg_capabilities g) shard_id \<union> set capabilities) (sg_capabilities g)\<rparr>)"

definition get_shard_nodes :: "(string set \<Rightarrow> string list) \<Rightarrow> int \<Rightarrow> shard_registry \<Rightarrow> node_info list" where
  "get_shard_nodes order shard_id g = List.map_filter (map_of (sg_nodes g)) (order (set_at (sg_shard_map g) shard_id))"

definition get_healthy_nodes :: "(string set \<Rightarrow> string list) \<Rightarrow> pyfloat \<Rightarrow> int \<Rightarrow> shard_registry \<Rightarrow> node_info list" where
  "get_healthy_nodes order now shard_id g = filter (is_healthy now) (get_shard_nodes order shard_id g)"

definition health_check :: "(string set \<Rightarrow> string list) \<Rightarrow> pyfloat \<Rightarrow> int \<Rightarrow> shard_registry \<Rightarrow> bool" where
  "health_check order now shard_id g \<longleftrightarrow> length (get_healthy_nodes order now shard_id g) > 0"

definition update_heartbeat :: "string \<Rightarrow> int \<Rightarrow> shard_registry \<Rightarrow> shard_registry" where
  "update_heartbeat node_id now g =
     (if has_key node_id (sg_nodes g)
      then g\<lparr>sg_nodes := update_row node_id (\<lambda>n. n\<lparr>ni_last_heartbeat_ns := now\<rparr>) (sg_nodes g)\<rparr> else g)"

definition unregister_node :: "string \<Rightarrow> shard_registry \<Rightarrow> shard_registry" where
  "unregister_node node_id g =
     (if \<not> has_key node_id (sg_nodes g) then g
      else g\<lparr>sg_shard_map := map (\<lambda>(s, ns). (s, ns - {node_id})) (sg_shard_map g),
             sg_nodes := AList.delete node_id (sg_nodes g)\<rparr>)"

definition get_shard_capabilities :: "int \<Rightarrow> shard_registry \<Rightarrow> string set" where
  "get_shard_capabilities shard_id g = set_at (sg_capabilities g) shard_id"

definition get_all_shards :: "shard_registry \<Rightarrow> int list" where
  "get_all_shards g = keys (sg_shard_map g)"

section \<open>Router\<close>

record cross_shard_dependency =
  xd_from_shard :: int
  xd_to_shard :: int
  xd_artifact_refs :: "string list"

record cross_shard_router =
  xr_num_shards :: int
  xr_registry :: shard_registry
  xr_dependencies :: "(string, cross_shard_dependency list) table"
  xr_endpoint_cache :: "(int, string) table"

text \<open>The clock is read once for the cached endpoint and once for the fresh choice.\<close>

definition get_shard_endpoint ::
  "(string set \<Rightarrow> string list) \<Rightarrow> pyfloat \<Rightarrow> pyfloat \<Rightarrow> int \<Rightarrow> cross_shard_router \<Rightarrow> string option \<times> cross_shard_router" where
  "get_shard_endpoint order now1 now2 shard_id r =
     (case map_of (xr_endpoint_cache r) shard_id of
        Some cached \<Rightarrow>
          if list_ex (\<lambda>n. ni_address n = cached) (get_healthy_nodes order now1 shard_id (xr_registry r)) then (Some cached, r)
          else let r = r\<lparr>xr_endpoint_cache := AList.delete shard_id (xr_endpoint_cache r)\<rparr> in
            (case get_healthy_nodes order now2 shard_id (xr_registry r) of
               [] \<Rightarrow> (None, r)
             | n # ns \<Rightarrow> (Some (ni_address n), r\<lparr>xr_endpoint_cache := AList.update shard_id (ni_address n) (xr_endpoint_cache r)\<rparr>))
      | None \<Rightarrow>
          (case get_healthy_nodes order now2 shard_id (xr_registry r) of
             [] \<Rightarrow> (None, r)
           | n # ns \<Rightarrow> (Some (ni_address n), r\<lparr>xr_endpoint_cache := AList.update shard_id (ni_address n) (xr_endpoint_cache r)\<rparr>)))"

text \<open>\<open>None\<close> is the ValueError of a shard without a healthy node.\<close>

definition route_to_shard ::
  "(string \<Rightarrow> nat list) \<Rightarrow> (string set \<Rightarrow> string list) \<Rightarrow> pyfloat \<Rightarrow> pyfloat \<Rightarrow> string \<Rightarrow> cross_shard_router
     \<Rightarrow> (int \<times> string) option \<times> cross_shard_router" where
  "route_to_shard sha256 order now1 now2 need_id r =
     (let shard_id = get_shard_for_need sha256 (xr_num_shards r) need_id in
      case get_shard_endpoint order now1 now2 shard_id r of
        (None, r) \<Rightarrow> (None, r)
      | (Some endpoint, r) \<Rightarrow> (Some (shard_id, endpoint), r))"

definition track_cross_shard_deps ::
  "(string \<Rightarrow> nat list) \<Rightarrow> string \<Rightarrow> int list \<Rightarrow> cross_shard_router \<Rightarrow> cross_shard_router" where
  "track_cross_shard_deps sha256 need_id dep_shard_ids r =
     (let source_shard = get_shard_for_need sha256 (xr_num_shards r) need_id;
          deps = map (\<lambda>d. \<lparr>xd_from_shard = source_shard, xd_to_shard = d, xd_artifact_refs = []\<rparr>)
                   (filter (\<lambda>d. d \<noteq> source_shard) dep_shard_ids)
      in if deps \<noteq> [] then r\<lparr>xr_dependencies := AList.update need_id deps (xr_dependencies r)\<rparr> else r)"

definition get_cross_dependencies :: "string \<Rightarrow> cross_shard_router \<Rightarrow> cross_shard_dependency list" where
  "get_cross_dependencies need_id r = (case map_of (xr_dependencies r) need_id of None \<Rightarrow> [] | Some ds \<Rightarrow> ds)"

fun add_artifact :: "int \<Rightarrow> string \<Rightarrow> cross_shard_dependency list \<Rightarrow> cross_shard_dependency list" where
  "add_artifact s a [] = []"
| "add_artifact s a (d # ds) =
     (if xd_to_shard d = s then d\<lparr>xd_artifact_refs := xd_artifact_refs d @ [a]\<rparr> # ds else d # add_artifact s a ds)"

definition add_dependency_artifact :: "string \<Rightarrow> int \<Rightarrow> string \<Rightarrow> cross_shard_router \<Rightarrow> cross_shard_router" where
  "add_dependency_artifact need_id dep_shard artifact_ref r =
     r\<lparr>xr_dependencies := update_row need_id (add_artifact dep_shard artifact_ref) (xr_dependencies r)\<rparr>"

definition clear_dependencies :: "string \<Rightarrow> cross_shard_router \<Rightarrow> cross_shard_router" where
  "clear_dependencies need_id r = r\<lparr>xr_dependencies := AList.delete need_id (xr_dependencies r)\<rparr>"

definition get_shards_with_capability :: "string \<Rightarrow> cross_shard_router \<Rightarrow> int list" where
  "get_shards_with_capability capability r =
     filter (\<lambda>s. capability \<in> get_shard_capabilities s (xr_registry r)) (get_all_shards (xr_registry r))"

definition invalidate_endpoint_cache :: "int option \<Rightarrow> cross_shard_router \<Rightarrow> cross_shard_router" where
  "invalidate_endpoint_cache shard_id r =
     (case shard_id of
        Some s \<Rightarrow> r\<lparr>xr_endpoint_cache := AList.delete s (xr_endpoint_cache r)\<rparr>
      | None \<Rightarrow> r\<lparr>xr_endpoint_cache := []\<rparr>)"

section \<open>Escrow of artifacts\<close>

datatype escrow_state = EPending | EReady | EReleased | EExpired | ECancelled

record escrow_artifact =
  ea_artifact_hash :: string
  ea_ttl_ns :: int
  ea_shard_dependencies :: "int list"
  ea_created_at_ns :: int
  ea_expires_at_ns :: int
  ea_state :: escrow_state
  ea_ready_shards :: "int set"

definition is_expired :: "int \<Rightarrow> escrow_artifact \<Rightarrow> bool" where
  "is_expired now e \<longleftrightarrow> now \<ge> ea_expires_at_ns e"

definition all_dependencies_ready :: "escrow_artifact \<Rightarrow> bool" where
  "all_dependencies_ready e \<longleftrightarrow> list_all (\<lambda>s. s \<in> ea_ready_shards e) (ea_shard_dependencies e)"

type_synonym escrow_manager = "(string, escrow_artifact) table"

definition set_escrow_state :: "escrow_state \<Rightarrow> string \<Rightarrow> escrow_manager \<Rightarrow> escrow_manager" where
  "set_escrow_state st escrow_id m = update_row escrow_id (\<lambda>e. e\<lparr>ea_state := st\<rparr>) m"

text \<open>\<open>__post_init__\<close> computes the expiry of the new escrow, whose \<open>expires_at_ns\<close> is 0.\<close>

definition open_escrow :: "string \<Rightarrow> string \<Rightarrow> int list \<Rightarrow> int \<Rightarrow> int \<Rightarrow> escrow_manager \<Rightarrow> string \<times> escrow_manager" where
  "open_escrow escrow_id artifact_hash dependencies ttl_ns now m =
     (let e = \<lparr>ea_artifact_hash = artifact_hash, ea_ttl_ns = ttl_ns, ea_shard_dependencies = dependencies,
            ea_created_at_ns = now, ea_expires_at_ns = now + ttl_ns, ea_state = EPending, ea_ready_shards = {}\<rparr>;
          m = AList.update escrow_id e m;
          m = (if dependencies = [] then set_escrow_state EReady escrow_id m else m)
      in (escrow_id, m))"

definition add_ready_shard :: "string \<Rightarrow> int \<Rightarrow> escrow_manager \<Rightarrow> bool \<times> escrow_manager" where
  "add_ready_shard escrow_id shard_id m =
     (case map_of m escrow_id of
        None \<Rightarrow> (False, m)
      | Some e \<Rightarrow>
          if ea_state e \<noteq> EPending then (False, m)
          else let e = e\<lparr>ea_ready_shards := insert shard_id (ea_ready_shards e)\<rparr>; m = update_row escrow_id (\<lambda>_. e) m in
            if all_dependencies_ready e then (True, set_escrow_state EReady escrow_id m) else (False, m))"

definition check_all_ready :: "string \<Rightarrow> escrow_manager \<Rightarrow> bool" where
  "check_all_ready escrow_id m =
     (case map_of m escrow_id of None \<Rightarrow> False | Some e \<Rightarrow> ea_state e = EReady \<or> all_dependencies_ready e)"

definition release_artifact :: "string \<Rightarrow> escrow_manager \<Rightarrow> string option \<times> escrow_manager" where
  "release_artifact escrow_id m =
     (case map_of m escrow_id of
        None \<Rightarrow> (None, m)
      | Some e \<Rightarrow> if ea_state e \<noteq> EReady then (None, m)
                  else (Some (ea_artifact_hash e), set_escrow_state EReleased escrow_id m))"

definition expire_artifact :: "string \<Rightarrow> escrow_manager \<Rightarrow> bool \<times> escrow_manager" where
  "expire_artifact escrow_id m =
     (case map_of m escrow_id of
        None \<Rightarrow> (False, m)
      | Some e \<Rightarrow> if ea_state e \<notin> {EPending, EReady} then (False, m)
                  else (True, set_escrow_state EExpired escrow_id m))"

definition cancel_artifact :: "string \<Rightarrow> escrow_manager \<Rightarrow> bool \<times> escrow_manager" where
  "cancel_artifact escrow_id m =
     (case map_of m escrow_id of
        None \<Rightarrow> (False, m)
      | Some e \<Rightarrow> if ea_state e \<in> {EReleased, EExpired} then (False, m)
                  else (True, set_escrow_state ECancelled escrow_id m))"

text \<open>The loop visits the escrows in their order in the dictionary, which it does not change.\<close>

fun expire_each :: "int \<Rightarrow> string list \<Rightarrow> string list \<Rightarrow> escrow_manager \<Rightarrow> string list \<times> escrow_manager" where
  "expire_each now [] expired m = (expired, m)"
| "expire_each now (i # is) expired m =
     (case map_of m i of
        None \<Rightarrow> expire_each now is expired m
      | Some e \<Rightarrow>
          if ea_state e = EPending \<and> is_expired now e
          then (case expire_artifact i m of
                  (True, m) \<Rightarrow> expire_each now is (expired @ [i]) m
                | (False, m) \<Rightarrow> expire_each now is expired m)
          else expire_each now is expired m)"

definition check_expirations :: "int \<Rightarrow> escrow_manager \<Rightarrow> string list \<times> escrow_manager" where
  "check_expirations now m = expire_each now (keys m) [] m"

definition get_pending_escrows :: "escrow_manager \<Rightarrow> (string \<times> escrow_artifact) list" where
  "get_pending_escrows m = filter (\<lambda>(i, e). ea_state e = EPending) m"

definition cleanup_completed :: "escrow_manager \<Rightarrow> nat \<times> escrow_manager" where
  "cleanup_completed m =
     (let to_remove = map fst (filter (\<lambda>(i, e). ea_state e \<in> {EReleased, EExpired, ECancelled}) m)
      in (length to_remove, fold AList.delete to_remove m))"

end
