(* ===== verification/ShardingProps.thy ===== *)
theory ShardingProps
  imports Sharding PyString
begin

text \<open>
  What the escrow of artifacts and the router between shards promise: an artifact is released once
  and only when all its shards are ready; a message goes to a healthy node of the shard of its need.
\<close>

section \<open>Runs of the escrow manager\<close>

datatype escrow_call =
    Open string string "int list" int int
  | Signal string int
  | Release string
  | Expire string
  | Cancel string
  | CheckExpirations int
  | Cleanup

fun escrow_step :: "escrow_call \<Rightarrow> escrow_manager \<Rightarrow> escrow_manager" where
  "escrow_step (Open i a deps ttl now) m = snd (open_escrow i a deps ttl now m)"
| "escrow_step (Signal i s) m = snd (add_ready_shard i s m)"
| "escrow_step (Release i) m = snd (release_artifact i m)"
| "escrow_step (Expire i) m = snd (expire_artifact i m)"
| "escrow_step (Cancel i) m = snd (cancel_artifact i m)"
| "escrow_step (CheckExpirations now) m = snd (check_expirations now m)"
| "escrow_step Cleanup m = snd (cleanup_completed m)"

definition escrow_run :: "escrow_call list \<Rightarrow> escrow_manager" where
  "escrow_run cs = fold escrow_step cs []"

fun opened :: "escrow_call list \<Rightarrow> string list" where
  "opened [] = []"
| "opened (Open i a deps ttl now # cs) = i # opened cs"
| "opened (c # cs) = opened cs"

lemma opened_append [simp]: "opened (cs @ ds) = opened cs @ opened ds"
  by (induction cs rule: opened.induct) auto

lemma escrow_run_snoc: "escrow_run (cs @ [c]) = escrow_step c (escrow_run cs)"
  by (simp add: escrow_run_def)

lemma map_of_set_escrow_state [simp]:
  "map_of (set_escrow_state st i m) j = (if j = i then map_option (\<lambda>e. e\<lparr>ea_state := st\<rparr>) (map_of m j) else map_of m j)"
  by (simp add: set_escrow_state_def)

text \<open>The life of one escrow: a step leaves it alone, or moves it forward.\<close>

inductive moves :: "escrow_call \<Rightarrow> string \<Rightarrow> escrow_artifact option \<Rightarrow> escrow_artifact option \<Rightarrow> bool" where
  stay: "moves c i old old"
| removed: "moves c i (Some e) None"
| released: "ea_state e = EReady \<Longrightarrow> moves c i (Some e) (Some (e\<lparr>ea_state := EReleased\<rparr>))"
| expired: "ea_state e \<in> {EPending, EReady} \<Longrightarrow> moves c i (Some e) (Some (e\<lparr>ea_state := EExpired\<rparr>))"
| cancelled: "ea_state e \<notin> {EReleased, EExpired} \<Longrightarrow> moves c i (Some e) (Some (e\<lparr>ea_state := ECancelled\<rparr>))"
| signalled: "ea_state e = EPending \<Longrightarrow> e' = e\<lparr>ea_ready_shards := insert s (ea_ready_shards e), ea_state := st\<rparr> \<Longrightarrow>
    st = EPending \<or> st = EReady \<and> all_dependencies_ready e' \<Longrightarrow> moves (Signal i s) i (Some e) (Some e')"
| reopened: "ea_artifact_hash e = a \<Longrightarrow> ea_shard_dependencies e = deps \<Longrightarrow> ea_ready_shards e = {} \<Longrightarrow>
    ea_state e = EPending \<or> ea_state e = EReady \<and> deps = [] \<Longrightarrow> moves (Open i a deps ttl now) i old (Some e)"

lemma expire_each_eq:
  "distinct is \<Longrightarrow> map_of (snd (expire_each now is expired m)) j =
     (if j \<in> set is \<and> (\<exists>e. map_of m j = Some e \<and> ea_state e = EPending \<and> is_expired now e)
      then map_option (\<lambda>e. e\<lparr>ea_state := EExpired\<rparr>) (map_of m j) else map_of m j)"
proof (induction now "is" expired m rule: expire_each.induct)
  case (2 now i "is" expired m)
  then show ?case
    by (cases "map_of m i") (auto simp: expire_artifact_def Let_def)
qed simp

lemma delete_all: "map_of (fold AList.delete is m) j = (if j \<in> set is then None else map_of m j)"
  by (induction "is" arbitrary: m) auto

lemma signal_moves: "moves (Signal i s) j (map_of m j) (map_of (snd (add_ready_shard i s m)) j)"
proof (cases "j = i \<and> (\<exists>e. map_of m i = Some e \<and> ea_state e = EPending)")
  case True
  then obtain e where e: "j = i" "map_of m i = Some e" "ea_state e = EPending" by blast
  let ?e = "e\<lparr>ea_ready_shards := insert s (ea_ready_shards e)\<rparr>"
  have "map_of (snd (add_ready_shard i s m)) i =
      Some (?e\<lparr>ea_state := if all_dependencies_ready ?e then EReady else EPending\<rparr>)"
    using e by (simp add: add_ready_shard_def Let_def)
  with e show ?thesis
    by (auto intro!: moves.signalled simp: all_dependencies_ready_def)
next
  case False
  then have "map_of (snd (add_ready_shard i s m)) j = map_of m j"
    by (auto simp: add_ready_shard_def Let_def split: option.splits)
  then show ?thesis by (simp add: moves.stay)
qed

lemma open_moves: "moves (Open i a deps ttl now) j (map_of m j) (map_of (snd (open_escrow i a deps ttl now m)) j)"
  by (cases "j = i") (auto simp: open_escrow_def Let_def intro: moves.stay moves.reopened)

lemma settle_moves:
  "moves c j (map_of m j) (map_of (snd (release_artifact i m)) j)"
  "moves c j (map_of m j) (map_of (snd (expire_artifact i m)) j)"
  "moves c j (map_of m j) (map_of (snd (cancel_artifact i m)) j)"
  by (cases "j = i"; auto simp: release_artifact_def expire_artifact_def cancel_artifact_def
        intro: moves.stay moves.released moves.expired moves.cancelled split: option.split)+

lemma escrow_step_moves:
  assumes "keyed m"
  shows "moves c j (map_of m j) (map_of (escrow_step c m) j)"
proof (cases c)
  case (CheckExpirations now)
  have "distinct (keys m)" using assms by (simp add: keyed_def)
  then show ?thesis
    by (cases "map_of m j")
       (simp_all add: CheckExpirations check_expirations_def expire_each_eq moves.stay moves.expired)
next
  case Cleanup
  then show ?thesis
    by (cases "map_of m j") (auto simp: cleanup_completed_def Let_def delete_all intro: moves.stay moves.removed)
qed (simp_all add: signal_moves open_moves settle_moves)

lemma keyed_set_escrow_state [simp]: "keyed (set_escrow_state st i m) = keyed m"
  by (simp add: set_escrow_state_def)

lemma keyed_expire_each: "keyed m \<Longrightarrow> keyed (snd (expire_each now is expired m))"
  by (induction now "is" expired m rule: expire_each.induct)
     (auto simp: expire_artifact_def split: option.split)

lemma keyed_delete_all: "keyed m \<Longrightarrow> keyed (fold AList.delete is m)"
  by (induction "is" arbitrary: m) auto

lemma keyed_escrow_step: "keyed m \<Longrightarrow> keyed (escrow_step c m)"
  by (cases c) (auto simp: open_escrow_def add_ready_shard_def release_artifact_def expire_artifact_def
      cancel_artifact_def check_expirations_def cleanup_completed_def keyed_expire_each keyed_delete_all Let_def
      split: option.split)

lemma keyed_escrow_fold: "keyed m \<Longrightarrow> keyed (fold escrow_step cs m)"
  by (induction cs arbitrary: m) (auto simp: keyed_escrow_step)

text \<open>What the calls so far explain of an escrow.\<close>

definition explained :: "escrow_call list \<Rightarrow> string \<Rightarrow> escrow_artifact \<Rightarrow> bool" where
  "explained cs i e \<longleftrightarrow> (\<exists>ttl now. Open i (ea_artifact_hash e) (ea_shard_dependencies e) ttl now \<in> set cs) \<and>
     (\<forall>s \<in> ea_ready_shards e. Signal i s \<in> set cs) \<and> (ea_state e = EReady \<longrightarrow> all_dependencies_ready e)"

lemma moves_explained:
  assumes "moves c i old new" and "\<And>e. old = Some e \<Longrightarrow> explained cs i e" and "new = Some e"
  shows "explained (cs @ [c]) i e"
  using assms by (cases rule: moves.cases) (fastforce simp: explained_def all_dependencies_ready_def)+

lemma escrow_run_explained: "map_of (escrow_run cs) i = Some e \<Longrightarrow> explained cs i e"
proof (induction cs arbitrary: e rule: rev_induct)
  case (snoc c cs)
  have "keyed (escrow_run cs)" by (simp add: escrow_run_def keyed_escrow_fold)
  from moves_explained [OF escrow_step_moves [OF this] snoc.IH] snoc.prems show ?case
    by (auto simp: escrow_run_snoc)
qed (simp add: escrow_run_def)

text \<open>Once settled, an escrow stays settled until its id is opened again.\<close>

definition settled_escrow :: "escrow_artifact option \<Rightarrow> bool" where
  "settled_escrow x \<longleftrightarrow> (\<forall>e. x = Some e \<longrightarrow> ea_state e \<in> {EReleased, EExpired, ECancelled})"

lemma moves_settled: "moves c i old new \<Longrightarrow> settled_escrow old \<Longrightarrow> i \<notin> set (opened [c]) \<Longrightarrow> settled_escrow new"
  by (cases rule: moves.cases) (auto simp: settled_escrow_def)

lemma fold_settled:
  "keyed m \<Longrightarrow> settled_escrow (map_of m i) \<Longrightarrow> i \<notin> set (opened cs) \<Longrightarrow>
     settled_escrow (map_of (fold escrow_step cs m) i)"
proof (induction cs arbitrary: m)
  case (Cons c cs)
  have "i \<notin> set (opened [c])" "i \<notin> set (opened cs)"
    using Cons.prems(3) opened_append [of "[c]" cs] by auto
  with moves_settled [OF escrow_step_moves [OF Cons.prems(1)] Cons.prems(2)] Cons.IH Cons.prems(1)
  show ?case by (simp add: keyed_escrow_step)
qed simp

text \<open>
  Claim C23. Whatever calls precede it, \<open>release_escrow\<close> returns an artifact only for an
  escrow that was opened with it and whose dependencies all signalled ready; and after that it
  returns nothing for this escrow, whatever calls follow, as long as its id is not opened again.
\<close>

theorem artifact_released_once_when_ready:
  assumes "fst (release_artifact i (escrow_run cs)) = Some a" and "i \<notin> set (opened ds)"
  shows "(\<exists>deps ttl now. Open i a deps ttl now \<in> set cs \<and> list_all (\<lambda>d. Signal i d \<in> set cs) deps) \<and>
    fst (release_artifact i (escrow_run (cs @ Release i # ds))) = None"
proof
  obtain e where e: "map_of (escrow_run cs) i = Some e" "ea_state e = EReady" "ea_artifact_hash e = a"
    using assms(1) by (auto simp: release_artifact_def split: option.splits if_splits)
  from escrow_run_explained [OF e(1)] e(2,3)
  show "\<exists>deps ttl now. Open i a deps ttl now \<in> set cs \<and> list_all (\<lambda>d. Signal i d \<in> set cs) deps"
    by (auto simp: explained_def all_dependencies_ready_def list_all_iff)
  let ?m = "escrow_step (Release i) (escrow_run cs)"
  have "keyed ?m" by (simp add: escrow_run_def keyed_escrow_fold keyed_escrow_step del: escrow_step.simps)
  moreover have "settled_escrow (map_of ?m i)" using e by (simp add: release_artifact_def settled_escrow_def)
  ultimately have "settled_escrow (map_of (fold escrow_step ds ?m) i)" using assms(2) by (rule fold_settled)
  then show "fst (release_artifact i (escrow_run (cs @ Release i # ds))) = None"
    by (auto simp: release_artifact_def settled_escrow_def escrow_run_def split: option.split)
qed

lemma artifact_released_once_when_ready_witness:
  "let cs = [Open ''e'' ''artifact'' [1, 2] 10 0, Signal ''e'' 1, Signal ''e'' 2]
   in fst (release_artifact ''e'' (escrow_run cs)) = Some ''artifact'' \<and>
     fst (release_artifact ''e'' (escrow_run (cs @ [Release ''e'', Cleanup]))) = None"
proof -
  let ?cs = "[Open ''e'' ''artifact'' [1, 2] 10 0, Signal ''e'' 1, Signal ''e'' 2]"
  have "fst (release_artifact ''e'' (escrow_run ?cs)) = Some ''artifact''" by code_simp
  with artifact_released_once_when_ready [OF this, of "[Cleanup]"] show ?thesis by (simp add: Let_def)
qed

text \<open>The time to live is enforced for pending escrows only: a ready one survives its expiry and is released
  after it.\<close>

lemma ready_escrow_outlives_ttl:
  "let m = escrow_run [Open ''e'' ''artifact'' [1] 10 0, Signal ''e'' 1, CheckExpirations 1000]
   in fst (release_artifact ''e'' m) = Some ''artifact''"
  by code_simp

section \<open>Routing\<close>

definition endpoints :: "pyfloat \<Rightarrow> int \<Rightarrow> shard_registry \<Rightarrow> string set" where
  "endpoints now s g = {ni_address n | n i. i \<in> set_at (sg_shard_map g) s \<and> map_of (sg_nodes g) i = Some n \<and> is_healthy now n}"

lemma healthy_endpoints:
  assumes "lists_sets order" and "finite (set_at (sg_shard_map g) s)"
  shows "ni_address ` set (get_healthy_nodes order now s g) = endpoints now s g"
proof -
  have "set (order (set_at (sg_shard_map g) s)) = set_at (sg_shard_map g) s"
    using assms by (simp add: lists_sets_def)
  then show ?thesis
    by (auto simp: endpoints_def get_healthy_nodes_def get_shard_nodes_def set_map_filter)
qed

text \<open>
  A routed message goes to the shard of its need, whose number is in range, and to the
  address of a node of that shard that was healthy at one of the two readings of the clock, also
  when the address comes from the cache; and routing fails only when no node of the shard is
  healthy.
\<close>

theorem route_to_healthy_node:
  fixes sha256 need_id
  assumes "lists_sets order" and "0 < xr_num_shards r"
    and "\<And>s. finite (set_at (sg_shard_map (xr_registry r)) s)"
  defines "s \<equiv> get_shard_for_need sha256 (xr_num_shards r) need_id"
  shows "0 \<le> s \<and> s < xr_num_shards r \<and>
    (case fst (route_to_shard sha256 order now1 now2 need_id r) of
       Some (shard, address) \<Rightarrow> shard = s \<and>
         address \<in> endpoints now1 s (xr_registry r) \<union> endpoints now2 s (xr_registry r)
     | None \<Rightarrow> endpoints now2 s (xr_registry r) = {})"
proof -
  have range: "0 \<le> s \<and> s < xr_num_shards r" using assms(2) by (simp add: s_def get_shard_for_need_def Let_def)
  let ?h = "\<lambda>now. get_healthy_nodes order now s (xr_registry r)"
  have h: "endpoints now s (xr_registry r) = ni_address ` set (?h now)" for now
    by (rule healthy_endpoints [OF assms(1,3), symmetric])
  have cached: "list_ex (\<lambda>n. ni_address n = c) (?h now1) \<longleftrightarrow> c \<in> ni_address ` set (?h now1)" for c
    by (auto simp: list_ex_iff)
  show ?thesis
    using range
    by (cases "?h now2"; cases "map_of (xr_endpoint_cache r) s")
       (auto simp: route_to_shard_def get_shard_endpoint_def Let_def h cached simp flip: s_def)
qed

definition demo_router :: cross_shard_router where
  "demo_router = \<lparr>xr_num_shards = 256,
     xr_registry = register_shard 7 ''n1'' ''host:1'' [''c''] 0 \<lparr>sg_shard_map = [], sg_nodes = [], sg_capabilities = []\<rparr>,
     xr_dependencies = [], xr_endpoint_cache = []\<rparr>"

lemma route_to_healthy_node_witness:
  "fst (route_to_shard (\<lambda>_. [0, 0, 0, 7]) sorted_list_of_set 5 5 ''need'' demo_router) = Some (7, ''host:1'') \<and>
   ''host:1'' \<in> endpoints 5 7 (xr_registry demo_router)"
proof -
  have eval: "fst (route_to_shard (\<lambda>_. [0, 0, 0, 7]) sorted_list_of_set 5 5 ''need'' demo_router) = Some (7, ''host:1'')"
    by code_simp
  have shard: "xr_num_shards demo_router = 256" "get_shard_for_need (\<lambda>_. [0, 0, 0, 7]) 256 ''need'' = 7" by code_simp+
  have "finite (set_at (sg_shard_map (xr_registry demo_router)) s)" for s
    by (simp add: demo_router_def register_shard_def Let_def set_at_def split: option.split)
  with route_to_healthy_node [OF lists_sets_sorted, of demo_router "\<lambda>_. [0, 0, 0, 7]" "''need''" 5 5] eval
  show ?thesis by (simp add: shard)
qed

text \<open>The advertised bucket ranges are not where the needs go: a hash of 1 is placed in shard 1 of 256, whose
  range starts at \<open>2 ^ 24\<close>.\<close>

lemma bucket_range_disagrees:
  "get_shard_for_need (\<lambda>_. [0, 0, 0, 1]) 256 need_id = 1 \<and> get_bucket_range 256 1 = (16777216, 33554431)"
  by (simp add: get_shard_for_need_def get_bucket_range_def Let_def)

end
