(* ===== verification/Challenges.thy ===== *)
theory Challenges
  imports Tables PyString "HOL-Library.Sublist"
begin

text \<open>
  The evidence side of challenges: proof metadata and its limits (\<open>challenges/proofs.py\<close>), bonds
  (\<open>challenges/bonds.py\<close>) and the rules that verify a proof (\<open>challenges/verification.py\<close>).
  The evidence dictionary is a record of the entries the code reads, with the shapes the docstrings
  give; an absent entry has the default of \<open>get\<close>.  Characters are bytes, and \<open>lower\<close> is
  the one of ASCII.
\<close>

section \<open>Proof metadata\<close>

datatype proof_type =
  SCHEMA_VIOLATION | MISSING_CITATION | SEMANTIC_CONTRADICTION | OUTPUT_MISMATCH | POLICY_BREACH

definition proof_type_value :: "proof_type \<Rightarrow> string" where
  "proof_type_value p = (case p of
     SCHEMA_VIOLATION \<Rightarrow> ''SCHEMA_VIOLATION'' | MISSING_CITATION \<Rightarrow> ''MISSING_CITATION''
   | SEMANTIC_CONTRADICTION \<Rightarrow> ''SEMANTIC_CONTRADICTION'' | OUTPUT_MISMATCH \<Rightarrow> ''OUTPUT_MISMATCH''
   | POLICY_BREACH \<Rightarrow> ''POLICY_BREACH'')"

definition MAX_PROOF_SIZE_BYTES :: int where "MAX_PROOF_SIZE_BYTES = 10 * 1024"
definition MAX_GAS_ESTIMATE :: int where "MAX_GAS_ESTIMATE = 100000"

record proof_schema =
  pf_proof_type :: proof_type
  pf_evidence_hash :: string
  pf_size_bytes :: int
  pf_gas_estimate :: int
  pf_metadata :: "(string \<times> json) list option"

definition validate_schema :: "proof_schema \<Rightarrow> bool \<times> string option" where
  "validate_schema p =
     (if pf_size_bytes p > MAX_PROOF_SIZE_BYTES
      then (False, Some (''Proof size '' @ str_of_int (pf_size_bytes p) @ '' exceeds max '' @ str_of_int MAX_PROOF_SIZE_BYTES @ '' bytes''))
      else if pf_size_bytes p \<le> 0 then (False, Some ''Proof size must be positive'')
      else if pf_gas_estimate p > MAX_GAS_ESTIMATE
      then (False, Some (''Gas estimate '' @ str_of_int (pf_gas_estimate p) @ '' exceeds max '' @ str_of_int MAX_GAS_ESTIMATE))
      else if pf_gas_estimate p < 0 then (False, Some ''Gas estimate must be non-negative'')
      else if length (pf_evidence_hash p) \<noteq> 64
      then (False, Some ''Evidence hash must be 64-character SHA256 hex string'')
      else (True, None))"

definition schema_to_dict :: "proof_schema \<Rightarrow> (string, json) table" where
  "schema_to_dict p =
     [(''proof_type'', JStr (proof_type_value (pf_proof_type p))), (''evidence_hash'', JStr (pf_evidence_hash p)),
      (''size_bytes'', JInt (pf_size_bytes p)), (''gas_estimate'', JInt (pf_gas_estimate p)),
      (''metadata'', JObj (case pf_metadata p of None \<Rightarrow> [] | Some m \<Rightarrow> m))]"

text \<open>\<open>None\<close> is the KeyError of a missing key, or the ValueError of an unknown proof type.\<close>

definition parse_proof_type :: "string \<Rightarrow> proof_type option" where
  "parse_proof_type s =
     List.find (\<lambda>p. proof_type_value p = s)
       [SCHEMA_VIOLATION, MISSING_CITATION, SEMANTIC_CONTRADICTION, OUTPUT_MISMATCH, POLICY_BREACH]"

definition schema_from_dict :: "(string, json) table \<Rightarrow> proof_schema option" where
  "schema_from_dict d =
     (case (map_of d ''proof_type'', map_of d ''evidence_hash'', map_of d ''size_bytes'', map_of d ''gas_estimate'') of
        (Some (JStr t), Some (JStr h), Some (JInt n), Some (JInt g)) \<Rightarrow>
          (case parse_proof_type t of
             None \<Rightarrow> None
           | Some p \<Rightarrow> Some \<lparr>pf_proof_type = p, pf_evidence_hash = h, pf_size_bytes = n, pf_gas_estimate = g,
               pf_metadata = (case map_of d ''metadata'' of Some (JObj m) \<Rightarrow> Some m | _ \<Rightarrow> None)\<rparr>)
      | _ \<Rightarrow> None)"

section \<open>Bonds\<close>

datatype complexity = SIMPLE_PROOF | MODERATE_PROOF | COMPLEX_PROOF

definition complexity_value :: "complexity \<Rightarrow> int" where
  "complexity_value c = (case c of SIMPLE_PROOF \<Rightarrow> 1 | MODERATE_PROOF \<Rightarrow> 2 | COMPLEX_PROOF \<Rightarrow> 5)"

definition BASE_BOND_AMOUNTS :: "(proof_type, int) table" where
  "BASE_BOND_AMOUNTS =
     [(SCHEMA_VIOLATION, 10), (MISSING_CITATION, 25), (SEMANTIC_CONTRADICTION, 50), (OUTPUT_MISMATCH, 100), (POLICY_BREACH, 75)]"

text \<open>\<open>None\<close> is the ValueError of an unknown proof type.\<close>

definition calculate_bond :: "proof_type \<Rightarrow> complexity \<Rightarrow> int option" where
  "calculate_bond p c =
     (case map_of BASE_BOND_AMOUNTS p of None \<Rightarrow> None | Some base_amount \<Rightarrow> Some (base_amount * complexity_value c))"

definition get_base_amount :: "proof_type \<Rightarrow> int option" where
  "get_base_amount p = map_of BASE_BOND_AMOUNTS p"

section \<open>Verification rules\<close>

definition GAS_BASE :: int where "GAS_BASE = 1000"
definition GAS_PER_FIELD :: int where "GAS_PER_FIELD = 100"
definition GAS_PER_CITATION :: int where "GAS_PER_CITATION = 200"
definition GAS_CONTRADICTION_ANALYSIS :: int where "GAS_CONTRADICTION_ANALYSIS = 5000"

record verification_result =
  vr_is_valid :: bool
  vr_gas_used :: int
  vr_reason :: string
  vr_evidence :: "(string, json) table"

record proof_evidence =
  ev_expected_schema :: "(string, (string, json) table) table"
  ev_actual_output :: "(string, json) table"
  ev_violations :: "string list"
  ev_required_citations :: "json list"
  ev_provided_citations :: "json list"
  ev_statements :: "string list"
  ev_contradiction_type :: string
  ev_specified_output :: "(string, json) table"
  ev_mismatch_fields :: "string list"
  ev_policy_rule :: "string option"
  ev_violation_details :: "(string, json) table"

definition lower_char :: "char \<Rightarrow> char" where
  "lower_char c = (let n = (of_char c :: nat) in if 65 \<le> n \<and> n \<le> 90 then char_of (n + 32) else c)"

definition py_lower :: "string \<Rightarrow> string" where
  "py_lower s = map lower_char s"

text \<open>\<open>isinstance\<close>: a Python bool is an int.\<close>

definition type_name :: "json \<Rightarrow> string" where
  "type_name v = (case v of JNull \<Rightarrow> ''NoneType'' | JBool _ \<Rightarrow> ''bool'' | JInt _ \<Rightarrow> ''int'' | JStr _ \<Rightarrow> ''str''
     | JList _ \<Rightarrow> ''list'' | JObj _ \<Rightarrow> ''dict'')"

definition check_type :: "json \<Rightarrow> string \<Rightarrow> bool" where
  "check_type v expected_type =
     (let t = py_lower expected_type; n = type_name v in
      if t = ''string'' then n = ''str''
      else if t = ''number'' \<or> t = ''integer'' then n = ''int'' \<or> n = ''bool''
      else if t = ''boolean'' then n = ''bool''
      else if t = ''object'' then n = ''dict''
      else if t = ''array'' then n = ''list''
      else True)"

text \<open>\<open>actual_output.get(field)\<close> is None for an absent field and for a null one.\<close>

definition field_violation :: "proof_evidence \<Rightarrow> string \<Rightarrow> string option" where
  "field_violation ev field =
     (case map_of (ev_expected_schema ev) field of
        None \<Rightarrow> None
      | Some sch \<Rightarrow>
          (case map_of (ev_actual_output ev) field of
             None \<Rightarrow> Some (field @ '': missing'')
           | Some JNull \<Rightarrow> Some (field @ '': missing'')
           | Some v \<Rightarrow>
               (case map_of sch ''type'' of
                  Some (JStr t) \<Rightarrow>
                    if t \<noteq> [] \<and> \<not> check_type v t
                    then Some (field @ '': expected '' @ t @ '', got '' @ type_name v) else None
                | _ \<Rightarrow> None)))"

definition gas_capped :: "int \<Rightarrow> int" where
  "gas_capped g = min g MAX_GAS_ESTIMATE"

definition verify_schema_violation :: "proof_evidence \<Rightarrow> verification_result" where
  "verify_schema_violation ev =
     (if ev_expected_schema ev = [] \<or> ev_actual_output ev = []
      then \<lparr>vr_is_valid = False, vr_gas_used = GAS_BASE, vr_reason = ''Missing expected_schema or actual_output'', vr_evidence = []\<rparr>
      else
        let found = List.map_filter (field_violation ev) (ev_violations ev);
            gas_used = GAS_BASE + GAS_PER_FIELD * int (length (ev_violations ev));
            valid = length found > 0
        in \<lparr>vr_is_valid = valid, vr_gas_used = gas_capped gas_used,
             vr_reason = (if valid then ''Found '' @ str_of_nat (length found) @ '' schema violations'' else ''No violations found''),
             vr_evidence = [(''violations_found'', JList (map JStr found))]\<rparr>)"

text \<open>\<open>==\<close> of Python: a bool equals the int 0 or 1, and dictionaries compare without their order.\<close>

fun py_eq :: "json \<Rightarrow> json \<Rightarrow> bool"
  and py_eq_list :: "json list \<Rightarrow> json list \<Rightarrow> bool"
  and py_eq_items :: "(string \<times> json) list \<Rightarrow> (string, json) table \<Rightarrow> bool" where
  "py_eq (JList xs) w = (case w of JList ys \<Rightarrow> py_eq_list xs ys | _ \<Rightarrow> False)"
| "py_eq (JObj xs) w = (case w of JObj ys \<Rightarrow> length xs = length ys \<and> py_eq_items xs ys | _ \<Rightarrow> False)"
| "py_eq (JInt i) w = (case w of JInt j \<Rightarrow> i = j | JBool b \<Rightarrow> i = of_bool b | _ \<Rightarrow> False)"
| "py_eq (JBool b) w = (case w of JInt j \<Rightarrow> j = of_bool b | JBool c \<Rightarrow> b = c | _ \<Rightarrow> False)"
| "py_eq (JStr s) w = (w = JStr s)"
| "py_eq JNull w = (w = JNull)"
| "py_eq_list [] ws = (ws = [])"
| "py_eq_list (v # vs) ws = (case ws of [] \<Rightarrow> False | w # ws \<Rightarrow> py_eq v w \<and> py_eq_list vs ws)"
| "py_eq_items [] ws = True"
| "py_eq_items (x # vs) ws =
     ((case map_of ws (fst x) of None \<Rightarrow> False | Some w \<Rightarrow> py_eq (snd x) w) \<and> py_eq_items vs ws)"

definition verify_missing_citation :: "proof_evidence \<Rightarrow> verification_result" where
  "verify_missing_citation ev =
     (let missing = filter (\<lambda>c. \<not> list_ex (\<lambda>p. py_eq c p) (ev_provided_citations ev)) (ev_required_citations ev);
          gas_used = GAS_BASE + GAS_PER_CITATION * int (length (ev_required_citations ev));
          valid = length missing > 0
      in \<lparr>vr_is_valid = valid, vr_gas_used = gas_capped gas_used,
           vr_reason = (if valid then ''Found '' @ str_of_nat (length missing) @ '' missing citations'' else ''All citations present''),
           vr_evidence = [(''missing_citations'', JList missing)]\<rparr>)"

text \<open>\<open>s.split()\<close>: the maximal runs of characters that are not white space.\<close>

fun split_words :: "string \<Rightarrow> string \<Rightarrow> string list" where
  "split_words [] cur = (if cur = [] then [] else [cur])"
| "split_words (c # cs) cur =
     (if py_space c then (if cur = [] then split_words cs [] else cur # split_words cs [])
      else split_words cs (cur @ [c]))"

definition opposing_pairs :: "(string \<times> string) list" where
  "opposing_pairs =
     [('' is '', '' is not ''), ('' true'', '' false''), ('' yes'', '' no''), ('' correct'', '' incorrect''), ('' valid'', '' invalid'')]"

definition detect_simple_contradiction :: "string \<Rightarrow> string \<Rightarrow> bool" where
  "detect_simple_contradiction stmt1 stmt2 =
     (let a = py_lower stmt1; b = py_lower stmt2 in
      list_ex (\<lambda>(pos, neg). (sublist pos a \<and> sublist neg b \<or> sublist neg a \<and> sublist pos b) \<and>
          card (set (split_words a []) \<inter> set (split_words b [])) \<ge> 3) opposing_pairs)"

fun contradictions :: "string \<Rightarrow> string list \<Rightarrow> json list" where
  "contradictions kind [] = []"
| "contradictions kind (s # ss) =
     map (\<lambda>t. JObj [(''statement1'', JStr s), (''statement2'', JStr t), (''type'', JStr kind)])
       (filter (detect_simple_contradiction s) ss) @ contradictions kind ss"

definition verify_semantic_contradiction :: "proof_evidence \<Rightarrow> verification_result" where
  "verify_semantic_contradiction ev =
     (let gas_used = GAS_BASE + GAS_CONTRADICTION_ANALYSIS in
      if length (ev_statements ev) < 2
      then \<lparr>vr_is_valid = False, vr_gas_used = gas_used, vr_reason = ''Need at least 2 statements to detect contradiction'', vr_evidence = []\<rparr>
      else
        let found = contradictions (ev_contradiction_type ev) (ev_statements ev); valid = length found > 0
        in \<lparr>vr_is_valid = valid, vr_gas_used = gas_capped gas_used,
             vr_reason = (if valid then ''Found '' @ str_of_nat (length found) @ '' contradictions'' else ''No contradictions found''),
             vr_evidence = [(''contradictions'', JList found)]\<rparr>)"

definition get_or_null :: "(string, json) table \<Rightarrow> string \<Rightarrow> json" where
  "get_or_null d k = (case map_of d k of None \<Rightarrow> JNull | Some v \<Rightarrow> v)"

definition verify_output_mismatch :: "proof_evidence \<Rightarrow> verification_result" where
  "verify_output_mismatch ev =
     (let found = map (\<lambda>f. JObj [(''field'', JStr f), (''specified'', get_or_null (ev_specified_output ev) f),
                 (''actual'', get_or_null (ev_actual_output ev) f)])
             (filter (\<lambda>f. \<not> py_eq (get_or_null (ev_specified_output ev) f) (get_or_null (ev_actual_output ev) f)) (ev_mismatch_fields ev));
          gas_used = GAS_BASE + GAS_PER_FIELD * int (length (ev_mismatch_fields ev));
          valid = length found > 0
      in \<lparr>vr_is_valid = valid, vr_gas_used = gas_capped gas_used,
           vr_reason = (if valid then ''Found '' @ str_of_nat (length found) @ '' output mismatches'' else ''Output matches specification''),
           vr_evidence = [(''mismatches'', JList found)]\<rparr>)"

definition verify_policy_breach :: "proof_evidence \<Rightarrow> verification_result" where
  "verify_policy_breach ev =
     (let gas_used = GAS_BASE + GAS_PER_FIELD * 3 in
      case ev_policy_rule ev of
        None \<Rightarrow> \<lparr>vr_is_valid = False, vr_gas_used = gas_used, vr_reason = ''No policy rule specified'', vr_evidence = []\<rparr>
      | Some rule \<Rightarrow>
          if rule = [] then \<lparr>vr_is_valid = False, vr_gas_used = gas_used, vr_reason = ''No policy rule specified'', vr_evidence = []\<rparr>
          else let valid = length (ev_violation_details ev) > 0 in
            \<lparr>vr_is_valid = valid, vr_gas_used = gas_capped gas_used,
             vr_reason = (if valid then ''Policy breach confirmed: '' @ rule else ''No policy breach detected''),
             vr_evidence = [(''policy_rule'', JStr rule), (''details'', JObj (ev_violation_details ev))]\<rparr>)"

text \<open>The commit that is challenged is an argument of the method and of no rule.\<close>

definition verify_challenge :: "proof_type \<Rightarrow> proof_evidence \<Rightarrow> (string, json) table option \<Rightarrow> verification_result" where
  "verify_challenge p ev commit_data = (case p of
     SCHEMA_VIOLATION \<Rightarrow> verify_schema_violation ev
   | MISSING_CITATION \<Rightarrow> verify_missing_citation ev
   | SEMANTIC_CONTRADICTION \<Rightarrow> verify_semantic_contradiction ev
   | OUTPUT_MISMATCH \<Rightarrow> verify_output_mismatch ev
   | POLICY_BREACH \<Rightarrow> verify_policy_breach ev)"

end
