(* ===== verification/ChallengeFlow.thy ===== *)
theory ChallengeFlow
  imports Ledger PyFloat PyString "HOL-Library.Product_Lexorder"
begin

text \<open>
  The life of a challenge: the verification queue (\<open>challenges/queue.py\<close>), the windows in which
  challenges are accepted (\<open>challenges/window.py\<close>), escalation (\<open>challenges/escalation.py\<close>)
  and the limits on challengers (\<open>challenges/abuse_detection.py\<close>).  Clock readings are arguments,
  one per call of \<open>time.time_ns\<close>.  Rows are kept in insertion order, which is the order SQLite
  gives to rows that compare equal.
\<close>

section \<open>Verification queue\<close>

record challenge_row =
  cq_task_id :: string
  cq_commit_id :: string
  cq_challenger_id :: string
  cq_proof_data :: "(string, json) table"
  cq_bond_amount :: int
  cq_queued_at_ns :: int
  cq_priority_score :: pyfloat
  cq_status :: string
  cq_verified_at_ns :: "int option"
  cq_result :: "(string, json) table option"

type_synonym challenge_queue = "(string, challenge_row) table"

definition NS_PER_HOUR :: pyfloat where "NS_PER_HOUR = fmul 3600 1000000000"

definition calculate_priority :: "int \<Rightarrow> int \<Rightarrow> int \<Rightarrow> pyfloat" where
  "calculate_priority bond_amount queued_at_ns current_time_ns =
     (let age_hours = fdiv (to_float (current_time_ns - queued_at_ns)) NS_PER_HOUR
      in fadd (to_float bond_amount) (fmul age_hours 10))"

text \<open>The clock is read once for the row and once more for its priority.\<close>

definition add_challenge ::
  "string \<Rightarrow> string \<Rightarrow> string \<Rightarrow> string \<Rightarrow> (string, json) table \<Rightarrow> int \<Rightarrow> int \<Rightarrow> int \<Rightarrow> challenge_queue
     \<Rightarrow> error + challenge_row \<times> challenge_queue" where
  "add_challenge challenge_id task_id commit_id challenger_id proof_data bond_amount queued_at_ns current_time_ns q =
     (let row = \<lparr>cq_task_id = task_id, cq_commit_id = commit_id, cq_challenger_id = challenger_id,
          cq_proof_data = proof_data, cq_bond_amount = bond_amount, cq_queued_at_ns = queued_at_ns,
          cq_priority_score = calculate_priority bond_amount queued_at_ns current_time_ns,
          cq_status = ''queued'', cq_verified_at_ns = None, cq_result = None\<rparr>
      in if has_key challenge_id q then Inl IntegrityError else Inr (row, add_row challenge_id row q))"

definition queued :: "challenge_queue \<Rightarrow> challenge_queue" where
  "queued q = filter (\<lambda>(k, r). cq_status r = ''queued'') q"

definition get_next_challenge :: "challenge_queue \<Rightarrow> (string \<times> challenge_row) option" where
  "get_next_challenge q =
     (case sort_key (\<lambda>(k, r). (- cq_priority_score r, cq_queued_at_ns r)) (queued q) of
        [] \<Rightarrow> None | row # rows \<Rightarrow> Some row)"

definition mark_verifying :: "string \<Rightarrow> challenge_queue \<Rightarrow> bool \<times> challenge_queue" where
  "mark_verifying challenge_id q =
     (case map_of q challenge_id of
        None \<Rightarrow> (False, q)
      | Some r \<Rightarrow>
          if cq_status r = ''queued'' then (True, update_row challenge_id (\<lambda>r. r\<lparr>cq_status := ''verifying''\<rparr>) q)
          else (False, q))"

definition mark_verified :: "string \<Rightarrow> (string, json) table \<Rightarrow> int \<Rightarrow> challenge_queue \<Rightarrow> bool \<times> challenge_queue" where
  "mark_verified challenge_id result verified_at_ns q =
     (has_key challenge_id q,
      update_row challenge_id
        (\<lambda>r. r\<lparr>cq_status := ''verified'', cq_verified_at_ns := Some verified_at_ns, cq_result := Some result\<rparr>) q)"

definition mark_failed :: "string \<Rightarrow> string \<Rightarrow> int \<Rightarrow> challenge_queue \<Rightarrow> bool \<times> challenge_queue" where
  "mark_failed challenge_id err verified_at_ns q =
     (has_key challenge_id q,
      update_row challenge_id
        (\<lambda>r. r\<lparr>cq_status := ''failed'', cq_verified_at_ns := Some verified_at_ns,
              cq_result := Some [(''error'', JStr err)]\<rparr>) q)"

definition prioritize_by_bond :: "challenge_queue \<Rightarrow> challenge_queue" where
  "prioritize_by_bond q = sort_key (\<lambda>(k, r). (- cq_bond_amount r, cq_queued_at_ns r)) (queued q)"

definition get_queue_size :: "string option \<Rightarrow> challenge_queue \<Rightarrow> nat" where
  "get_queue_size status q = (case status of
     None \<Rightarrow> length q
   | Some s \<Rightarrow> if s = [] then length q else length (filter (\<lambda>(k, r). cq_status r = s) q))"

section \<open>Challenge windows\<close>

definition DEFAULT_WINDOW_DURATION :: int where "DEFAULT_WINDOW_DURATION = 24 * 60 * 60"

record window_info =
  win_opened_at_ns :: int
  win_duration_seconds :: int
  win_extended_count :: int

definition remaining_time :: "int \<Rightarrow> window_info \<Rightarrow> pyfloat" where
  "remaining_time now w =
     (let elapsed_ns = now - win_opened_at_ns w;
          elapsed_seconds = fdiv (to_float elapsed_ns) 1000000000;
          remaining = fsub (to_float (win_duration_seconds w)) elapsed_seconds
      in max 0 remaining)"

definition is_open :: "int \<Rightarrow> window_info \<Rightarrow> bool" where
  "is_open now w \<longleftrightarrow> remaining_time now w > 0"

text \<open>The table and the lock of the connection, which is not re-entrant.\<close>

record challenge_window =
  windows :: "(string, window_info) table"
  window_lock :: bool

definition holding :: "(challenge_window \<Rightarrow> error + 'r \<times> challenge_window) \<Rightarrow> challenge_window \<Rightarrow> error + 'r \<times> challenge_window" where
  "holding body cw =
     (if window_lock cw then Inl Deadlock
      else case body (cw\<lparr>window_lock := True\<rparr>) of
             Inl e \<Rightarrow> Inl e | Inr (x, cw) \<Rightarrow> Inr (x, cw\<lparr>window_lock := False\<rparr>))"

text \<open>\<open>INSERT OR REPLACE\<close> deletes the row of the key and appends the new one.\<close>

definition create_window :: "string \<Rightarrow> int option \<Rightarrow> int \<Rightarrow> challenge_window \<Rightarrow> error + window_info \<times> challenge_window" where
  "create_window task_id duration opened_at_ns cw =
     (let duration = (case duration of None \<Rightarrow> DEFAULT_WINDOW_DURATION | Some d \<Rightarrow> d) in
      if duration \<le> 0 then Inl (ValueError ''Duration must be positive'')
      else
        let w = \<lparr>win_opened_at_ns = opened_at_ns, win_duration_seconds = duration, win_extended_count = 0\<rparr>
        in holding (\<lambda>cw. Inr (w, cw\<lparr>windows := add_row task_id w (AList.delete task_id (windows cw))\<rparr>)) cw)"

definition get_window :: "string \<Rightarrow> challenge_window \<Rightarrow> error + window_info option \<times> challenge_window" where
  "get_window task_id = holding (\<lambda>cw. Inr (map_of (windows cw) task_id, cw))"

definition get_remaining_time :: "string \<Rightarrow> int \<Rightarrow> challenge_window \<Rightarrow> error + pyfloat option \<times> challenge_window" where
  "get_remaining_time task_id now cw =
     res_bind (get_window task_id cw) (\<lambda>(window, cw). Inr (map_option (remaining_time now) window, cw))"

definition is_window_open :: "string \<Rightarrow> int \<Rightarrow> challenge_window \<Rightarrow> error + bool \<times> challenge_window" where
  "is_window_open task_id now cw =
     res_bind (get_window task_id cw) (\<lambda>(window, cw).
       Inr (case window of None \<Rightarrow> False | Some w \<Rightarrow> is_open now w, cw))"

definition extend_window ::
  "string \<Rightarrow> int \<Rightarrow> challenge_window \<Rightarrow> error + window_info option \<times> challenge_window" where
  "extend_window task_id extension_seconds cw =
     (if extension_seconds \<le> 0 then Inl (ValueError ''Extension must be positive'')
      else holding (\<lambda>cw.
        res_bind (get_window task_id cw) (\<lambda>(window, cw).
        case window of
          None \<Rightarrow> Inr (None, cw)
        | Some w \<Rightarrow>
            let w' = w\<lparr>win_duration_seconds := win_duration_seconds w + extension_seconds,
                       win_extended_count := win_extended_count w + 1\<rparr>
            in Inr (Some w', cw\<lparr>windows := update_row task_id (\<lambda>_. w') (windows cw)\<rparr>))) cw)"

definition close_window :: "string \<Rightarrow> challenge_window \<Rightarrow> error + bool \<times> challenge_window" where
  "close_window task_id = holding (\<lambda>cw.
     Inr (has_key task_id (windows cw), cw\<lparr>windows := AList.delete task_id (windows cw)\<rparr>))"

text \<open>The clock is read for every row.\<close>

definition get_all_open_windows :: "int list \<Rightarrow> challenge_window \<Rightarrow> error + (string, window_info) table \<times> challenge_window" where
  "get_all_open_windows clock = holding (\<lambda>cw.
     Inr (map snd (filter (\<lambda>(now, k, w). is_open now w) (zip clock (windows cw))), cw))"

section \<open>Escalation\<close>

datatype escalation_level = NO_ESCALATION | VERIFIER_CONSENSUS | HUMAN_REVIEW | GOVERNANCE_VOTE

record verifier_verdict =
  vv_verifier_id :: string
  vv_is_valid :: bool
  vv_confidence :: pyfloat

record escalation_case =
  ec_challenge_id :: string
  ec_level :: escalation_level
  ec_verdicts :: "verifier_verdict list"
  ec_reasoning :: string
  ec_created_at_ns :: int
  ec_resolved :: bool
  ec_resolution :: "(string, json) table option"

definition DISAGREEMENT_THRESHOLD :: pyfloat where "DISAGREEMENT_THRESHOLD = rnd (3 / 10)"
definition CONFIDENCE_THRESHOLD :: pyfloat where "CONFIDENCE_THRESHOLD = rnd (7 / 10)"
definition HIGH_VALUE_BOND_THRESHOLD :: int where "HIGH_VALUE_BOND_THRESHOLD = 500"

text \<open>\<open>f"{x:.1%}"\<close>: a hundred times the float, with one decimal, ties to even.\<close>

definition percent1 :: "pyfloat \<Rightarrow> string" where
  "percent1 x =
     (let k = half_even (\<bar>fmul x 100\<bar> * 10)
      in (if x < 0 then ''-'' else []) @ str_of_int (k div 10) @ ''.'' @ str_of_int (k mod 10) @ ''%'')"

definition disagreement_rate :: "verifier_verdict list \<Rightarrow> pyfloat" where
  "disagreement_rate verdicts =
     (let upheld_count = length (filter vv_is_valid verdicts); total_count = length verdicts
      in rnd (of_nat (min upheld_count (total_count - upheld_count)) / of_nat total_count))"

definition avg_confidence :: "verifier_verdict list \<Rightarrow> pyfloat" where
  "avg_confidence verdicts = fdiv (foldl (\<lambda>s v. fadd s (vv_confidence v)) 0 verdicts) (to_float (int (length verdicts)))"

definition check_escalation_needed ::
  "verifier_verdict list \<Rightarrow> int \<Rightarrow> bool \<times> escalation_level option \<times> string option" where
  "check_escalation_needed verdicts bond_amount =
     (if verdicts = [] then (False, None, None)
      else if disagreement_rate verdicts \<ge> DISAGREEMENT_THRESHOLD
      then (True, Some VERIFIER_CONSENSUS, Some (''Verifier disagreement: '' @ percent1 (disagreement_rate verdicts)))
      else if avg_confidence verdicts < CONFIDENCE_THRESHOLD
      then (True, Some HUMAN_REVIEW, Some (''Low confidence: '' @ percent1 (avg_confidence verdicts)))
      else if bond_amount \<ge> HIGH_VALUE_BOND_THRESHOLD
      then (True, Some GOVERNANCE_VOTE, Some (''High-value bond: '' @ str_of_int bond_amount @ '' credits''))
      else (False, None, None))"

type_synonym escalation_handler = "(string, escalation_case) table"

definition escalate_if_disagree ::
  "string \<Rightarrow> verifier_verdict list \<Rightarrow> int \<Rightarrow> string \<Rightarrow> int \<Rightarrow> escalation_handler
     \<Rightarrow> escalation_case option \<times> escalation_handler" where
  "escalate_if_disagree challenge_id verdicts bond_amount uuid now es =
     (case check_escalation_needed verdicts bond_amount of
        (True, Some level, Some reason) \<Rightarrow>
          let escalation = \<lparr>ec_challenge_id = challenge_id, ec_level = level, ec_verdicts = verdicts,
                ec_reasoning = reason, ec_created_at_ns = now, ec_resolved = False, ec_resolution = None\<rparr>
          in (Some escalation, AList.update uuid escalation es)
      | _ \<Rightarrow> (None, es))"

definition create_human_review_task :: "string \<Rightarrow> string" where
  "create_human_review_task challenge_id = ''human_review_'' @ challenge_id"

definition governance_vote :: "string \<Rightarrow> string" where
  "governance_vote challenge_id = ''gov_vote_'' @ challenge_id"

definition resolve_escalation :: "string \<Rightarrow> (string, json) table \<Rightarrow> escalation_handler \<Rightarrow> bool \<times> escalation_handler" where
  "resolve_escalation escalation_id resolution es =
     (if has_key escalation_id es
      then (True, update_row escalation_id (\<lambda>c. c\<lparr>ec_resolved := True, ec_resolution := Some resolution\<rparr>) es)
      else (False, es))"

definition get_pending_escalations :: "escalation_level option \<Rightarrow> escalation_handler \<Rightarrow> escalation_case list" where
  "get_pending_escalations level es =
     filter (\<lambda>c. \<not> ec_resolved c \<and> (case level of None \<Rightarrow> True | Some l \<Rightarrow> ec_level c = l)) (map snd es)"

section \<open>Limits on challengers\<close>

record challenger_stats =
  cs_total :: int
  cs_upheld :: int
  cs_rejected :: int
  cs_withdrawn :: int
  cs_last_challenge_ns :: int
  cs_in_window :: "int list"

type_synonym abuse_detector = "(string, challenger_stats) table"

definition no_challenges :: challenger_stats where
  "no_challenges = \<lparr>cs_total = 0, cs_upheld = 0, cs_rejected = 0, cs_withdrawn = 0, cs_last_challenge_ns = 0, cs_in_window = []\<rparr>"

definition MAX_CHALLENGES_PER_HOUR :: nat where "MAX_CHALLENGES_PER_HOUR = 10"
definition MAX_CHALLENGES_PER_DAY :: nat where "MAX_CHALLENGES_PER_DAY = 50"
definition MIN_SUCCESS_RATE_THRESHOLD :: pyfloat where "MIN_SUCCESS_RATE_THRESHOLD = 20"
definition SPAM_DETECTION_WINDOW_SECONDS :: int where "SPAM_DETECTION_WINDOW_SECONDS = 60"
definition SPAM_THRESHOLD_COUNT :: nat where "SPAM_THRESHOLD_COUNT = 5"

text \<open>\<open>current_time_ns - (seconds * 1e9)\<close>, a float, and the time stamps after it.\<close>

definition time_before :: "int \<Rightarrow> int \<Rightarrow> pyfloat" where
  "time_before seconds now = fsub (to_float now) (fmul (to_float seconds) 1000000000)"

definition since :: "pyfloat \<Rightarrow> int list \<Rightarrow> int list" where
  "since t tss = filter (\<lambda>ts. of_int ts > t) tss"

definition success_rate :: "challenger_stats \<Rightarrow> pyfloat" where
  "success_rate s = (let total = cs_upheld s + cs_rejected s in
     if total = 0 then 0 else fmul (rnd (of_int (cs_upheld s) / of_int total)) 100)"

definition rejection_rate :: "challenger_stats \<Rightarrow> pyfloat" where
  "rejection_rate s = (let total = cs_upheld s + cs_rejected s in
     if total = 0 then 0 else fmul (rnd (of_int (cs_rejected s) / of_int total)) 100)"

definition record_challenge :: "string \<Rightarrow> int \<Rightarrow> abuse_detector \<Rightarrow> abuse_detector" where
  "record_challenge challenger_id current_time_ns d =
     (let s = (case map_of d challenger_id of None \<Rightarrow> no_challenges | Some s \<Rightarrow> s) in
      AList.update challenger_id
        (s\<lparr>cs_total := cs_total s + 1, cs_last_challenge_ns := current_time_ns,
           cs_in_window := since (time_before 3600 current_time_ns) (cs_in_window s @ [current_time_ns])\<rparr>) d)"

definition record_outcome :: "string \<Rightarrow> string \<Rightarrow> abuse_detector \<Rightarrow> abuse_detector" where
  "record_outcome challenger_id outcome d =
     update_row challenger_id
       (\<lambda>s. if outcome = ''UPHELD'' then s\<lparr>cs_upheld := cs_upheld s + 1\<rparr>
            else if outcome = ''REJECTED'' then s\<lparr>cs_rejected := cs_rejected s + 1\<rparr>
            else if outcome = ''WITHDRAWN'' then s\<lparr>cs_withdrawn := cs_withdrawn s + 1\<rparr>
            else s) d"

definition check_rate_limit :: "string \<Rightarrow> int \<Rightarrow> abuse_detector \<Rightarrow> bool \<times> string option" where
  "check_rate_limit challenger_id now d =
     (case map_of d challenger_id of
        None \<Rightarrow> (True, None)
      | Some s \<Rightarrow>
          let challenges_last_hour = length (since (time_before 3600 now) (cs_in_window s));
              challenges_last_day = length (since (time_before (24 * 3600) now) (cs_in_window s)) in
          if challenges_last_hour \<ge> MAX_CHALLENGES_PER_HOUR
          then (False, Some (''Rate limit exceeded: '' @ str_of_nat challenges_last_hour @
                 '' challenges in last hour (max: '' @ str_of_nat MAX_CHALLENGES_PER_HOUR @ '')''))
          else if challenges_last_day \<ge> MAX_CHALLENGES_PER_DAY
          then (False, Some (''Rate limit exceeded: '' @ str_of_nat challenges_last_day @
                 '' challenges in last 24h (max: '' @ str_of_nat MAX_CHALLENGES_PER_DAY @ '')''))
          else (True, None))"

definition check_spam_pattern :: "string \<Rightarrow> int \<Rightarrow> abuse_detector \<Rightarrow> bool \<times> string option" where
  "check_spam_pattern challenger_id now d =
     (case map_of d challenger_id of
        None \<Rightarrow> (False, None)
      | Some s \<Rightarrow>
          let recent = length (since (time_before SPAM_DETECTION_WINDOW_SECONDS now) (cs_in_window s)) in
          if recent \<ge> SPAM_THRESHOLD_COUNT
          then (True, Some (''Spam detected: '' @ str_of_nat recent @ '' challenges in '' @
                 str_of_int SPAM_DETECTION_WINDOW_SECONDS @ ''s''))
          else (False, None))"

definition calculate_reputation_impact :: "string \<Rightarrow> abuse_detector \<Rightarrow> pyfloat" where
  "calculate_reputation_impact challenger_id d =
     (case map_of d challenger_id of
        None \<Rightarrow> 1 / 2
      | Some s \<Rightarrow>
          if cs_upheld s + cs_rejected s = 0 then 1 / 2
          else
            let base_score = fdiv (success_rate s) 100;
                withdrawal_rate = (if cs_total s > 0 then rnd (of_int (cs_withdrawn s) / of_int (cs_total s)) else 0);
                base_score = (if withdrawal_rate > rnd (1 / 5)
                              then fmul base_score (fsub 1 (fsub withdrawal_rate (rnd (1 / 5)))) else base_score)
            in max 0 (min 1 base_score))"

definition is_low_quality_challenger :: "string \<Rightarrow> int \<Rightarrow> abuse_detector \<Rightarrow> bool" where
  "is_low_quality_challenger challenger_id min_challenges d =
     (case map_of d challenger_id of
        None \<Rightarrow> False
      | Some s \<Rightarrow>
          if cs_upheld s + cs_rejected s < min_challenges then False
          else success_rate s < MIN_SUCCESS_RATE_THRESHOLD)"

end
