(* ===== verification/ChallengeHandler.thy ===== *)
theory ChallengeHandler
  imports Challenges ChallengeFlow Slashing
begin

text \<open>
  The submission of a challenge (\<open>handlers/challenge.py\<close>), which composes the limits on challengers, the
  windows, the bonds, the proof metadata and the ledger, and the settlement of its outcome
  (\<open>challenges/outcomes.py\<close>), which composes slashing and the ledger.  The payload is a record of the
  entries the handler reads, \<open>None\<close> for an absent one; \<open>clock\<close> gives the successive readings of
  the clock, \<open>uuid\<close> the successive fresh identifiers.  A call that blocks on a lock is \<open>Inl Deadlock\<close>.
\<close>

section \<open>Submission\<close>

record challenge_payload =
  cp_task_id :: "string option"
  cp_commit_id :: "string option"
  cp_proof_type :: "string option"
  cp_evidence_hash :: "string option"
  cp_complexity :: string
  cp_size_bytes :: int
  cp_gas_estimate :: int

record challenge_envelope =
  ce_thread_id :: string
  ce_payload :: challenge_payload
  ce_sender_pk_b64 :: string
  ce_lamport :: int

record challenge_record =
  cr_challenge_id :: string
  cr_task_id :: string
  cr_commit_id :: string
  cr_challenger_id :: string
  cr_proof :: "(string, json) table"
  cr_bond_amount :: int
  cr_escrow_id :: string
  cr_complexity :: string
  cr_lamport :: int
  cr_thread_id :: string
  cr_status :: string
  cr_submitted_at_ns :: int

record challenge_state =
  st_abuse_detector :: abuse_detector
  st_challenge_window :: challenge_window
  st_ledger :: "slash_ledger option"
  st_challenge_queue :: "challenge_record list"

definition complexity_name :: "complexity \<Rightarrow> string" where
  "complexity_name c = (case c of SIMPLE_PROOF \<Rightarrow> ''SIMPLE'' | MODERATE_PROOF \<Rightarrow> ''MODERATE'' | COMPLEX_PROOF \<Rightarrow> ''COMPLEX'')"

definition parse_complexity :: "string \<Rightarrow> complexity option" where
  "parse_complexity s = List.find (\<lambda>c. complexity_name c = s) [SIMPLE_PROOF, MODERATE_PROOF, COMPLEX_PROOF]"

text \<open>A required entry that is absent or empty ends the handler.\<close>

definition given :: "string option \<Rightarrow> string option" where
  "given v = (case v of None \<Rightarrow> None | Some s \<Rightarrow> if s = [] then None else Some s)"

definition validated_payload :: "challenge_payload \<Rightarrow> (string \<times> string \<times> proof_type \<times> string \<times> complexity) option" where
  "validated_payload p =
     (case given (cp_task_id p) of None \<Rightarrow> None | Some task_id \<Rightarrow>
      case given (cp_commit_id p) of None \<Rightarrow> None | Some commit_id \<Rightarrow>
      case given (cp_proof_type p) of None \<Rightarrow> None | Some proof_type_str \<Rightarrow>
      case given (cp_evidence_hash p) of None \<Rightarrow> None | Some evidence_hash \<Rightarrow>
      case parse_proof_type proof_type_str of None \<Rightarrow> None | Some ptype \<Rightarrow>
      case parse_complexity (cp_complexity p) of None \<Rightarrow> None | Some cpx \<Rightarrow>
        Some (task_id, commit_id, ptype, evidence_hash, cpx))"

definition challenge_proof :: "challenge_envelope \<Rightarrow> string \<Rightarrow> string \<Rightarrow> proof_type \<Rightarrow> string \<Rightarrow> complexity \<Rightarrow> proof_schema" where
  "challenge_proof env task_id commit_id ptype evidence_hash cpx =
     \<lparr>pf_proof_type = ptype, pf_evidence_hash = evidence_hash, pf_size_bytes = cp_size_bytes (ce_payload env),
      pf_gas_estimate = cp_gas_estimate (ce_payload env),
      pf_metadata = Some [(''task_id'', JStr task_id), (''commit_id'', JStr commit_id),
        (''challenger_id'', JStr (ce_sender_pk_b64 env)), (''complexity'', JStr (complexity_name cpx))]\<rparr>"

text \<open>\<open>ledger.escrow\<close> inside \<open>try\<close>: an exception ends the handler, a lock that is taken blocks it.\<close>

definition escrow_bond :: "string \<Rightarrow> int \<Rightarrow> string \<Rightarrow> string \<Rightarrow> int \<Rightarrow> slash_ledger option \<Rightarrow> error + slash_ledger option option" where
  "escrow_bond challenger_id amount escrow_id op_uuid now l =
     (case l of
        None \<Rightarrow> Inr (Some None)
      | Some db \<Rightarrow>
          (case escrow challenger_id amount escrow_id op_uuid now db of
             Inl e \<Rightarrow> if e = Deadlock then Inl Deadlock else Inr None
           | Inr (u, db) \<Rightarrow> Inr (Some (Some db))))"

definition handle_challenge :: "(nat \<Rightarrow> int) \<Rightarrow> (nat \<Rightarrow> string) \<Rightarrow> challenge_envelope \<Rightarrow> challenge_state \<Rightarrow> error + challenge_state" where
  "handle_challenge clock uuid env st =
     (let challenger_id = ce_sender_pk_b64 env in
      case validated_payload (ce_payload env) of
        None \<Rightarrow> Inr st
      | Some (task_id, commit_id, ptype, evidence_hash, cpx) \<Rightarrow>
          if \<not> fst (check_rate_limit challenger_id (clock 0) (st_abuse_detector st)) then Inr st
          else
            let st = st\<lparr>st_abuse_detector := record_challenge challenger_id (clock 2) (st_abuse_detector st)\<rparr> in
            res_bind (is_window_open task_id (clock 3) (st_challenge_window st)) (\<lambda>(opened, cw).
            if \<not> opened then Inr (st\<lparr>st_challenge_window := cw\<rparr>)
            else
              res_bind (get_remaining_time task_id (clock 4) cw) (\<lambda>(remaining, cw).
              let st = st\<lparr>st_challenge_window := cw\<rparr> in
              case calculate_bond ptype cpx of
                None \<Rightarrow> Inl (ValueError ''Unknown proof type'')
              | Some required_bond \<Rightarrow>
                  if (case st_ledger st of None \<Rightarrow> False | Some db \<Rightarrow> get_balance challenger_id db < required_bond)
                  then Inr st
                  else
                    let pf = challenge_proof env task_id commit_id ptype evidence_hash cpx in
                    if \<not> fst (validate_schema pf) then Inr st
                    else
                      let escrow_id = ''challenge_bond_'' @ uuid 0 in
                      res_bind (escrow_bond challenger_id required_bond escrow_id (uuid 1) (clock 5) (st_ledger st)) (\<lambda>escrowed.
                      case escrowed of
                        None \<Rightarrow> Inr st
                      | Some l \<Rightarrow>
                          Inr (st\<lparr>st_ledger := l, st_challenge_queue := st_challenge_queue st @
                            [\<lparr>cr_challenge_id = uuid 2, cr_task_id = task_id, cr_commit_id = commit_id,
                              cr_challenger_id = challenger_id, cr_proof = schema_to_dict pf,
                              cr_bond_amount = required_bond, cr_escrow_id = escrow_id,
                              cr_complexity = complexity_name cpx, cr_lamport = ce_lamport env,
                              cr_thread_id = ce_thread_id env, cr_status = ''queued'',
                              cr_submitted_at_ns = clock 6\<rparr>]\<rparr>)))))"

definition get_queued_challenges :: "challenge_state \<Rightarrow> challenge_record list" where
  "get_queued_challenges st = st_challenge_queue st"

definition clear_challenge_queue :: "challenge_state \<Rightarrow> challenge_state" where
  "clear_challenge_queue st = st\<lparr>st_challenge_queue := []\<rparr>"

section \<open>Outcomes\<close>

datatype challenge_outcome = UPHELD | REJECTED | WITHDRAWN

record outcome_result =
  or_outcome :: challenge_outcome
  or_bond_returned :: int
  or_bond_slashed :: int
  or_reward_amount :: int
  or_verifiers_slashed :: "string list"
  or_slash_amount_per_verifier :: int

definition VERIFIER_SLASH_PERCENT :: int where "VERIFIER_SLASH_PERCENT = 50"
definition REWARD_PERCENT :: int where "REWARD_PERCENT = 20"
definition WITHDRAWAL_FEE_PERCENT :: int where "WITHDRAWAL_FEE_PERCENT = 10"

definition stake_of :: "(string, int) table \<Rightarrow> string \<Rightarrow> int" where
  "stake_of verifier_stakes v = (case map_of verifier_stakes v of None \<Rightarrow> 0 | Some n \<Rightarrow> n)"

definition slash_of_stake :: "int \<Rightarrow> int" where
  "slash_of_stake n = py_int (fmul (to_float n) (fdiv (to_float VERIFIER_SLASH_PERCENT) 100))"

text \<open>The loop that slashes; an exception of \<open>execute_slash\<close> ends it and keeps the slashes before it.\<close>

fun slash_wrong_verifiers ::
  "(nat \<Rightarrow> string) \<Rightarrow> bool \<Rightarrow> string \<Rightarrow> int \<Rightarrow> nat \<Rightarrow> (string, int) table \<Rightarrow> string list \<Rightarrow> string list \<Rightarrow> int \<Rightarrow> slash_ledger
     \<Rightarrow> (error + string list \<times> int) \<times> slash_ledger" where
  "slash_wrong_verifiers uuid rules cid ts k stakes [] slashed per db = (Inr (slashed, per), db)"
| "slash_wrong_verifiers uuid rules cid ts k stakes (v # vs) slashed per db =
     (let n = stake_of stakes v in
      if n > 0 then
        let slash_amount = slash_of_stake n in
        if rules then
          (case execute_slash \<lparr>sl_event_id = uuid (2 * k), sl_account = v, sl_reason = FAILED_CHALLENGE, sl_amount = slash_amount,
                  sl_evidence = cid, sl_severity = 10, sl_timestamp = ts\<rparr> (uuid (2 * k + 1)) db of
             Inl e \<Rightarrow> (Inl e, db)
           | Inr (u, db) \<Rightarrow> slash_wrong_verifiers uuid rules cid ts (Suc k) stakes vs (slashed @ [v]) slash_amount db)
        else slash_wrong_verifiers uuid rules cid ts (Suc k) stakes vs (slashed @ [v]) slash_amount db
      else slash_wrong_verifiers uuid rules cid ts k stakes vs slashed per db)"

text \<open>\<open>try: ... except Exception\<close> around a ledger call: the exception is printed; a taken lock blocks.\<close>

definition swallow :: "(slash_ledger \<Rightarrow> error + 'r \<times> slash_ledger) \<Rightarrow> slash_ledger \<Rightarrow> error + slash_ledger" where
  "swallow call db =
     (case call db of
        Inl e \<Rightarrow> if e = Deadlock then Inl Deadlock else Inr db
      | Inr (r, db) \<Rightarrow> Inr db)"

definition total_to_slash :: "string list \<Rightarrow> (string, int) table \<Rightarrow> int" where
  "total_to_slash verifiers verifier_stakes =
     (if verifiers \<noteq> [] \<and> verifier_stakes \<noteq> []
      then (\<Sum>v\<leftarrow>verifiers. (stake_of verifier_stakes v * VERIFIER_SLASH_PERCENT) div 100) else 0)"

definition process_upheld ::
  "bool \<Rightarrow> bool \<Rightarrow> (nat \<Rightarrow> string) \<Rightarrow> int \<Rightarrow> string \<Rightarrow> int \<Rightarrow> string \<Rightarrow> string list \<Rightarrow> (string, int) table \<Rightarrow> int option \<Rightarrow> slash_ledger
     \<Rightarrow> (error + outcome_result) \<times> slash_ledger" where
  "process_upheld has_ledger rules uuid now challenge_id bond_amount challenger_id verifiers verifier_stakes given_total db =
     (let total = (case given_total of None \<Rightarrow> total_to_slash verifiers verifier_stakes | Some n \<Rightarrow> n);
          reward_amount = py_int (rnd (of_int (total * REWARD_PERCENT) / 100));
          (slashing, db) = (if verifiers \<noteq> [] \<and> verifier_stakes \<noteq> []
             then slash_wrong_verifiers (\<lambda>k. uuid (k + 5)) rules challenge_id now 0 verifier_stakes verifiers [] 0 db
             else (Inr ([], 0), db))
      in case slashing of
           Inl e \<Rightarrow> (Inl e, db)
         | Inr (slashed, per) \<Rightarrow>
             let result = \<lparr>or_outcome = UPHELD, or_bond_returned = bond_amount, or_bond_slashed = 0,
                   or_reward_amount = reward_amount, or_verifiers_slashed = slashed, or_slash_amount_per_verifier = per\<rparr> in
             if \<not> has_ledger then (Inr result, db)
             else
               case swallow (release_escrow (''challenge_bond_'' @ challenge_id) challenger_id (uuid 0) now) db of
                 Inl e \<Rightarrow> (Inl e, db)
               | Inr db \<Rightarrow>
                   (case swallow (transfer ''system'' challenger_id reward_amount False (uuid 1, uuid 2, uuid 3) now) db of
                      Inl e \<Rightarrow> (Inl e, db)
                    | Inr db \<Rightarrow> (Inr result, db)))"

definition process_rejected :: "int \<Rightarrow> slash_ledger \<Rightarrow> (error + outcome_result) \<times> slash_ledger" where
  "process_rejected bond_amount db =
     (Inr \<lparr>or_outcome = REJECTED, or_bond_returned = 0, or_bond_slashed = bond_amount, or_reward_amount = 0,
        or_verifiers_slashed = [], or_slash_amount_per_verifier = 0\<rparr>, db)"

definition process_withdrawn :: "int \<Rightarrow> slash_ledger \<Rightarrow> (error + outcome_result) \<times> slash_ledger" where
  "process_withdrawn bond_amount db =
     (let fee_amount = py_int (fmul (to_float bond_amount) (fdiv (to_float WITHDRAWAL_FEE_PERCENT) 100))
      in (Inr \<lparr>or_outcome = WITHDRAWN, or_bond_returned = bond_amount - fee_amount, or_bond_slashed = fee_amount,
        or_reward_amount = 0, or_verifiers_slashed = [], or_slash_amount_per_verifier = 0\<rparr>, db))"

definition process_outcome ::
  "bool \<Rightarrow> bool \<Rightarrow> (nat \<Rightarrow> string) \<Rightarrow> int \<Rightarrow> string \<Rightarrow> challenge_outcome \<Rightarrow> int \<Rightarrow> string \<Rightarrow> string list \<Rightarrow> (string, int) table
     \<Rightarrow> int option \<Rightarrow> slash_ledger \<Rightarrow> (error + outcome_result) \<times> slash_ledger" where
  "process_outcome has_ledger rules uuid now challenge_id outcome bond_amount challenger_id verifiers verifier_stakes given_total db =
     (case outcome of
        UPHELD \<Rightarrow> process_upheld has_ledger rules uuid now challenge_id bond_amount challenger_id verifiers verifier_stakes given_total db
      | REJECTED \<Rightarrow> process_rejected bond_amount db
      | WITHDRAWN \<Rightarrow> process_withdrawn bond_amount db)"

end
