(* ===== verification/ChallengeProps.thy ===== *)
theory ChallengeProps
  imports Challenges
begin

text \<open>
  Correctness of the evidence side of challenges: metadata survives its dictionary form, the gas a
  verification reports is within the limit whatever the size of the evidence, and each rule upholds a
  challenge exactly when the evidence contains a defect of its kind.
\<close>

section \<open>Metadata\<close>

lemma parse_proof_type_value: "parse_proof_type (proof_type_value p) = Some p"
  by (cases p) (simp_all add: parse_proof_type_def proof_type_value_def)

lemma schema_dict_entries:
  "map_of (schema_to_dict p) ''proof_type'' = Some (JStr (proof_type_value (pf_proof_type p)))"
  "map_of (schema_to_dict p) ''evidence_hash'' = Some (JStr (pf_evidence_hash p))"
  "map_of (schema_to_dict p) ''size_bytes'' = Some (JInt (pf_size_bytes p))"
  "map_of (schema_to_dict p) ''gas_estimate'' = Some (JInt (pf_gas_estimate p))"
  "map_of (schema_to_dict p) ''metadata'' = Some (JObj (case pf_metadata p of None \<Rightarrow> [] | Some m \<Rightarrow> m))"
  by (simp_all add: schema_to_dict_def)

text \<open>
  Proof metadata written as a dictionary is read back unchanged, but for absent metadata, which
  becomes an empty dictionary; so it passes the size and gas limits after the round trip exactly when it did before.
\<close>

theorem proof_schema_roundtrip:
  "schema_from_dict (schema_to_dict p) =
     Some (p\<lparr>pf_metadata := Some (case pf_metadata p of None \<Rightarrow> [] | Some m \<Rightarrow> m)\<rparr>) \<and>
   map_option validate_schema (schema_from_dict (schema_to_dict p)) = Some (validate_schema p) \<and>
   (fst (validate_schema p) \<longleftrightarrow>
      0 < pf_size_bytes p \<and> pf_size_bytes p \<le> 10240 \<and> 0 \<le> pf_gas_estimate p \<and> pf_gas_estimate p \<le> 100000 \<and>
      length (pf_evidence_hash p) = 64)"
proof -
  have "schema_from_dict (schema_to_dict p) =
     Some (p\<lparr>pf_metadata := Some (case pf_metadata p of None \<Rightarrow> [] | Some m \<Rightarrow> m)\<rparr>)"
    by (simp add: schema_from_dict_def schema_dict_entries parse_proof_type_value)
  moreover have "validate_schema (p\<lparr>pf_metadata := m\<rparr>) = validate_schema p" for m
    by (simp add: validate_schema_def)
  ultimately show ?thesis
    by (simp add: validate_schema_def MAX_PROOF_SIZE_BYTES_def MAX_GAS_ESTIMATE_def not_less)
qed

section \<open>Verdicts\<close>

lemmas rule_defs = verify_schema_violation_def verify_missing_citation_def verify_semantic_contradiction_def
  verify_output_mismatch_def verify_policy_breach_def

lemmas gas_defs = GAS_BASE_def GAS_PER_FIELD_def GAS_PER_CITATION_def GAS_CONTRADICTION_ANALYSIS_def
  MAX_GAS_ESTIMATE_def gas_capped_def

text \<open>
  Whatever the evidence, the gas a verification reports is at least the base cost and at most the
  limit of 100,000; and analysing any number of statements for contradictions reports the same 6,000.
\<close>

theorem verification_gas_bounded:
  "1000 \<le> vr_gas_used (verify_challenge p ev d) \<and> vr_gas_used (verify_challenge p ev d) \<le> MAX_GAS_ESTIMATE \<and>
   vr_gas_used (verify_challenge SEMANTIC_CONTRADICTION ev d) = 6000"
  by (cases p)
     (simp_all add: verify_challenge_def rule_defs gas_defs Let_def split: option.split)

lemma contradictions_empty_iff:
  "contradictions k ss = [] \<longleftrightarrow>
     (\<forall>i j. i < j \<longrightarrow> j < length ss \<longrightarrow> \<not> detect_simple_contradiction (ss ! i) (ss ! j))"
proof (induction ss)
  case (Cons s ss)
  let ?P = "\<lambda>i j. i < j \<longrightarrow> j < length (s # ss) \<longrightarrow> \<not> detect_simple_contradiction ((s # ss) ! i) ((s # ss) ! j)"
  have split_index: "(\<forall>i j. ?P i j) \<longleftrightarrow> (\<forall>j. ?P 0 (Suc j)) \<and> (\<forall>i j. ?P (Suc i) (Suc j))"
  proof
    assume r: "(\<forall>j. ?P 0 (Suc j)) \<and> (\<forall>i j. ?P (Suc i) (Suc j))"
    have "?P i j" for i j
      using r by (cases i; cases j) auto
    then show "\<forall>i j. ?P i j" by blast
  qed blast
  have "filter (detect_simple_contradiction s) ss = [] \<longleftrightarrow> (\<forall>j. ?P 0 (Suc j))"
    by (simp add: filter_empty_conv all_set_conv_all_nth)
  with Cons.IH show ?case by (simp only: split_index contradictions.simps append_is_Nil_conv map_is_Nil_conv) simp
qed simp

definition type_matches :: "json \<Rightarrow> string \<Rightarrow> bool" where
  "type_matches v t = (case v of
     JStr _ \<Rightarrow> t \<notin> {''number'', ''integer'', ''boolean'', ''object'', ''array''}
   | JInt _ \<Rightarrow> t \<notin> {''string'', ''boolean'', ''object'', ''array''}
   | JBool _ \<Rightarrow> t \<notin> {''string'', ''object'', ''array''}
   | JList _ \<Rightarrow> t \<notin> {''string'', ''number'', ''integer'', ''boolean'', ''object''}
   | JObj _ \<Rightarrow> t \<notin> {''string'', ''number'', ''integer'', ''boolean'', ''array''}
   | JNull \<Rightarrow> t \<notin> {''string'', ''number'', ''integer'', ''boolean'', ''object'', ''array''})"

lemma check_type_matches: "check_type v t \<longleftrightarrow> type_matches v (py_lower t)"
  by (cases v) (auto simp: check_type_def type_matches_def type_name_def Let_def)

text \<open>A defect the evidence shows, one clause per kind of proof.\<close>

definition field_defect :: "proof_evidence \<Rightarrow> string \<Rightarrow> bool" where
  "field_defect ev f \<longleftrightarrow> (\<exists>sch. map_of (ev_expected_schema ev) f = Some sch \<and>
     (get_or_null (ev_actual_output ev) f = JNull \<or>
      (\<exists>t. map_of sch ''type'' = Some (JStr t) \<and> t \<noteq> [] \<and>
         \<not> type_matches (get_or_null (ev_actual_output ev) f) (py_lower t))))"

lemma field_violation_iff: "field_violation ev f \<noteq> None \<longleftrightarrow> field_defect ev f"
proof (cases "map_of (ev_expected_schema ev) f")
  case (Some sch)
  show ?thesis
  proof (cases "get_or_null (ev_actual_output ev) f = JNull")
    case True
    then show ?thesis
      using Some by (auto simp: field_violation_def field_defect_def get_or_null_def split: option.splits)
  next
    case False
    then obtain v where v: "map_of (ev_actual_output ev) f = Some v" "v \<noteq> JNull"
      by (auto simp: get_or_null_def split: option.splits)
    then show ?thesis
      using Some by (cases v; cases "map_of sch ''type''")
        (auto simp: field_violation_def field_defect_def get_or_null_def check_type_matches split: json.split)
  qed
qed (simp add: field_violation_def field_defect_def)

definition evidence_defect :: "proof_type \<Rightarrow> proof_evidence \<Rightarrow> bool" where
  "evidence_defect p ev = (case p of
     SCHEMA_VIOLATION \<Rightarrow> ev_actual_output ev \<noteq> [] \<and> (\<exists>f \<in> set (ev_violations ev). field_defect ev f)
   | MISSING_CITATION \<Rightarrow> (\<exists>c \<in> set (ev_required_citations ev). \<forall>p \<in> set (ev_provided_citations ev). \<not> py_eq c p)
   | SEMANTIC_CONTRADICTION \<Rightarrow> (\<exists>i j. i < j \<and> j < length (ev_statements ev) \<and>
       detect_simple_contradiction (ev_statements ev ! i) (ev_statements ev ! j))
   | OUTPUT_MISMATCH \<Rightarrow> (\<exists>f \<in> set (ev_mismatch_fields ev).
       \<not> py_eq (get_or_null (ev_specified_output ev) f) (get_or_null (ev_actual_output ev) f))
   | POLICY_BREACH \<Rightarrow> ev_policy_rule ev \<noteq> None \<and> ev_policy_rule ev \<noteq> Some [] \<and> ev_violation_details ev \<noteq> [])"

lemma map_filter_Nil_iff: "List.map_filter f xs = [] \<longleftrightarrow> (\<forall>x \<in> set xs. f x = None)"
  by (induction xs) (auto simp: List.map_filter_simps split: option.splits)

text \<open>
  A challenge is upheld exactly when its evidence shows a defect of the claimed kind: a listed
  field that the schema names and the output lacks or has at another type, a required citation that is not
  provided, two statements at different positions that contradict each other, a listed field whose two outputs
  differ in the sense of Python, or details of a named policy rule.
\<close>

theorem verdict_exact: "vr_is_valid (verify_challenge p ev d) \<longleftrightarrow> evidence_defect p ev"
proof (cases p)
  case SCHEMA_VIOLATION
  have "ev_expected_schema ev = [] \<Longrightarrow> \<not> field_defect ev f" for f by (simp add: field_defect_def)
  then show ?thesis
    using field_violation_iff [of ev]
    by (auto simp: SCHEMA_VIOLATION verify_challenge_def evidence_defect_def verify_schema_violation_def Let_def map_filter_Nil_iff)
next
  case MISSING_CITATION
  then show ?thesis
    by (auto simp: verify_challenge_def evidence_defect_def verify_missing_citation_def Let_def filter_empty_conv list_ex_iff)
next
  case SEMANTIC_CONTRADICTION
  then show ?thesis
    by (auto simp: verify_challenge_def evidence_defect_def verify_semantic_contradiction_def Let_def contradictions_empty_iff)
next
  case OUTPUT_MISMATCH
  then show ?thesis
    by (auto simp: verify_challenge_def evidence_defect_def verify_output_mismatch_def Let_def filter_empty_conv)
next
  case POLICY_BREACH
  then show ?thesis
    by (auto simp: verify_challenge_def evidence_defect_def verify_policy_breach_def Let_def split: option.split)
qed

lemma repeated_statement_contradicts:
  "detect_simple_contradiction ''this claim is not disputed'' ''this claim is not disputed''"
  by code_simp

end
