(* ===== verification/ChallengeFlowProps.thy ===== *)
theory ChallengeFlowProps
  imports ChallengeFlow
begin

text \<open>
  Correctness of the life of a challenge: the queue serves the highest bond first and hands every
  challenge to one verifier, windows are open for exactly their duration although their remaining time is
  a float, escalation has exact thresholds, and the hourly limit on challengers holds in every hour.
\<close>

section \<open>The queue\<close>

datatype queue_cmd =
    Add string string string string "(string, json) table" int int int
  | Verifying string
  | Verified string "(string, json) table" int
  | Failed string string int

text \<open>A command and what it answers: the truth value of the marking methods.\<close>

fun queue_step :: "queue_cmd \<Rightarrow> challenge_queue \<Rightarrow> error + bool \<times> challenge_queue" where
  "queue_step (Add i t c ch proof bond queued_at now) q =
     res_bind (add_challenge i t c ch proof bond queued_at now q) (\<lambda>(r, q). Inr (True, q))"
| "queue_step (Verifying i) q = Inr (mark_verifying i q)"
| "queue_step (Verified i res now) q = Inr (mark_verified i res now q)"
| "queue_step (Failed i err now) q = Inr (mark_failed i err now q)"

fun queue_run :: "queue_cmd list \<Rightarrow> challenge_queue \<Rightarrow> (queue_cmd \<times> bool) list \<times> challenge_queue" where
  "queue_run [] q = ([], q)"
| "queue_run (c # cs) q =
     (case queue_step c q of
        Inl e \<Rightarrow> queue_run cs q
      | Inr (b, q') \<Rightarrow> (let (rs, q'') = queue_run cs q' in ((c, b) # rs, q'')))"

text \<open>Adding a challenge takes less than three minutes between the two readings of the clock.\<close>

definition prompt :: "queue_cmd \<Rightarrow> bool" where
  "prompt c \<longleftrightarrow> (\<forall>i t cm ch proof bond queued_at now. c = Add i t cm ch proof bond queued_at now \<longrightarrow>
     0 \<le> bond \<and> bond \<le> 2 ^ 50 \<and> queued_at \<le> now \<and> now - queued_at \<le> 180 * 10 ^ 9)"

definition fair_score :: "challenge_row \<Rightarrow> bool" where
  "fair_score r \<longleftrightarrow> of_int (cq_bond_amount r) \<le> cq_priority_score r \<and>
     cq_priority_score r \<le> of_int (cq_bond_amount r) + 1 / 2"

lemma ns_per_hour: "NS_PER_HOUR = 3600000000000"
  by code_simp

lemma small_bonus: "fmul (rnd (1 / 20)) 10 = 1 / 2"
  by code_simp

lemma calculate_priority_bounds:
  assumes "0 \<le> b" "b \<le> 2 ^ 50" "q \<le> t" "t - q \<le> 180 * 10 ^ 9"
  shows "of_int b \<le> calculate_priority b q t" "calculate_priority b q t \<le> of_int b + 1 / 2"
proof -
  have d: "to_float (t - q) = of_int (t - q)" and b: "to_float b = of_int b"
    using assms by (simp_all add: to_float_exact)
  define h where "h = fdiv (to_float (t - q)) NS_PER_HOUR"
  have r: "(of_int (t - q) :: rat) \<le> of_int (180 * 10 ^ 9)" "(0 :: rat) \<le> of_int (t - q)"
    using assms(3,4) by (simp_all only: of_int_le_iff of_int_0_le_iff diff_ge_0_iff_ge)
  have h: "0 \<le> h" "h \<le> rnd (1 / 20)"
    using r unfolding h_def fdiv_def d ns_per_hour by (auto intro!: rnd_nonneg rnd_mono simp: divide_simps)
  have "fmul h 10 \<le> fmul (rnd (1 / 20)) 10" "0 \<le> fmul h 10"
    using h by (auto simp: fmul_def intro!: rnd_mono rnd_nonneg)
  then have x: "0 \<le> fmul h 10" "fmul h 10 \<le> 1 / 2" by (simp_all add: small_bonus)
  have p: "calculate_priority b q t = rnd (of_int b + fmul h 10)"
    by (simp add: calculate_priority_def h_def fadd_def b)
  show "of_int b \<le> calculate_priority b q t"
    unfolding p using x assms by (intro rnd_ge_int) simp_all
  have "rnd (of_int b + fmul h 10) \<le> rnd (of_int (2 * b + 1) / 2)"
    using x by (intro rnd_mono) simp
  also have "\<dots> = of_int b + 1 / 2"
    using assms rnd_half [of "2 * b + 1"] by simp
  finally show "calculate_priority b q t \<le> of_int b + 1 / 2" unfolding p .
qed

definition fair_queue :: "challenge_queue \<Rightarrow> bool" where
  "fair_queue q \<longleftrightarrow> (\<forall>k r. (k, r) \<in> set q \<longrightarrow> fair_score r)"

lemma fair_queue_update_row:
  "fair_queue q \<Longrightarrow> (\<And>r. fair_score r \<Longrightarrow> fair_score (f r)) \<Longrightarrow> fair_queue (update_row k f q)"
  by (fastforce simp: fair_queue_def update_row_def)

lemma fair_queue_step:
  assumes "prompt c" and "queue_step c q = Inr (b, q')" and "fair_queue q"
  shows "fair_queue q'"
proof (cases c)
  case (Add i t cm ch pd bond queued_at now)
  with assms have p: "0 \<le> bond" "bond \<le> 2 ^ 50" "queued_at \<le> now" "now - queued_at \<le> 180 * 10 ^ 9"
    by (auto simp: prompt_def)
  from assms(2,3) Add calculate_priority_bounds [OF p] show ?thesis
    by (auto simp: add_challenge_def Let_def add_row_def fair_queue_def fair_score_def split: if_splits)
next
  case (Verifying i)
  with assms show ?thesis
    by (auto simp: mark_verifying_def fair_score_def intro!: fair_queue_update_row split: option.splits if_splits)
next
  case (Verified i r n)
  with assms show ?thesis
    by (auto simp: mark_verified_def fair_score_def intro!: fair_queue_update_row)
next
  case (Failed i r n)
  with assms show ?thesis
    by (auto simp: mark_failed_def fair_score_def intro!: fair_queue_update_row)
qed

lemma fair_queue_run: "list_all prompt cs \<Longrightarrow> fair_queue q \<Longrightarrow> fair_queue (snd (queue_run cs q))"
proof (induction cs arbitrary: q)
  case (Cons c cs)
  then show ?case
    using fair_queue_step [of c q] by (auto simp: split_def Let_def split: sum.split)
qed simp

lemma next_challenge_first:
  assumes "get_next_challenge q = Some (k, r)"
  shows "(k, r) \<in> set q" "cq_status r = ''queued''"
    "\<And>k' r'. (k', r') \<in> set q \<Longrightarrow> cq_status r' = ''queued'' \<Longrightarrow> cq_priority_score r' \<le> cq_priority_score r"
proof -
  let ?f = "\<lambda>(k, r). (- cq_priority_score r, cq_queued_at_ns r)"
  obtain rest where s: "sort_key ?f (queued q) = (k, r) # rest"
    using assms by (auto simp: get_next_challenge_def split: list.splits)
  have set: "set (queued q) = set ((k, r) # rest)" using s by (metis set_sort)
  then have "(k, r) \<in> set (queued q)" by simp
  then show "(k, r) \<in> set q" "cq_status r = ''queued''" by (auto simp: queued_def)
  have "sorted (map ?f ((k, r) # rest))" using sorted_sort_key [of ?f "queued q"] by (simp add: s)
  then have le: "?f (k, r) \<le> ?f x" if "x \<in> set (queued q)" for x
    using that unfolding set by auto
  show "cq_priority_score r' \<le> cq_priority_score r" if "(k', r') \<in> set q" "cq_status r' = ''queued''" for k' r'
    using le [of "(k', r')"] that by (auto simp: queued_def less_eq_prod_def)
qed

lemma next_challenge_None: "get_next_challenge q = None \<longleftrightarrow> (\<forall>k r. (k, r) \<in> set q \<longrightarrow> cq_status r \<noteq> ''queued'')"
proof -
  have "get_next_challenge q = None \<longleftrightarrow> queued q = []"
    by (auto simp: get_next_challenge_def split: list.splits dest: arg_cong [where f = length])
  then show ?thesis by (auto simp: queued_def filter_empty_conv)
qed

text \<open>
  When bonds are at most 2^50 and adding a challenge takes at most three minutes, the next
  challenge of any queue is a waiting one with the highest bond among the waiting ones, and there is one whenever a
  challenge waits: the age bonus, a float computed when the challenge is added, never outweighs one credit.
\<close>

theorem next_challenge_highest_bond:
  assumes "list_all prompt cs" and "q = snd (queue_run cs [])"
  shows "(get_next_challenge q = None \<longleftrightarrow> (\<forall>k r. (k, r) \<in> set q \<longrightarrow> cq_status r \<noteq> ''queued'')) \<and>
    (\<forall>k r. get_next_challenge q = Some (k, r) \<longrightarrow> (k, r) \<in> set q \<and> cq_status r = ''queued'' \<and>
       (\<forall>k' r'. (k', r') \<in> set q \<longrightarrow> cq_status r' = ''queued'' \<longrightarrow> cq_bond_amount r' \<le> cq_bond_amount r))"
proof -
  have fair: "fair_queue q" using assms fair_queue_run [of cs "[]"] by (simp add: fair_queue_def)
  have "cq_bond_amount r' \<le> cq_bond_amount r"
    if n: "get_next_challenge q = Some (k, r)" and r': "(k', r') \<in> set q" "cq_status r' = ''queued''" for k r k' r'
  proof -
    have "cq_priority_score r' \<le> cq_priority_score r" "fair_score r" "fair_score r'"
      using next_challenge_first [OF n] fair r' by (auto simp: fair_queue_def)
    then have "(of_int (cq_bond_amount r') :: rat) < of_int (cq_bond_amount r + 1)"
      by (simp add: fair_score_def)
    then show ?thesis by (simp only: of_int_less_iff zle_add1_eq_le)
  qed
  with next_challenge_None [of q] next_challenge_first(1,2) [of q] show ?thesis by blast
qed

definition claimable :: "string \<Rightarrow> challenge_queue \<Rightarrow> bool" where
  "claimable i q \<longleftrightarrow> (\<forall>r. map_of q i = Some r \<longrightarrow> cq_status r = ''queued'')"

lemma claim_step:
  assumes "queue_step c q = Inr (b, q')"
  shows "claimable i q' \<Longrightarrow> claimable i q"
    and "c = Verifying i \<Longrightarrow> b \<Longrightarrow> claimable i q \<and> \<not> claimable i q'"
proof -
  have "(claimable i q' \<longrightarrow> claimable i q) \<and> (c = Verifying i \<longrightarrow> b \<longrightarrow> claimable i q \<and> \<not> claimable i q')"
    using assms
    by (cases c) (auto simp: claimable_def add_challenge_def Let_def mark_verifying_def mark_verified_def
        mark_failed_def has_key_def split: if_splits option.splits)
  then show "claimable i q' \<Longrightarrow> claimable i q"
    and "c = Verifying i \<Longrightarrow> b \<Longrightarrow> claimable i q \<and> \<not> claimable i q'" by blast+
qed

lemma claims_bounded:
  "length (filter (\<lambda>r. r = (Verifying i, True)) (fst (queue_run cs q))) \<le> (if claimable i q then 1 else 0)"
proof (induction cs arbitrary: q)
  case (Cons c cs)
  show ?case
  proof (cases "queue_step c q")
    case (Inr r)
    obtain b q' where r: "r = (b, q')" by (cases r)
    show ?thesis
      using Cons.IH [of q'] claim_step [OF Inr [unfolded r], of i]
      by (auto simp: Inr r split_def Let_def split: if_splits)
  qed (use Cons.IH in simp)
qed simp

text \<open>
  Two verifiers never work on the same challenge: in any sequence of calls mark_verifying succeeds
  at most once for a challenge, and it succeeds exactly for a challenge that is in the queue and still waiting.
\<close>

theorem challenge_claimed_once:
  "length (filter (\<lambda>r. r = (Verifying i, True)) (fst (queue_run cs []))) \<le> 1 \<and>
   (fst (mark_verifying i q) \<longleftrightarrow> (\<exists>r. map_of q i = Some r \<and> cq_status r = ''queued''))"
  using claims_bounded [of i cs "[]"]
  by (auto simp: mark_verifying_def claimable_def split: option.splits)

section \<open>Windows\<close>

lemma rnd_pos_iff: "0 < rnd x \<longleftrightarrow> 0 < x"
proof -
  have "0 < rnd x" if "0 < x"
    using round_pos_bounds [OF that] pow2_pos [of "ilog2 x"] that by (auto simp: rnd_def intro: less_le_trans [OF pow2_pos])
  moreover have "rnd x \<le> 0" if "x \<le> 0"
    using rnd_mono [OF that] by simp
  ultimately show ?thesis by (cases "0 < x") (auto simp: not_less)
qed

lemma seconds_less_iff:
  assumes "0 < d" "d \<le> 2 ^ 22"
  shows "fdiv (to_float e) 1000000000 < of_int d \<longleftrightarrow> e < d * 10 ^ 9"
proof
  assume e: "e < d * 10 ^ 9"
  have "to_float e \<le> to_float (d * 10 ^ 9 - 1)"
    unfolding to_float_def using e by (intro rnd_mono) simp
  also have "to_float (d * 10 ^ 9 - 1) = of_int (d * 10 ^ 9 - 1)"
    using assms by (intro to_float_exact) simp
  finally have "to_float e / 1000000000 \<le> of_int (d * 10 ^ 9 - 1) / 1000000000"
    by (simp add: divide_right_mono)
  also have "\<dots> \<le> of_int (d * 2 ^ 30 - 1) * pow2 (- 30)"
    by (simp add: pow2_def diff_divide_distrib)
  finally have "fdiv (to_float e) 1000000000 \<le> rnd (of_int (d * 2 ^ 30 - 1) * pow2 (- 30))"
    unfolding fdiv_def by (rule rnd_mono)
  also have "\<dots> = of_int (d * 2 ^ 30 - 1) * pow2 (- 30)"
    using assms by (intro rnd_exact [OF refl]) simp
  also have "\<dots> < of_int d" by (simp add: pow2_def)
  finally show "fdiv (to_float e) 1000000000 < of_int d" .
next
  have "of_int d \<le> fdiv (to_float e) 1000000000" if "d * 10 ^ 9 \<le> e"
  proof -
    have "of_int (d * 10 ^ 9) \<le> to_float e"
      unfolding to_float_def using that assms by (intro rnd_ge_int) (simp_all only: of_int_le_iff, simp)
    then have "of_int d \<le> to_float e / 1000000000" by (simp add: le_divide_eq)
    then show ?thesis unfolding fdiv_def using assms by (intro rnd_ge_int) simp_all
  qed
  moreover assume "fdiv (to_float e) 1000000000 < of_int d"
  ultimately show "e < d * 10 ^ 9" by force
qed

lemma is_open_exact:
  assumes "0 < win_duration_seconds w" "win_duration_seconds w \<le> 2 ^ 22"
  shows "is_open now w \<longleftrightarrow> now - win_opened_at_ns w < win_duration_seconds w * 10 ^ 9"
  using assms seconds_less_iff [OF assms, of "now - win_opened_at_ns w"]
  by (simp add: is_open_def remaining_time_def Let_def fsub_def less_max_iff_disj rnd_pos_iff to_float_exact)

text \<open>
  A challenge window of at most 2^22 seconds (48 days) is open from its creation, to the nanosecond,
  until its duration has passed, although the remaining time is computed in floats; it is listed among the open
  windows exactly then, and closing it closes it.
\<close>

theorem window_open_exactly_duration:
  assumes "create_window i d t cw = Inr (w, cw')"
    and "win_duration_seconds w \<le> 2 ^ 22"
  shows "is_window_open i now cw' = Inr (now < t + (case d of None \<Rightarrow> 86400 | Some d \<Rightarrow> d) * 10 ^ 9, cw') \<and>
    (\<forall>j. j \<noteq> i \<longrightarrow> map_of (windows cw') j = map_of (windows cw) j) \<and>
    (\<exists>cw''. close_window i cw' = Inr (True, cw'') \<and> is_window_open i now cw'' = Inr (False, cw''))"
proof -
  let ?d = "case d of None \<Rightarrow> 86400 | Some d \<Rightarrow> d"
  have dd: "(case d of None \<Rightarrow> DEFAULT_WINDOW_DURATION | Some d \<Rightarrow> d) = ?d"
    by (cases d) (simp_all add: DEFAULT_WINDOW_DURATION_def)
  from assms(1) have w: "w = \<lparr>win_opened_at_ns = t, win_duration_seconds = ?d, win_extended_count = 0\<rparr>" and d: "0 < ?d"
    and cw: "\<not> window_lock cw" "cw' = cw\<lparr>windows := add_row i w (AList.delete i (windows cw)), window_lock := False\<rparr>"
    unfolding create_window_def dd by (auto simp: holding_def Let_def split: if_splits)
  have open_iff: "is_open now w \<longleftrightarrow> now < t + ?d * 10 ^ 9"
    using is_open_exact [of w now] d assms(2) by (auto simp: w)
  have "is_window_open i now cw' = Inr (is_open now w, cw')"
    using cw by (simp add: is_window_open_def get_window_def holding_def)
  moreover have "map_of (windows cw') j = map_of (windows cw) j" if "j \<noteq> i" for j
    using cw that by (auto split: option.split)
  moreover have "\<exists>cw''. close_window i cw' = Inr (True, cw'') \<and> is_window_open i now cw'' = Inr (False, cw'')"
    using cw by (simp add: close_window_def is_window_open_def get_window_def holding_def)
  ultimately show ?thesis by (simp add: open_iff)
qed

definition no_windows :: challenge_window where
  "no_windows = \<lparr>windows = [], window_lock = False\<rparr>"

definition demo_window :: window_info where
  "demo_window = \<lparr>win_opened_at_ns = 1700000000000000000, win_duration_seconds = 86400, win_extended_count = 0\<rparr>"

theorem window_open_exactly_duration_witness:
  "is_window_open ''t'' 1700086399999999999 (no_windows\<lparr>windows := [(''t'', demo_window)]\<rparr>) =
     Inr (True, no_windows\<lparr>windows := [(''t'', demo_window)]\<rparr>)"
proof -
  have c: "create_window ''t'' None 1700000000000000000 no_windows = Inr (demo_window, no_windows\<lparr>windows := [(''t'', demo_window)]\<rparr>)"
    by (simp add: create_window_def holding_def no_windows_def demo_window_def DEFAULT_WINDOW_DURATION_def add_row_def Let_def)
  have "win_duration_seconds demo_window \<le> 2 ^ 22" by (simp add: demo_window_def)
  from window_open_exactly_duration [OF c this, of 1700086399999999999] show ?thesis by simp
qed

text \<open>
  A window can never be extended: extend_window takes the lock of the connection and then calls
  get_window, which takes it again, so every call with a positive extension blocks for ever.
\<close>

theorem extend_window_blocks:
  "extend_window i n cw = Inl (if n \<le> 0 then ValueError ''Extension must be positive'' else Deadlock)"
  by (simp add: extend_window_def get_window_def holding_def)

section \<open>Escalation\<close>

text \<open>A fraction of at most 2^49 parts is below three tenths in floats exactly when it is.\<close>

lemma three_tenths_exact:
  assumes "0 < n" "n \<le> 2 ^ 49"
  shows "DISAGREEMENT_THRESHOLD \<le> rnd (of_nat m / of_nat n) \<longleftrightarrow> 3 * n \<le> 10 * m"
proof -
  have gap: "rnd (of_int 3 / of_int 10 - 1 / (of_int 10 * of_int (2 ^ 49))) < rnd (of_int 3 / of_int 10)" by code_simp
  have "int n \<le> 2 ^ 49" using assms(2) by simp
  then have "rnd (of_int 3 / of_int 10) \<le> rnd (of_int (int m) / of_int (int n)) \<longleftrightarrow> 3 * int n \<le> 10 * int m"
    using assms(1) gap by (intro rnd_fraction_threshold [where N = "2 ^ 49"]) simp_all
  moreover have "3 * int n \<le> 10 * int m \<longleftrightarrow> 3 * n \<le> 10 * m" by linarith
  ultimately show ?thesis by (simp add: DISAGREEMENT_THRESHOLD_def)
qed

text \<open>
  With at most 2^49 verdicts the escalation levels are exact: more verifiers are asked exactly when
  at least three tenths of the verdicts are in the minority, a human otherwise when the average confidence is
  below the threshold, a governance vote otherwise when the bond is at least 500; nothing is escalated in the
  remaining cases or without verdicts, and a case is stored exactly when a level is reached.
\<close>

theorem escalation_thresholds_exact:
  assumes "length vs \<le> 2 ^ 49"
  defines "minority \<equiv> min (length (filter vv_is_valid vs)) (length (filter (\<lambda>v. \<not> vv_is_valid v) vs))"
  shows "(fst (snd (check_escalation_needed vs bond)) = Some VERIFIER_CONSENSUS \<longleftrightarrow> vs \<noteq> [] \<and> 3 * length vs \<le> 10 * minority) \<and>
    (fst (snd (check_escalation_needed vs bond)) = Some HUMAN_REVIEW \<longleftrightarrow>
       10 * minority < 3 * length vs \<and> avg_confidence vs < CONFIDENCE_THRESHOLD) \<and>
    (fst (snd (check_escalation_needed vs bond)) = Some GOVERNANCE_VOTE \<longleftrightarrow>
       10 * minority < 3 * length vs \<and> CONFIDENCE_THRESHOLD \<le> avg_confidence vs \<and> 500 \<le> bond) \<and>
    (fst (check_escalation_needed vs bond) \<longleftrightarrow> fst (snd (check_escalation_needed vs bond)) \<noteq> None) \<and>
    (fst (check_escalation_needed vs bond) \<longleftrightarrow>
       snd (escalate_if_disagree ch vs bond i now es) = AList.update i (the (fst (escalate_if_disagree ch vs bond i now es))) es \<and>
       fst (escalate_if_disagree ch vs bond i now es) \<noteq> None)"
proof (cases "vs = []")
  case True
  then show ?thesis
    by (simp add: check_escalation_needed_def escalate_if_disagree_def)
next
  case False
  have "length (filter (\<lambda>v. \<not> vv_is_valid v) vs) = length vs - length (filter vv_is_valid vs)"
    using sum_length_filter_compl [of vv_is_valid vs] by linarith
  then have r: "DISAGREEMENT_THRESHOLD \<le> disagreement_rate vs \<longleftrightarrow> 3 * length vs \<le> 10 * minority"
    using three_tenths_exact [of "length vs" minority] assms(1) False
    by (simp add: disagreement_rate_def minority_def Let_def)
  show ?thesis
    using False
    by (auto simp: check_escalation_needed_def escalate_if_disagree_def r HIGH_VALUE_BOND_THRESHOLD_def Let_def)
qed

definition demo_verdicts :: "verifier_verdict list" where
  "demo_verdicts = map (\<lambda>b. \<lparr>vv_verifier_id = ''v'', vv_is_valid = b, vv_confidence = 1\<rparr>)
     [True, True, True, False, False, False, False, False, False, False]"

theorem escalation_thresholds_exact_witness:
  "fst (snd (check_escalation_needed demo_verdicts 10)) = Some VERIFIER_CONSENSUS"
proof -
  have "length demo_verdicts \<le> 2 ^ 49" by (simp add: demo_verdicts_def)
  from escalation_thresholds_exact [OF this, of 10] show ?thesis by (simp add: demo_verdicts_def)
qed

section \<open>Limits on challengers\<close>

text \<open>Challengers submit after asking whether they may; outcomes arrive at any time.  The answer lists the
  accepted submissions.\<close>

datatype challenger_cmd = Submit string int int | Outcome string string

fun challenger_run :: "challenger_cmd list \<Rightarrow> abuse_detector \<Rightarrow> (string \<times> int) list \<times> abuse_detector" where
  "challenger_run [] d = ([], d)"
| "challenger_run (Submit c t1 t2 # cs) d =
     (if fst (check_rate_limit c t1 d)
      then (let (as, d') = challenger_run cs (record_challenge c t2 d) in ((c, t2) # as, d'))
      else challenger_run cs d)"
| "challenger_run (Outcome c res # cs) d = challenger_run cs (record_outcome c res d)"


text \<open>The accepted times of one challenger, and the readings of the clock in a run.\<close>

definition times_of :: "string \<Rightarrow> (string \<times> int) list \<Rightarrow> int list" where
  "times_of c as = map snd (filter (\<lambda>a. fst a = c) as)"

definition readings :: "challenger_cmd list \<Rightarrow> int list" where
  "readings cs = concat (map (\<lambda>cmd. case cmd of Submit c t1 t2 \<Rightarrow> [t1, t2] | Outcome c res \<Rightarrow> []) cs)"

definition hour_before :: "int \<Rightarrow> pyfloat" where
  "hour_before = time_before 3600"

lemma time_before_mono: "t \<le> t' \<Longrightarrow> time_before n t \<le> time_before n t'"
  by (auto simp: time_before_def fsub_def to_float_def intro!: rnd_mono)

interpretation hour: sliding_window "\<lambda>t (ts::int). hour_before t < of_int ts"
  by unfold_locales (unfold hour_before_def, rule le_less_trans [OF time_before_mono])

lemma since_hour: "since (hour_before t) xs = filter (\<lambda>ts. hour_before t < of_int ts) xs"
  by (simp add: since_def)

lemma since_append [simp]: "since t (xs @ ys) = since t xs @ since t ys"
  by (simp add: since_def)

definition in_hour :: "int \<Rightarrow> int list \<Rightarrow> int list" where
  "in_hour t tss = filter (\<lambda>ts. hour_before t < of_int ts \<and> ts \<le> t) tss"

text \<open>What the detector knows of a challenger with the accepted times \<open>tss\<close>.\<close>

definition remembers :: "string \<Rightarrow> int list \<Rightarrow> abuse_detector \<Rightarrow> bool" where
  "remembers c tss d \<longleftrightarrow> (\<forall>t. length (in_hour t tss) \<le> 10) \<and>
     (case map_of d c of
        None \<Rightarrow> tss = []
      | Some s \<Rightarrow> tss \<noteq> [] \<and> cs_in_window s = since (hour_before (last tss)) tss \<and> length (cs_in_window s) \<le> 10)"

lemma rate_limit_of_history:
  assumes "remembers c tss d" and "\<And>ts. ts \<in> set tss \<Longrightarrow> ts \<le> t"
  shows "fst (check_rate_limit c t d) \<longleftrightarrow> length (since (hour_before t) tss) < 10"
proof (cases "map_of d c")
  case (Some s)
  with assms(1) have s: "tss \<noteq> []" "cs_in_window s = since (hour_before (last tss)) tss" "length (cs_in_window s) \<le> 10"
    by (auto simp: remembers_def)
  have "since (hour_before t) (cs_in_window s) = since (hour_before t) tss"
    using s(1) assms(2) hour.filter_later [of "last tss" t tss] by (simp add: s(2) since_hour)
  moreover have "length (since (time_before (24 * 3600) t) (cs_in_window s)) < 50"
    unfolding since_def using s(3) by (rule le_less_trans [OF order_trans [OF length_filter_le]]) simp
  ultimately show ?thesis
    using Some \<open>length (since (time_before (24 * 3600) t) (cs_in_window s)) < 50\<close>
    by (auto simp: check_rate_limit_def hour_before_def [symmetric] Let_def MAX_CHALLENGES_PER_HOUR_def
        MAX_CHALLENGES_PER_DAY_def not_le)
qed (use assms in \<open>simp add: remembers_def check_rate_limit_def since_def\<close>)

lemma remembers_submit:
  assumes r: "remembers c tss d" and late: "\<And>ts. ts \<in> set tss \<Longrightarrow> ts \<le> t1" and t: "t1 \<le> t2"
    and ok: "fst (check_rate_limit c t1 d)"
  shows "remembers c (tss @ [t2]) (record_challenge c t2 d)"
proof -
  have few: "length (since (hour_before t2) tss) < 10"
    using rate_limit_of_history [OF r late] ok hour.length_later [OF t, of tss] by (simp add: since_hour)
  have all: "length (since (hour_before t2) (tss @ [t2])) \<le> 10"
    using few by (simp add: since_def)
  have "length (in_hour x (tss @ [t2])) \<le> 10" for x
    using r few unfolding in_hour_def since_hour by (intro hour.window_extend) (auto simp: remembers_def in_hour_def)
  moreover have "\<exists>s. map_of (record_challenge c t2 d) c = Some s \<and> cs_in_window s = since (hour_before t2) (tss @ [t2])"
  proof (cases "map_of d c")
    case None
    with r show ?thesis
      by (auto simp: remembers_def record_challenge_def Let_def no_challenges_def hour_before_def since_def)
  next
    case (Some s)
    with r have s: "tss \<noteq> []" "cs_in_window s = since (hour_before (last tss)) tss" by (auto simp: remembers_def)
    with late t have "last tss \<le> t2" by (meson last_in_set order_trans)
    then have "since (hour_before t2) (cs_in_window s) = since (hour_before t2) tss"
      using hour.filter_later [of "last tss" t2 tss] by (simp add: s(2) since_hour)
    with Some show ?thesis by (simp add: record_challenge_def Let_def hour_before_def)
  qed
  ultimately show ?thesis using all by (auto simp: remembers_def)
qed

lemma remembers_other:
  "remembers c tss d \<Longrightarrow> c' \<noteq> c \<Longrightarrow> remembers c tss (record_challenge c' t d)"
  "remembers c tss d \<Longrightarrow> remembers c tss (record_outcome c' res d)"
  by (auto simp: remembers_def record_challenge_def record_outcome_def Let_def split: option.splits)

lemma remembers_run:
  assumes "\<And>c. remembers c (times_of c as) d" and "sorted (readings cs)"
    and "\<And>a t. a \<in> set as \<Longrightarrow> t \<in> set (readings cs) \<Longrightarrow> snd a \<le> t"
  shows "remembers c (times_of c (as @ fst (challenger_run cs d))) (snd (challenger_run cs d))"
  using assms
proof (induction cs arbitrary: as d)
  case (Cons cmd cs)
  show ?case
  proof (cases cmd)
    case (Submit c' t1 t2)
    note sub = this
    have so: "sorted (readings cs)" "t1 \<le> t2" "\<And>t. t \<in> set (readings cs) \<Longrightarrow> t2 \<le> t"
      and ear: "\<And>a. a \<in> set as \<Longrightarrow> snd a \<le> t1" "\<And>a t. a \<in> set as \<Longrightarrow> t \<in> set (readings cs) \<Longrightarrow> snd a \<le> t"
      using Cons.prems(2,3) by (auto simp: readings_def sub)
    show ?thesis
    proof (cases "fst (check_rate_limit c' t1 d)")
      case True
      have "remembers k (times_of k (as @ [(c', t2)])) (record_challenge c' t2 d)" for k
      proof (cases "k = c'")
        case True
        have "ts \<le> t1" if "ts \<in> set (times_of c' as)" for ts
          using that ear(1) by (auto simp: times_of_def)
        with True show ?thesis
          using remembers_submit [OF Cons.prems(1) [of c'] _ so(2) \<open>fst (check_rate_limit c' t1 d)\<close>] True
          by (simp add: times_of_def)
      next
        case False
        with Cons.prems(1) [of k] remembers_other(1) [of k "times_of k as" d c' t2] show ?thesis by (simp add: times_of_def)
      qed
      then have "remembers c (times_of c ((as @ [(c', t2)]) @ fst (challenger_run cs (record_challenge c' t2 d))))
          (snd (challenger_run cs (record_challenge c' t2 d)))"
        using so ear by (intro Cons.IH) auto
      with True show ?thesis by (simp add: sub split_def Let_def)
    next
      case False
      with Cons.IH [OF Cons.prems(1) so(1) ear(2)] show ?thesis by (simp add: sub)
    qed
  next
    case (Outcome c' res)
    have "remembers c (times_of c (as @ fst (challenger_run cs (record_outcome c' res d))))
        (snd (challenger_run cs (record_outcome c' res d)))"
      using Cons.prems by (intro Cons.IH remembers_other) (auto simp: readings_def Outcome)
    then show ?thesis by (simp add: Outcome)
  qed
qed simp

text \<open>
  When challengers ask before they submit and the clock does not run backwards, no challenger has
  more than ten accepted challenges in any hour (counted back from any moment, in the float arithmetic of the
  code), and at any later time the next challenge is allowed exactly when fewer than ten were accepted in the
  hour before: the daily limit of fifty never refuses anything.
\<close>

theorem hourly_limit_exact:
  assumes "sorted (readings cs)" and "challenger_run cs [] = (as, d)"
  shows "length (in_hour t (times_of c as)) \<le> 10 \<and>
    ((\<forall>ts \<in> set (times_of c as). ts \<le> t) \<longrightarrow>
       (fst (check_rate_limit c t d) \<longleftrightarrow> length (in_hour t (times_of c as)) < 10))"
proof -
  have r: "remembers c (times_of c as) d"
    using remembers_run [of "[]" "[]" cs c] assms by (simp add: remembers_def times_of_def in_hour_def)
  have "in_hour t (times_of c as) = since (hour_before t) (times_of c as)" if "\<forall>ts \<in> set (times_of c as). ts \<le> t"
    using that by (auto simp: in_hour_def since_def intro!: filter_cong)
  with rate_limit_of_history [OF r, of t] r show ?thesis by (auto simp: remembers_def)
qed

end
