(* ===== verification/ChallengeHandlerProps.thy ===== *)
theory ChallengeHandlerProps
  imports ChallengeHandler ChallengeProps ChallengeFlowProps SlashingProps
begin

text \<open>
  Correctness of the submission of challenges and of the settlement of their outcome: a challenge is queued
  only with its bond locked, the amounts an upheld challenge reports are exact, no credits are created,
  and the bond is never given back.
\<close>

section \<open>Submission\<close>

lemma parse_complexity_name: "parse_complexity (complexity_name c) = Some c"
  by (cases c) (simp_all add: parse_complexity_def complexity_name_def)

lemma calculate_bond_bounds: "\<exists>b. calculate_bond p c = Some b \<and> 10 \<le> b \<and> b \<le> 500"
  by (cases p; cases c) (simp_all add: calculate_bond_def BASE_BOND_AMOUNTS_def complexity_value_def)

lemma reading_windows:
  "is_window_open i now cw = Inr (b, cw') \<Longrightarrow> cw' = cw"
  "get_remaining_time i now cw = Inr (r, cw') \<Longrightarrow> cw' = cw"
  by (auto simp: is_window_open_def get_remaining_time_def get_window_def holding_def split: if_splits)

definition submission_guards :: "(nat \<Rightarrow> int) \<Rightarrow> challenge_envelope \<Rightarrow> challenge_state \<Rightarrow> string \<Rightarrow> string \<Rightarrow> proof_type \<Rightarrow> string \<Rightarrow> complexity \<Rightarrow> bool" where
  "submission_guards clock env st task_id commit_id ptype h cpx \<longleftrightarrow>
     validated_payload (ce_payload env) = Some (task_id, commit_id, ptype, h, cpx) \<and>
     fst (check_rate_limit (ce_sender_pk_b64 env) (clock 0) (st_abuse_detector st)) \<and>
     is_window_open task_id (clock 3) (st_challenge_window st) = Inr (True, st_challenge_window st) \<and>
     fst (validate_schema (challenge_proof env task_id commit_id ptype h cpx))"

lemma handle_challenge_cases:
  assumes "handle_challenge clock uuid env st = Inr st'"
  obtains (ignored) "st_ledger st' = st_ledger st" "st_challenge_queue st' = st_challenge_queue st"
      "st_challenge_window st' = st_challenge_window st"
  | (accepted) task_id commit_id ptype h cpx bond r where
      "submission_guards clock env st task_id commit_id ptype h cpx"
      "calculate_bond ptype cpx = Some bond" "cr_bond_amount r = bond" "cr_task_id r = task_id"
      "cr_challenger_id r = ce_sender_pk_b64 env" "cr_challenge_id r = uuid 2" "cr_escrow_id r = ''challenge_bond_'' @ uuid 0"
      "cr_proof r = schema_to_dict (challenge_proof env task_id commit_id ptype h cpx)"
      "st_challenge_queue st' = st_challenge_queue st @ [r]"
      "st_abuse_detector st' = record_challenge (ce_sender_pk_b64 env) (clock 2) (st_abuse_detector st)"
      "st_challenge_window st' = st_challenge_window st"
      "escrow_bond (ce_sender_pk_b64 env) bond (cr_escrow_id r) (uuid 1) (clock 5) (st_ledger st) = Inr (Some (st_ledger st'))"
proof (cases "validated_payload (ce_payload env)")
  case None
  with assms ignored show ?thesis by (simp add: handle_challenge_def)
next
  case (Some v)
  obtain task_id commit_id ptype h cpx where v: "v = (task_id, commit_id, ptype, h, cpx)" by (cases v)
  obtain bond where bond: "calculate_bond ptype cpx = Some bond" using calculate_bond_bounds by blast
  let ?cw = "st_challenge_window st" and ?c = "ce_sender_pk_b64 env"
  show ?thesis
  proof (cases "fst (check_rate_limit ?c (clock 0) (st_abuse_detector st))")
    case False
    with assms Some v ignored show ?thesis by (simp add: handle_challenge_def)
  next
    case True
    from assms Some v True obtain opened cw where o: "is_window_open task_id (clock 3) ?cw = Inr (opened, cw)"
      by (auto simp: handle_challenge_def Let_def res_simps)
    then have cw: "cw = ?cw" by (rule reading_windows)
    show ?thesis
    proof (cases opened)
      case False
      with assms Some v True o cw ignored show ?thesis by (auto simp: handle_challenge_def Let_def)
    next
      case op: True
      from assms Some v True o op cw obtain rem cw2 where r: "get_remaining_time task_id (clock 4) ?cw = Inr (rem, cw2)"
        by (auto simp: handle_challenge_def Let_def res_simps)
      then have cw2: "cw2 = ?cw" by (rule reading_windows)
      let ?st = "st\<lparr>st_abuse_detector := record_challenge ?c (clock 2) (st_abuse_detector st), st_challenge_window := ?cw\<rparr>"
      let ?pf = "challenge_proof env task_id commit_id ptype h cpx"
      have run: "(if (case st_ledger st of None \<Rightarrow> False | Some db \<Rightarrow> get_balance ?c db < bond) then Inr ?st
          else if \<not> fst (validate_schema ?pf) then Inr ?st
          else res_bind (escrow_bond ?c bond (''challenge_bond_'' @ uuid 0) (uuid 1) (clock 5) (st_ledger st)) (\<lambda>escrowed.
            case escrowed of None \<Rightarrow> Inr ?st
            | Some l \<Rightarrow> Inr (?st\<lparr>st_ledger := l, st_challenge_queue := st_challenge_queue st @
                [\<lparr>cr_challenge_id = uuid 2, cr_task_id = task_id, cr_commit_id = commit_id,
                  cr_challenger_id = ?c, cr_proof = schema_to_dict ?pf, cr_bond_amount = bond,
                  cr_escrow_id = ''challenge_bond_'' @ uuid 0, cr_complexity = complexity_name cpx,
                  cr_lamport = ce_lamport env, cr_thread_id = ce_thread_id env, cr_status = ''queued'',
                  cr_submitted_at_ns = clock 6\<rparr>]\<rparr>))) = Inr st'"
        using assms Some v True o op cw r cw2 bond by (simp add: handle_challenge_def Let_def cong: if_cong option.case_cong)
      show ?thesis
      proof (cases "(case st_ledger st of None \<Rightarrow> False | Some db \<Rightarrow> get_balance ?c db < bond)
          \<or> \<not> fst (validate_schema (challenge_proof env task_id commit_id ptype h cpx))")
        case True
        with run ignored show ?thesis by (auto split: if_splits)
      next
        case False
        with run obtain e where e: "escrow_bond ?c bond (''challenge_bond_'' @ uuid 0) (uuid 1) (clock 5) (st_ledger st) = Inr e"
          by (auto simp: res_simps)
        show ?thesis
        proof (cases e)
          case None
          with run False e ignored show ?thesis by auto
        next
          case (Some l)
          have g: "submission_guards clock env st task_id commit_id ptype h cpx"
            using \<open>validated_payload (ce_payload env) = Some v\<close> v
              \<open>fst (check_rate_limit ?c (clock 0) (st_abuse_detector st))\<close> o op cw False by (simp add: submission_guards_def)
          show ?thesis
            by (rule accepted [OF g bond, where r = "last (st_challenge_queue st')"])
               (use run False e Some in auto)
        qed
      qed
    qed
  qed
qed

text \<open>When every guard holds and the ledger, if there is one, can take the bond, the challenge is queued.\<close>

lemma guarded_challenge_queued:
  assumes "handle_challenge clock uuid env st = Inr st'"
    and "submission_guards clock env st task_id commit_id ptype h cpx" and "calculate_bond ptype cpx = Some bond"
    and "\<forall>db. st_ledger st = Some db \<longrightarrow> bond \<le> get_balance (ce_sender_pk_b64 env) db \<and>
      (\<exists>x. escrow (ce_sender_pk_b64 env) bond (''challenge_bond_'' @ uuid 0) (uuid 1) (clock 5) db = Inr x)"
  shows "length (st_challenge_queue st') = Suc (length (st_challenge_queue st))"
proof -
  let ?cw = "st_challenge_window st" and ?c = "ce_sender_pk_b64 env"
  have g: "validated_payload (ce_payload env) = Some (task_id, commit_id, ptype, h, cpx)"
    "fst (check_rate_limit ?c (clock 0) (st_abuse_detector st))"
    "is_window_open task_id (clock 3) ?cw = Inr (True, ?cw)"
    "fst (validate_schema (challenge_proof env task_id commit_id ptype h cpx))"
    using assms(2) by (simp_all add: submission_guards_def)
  from assms(1) g obtain rem cw2 where r: "get_remaining_time task_id (clock 4) ?cw = Inr (rem, cw2)"
    by (auto simp: handle_challenge_def Let_def res_simps)
  have "\<not> (case st_ledger st of None \<Rightarrow> False | Some db \<Rightarrow> get_balance ?c db < bond)"
    using assms(4) by (auto split: option.split)
  moreover obtain l where "escrow_bond ?c bond (''challenge_bond_'' @ uuid 0) (uuid 1) (clock 5) (st_ledger st) = Inr (Some l)"
    using assms(4) by (cases "st_ledger st") (auto simp: escrow_bond_def)
  ultimately show ?thesis
    using assms(1,3) g r by (auto simp: handle_challenge_def Let_def cong: if_cong option.case_cong)
qed

definition bond_locked :: "challenge_record \<Rightarrow> int \<Rightarrow> slash_ledger \<Rightarrow> slash_ledger \<Rightarrow> bool" where
  "bond_locked r now db db' \<longleftrightarrow>
     get_balance (cr_challenger_id r) db' = get_balance (cr_challenger_id r) db - cr_bond_amount r \<and>
     get_staked_amount (cr_challenger_id r) db' = get_staked_amount (cr_challenger_id r) db + cr_bond_amount r \<and>
     map_of (escrows db) (cr_escrow_id r) = None \<and>
     map_of (escrows db') (cr_escrow_id r) = Some \<lparr>esc_account = cr_challenger_id r, esc_amount = cr_bond_amount r,
       esc_created_at = now, esc_released = False, esc_released_to = None\<rparr> \<and>
     credits db' = credits db"

text \<open>
  Claim C24.  A submitted challenge either leaves the queue and the ledger as they were, or it is appended to the
  queue; then the payload was complete, the challenger under its hourly limit, the window of the task open, the
  proof within its limits, and the record names the bond the code computes, between 10 and 500 credits.  With a ledger
  injected into the handler, exactly that bond has moved from the balance of the challenger into a new unreleased escrow
  named in the record, without changing the total; without one (the default of the module) the challenge is queued and
  nothing is locked.  Conversely a challenge that meets every guard is queued when there is no ledger, or when the
  balance covers the bond and the escrow can be made.
\<close>

theorem challenge_queued_with_bond:
  assumes "handle_challenge clock uuid env st = Inr st'" and "\<forall>db. st_ledger st = Some db \<longrightarrow> rows_ok (accounts db)"
  shows "((st_challenge_queue st' = st_challenge_queue st \<and> st_ledger st' = st_ledger st) \<or>
    (\<exists>task_id commit_id ptype h cpx r.
       submission_guards clock env st task_id commit_id ptype h cpx \<and>
       st_challenge_queue st' = st_challenge_queue st @ [r] \<and> cr_challenger_id r = ce_sender_pk_b64 env \<and> cr_task_id r = task_id \<and>
       calculate_bond ptype cpx = Some (cr_bond_amount r) \<and> 10 \<le> cr_bond_amount r \<and> cr_bond_amount r \<le> 500 \<and>
       (case st_ledger st of
          None \<Rightarrow> st_ledger st' = None
        | Some db \<Rightarrow> (\<exists>db'. st_ledger st' = Some db' \<and> bond_locked r (clock 5) db db')))) \<and>
    (\<forall>task_id commit_id ptype h cpx bond.
       submission_guards clock env st task_id commit_id ptype h cpx \<and> calculate_bond ptype cpx = Some bond \<and>
       (\<forall>db. st_ledger st = Some db \<longrightarrow> bond \<le> get_balance (ce_sender_pk_b64 env) db \<and>
          (\<exists>x. escrow (ce_sender_pk_b64 env) bond (''challenge_bond_'' @ uuid 0) (uuid 1) (clock 5) db = Inr x)) \<longrightarrow>
       length (st_challenge_queue st') = Suc (length (st_challenge_queue st)))"
proof (rule conjI)
  show "(st_challenge_queue st' = st_challenge_queue st \<and> st_ledger st' = st_ledger st) \<or>
    (\<exists>task_id commit_id ptype h cpx r.
       submission_guards clock env st task_id commit_id ptype h cpx \<and>
       st_challenge_queue st' = st_challenge_queue st @ [r] \<and> cr_challenger_id r = ce_sender_pk_b64 env \<and> cr_task_id r = task_id \<and>
       calculate_bond ptype cpx = Some (cr_bond_amount r) \<and> 10 \<le> cr_bond_amount r \<and> cr_bond_amount r \<le> 500 \<and>
       (case st_ledger st of
          None \<Rightarrow> st_ledger st' = None
        | Some db \<Rightarrow> (\<exists>db'. st_ledger st' = Some db' \<and> bond_locked r (clock 5) db db')))"
    using assms(1)
  proof (cases rule: handle_challenge_cases)
    case (accepted task_id commit_id ptype h cpx bond r)
    have b: "10 \<le> bond" "bond \<le> 500" using calculate_bond_bounds [of ptype cpx] accepted(2) by auto
    have "case st_ledger st of
          None \<Rightarrow> st_ledger st' = None
        | Some db \<Rightarrow> (\<exists>db'. st_ledger st' = Some db' \<and> bond_locked r (clock 5) db db')"
    proof (cases "st_ledger st")
      case None
      then show ?thesis using accepted(12) by (simp add: escrow_bond_def)
    next
      case (Some db)
      obtain db' u where db': "st_ledger st' = Some db'" and
        esc: "escrow (ce_sender_pk_b64 env) bond (cr_escrow_id r) (uuid 1) (clock 5) db = Inr (u, db')"
        using accepted(12) Some by (cases "st_ledger st'") (auto simp: escrow_bond_def split: sum.splits if_splits)
      note e = escrow_Inr [OF esc]
      have key: "has_key (ce_sender_pk_b64 env) (accounts db)"
        using e by (intro has_key_of_positive [of balance]) (auto simp: get_balance_cell)
      have rows: "rows_ok (accounts db)" using assms(2) Some by simp
      have "bond_locked r (clock 5) db db'"
        using e key rows by (auto simp: bond_locked_def accepted(3,5) has_key_def get_balance_cell get_staked_amount_cell credits_def row_simps)
      with db' Some show ?thesis by simp
    qed
    then show ?thesis using accepted(1-5,9) b by blast
  qed simp
qed (use guarded_challenge_queued [OF assms(1)] in blast)

section \<open>Outcomes\<close>

lemma execute_slash_Inr:
  assumes "execute_slash ev uuid db = Inr (u, db')" and "rows_ok (accounts db)" and "0 \<le> sl_amount ev"
  shows "escrows db' = escrows db \<and> rows_ok (accounts db') \<and>
    credits db' = credits db - min (get_staked_amount (sl_account ev) db) (sl_amount ev) \<and>
    0 \<le> min (get_staked_amount (sl_account ev) db) (sl_amount ev) \<and>
    (\<forall>b. get_balance b db' = get_balance b db) \<and> (\<forall>b. has_key b (accounts db') = has_key b (accounts db)) \<and>
    slash_events db' = slash_events db @ [ev\<lparr>sl_amount := min (get_staked_amount (sl_account ev) db) (sl_amount ev)\<rparr>]"
proof -
  let ?a = "sl_account ev" and ?n = "min (get_staked_amount (sl_account ev) db) (sl_amount ev)"
  have st: "get_staked_amount ?a (db\<lparr>lock_held := True\<rparr>) = get_staked_amount ?a db"
    by (simp add: get_staked_amount_def get_account_def)
  have n0: "0 \<le> ?n"
    using assms(2,3) by (auto simp: get_staked_amount_def get_account_def rows_ok_def check_row_def split: option.split)
  show ?thesis
  proof (cases "0 < ?n")
    case True
    have key: "has_key ?a (accounts db)"
      using True by (intro has_key_of_positive [of locked]) (simp add: get_staked_amount_cell)
    have rows: "rows_ok (update_row ?a (unlock ?n) (accounts db))"
      using assms(1,2) True n0
      by (intro rows_ok_update) (auto simp: execute_slash_def Let_def st stmt_simps res_simps)
    show ?thesis
      using assms(1,2) True key rows n0
      by (auto simp: execute_slash_def Let_def st stmt_simps res_simps credits_def row_simps get_balance_cell)
  next
    case False
    with n0 have "?n = 0" by linarith
    with assms(1,2) show ?thesis
      by (auto simp: execute_slash_def Let_def st stmt_simps res_simps credits_def get_balance_def simp del: min_less_iff_conj)
  qed
qed

lemma slash_of_stake_half: "0 \<le> n \<Longrightarrow> n \<le> 2 ^ 53 \<Longrightarrow> slash_of_stake n = n div 2"
proof -
  have "fdiv (to_float VERIFIER_SLASH_PERCENT) 100 = rnd (1 / 2)" by code_simp
  then show "0 \<le> n \<Longrightarrow> n \<le> 2 ^ 53 \<Longrightarrow> slash_of_stake n = n div 2"
    by (simp add: slash_of_stake_def py_int_times_half)
qed

lemma slash_of_stake_nonneg: "0 \<le> n \<Longrightarrow> 0 \<le> slash_of_stake n"
proof -
  have h: "(0 :: rat) \<le> fdiv (to_float VERIFIER_SLASH_PERCENT) 100" by code_simp
  assume "0 \<le> n"
  then have "0 \<le> to_float n" by (simp add: to_float_def rnd_nonneg)
  with h show ?thesis by (simp add: slash_of_stake_def py_int_nonneg fmul_nonneg)
qed

text \<open>What the loop over the verifiers leaves: the slashed amounts, as logged, are gone from the total.\<close>

definition burned_since :: "slash_ledger \<Rightarrow> slash_ledger \<Rightarrow> int" where
  "burned_since db db' = (\<Sum>ev\<leftarrow>drop (length (slash_events db)) (slash_events db'). sl_amount ev)"

definition after_slashing :: "slash_ledger \<Rightarrow> slash_ledger \<Rightarrow> bool" where
  "after_slashing db db' \<longleftrightarrow> escrows db' = escrows db \<and> rows_ok (accounts db') \<and> credits db' = credits db - burned_since db db' \<and>
     0 \<le> burned_since db db' \<and> (\<forall>b. get_balance b db' = get_balance b db) \<and>
     (\<forall>b. has_key b (accounts db') = has_key b (accounts db)) \<and> (\<exists>evs. slash_events db' = slash_events db @ evs)"

lemma after_slashing_refl: "rows_ok (accounts db) \<Longrightarrow> after_slashing db db"
  by (simp add: after_slashing_def burned_since_def)

lemma after_slashing_trans:
  assumes "after_slashing db db1" and "after_slashing db1 db2"
  shows "after_slashing db db2"
  using assms by (auto simp: after_slashing_def burned_since_def)

lemma after_execute_slash:
  assumes "execute_slash ev uuid db = Inr (u, db')" and "rows_ok (accounts db)" and "0 \<le> sl_amount ev"
  shows "after_slashing db db'"
  using execute_slash_Inr [OF assms] by (simp add: after_slashing_def burned_since_def)

lemma slash_wrong_verifiers_spec:
  assumes "rows_ok (accounts db)"
    and "slash_wrong_verifiers uuid rules cid ts k stakes vs slashed per db = (r, db')"
  shows "after_slashing db db' \<and>
    (\<forall>sl p. r = Inr (sl, p) \<longrightarrow> sl = slashed @ filter (\<lambda>v. 0 < stake_of stakes v) vs)"
  using assms
proof (induction vs arbitrary: k slashed per db)
  case Nil
  then show ?case by (auto simp: after_slashing_refl)
next
  case (Cons v vs)
  show ?case
  proof (cases "0 < stake_of stakes v \<and> rules")
    case False
    with Cons show ?thesis by (fastforce simp: Let_def split: if_splits)
  next
    case True
    let ?ev = "\<lparr>sl_event_id = uuid (2 * k), sl_account = v, sl_reason = FAILED_CHALLENGE,
        sl_amount = slash_of_stake (stake_of stakes v), sl_evidence = cid, sl_severity = 10, sl_timestamp = ts\<rparr>"
    have nn: "0 \<le> sl_amount ?ev" using True by (simp add: slash_of_stake_nonneg)
    show ?thesis
    proof (cases "execute_slash ?ev (uuid (2 * k + 1)) db")
      case (Inl e)
      with Cons.prems True show ?thesis by (auto simp: Let_def after_slashing_refl)
    next
      case (Inr x)
      obtain u db1 where x: "x = (u, db1)" by (cases x)
      have a: "after_slashing db db1" using Inr [unfolded x] Cons.prems(1) nn by (rule after_execute_slash)
      then have "rows_ok (accounts db1)" by (simp add: after_slashing_def)
      moreover have "slash_wrong_verifiers uuid rules cid ts (Suc k) stakes vs (slashed @ [v]) (slash_of_stake (stake_of stakes v)) db1 = (r, db')"
        using Cons.prems(2) True Inr x by (simp add: Let_def)
      ultimately have "after_slashing db1 db'" and
        out: "\<forall>sl p. r = Inr (sl, p) \<longrightarrow> sl = (slashed @ [v]) @ filter (\<lambda>v. 0 < stake_of stakes v) vs"
        using Cons.IH by blast+
      with after_slashing_trans [OF a] True show ?thesis by simp
    qed
  qed
qed

text \<open>The two ledger calls at the end: a failed one changes nothing, a successful one moves credits.\<close>

definition moved :: "slash_ledger \<Rightarrow> slash_ledger \<Rightarrow> bool" where
  "moved db db' \<longleftrightarrow> credits db' = credits db \<and> slash_events db' = slash_events db"

lemma rows_ok_cell_bound: "rows_ok t \<Longrightarrow> 0 \<le> cell balance a t"
  by (auto simp: cell_def rows_ok_def check_row_def split: option.split)

lemma swallow_transfer:
  assumes "swallow (transfer f t n allow ids now) db = Inr db'" and "rows_ok (accounts db)"
  shows "moved db db' \<and> escrows db' = escrows db"
proof -
  obtain i d c where ids: "ids = (i, d, c)" by (cases ids)
  show ?thesis
  proof (cases "transfer f t n allow ids now db")
    case (Inl e)
    with assms show ?thesis by (auto simp: swallow_def moved_def split: if_splits)
  next
    case (Inr x)
    then obtain r where x: "transfer f t n allow (i, d, c) now db = Inr (r, db')"
      using assms(1) ids by (cases x) (auto simp: swallow_def)
    note tr = transfer_Inr [OF x]
    then have "has_key f (accounts db)"
      by (intro has_key_of_positive [of balance]) (auto simp: get_balance_cell)
    with tr assms(2) show ?thesis by (auto simp: moved_def credits_def row_simps)
  qed
qed

lemma swallow_release:
  assumes "swallow (release_escrow e t uuid now) db = Inr db'" and "escrow_rows_ok db" and "rows_ok (accounts db)"
  shows "moved db db' \<and> rows_ok (accounts db') \<and> (\<forall>e'. e' \<noteq> e \<longrightarrow> map_of (escrows db') e' = map_of (escrows db) e')"
proof (cases "release_escrow e t uuid now db")
  case (Inl err)
  with assms show ?thesis by (auto simp: swallow_def moved_def split: if_splits)
next
  case (Inr x)
  then have r: "release_escrow e t uuid now db = Inr (fst x, db')"
    using assms(1) by (cases x) (auto simp: swallow_def)
  from r show ?thesis
  proof (cases rule: release_escrow_Inr)
    case (1 row)
    have row: "0 < esc_amount row" "has_key (esc_account row) (accounts db)"
      using 1(1) assms(2) by (auto simp: escrow_rows_ok_def)
    have "rows_ok (update_row (esc_account row) (unlock (esc_amount row)) (accounts db))"
      using 1(6) assms(3) by (intro rows_ok_update) auto
    with row 1(7) assms(3) show ?thesis
      by (auto simp: moved_def credits_def row_simps intro: rows_intros)
  qed
qed


definition reports :: "string list \<Rightarrow> (string, int) table \<Rightarrow> int option \<Rightarrow> int \<Rightarrow> error + outcome_result \<Rightarrow> bool" where
  "reports vs stakes given_total bond r \<longleftrightarrow> (\<forall>res. r = Inr res \<longrightarrow> or_reward_amount res =
       py_int (rnd (of_int ((case given_total of None \<Rightarrow> total_to_slash vs stakes | Some n \<Rightarrow> n) * REWARD_PERCENT) / 100)) \<and>
       or_bond_returned res = bond \<and> or_verifiers_slashed res = (if stakes = [] then [] else filter (\<lambda>v. 0 < stake_of stakes v) vs))"

definition other_escrows_kept :: "string \<Rightarrow> slash_ledger \<Rightarrow> slash_ledger \<Rightarrow> bool" where
  "other_escrows_kept e db db' \<longleftrightarrow> (\<forall>e'. e' \<noteq> e \<longrightarrow> map_of (escrows db') e' = map_of (escrows db) e')"

lemma upheld_runs:
  assumes "process_upheld has_ledger rules uuid now cid bond ch vs stakes given_total db = (r, db')" and "rows_ok (accounts db)" and "escrow_rows_ok db"
  shows "\<exists>db1 db2. after_slashing db db1 \<and> moved db1 db2 \<and> other_escrows_kept (''challenge_bond_'' @ cid) db1 db2 \<and>
    moved db2 db' \<and> escrows db' = escrows db2 \<and> reports vs stakes given_total bond r"
proof -
  let ?sl = "if vs \<noteq> [] \<and> stakes \<noteq> [] then slash_wrong_verifiers (\<lambda>k. uuid (k + 5)) rules cid now 0 stakes vs [] 0 db
       else (Inr ([], 0), db)"
  obtain r1 db1 where sl: "?sl = (r1, db1)" by (cases ?sl)
  have a: "after_slashing db db1 \<and> (\<forall>s p. r1 = Inr (s, p) \<longrightarrow> s = (if stakes = [] then [] else filter (\<lambda>v. 0 < stake_of stakes v) vs))"
    using sl slash_wrong_verifiers_spec [OF assms(2), of "\<lambda>k. uuid (k + 5)" rules cid now 0 stakes vs "[]" 0 r1 db1]
      after_slashing_refl [OF assms(2)]
    by (cases "vs = []"; cases "stakes = []") auto
  then have rows: "rows_ok (accounts db1)" by (simp add: after_slashing_def)
  have erows: "escrow_rows_ok db1"
    using assms(3) a by (simp add: escrow_rows_ok_def after_slashing_def)
  let ?reward = "py_int (rnd (of_int ((case given_total of None \<Rightarrow> total_to_slash vs stakes | Some n \<Rightarrow> n) * REWARD_PERCENT) / 100))"
  have same: "moved d d" "other_escrows_kept e d d" for d e by (simp_all add: moved_def other_escrows_kept_def)
  have failed: "reports vs stakes given_total bond (Inl e)" for e by (simp add: reports_def)
  have a1: "after_slashing db db1" using a by simp
  show ?thesis
  proof (cases "\<exists>e. r1 = Inl e \<or> \<not> has_ledger")
    case True
    then have "db' = db1 \<and> reports vs stakes given_total bond r"
      using assms(1) a by (cases r1) (auto simp: process_upheld_def Let_def sl reports_def simp del: of_int_mult)
    with a1 same show ?thesis by blast
  next
    case False
    then obtain s p where r1: "r1 = Inr (s, p)" and hl: has_ledger by (cases r1) auto
    let ?rel = "swallow (release_escrow (''challenge_bond_'' @ cid) ch (uuid 0) now) db1"
    let ?tr = "swallow (transfer ''system'' ch ?reward False (uuid 1, uuid 2, uuid 3) now)"
    let ?result = "\<lparr>or_outcome = UPHELD, or_bond_returned = bond, or_bond_slashed = 0,
                   or_reward_amount = ?reward, or_verifiers_slashed = s, or_slash_amount_per_verifier = p\<rparr>"
    have run: "(case ?rel of Inl e \<Rightarrow> (Inl e, db1)
       | Inr db \<Rightarrow> (case ?tr db of Inl e \<Rightarrow> (Inl e, db) | Inr db \<Rightarrow> (Inr ?result, db))) = (r, db')"
      using assms(1) hl by (simp add: process_upheld_def Let_def sl r1 del: of_int_mult)
    have ok: "reports vs stakes given_total bond (Inr ?result)"
      using a r1 by (simp add: reports_def del: of_int_mult)
    show ?thesis
    proof (cases ?rel)
      case (Inl e)
      then have "db' = db1" "r = Inl e" using run by (simp_all del: of_int_mult)
      with a1 same failed show ?thesis by blast
    next
      case (Inr db2)
      then have rel: "moved db1 db2" "rows_ok (accounts db2)" "other_escrows_kept (''challenge_bond_'' @ cid) db1 db2"
        using swallow_release [OF _ erows rows] by (simp_all add: other_escrows_kept_def)
      note rel_eq = Inr
      show ?thesis
      proof (cases "?tr db2")
        case (Inl e)
        then have "db' = db2" "r = Inl e" using run rel_eq by (simp_all del: of_int_mult)
        with a1 rel same failed show ?thesis by blast
      next
        case (Inr db3)
        then have "moved db2 db3 \<and> escrows db3 = escrows db2" using rel(2) by (rule swallow_transfer)
        moreover have "db' = db3" "r = Inr ?result" using run rel_eq Inr by (simp_all del: of_int_mult)
        ultimately show ?thesis using a1 rel ok by blast
      qed
    qed
  qed
qed

text \<open>The percentages of the code are exact.\<close>

lemma reward_exact:
  assumes "0 \<le> t" and "t \<le> 2 ^ 45"
  shows "py_int (rnd (of_int (t * REWARD_PERCENT) / 100)) = t div 5"
proof -
  let ?q = "t div 5"
  have q: "5 * ?q \<le> t" "t \<le> 5 * ?q + 4" "0 \<le> ?q" "?q \<le> 2 ^ 45" using assms by auto
  have x: "(of_int (t * REWARD_PERCENT) / 100 :: rat) = of_int t / 5" by (simp add: REWARD_PERCENT_def)
  have r: "5 * rat_of_int ?q \<le> of_int t" "rat_of_int t \<le> 5 * of_int ?q + 4"
    using of_int_le_iff [of "5 * ?q" t, where ?'a = rat] of_int_le_iff [of t "5 * ?q + 4", where ?'a = rat] q by simp_all
  have low: "of_int ?q \<le> rnd (of_int t / 5)" using r q by (intro rnd_ge_int) simp_all
  have "rnd (of_int t / 5) \<le> rnd (of_int (8 * ?q + 7) * pow2 (- 3))"
    using r by (intro rnd_mono) (simp add: pow2_def)
  also have "\<dots> = of_int (8 * ?q + 7) * pow2 (- 3)"
    using q by (intro rnd_exact [OF refl]) simp
  also have "\<dots> < of_int ?q + 1" by (simp add: pow2_def)
  finally have "\<lfloor>rnd (of_int t / 5)\<rfloor> = ?q" using low by (simp add: floor_eq_iff)
  moreover have "0 \<le> rnd (of_int t / 5)" using low q by (meson of_int_0_le_iff order_trans)
  ultimately show ?thesis unfolding x by (simp add: py_int_def)
qed

text \<open>
  Processing an outcome creates no credits: what the ledger holds afterwards is what it held before
  less the slashed stakes, as logged.  An upheld challenge reports as slashed exactly the verifiers with a positive
  stake and as reward a fifth of the halves of their stakes, rounded down; the other outcomes touch nothing.
\<close>

theorem outcome_creates_no_credits:
  assumes "rows_ok (accounts db)" and "escrow_rows_ok db"
    and "process_outcome has_ledger rules uuid now cid outcome bond ch vs stakes None db = (r, db')"
  shows "credits db' = credits db - burned_since db db' \<and> 0 \<le> burned_since db db' \<and>
    (outcome \<noteq> UPHELD \<longrightarrow> db' = db) \<and>
    (\<forall>res. outcome = UPHELD \<longrightarrow> r = Inr res \<longrightarrow> (\<forall>v. 0 \<le> stake_of stakes v) \<longrightarrow> total_to_slash vs stakes \<le> 2 ^ 45 \<longrightarrow> stakes \<noteq> [] \<longrightarrow>
       or_verifiers_slashed res = filter (\<lambda>v. 0 < stake_of stakes v) vs \<and>
       or_reward_amount res = (\<Sum>v\<leftarrow>vs. stake_of stakes v div 2) div 5)"
proof (cases outcome)
  case UPHELD
  then have "process_upheld has_ledger rules uuid now cid bond ch vs stakes None db = (r, db')"
    using assms(3) by (simp add: process_outcome_def)
  from upheld_runs [OF this assms(1,2)] obtain db1 db2 where u: "after_slashing db db1" "moved db1 db2" "moved db2 db'"
      and rep: "reports vs stakes None bond r" by blast
    have b: "burned_since db db' = burned_since db db1"
      using u by (simp add: burned_since_def moved_def)
    have half: "(n * 50) div 100 = n div 2" for n :: int by linarith
    have t: "total_to_slash vs stakes = (\<Sum>v\<leftarrow>vs. stake_of stakes v div 2)" if "stakes \<noteq> []"
      using that by (simp add: total_to_slash_def VERIFIER_SLASH_PERCENT_def half)
    have "0 \<le> (\<Sum>v\<leftarrow>vs. stake_of stakes v div 2)" if "\<forall>v. 0 \<le> stake_of stakes v"
      using that by (intro sum_list_nonneg_int) simp
    then have "\<forall>res. r = Inr res \<longrightarrow> (\<forall>v. 0 \<le> stake_of stakes v) \<longrightarrow> total_to_slash vs stakes \<le> 2 ^ 45 \<longrightarrow> stakes \<noteq> [] \<longrightarrow>
       or_verifiers_slashed res = filter (\<lambda>v. 0 < stake_of stakes v) vs \<and>
       or_reward_amount res = (\<Sum>v\<leftarrow>vs. stake_of stakes v div 2) div 5"
      using rep t reward_exact [of "total_to_slash vs stakes"] by (auto simp: reports_def simp del: of_int_mult)
    with u b show ?thesis by (simp add: after_slashing_def moved_def UPHELD)
qed (use assms(3) in \<open>auto simp: process_outcome_def process_rejected_def process_withdrawn_def burned_since_def Let_def\<close>)

text \<open>
  Claim C25.  The bond of a challenge submitted through the handler is never given back by its outcome, whatever
  that is: the handler names the escrow after one fresh identifier and the challenge after another, while the
  outcome looks for an escrow named after the challenge; so after the outcome the bond is still in its
  unreleased escrow.
\<close>

theorem bond_never_returned:
  assumes "handle_challenge clock uuid env st = Inr st'" and "st_challenge_queue st' = st_challenge_queue st @ [c]"
    and "st_ledger st = Some db" and "st_ledger st' = Some db'" and "uuid 0 \<noteq> uuid 2"
    and "rows_ok (accounts db')" and "escrow_rows_ok db'"
  shows "\<exists>row. map_of (escrows (snd (process_outcome has_ledger rules uuid' now (cr_challenge_id c) outcome
      (cr_bond_amount c) (cr_challenger_id c) vs stakes given_total db'))) (cr_escrow_id c) = Some row \<and>
    \<not> esc_released row \<and> esc_account row = cr_challenger_id c \<and> esc_amount row = cr_bond_amount c"
  using assms(1)
proof (cases rule: handle_challenge_cases)
  case (accepted task_id commit_id ptype h cpx bond r)
  have c: "r = c" using accepted(9) assms(2) by simp
  have id: "cr_escrow_id c \<noteq> ''challenge_bond_'' @ cr_challenge_id c"
    using accepted(6,7) assms(5) by (simp add: c)
  obtain u where "escrow (ce_sender_pk_b64 env) bond (cr_escrow_id r) (uuid 1) (clock 5) db = Inr (u, db')"
    using accepted(12) assms(3,4) by (auto simp: escrow_bond_def split: sum.splits if_splits)
  from escrow_Inr [OF this] obtain row where row: "map_of (escrows db') (cr_escrow_id c) = Some row" "\<not> esc_released row"
      "esc_account row = cr_challenger_id c" "esc_amount row = cr_bond_amount c"
    using accepted(3,5) by (auto simp: c has_key_def)
  show ?thesis
  proof (cases outcome)
    case UPHELD
    obtain res db3 where p: "process_upheld has_ledger rules uuid' now (cr_challenge_id c) (cr_bond_amount c) (cr_challenger_id c) vs stakes given_total db' = (res, db3)"
      by fastforce
    from upheld_runs [OF p assms(6,7)] id have "map_of (escrows db3) (cr_escrow_id c) = map_of (escrows db') (cr_escrow_id c)"
      by (auto simp: after_slashing_def other_escrows_kept_def)
    with row p show ?thesis by (simp add: process_outcome_def UPHELD)
  qed (use row in \<open>auto simp: process_outcome_def process_rejected_def process_withdrawn_def Let_def\<close>)
qed (use assms(2) in simp)


section \<open>Concrete runs\<close>

definition demo_challenge_env :: challenge_envelope where
  "demo_challenge_env = \<lparr>ce_thread_id = ''th'', ce_payload = \<lparr>cp_task_id = Some ''t'', cp_commit_id = Some ''c'',
     cp_proof_type = Some ''MISSING_CITATION'', cp_evidence_hash = Some (replicate 64 (CHR ''0'')), cp_complexity = ''MODERATE'',
     cp_size_bytes = 100, cp_gas_estimate = 5000\<rparr>, ce_sender_pk_b64 = ''h'', ce_lamport = 7\<rparr>"

definition challenge_ledger :: slash_ledger where
  "challenge_ledger = init_slash_ledger\<lparr>accounts :=
     [(''v'', \<lparr>balance = 0, locked = 1001, unbonding = 0\<rparr>), (''h'', \<lparr>balance = 60, locked = 0, unbonding = 0\<rparr>)]\<rparr>"

definition demo_challenge_state :: challenge_state where
  "demo_challenge_state = \<lparr>st_abuse_detector = [], st_challenge_window = no_windows\<lparr>windows := [(''t'', demo_window)]\<rparr>,
     st_ledger = Some challenge_ledger, st_challenge_queue = []\<rparr>"

definition demo_clock :: "nat \<Rightarrow> int" where
  "demo_clock k = 1700000000000000000 + int k"

definition demo_ids :: "nat \<Rightarrow> string" where
  "demo_ids k = replicate (Suc k) (CHR ''i'')"

definition after_demo :: "error + challenge_state" where
  "after_demo = handle_challenge demo_clock demo_ids demo_challenge_env demo_challenge_state"

lemma after_demo_eval:
  "case after_demo of Inl e \<Rightarrow> False
   | Inr st' \<Rightarrow> (case (st_challenge_queue st', st_ledger st') of
       ([r], Some db') \<Rightarrow> cr_bond_amount r = 50 \<and> cr_challenger_id r = ''h'' \<and> get_balance ''h'' db' = 10 \<and>
         map fst (escrows db') = [cr_escrow_id r] \<and> map (esc_amount \<circ> snd) (escrows db') = [50] \<and>
         accounts db' = [(''v'', \<lparr>balance = 0, locked = 1001, unbonding = 0\<rparr>), (''h'', \<lparr>balance = 10, locked = 50, unbonding = 0\<rparr>)] \<and>
         map (esc_account \<circ> snd) (escrows db') = [''h'']
     | _ \<Rightarrow> False)"
  by code_simp

lemma after_demo_runs:
  obtains st' r db' where "after_demo = Inr st'" "st_challenge_queue st' = [r]" "st_ledger st' = Some db'"
    "rows_ok (accounts db')" "escrow_rows_ok db'"
proof -
  from after_demo_eval obtain st' r db' where st': "after_demo = Inr st'" "st_challenge_queue st' = [r]" "st_ledger st' = Some db'"
      and acc: "accounts db' = [(''v'', \<lparr>balance = 0, locked = 1001, unbonding = 0\<rparr>), (''h'', \<lparr>balance = 10, locked = 50, unbonding = 0\<rparr>)]"
      and esc: "map fst (escrows db') = [cr_escrow_id r]" "map (esc_amount \<circ> snd) (escrows db') = [50]" "map (esc_account \<circ> snd) (escrows db') = [''h'']"
    by (auto split: sum.splits list.splits option.splits)
  have "rows_ok (accounts db')"
    by (simp add: acc rows_ok_def keyed_def check_row_def)
  moreover have "escrow_rows_ok db'"
    using esc by (cases "escrows db'") (auto simp: escrow_rows_ok_def keyed_def acc has_key_def)
  ultimately show thesis using that st' by blast
qed

theorem challenge_queued_with_bond_witness:
  "\<exists>st' db'. handle_challenge demo_clock demo_ids demo_challenge_env demo_challenge_state = Inr st' \<and>
     st_ledger st' = Some db' \<and> get_balance ''h'' db' = 10 \<and> credits db' = credits challenge_ledger"
proof -
  obtain st' r db' where r: "after_demo = Inr st'" "st_challenge_queue st' = [r]" "st_ledger st' = Some db'"
    by (rule after_demo_runs)
  have rows: "rows_ok (accounts challenge_ledger)"
    by (simp add: challenge_ledger_def rows_ok_def keyed_def check_row_def)
  have led: "st_ledger demo_challenge_state = Some challenge_ledger" "st_challenge_queue demo_challenge_state = []"
    by (simp_all add: demo_challenge_state_def)
  have "get_balance ''h'' db' = 10" using after_demo_eval unfolding r(1) by (simp add: r(2,3))
  moreover have "\<forall>db. st_ledger demo_challenge_state = Some db \<longrightarrow> rows_ok (accounts db)"
    using led rows by simp
  ultimately show ?thesis
    using challenge_queued_with_bond [OF r(1) [unfolded after_demo_def]] r led
    by (auto simp: after_demo_def bond_locked_def)
qed

theorem bond_never_returned_witness:
  "\<exists>st' c db'. handle_challenge demo_clock demo_ids demo_challenge_env demo_challenge_state = Inr st' \<and>
     st_challenge_queue st' = [c] \<and> st_ledger st' = Some db' \<and>
     (\<exists>row. map_of (escrows (snd (process_outcome True True (\<lambda>k. demo_ids (k + 10)) 5 (cr_challenge_id c) UPHELD
      (cr_bond_amount c) (cr_challenger_id c) [''v''] [(''v'', 1001)] None db'))) (cr_escrow_id c) = Some row \<and>
      \<not> esc_released row \<and> esc_amount row = cr_bond_amount c)"
proof -
  obtain st' r db' where r: "after_demo = Inr st'" "st_challenge_queue st' = [r]" "st_ledger st' = Some db'"
      "rows_ok (accounts db')" "escrow_rows_ok db'"
    by (rule after_demo_runs)
  have led: "st_ledger demo_challenge_state = Some challenge_ledger" and q: "st_challenge_queue st' = st_challenge_queue demo_challenge_state @ [r]"
    using r(2) by (simp_all add: demo_challenge_state_def)
  have ids: "demo_ids 0 \<noteq> demo_ids 2" by code_simp
  from bond_never_returned [OF r(1) [unfolded after_demo_def] q led r(3) ids r(4,5)] r show ?thesis
    unfolding after_demo_def by blast
qed

lemma reward_eval:
  "case fst (process_outcome True True demo_ids 5 ''c1'' UPHELD 50 ''h'' [''v''] [(''v'', 1001)] None challenge_ledger) of
     Inl e \<Rightarrow> False | Inr r \<Rightarrow> or_reward_amount r = 100"
  by code_simp

theorem outcome_creates_no_credits_witness:
  "\<exists>r db'. process_outcome True True demo_ids 5 ''c1'' UPHELD 50 ''h'' [''v''] [(''v'', 1001)] None challenge_ledger = (Inr r, db') \<and>
     or_reward_amount r = 100 \<and> credits db' = credits challenge_ledger - burned_since challenge_ledger db'"
proof -
  have rows: "rows_ok (accounts challenge_ledger)" "escrow_rows_ok challenge_ledger"
    by (simp_all add: challenge_ledger_def rows_ok_def keyed_def check_row_def escrow_rows_ok_def
        init_slash_ledger_def init_stake_ledger_def ledger.defs stake_ledger.defs slash_ledger.defs init_ledger_def)
  obtain res db' where p: "process_outcome True True demo_ids 5 ''c1'' UPHELD 50 ''h'' [''v''] [(''v'', 1001)] None challenge_ledger = (res, db')"
    by fastforce
  have "case res of Inl e \<Rightarrow> False | Inr r \<Rightarrow> or_reward_amount r = 100"
    using reward_eval by (simp add: p)
  with outcome_creates_no_credits [OF rows p] p show ?thesis by (auto split: sum.splits)
qed

end
