(* ===== verification/Safety.thy ===== *)
theory Safety
  imports Tables PyFloat PyString
begin

text \<open>
  The safety mechanisms of the marketplace (\<open>marketplace/circuit_breaker.py\<close>): the circuit
  breaker, the emergency stop and the sliding-window rate limiter.  Clock readings are arguments:
  \<open>datetime.now()\<close> in microseconds as an \<open>int\<close>, \<open>time.time()\<close> in seconds as a float.
\<close>

section \<open>Circuit breaker\<close>

datatype circuit_state = CLOSED | OPEN | HALF_OPEN

record circuit_breaker_event =
  cbe_timestamp :: int
  cbe_reason :: string
  cbe_metric :: "string option"
  cbe_value :: "pyfloat option"
  cbe_threshold :: "pyfloat option"

record circuit_breaker =
  cb_failure_threshold :: int
  cb_recovery_timeout :: int
  cb_half_open_max_calls :: int
  cb_state :: circuit_state
  cb_failure_count :: int
  cb_last_failure_time :: "int option"
  cb_trip_time :: "int option"
  cb_half_open_calls :: int
  cb_events :: "circuit_breaker_event list"

definition new_breaker :: "int \<Rightarrow> int \<Rightarrow> int \<Rightarrow> circuit_breaker" where
  "new_breaker failure_threshold recovery_timeout half_open_max_calls =
     \<lparr>cb_failure_threshold = failure_threshold, cb_recovery_timeout = recovery_timeout * 1000000,
      cb_half_open_max_calls = half_open_max_calls, cb_state = CLOSED, cb_failure_count = 0,
      cb_last_failure_time = None, cb_trip_time = None, cb_half_open_calls = 0, cb_events = []\<rparr>"

definition trip_circuit :: "string \<Rightarrow> int \<Rightarrow> circuit_breaker \<Rightarrow> circuit_breaker" where
  "trip_circuit reason now cb =
     cb\<lparr>cb_state := OPEN, cb_trip_time := Some now, cb_events := cb_events cb @
       [\<lparr>cbe_timestamp = now, cbe_reason = reason, cbe_metric = None, cbe_value = None, cbe_threshold = None\<rparr>]\<rparr>"

definition reset_breaker :: "circuit_breaker \<Rightarrow> circuit_breaker" where
  "reset_breaker cb =
     cb\<lparr>cb_state := CLOSED, cb_failure_count := 0, cb_half_open_calls := 0, cb_last_failure_time := None, cb_trip_time := None\<rparr>"

definition record_failure :: "string \<Rightarrow> pyfloat \<Rightarrow> pyfloat \<Rightarrow> int \<Rightarrow> int \<Rightarrow> circuit_breaker \<Rightarrow> circuit_breaker" where
  "record_failure metric val threshold now later cb =
     (let cb = cb\<lparr>cb_failure_count := cb_failure_count cb + 1, cb_last_failure_time := Some now,
            cb_events := cb_events cb @
              [\<lparr>cbe_timestamp = now, cbe_reason = ''Metric '' @ metric @ '' exceeded threshold'',
                cbe_metric = Some metric, cbe_value = Some val, cbe_threshold = Some threshold\<rparr>]\<rparr>
      in if cb_state cb = HALF_OPEN then trip_circuit (''Failure during recovery test: '' @ metric) later cb
         else if cb_failure_count cb \<ge> cb_failure_threshold cb
         then trip_circuit (''Failure threshold reached: '' @ metric) later cb
         else cb)"

definition record_success :: "circuit_breaker \<Rightarrow> circuit_breaker" where
  "record_success cb =
     (case cb_state cb of
        HALF_OPEN \<Rightarrow>
          let cb = cb\<lparr>cb_half_open_calls := cb_half_open_calls cb + 1\<rparr> in
          if cb_half_open_calls cb \<ge> cb_half_open_max_calls cb then reset_breaker cb else cb
      | CLOSED \<Rightarrow>
          if cb_failure_count cb > 0 then cb\<lparr>cb_failure_count := max 0 (cb_failure_count cb - 1)\<rparr> else cb
      | OPEN \<Rightarrow> cb)"

definition check_anomaly :: "string \<Rightarrow> pyfloat \<Rightarrow> pyfloat \<Rightarrow> int \<Rightarrow> int \<Rightarrow> circuit_breaker \<Rightarrow> bool \<times> circuit_breaker" where
  "check_anomaly metric val threshold now later cb =
     (if val > threshold then (True, record_failure metric val threshold now later cb)
      else (False, record_success cb))"

definition trigger_breaker :: "string \<Rightarrow> int \<Rightarrow> circuit_breaker \<Rightarrow> circuit_breaker" where
  "trigger_breaker reason now cb = trip_circuit reason now cb"

definition recovered :: "int \<Rightarrow> circuit_breaker \<Rightarrow> bool" where
  "recovered now cb \<longleftrightarrow> (case cb_trip_time cb of None \<Rightarrow> False | Some t \<Rightarrow> now - t \<ge> cb_recovery_timeout cb)"

definition breaker_is_open :: "int \<Rightarrow> circuit_breaker \<Rightarrow> bool \<times> circuit_breaker" where
  "breaker_is_open now cb =
     (if cb_state cb = OPEN then
        (if recovered now cb then (False, cb\<lparr>cb_state := HALF_OPEN, cb_half_open_calls := 0\<rparr>) else (True, cb))
      else (False, cb))"

definition call_allowed :: "int \<Rightarrow> circuit_breaker \<Rightarrow> bool \<times> circuit_breaker" where
  "call_allowed now cb =
     (case cb_state cb of
        CLOSED \<Rightarrow> (True, cb)
      | OPEN \<Rightarrow>
          if recovered now cb then (True, cb\<lparr>cb_state := HALF_OPEN, cb_half_open_calls := 0\<rparr>) else (False, cb)
      | HALF_OPEN \<Rightarrow>
          if cb_half_open_calls cb < cb_half_open_max_calls cb
          then (True, cb\<lparr>cb_half_open_calls := cb_half_open_calls cb + 1\<rparr>) else (False, cb))"

definition get_state :: "int \<Rightarrow> circuit_breaker \<Rightarrow> circuit_state \<times> circuit_breaker" where
  "get_state now cb = (let cb = snd (breaker_is_open now cb) in (cb_state cb, cb))"

text \<open>\<open>events[-limit:]\<close>; a limit of None or 0 gives them all, a negative one drops the first ones.\<close>

definition get_events :: "int option \<Rightarrow> circuit_breaker \<Rightarrow> circuit_breaker_event list" where
  "get_events limit cb =
     (case limit of
        None \<Rightarrow> cb_events cb
      | Some n \<Rightarrow> if n = 0 then cb_events cb
                 else if n > 0 then drop (length (cb_events cb) - nat n) (cb_events cb)
                 else drop (nat (- n)) (cb_events cb))"

section \<open>Emergency stop\<close>

record emergency_stop =
  es_paused :: bool
  es_pause_reason :: "string option"
  es_pause_time :: "int option"
  es_resume_time :: "int option"
  es_pause_history :: "(string option \<times> int option \<times> int) list"

datatype safety_error = AlreadyPaused | NotPaused | PauseTimeMissing

definition running_system :: emergency_stop where
  "running_system = \<lparr>es_paused = False, es_pause_reason = None, es_pause_time = None, es_resume_time = None, es_pause_history = []\<rparr>"

definition pause_system :: "string \<Rightarrow> int \<Rightarrow> emergency_stop \<Rightarrow> safety_error + emergency_stop" where
  "pause_system reason now es =
     (if es_paused es then Inl AlreadyPaused
      else Inr (es\<lparr>es_paused := True, es_pause_reason := Some reason, es_pause_time := Some now, es_resume_time := None\<rparr>))"

text \<open>A history entry: reason, pause time and resume time; the duration is their difference, a
  TypeError without a pause time.\<close>

definition resume_system :: "int \<Rightarrow> emergency_stop \<Rightarrow> safety_error + emergency_stop" where
  "resume_system now es =
     (if \<not> es_paused es then Inl NotPaused
      else if es_pause_time es = None then Inl PauseTimeMissing
      else Inr (es\<lparr>es_resume_time := Some now,
             es_pause_history := es_pause_history es @ [(es_pause_reason es, es_pause_time es, now)],
             es_paused := False, es_pause_reason := None, es_pause_time := None\<rparr>))"

section \<open>Rate limiter\<close>

record rate_limiter =
  rl_limit_per_agent :: int
  rl_window_seconds :: int
  rl_entries :: "(string, pyfloat list) table"
  rl_blocked_agents :: "(string, pyfloat) table"

definition new_limiter :: "int \<Rightarrow> int \<Rightarrow> rate_limiter" where
  "new_limiter limit_per_agent window_hours =
     \<lparr>rl_limit_per_agent = limit_per_agent, rl_window_seconds = window_hours * 3600, rl_entries = [], rl_blocked_agents = []\<rparr>"

definition request_times :: "string \<Rightarrow> rate_limiter \<Rightarrow> pyfloat list" where
  "request_times a rl = (case map_of (rl_entries rl) a of None \<Rightarrow> [] | Some ts \<Rightarrow> ts)"

definition in_limit_window :: "rate_limiter \<Rightarrow> pyfloat \<Rightarrow> pyfloat \<Rightarrow> bool" where
  "in_limit_window rl now t \<longleftrightarrow> t > fsub now (to_float (rl_window_seconds rl))"

text \<open>The part of \<open>check_rate\<close> after the test for a block.\<close>

definition count_request :: "string \<Rightarrow> pyfloat \<Rightarrow> rate_limiter \<Rightarrow> bool \<times> rate_limiter" where
  "count_request agent_id current_time rl =
     (let ts = filter (in_limit_window rl current_time) (request_times agent_id rl) in
      if int (length ts) < rl_limit_per_agent rl
      then (True, rl\<lparr>rl_entries := AList.update agent_id (ts @ [current_time]) (rl_entries rl)\<rparr>)
      else (False, rl\<lparr>rl_entries := AList.update agent_id ts (rl_entries rl)\<rparr>))"

definition check_rate :: "string \<Rightarrow> pyfloat \<Rightarrow> rate_limiter \<Rightarrow> bool \<times> rate_limiter" where
  "check_rate agent_id current_time rl =
     (case map_of (rl_blocked_agents rl) agent_id of
        None \<Rightarrow> count_request agent_id current_time rl
      | Some until \<Rightarrow>
          if current_time < until then (False, rl)
          else count_request agent_id current_time (rl\<lparr>rl_blocked_agents := AList.delete agent_id (rl_blocked_agents rl)\<rparr>))"

definition record_request :: "string \<Rightarrow> pyfloat \<Rightarrow> rate_limiter \<Rightarrow> rate_limiter" where
  "record_request agent_id current_time rl =
     rl\<lparr>rl_entries := AList.update agent_id (request_times agent_id rl @ [current_time]) (rl_entries rl)\<rparr>"

definition get_remaining :: "string \<Rightarrow> pyfloat \<Rightarrow> rate_limiter \<Rightarrow> int" where
  "get_remaining agent_id current_time rl =
     (if \<not> has_key agent_id (rl_entries rl) then rl_limit_per_agent rl
      else max 0 (rl_limit_per_agent rl - int (length (filter (in_limit_window rl current_time) (request_times agent_id rl)))))"

definition reset_agent :: "string \<Rightarrow> rate_limiter \<Rightarrow> rate_limiter" where
  "reset_agent agent_id rl =
     rl\<lparr>rl_entries := (if has_key agent_id (rl_entries rl) then AList.update agent_id [] (rl_entries rl) else rl_entries rl),
        rl_blocked_agents := AList.delete agent_id (rl_blocked_agents rl)\<rparr>"

definition block_agent :: "string \<Rightarrow> int \<Rightarrow> pyfloat \<Rightarrow> rate_limiter \<Rightarrow> rate_limiter" where
  "block_agent agent_id duration_seconds now rl =
     rl\<lparr>rl_blocked_agents := AList.update agent_id (fadd now (to_float duration_seconds)) (rl_blocked_agents rl)\<rparr>"

definition is_blocked :: "string \<Rightarrow> pyfloat \<Rightarrow> rate_limiter \<Rightarrow> bool \<times> rate_limiter" where
  "is_blocked agent_id current_time rl =
     (case map_of (rl_blocked_agents rl) agent_id of
        None \<Rightarrow> (False, rl)
      | Some until \<Rightarrow>
          if current_time \<ge> until then (False, rl\<lparr>rl_blocked_agents := AList.delete agent_id (rl_blocked_agents rl)\<rparr>)
          else (True, rl))"

record rate_stats =
  rs_requests_in_window :: int
  rs_remaining :: int
  rs_limit :: int
  rs_blocked :: bool

definition get_stats :: "string \<Rightarrow> pyfloat \<Rightarrow> pyfloat \<Rightarrow> rate_limiter \<Rightarrow> rate_stats \<times> rate_limiter" where
  "get_stats agent_id current_time later rl =
     (if \<not> has_key agent_id (rl_entries rl)
      then (\<lparr>rs_requests_in_window = 0, rs_remaining = rl_limit_per_agent rl, rs_limit = rl_limit_per_agent rl, rs_blocked = False\<rparr>, rl)
      else
        let n = int (length (filter (in_limit_window rl current_time) (request_times agent_id rl)));
            (blocked, rl') = is_blocked agent_id later rl
        in (\<lparr>rs_requests_in_window = n, rs_remaining = max 0 (rl_limit_per_agent rl - n), rs_limit = rl_limit_per_agent rl,
              rs_blocked = blocked\<rparr>, rl'))"

end
