(* ===== verification/SafetyProps.thy ===== *)
theory SafetyProps
  imports Safety "HOL-Library.Sublist"
begin

text \<open>
  Correctness of the safety mechanisms: when the circuit breaker trips, that it blocks until the timeout, how many
  probes it admits, and that the rate limiter keeps every window within its limit.
\<close>

section \<open>The breaker as a machine\<close>

datatype breaker_cmd =
    Check string pyfloat pyfloat int int
  | Trigger string int
  | Reset
  | IsOpen int
  | Call int

fun breaker_step :: "breaker_cmd \<Rightarrow> circuit_breaker \<Rightarrow> bool \<times> circuit_breaker" where
  "breaker_step (Check m v th now later) cb = check_anomaly m v th now later cb"
| "breaker_step (Trigger r now) cb = (True, trigger_breaker r now cb)"
| "breaker_step Reset cb = (True, reset_breaker cb)"
| "breaker_step (IsOpen now) cb = breaker_is_open now cb"
| "breaker_step (Call now) cb = call_allowed now cb"

fun breaker_run :: "breaker_cmd list \<Rightarrow> circuit_breaker \<Rightarrow> (breaker_cmd \<times> bool) list \<times> circuit_breaker" where
  "breaker_run [] cb = ([], cb)"
| "breaker_run (c # cs) cb =
     (let (b, cb') = breaker_step c cb; (rs, cb'') = breaker_run cs cb' in ((c, b) # rs, cb''))"

fun clock_of :: "breaker_cmd \<Rightarrow> int list" where
  "clock_of (Check m v th now later) = [now, later]"
| "clock_of (Trigger r now) = [now]"
| "clock_of Reset = []"
| "clock_of (IsOpen now) = [now]"
| "clock_of (Call now) = [now]"

lemmas breaker_defs = check_anomaly_def record_failure_def record_success_def trip_circuit_def trigger_breaker_def
  reset_breaker_def breaker_is_open_def call_allowed_def recovered_def

section \<open>An open circuit blocks\<close>

definition blocked_between :: "int \<Rightarrow> int \<Rightarrow> circuit_breaker \<Rightarrow> bool" where
  "blocked_between t0 t1 cb \<longleftrightarrow> cb_state cb = OPEN \<and>
     (\<exists>t. cb_trip_time cb = Some t \<and> t0 \<le> t \<and> t1 \<le> t + cb_recovery_timeout cb)"

lemma blocked_step:
  assumes "blocked_between t0 t1 cb" and "c \<noteq> Reset" and "\<forall>t \<in> set (clock_of c). t0 \<le> t \<and> t < t1"
    and "t1 \<le> t0 + cb_recovery_timeout cb"
  shows "blocked_between t0 t1 (snd (breaker_step c cb)) \<and> cb_recovery_timeout (snd (breaker_step c cb)) = cb_recovery_timeout cb \<and>
    (\<forall>now. c = Call now \<longrightarrow> \<not> fst (breaker_step c cb))"
  using assms by (cases c) (auto simp: blocked_between_def breaker_defs Let_def)

lemma blocked_run:
  assumes "blocked_between t0 t1 cb" and "Reset \<notin> set cs" and "\<forall>c \<in> set cs. \<forall>t \<in> set (clock_of c). t0 \<le> t \<and> t < t1"
    and "t1 \<le> t0 + cb_recovery_timeout cb"
  shows "cb_state (snd (breaker_run cs cb)) = OPEN \<and> (\<forall>now b. (Call now, b) \<in> set (fst (breaker_run cs cb)) \<longrightarrow> \<not> b)"
  using assms
proof (induction cs arbitrary: cb)
  case (Cons c cs)
  have st: "blocked_between t0 t1 (snd (breaker_step c cb))"
    "cb_recovery_timeout (snd (breaker_step c cb)) = cb_recovery_timeout cb"
    "\<forall>now. c = Call now \<longrightarrow> \<not> fst (breaker_step c cb)"
    using blocked_step [of t0 t1 cb c] Cons.prems by auto
  with Cons.IH [OF st(1)] Cons.prems show ?case by (auto simp: split_def Let_def)
qed (simp add: blocked_between_def)

text \<open>
  When the circuit breaker trips, every call is refused until the recovery timeout has passed, whatever
  else happens to it in the meantime short of a manual reset: further failures, successes, triggers and queries.
\<close>

theorem open_circuit_blocks:
  assumes "cb_state cb = OPEN" and "cb_trip_time cb = Some t"
    and "Reset \<notin> set cs" and "\<forall>c \<in> set cs. \<forall>now \<in> set (clock_of c). t \<le> now \<and> now < t + cb_recovery_timeout cb"
  shows "cb_state (snd (breaker_run cs cb)) = OPEN \<and> (\<forall>now b. (Call now, b) \<in> set (fst (breaker_run cs cb)) \<longrightarrow> \<not> b)"
  by (rule blocked_run [of t "t + cb_recovery_timeout cb"]) (use assms in \<open>auto simp: blocked_between_def\<close>)

definition demo_tripped :: circuit_breaker where
  "demo_tripped = trigger_breaker ''manual'' 1000 (new_breaker 5 60 3)"

theorem open_circuit_blocks_witness:
  "map snd (fst (breaker_run [Call 2000, Check ''m'' 1 2 3000 3000, Call 60000999] demo_tripped)) = [False, False, False] \<and>
   cb_state (snd (breaker_run [Call 2000, Check ''m'' 1 2 3000 3000, Call 60000999] demo_tripped)) = OPEN"
proof -
  let ?cs = "[Call 2000, Check ''m'' 1 2 3000 3000, Call 60000999]"
  have "cb_state demo_tripped = OPEN" "cb_trip_time demo_tripped = Some 1000" "cb_recovery_timeout demo_tripped = 60000000"
    by (simp_all add: demo_tripped_def new_breaker_def breaker_defs)
  then have "cb_state (snd (breaker_run ?cs demo_tripped)) = OPEN"
    using open_circuit_blocks [of demo_tripped 1000 ?cs] by simp
  moreover have "map snd (fst (breaker_run ?cs demo_tripped)) = [False, False, False]" by code_simp
  ultimately show ?thesis by blast
qed

section \<open>When the circuit trips\<close>

text \<open>Checks between which nothing else happens; a check is seen here as whether it is an anomaly.\<close>

definition anomaly :: "breaker_cmd \<Rightarrow> bool" where
  "anomaly c = (case c of Check m v th now later \<Rightarrow> v > th | _ \<Rightarrow> False)"

definition excess :: "breaker_cmd list \<Rightarrow> int" where
  "excess cs = (\<Sum>c\<leftarrow>cs. if anomaly c then 1 else -1)"

definition is_check :: "breaker_cmd \<Rightarrow> bool" where
  "is_check c = (case c of Check m v th now later \<Rightarrow> True | _ \<Rightarrow> False)"

definition counts :: "breaker_cmd list \<Rightarrow> int \<Rightarrow> bool" where
  "counts cs n \<longleftrightarrow> (\<forall>s. suffix s cs \<longrightarrow> excess s \<le> n) \<and> (\<exists>s. suffix s cs \<and> excess s = n)"

lemma counts_Nil: "counts [] n \<longleftrightarrow> n = 0"
  by (auto simp: counts_def excess_def)

lemma excess_snoc: "excess (s @ [c]) = excess s + (if anomaly c then 1 else -1)"
  by (simp add: excess_def)

lemma counts_snoc:
  assumes "counts cs n"
  shows "counts (cs @ [c]) (if anomaly c then n + 1 else max 0 (n - 1))"
proof -
  obtain s where s: "suffix s cs" "excess s = n" and le: "\<And>s. suffix s cs \<Longrightarrow> excess s \<le> n"
    using assms by (auto simp: counts_def)
  have n: "0 \<le> n" using le [of "[]"] by (simp add: excess_def)
  have suf: "suffix x (cs @ [c]) \<longleftrightarrow> x = [] \<or> (\<exists>y. x = y @ [c] \<and> suffix y cs)" for x
    by (simp add: suffix_snoc)
  have "excess x \<le> (if anomaly c then n + 1 else max 0 (n - 1))" if "suffix x (cs @ [c])" for x
  proof (cases "x = []")
    case True
    with n show ?thesis by (simp add: excess_def)
  next
    case False
    with that suf obtain y where "x = y @ [c]" "suffix y cs" by auto
    with le [of y] show ?thesis by (auto simp: excess_snoc)
  qed
  moreover have "suffix (s @ [c]) (cs @ [c])" "excess (s @ [c]) = (if anomaly c then n + 1 else n - 1)"
    using s by (simp_all add: suf excess_snoc)
  moreover have "suffix [] (cs @ [c])" "excess [] = 0" by (simp_all add: excess_def)
  ultimately show ?thesis
    unfolding counts_def by (metis (no_types, opaque_lifting) max_def)
qed

lemma counts_nonneg: "counts cs n \<Longrightarrow> 0 \<le> n"
  by (auto simp: counts_def excess_def dest: spec [of _ "[]"])

definition peaks :: "int \<Rightarrow> breaker_cmd list \<Rightarrow> bool" where
  "peaks k cs \<longleftrightarrow> (\<exists>s. sublist s cs \<and> k \<le> excess s)"

lemma sublist_snoc_iff: "sublist s (cs @ [c]) \<longleftrightarrow> sublist s cs \<or> suffix s (cs @ [c])"
proof -
  have "sublist s (cs @ [c]) \<longleftrightarrow> sublist (rev s) (c # rev cs)"
    by (metis rev_append rev.simps(2) rev_singleton_conv sublist_rev append_Cons append_Nil)
  also have "\<dots> \<longleftrightarrow> prefix (rev s) (c # rev cs) \<or> sublist (rev s) (rev cs)"
    by (rule sublist_Cons_right)
  also have "\<dots> \<longleftrightarrow> suffix s (cs @ [c]) \<or> sublist s cs"
    by (simp add: suffix_to_prefix)
  finally show ?thesis by blast
qed

lemma peaks_snoc: "counts (cs @ [c]) n \<Longrightarrow> peaks k (cs @ [c]) \<longleftrightarrow> peaks k cs \<or> k \<le> n"
  unfolding peaks_def sublist_snoc_iff counts_def by (meson order_trans)

definition breaker_after :: "breaker_cmd list \<Rightarrow> circuit_breaker \<Rightarrow> circuit_breaker" where
  "breaker_after cs cb = snd (breaker_run cs cb)"

lemma breaker_after_snoc: "breaker_after (cs @ [c]) cb = snd (breaker_step c (breaker_after cs cb))"
  by (induction cs arbitrary: cb) (auto simp: breaker_after_def split_def Let_def)

lemma breaker_after_checks:
  fixes timeout probes :: int
  assumes "list_all is_check cs" and "0 < k"
  defines "cb \<equiv> breaker_after cs (new_breaker k timeout probes)"
  shows "cb_failure_threshold cb = k \<and> cb_state cb \<noteq> HALF_OPEN \<and> (cb_state cb = OPEN \<longleftrightarrow> peaks k cs) \<and>
    (cb_state cb = CLOSED \<longrightarrow> counts cs (cb_failure_count cb) \<and> cb_failure_count cb < k) \<and>
    (cb_state cb = OPEN \<longrightarrow> k \<le> cb_failure_count cb)"
  using assms(1) unfolding cb_def
proof (induction cs rule: rev_induct)
  case Nil
  have "excess [] = 0" by (simp add: excess_def)
  with assms(2) show ?case
    by (simp add: breaker_after_def new_breaker_def peaks_def counts_Nil)
next
  case (snoc c cs)
  let ?b = "breaker_after cs (new_breaker k timeout probes)"
  have IH: "cb_failure_threshold ?b = k" "cb_state ?b \<noteq> HALF_OPEN" "cb_state ?b = OPEN \<longleftrightarrow> peaks k cs"
    "cb_state ?b = CLOSED \<longrightarrow> counts cs (cb_failure_count ?b) \<and> cb_failure_count ?b < k" "cb_state ?b = OPEN \<longrightarrow> k \<le> cb_failure_count ?b"
    using snoc by auto
  obtain m v th now later where c: "c = Check m v th now later"
    using snoc.prems by (cases c) (auto simp: is_check_def)
  have a: "anomaly c \<longleftrightarrow> v > th" by (simp add: anomaly_def c)
  show ?case
  proof (cases "cb_state ?b")
    case CLOSED
    then have n: "counts cs (cb_failure_count ?b)" "cb_failure_count ?b < k" "\<not> peaks k cs" "0 \<le> cb_failure_count ?b"
      using IH counts_nonneg by auto
    note co = counts_snoc [OF n(1), of c]
    show ?thesis
      using CLOSED n IH(1) co peaks_snoc [OF co, of k] a
      by (auto simp: breaker_after_snoc c check_anomaly_def record_failure_def record_success_def trip_circuit_def Let_def)
  next
    case OPEN
    then have "peaks k cs" using IH(3) by simp
    then have "peaks k (cs @ [c])" by (auto simp: peaks_def sublist_snoc_iff)
    with OPEN IH show ?thesis
      by (auto simp: breaker_after_snoc c check_anomaly_def record_failure_def record_success_def trip_circuit_def Let_def)
  next
    case HALF_OPEN
    with IH(2) show ?thesis by simp
  qed
qed

text \<open>
  A sequence of checks trips a new breaker exactly when some stretch of consecutive checks has at least
  as many more anomalies than normal values as the failure threshold says: the decaying counter of the code is
  that abstract test.
\<close>

theorem breaker_trips_exact:
  assumes "list_all is_check cs" and "0 < k"
  shows "cb_state (snd (breaker_run cs (new_breaker k timeout probes))) = OPEN \<longleftrightarrow>
    (\<exists>s. sublist s cs \<and> k \<le> int (length (filter anomaly s)) - int (length (filter (\<lambda>c. \<not> anomaly c) s)))"
proof -
  have "excess s = int (length (filter anomaly s)) - int (length (filter (\<lambda>c. \<not> anomaly c) s))" for s
    by (induction s) (auto simp: excess_def)
  with breaker_after_checks [OF assms, of timeout probes] show ?thesis
    by (simp add: breaker_after_def peaks_def)
qed

definition demo_check :: "bool \<Rightarrow> breaker_cmd" where
  "demo_check b = Check ''latency'' (if b then 2 else 1) (3 / 2) 0 0"

definition demo_checks :: "breaker_cmd list" where
  "demo_checks = map demo_check [True, False, False, True, True, False, True]"

theorem breaker_trips_exact_witness:
  "cb_state (snd (breaker_run demo_checks (new_breaker 2 60 3))) = OPEN \<and>
   cb_state (snd (breaker_run [demo_check True, demo_check False, demo_check True] (new_breaker 2 60 3))) \<noteq> OPEN"
proof
  have c: "list_all is_check demo_checks" "(0::int) < 2" by (simp_all add: demo_checks_def demo_check_def is_check_def)
  have "demo_checks = map demo_check [True, False, False] @ map demo_check [True, True] @ map demo_check [False, True]"
    by (simp add: demo_checks_def)
  then have "sublist (map demo_check [True, True]) demo_checks" by (metis sublist_appendI)
  moreover have "2 \<le> int (length (filter anomaly (map demo_check [True, True]))) - int (length (filter (\<lambda>c. \<not> anomaly c) (map demo_check [True, True])))"
    by (simp add: demo_check_def anomaly_def)
  ultimately show "cb_state (snd (breaker_run demo_checks (new_breaker 2 60 3))) = OPEN"
    using breaker_trips_exact [OF c, of 60 3] by blast
  show "cb_state (snd (breaker_run [demo_check True, demo_check False, demo_check True] (new_breaker 2 60 3))) \<noteq> OPEN"
    by (simp add: demo_check_def breaker_defs new_breaker_def Let_def)
qed

section \<open>Probes\<close>

text \<open>
  A circuit whose timeout has passed admits one call more than half_open_max_calls before it refuses: the
  call that moves it to the half-open state is not counted.
\<close>

theorem half_open_admits_one_more:
  assumes "cb_state cb = OPEN" and "recovered now cb" and "0 \<le> cb_half_open_max_calls cb"
  shows "map snd (fst (breaker_run (replicate n (Call now)) cb)) =
    map (\<lambda>i. int i \<le> cb_half_open_max_calls cb) [0..<n]"
proof -
  have half: "map snd (fst (breaker_run (replicate n (Call now)) cb)) =
      map (\<lambda>i. int i < cb_half_open_max_calls cb - cb_half_open_calls cb) [0..<n]"
    if "cb_state cb = HALF_OPEN" for cb n
    using that
  proof (induction n arbitrary: cb)
    case (Suc n)
    show ?case
    proof (cases "cb_half_open_calls cb < cb_half_open_max_calls cb")
      case True
      let ?cb = "cb\<lparr>cb_half_open_calls := cb_half_open_calls cb + 1\<rparr>"
      have "map snd (fst (breaker_run (replicate n (Call now)) ?cb)) =
          map (\<lambda>i. int i < cb_half_open_max_calls cb - (cb_half_open_calls cb + 1)) [0..<n]"
        using Suc.IH [of ?cb] Suc.prems by simp
      with True Suc.prems show ?thesis
        by (auto simp: call_allowed_def split_def Let_def upt_conv_Cons map_Suc_upt [symmetric] simp del: upt_Suc)
    next
      case False
      with Suc.IH [of cb] Suc.prems show ?thesis
        by (simp add: call_allowed_def split_def Let_def upt_conv_Cons map_Suc_upt [symmetric] del: upt_Suc)
    qed
  qed simp
  show ?thesis
  proof (cases n)
    case (Suc m)
    let ?cb = "cb\<lparr>cb_state := HALF_OPEN, cb_half_open_calls := 0\<rparr>"
    have "map snd (fst (breaker_run (replicate m (Call now)) ?cb)) = map (\<lambda>i. int i < cb_half_open_max_calls cb) [0..<m]"
      using half [of ?cb m] by simp
    with assms Suc show ?thesis
      by (auto simp: call_allowed_def split_def Let_def upt_conv_Cons map_Suc_upt [symmetric] simp del: upt_Suc)
  qed simp
qed

theorem half_open_admits_one_more_witness:
  "map snd (fst (breaker_run (replicate 5 (Call 60001000)) demo_tripped)) = [True, True, True, True, False]"
proof -
  have "cb_state demo_tripped = OPEN" "recovered 60001000 demo_tripped" "cb_half_open_max_calls demo_tripped = 3"
    by (simp_all add: demo_tripped_def new_breaker_def breaker_defs)
  with half_open_admits_one_more [of demo_tripped 60001000 5] show ?thesis by (simp add: upt_rec)
qed


section \<open>Rate limiter\<close>

interpretation limiter: sliding_window "\<lambda>now t. fsub now (to_float w) < t" for w
proof
  fix t t' ts
  assume "t \<le> (t' :: pyfloat)"
  then have "fsub t (to_float w) \<le> fsub t' (to_float w)" unfolding fsub_def by (intro rnd_mono) simp
  also assume "fsub t' (to_float w) < ts"
  finally show "fsub t (to_float w) < ts" .
qed

datatype limiter_cmd =
    CheckRate string pyfloat | RecordRequest string pyfloat | ResetAgent string | Block string int pyfloat
  | IsBlocked string pyfloat | Stats string pyfloat pyfloat

text \<open>The log of a run: agent and time of every request that was admitted (\<open>True\<close>) or entered by \<open>record_request\<close>
  (\<open>False\<close>) since the last reset of the agent.\<close>

type_synonym request_log = "(string \<times> pyfloat \<times> bool) list"

fun limiter_step :: "limiter_cmd \<Rightarrow> request_log \<times> rate_limiter \<Rightarrow> request_log \<times> rate_limiter" where
  "limiter_step (CheckRate a now) (reqs, rl) =
     (let (ok, rl) = check_rate a now rl in (reqs @ (if ok then [(a, now, True)] else []), rl))"
| "limiter_step (RecordRequest a now) (reqs, rl) = (reqs @ [(a, now, False)], record_request a now rl)"
| "limiter_step (ResetAgent a) (reqs, rl) = (filter (\<lambda>e. fst e \<noteq> a) reqs, reset_agent a rl)"
| "limiter_step (Block a d now) (reqs, rl) = (reqs, block_agent a d now rl)"
| "limiter_step (IsBlocked a now) (reqs, rl) = (reqs, snd (is_blocked a now rl))"
| "limiter_step (Stats a now later) (reqs, rl) = (reqs, snd (get_stats a now later rl))"

definition limiter_run :: "limiter_cmd list \<Rightarrow> rate_limiter \<Rightarrow> request_log \<times> rate_limiter" where
  "limiter_run cs rl = fold limiter_step cs ([], rl)"

fun limiter_clock :: "limiter_cmd \<Rightarrow> pyfloat list" where
  "limiter_clock (CheckRate a now) = [now]"
| "limiter_clock (RecordRequest a now) = [now]"
| "limiter_clock (ResetAgent a) = []"
| "limiter_clock (Block a d now) = [now]"
| "limiter_clock (IsBlocked a now) = [now]"
| "limiter_clock (Stats a now later) = [now, later]"

definition counted_times :: "string \<Rightarrow> request_log \<Rightarrow> pyfloat list" where
  "counted_times a reqs = map (fst \<circ> snd) (filter (\<lambda>e. fst e = a) reqs)"

definition admitted_times :: "string \<Rightarrow> request_log \<Rightarrow> pyfloat list" where
  "admitted_times a reqs = map (fst \<circ> snd) (filter (\<lambda>e. fst e = a \<and> snd (snd e)) reqs)"

lemma log_append [simp]:
  "counted_times a (reqs @ [(b, t, ok)]) = counted_times a reqs @ (if b = a then [t] else [])"
  "admitted_times a (reqs @ [(b, t, ok)]) = admitted_times a reqs @ (if b = a \<and> ok then [t] else [])"
  by (simp_all add: counted_times_def admitted_times_def)

lemma log_reset [simp]:
  "counted_times a (filter (\<lambda>e. fst e \<noteq> b) reqs) = (if b = a then [] else counted_times a reqs)"
  "admitted_times a (filter (\<lambda>e. fst e \<noteq> b) reqs) = (if b = a then [] else admitted_times a reqs)"
  by (auto simp: counted_times_def admitted_times_def filter_empty_conv intro!: arg_cong [where f = "map (fst \<circ> snd)"] filter_cong)

lemma admitted_counted: "length (filter P (admitted_times a reqs)) \<le> length (filter P (counted_times a reqs))"
  by (induction reqs) (auto simp: admitted_times_def counted_times_def)

text \<open>The times in the window that ends at a moment.\<close>

definition in_window :: "int \<Rightarrow> pyfloat \<Rightarrow> pyfloat list \<Rightarrow> pyfloat list" where
  "in_window w now ts = filter (\<lambda>t. fsub now (to_float w) < t \<and> t \<le> now) ts"

text \<open>What the limiter knows of an agent: its times that are recent at any moment from \<open>now\<close> on.\<close>

definition tracks :: "string \<Rightarrow> request_log \<Rightarrow> pyfloat \<Rightarrow> rate_limiter \<Rightarrow> bool" where
  "tracks a reqs now rl \<longleftrightarrow>
     (\<forall>t. int (length (in_window (rl_window_seconds rl) t (admitted_times a reqs))) \<le> rl_limit_per_agent rl) \<and>
     (\<forall>t \<in> set (counted_times a reqs). t \<le> now) \<and>
     (\<forall>t \<ge> now. filter (in_limit_window rl t) (request_times a rl) = filter (in_limit_window rl t) (counted_times a reqs))"

lemma in_limit_window_eq: "in_limit_window rl now = (\<lambda>t. fsub now (to_float (rl_window_seconds rl)) < t)"
  by (simp add: in_limit_window_def fun_eq_iff)

lemma tracks_later: "tracks a reqs now rl \<Longrightarrow> now \<le> now' \<Longrightarrow> tracks a reqs now' rl"
  unfolding tracks_def by (meson order_trans)

lemma recent_is_window:
  assumes "\<forall>x \<in> set ts. x \<le> t"
  shows "filter (in_limit_window rl t) ts = in_window (rl_window_seconds rl) t ts"
  unfolding in_window_def in_limit_window_eq using assms by (intro filter_cong) auto

lemma request_times_update:
  "request_times b (rl\<lparr>rl_entries := AList.update a ts (rl_entries rl)\<rparr>) = (if b = a then ts else request_times b rl)"
  by (simp add: request_times_def)

lemma check_rate_unblocked:
  assumes "\<not> (\<exists>until. map_of (rl_blocked_agents rl) a = Some until \<and> t < until)"
  obtains rl' where "check_rate a t rl = count_request a t rl'" and "rl' = rl \<or> (\<exists>bs. rl' = rl\<lparr>rl_blocked_agents := bs\<rparr>)"
  using assms by (cases "map_of (rl_blocked_agents rl) a") (auto simp: check_rate_def)

lemma count_request_tracks:
  assumes "tracks a reqs now rl" and "now \<le> t"
  shows "fst (count_request a t rl) \<longleftrightarrow> int (length (in_window (rl_window_seconds rl) t (counted_times a reqs))) < rl_limit_per_agent rl"
    and "tracks a (reqs @ (if fst (count_request a t rl) then [(a, t, True)] else [])) t (snd (count_request a t rl))"
    and "a' \<noteq> a \<Longrightarrow> tracks a' reqs' t rl \<Longrightarrow> tracks a' reqs' t (snd (count_request a t rl))"
proof -
  let ?w = "rl_window_seconds rl" and ?rl = "snd (count_request a t rl)"
  let ?ts = "counted_times a reqs" and ?as = "admitted_times a reqs"
  have le: "\<forall>x \<in> set ?ts. x \<le> t" using assms by (auto simp: tracks_def)
  have f: "filter (in_limit_window rl t) (request_times a rl) = filter (in_limit_window rl t) ?ts"
    using assms by (simp add: tracks_def)
  show b: "fst (count_request a t rl) \<longleftrightarrow> int (length (in_window ?w t ?ts)) < rl_limit_per_agent rl"
    by (simp add: count_request_def f recent_is_window [OF le] Let_def)
  have k: "rl_window_seconds ?rl = ?w" "rl_limit_per_agent ?rl = rl_limit_per_agent rl" "in_limit_window ?rl = in_limit_window rl"
    by (auto simp: count_request_def Let_def in_limit_window_def fun_eq_iff)
  have later: "filter (in_limit_window rl t') (filter (in_limit_window rl t) ?ts) = filter (in_limit_window rl t') ?ts" if "t \<le> t'" for t'
    using limiter.filter_later [OF that, of ?w ?ts] by (simp add: in_limit_window_eq)
  show "tracks a (reqs @ (if fst (count_request a t rl) then [(a, t, True)] else [])) t ?rl"
  proof (cases "fst (count_request a t rl)")
    case True
    have "length (filter (\<lambda>x. fsub t (to_float ?w) < x) ?ts) < nat (rl_limit_per_agent rl)"
      using True b recent_is_window [OF le, of rl] by (simp add: in_limit_window_eq)
    then have few: "length (filter (\<lambda>x. fsub t (to_float ?w) < x) ?as) < nat (rl_limit_per_agent rl)"
      using admitted_counted le_less_trans by blast
    have "int (length (in_window ?w y ?as)) \<le> rl_limit_per_agent rl" for y
      using assms(1) by (simp add: tracks_def)
    then have "length (in_window ?w y ?as) \<le> nat (rl_limit_per_agent rl)" for y
      by (metis nat_int nat_mono)
    then have "length (in_window ?w x (?as @ [t])) \<le> nat (rl_limit_per_agent rl)" for x
      unfolding in_window_def by (rule limiter.window_extend [OF _ few])
    moreover have "0 < rl_limit_per_agent rl" using few by simp
    ultimately have "int (length (in_window ?w x (?as @ [t]))) \<le> rl_limit_per_agent rl" for x
      by (metis nat_0_le of_nat_mono order_less_imp_le)
    moreover have "request_times a ?rl = filter (in_limit_window rl t) ?ts @ [t]"
      using True by (simp add: count_request_def f request_times_update Let_def split: if_splits)
    ultimately show ?thesis using True le later by (auto simp: tracks_def k)
  next
    case False
    then have "request_times a ?rl = filter (in_limit_window rl t) ?ts"
      by (simp add: count_request_def f request_times_update Let_def split: if_splits)
    with False assms le later show ?thesis by (auto simp: tracks_def k)
  qed
  show "a' \<noteq> a \<Longrightarrow> tracks a' reqs' t rl \<Longrightarrow> tracks a' reqs' t ?rl"
    by (auto simp: tracks_def k) (auto simp: count_request_def request_times_update Let_def split: if_splits)
qed

lemma tracks_cong:
  "tracks a reqs now rl \<Longrightarrow> request_times a rl' = request_times a rl \<Longrightarrow> rl_window_seconds rl' = rl_window_seconds rl \<Longrightarrow>
     rl_limit_per_agent rl' = rl_limit_per_agent rl \<Longrightarrow> tracks a reqs now rl'"
  by (simp add: tracks_def in_limit_window_eq)

lemma tracks_other:
  "tracks a reqs now rl \<Longrightarrow> counted_times a reqs' = counted_times a reqs \<Longrightarrow> admitted_times a reqs' = admitted_times a reqs \<Longrightarrow>
     tracks a reqs' now rl"
  by (simp add: tracks_def)

lemma blocking_frame:
  "request_times a (block_agent b d t rl) = request_times a rl" "rl_window_seconds (block_agent b d t rl) = rl_window_seconds rl"
  "rl_limit_per_agent (block_agent b d t rl) = rl_limit_per_agent rl"
  "request_times a (snd (is_blocked b t rl)) = request_times a rl" "rl_window_seconds (snd (is_blocked b t rl)) = rl_window_seconds rl"
  "rl_limit_per_agent (snd (is_blocked b t rl)) = rl_limit_per_agent rl"
  "request_times a (snd (get_stats b t u rl)) = request_times a rl" "rl_window_seconds (snd (get_stats b t u rl)) = rl_window_seconds rl"
  "rl_limit_per_agent (snd (get_stats b t u rl)) = rl_limit_per_agent rl"
  "request_times a (rl\<lparr>rl_blocked_agents := bs\<rparr>) = request_times a rl"
  by (auto simp: block_agent_def is_blocked_def get_stats_def request_times_def Let_def split_def split: option.split)

lemma limits_kept:
  "rl_window_seconds (snd (check_rate a t rl)) = rl_window_seconds rl" "rl_limit_per_agent (snd (check_rate a t rl)) = rl_limit_per_agent rl"
  by (auto simp: check_rate_def count_request_def Let_def split: option.split)

lemma recording_limits:
  "rl_window_seconds (record_request a t rl) = rl_window_seconds rl" "rl_limit_per_agent (record_request a t rl) = rl_limit_per_agent rl"
  "rl_window_seconds (reset_agent a rl) = rl_window_seconds rl" "rl_limit_per_agent (reset_agent a rl) = rl_limit_per_agent rl"
  "in_limit_window (record_request a t rl) = in_limit_window rl" "in_limit_window (reset_agent a rl) = in_limit_window rl"
  by (simp_all add: record_request_def reset_agent_def in_limit_window_def fun_eq_iff)

lemma recording_times:
  "request_times b (record_request a t rl) = request_times b rl @ (if b = a then [t] else [])"
  "request_times b (reset_agent a rl) = (if b = a then [] else request_times b rl)"
  by (auto simp: record_request_def reset_agent_def request_times_def has_key_def)

lemma check_rate_tracks:
  assumes "\<And>b. tracks b reqs now rl" and "now \<le> t"
  shows "tracks b (reqs @ (if fst (check_rate a t rl) then [(a, t, True)] else [])) t (snd (check_rate a t rl))"
proof (cases "\<exists>until. map_of (rl_blocked_agents rl) a = Some until \<and> t < until")
  case True
  then show ?thesis using tracks_later [OF assms(1) assms(2)] by (auto simp: check_rate_def)
next
  case False
  then obtain rl' where c: "check_rate a t rl = count_request a t rl'" and rl': "rl' = rl \<or> (\<exists>bs. rl' = rl\<lparr>rl_blocked_agents := bs\<rparr>)"
    by (rule check_rate_unblocked)
  have tr: "tracks b reqs now rl'" for b
    using tracks_cong [OF assms(1) [of b], of rl'] rl' blocking_frame(10) by auto
  show ?thesis
  proof (cases "b = a")
    case True
    with count_request_tracks(2) [OF tr [of a] assms(2)] show ?thesis by (simp add: c)
  next
    case False
    have "tracks b reqs t (snd (count_request a t rl'))"
      using count_request_tracks(3) [OF tr [of a] assms(2) False tracks_later [OF tr assms(2)]] .
    then show ?thesis unfolding c by (rule tracks_other) (use False in auto)
  qed
qed

lemma limiter_step_tracks:
  assumes "\<And>b. tracks b reqs now rl" and "sorted (now # limiter_clock c)" and "limiter_step c (reqs, rl) = (reqs', rl')"
    and "0 \<le> rl_limit_per_agent rl"
  shows "tracks b reqs' (last (now # limiter_clock c)) rl' \<and> rl_window_seconds rl' = rl_window_seconds rl \<and>
    rl_limit_per_agent rl' = rl_limit_per_agent rl"
proof (cases c)
  case (CheckRate a t)
  then have "reqs' = reqs @ (if fst (check_rate a t rl) then [(a, t, True)] else [])" "rl' = snd (check_rate a t rl)" "now \<le> t"
    using assms(2,3) by (auto simp: split_def Let_def)
  with check_rate_tracks [OF assms(1)] CheckRate show ?thesis by (simp add: limits_kept)
next
  case (RecordRequest a t)
  then have r: "reqs' = reqs @ [(a, t, False)]" "rl' = record_request a t rl" "now \<le> t" using assms(2,3) by auto
  have "tracks b reqs t rl" using assms(1) r(3) by (rule tracks_later)
  then have "tracks b reqs' t rl'"
    unfolding r by (auto simp: tracks_def recording_limits recording_times)
  with RecordRequest r show ?thesis by (simp add: recording_limits)
next
  case (ResetAgent a)
  then have r: "reqs' = filter (\<lambda>e. fst e \<noteq> a) reqs" "rl' = reset_agent a rl" using assms(3) by auto
  have "tracks b reqs' now rl'"
    using assms(1) [of b] assms(4) unfolding r
    by (auto simp: tracks_def recording_limits recording_times in_window_def)
  with ResetAgent r show ?thesis by (simp add: recording_limits)
next
  case (Block a d t)
  then have r: "reqs' = reqs" "rl' = block_agent a d t rl" "now \<le> t" using assms(2,3) by auto
  have "tracks b reqs t rl" using assms(1) r(3) by (rule tracks_later)
  with tracks_cong [OF this, of rl'] r Block show ?thesis by (simp add: blocking_frame)
next
  case (IsBlocked a t)
  then have r: "reqs' = reqs" "rl' = snd (is_blocked a t rl)" "now \<le> t" using assms(2,3) by auto
  have "tracks b reqs t rl" using assms(1) r(3) by (rule tracks_later)
  with tracks_cong [OF this, of rl'] r IsBlocked show ?thesis by (simp add: blocking_frame)
next
  case (Stats a t u)
  then have r: "reqs' = reqs" "rl' = snd (get_stats a t u rl)" "now \<le> u" using assms(2,3) by auto
  have "tracks b reqs u rl" using assms(1) r(3) by (rule tracks_later)
  with tracks_cong [OF this, of rl'] r Stats show ?thesis by (simp add: blocking_frame)
qed

lemma limiter_run_tracks:
  assumes "\<And>b. tracks b reqs now rl" and "sorted (now # concat (map limiter_clock cs))" and "0 \<le> rl_limit_per_agent rl"
    and "fold limiter_step cs (reqs, rl) = (reqs', rl')"
  shows "tracks b reqs' (last (now # concat (map limiter_clock cs))) rl' \<and>
    rl_window_seconds rl' = rl_window_seconds rl \<and> rl_limit_per_agent rl' = rl_limit_per_agent rl"
  using assms
proof (induction cs arbitrary: reqs now rl)
  case (Cons c cs)
  let ?now = "last (now # limiter_clock c)"
  obtain reqs1 rl1 where step: "limiter_step c (reqs, rl) = (reqs1, rl1)" by (cases "limiter_step c (reqs, rl)")
  have so: "sorted (now # limiter_clock c)" "sorted (?now # concat (map limiter_clock cs))"
    using Cons.prems(2) by (auto simp: sorted_append split: if_splits)
  have s: "tracks b reqs1 ?now rl1 \<and> rl_window_seconds rl1 = rl_window_seconds rl \<and> rl_limit_per_agent rl1 = rl_limit_per_agent rl" for b
    using Cons.prems(1) so(1) step Cons.prems(3) by (rule limiter_step_tracks)
  have "last (?now # concat (map limiter_clock cs)) = last (now # concat (map limiter_clock (c # cs)))"
    by (simp add: last_append)
  moreover have "fold limiter_step cs (reqs1, rl1) = (reqs', rl')" using Cons.prems(4) step by simp
  ultimately show ?case using Cons.IH [of reqs1 ?now rl1] s so(2) Cons.prems(3) by simp
qed simp

text \<open>
  Claim C26.  With a clock that does not run backwards and after any calls of the limiter's methods, a request is admitted
  exactly when the agent is not blocked and fewer than the limit of its requests are counted in the time window that ends
  now, where the requests counted are those that were admitted or recorded since the last reset of the agent; and no time
  window has more than the limit of requests admitted since the last reset.  Blocks, queries and other agents have no
  influence on the count.
\<close>

theorem rate_limit_exact:
  assumes "0 \<le> limit" and "sorted (concat (map limiter_clock cs))" and "limiter_run cs (new_limiter limit hours) = (reqs, rl)"
  shows "int (length (in_window (hours * 3600) t (admitted_times a reqs))) \<le> limit \<and>
    ((\<forall>u \<in> set (concat (map limiter_clock cs)). u \<le> t) \<longrightarrow>
       (fst (check_rate a t rl) \<longleftrightarrow> \<not> (\<exists>until. map_of (rl_blocked_agents rl) a = Some until \<and> t < until) \<and>
          int (length (in_window (hours * 3600) t (counted_times a reqs))) < limit))"
proof -
  let ?rl0 = "new_limiter limit hours" and ?ts = "counted_times a reqs"
  obtain now where now: "sorted (now # concat (map limiter_clock cs))" "\<forall>u \<in> set (concat (map limiter_clock cs)). u \<le> t \<Longrightarrow> now \<le> t"
  proof (cases "concat (map limiter_clock cs)")
    case Nil
    then show ?thesis by (intro that [of t]) (simp_all del: concat_eq_Nil_conv)
  next
    case (Cons x xs)
    then show ?thesis using assms(2) by (intro that [of x]) auto
  qed
  have init: "tracks b [] now ?rl0" for b
    using assms(1) by (simp add: tracks_def new_limiter_def in_window_def request_times_def admitted_times_def counted_times_def)
  define now' where "now' = last (now # concat (map limiter_clock cs))"
  from limiter_run_tracks [OF init now(1) _ assms(3) [unfolded limiter_run_def]] assms(1)
  have tr: "tracks a reqs now' rl"
    and k: "rl_window_seconds rl = hours * 3600" "rl_limit_per_agent rl = limit"
    by (auto simp: new_limiter_def now'_def)
  have "fst (check_rate a t rl) \<longleftrightarrow> \<not> (\<exists>until. map_of (rl_blocked_agents rl) a = Some until \<and> t < until) \<and>
          int (length (in_window (hours * 3600) t ?ts)) < limit"
    if late: "\<forall>u \<in> set (concat (map limiter_clock cs)). u \<le> t"
  proof (cases "\<exists>until. map_of (rl_blocked_agents rl) a = Some until \<and> t < until")
    case True
    then show ?thesis by (auto simp: check_rate_def)
  next
    case False
    have "now' \<in> insert now (set (concat (map limiter_clock cs)))"
      unfolding now'_def by (metis last_in_set list.distinct(1) list.simps(15))
    then have le: "now' \<le> t" using late now(2) [OF late] by (auto simp del: set_concat)
    obtain rl' where c: "check_rate a t rl = count_request a t rl'" and rl': "rl' = rl \<or> (\<exists>bs. rl' = rl\<lparr>rl_blocked_agents := bs\<rparr>)"
      using False by (rule check_rate_unblocked)
    have "tracks a reqs now' rl'"
      using tracks_cong [OF tr, of rl'] rl' blocking_frame(10) by auto
    from count_request_tracks(1) [OF this le] rl' False show ?thesis by (auto simp: c k)
  qed
  with tr show ?thesis by (simp add: tracks_def k)
qed

definition demo_requests :: "limiter_cmd list" where
  "demo_requests = [CheckRate ''a'' 999, ResetAgent ''a'', CheckRate ''a'' 1000, RecordRequest ''a'' 1001, Block ''b'' 60 1002,
     CheckRate ''a'' 1003, CheckRate ''b'' 1004]"

theorem rate_limit_exact_witness:
  "fst (limiter_run demo_requests (new_limiter 2 1)) = [(''a'', 1000, True), (''a'', 1001, False)] \<and>
   int (length (in_window 3600 4600 (admitted_times ''a'' [(''a'', 1000, True), (''a'', 1001, False)]))) \<le> 2 \<and>
   fst (check_rate ''a'' 4600 (snd (limiter_run demo_requests (new_limiter 2 1))))"
proof -
  let ?r = "limiter_run demo_requests (new_limiter 2 1)"
  have f: "fst ?r = [(''a'', 1000, True), (''a'', 1001, False)]" by code_simp
  have s: "sorted (concat (map limiter_clock demo_requests))" "\<forall>u \<in> set (concat (map limiter_clock demo_requests)). u \<le> 4600"
    by (simp_all add: demo_requests_def)
  have b: "map_of (rl_blocked_agents (snd ?r)) ''a'' = None" by code_simp
  have w: "int (length (in_window 3600 4600 (counted_times ''a'' [(''a'', 1000, True), (''a'', 1001, False)]))) < 2" by code_simp
  have r: "limiter_run demo_requests (new_limiter 2 1) = ([(''a'', 1000, True), (''a'', 1001, False)], snd ?r)" using f by (metis prod.collapse)
  from rate_limit_exact [OF _ s(1) r, of 4600 "''a''"] s(2) b w f show ?thesis by simp
qed

end
