(* ===== verification/Channels.thy ===== *)
theory Channels
  imports Tables PyFloat PyString
begin

text \<open>
  Off-chain payment channels (\<open>marketplace/channels.py\<close>).  Balances are floats.  The signature of a
  payment is a hash of its text: the hash function (SHA-256 in hexadecimal) and the decimal form \<open>str\<close> of
  a float are parameters.  An identifier of a new channel, a fresh uuid in the code, is an argument.
\<close>

record payment_channel =
  pc_sender :: string
  pc_receiver :: string
  pc_capacity :: pyfloat
  pc_nonce :: int
  pc_sender_balance :: pyfloat
  pc_receiver_balance :: pyfloat

record payment =
  py_channel_id :: string
  py_amount :: pyfloat
  py_nonce :: int
  py_signature :: string

record channel_manager =
  channels :: "(string, payment_channel) table"
  deposits :: "(string, pyfloat) table"

datatype channel_error =
  DepositNotPositive | NoSuchChannel | InvalidNonce | AmountNotPositive | InsufficientChannelBalance | InvalidSignature

definition no_channels :: channel_manager where
  "no_channels = \<lparr>channels = [], deposits = []\<rparr>"

definition open_channel :: "string \<Rightarrow> string \<Rightarrow> string \<Rightarrow> pyfloat \<Rightarrow> channel_manager \<Rightarrow> channel_error + channel_manager" where
  "open_channel channel_id sender receiver deposit cm =
     (if deposit \<le> 0 then Inl DepositNotPositive
      else
        let channel = \<lparr>pc_sender = sender, pc_receiver = receiver, pc_capacity = deposit, pc_nonce = 0,
              pc_sender_balance = deposit, pc_receiver_balance = 0\<rparr>;
            held = (case map_of (deposits cm) sender of None \<Rightarrow> 0 | Some d \<Rightarrow> d)
        in Inr (cm\<lparr>channels := AList.update channel_id channel (channels cm),
                  deposits := AList.update sender (fadd held deposit) (deposits cm)\<rparr>))"

definition payment_message :: "(pyfloat \<Rightarrow> string) \<Rightarrow> string \<Rightarrow> pyfloat \<Rightarrow> int \<Rightarrow> string" where
  "payment_message str_float channel_id amount nonce = channel_id @ '':'' @ str_float amount @ '':'' @ str_of_int nonce"

definition create_payment_signature :: "(string \<Rightarrow> string) \<Rightarrow> (pyfloat \<Rightarrow> string) \<Rightarrow> string \<Rightarrow> pyfloat \<Rightarrow> int \<Rightarrow> string" where
  "create_payment_signature sha256 str_float channel_id amount nonce = sha256 (payment_message str_float channel_id amount nonce)"

definition verify_payment :: "(string \<Rightarrow> string) \<Rightarrow> (pyfloat \<Rightarrow> string) \<Rightarrow> payment \<Rightarrow> bool" where
  "verify_payment sha256 str_float p \<longleftrightarrow>
     py_signature p = sha256 (payment_message str_float (py_channel_id p) (py_amount p) (py_nonce p))"

definition send_payment ::
  "(string \<Rightarrow> string) \<Rightarrow> (pyfloat \<Rightarrow> string) \<Rightarrow> string \<Rightarrow> pyfloat \<Rightarrow> int \<Rightarrow> string \<Rightarrow> channel_manager
     \<Rightarrow> channel_error + channel_manager" where
  "send_payment sha256 str_float channel_id amount nonce sig cm =
     (case map_of (channels cm) channel_id of
        None \<Rightarrow> Inl NoSuchChannel
      | Some channel \<Rightarrow>
          if nonce \<le> pc_nonce channel then Inl InvalidNonce
          else if amount \<le> 0 then Inl AmountNotPositive
          else if pc_sender_balance channel < amount then Inl InsufficientChannelBalance
          else if \<not> verify_payment sha256 str_float
                    \<lparr>py_channel_id = channel_id, py_amount = amount, py_nonce = nonce, py_signature = sig\<rparr>
          then Inl InvalidSignature
          else Inr (cm\<lparr>channels := update_row channel_id
             (\<lambda>ch. ch\<lparr>pc_sender_balance := fsub (pc_sender_balance ch) amount,
                      pc_receiver_balance := fadd (pc_receiver_balance ch) amount,
                      pc_nonce := nonce\<rparr>) (channels cm)\<rparr>))"

definition close_channel ::
  "string \<Rightarrow> channel_manager \<Rightarrow> channel_error + (string \<times> string \<times> pyfloat \<times> pyfloat) \<times> channel_manager" where
  "close_channel channel_id cm =
     (case map_of (channels cm) channel_id of
        None \<Rightarrow> Inl NoSuchChannel
      | Some channel \<Rightarrow>
          let settlement = (pc_sender channel, pc_receiver channel, pc_sender_balance channel, pc_receiver_balance channel);
              ds = (case map_of (deposits cm) (pc_sender channel) of
                      None \<Rightarrow> deposits cm
                    | Some held \<Rightarrow>
                        let left = fsub held (pc_capacity channel) in
                        if left \<le> 0 then AList.delete (pc_sender channel) (deposits cm)
                        else AList.update (pc_sender channel) left (deposits cm))
          in Inr (settlement, cm\<lparr>channels := AList.delete channel_id (channels cm), deposits := ds\<rparr>))"

definition get_channel :: "string \<Rightarrow> channel_manager \<Rightarrow> payment_channel option" where
  "get_channel channel_id cm = map_of (channels cm) channel_id"

definition get_channels_by_sender :: "string \<Rightarrow> channel_manager \<Rightarrow> payment_channel list" where
  "get_channels_by_sender sender cm = filter (\<lambda>ch. pc_sender ch = sender) (map snd (channels cm))"

definition get_channels_by_receiver :: "string \<Rightarrow> channel_manager \<Rightarrow> payment_channel list" where
  "get_channels_by_receiver receiver cm = filter (\<lambda>ch. pc_receiver ch = receiver) (map snd (channels cm))"

end
