(* ===== verification/ChannelProps.thy ===== *)
theory ChannelProps
  imports Channels
begin

text \<open>
  Correctness of payment channels: every channel settles exactly the payments it accepted, each at most once, when the
  amounts lie on a binary grid (multiples of 2^-20 below 2^33); on other amounts the float balances drift.
\<close>

section \<open>Amounts on a grid\<close>

definition on_grid :: "pyfloat \<Rightarrow> bool" where
  "on_grid x \<longleftrightarrow> (\<exists>m. x = of_int m * pow2 (- 20) \<and> \<bar>m\<bar> \<le> 2 ^ 53)"

lemma on_grid_between:
  assumes "x = of_int m * pow2 (- 20)" and "0 \<le> x" and "x \<le> y" and "on_grid y"
  shows "on_grid x \<and> rnd x = x"
proof -
  obtain k where k: "y = of_int k * pow2 (- 20)" "\<bar>k\<bar> \<le> 2 ^ 53" using assms(4) by (auto simp: on_grid_def)
  have "(0 :: rat) \<le> of_int m" "(of_int m :: rat) \<le> of_int k"
    using assms(1-3) k(1) pow2_pos [of "- 20"] by (simp_all add: zero_le_mult_iff)
  then have m: "\<bar>m\<bar> \<le> 2 ^ 53" using k(2) by (simp only: of_int_le_iff of_int_0_le_iff)
  then show ?thesis using assms(1) rnd_exact [OF assms(1) m] by (auto simp: on_grid_def)
qed

lemma grid_diff: "on_grid x \<Longrightarrow> on_grid y \<Longrightarrow> \<exists>m. x - y = of_int m * pow2 (- 20)"
proof -
  assume "on_grid x" "on_grid y"
  then obtain m k where "x = of_int m * pow2 (- 20)" "y = of_int k * pow2 (- 20)" by (auto simp: on_grid_def)
  then have "x - y = of_int (m - k) * pow2 (- 20)" by (simp add: algebra_simps)
  then show ?thesis by blast
qed

lemma grid_sum: "on_grid x \<Longrightarrow> on_grid y \<Longrightarrow> \<exists>m. x + y = of_int m * pow2 (- 20)"
proof -
  assume "on_grid x" "on_grid y"
  then obtain m k where "x = of_int m * pow2 (- 20)" "y = of_int k * pow2 (- 20)" by (auto simp: on_grid_def)
  then have "x + y = of_int (m + k) * pow2 (- 20)" by (simp add: algebra_simps)
  then show ?thesis by blast
qed

lemma fsub_grid: "on_grid x \<Longrightarrow> on_grid y \<Longrightarrow> 0 \<le> y \<Longrightarrow> y \<le> x \<Longrightarrow> fsub x y = x - y \<and> on_grid (x - y)"
  using grid_diff [of x y] on_grid_between [of "x - y" _ x] by (auto simp: fsub_def)

lemma fadd_grid: "on_grid x \<Longrightarrow> on_grid y \<Longrightarrow> 0 \<le> x + y \<Longrightarrow> x + y \<le> z \<Longrightarrow> on_grid z \<Longrightarrow> fadd x y = x + y \<and> on_grid (x + y)"
  using grid_sum [of x y] on_grid_between [of "x + y" _ z] by (auto simp: fadd_def)

section \<open>Runs\<close>

datatype channel_cmd =
    Open string string string pyfloat
  | Send string pyfloat int string
  | Close string

fun channel_run ::
  "(string \<Rightarrow> string) \<Rightarrow> (pyfloat \<Rightarrow> string) \<Rightarrow> channel_cmd list \<Rightarrow> channel_manager \<Rightarrow> payment list \<times> channel_manager" where
  "channel_run h f [] cm = ([], cm)"
| "channel_run h f (Open i s r d # cs) cm =
     channel_run h f cs (case open_channel i s r d cm of Inl e \<Rightarrow> cm | Inr cm' \<Rightarrow> cm')"
| "channel_run h f (Send i a n sig # cs) cm =
     (case send_payment h f i a n sig cm of
        Inl e \<Rightarrow> channel_run h f cs cm
      | Inr cm' \<Rightarrow> (let (ps, cm'') = channel_run h f cs cm' in
          (\<lparr>py_channel_id = i, py_amount = a, py_nonce = n, py_signature = sig\<rparr> # ps, cm'')))"
| "channel_run h f (Close i # cs) cm =
     channel_run h f cs (case close_channel i cm of Inl e \<Rightarrow> cm | Inr (x, cm') \<Rightarrow> cm')"

fun opened :: "channel_cmd list \<Rightarrow> string list" where
  "opened [] = []"
| "opened (Open i s r d # cs) = i # opened cs"
| "opened (Send i a n sig # cs) = opened cs"
| "opened (Close i # cs) = opened cs"

definition grid_cmd :: "channel_cmd \<Rightarrow> bool" where
  "grid_cmd c = (case c of Open i s r d \<Rightarrow> on_grid d | Send i a n sig \<Rightarrow> on_grid a | Close i \<Rightarrow> True)"

definition payments_on :: "string \<Rightarrow> payment list \<Rightarrow> payment list" where
  "payments_on i ps = filter (\<lambda>p. py_channel_id p = i) ps"

definition paid :: "payment list \<Rightarrow> rat" where
  "paid ps = (\<Sum>p\<leftarrow>ps. py_amount p)"

definition channel_ok :: "payment list \<Rightarrow> payment_channel \<Rightarrow> bool" where
  "channel_ok ps ch \<longleftrightarrow> on_grid (pc_capacity ch) \<and> on_grid (pc_sender_balance ch) \<and> on_grid (pc_receiver_balance ch) \<and>
     pc_receiver_balance ch = paid ps \<and> pc_sender_balance ch = pc_capacity ch - paid ps \<and> 0 \<le> pc_sender_balance ch \<and>
     0 \<le> paid ps \<and> (\<forall>p \<in> set ps. py_nonce p \<le> pc_nonce ch)"

definition accounted :: "payment list \<Rightarrow> string set \<Rightarrow> channel_manager \<Rightarrow> bool" where
  "accounted ps used cm \<longleftrightarrow>
     (\<forall>i ch. map_of (channels cm) i = Some ch \<longrightarrow> i \<in> used \<and> channel_ok (payments_on i ps) ch) \<and>
     (\<forall>p \<in> set ps. py_channel_id p \<in> used) \<and>
     (\<forall>i. sorted_wrt (<) (map py_nonce (payments_on i ps)))"

lemma payments_on_append [simp]: "payments_on i (ps @ qs) = payments_on i ps @ payments_on i qs"
  by (simp add: payments_on_def)

lemma paid_append [simp]: "paid (ps @ qs) = paid ps + paid qs"
  by (simp add: paid_def)

lemma payments_on_unused: "\<forall>p \<in> set ps. py_channel_id p \<in> used \<Longrightarrow> i \<notin> used \<Longrightarrow> payments_on i ps = []"
  by (auto simp: payments_on_def filter_empty_conv)

lemma open_accounted:
  assumes "accounted ps used cm" and "i \<notin> used" and "on_grid d" and "open_channel i s r d cm = Inr cm'"
  shows "accounted ps (insert i used) cm'"
proof -
  have "payments_on i ps = []" using assms(1,2) by (intro payments_on_unused) (auto simp: accounted_def)
  moreover have "on_grid 0" by (auto simp: on_grid_def intro: exI [of _ 0])
  moreover have "0 < d" using assms(4) by (auto simp: open_channel_def split: if_splits)
  ultimately have "channel_ok (payments_on i ps) \<lparr>pc_sender = s, pc_receiver = r, pc_capacity = d, pc_nonce = 0,
      pc_sender_balance = d, pc_receiver_balance = 0\<rparr>"
    using assms(3) by (simp add: channel_ok_def paid_def)
  with assms show ?thesis
    by (auto simp: accounted_def open_channel_def Let_def split: if_splits)
qed

lemma send_channel_ok:
  assumes "channel_ok ps ch" and "pc_nonce ch < n" and "0 < a" and "a \<le> pc_sender_balance ch" and "on_grid a"
    and "py_amount p = a" and "py_nonce p = n"
  shows "channel_ok (ps @ [p]) (ch\<lparr>pc_sender_balance := fsub (pc_sender_balance ch) a,
     pc_receiver_balance := fadd (pc_receiver_balance ch) a, pc_nonce := n\<rparr>)"
proof -
  have s: "fsub (pc_sender_balance ch) a = pc_sender_balance ch - a \<and> on_grid (pc_sender_balance ch - a)"
    using assms by (intro fsub_grid) (auto simp: channel_ok_def)
  have r: "fadd (pc_receiver_balance ch) a = pc_receiver_balance ch + a \<and> on_grid (pc_receiver_balance ch + a)"
    using assms by (intro fadd_grid [where z = "pc_capacity ch"]) (auto simp: channel_ok_def)
  show ?thesis
    using assms s r by (auto simp: channel_ok_def paid_def intro: order_trans less_imp_le)
qed

lemma send_accounted:
  assumes "accounted ps used cm" and "on_grid a" and "send_payment h f i a n sig cm = Inr cm'"
  shows "accounted (ps @ [\<lparr>py_channel_id = i, py_amount = a, py_nonce = n, py_signature = sig\<rparr>]) used cm'"
proof -
  let ?p = "\<lparr>py_channel_id = i, py_amount = a, py_nonce = n, py_signature = sig\<rparr>"
  obtain ch where ch: "map_of (channels cm) i = Some ch" "pc_nonce ch < n" "0 < a" "a \<le> pc_sender_balance ch"
      and cm': "cm' = cm\<lparr>channels := update_row i (\<lambda>ch. ch\<lparr>pc_sender_balance := fsub (pc_sender_balance ch) a,
                      pc_receiver_balance := fadd (pc_receiver_balance ch) a, pc_nonce := n\<rparr>) (channels cm)\<rparr>"
    using assms(3) by (auto simp: send_payment_def not_le not_less split: option.splits if_splits)
  have ok: "channel_ok (payments_on i ps) ch" and used: "i \<in> used" using assms(1) ch(1) by (auto simp: accounted_def)
  have one: "payments_on j [?p] = (if j = i then [?p] else [])" for j by (simp add: payments_on_def)
  have "channel_ok (payments_on i ps @ [?p]) (ch\<lparr>pc_sender_balance := fsub (pc_sender_balance ch) a,
     pc_receiver_balance := fadd (pc_receiver_balance ch) a, pc_nonce := n\<rparr>)"
    using ok ch(2-4) assms(2) by (rule send_channel_ok) simp_all
  moreover have "sorted_wrt (<) (map py_nonce (payments_on i ps) @ [n])"
    using assms(1) ok ch(2) by (auto simp: accounted_def sorted_wrt_append channel_ok_def)
  ultimately show ?thesis
    using assms(1) used ch(1) by (auto simp: accounted_def cm' one)
qed

lemma close_accounted:
  "accounted ps used cm \<Longrightarrow> close_channel i cm = Inr (x, cm') \<Longrightarrow> accounted ps used cm'"
  by (auto simp: accounted_def close_channel_def Let_def split: option.splits if_splits)

lemma run_accounted:
  assumes "accounted ps used cm" and "\<forall>c \<in> set cs. grid_cmd c" and "distinct (opened cs)" and "set (opened cs) \<inter> used = {}"
  shows "\<exists>used'. accounted (ps @ fst (channel_run h f cs cm)) used' (snd (channel_run h f cs cm))"
  using assms
proof (induction cs arbitrary: ps used cm)
  case Nil
  then show ?case by auto
next
  case (Cons c cs)
  have rest: "\<forall>c \<in> set cs. grid_cmd c" "distinct (opened cs)" "set (opened cs) \<inter> used = {}" and g: "grid_cmd c"
    using Cons.prems by (cases c; auto)+
  show ?case
  proof (cases c)
    case (Open i s r d)
    have i: "i \<notin> used" "i \<notin> set (opened cs)" using Cons.prems(3,4) by (auto simp: Open)
    show ?thesis
    proof (cases "open_channel i s r d cm")
      case (Inl e)
      with Cons.IH [OF Cons.prems(1) rest] show ?thesis by (simp add: Open)
    next
      case (Inr cm')
      have "accounted ps (insert i used) cm'"
        using Cons.prems(1) i(1) _ Inr by (rule open_accounted) (use g in \<open>simp add: grid_cmd_def Open\<close>)
      from Cons.IH [OF this rest(1,2)] rest(3) i show ?thesis by (simp add: Open Inr)
    qed
  next
    case (Send i a n sig)
    show ?thesis
    proof (cases "send_payment h f i a n sig cm")
      case (Inl e)
      with Cons.IH [OF Cons.prems(1) rest] show ?thesis by (simp add: Send)
    next
      case (Inr cm')
      have "accounted (ps @ [\<lparr>py_channel_id = i, py_amount = a, py_nonce = n, py_signature = sig\<rparr>]) used cm'"
        using Cons.prems(1) _ Inr by (rule send_accounted) (use g in \<open>simp add: grid_cmd_def Send\<close>)
      from Cons.IH [OF this rest] show ?thesis by (simp add: Send Inr split_def Let_def)
    qed
  next
    case (Close i)
    show ?thesis
    proof (cases "close_channel i cm")
      case (Inl e)
      with Cons.IH [OF Cons.prems(1) rest] show ?thesis by (simp add: Close)
    next
      case (Inr x)
      obtain y cm' where "close_channel i cm = Inr (y, cm')" using Inr by (cases x) auto
      with Cons.IH [OF close_accounted [OF Cons.prems(1) this] rest] show ?thesis by (simp add: Close)
    qed
  qed
qed

text \<open>
  When all deposits and payments are multiples of 2^-20 of at most 2^33 and channel identifiers are fresh, a
  channel that is closed gives the receiver exactly the sum of the payments it accepted and the sender exactly
  the rest of its deposit, neither negative; and no payment is accepted twice on a channel, since the nonces of the accepted
  ones increase strictly, even after the channel was closed.
\<close>

theorem settlement_exact:
  assumes "\<forall>c \<in> set cs. grid_cmd c" and "distinct (opened cs)" and "channel_run h f cs no_channels = (ps, cm)"
  shows "sorted_wrt (<) (map py_nonce (payments_on i ps)) \<and>
    (\<forall>ch s r x y cm'. get_channel i cm = Some ch \<longrightarrow> close_channel i cm = Inr ((s, r, x, y), cm') \<longrightarrow>
       y = paid (payments_on i ps) \<and> x = pc_capacity ch - y \<and> 0 \<le> x \<and> 0 \<le> y)"
proof -
  have "accounted [] {} no_channels" by (simp add: accounted_def no_channels_def payments_on_def)
  from run_accounted [OF this assms(1,2), of h f] assms(3) obtain used where a: "accounted ps used cm" by auto
  then have "channel_ok (payments_on i ps) ch" if "get_channel i cm = Some ch" for ch
    using that by (simp add: accounted_def get_channel_def)
  with a show ?thesis
    by (auto simp: accounted_def get_channel_def close_channel_def Let_def channel_ok_def)
qed

definition demo_channel_cmds :: "channel_cmd list" where
  "demo_channel_cmds = [Open ''c'' ''a'' ''b'' 10, Send ''c'' (5 / 2) 1 ''c:x:1'', Send ''c'' (5 / 2) 1 ''c:x:1'', Send ''c'' 1 7 ''c:x:7'']"

theorem settlement_exact_witness:
  "map py_amount (fst (channel_run id (\<lambda>_. ''x'') demo_channel_cmds no_channels)) = [5 / 2, 1] \<and>
   (\<exists>cm'. close_channel ''c'' (snd (channel_run id (\<lambda>_. ''x'') demo_channel_cmds no_channels)) = Inr ((''a'', ''b'', 13 / 2, 7 / 2), cm'))"
proof -
  let ?r = "channel_run id (\<lambda>_. ''x'') demo_channel_cmds no_channels"
  have g: "\<forall>c \<in> set demo_channel_cmds. grid_cmd c"
    by (auto simp: demo_channel_cmds_def grid_cmd_def on_grid_def pow2_def
        intro: exI [of _ "10 * 2 ^ 20"] exI [of _ "5 * 2 ^ 19"] exI [of _ "2 ^ 20"])
  have d: "distinct (opened demo_channel_cmds)" by (simp add: demo_channel_cmds_def)
  have p: "map py_amount (payments_on ''c'' (fst ?r)) = [5 / 2, 1]" "map py_amount (fst ?r) = [5 / 2, 1]" by code_simp+
  have c: "map_option (\<lambda>ch. (pc_sender ch, pc_receiver ch, pc_capacity ch)) (get_channel ''c'' (snd ?r)) = Some (''a'', ''b'', 10)" by code_simp
  have "paid (payments_on ''c'' (fst ?r)) = 7 / 2" by (simp add: paid_def p(1))
  then have "\<forall>ch s r x y cm'. get_channel ''c'' (snd ?r) = Some ch \<longrightarrow> close_channel ''c'' (snd ?r) = Inr ((s, r, x, y), cm') \<longrightarrow>
       y = 7 / 2 \<and> x = pc_capacity ch - y"
    using settlement_exact [OF g d surjective_pairing, of "''c''" id "\<lambda>_. ''x''"] by auto
  with c p show ?thesis by (auto simp: close_channel_def get_channel_def Let_def)
qed

text \<open>With a tenth as amount, three payments out of 1 leave balances that do not add up.\<close>

lemma tenths_drift:
  "(let tenth = rnd (1 / 10); pay = (\<lambda>(s, r). (fsub s tenth, fadd r tenth)); (s, r) = pay (pay (pay (1, 0))) in s + r \<noteq> 1)"
  by code_simp

end
