(* ===== verification/Governance.thy ===== *)
theory Governance
  imports Tables PyFloat PyString
begin

text \<open>
  The governance protocol (\<open>marketplace/governance.py\<close>): proposals to change parameters, weighted votes and
  their tally in binary64 arithmetic.  \<open>datetime.now()\<close> is an argument in microseconds, a fresh uuid an argument.
  A method that raises may have changed the state before (a late vote marks the proposal expired), so a result pairs
  the exception with the state.
\<close>

section \<open>Data\<close>

datatype vote_choice = YES | NO | ABSTAIN

datatype proposal_status = PENDING | ACTIVE | PASSED | REJECTED | EXECUTED | EXPIRED

text \<open>The value proposed for a parameter, of type \<open>Any\<close>: the floats that are no number and the two infinities
  (\<open>PInf True\<close> is the positive one) included.\<close>

datatype param_value = PInt int | PFloat pyfloat | PNan | PInf bool | PBool bool | POther string

record proposal =
  pr_title :: string
  pr_description :: string
  pr_parameter_changes :: "(string, param_value) table"
  pr_proposer :: string
  pr_stake :: pyfloat
  pr_status :: proposal_status
  pr_created_at :: int
  pr_voting_start :: "int option"
  pr_voting_end :: "int option"

record ballot =
  bl_choice :: vote_choice
  bl_weight :: pyfloat
  bl_timestamp :: int

record governance_system =
  gv_proposals :: "(string, proposal) table"
  gv_votes :: "(string, (string, ballot) table) table"
  gv_parameters :: "(string, param_value) table"
  gv_min_stake :: pyfloat
  gv_voting_period :: int
  gv_quorum_percentage :: pyfloat
  gv_approval_threshold :: pyfloat
  gv_total_voting_weight :: pyfloat
  gv_registered_voters :: "(string, pyfloat) table"

datatype governance_error =
    WeightNotPositive | InsufficientStake | NotGovernable string | InvalidParameter string | NoSuchProposal
  | WrongStatus | VotingNotActive | VotingExpired | VoterNotRegistered | WeightTooLarge | NoSuchParameter

type_synonym 'r governance_result = "(governance_error + 'r) \<times> governance_system"

definition DEFAULT_PARAMS :: "(string, param_value) table" where
  "DEFAULT_PARAMS =
     [(''k_plan'', PInt 3), (''k_result'', PInt 5), (''bounty_cap'', PFloat 1000), (''slashing_percentage'', PFloat (rnd (1 / 10)))]"

definition new_governance :: "pyfloat \<Rightarrow> int \<Rightarrow> pyfloat \<Rightarrow> pyfloat \<Rightarrow> governance_system" where
  "new_governance min_stake voting_period_hours quorum_percentage approval_threshold =
     \<lparr>gv_proposals = [], gv_votes = [], gv_parameters = DEFAULT_PARAMS, gv_min_stake = min_stake,
      gv_voting_period = voting_period_hours * 3600 * 1000000, gv_quorum_percentage = quorum_percentage,
      gv_approval_threshold = approval_threshold, gv_total_voting_weight = 0, gv_registered_voters = []\<rparr>"

section \<open>Operations\<close>

definition register_voter :: "string \<Rightarrow> pyfloat \<Rightarrow> governance_system \<Rightarrow> unit governance_result" where
  "register_voter voter_id weight g =
     (if weight \<le> 0 then (Inl WeightNotPositive, g)
      else
        let old_weight = (case map_of (gv_registered_voters g) voter_id of None \<Rightarrow> 0 | Some w \<Rightarrow> w)
        in (Inr (), g\<lparr>gv_registered_voters := AList.update voter_id weight (gv_registered_voters g),
               gv_total_voting_weight := fadd (fsub (gv_total_voting_weight g) old_weight) weight\<rparr>))"

text \<open>\<open>isinstance\<close> takes a bool for an int; a number is compared by its value.\<close>

definition int_value :: "param_value \<Rightarrow> int option" where
  "int_value v = (case v of PInt n \<Rightarrow> Some n | PBool b \<Rightarrow> Some (of_bool b) | _ \<Rightarrow> None)"

definition number_value :: "param_value \<Rightarrow> rat option" where
  "number_value v = (case v of PFloat x \<Rightarrow> Some x | _ \<Rightarrow> map_option of_int (int_value v))"

text \<open>What passes \<open>isinstance(value, (int, float))\<close> and fails \<open>value <= 0\<close>: a comparison with NaN is false.\<close>

definition not_below_zero :: "param_value \<Rightarrow> bool" where
  "not_below_zero v =
     (case v of
        PNan \<Rightarrow> True
      | PInf up \<Rightarrow> up
      | _ \<Rightarrow> (case number_value v of None \<Rightarrow> False | Some x \<Rightarrow> x > 0))"

definition valid_value :: "string \<Rightarrow> param_value \<Rightarrow> bool" where
  "valid_value param v =
     (if param = ''k_plan'' \<or> param = ''k_result'' then (case int_value v of None \<Rightarrow> False | Some n \<Rightarrow> n > 0)
      else if param = ''bounty_cap'' then not_below_zero v
      else if param = ''slashing_percentage'' then (case number_value v of None \<Rightarrow> False | Some x \<Rightarrow> 0 \<le> x \<and> x \<le> 1)
      else True)"

fun validate_parameter_changes :: "(string, param_value) table \<Rightarrow> governance_error + unit" where
  "validate_parameter_changes [] = Inr ()"
| "validate_parameter_changes ((param, v) # changes) =
     (if valid_value param v then validate_parameter_changes changes else Inl (InvalidParameter param))"

definition submit_proposal ::
  "string \<Rightarrow> string \<Rightarrow> string \<Rightarrow> string \<Rightarrow> (string, param_value) table \<Rightarrow> pyfloat \<Rightarrow> int \<Rightarrow> governance_system \<Rightarrow> string governance_result" where
  "submit_proposal proposal_id proposer title description changes stake now g =
     (if stake < gv_min_stake g then (Inl InsufficientStake, g)
      else
        case List.find (\<lambda>p. \<not> has_key p DEFAULT_PARAMS) (keys changes) of
          Some p \<Rightarrow> (Inl (NotGovernable p), g)
        | None \<Rightarrow>
            (case validate_parameter_changes changes of
               Inl e \<Rightarrow> (Inl e, g)
             | Inr u \<Rightarrow>
                 (Inr proposal_id, g\<lparr>gv_proposals := AList.update proposal_id
                    \<lparr>pr_title = title, pr_description = description, pr_parameter_changes = changes, pr_proposer = proposer,
                     pr_stake = stake, pr_status = PENDING, pr_created_at = now, pr_voting_start = None, pr_voting_end = None\<rparr>
                    (gv_proposals g)\<rparr>)))"

definition set_status :: "string \<Rightarrow> proposal_status \<Rightarrow> governance_system \<Rightarrow> governance_system" where
  "set_status proposal_id s g = g\<lparr>gv_proposals := update_row proposal_id (\<lambda>p. p\<lparr>pr_status := s\<rparr>) (gv_proposals g)\<rparr>"

definition start_voting :: "string \<Rightarrow> int \<Rightarrow> governance_system \<Rightarrow> unit governance_result" where
  "start_voting proposal_id now g =
     (case map_of (gv_proposals g) proposal_id of
        None \<Rightarrow> (Inl NoSuchProposal, g)
      | Some p \<Rightarrow>
          if pr_status p \<noteq> PENDING then (Inl WrongStatus, g)
          else (Inr (), g\<lparr>gv_proposals := update_row proposal_id
                 (\<lambda>p. p\<lparr>pr_status := ACTIVE, pr_voting_start := Some now, pr_voting_end := Some (now + gv_voting_period g)\<rparr>) (gv_proposals g),
               gv_votes := AList.update proposal_id [] (gv_votes g)\<rparr>))"

definition vote :: "string \<Rightarrow> string \<Rightarrow> vote_choice \<Rightarrow> pyfloat \<Rightarrow> int \<Rightarrow> int \<Rightarrow> governance_system \<Rightarrow> unit governance_result" where
  "vote proposal_id voter_id choice weight now later g =
     (case map_of (gv_proposals g) proposal_id of
        None \<Rightarrow> (Inl NoSuchProposal, g)
      | Some p \<Rightarrow>
          if pr_status p \<noteq> ACTIVE then (Inl VotingNotActive, g)
          else if (case pr_voting_end p of None \<Rightarrow> False | Some e \<Rightarrow> now > e)
          then (Inl VotingExpired, set_status proposal_id EXPIRED g)
          else if weight \<le> 0 then (Inl WeightNotPositive, g)
          else
            case map_of (gv_registered_voters g) voter_id of
              None \<Rightarrow> (Inl VoterNotRegistered, g)
            | Some w \<Rightarrow>
                if weight > w then (Inl WeightTooLarge, g)
                else
                  (Inr (), g\<lparr>gv_votes := update_row proposal_id
                     (\<lambda>vs. AList.update voter_id \<lparr>bl_choice = choice, bl_weight = weight, bl_timestamp = later\<rparr> vs) (gv_votes g)\<rparr>))"

text \<open>Without any ballots the dictionary has no entry \<open>approval_met\<close>.\<close>

record tally =
  tl_yes_votes :: pyfloat
  tl_no_votes :: pyfloat
  tl_abstain_votes :: pyfloat
  tl_total_votes :: pyfloat
  tl_quorum_met :: bool
  tl_approval_met :: "bool option"
  tl_passed :: bool

definition count_votes :: "(string, ballot) table \<Rightarrow> pyfloat \<times> pyfloat \<times> pyfloat" where
  "count_votes vs = foldl (\<lambda>(yes_votes, no_votes, abstain_votes) (v, b).
       case bl_choice b of
         YES \<Rightarrow> (fadd yes_votes (bl_weight b), no_votes, abstain_votes)
       | NO \<Rightarrow> (yes_votes, fadd no_votes (bl_weight b), abstain_votes)
       | ABSTAIN \<Rightarrow> (yes_votes, no_votes, fadd abstain_votes (bl_weight b))) (0, 0, 0) vs"

definition tally_votes :: "string \<Rightarrow> governance_system \<Rightarrow> governance_error + tally" where
  "tally_votes proposal_id g =
     (if \<not> has_key proposal_id (gv_proposals g) then Inl NoSuchProposal
      else
        case map_of (gv_votes g) proposal_id of
          None \<Rightarrow> Inr \<lparr>tl_yes_votes = 0, tl_no_votes = 0, tl_abstain_votes = 0, tl_total_votes = 0, tl_quorum_met = False, tl_approval_met = None, tl_passed = False\<rparr>
        | Some vs \<Rightarrow>
            let (yes_votes, no_votes, abstain_votes) = count_votes vs;
                total_votes = fadd (fadd yes_votes no_votes) abstain_votes;
                quorum_met = (if gv_total_voting_weight g > 0
                              then fdiv total_votes (gv_total_voting_weight g) \<ge> gv_quorum_percentage g else False);
                votes_for_approval = fadd yes_votes no_votes;
                approval_met = (if votes_for_approval > 0 then fdiv yes_votes votes_for_approval \<ge> gv_approval_threshold g else False)
            in Inr \<lparr>tl_yes_votes = yes_votes, tl_no_votes = no_votes, tl_abstain_votes = abstain_votes,
                 tl_total_votes = total_votes, tl_quorum_met = quorum_met,
                 tl_approval_met = Some approval_met, tl_passed = quorum_met \<and> approval_met\<rparr>)"

definition finalize_proposal :: "string \<Rightarrow> governance_system \<Rightarrow> unit governance_result" where
  "finalize_proposal proposal_id g =
     (case map_of (gv_proposals g) proposal_id of
        None \<Rightarrow> (Inl NoSuchProposal, g)
      | Some p \<Rightarrow>
          if pr_status p \<noteq> ACTIVE then (Inl WrongStatus, g)
          else
            case tally_votes proposal_id g of
              Inl e \<Rightarrow> (Inl e, g)
            | Inr r \<Rightarrow> (Inr (), set_status proposal_id (if tl_passed r then PASSED else REJECTED) g))"

definition apply_changes :: "(string, param_value) table \<Rightarrow> (string, param_value) table \<Rightarrow> (string, param_value) table" where
  "apply_changes changes params = foldl (\<lambda>ps (k, v). AList.update k v ps) params changes"

definition execute_proposal :: "string \<Rightarrow> governance_system \<Rightarrow> unit governance_result" where
  "execute_proposal proposal_id g =
     (case map_of (gv_proposals g) proposal_id of
        None \<Rightarrow> (Inl NoSuchProposal, g)
      | Some p \<Rightarrow>
          if pr_status p \<noteq> PASSED then (Inl WrongStatus, g)
          else (Inr (), set_status proposal_id EXECUTED
                 (g\<lparr>gv_parameters := apply_changes (pr_parameter_changes p) (gv_parameters g)\<rparr>)))"

definition get_parameter :: "string \<Rightarrow> governance_system \<Rightarrow> governance_error + param_value" where
  "get_parameter param_name g = (case map_of (gv_parameters g) param_name of None \<Rightarrow> Inl NoSuchParameter | Some v \<Rightarrow> Inr v)"

definition get_proposal :: "string \<Rightarrow> governance_system \<Rightarrow> proposal option" where
  "get_proposal proposal_id g = map_of (gv_proposals g) proposal_id"

definition list_proposals :: "proposal_status option \<Rightarrow> governance_system \<Rightarrow> proposal list" where
  "list_proposals status g =
     (case status of
        None \<Rightarrow> map snd (gv_proposals g)
      | Some s \<Rightarrow> filter (\<lambda>p. pr_status p = s) (map snd (gv_proposals g)))"

end
