(* ===== verification/GovernanceProps.thy ===== *)
theory GovernanceProps
  imports Governance
begin

text \<open>
  Correctness of governance: the parameters stay well-typed, they change only by executing a proposal whose tally passed,
  each at most once, and the tally of integer weights is the exact one.
\<close>

section \<open>Governance as a machine\<close>

datatype gov_cmd =
    Register string pyfloat
  | Submit string string string string "(string, param_value) table" pyfloat int
  | Start string int
  | Vote string string vote_choice pyfloat int int
  | Finalize string
  | Execute string

text \<open>The state a call leaves, also when it raises.  A fresh uuid is one no proposal has.\<close>

fun gov_step :: "gov_cmd \<Rightarrow> governance_system \<Rightarrow> governance_error + governance_system" where
  "gov_step (Register v w) g = Inr (snd (register_voter v w g))"
| "gov_step (Submit i p t d ch st now) g =
     (if has_key i (gv_proposals g) then Inl WrongStatus else Inr (snd (submit_proposal i p t d ch st now g)))"
| "gov_step (Start i now) g = Inr (snd (start_voting i now g))"
| "gov_step (Vote i v c w now later) g = Inr (snd (vote i v c w now later g))"
| "gov_step (Finalize i) g = Inr (snd (finalize_proposal i g))"
| "gov_step (Execute i) g = Inr (snd (execute_proposal i g))"

lemmas gov_defs = register_voter_def submit_proposal_def start_voting_def vote_def finalize_proposal_def execute_proposal_def
  set_status_def Let_def

section \<open>Parameters stay well-typed\<close>

definition params_ok :: "(string, param_value) table \<Rightarrow> bool" where
  "params_ok ps \<longleftrightarrow> keys ps = keys DEFAULT_PARAMS \<and> (\<forall>k v. map_of ps k = Some v \<longrightarrow> valid_value k v)"

definition changes_ok :: "(string, param_value) table \<Rightarrow> bool" where
  "changes_ok ch \<longleftrightarrow> (\<forall>k v. (k, v) \<in> set ch \<longrightarrow> has_key k DEFAULT_PARAMS \<and> valid_value k v)"

definition governance_ok :: "governance_system \<Rightarrow> bool" where
  "governance_ok g \<longleftrightarrow> params_ok (gv_parameters g) \<and>
     (\<forall>i p. map_of (gv_proposals g) i = Some p \<longrightarrow> changes_ok (pr_parameter_changes p))"

lemma keys_update_present: "k \<in> set (keys t) \<Longrightarrow> keys (AList.update k v t) = keys t"
  by (induction t) auto

lemma params_ok_update:
  assumes "params_ok ps" and "has_key k DEFAULT_PARAMS" and "valid_value k v"
  shows "params_ok (AList.update k v ps)"
  using assms keys_update_present [of k ps v] by (auto simp: params_ok_def has_key_iff split: if_splits)

lemma params_ok_apply: "params_ok ps \<Longrightarrow> changes_ok ch \<Longrightarrow> params_ok (apply_changes ch ps)"
proof (induction ch arbitrary: ps)
  case (Cons x ch)
  obtain k v where x: "x = (k, v)" by (cases x)
  from Cons.prems have "params_ok (AList.update k v ps)" "changes_ok ch"
    by (auto simp: changes_ok_def x intro: params_ok_update)
  from Cons.IH [OF this] show ?case by (simp add: apply_changes_def x)
qed (simp add: apply_changes_def)

lemma validate_ok: "validate_parameter_changes ch = Inr u \<Longrightarrow> (k, v) \<in> set ch \<Longrightarrow> valid_value k v"
  by (induction ch rule: validate_parameter_changes.induct) (auto split: if_splits)

lemma find_None_governable: "List.find (\<lambda>p. \<not> has_key p DEFAULT_PARAMS) (keys ch) = None \<Longrightarrow> (k, v) \<in> set ch \<Longrightarrow> has_key k DEFAULT_PARAMS"
  by (force simp: find_None_iff)

lemma governance_ok_frame:
  assumes "governance_ok g" and "gv_parameters g' = gv_parameters g"
    and "\<And>i p'. map_of (gv_proposals g') i = Some p' \<Longrightarrow>
           (\<exists>p. map_of (gv_proposals g) i = Some p \<and> pr_parameter_changes p' = pr_parameter_changes p) \<or> changes_ok (pr_parameter_changes p')"
  shows "governance_ok g'"
  using assms unfolding governance_ok_def by metis

lemma governance_ok_step:
  assumes "governance_ok g" and "gov_step c g = Inr g'"
  shows "governance_ok g'"
proof (cases c)
  case (Submit i p t d ch st now)
  have "changes_ok ch" if "List.find (\<lambda>p. \<not> has_key p DEFAULT_PARAMS) (keys ch) = None" "validate_parameter_changes ch = Inr u" for u
    using find_None_governable [OF that(1)] validate_ok [OF that(2)] by (auto simp: changes_ok_def)
  then show ?thesis
    using assms by (intro governance_ok_frame [OF assms(1)])
      (auto simp: Submit submit_proposal_def split: if_splits option.splits sum.splits)
next
  case (Execute i)
  then show ?thesis
    using assms by (auto simp: gov_defs governance_ok_def intro!: params_ok_apply split: option.splits if_splits)
qed (use assms in \<open>intro governance_ok_frame [OF assms(1)];
      auto simp: gov_defs split: option.splits if_splits sum.splits\<close>)+

interpretation governance: guarded_machine gov_step governance_ok
  by unfold_locales (rule governance_ok_step)

lemma governance_ok_new: "governance_ok (new_governance m h q a)"
  by (simp add: governance_ok_def new_governance_def params_ok_def DEFAULT_PARAMS_def valid_value_def int_value_def number_value_def not_below_zero_def rnd_nonneg)
     (code_simp)


text \<open>
  Claim C28.  Whatever sequence of calls is made, the governable parameters are always the four defaults and have
  values the validation lets pass: the two quorum sizes are positive integers, the slashing percentage lies between 0
  and 1, and the bounty cap is a positive number, positive infinity or NaN (which passes the test \<open>value <= 0\<close>, see
  \<open>bounty_cap_can_be_nan\<close>).
\<close>

theorem parameters_well_typed:
  "let ps = gv_parameters (run_cmds gov_step cs (new_governance m h q a)) in
   keys ps = [''k_plan'', ''k_result'', ''bounty_cap'', ''slashing_percentage''] \<and>
   (\<exists>v n. map_of ps ''k_plan'' = Some v \<and> int_value v = Some n \<and> 0 < n) \<and>
   (\<exists>v n. map_of ps ''k_result'' = Some v \<and> int_value v = Some n \<and> 0 < n) \<and>
   (\<exists>v. map_of ps ''bounty_cap'' = Some v \<and> (v = PNan \<or> v = PInf True \<or> (\<exists>x. number_value v = Some x \<and> 0 < x))) \<and>
   (\<exists>v x. map_of ps ''slashing_percentage'' = Some v \<and> number_value v = Some x \<and> 0 \<le> x \<and> x \<le> 1)"
proof -
  let ?ps = "gv_parameters (run_cmds gov_step cs (new_governance m h q a))"
  have ok: "params_ok ?ps"
    using governance.run_inv [OF governance_ok_new, of cs m h q a] by (simp add: governance_ok_def)
  then have k: "keys ?ps = [''k_plan'', ''k_result'', ''bounty_cap'', ''slashing_percentage'']"
    by (simp add: params_ok_def DEFAULT_PARAMS_def)
  have present: "\<exists>v. map_of ?ps p = Some v \<and> valid_value p v" if mem: "p \<in> set (keys ?ps)" for p
  proof -
    from mem have "map_of ?ps p \<noteq> None" by (simp add: map_of_eq_None_iff)
    with ok show ?thesis by (auto simp: params_ok_def)
  qed
  have cap: "v = PNan \<or> v = PInf True \<or> (\<exists>x. number_value v = Some x \<and> 0 < x)" if "valid_value ''bounty_cap'' v" for v
    using that by (cases v) (auto simp: valid_value_def not_below_zero_def split: option.splits)
  obtain w where w: "map_of ?ps ''bounty_cap'' = Some w" "valid_value ''bounty_cap'' w"
    using k present [of "''bounty_cap''"] by auto
  show ?thesis
    unfolding Let_def
    using k cap [OF w(2)] w(1) present [of "''k_plan''"] present [of "''k_result''"] present [of "''slashing_percentage''"]
    by (auto simp: valid_value_def split: option.splits)
qed

section \<open>The life of a proposal\<close>

definition status_of :: "string \<Rightarrow> governance_system \<Rightarrow> proposal_status option" where
  "status_of i g = map_option pr_status (map_of (gv_proposals g) i)"

definition stage :: "proposal_status option \<Rightarrow> nat" where
  "stage s = (case s of None \<Rightarrow> 0 | Some PENDING \<Rightarrow> 1 | Some ACTIVE \<Rightarrow> 2 | Some PASSED \<Rightarrow> 3 | Some EXECUTED \<Rightarrow> 4
     | Some REJECTED \<Rightarrow> 5 | Some EXPIRED \<Rightarrow> 5)"

lemma step_status:
  assumes "gov_step c g = Inr g'" and "status_of i g' \<noteq> status_of i g"
  shows "(status_of i g = None \<and> status_of i g' = Some PENDING) \<or>
    (status_of i g = Some PENDING \<and> status_of i g' = Some ACTIVE \<and> (\<exists>now. c = Start i now)) \<or>
    (status_of i g = Some ACTIVE \<and> status_of i g' = Some EXPIRED) \<or>
    (status_of i g = Some ACTIVE \<and> c = Finalize i \<and>
       (\<exists>r. tally_votes i g = Inr r \<and> status_of i g' = Some (if tl_passed r then PASSED else REJECTED))) \<or>
    (status_of i g = Some PASSED \<and> c = Execute i \<and> status_of i g' = Some EXECUTED)"
  using assms
  by (cases c) (auto simp: gov_defs status_of_def has_key_def split: option.splits if_splits sum.splits)

interpretation proposal_life: monotone_machine gov_step "\<lambda>_. True" "\<lambda>g. stage (status_of i g)" for i
proof
  fix g c g'
  assume "gov_step c g = Inr g'"
  then show "stage (status_of i g) \<le> stage (status_of i g')"
    using step_status [of c g g' i] by (cases "status_of i g' = status_of i g") (auto simp: stage_def)
qed simp

lemma step_params:
  assumes "gov_step c g = Inr g'" and "gv_parameters g' \<noteq> gv_parameters g"
  shows "\<exists>i p. c = Execute i \<and> map_of (gv_proposals g) i = Some p \<and> pr_status p = PASSED \<and>
    gv_parameters g' = apply_changes (pr_parameter_changes p) (gv_parameters g)"
  using assms by (cases c) (auto simp: gov_defs split: option.splits if_splits sum.splits)

text \<open>
  Claim C27.  The parameters change only when a passed proposal is executed, and then by its changes; a proposal becomes
  passed only when it is finalized while active and its tally passes; and it is executed at most once, whatever
  happens afterwards.
\<close>

theorem parameters_change_authorised:
  assumes "gov_step c g = Inr g'"
  shows "(gv_parameters g' \<noteq> gv_parameters g \<longrightarrow>
      (\<exists>i p. c = Execute i \<and> get_proposal i g = Some p \<and> pr_status p = PASSED \<and>
        gv_parameters g' = apply_changes (pr_parameter_changes p) (gv_parameters g))) \<and>
    (status_of i g' = Some PASSED \<longrightarrow> status_of i g = Some PASSED \<or>
      status_of i g = Some ACTIVE \<and> c = Finalize i \<and> (\<exists>r. tally_votes i g = Inr r \<and> tl_passed r)) \<and>
    (status_of i g' = Some EXECUTED \<longrightarrow> fst (execute_proposal i (run_cmds gov_step cs g')) = Inl WrongStatus)"
proof -
  have "fst (execute_proposal i (run_cmds gov_step cs g')) = Inl WrongStatus" if "status_of i g' = Some EXECUTED"
  proof -
    have "stage (status_of i g') \<le> stage (status_of i (run_cmds gov_step cs g'))"
      by (rule proposal_life.run_level) simp
    with that have "4 \<le> stage (status_of i (run_cmds gov_step cs g'))" by (simp add: stage_def)
    then show ?thesis
      by (auto simp: stage_def status_of_def execute_proposal_def split: option.splits proposal_status.splits)
  qed
  with step_params [OF assms] step_status [OF assms, of i] show ?thesis
    by (cases "status_of i g' = status_of i g") (auto simp: get_proposal_def split: if_splits)
qed

definition demo_gov_cmds :: "gov_cmd list" where
  "demo_gov_cmds = [Register ''a'' 60, Register ''b'' 40, Submit ''p'' ''a'' ''t'' ''d'' [(''k_plan'', PInt 7)] 100 1, Start ''p'' 2,
     Vote ''p'' ''a'' YES 60 3 3, Vote ''p'' ''b'' NO 40 4 4, Finalize ''p'']"

definition demo_gov :: governance_system where
  "demo_gov = run_cmds gov_step demo_gov_cmds (new_governance 100 168 (1 / 4) (1 / 2))"

theorem parameters_change_authorised_witness:
  "\<exists>g'. gov_step (Execute ''p'') demo_gov = Inr g' \<and> map_of (gv_parameters g') ''k_plan'' = Some (PInt 7) \<and>
     fst (execute_proposal ''p'' (run_cmds gov_step [Register ''c'' 5, Finalize ''p''] g')) = Inl WrongStatus"
proof -
  obtain g' where g': "gov_step (Execute ''p'') demo_gov = Inr g'" by simp
  have "let g = snd (execute_proposal ''p'' demo_gov) in map_of (gv_parameters g) ''k_plan'' = Some (PInt 7) \<and> status_of ''p'' g = Some EXECUTED"
    by code_simp
  then have "map_of (gv_parameters g') ''k_plan'' = Some (PInt 7)" "status_of ''p'' g' = Some EXECUTED"
    using g' by simp_all
  with parameters_change_authorised [OF g', of "''p''" "[Register ''c'' 5, Finalize ''p'']"] g' show ?thesis by blast
qed

text \<open>A bounty cap of NaN is accepted, voted for and executed.\<close>

lemma bounty_cap_can_be_nan:
  "map_of (gv_parameters (run_cmds gov_step
     [Register ''a'' 60, Submit ''p'' ''a'' ''t'' ''d'' [(''bounty_cap'', PNan)] 100 1, Start ''p'' 2,
      Vote ''p'' ''a'' YES 60 3 3, Finalize ''p'', Execute ''p''] (new_governance 100 168 (1 / 4) (1 / 2)))) ''bounty_cap'' = Some PNan"
  by code_simp

section \<open>The tally\<close>

definition whole_ballots :: "(string, ballot) table \<Rightarrow> bool" where
  "whole_ballots vs \<longleftrightarrow> (\<forall>(v, b) \<in> set vs. 0 \<le> bl_weight b \<and> of_int \<lfloor>bl_weight b\<rfloor> = bl_weight b)"

definition weight_for :: "vote_choice \<Rightarrow> (string, ballot) table \<Rightarrow> int" where
  "weight_for c vs = sum_list (map (\<lambda>(v, b). if bl_choice b = c then \<lfloor>bl_weight b\<rfloor> else 0) vs)"

lemma weight_for_nonneg: "whole_ballots vs \<Longrightarrow> 0 \<le> weight_for c vs"
  unfolding weight_for_def by (rule sum_list_nonneg) (force simp: whole_ballots_def)

lemma weight_for_Cons [simp]:
  "weight_for c ((v, b) # vs) = (if bl_choice b = c then \<lfloor>bl_weight b\<rfloor> else 0) + weight_for c vs"
  by (simp add: weight_for_def)

lemma fadd_whole: "0 \<le> y \<Longrightarrow> 0 \<le> k \<Longrightarrow> y + k \<le> 2 ^ 53 \<Longrightarrow> fadd (of_int y) (of_int k) = of_int (y + k)"
  unfolding fadd_def of_int_add [symmetric] by (rule rnd_of_int) simp

lemma count_votes_whole:
  assumes "whole_ballots vs" and "0 \<le> y" "0 \<le> n" "0 \<le> a"
    and "y + n + a + weight_for YES vs + weight_for NO vs + weight_for ABSTAIN vs \<le> 2 ^ 53"
  shows "foldl (\<lambda>(yes_votes, no_votes, abstain_votes) (v, b).
       case bl_choice b of
         YES \<Rightarrow> (fadd yes_votes (bl_weight b), no_votes, abstain_votes)
       | NO \<Rightarrow> (yes_votes, fadd no_votes (bl_weight b), abstain_votes)
       | ABSTAIN \<Rightarrow> (yes_votes, no_votes, fadd abstain_votes (bl_weight b))) (of_int y, of_int n, of_int a) vs
     = (of_int (y + weight_for YES vs), of_int (n + weight_for NO vs), of_int (a + weight_for ABSTAIN vs))"
  using assms
proof (induction vs arbitrary: y n a)
  case Nil
  then show ?case by (simp add: weight_for_def)
next
  case (Cons x vs)
  obtain v b where x: "x = (v, b)" by (cases x)
  define k where "k = \<lfloor>bl_weight b\<rfloor>"
  from Cons.prems(1) have w: "bl_weight b = of_int k" "0 \<le> k" and vs: "whole_ballots vs"
    by (auto simp: whole_ballots_def x k_def)
  have kf: "\<lfloor>bl_weight b\<rfloor> = k" by (simp add: k_def)
  have ge: "0 \<le> weight_for c vs" for c by (rule weight_for_nonneg [OF vs])
  have small: "y + k \<le> 2 ^ 53" if "bl_choice b = YES" using that Cons.prems ge [of YES] ge [of NO] ge [of ABSTAIN] by (simp add: x kf)
  have small': "n + k \<le> 2 ^ 53" if "bl_choice b = NO" using that Cons.prems ge [of YES] ge [of NO] ge [of ABSTAIN] by (simp add: x kf)
  have small'': "a + k \<le> 2 ^ 53" if "bl_choice b = ABSTAIN" using that Cons.prems ge [of YES] ge [of NO] ge [of ABSTAIN] by (simp add: x kf)
  show ?case
  proof (cases "bl_choice b")
    case YES
    with Cons.IH [OF vs, of "y + k" n a] Cons.prems w small show ?thesis by (simp add: x fadd_whole kf algebra_simps del: of_int_add)
  next
    case NO
    with Cons.IH [OF vs, of y "n + k" a] Cons.prems w small' show ?thesis by (simp add: x fadd_whole kf algebra_simps del: of_int_add)
  next
    case ABSTAIN
    with Cons.IH [OF vs, of y n "a + k"] Cons.prems w small'' show ?thesis by (simp add: x fadd_whole kf algebra_simps del: of_int_add)
  qed
qed

lemma one_fifth_exact:
  assumes "0 < T" and "T \<le> 2 ^ 44"
  shows "rnd (1 / 5) \<le> fdiv (of_int m) (of_int T) \<longleftrightarrow> T \<le> 5 * m"
proof -
  have "rnd (of_int 1 / of_int 5 - 1 / (of_int 5 * of_int (2 ^ 44))) < rnd (of_int 1 / of_int 5)" by code_simp
  from rnd_fraction_threshold [OF assms _ this] show ?thesis by (simp add: fdiv_def)
qed

lemma majority_exact:
  assumes "0 < n" and "n \<le> 2 ^ 44"
  shows "rnd (51 / 100) \<le> fdiv (of_int m) (of_int n) \<longleftrightarrow> 51 * n \<le> 100 * m"
proof -
  have "rnd (of_int 51 / of_int 100 - 1 / (of_int 100 * of_int (2 ^ 44))) < rnd (of_int 51 / of_int 100)" by code_simp
  from rnd_fraction_threshold [OF assms _ this] show ?thesis by (simp add: fdiv_def)
qed

text \<open>
  With the default thresholds (a fifth of the registered weight must vote, 51% of the yes and no votes must be yes)
  and whole weights of at most 2^44 in all, the tally in floats is the exact one: the three sums, the quorum and
  the result are those of the integers.
\<close>

theorem tally_exact:
  assumes "has_key i (gv_proposals g)" and "map_of (gv_votes g) i = Some vs" and "whole_ballots vs"
    and "gv_total_voting_weight g = of_int T" and "0 < T" and "T \<le> 2 ^ 44"
    and "weight_for YES vs + weight_for NO vs + weight_for ABSTAIN vs \<le> 2 ^ 44"
    and "gv_quorum_percentage g = rnd (1 / 5)" and "gv_approval_threshold g = rnd (51 / 100)"
  shows "\<exists>r. tally_votes i g = Inr r \<and> tl_yes_votes r = of_int (weight_for YES vs) \<and> tl_no_votes r = of_int (weight_for NO vs) \<and>
    tl_abstain_votes r = of_int (weight_for ABSTAIN vs) \<and>
    (tl_quorum_met r \<longleftrightarrow> T \<le> 5 * (weight_for YES vs + weight_for NO vs + weight_for ABSTAIN vs)) \<and>
    (tl_passed r \<longleftrightarrow> tl_quorum_met r \<and> 0 < weight_for YES vs + weight_for NO vs \<and>
       51 * (weight_for YES vs + weight_for NO vs) \<le> 100 * weight_for YES vs)"
proof -
  let ?y = "weight_for YES vs" and ?n = "weight_for NO vs" and ?a = "weight_for ABSTAIN vs"
  note ge = weight_for_nonneg [OF assms(3)]
  have c: "count_votes vs = (of_int ?y, of_int ?n, of_int ?a)"
    using count_votes_whole [OF assms(3), of 0 0 0] assms(7) by (simp add: count_votes_def)
  have yn: "fadd (of_int ?y) (of_int ?n) = of_int (?y + ?n)" and t: "fadd (of_int (?y + ?n)) (of_int ?a) = of_int (?y + ?n + ?a)"
    using ge [of YES] ge [of NO] ge [of ABSTAIN] assms(7) by (simp_all add: fadd_whole del: of_int_add)
  have "rnd (51 / 100) \<le> fdiv (of_int ?y) (of_int (?y + ?n)) \<longleftrightarrow> 51 * (?y + ?n) \<le> 100 * ?y" if "0 < ?y + ?n"
    using that ge [of ABSTAIN] assms(7) by (intro majority_exact) simp_all
  then show ?thesis
    using assms one_fifth_exact [OF assms(5,6), of "?y + ?n + ?a"] c yn t
    by (auto simp: tally_votes_def Let_def simp del: of_int_add)
qed

definition demo_ballots :: "(string, ballot) table" where
  "demo_ballots = [(''a'', \<lparr>bl_choice = YES, bl_weight = 60, bl_timestamp = 3\<rparr>), (''b'', \<lparr>bl_choice = NO, bl_weight = 40, bl_timestamp = 4\<rparr>)]"

definition demo_poll :: governance_system where
  "demo_poll = (new_governance 100 168 (rnd (1 / 5)) (rnd (51 / 100)))
     \<lparr>gv_proposals := [(''p'', \<lparr>pr_title = [], pr_description = [], pr_parameter_changes = [], pr_proposer = ''a'', pr_stake = 100,
        pr_status = ACTIVE, pr_created_at = 1, pr_voting_start = Some 2, pr_voting_end = Some 9\<rparr>)],
      gv_votes := [(''p'', demo_ballots)], gv_total_voting_weight := 100\<rparr>"

theorem tally_exact_witness:
  "\<exists>r. tally_votes ''p'' demo_poll = Inr r \<and> tl_yes_votes r = 60 \<and> tl_quorum_met r \<and> tl_passed r"
proof -
  have e: "weight_for YES demo_ballots = 60" "weight_for NO demo_ballots = 40" "weight_for ABSTAIN demo_ballots = 0"
    by (simp_all add: demo_ballots_def weight_for_def)
  have c: "whole_ballots demo_ballots" by (simp add: demo_ballots_def whole_ballots_def)
  have "has_key ''p'' (gv_proposals demo_poll)" "map_of (gv_votes demo_poll) ''p'' = Some demo_ballots"
    "gv_total_voting_weight demo_poll = of_int 100"
    "gv_quorum_percentage demo_poll = rnd (1 / 5)" "gv_approval_threshold demo_poll = rnd (51 / 100)"
    by (simp_all add: demo_poll_def new_governance_def has_key_def)
  from tally_exact [OF this(1,2) c this(3) _ _ _ this(4,5)] e show ?thesis by auto
qed

end
