(* ===== verification/Patches.thy ===== *)
theory Patches
  imports Plan PyString "HOL-Library.Product_Lexorder"
begin

text \<open>
  Plan patches (\<open>plan/patching.py\<close>): validation, detection of conflicts and the merge of several patches into one list
  of operations.  An operation of a patch is a dictionary of which \<open>op_type\<close>, \<open>task_id\<close> and \<open>payload\<close> are read; a
  missing key is \<open>None\<close>.  Sets are visited in the order given by an argument; fresh uuids and the number of nested calls
  left by Python's recursion limit (\<open>depth\<close>) are arguments too.
\<close>

section \<open>Data\<close>

record patch_op =
  pp_op_type :: "string option"
  pp_task_id :: "string option"
  pp_payload :: "(string, json) table option"

record plan_patch =
  pt_patch_id :: string
  pt_actor_id :: string
  pt_base_lamport :: int
  pt_ops :: "patch_op list"
  pt_timestamp_ns :: int

definition op_type_of :: "string \<Rightarrow> plan_op_type option" where
  "op_type_of s = map_of [(''ADD_TASK'', ADD_TASK), (''REQUIRES'', REQUIRES), (''PRODUCES'', PRODUCES), (''STATE'', STATE),
     (''LINK'', LINK), (''ANNOTATE'', ANNOTATE)] s"

definition payload_or_empty :: "patch_op \<Rightarrow> (string, json) table" where
  "payload_or_empty op = (case pp_payload op of None \<Rightarrow> [] | Some p \<Rightarrow> p)"

section \<open>Validation\<close>

datatype patch_fault =
    MissingPatchId | MissingActorId | InvalidBaseLamport | EmptyOps
  | MissingOpType nat | MissingTaskId nat | InvalidOpType nat string | StateWithoutState nat | LinkWithoutEnds nat

definition op_fault :: "nat \<Rightarrow> patch_op \<Rightarrow> patch_fault option" where
  "op_fault idx op =
     (case pp_op_type op of
        None \<Rightarrow> Some (MissingOpType idx)
      | Some ty \<Rightarrow>
          if ty = [] then Some (MissingOpType idx)
          else if pp_task_id op = None \<or> pp_task_id op = Some [] then Some (MissingTaskId idx)
          else if op_type_of ty = None then Some (InvalidOpType idx ty)
          else if ty = ''STATE'' \<and> \<not> has_key ''state'' (payload_or_empty op) then Some (StateWithoutState idx)
          else if ty = ''LINK'' \<and> (\<not> has_key ''parent'' (payload_or_empty op) \<or> \<not> has_key ''child'' (payload_or_empty op))
          then Some (LinkWithoutEnds idx)
          else None)"

fun ops_fault :: "nat \<Rightarrow> patch_op list \<Rightarrow> patch_fault option" where
  "ops_fault idx [] = None"
| "ops_fault idx (op # ops) = (case op_fault idx op of Some e \<Rightarrow> Some e | None \<Rightarrow> ops_fault (Suc idx) ops)"

definition validate_patch :: "plan_patch \<Rightarrow> patch_fault option" where
  "validate_patch p =
     (if pt_patch_id p = [] then Some MissingPatchId
      else if pt_actor_id p = [] then Some MissingActorId
      else if pt_base_lamport p < 0 then Some InvalidBaseLamport
      else if pt_ops p = [] then Some EmptyOps
      else ops_fault 0 (pt_ops p))"

section \<open>Conflicts\<close>

datatype patch_error = MissingKey string | Unhashable | BadOpType | RecursionLimit

text \<open>Python's \<open>==\<close> on such values: \<open>True\<close> equals 1 and dictionaries are equal whatever their order.\<close>

fun py_eq :: "json \<Rightarrow> json \<Rightarrow> bool" where
  "py_eq JNull JNull = True"
| "py_eq (JBool a) (JBool b) = (a = b)"
| "py_eq (JBool a) (JInt n) = (of_bool a = n)"
| "py_eq (JInt n) (JBool a) = (of_bool a = n)"
| "py_eq (JInt m) (JInt n) = (m = n)"
| "py_eq (JStr s) (JStr t) = (s = t)"
| "py_eq (JList xs) (JList ys) = list_all2 py_eq xs ys"
| "py_eq (JObj xs) (JObj ys) =
     (length xs = length ys \<and> (\<forall>p \<in> set xs. case map_of ys (fst p) of None \<Rightarrow> False | Some w \<Rightarrow> py_eq (snd p) w))"
| "py_eq _ _ = False"

datatype conflict = StateConflict string string string | AddTaskConflict string string string

definition op_key :: "patch_op \<Rightarrow> patch_error + (string \<times> string)" where
  "op_key op =
     (case pp_task_id op of
        None \<Rightarrow> Inl (MissingKey ''task_id'')
      | Some t \<Rightarrow> (case pp_op_type op of None \<Rightarrow> Inl (MissingKey ''op_type'') | Some ty \<Rightarrow> Inr (t, ty)))"

definition optional_eq :: "json option \<Rightarrow> json option \<Rightarrow> bool" where
  "optional_eq a b = py_eq (case a of None \<Rightarrow> JNull | Some x \<Rightarrow> x) (case b of None \<Rightarrow> JNull | Some x \<Rightarrow> x)"

definition index_ops :: "patch_op list \<Rightarrow> patch_error + (string \<times> string, patch_op) table" where
  "index_ops ops = res_fold (\<lambda>op t. res_bind (op_key op) (\<lambda>k. Inr (AList.update k op t))) ops []"

definition conflict_with ::
  "plan_patch \<Rightarrow> (string \<times> string, patch_op) table \<Rightarrow> plan_patch \<Rightarrow> patch_op \<Rightarrow> conflict list \<Rightarrow> patch_error + conflict list" where
  "conflict_with patch patch_ops other other_op conflicts =
     res_bind (op_key other_op) (\<lambda>(task_id, op_type).
     case map_of patch_ops (task_id, op_type) of
       None \<Rightarrow> Inr conflicts
     | Some our_op \<Rightarrow>
         if op_type = ''STATE'' then
           Inr (if optional_eq (map_of (payload_or_empty our_op) ''state'') (map_of (payload_or_empty other_op) ''state'')
                then conflicts else conflicts @ [StateConflict task_id (pt_patch_id patch) (pt_patch_id other)])
         else if op_type = ''ADD_TASK'' then
           Inr (if optional_eq (map_option JObj (pp_payload our_op)) (map_option JObj (pp_payload other_op))
                then conflicts else conflicts @ [AddTaskConflict task_id (pt_patch_id patch) (pt_patch_id other)])
         else Inr conflicts)"

definition detect_conflicts :: "plan_patch \<Rightarrow> plan_patch list \<Rightarrow> patch_error + conflict list" where
  "detect_conflicts patch other_patches =
     res_bind (index_ops (pt_ops patch)) (\<lambda>patch_ops.
       res_fold (\<lambda>other conflicts.
         if pt_patch_id other = pt_patch_id patch then Inr conflicts
         else res_fold (conflict_with patch patch_ops other) (pt_ops other) conflicts) other_patches [])"

section \<open>Cycles\<close>

text \<open>A node is a hashable value; \<open>True\<close> and 1 are the same dictionary key.\<close>

definition node_of :: "json \<Rightarrow> patch_error + json" where
  "node_of v = (case v of JList _ \<Rightarrow> Inl Unhashable | JObj _ \<Rightarrow> Inl Unhashable | JBool b \<Rightarrow> Inr (JInt (of_bool b)) | _ \<Rightarrow> Inr v)"

definition next_at :: "(json, json set) table \<Rightarrow> json \<Rightarrow> json set" where
  "next_at g k = (case map_of g k of None \<Rightarrow> {} | Some s \<Rightarrow> s)"

definition link_graph :: "(json \<times> json) list \<Rightarrow> (json, json set) table" where
  "link_graph es = foldl (\<lambda>g (p, c). AList.update p (insert c (next_at g p)) g) [] es"

text \<open>The visited nodes and the recursion stack.  The first argument is the number of nested calls that Python's recursion
  limit still allows; a call beyond it raises RecursionError.\<close>

type_synonym visit_state = "json set \<times> json set"

function (sequential) has_cycle_from :: "nat \<Rightarrow> (json set \<Rightarrow> json list) \<Rightarrow> (json, json set) table \<Rightarrow> json \<Rightarrow> visit_state
     \<Rightarrow> patch_error + bool \<times> visit_state"
  and cycle_among :: "nat \<Rightarrow> (json set \<Rightarrow> json list) \<Rightarrow> (json, json set) table \<Rightarrow> json \<Rightarrow> json list \<Rightarrow> visit_state
     \<Rightarrow> patch_error + bool \<times> visit_state" where
  "has_cycle_from 0 order g n st = Inl RecursionLimit"
| "has_cycle_from (Suc k) order g n (visited, rec_stack) =
     cycle_among k order g n (order (next_at g n)) (insert n visited, insert n rec_stack)"
| "cycle_among k order g n [] (visited, rec_stack) = Inr (False, visited, rec_stack - {n})"
| "cycle_among k order g n (m # ms) (visited, rec_stack) =
     (if m \<notin> visited then
        (case has_cycle_from k order g m (visited, rec_stack) of
           Inl e \<Rightarrow> Inl e
         | Inr (True, st) \<Rightarrow> Inr (True, st)
         | Inr (False, st) \<Rightarrow> cycle_among k order g n ms st)
      else if m \<in> rec_stack then Inr (True, visited, rec_stack)
      else cycle_among k order g n ms (visited, rec_stack))"
  by pat_completeness auto

termination
  by (relation "measures [\<lambda>x. case x of Inl (k, _) \<Rightarrow> k | Inr (k, _) \<Rightarrow> k,
        \<lambda>x. case x of Inl (k, _) \<Rightarrow> 0 | Inr (k, order, g, n, ms, st) \<Rightarrow> Suc (length ms)]") auto

fun cycle_from_any :: "nat \<Rightarrow> (json set \<Rightarrow> json list) \<Rightarrow> (json, json set) table \<Rightarrow> json list \<Rightarrow> json set \<Rightarrow> patch_error + bool" where
  "cycle_from_any k order g [] visited = Inr False"
| "cycle_from_any k order g (n # ns) visited =
     (if n \<notin> visited then
        res_bind (has_cycle_from k order g n (visited, {})) (\<lambda>(found, visited', _).
          if found then Inr True else cycle_from_any k order g ns visited')
      else cycle_from_any k order g ns visited)"

definition detect_cycle :: "nat \<Rightarrow> (json set \<Rightarrow> json list) \<Rightarrow> (json \<times> json) list \<Rightarrow> json \<times> json \<Rightarrow> patch_error + bool" where
  "detect_cycle depth order edges new_edge =
     (let g = link_graph (edges @ [new_edge])
      in cycle_from_any depth order g (keys g) {})"

section \<open>Merging\<close>

record tagged_op =
  to_op :: patch_op
  to_patch_lamport :: int
  to_actor :: string

record merge_state =
  mg_merged_ops :: "(string \<times> string, tagged_op) table"
  mg_add_task_ops :: "(string, tagged_op) table"
  mg_link_edges :: "(json \<times> json) list"

definition tag_op :: "plan_patch \<Rightarrow> patch_op \<Rightarrow> tagged_op" where
  "tag_op patch op = \<lparr>to_op = op, to_patch_lamport = pt_base_lamport patch, to_actor = pt_actor_id patch\<rparr>"

definition keep_newer :: "'k \<Rightarrow> tagged_op \<Rightarrow> ('k, tagged_op) table \<Rightarrow> ('k, tagged_op) table" where
  "keep_newer k x t =
     (case map_of t k of
        None \<Rightarrow> AList.update k x t
      | Some old \<Rightarrow> if to_patch_lamport x > to_patch_lamport old then AList.update k x t else t)"

definition link_end :: "string \<Rightarrow> patch_op \<Rightarrow> patch_error + json" where
  "link_end k op =
     (case pp_payload op of
        None \<Rightarrow> Inl (MissingKey ''payload'')
      | Some payload \<Rightarrow> (case map_of payload k of None \<Rightarrow> Inl (MissingKey k) | Some v \<Rightarrow> Inr v))"

definition merge_op :: "nat \<Rightarrow> (json set \<Rightarrow> json list) \<Rightarrow> plan_patch \<Rightarrow> patch_op \<Rightarrow> merge_state \<Rightarrow> patch_error + merge_state" where
  "merge_op depth order patch op m =
     (case pp_op_type op of
        None \<Rightarrow> Inl (MissingKey ''op_type'')
      | Some op_type \<Rightarrow>
          (case pp_task_id op of
             None \<Rightarrow> Inl (MissingKey ''task_id'')
           | Some task_id \<Rightarrow>
               if op_type = ''ADD_TASK''
               then Inr (m\<lparr>mg_add_task_ops := keep_newer task_id (tag_op patch op) (mg_add_task_ops m)\<rparr>)
               else if op_type = ''STATE''
               then Inr (m\<lparr>mg_merged_ops := keep_newer (task_id, op_type) (tag_op patch op) (mg_merged_ops m)\<rparr>)
               else if op_type = ''LINK'' then
                 res_bind (link_end ''parent'' op) (\<lambda>parent.
                 res_bind (link_end ''child'' op) (\<lambda>child.
                 res_bind (node_of parent) (\<lambda>parent.
                 res_bind (node_of child) (\<lambda>child.
                 res_bind (detect_cycle depth order (mg_link_edges m) (parent, child)) (\<lambda>cyclic.
                 if cyclic then Inr m
                 else Inr (m\<lparr>mg_link_edges := mg_link_edges m @ [(parent, child)],
                            mg_merged_ops := AList.update (task_id, op_type) (tag_op patch op) (mg_merged_ops m)\<rparr>))))))
               else Inr (m\<lparr>mg_merged_ops := AList.update (task_id, op_type) (tag_op patch op) (mg_merged_ops m)\<rparr>)))"

definition merge_patch :: "nat \<Rightarrow> (json set \<Rightarrow> json list) \<Rightarrow> plan_patch \<Rightarrow> merge_state \<Rightarrow> patch_error + merge_state" where
  "merge_patch depth order patch m = res_fold (merge_op depth order patch) (pt_ops patch) m"

text \<open>\<open>uuid i\<close> is the identifier of the operation at position \<open>i\<close>, whose lamport is \<open>base + i\<close>.\<close>

fun emit_ops :: "(nat \<Rightarrow> string) \<Rightarrow> int \<Rightarrow> nat \<Rightarrow> (string \<times> string \<times> tagged_op) list \<Rightarrow> patch_error + plan_op list" where
  "emit_ops uuid base i [] = Inr []"
| "emit_ops uuid base i ((task_id, op_type, x) # xs) =
     (case op_type_of op_type of
        None \<Rightarrow> Inl BadOpType
      | Some ty \<Rightarrow>
          res_bind (emit_ops uuid base (Suc i) xs) (\<lambda>ops.
            Inr (\<lparr>po_op_id = uuid i, po_thread_id = ''merged'', po_lamport = base + int i, po_actor_id = to_actor x, po_type = ty,
                  po_task_id = task_id, po_payload = payload_or_empty (to_op x), po_timestamp_ns = 0\<rparr> # ops)))"

definition emit_order :: "merge_state \<Rightarrow> (string \<times> string \<times> tagged_op) list" where
  "emit_order m =
     map (\<lambda>(t, x). (t, ''ADD_TASK'', x)) (mg_add_task_ops m) @
     filter (\<lambda>(t, ty, x). ty \<noteq> ''ADD_TASK'') (map (\<lambda>((t, ty), x). (t, ty, x)) (mg_merged_ops m))"

definition patch_rank :: "plan_patch \<Rightarrow> int \<times> string" where
  "patch_rank p = (pt_base_lamport p, pt_actor_id p)"

definition merge_patches ::
  "nat \<Rightarrow> (json set \<Rightarrow> json list) \<Rightarrow> (nat \<Rightarrow> string) \<Rightarrow> plan_patch list \<Rightarrow> patch_error + plan_op list" where
  "merge_patches depth order uuid patches =
     (if patches = [] then Inr []
      else
        let sorted_patches = sort_key patch_rank patches;
            current_lamport = Max (set (map pt_base_lamport sorted_patches)) + 1
        in res_bind (res_fold (merge_patch depth order) sorted_patches
                       \<lparr>mg_merged_ops = [], mg_add_task_ops = [], mg_link_edges = []\<rparr>)
             (\<lambda>m. emit_ops uuid current_lamport 0 (emit_order m)))"

end
