(* ===== verification/JsonText.thy ===== *)
theory JsonText
  imports PyString
begin

text \<open>
  The text Python's \<open>json.dumps(..., sort_keys=True, separators=(",", ":"))\<close> produces, with characters as code points
  below 256 and everything outside printable ASCII escaped.  Different values have different texts: a value followed by
  a comma or a closing bracket can be read back.
\<close>

section \<open>Printing\<close>

definition hex_digit :: "nat \<Rightarrow> char" where
  "hex_digit n = char_of (if n < 10 then 48 + n else 87 + n)"

definition escape_char :: "char \<Rightarrow> string" where
  "escape_char c =
     (let n = of_char c :: nat in
      if n = 34 then [CHR 0x5C, CHR 0x22]
      else if n = 92 then [CHR 0x5C, CHR 0x5C]
      else if n = 10 then CHR 0x5C # ''n''
      else if n = 13 then CHR 0x5C # ''r''
      else if n = 9 then CHR 0x5C # ''t''
      else if n = 8 then CHR 0x5C # ''b''
      else if n = 12 then CHR 0x5C # ''f''
      else if n < 32 \<or> 126 < n then CHR 0x5C # ''u00'' @ [hex_digit (n div 16), hex_digit (n mod 16)]
      else [c])"

abbreviation dquote :: char where
  "dquote \<equiv> CHR 0x22"

definition quote_string :: "string \<Rightarrow> string" where
  "quote_string s = dquote # concat (map escape_char s) @ [dquote]"

fun comma_join :: "string list \<Rightarrow> string" where
  "comma_join [] = []"
| "comma_join [s] = s"
| "comma_join (s # t # ss) = s @ CHR '','' # comma_join (t # ss)"

fun print_json :: "json \<Rightarrow> string" where
  "print_json JNull = ''null''"
| "print_json (JBool b) = (if b then ''true'' else ''false'')"
| "print_json (JInt n) = str_of_int n"
| "print_json (JStr s) = quote_string s"
| "print_json (JList xs) = CHR ''['' # comma_join (map print_json xs) @ '']''"
| "print_json (JObj xs) = CHR ''{'' # comma_join (map (\<lambda>p. quote_string (fst p) @ CHR '':'' # print_json (snd p)) xs) @ ''}''"

fun sort_json :: "json \<Rightarrow> json" where
  "sort_json (JList xs) = JList (map sort_json xs)"
| "sort_json (JObj xs) = JObj (sort_key fst (map (\<lambda>p. (fst p, sort_json (snd p))) xs))"
| "sort_json v = v"

definition dumps_sorted :: "json \<Rightarrow> string" where
  "dumps_sorted v = print_json (sort_json v)"

section \<open>Reading back\<close>

definition hex_value :: "char \<Rightarrow> nat" where
  "hex_value c = (let n = of_char c in if n < 58 then n - 48 else n - 87)"

lemma hex_value_digit [simp]: "n < 16 \<Longrightarrow> hex_value (hex_digit n) = n"
  by (simp add: hex_value_def hex_digit_def take_bit_eq_mod Let_def)

text \<open>The character an escape stands for, and the rest of the text.\<close>

definition read_char :: "string \<Rightarrow> char \<times> string" where
  "read_char s =
     (let c = hd s; d = hd (tl s) in
      if (of_char c :: nat) \<noteq> 92 then (c, tl s)
      else if d = CHR ''n'' then (char_of (10 :: nat), drop 2 s)
      else if d = CHR ''r'' then (char_of (13 :: nat), drop 2 s)
      else if d = CHR ''t'' then (char_of (9 :: nat), drop 2 s)
      else if d = CHR ''b'' then (char_of (8 :: nat), drop 2 s)
      else if d = CHR ''f'' then (char_of (12 :: nat), drop 2 s)
      else if d = CHR ''u'' then (char_of (16 * hex_value (s ! 4) + hex_value (s ! 5)), drop 6 s)
      else (d, drop 2 s))"

lemma char_of_eqI: "(of_char c :: nat) = n \<Longrightarrow> char_of n = c"
  by auto

lemma read_escape: "read_char (escape_char c @ r) = (c, r)"
proof -
  let ?n = "of_char c :: nat"
  have "?n < 256" by simp
  then have d: "?n div 16 < 16" by (simp add: less_mult_imp_div_less)
  have "(of_char dquote :: nat) = 34" "(of_char CHR 0x5C :: nat) = 92" by simp_all
  then have special: "?n = 34 \<Longrightarrow> c = dquote" "?n = 92 \<Longrightarrow> c = CHR 0x5C"
    by (metis of_char_eq_iff)+
  consider "?n = 34" | "?n = 92" | "?n = 10" | "?n = 13" | "?n = 9" | "?n = 8" | "?n = 12"
    | (hex) "?n \<notin> {34, 92, 10, 13, 9, 8, 12}" "?n < 32 \<or> 126 < ?n" | (plain) "?n \<notin> {34, 92}" "32 \<le> ?n" "?n \<le> 126" by fastforce
  then show ?thesis
  proof cases
    case hex
    have "16 * (?n div 16) + ?n mod 16 = ?n" by simp
    then show ?thesis using hex d by (simp add: escape_char_def read_char_def Let_def del: char_of_nat)
  next
    case plain
    then show ?thesis by (simp add: escape_char_def read_char_def Let_def)
  qed (auto simp: escape_char_def read_char_def Let_def char_of_eqI dest!: special)
qed

lemma escape_not_quote: "(of_char (hd (escape_char c)) :: nat) \<noteq> 34" "escape_char c \<noteq> []"
  by (simp_all add: escape_char_def Let_def)

lemma quote_body:
  "concat (map escape_char s) @ dquote # r = concat (map escape_char t) @ dquote # r' \<Longrightarrow> s = t \<and> r = r'"
proof (induction s arbitrary: t)
  case Nil
  then show ?case
  proof (cases t)
    case (Cons c t')
    then have "hd (escape_char c @ concat (map escape_char t') @ dquote # r') = dquote" using Nil by (metis append.left_neutral append.assoc concat.simps(2) list.map(1,2) concat.simps(1) list.sel(1))
    then have "of_char (hd (escape_char c)) = (34 :: nat)" using escape_not_quote(2) [of c] by simp
    then show ?thesis using escape_not_quote(1) by blast
  qed simp
next
  case (Cons c s)
  show ?case
  proof (cases t)
    case Nil
    then have "hd (escape_char c @ concat (map escape_char s) @ dquote # r) = dquote" using Cons.prems by simp
    then have "of_char (hd (escape_char c)) = (34 :: nat)" using escape_not_quote(2) [of c] by simp
    then show ?thesis using escape_not_quote(1) by blast
  next
    fix d t'
    assume t: "t = d # t'"
    then have "escape_char c @ concat (map escape_char s) @ dquote # r = escape_char d @ concat (map escape_char t') @ dquote # r'"
      using Cons.prems by simp
    then have "c = d" "concat (map escape_char s) @ dquote # r = concat (map escape_char t') @ dquote # r'"
      by (metis read_escape prod.inject)+
    with Cons.IH t show ?thesis by blast
  qed
qed

lemma quote_string_prefix: "quote_string s @ r = quote_string t @ r' \<Longrightarrow> s = t \<and> r = r'"
  using quote_body [of s r t r'] by (simp add: quote_string_def)

text \<open>What may follow a value.\<close>

definition delimited :: "string \<Rightarrow> bool" where
  "delimited r \<longleftrightarrow> r = [] \<or> hd r \<in> {CHR '','', CHR '']'', CHR ''}''}"

definition reads_back :: "('a \<Rightarrow> string) \<Rightarrow> 'a \<Rightarrow> bool" where
  "reads_back f x \<longleftrightarrow> (\<forall>y r r'. f x @ r = f y @ r' \<longrightarrow> delimited r \<longrightarrow> delimited r' \<longrightarrow> x = y \<and> r = r')"

lemma reads_backD: "reads_back f x \<Longrightarrow> f x @ r = f y @ r' \<Longrightarrow> delimited r \<Longrightarrow> delimited r' \<Longrightarrow> x = y \<and> r = r'"
  by (simp add: reads_back_def)

lemma comma_join_Cons: "comma_join (s # ss) = s @ (if ss = [] then [] else CHR '','' # comma_join ss)"
  by (cases ss) auto

lemma hd_comma_join: "f x \<noteq> [] \<Longrightarrow> hd (comma_join (map f (x # xs)) @ r) = hd (f x)"
  by (simp add: comma_join_Cons)

lemma comma_join_prefix:
  assumes "\<And>x. x \<in> set xs \<Longrightarrow> reads_back f x" and "\<And>x. f x \<noteq> [] \<and> hd (f x) \<noteq> c" and "c \<in> {CHR '']'', CHR ''}''}"
    and "comma_join (map f xs) @ c # r = comma_join (map f ys) @ c # r'"
  shows "xs = ys \<and> r = r'"
  using assms(1,4)
proof (induction xs arbitrary: ys)
  case Nil
  show ?case
  proof (cases ys)
    case (Cons y ys')
    then have "c = hd (comma_join (map f (y # ys')) @ c # r')" using Nil.prems(2) by (metis append_Nil comma_join.simps(1) list.sel(1) list.simps(8))
    then show ?thesis using assms(2) [of y] hd_comma_join [of f y] by metis
  qed (use Nil.prems(2) in simp)
next
  case (Cons x xs)
  show ?case
  proof (cases ys)
    case Nil
    then have "c = hd (comma_join (map f (x # xs)) @ c # r)" using Cons.prems(2) by simp
    then show ?thesis using assms(2) [of x] hd_comma_join [of f x] by metis
  next
    fix y ys'
    assume ys: "ys = y # ys'"
    let ?t = "\<lambda>zs r. (if zs = [] then [] else CHR '','' # comma_join (map f zs)) @ c # r"
    have "f x @ ?t xs r = f y @ ?t ys' r'" using Cons.prems(2) by (simp add: ys comma_join_Cons)
    moreover have "delimited (?t zs q)" for zs q using assms(3) by (auto simp: delimited_def)
    ultimately have xy: "x = y" and rest: "?t xs r = ?t ys' r'"
      using Cons.prems(1) [of x] reads_backD [of f x "?t xs r" y "?t ys' r'"] by auto
    have "xs = ys' \<and> r = r'"
    proof (cases "xs = [] \<or> ys' = []")
      case True
      then show ?thesis using rest assms(3) by (auto split: if_splits)
    next
      case False
      then show ?thesis using rest Cons.IH [of ys'] Cons.prems(1) by simp
    qed
    with xy ys show ?thesis by simp
  qed
qed

lemma str_of_int_chars: "str_of_int n \<noteq> [] \<and> list_all (\<lambda>c. is_digit c \<or> c = CHR ''-'') (str_of_int n)"
  using list_all_digits by (auto simp: str_of_int_def list_all_iff)

lemma str_of_int_inj: "str_of_int m = str_of_int n \<Longrightarrow> m = n"
proof -
  have nat: "str_of_nat i = str_of_nat j \<Longrightarrow> i = j" for i j by (metis digits_value_str option.inject)
  have dash: "hd (str_of_nat i) \<noteq> CHR ''-''" for i using dash_not_in_str by (metis hd_in_set str_of_nat_nonempty)
  assume eq: "str_of_int m = str_of_int n"
  have sign: "i < 0 \<longleftrightarrow> hd (str_of_int i) = CHR ''-''" for i using dash by (simp add: str_of_int_def)
  then have same: "m < 0 \<longleftrightarrow> n < 0" using eq by simp
  show ?thesis
  proof (cases "m < 0")
    case True
    then have "str_of_nat (nat (- m)) = str_of_nat (nat (- n))" using eq same by (simp add: str_of_int_def)
    from nat [OF this] True same show ?thesis by linarith
  next
    case False
    then have "str_of_nat (nat m) = str_of_nat (nat n)" using eq same by (simp add: str_of_int_def)
    from nat [OF this] False same show ?thesis by linarith
  qed
qed

lemma split_at_delimiter:
  assumes "s @ r = t @ r'" and "\<forall>c \<in> set s \<union> set t. c \<notin> {CHR '','', CHR '']'', CHR ''}''}" and "delimited r" and "delimited r'"
  shows "s = t \<and> r = r'"
proof -
  let ?P = "\<lambda>c. c \<notin> {CHR '','', CHR '']'', CHR ''}''}"
  have tw: "takeWhile ?P (u @ q) = u" if "\<forall>c \<in> set u. ?P c" "delimited q" for u q
    using that by (cases q) (auto simp: delimited_def takeWhile_append2)
  have "takeWhile ?P (s @ r) = s" using assms(2,3) by (intro tw) blast
  moreover have "takeWhile ?P (t @ r') = t" using assms(2,4) by (intro tw) blast
  ultimately have "s = t" using assms(1) by metis
  with assms(1) show ?thesis by simp
qed

definition head_kind :: "char \<Rightarrow> nat" where
  "head_kind c =
     (if c = CHR ''n'' then 0 else if c = CHR ''t'' then 1 else if c = CHR ''f'' then 2 else if c = dquote then 3
      else if c = CHR ''['' then 4 else if c = CHR ''{'' then 5 else if is_digit c \<or> c = CHR ''-'' then 6 else 7)"

fun kind_of :: "json \<Rightarrow> nat" where
  "kind_of JNull = 0"
| "kind_of (JBool b) = (if b then 1 else 2)"
| "kind_of (JStr s) = 3"
| "kind_of (JList xs) = 4"
| "kind_of (JObj xs) = 5"
| "kind_of (JInt n) = 6"

lemma is_digit_literals [simp]:
  "\<not> is_digit CHR ''n''" "\<not> is_digit CHR ''t''" "\<not> is_digit CHR ''f''" "\<not> is_digit CHR ''[''" "\<not> is_digit CHR ''{''"
  "\<not> is_digit CHR '',''" "\<not> is_digit CHR '']''" "\<not> is_digit CHR ''}''" "\<not> is_digit dquote"
  by (simp_all add: is_digit_def)

lemma print_json_head: "print_json x \<noteq> [] \<and> head_kind (hd (print_json x)) = kind_of x"
proof (cases x)
  case (JInt n)
  have "is_digit (hd (str_of_int n)) \<or> hd (str_of_int n) = CHR ''-''" "str_of_int n \<noteq> []"
    using str_of_int_chars [of n] by (auto simp: list_all_iff)
  then show ?thesis by (auto simp: JInt head_kind_def)
qed (simp_all add: head_kind_def quote_string_def)

lemma print_json_kind: "print_json x @ r = print_json y @ r' \<Longrightarrow> kind_of x = kind_of y"
  using print_json_head [of x] print_json_head [of y] by (metis hd_append2)

lemma print_json_reads_back: "reads_back print_json x"
proof (induction x)
  case (JList xs)
  have "xs = ys \<and> r = r'" if eq: "print_json (JList xs) @ r = print_json (JList ys) @ r'" for ys r r'
  proof -
    have "head_kind CHR '']'' = 7" by (simp add: head_kind_def)
    moreover have "kind_of v \<noteq> 7" for v by (cases v) auto
    ultimately have "print_json v \<noteq> [] \<and> hd (print_json v) \<noteq> CHR '']''" for v using print_json_head [of v] by metis
    from comma_join_prefix [of xs print_json "CHR '']''" r ys r', OF JList.IH this] eq show ?thesis by simp
  qed
  moreover have "\<exists>ys. y = JList ys" if "kind_of y = 4" for y using that by (cases y) (auto split: if_splits)
  ultimately show ?case unfolding reads_back_def by (metis kind_of.simps(4) print_json_kind)
next
  case (JObj xs)
  let ?f = "\<lambda>p. quote_string (fst p) @ CHR '':'' # print_json (snd p)"
  have f: "reads_back ?f p" if p: "p \<in> set xs" for p
    unfolding reads_back_def
  proof (intro allI impI)
    fix q r r'
    assume eq: "?f p @ r = ?f q @ r'" and d: "delimited r" "delimited r'"
    then have "fst p = fst q \<and> CHR '':'' # print_json (snd p) @ r = CHR '':'' # print_json (snd q) @ r'"
      by (intro quote_string_prefix) simp
    moreover have "reads_back print_json (snd p)" using JObj.IH [of p "snd p"] p by (cases p) auto
    ultimately show "p = q \<and> r = r'" using d by (auto simp: prod_eq_iff dest: reads_backD)
  qed
  have "xs = ys \<and> r = r'" if eq: "print_json (JObj xs) @ r = print_json (JObj ys) @ r'" for ys r r'
  proof -
    have h: "?f p \<noteq> [] \<and> hd (?f p) \<noteq> CHR ''}''" for p :: "string \<times> json" by (simp add: quote_string_def)
    from comma_join_prefix [of xs ?f "CHR ''}''" r ys r', OF f h] eq show ?thesis by simp
  qed
  moreover have "\<exists>ys. y = JObj ys" if "kind_of y = 5" for y using that by (cases y) (auto split: if_splits)
  ultimately show ?case unfolding reads_back_def by (metis kind_of.simps(5) print_json_kind)
next
  case (JInt n)
  have "n = m \<and> r = r'" if "print_json (JInt n) @ r = print_json (JInt m) @ r'" "delimited r" "delimited r'" for m r r'
  proof -
    have "\<forall>c \<in> set (str_of_int k). c \<notin> {CHR '','', CHR '']'', CHR ''}''}" for k
      using str_of_int_chars [of k] by (auto simp: list_all_iff)
    then have "str_of_int n = str_of_int m \<and> r = r'" using that by (intro split_at_delimiter) auto
    then show ?thesis using str_of_int_inj by blast
  qed
  moreover have "\<exists>m. y = JInt m" if "kind_of y = 6" for y using that by (cases y) (auto split: if_splits)
  ultimately show ?case unfolding reads_back_def by (metis kind_of.simps(6) print_json_kind)
next
  case (JStr s)
  moreover have "\<exists>t. y = JStr t" if "kind_of y = 3" for y using that by (cases y) (auto split: if_splits)
  ultimately show ?case unfolding reads_back_def by (metis kind_of.simps(3) print_json.simps(4) print_json_kind quote_string_prefix)
next
  case JNull
  have "y = JNull" if "kind_of y = 0" for y using that by (cases y) (auto split: if_splits)
  then show ?case unfolding reads_back_def by (metis kind_of.simps(1) print_json_kind same_append_eq)
next
  case (JBool b)
  have "y = JBool b" if "kind_of y = kind_of (JBool b)" for y using that by (cases y) (auto split: if_splits)
  then show ?case unfolding reads_back_def by (metis print_json_kind same_append_eq)
qed

theorem print_json_inj: "print_json x = print_json y \<Longrightarrow> x = y"
  using reads_backD [OF print_json_reads_back, of x "[]" y "[]"] by (simp add: delimited_def)

text \<open>Values with the same text are equal up to the order of the keys of their objects.\<close>

theorem dumps_sorted_inj: "dumps_sorted x = dumps_sorted y \<longleftrightarrow> sort_json x = sort_json y"
  by (auto simp: dumps_sorted_def dest: print_json_inj)

end
