(* ===== verification/Versions.thy ===== *)
theory Versions
  imports Patches JsonText
begin

text \<open>
  Plan versions (\<open>plan/versioning.py\<close>) and the UPDATE_PLAN handler (\<open>handlers/update_plan.py\<close>) that applies a patch
  to the plan store and records a version.  SHA-256, fresh uuids and the clock are arguments; \<open>json.loads\<close> inverts
  \<open>json.dumps\<close> on the stored values.
\<close>

section \<open>Data\<close>

record plan_version =
  pv_version_id :: string
  pv_lamport :: int
  pv_merkle_root :: string
  pv_timestamp_ns :: int
  pv_metadata :: "(string, json) table"

type_synonym task_data = "(string, json) table"

text \<open>What a caller may pass as the data of a task: a dictionary, or the coroutine an \<open>async\<close> function returns when it is
  called without \<open>await\<close>.\<close>

datatype task_value = Data task_data | Coroutine

record version_db =
  vd_versions :: "plan_version list"
  vd_snapshots :: "(string \<times> string, string \<times> task_data) table"

datatype version_error = NotSerializable | NotNullViolation | UnsupportedType

definition no_versions :: version_db where
  "no_versions = \<lparr>vd_versions = [], vd_snapshots = []\<rparr>"

section \<open>Recording\<close>

definition canonical_state :: "(string, task_data) table \<Rightarrow> string" where
  "canonical_state plan_state =
     dumps_sorted (JList (map (\<lambda>(t, d). JList [JStr t, JObj d]) (sort_key fst plan_state)))"

fun task_dicts :: "(string, task_value) table \<Rightarrow> version_error + (string, task_data) table" where
  "task_dicts [] = Inr []"
| "task_dicts ((t, Data d) # xs) = res_bind (task_dicts xs) (\<lambda>ds. Inr ((t, d) # ds))"
| "task_dicts ((t, Coroutine) # xs) = Inl NotSerializable"

definition compute_merkle_root :: "(string \<Rightarrow> string) \<Rightarrow> (string, task_value) table \<Rightarrow> version_error + string" where
  "compute_merkle_root sha256 plan_state =
     res_bind (task_dicts plan_state) (\<lambda>ds. Inr (sha256 (canonical_state ds)))"

text \<open>The value SQLite stores in a TEXT column that is NOT NULL.\<close>

definition sql_text :: "json \<Rightarrow> version_error + string" where
  "sql_text v =
     (case v of
        JStr s \<Rightarrow> Inr s
      | JInt n \<Rightarrow> Inr (str_of_int n)
      | JBool b \<Rightarrow> Inr (str_of_int (of_bool b))
      | JNull \<Rightarrow> Inl NotNullViolation
      | JList _ \<Rightarrow> Inl UnsupportedType
      | JObj _ \<Rightarrow> Inl UnsupportedType)"

text \<open>INSERT OR REPLACE deletes the rows with the same key first; \<open>plan_versions\<close> has two keys.\<close>

definition replace_version :: "plan_version \<Rightarrow> plan_version list \<Rightarrow> plan_version list" where
  "replace_version v vs =
     filter (\<lambda>r. pv_version_id r \<noteq> pv_version_id v \<and> pv_lamport r \<noteq> pv_lamport v) vs @ [v]"

definition replace_snapshot ::
  "string \<Rightarrow> string \<times> task_data \<Rightarrow> (string \<times> string, string \<times> task_data) table
     \<Rightarrow> version_error + (string \<times> string, string \<times> task_data) table" where
  "replace_snapshot version_id = (\<lambda>(task_id, d) rows.
     res_bind (sql_text (case map_of d ''state'' of None \<Rightarrow> JStr ''DRAFT'' | Some v \<Rightarrow> v)) (\<lambda>s.
       Inr (AList.delete (version_id, task_id) rows @ [((version_id, task_id), s, d)])))"

definition record_version ::
  "(string \<Rightarrow> string) \<Rightarrow> string \<Rightarrow> (string, task_value) table \<Rightarrow> int \<Rightarrow> string option \<Rightarrow> (string, json) table option \<Rightarrow> int
     \<Rightarrow> version_db \<Rightarrow> version_error + plan_version \<times> version_db" where
  "record_version sha256 uuid plan_state lamport version_id metadata now db =
     (let vid = (case version_id of None \<Rightarrow> uuid | Some i \<Rightarrow> i) in
      res_bind (compute_merkle_root sha256 plan_state) (\<lambda>root.
      res_bind (task_dicts plan_state) (\<lambda>ds.
      let v = \<lparr>pv_version_id = vid, pv_lamport = lamport, pv_merkle_root = root, pv_timestamp_ns = now,
               pv_metadata = (case metadata of None \<Rightarrow> [] | Some m \<Rightarrow> m)\<rparr> in
      res_bind (res_fold (replace_snapshot vid) ds (vd_snapshots db)) (\<lambda>rows.
        Inr (v, \<lparr>vd_versions = replace_version v (vd_versions db), vd_snapshots = rows\<rparr>)))))"

section \<open>Queries\<close>

definition get_version_at_lamport :: "int \<Rightarrow> version_db \<Rightarrow> plan_version option" where
  "get_version_at_lamport lamport db =
     (case sort_key (\<lambda>v. - pv_lamport v) (filter (\<lambda>v. pv_lamport v \<le> lamport) (vd_versions db)) of
        [] \<Rightarrow> None
      | v # _ \<Rightarrow> Some v)"

definition get_version_by_id :: "string \<Rightarrow> version_db \<Rightarrow> plan_version option" where
  "get_version_by_id version_id db = List.find (\<lambda>v. pv_version_id v = version_id) (vd_versions db)"

definition get_snapshot_data :: "string \<Rightarrow> version_db \<Rightarrow> (string, task_data) table" where
  "get_snapshot_data version_id db =
     map (\<lambda>((v, t), s, d). (t, d)) (filter (\<lambda>((v, t), s, d). v = version_id) (vd_snapshots db))"

record plan_diff =
  df_added :: "(string \<times> task_data) list"
  df_removed :: "(string \<times> task_data) list"
  df_modified :: "(string \<times> task_data \<times> task_data) list"

definition compute_diff :: "(string set \<Rightarrow> string list) \<Rightarrow> string \<Rightarrow> string \<Rightarrow> version_db \<Rightarrow> plan_diff" where
  "compute_diff order version_a_id version_b_id db =
     (let snapshot_a = get_snapshot_data version_a_id db;
          snapshot_b = get_snapshot_data version_b_id db;
          tasks_a = set (keys snapshot_a);
          tasks_b = set (keys snapshot_b);
          data_a = (\<lambda>t. the (map_of snapshot_a t));
          data_b = (\<lambda>t. the (map_of snapshot_b t))
      in \<lparr>df_added = map (\<lambda>t. (t, data_b t)) (order (tasks_b - tasks_a)),
          df_removed = map (\<lambda>t. (t, data_a t)) (order (tasks_a - tasks_b)),
          df_modified = map (\<lambda>t. (t, data_a t, data_b t))
            (filter (\<lambda>t. \<not> py_eq (JObj (data_a t)) (JObj (data_b t))) (order (tasks_a \<inter> tasks_b)))\<rparr>)"

text \<open>A negative LIMIT is no limit.\<close>

definition get_all_versions :: "int \<Rightarrow> version_db \<Rightarrow> plan_version list" where
  "get_all_versions limit db =
     (let vs = sort_key (\<lambda>v. - pv_lamport v) (vd_versions db) in if limit < 0 then vs else take (nat limit) vs)"

section \<open>The UPDATE_PLAN handler\<close>

record update_envelope =
  ue_thread_id :: string
  ue_lamport :: int
  ue_sender :: string
  ue_ops :: "patch_op list"

definition skip_op :: "patch_op \<Rightarrow> bool" where
  "skip_op op \<longleftrightarrow>
     (let op_type_str = pp_op_type op; task_id = pp_task_id op; payload = payload_or_empty op in
      op_type_str = None \<or> op_type_str = Some [] \<or> task_id = None \<or> task_id = Some [] \<or>
      op_type_of (the op_type_str) = None \<or>
      (op_type_str = Some ''STATE'' \<and> \<not> has_key ''state'' payload) \<or>
      (op_type_str = Some ''LINK'' \<and> (\<not> has_key ''parent'' payload \<or> \<not> has_key ''child'' payload)))"

text \<open>The operation appended for \<open>op\<close> when \<open>k\<close> have been applied before; \<open>uuid 0\<close> names the patch.\<close>

definition update_op :: "(nat \<Rightarrow> string) \<Rightarrow> (nat \<Rightarrow> int) \<Rightarrow> update_envelope \<Rightarrow> nat \<Rightarrow> patch_op \<Rightarrow> plan_op" where
  "update_op uuid clock env k op =
     \<lparr>po_op_id = uuid (Suc k), po_thread_id = ue_thread_id env, po_lamport = ue_lamport env + int k, po_actor_id = ue_sender env,
      po_type = the (op_type_of (the (pp_op_type op))), po_task_id = the (pp_task_id op), po_payload = payload_or_empty op,
      po_timestamp_ns = clock k\<rparr>"

text \<open>An exception of the plan store ends the loop; the operations before it stay.\<close>

fun apply_updates ::
  "(nat \<Rightarrow> string) \<Rightarrow> (nat \<Rightarrow> int) \<Rightarrow> update_envelope \<Rightarrow> nat \<Rightarrow> patch_op list \<Rightarrow> plan_store \<Rightarrow> plan_error option \<times> nat \<times> plan_store" where
  "apply_updates uuid clock env k [] db = (None, k, db)"
| "apply_updates uuid clock env k (op # ops) db =
     (if skip_op op then apply_updates uuid clock env k ops db
      else
        case append_op (update_op uuid clock env k op) db of
          Inl e \<Rightarrow> (Some e, k, db)
        | Inr db \<Rightarrow> apply_updates uuid clock env (Suc k) ops db)"

text \<open>\<open>get_task\<close> is \<open>async\<close> and called without \<open>await\<close>, so every value of the snapshot is a coroutine, which is true.\<close>

definition update_state :: "(string set \<Rightarrow> string list) \<Rightarrow> patch_op list \<Rightarrow> (string, task_value) table" where
  "update_state order ops =
     map (\<lambda>t. (t, Coroutine)) (order (set (filter (\<lambda>t. t \<noteq> []) (List.map_filter pp_task_id ops))))"

definition handle_update_plan ::
  "(string set \<Rightarrow> string list) \<Rightarrow> (string \<Rightarrow> string) \<Rightarrow> (nat \<Rightarrow> string) \<Rightarrow> (nat \<Rightarrow> int) \<Rightarrow> update_envelope
     \<Rightarrow> plan_store \<times> version_db \<Rightarrow> plan_error option \<times> plan_store \<times> version_db" where
  "handle_update_plan order sha256 uuid clock env st =
     (let (db, vdb) = st in
      if ue_ops env = [] then (None, db, vdb)
      else if uuid 0 = [] \<or> ue_sender env = [] \<or> ue_lamport env < 0 then (None, db, vdb)
      else
        case apply_updates uuid clock env 0 (ue_ops env) db of
          (Some e, k, db) \<Rightarrow> (Some e, db, vdb)
        | (None, k, db) \<Rightarrow>
            let plan_state = update_state order (ue_ops env);
                metadata = [(''thread_id'', JStr (ue_thread_id env)), (''patch_id'', JStr (uuid 0)),
                            (''actor_id'', JStr (ue_sender env)), (''ops_count'', JInt (int k))]
            in if 0 < k \<and> plan_state \<noteq> []
               then (case record_version sha256 (uuid (Suc k)) plan_state (ue_lamport env + int k - 1) None (Some metadata) (clock k) vdb of
                       Inl e \<Rightarrow> (None, db, vdb)
                     | Inr (v, vdb) \<Rightarrow> (None, db, vdb))
               else (None, db, vdb))"

end
