(* ===== verification/JsonOrder.thy ===== *)
theory JsonOrder
  imports Prelude "HOL-Library.List_Lexorder" "HOL-Library.Char_ord"
begin

text \<open>
  A linear order on JSON values, so that sets of them can be listed: values are compared by an injective encoding as
  lists of integers.
\<close>

fun json_code :: "json \<Rightarrow> int list" where
  "json_code JNull = [0]"
| "json_code (JBool b) = [1, of_bool b]"
| "json_code (JInt n) = [2, n]"
| "json_code (JStr s) = 3 # int (length s) # map of_char s"
| "json_code (JList xs) = 4 # int (length xs) # concat (map json_code xs)"
| "json_code (JObj xs) = 5 # int (length xs) # concat (map (\<lambda>p. int (length (fst p)) # map of_char (fst p) @ json_code (snd p)) xs)"

lemma of_char_map_inj: "map of_char s @ r = map of_char t @ (r' :: int list) \<Longrightarrow> length s = length t \<Longrightarrow> s = t \<and> r = r'"
  by (induction s t rule: list_induct2') auto

lemma concat_codes_inj:
  assumes "\<And>x y r r'. x \<in> set xs \<Longrightarrow> f x @ r = f y @ r' \<Longrightarrow> x = y \<and> r = r'"
    and "concat (map f xs) @ r = concat (map f ys) @ r'" and "length xs = length ys"
  shows "xs = ys \<and> r = r'"
  using assms(3,1,2)
proof (induction xs ys arbitrary: r r' rule: list_induct2)
  case (Cons x xs y ys)
  have "x = y \<and> concat (map f xs) @ r = concat (map f ys) @ r'"
    using Cons.prems(2) by (intro Cons.prems(1)) simp_all
  moreover have "concat (map f xs) @ r = concat (map f ys) @ r' \<Longrightarrow> xs = ys \<and> r = r'"
    using Cons.IH Cons.prems(1) by (metis list.set_intros(2))
  ultimately show ?case by simp
qed simp

lemma json_code_prefix: "json_code x @ r = json_code y @ r' \<Longrightarrow> x = y \<and> r = r'"
proof (induction x arbitrary: y r r')
  case (JList xs)
  then obtain ys where y: "y = JList ys" by (cases y) simp_all
  with JList.prems have "concat (map json_code xs) @ r = concat (map json_code ys) @ r'" "length xs = length ys" by simp_all
  with concat_codes_inj [of xs json_code r ys r'] JList.IH show ?case unfolding y by blast
next
  case (JObj xs)
  let ?f = "\<lambda>p. int (length (fst p)) # map of_char (fst p) @ json_code (snd p)"
  from JObj.prems obtain ys where y: "y = JObj ys" by (cases y) simp_all
  have "p = q \<and> s = s'" if p: "p \<in> set xs" and eq: "?f p @ s = ?f q @ s'" for p q s s'
  proof -
    have "fst p = fst q \<and> json_code (snd p) @ s = json_code (snd q) @ s'"
      using eq of_char_map_inj [of "fst p" "json_code (snd p) @ s" "fst q" "json_code (snd q) @ s'"] by simp
    moreover have "json_code (snd p) @ s = json_code (snd q) @ s' \<Longrightarrow> snd p = snd q \<and> s = s'"
      using JObj.IH [OF p, of "snd p"] by (cases p) auto
    ultimately show ?thesis by (simp add: prod_eq_iff)
  qed
  moreover have "concat (map ?f xs) @ r = concat (map ?f ys) @ r'" "length xs = length ys"
    using JObj.prems by (simp_all add: y)
  ultimately show ?case using concat_codes_inj [of xs ?f r ys r'] unfolding y by blast
next
  case (JStr s)
  then show ?case by (cases y) (auto dest: of_char_map_inj)
next
  case JNull
  then show ?case by (cases y) auto
next
  case (JBool b)
  then show ?case by (cases y) auto
next
  case (JInt n)
  then show ?case by (cases y) auto
qed

instantiation json :: linorder
begin

definition less_eq_json :: "json \<Rightarrow> json \<Rightarrow> bool" where
  "less_eq_json x y \<longleftrightarrow> json_code x \<le> json_code y"

definition less_json :: "json \<Rightarrow> json \<Rightarrow> bool" where
  "less_json x y \<longleftrightarrow> json_code x < json_code y"

instance
proof
  fix x y :: json
  assume "x \<le> y" "y \<le> x"
  then have "json_code x = json_code y" by (simp add: less_eq_json_def)
  then show "x = y" using json_code_prefix [of x "[]" y "[]"] by simp
qed (auto simp: less_eq_json_def less_json_def)

end

end
