(* ===== verification/PatchProps.thy ===== *)
theory PatchProps
  imports Patches Walks JsonOrder "HOL-Library.Multiset"
begin

text \<open>
  Correctness of the merge of patches: the cycle test is exact whatever the order in which sets are visited, the merge of
  valid patches succeeds and does not depend on the order of its argument, keeps the newest ADD_TASK of every task and
  never links a cycle.
\<close>

section \<open>The cycle test\<close>

definition adj :: "(json, json set) table \<Rightarrow> (json \<times> json) set" where
  "adj g = {(n, m). m \<in> next_at g n}"

lemma next_at_update [simp]: "next_at (AList.update k v g) n = (if n = k then v else next_at g n)"
  by (simp add: next_at_def)

lemma link_graph_snoc: "link_graph (es @ [(p, c)]) = AList.update p (insert c (next_at (link_graph es) p)) (link_graph es)"
  by (simp add: link_graph_def)

lemma link_graph_exact: "next_at (link_graph es) n = {c. (n, c) \<in> set es} \<and> set (keys (link_graph es)) = fst ` set es"
proof (induction es arbitrary: n rule: rev_induct)
  case Nil
  then show ?case by (simp add: link_graph_def next_at_def)
next
  case (snoc e es)
  obtain p c where e: "e = (p, c)" by (cases e)
  have "set (keys (link_graph es)) = fst ` set es" using snoc.IH by blast
  with snoc.IH show ?case by (auto simp: e link_graph_snoc update_keys split: if_splits)
qed

lemma adj_link_graph: "adj (link_graph es) = set es"
  by (auto simp: adj_def link_graph_exact)

definition visit_inv :: "(json \<times> json) set \<Rightarrow> json set \<Rightarrow> json list \<Rightarrow> visit_state \<Rightarrow> bool" where
  "visit_inv r N path st \<longleftrightarrow> snd st = set path \<and> distinct path \<and> walk r path \<and> set path \<subseteq> fst st \<and> fst st \<subseteq> N \<and>
     settled r (fst st - set path)"

lemma visit_inv_enter:
  assumes "visit_inv r N path (v, s)" and "n \<in> N" "n \<notin> v" and "walk r (path @ [n])"
  shows "visit_inv r N (path @ [n]) (insert n v, insert n s)"
proof -
  have "insert n v - set (path @ [n]) = v - set path" using assms(1,3) by (auto simp: visit_inv_def)
  then show ?thesis using assms unfolding visit_inv_def by auto
qed

lemma visit_inv_leave:
  assumes "visit_inv r N (path @ [n]) (v, s)" and "\<And>y. (n, y) \<in> r \<Longrightarrow> y \<in> v - s"
  shows "visit_inv r N path (v, s - {n})"
proof -
  have s: "s = insert n (set path)" "n \<notin> set path" "n \<in> v" using assms(1) by (auto simp: visit_inv_def)
  have "v - set path = insert n (v - s)" using s by auto
  moreover have "settled r (insert n (v - s))"
    using assms by (intro settled_insert) (auto simp: visit_inv_def)
  moreover have "walk r path" using assms(1) by (auto simp: visit_inv_def dest: walk_prefix)
  ultimately show ?thesis using assms(1) s by (auto simp: visit_inv_def)
qed

definition outcome_ok :: "(json \<times> json) set \<Rightarrow> json set \<Rightarrow> json list \<Rightarrow> visit_state \<Rightarrow> bool \<times> visit_state \<Rightarrow> bool" where
  "outcome_ok r N path st x \<longleftrightarrow>
     (if fst x then \<not> acyclic r else visit_inv r N path (snd x) \<and> fst st \<subseteq> fst (snd x))"

lemma outcome_ok_later: "v \<subseteq> v' \<Longrightarrow> outcome_ok r N path (v', s') x \<Longrightarrow> outcome_ok r N path (v, s) x"
  by (auto simp: outcome_ok_def split: if_splits)

definition order_ok :: "(json set \<Rightarrow> json list) \<Rightarrow> (json, json set) table \<Rightarrow> json set \<Rightarrow> bool" where
  "order_ok order g N \<longleftrightarrow> finite N \<and> (\<forall>n \<in> N. next_at g n \<subseteq> N \<and> set (order (next_at g n)) = next_at g n)"

lemma card_left: "finite N \<Longrightarrow> v \<subseteq> v' \<Longrightarrow> card (N - v') \<le> card (N - v)"
  by (intro card_mono) auto

lemma has_cycle_correct:
  "visit_inv (adj g) N path st \<Longrightarrow> n \<in> N \<Longrightarrow> n \<notin> fst st \<Longrightarrow> walk (adj g) (path @ [n]) \<Longrightarrow> card (N - fst st) < k \<Longrightarrow>
     order_ok order g N \<Longrightarrow>
     \<exists>x. has_cycle_from k order g n st = Inr x \<and> outcome_ok (adj g) N path st x \<and> (\<not> fst x \<longrightarrow> n \<in> fst (snd x))"
  "visit_inv (adj g) N path st \<Longrightarrow> path \<noteq> [] \<Longrightarrow> last path = n \<Longrightarrow> n \<in> N \<Longrightarrow> set ms \<subseteq> next_at g n \<Longrightarrow>
     next_at g n - set ms \<subseteq> fst st - snd st \<Longrightarrow> card (N - fst st) < k \<Longrightarrow> order_ok order g N \<Longrightarrow>
     \<exists>x. cycle_among k order g n ms st = Inr x \<and> outcome_ok (adj g) N (butlast path) st x"
proof (induction k order g n st and k order g n ms st arbitrary: path and path rule: has_cycle_from_cycle_among.induct)
  case (1 order g n st)
  then show ?case by simp
next
  case (2 k order g n v s)
  have inv: "visit_inv (adj g) N (path @ [n]) (insert n v, insert n s)"
    using 2(2-5) by (intro visit_inv_enter) simp_all
  have "N - insert n v = (N - v) - {n}" by auto
  then have "card (N - insert n v) < k"
    using 2(3,4,6,7) card_Suc_Diff1 [of "N - v" n] by (auto simp: order_ok_def)
  moreover have "set (order (next_at g n)) = next_at g n" using 2(3,7) by (simp add: order_ok_def)
  ultimately obtain x where x: "cycle_among k order g n (order (next_at g n)) (insert n v, insert n s) = Inr x"
    "outcome_ok (adj g) N path (insert n v, insert n s) x"
    using 2(1) [OF inv, of] 2(3,7) by auto
  then show ?case by (auto simp: outcome_ok_def)
next
  case (3 k order g n v s)
  have path: "path = butlast path @ [n]" using 3 by (metis append_butlast_last_id)
  then have "visit_inv (adj g) N (butlast path) (v, s - {n})"
    by (intro visit_inv_leave) (use 3 path in \<open>auto simp: adj_def\<close>)
  then show ?case by (simp add: outcome_ok_def)
next
  case (4 k order g n m ms v s)
  note inv = 4(4) and ok = 4(11)
  have s: "s = set path" using inv by (simp add: visit_inv_def)
  have edge: "(last path, m) \<in> adj g" using 4(6,8) by (simp add: adj_def)
  have m: "m \<in> N" using 4(7,8) ok by (auto simp: order_ok_def)
  consider (new) "m \<notin> v" | (cycle) "m \<in> v" "m \<in> s" | (old) "m \<in> v" "m \<notin> s" by blast
  then show ?case
  proof cases
    case new
    have "walk (adj g) (path @ [m])" using inv edge by (auto simp: visit_inv_def intro: walk_snoc)
    then obtain b v' s' where x: "has_cycle_from k order g m (v, s) = Inr (b, v', s')"
      "outcome_ok (adj g) N path (v, s) (b, v', s')" "\<not> b \<longrightarrow> m \<in> v'"
      using 4(1) [OF new inv m _ _ _ ok] new 4(10) by auto
    show ?thesis
    proof (cases b)
      case True
      then show ?thesis using x new by (simp add: outcome_ok_def)
    next
      case False
      then have inv': "visit_inv (adj g) N path (v', s')" and grow: "v \<subseteq> v'" and mv: "m \<in> v'"
        using x by (auto simp: outcome_ok_def)
      have "s' = s" using inv' s by (simp add: visit_inv_def)
      moreover have "m \<notin> s" using new inv by (auto simp: visit_inv_def)
      ultimately have "next_at g n - set ms \<subseteq> fst (v', s') - snd (v', s')" using 4(9) grow mv by auto
      moreover have "card (N - fst (v', s')) < k" using 4(10) card_left [of N v v'] grow ok by (simp add: order_ok_def)
      ultimately obtain y where "cycle_among k order g n ms (v', s') = Inr y" "outcome_ok (adj g) N (butlast path) (v', s') y"
        using 4(2) [OF new x(1) refl _ inv' 4(5,6,7) _ _ _ ok] False 4(8) by auto
      then show ?thesis using x(1) False new outcome_ok_later [OF grow] by simp
    qed
  next
    case cycle
    have "closed_walk (adj g) (dropWhile (\<lambda>x. x \<noteq> m) path @ [m])"
      using inv edge cycle s by (intro closed_walk_back_edge) (auto simp: visit_inv_def)
    then show ?thesis using cycle closed_walk_cyclic by (auto simp: outcome_ok_def)
  next
    case old
    then have "\<exists>x. cycle_among k order g n ms (v, s) = Inr x \<and> outcome_ok (adj g) N (butlast path) (v, s) x"
      using 4(3) [OF _ _ inv 4(5,6,7)] 4(8-11) by auto
    then show ?thesis using old by simp
  qed
qed

lemma cycle_from_any_correct:
  assumes "order_ok order g N" and "set ns \<subseteq> N" and "visit_inv (adj g) N [] (v, {})" and "card N < k"
  shows "\<exists>b. cycle_from_any k order g ns v = Inr b \<and>
    (if b then \<not> acyclic (adj g) else \<exists>v'. visit_inv (adj g) N [] (v', {}) \<and> v \<union> set ns \<subseteq> v')"
  using assms(2,3)
proof (induction ns arbitrary: v)
  case (Cons n ns)
  show ?case
  proof (cases "n \<in> v")
    case True
    with Cons.IH [OF _ Cons.prems(2)] Cons.prems(1) show ?thesis by fastforce
  next
    case False
    have fin: "finite N" using assms(1) by (simp add: order_ok_def)
    have "card (N - v) < k" using card_left [OF fin, of "{}" v] assms(4) by simp
    then obtain b v' s' where x: "has_cycle_from k order g n (v, {}) = Inr (b, v', s')"
      "outcome_ok (adj g) N [] (v, {}) (b, v', s')" "\<not> b \<longrightarrow> n \<in> v'"
      using has_cycle_correct(1) [OF Cons.prems(2), of n k order] False Cons.prems(1) assms(1) by auto
    show ?thesis
    proof (cases b)
      case True
      with x False show ?thesis by (auto simp: outcome_ok_def)
    next
      case b: False
      then have inv: "visit_inv (adj g) N [] (v', {})" and grow: "v \<subseteq> v'" and n: "n \<in> v'"
        using x by (auto simp: outcome_ok_def visit_inv_def)
      obtain c where c: "cycle_from_any k order g ns v' = Inr c"
        "if c then \<not> acyclic (adj g) else \<exists>w. visit_inv (adj g) N [] (w, {}) \<and> v' \<union> set ns \<subseteq> w"
        using Cons.IH [OF _ inv] Cons.prems(1) by auto
      have "\<exists>w. visit_inv (adj g) N [] (w, {}) \<and> v \<union> set (n # ns) \<subseteq> w" if "\<not> c"
        using that c(2) grow n by (simp, blast)
      with c x(1) b False show ?thesis by simp
    qed
  qed
qed auto

text \<open>\<open>order\<close> lists every set of hashable values.  A search visits no node twice, so twice the number of edges bounds its
  depth.\<close>

theorem detect_cycle_exact:
  assumes "lists_sets order" and "2 * length es + 2 < depth"
  shows "detect_cycle depth order es e = Inr (\<not> acyclic (insert e (set es)))"
proof -
  let ?es = "es @ [e]"
  let ?g = "link_graph ?es" and ?N = "fst ` set ?es \<union> snd ` set ?es" and ?k = depth
  have adj: "adj ?g = insert e (set es)" by (simp add: adj_link_graph)
  have fin: "finite ?N" by simp
  have nodes: "next_at ?g n \<subseteq> ?N" for n unfolding link_graph_exact [THEN conjunct1] by force
  have listed: "set (order A) = A" if "A \<subseteq> ?N" for A
    using assms(1) finite_subset [OF that fin] by (simp add: lists_sets_def)
  have ok: "order_ok order ?g ?N" unfolding order_ok_def using fin nodes listed [OF nodes] by (intro conjI ballI)
  have "card ?N \<le> card (fst ` set ?es) + card (snd ` set ?es)" by (rule card_Un_le)
  also have "\<dots> \<le> length ?es + length ?es"
    by (intro add_mono; rule order_trans [OF card_image_le card_length]) simp_all
  finally have card: "card ?N < ?k" using assms(2) by simp
  have start: "visit_inv (adj ?g) ?N [] ({}, {})" by (simp add: visit_inv_def)
  have keys: "set (keys ?g) \<subseteq> ?N" unfolding link_graph_exact [THEN conjunct2] by (rule Un_upper1)
  from cycle_from_any_correct [OF ok keys start card] obtain b where b: "cycle_from_any ?k order ?g (keys ?g) {} = Inr b"
    "if b then \<not> acyclic (adj ?g) else \<exists>v. visit_inv (adj ?g) ?N [] (v, {}) \<and> {} \<union> set (keys ?g) \<subseteq> v"
    by blast
  have "acyclic (adj ?g)" if none: "\<not> b"
  proof -
    obtain v where v: "visit_inv (adj ?g) ?N [] (v, {})" "set (keys ?g) \<subseteq> v" using b(2) none by auto
    have "fst ` set ?es \<subseteq> v" using v(2) unfolding link_graph_exact [THEN conjunct2] .
    then have dom: "x \<in> v" if "(x, y) \<in> adj ?g" for x y using that unfolding adj by force
    have set: "settled (adj ?g) v" using v(1) by (simp add: visit_inv_def)
    then have "y \<in> v" if "(x, y) \<in> adj ?g" for x y using that dom [OF that] unfolding settled_def by blast
    with dom have "Field (adj ?g) \<subseteq> v" unfolding Field_def by blast
    with set show ?thesis by (rule settled_all_acyclic)
  qed
  with b show ?thesis unfolding detect_cycle_def Let_def adj by auto
qed

section \<open>What the merge keeps\<close>

type_synonym patch_entry = "plan_patch \<times> patch_op"

definition entries :: "plan_patch list \<Rightarrow> patch_entry list" where
  "entries ps = concat (map (\<lambda>p. map (Pair p) (pt_ops p)) ps)"

definition about :: "string \<Rightarrow> string \<Rightarrow> patch_entry list \<Rightarrow> patch_entry list" where
  "about ty t es = filter (\<lambda>(p, op). pp_op_type op = Some ty \<and> pp_task_id op = Some t) es"

text \<open>An entry wins when its patch has the greatest base lamport and, among those, the least actor.\<close>

definition wins :: "patch_entry list \<Rightarrow> tagged_op \<Rightarrow> bool" where
  "wins es x \<longleftrightarrow> (\<exists>p op. (p, op) \<in> set es \<and> x = tag_op p op \<and>
     (\<forall>e \<in> set es. pt_base_lamport (fst e) < pt_base_lamport p \<or>
        pt_base_lamport (fst e) = pt_base_lamport p \<and> pt_actor_id p \<le> pt_actor_id (fst e)))"

definition holds_winner :: "patch_entry list \<Rightarrow> tagged_op option \<Rightarrow> bool" where
  "holds_winner es v \<longleftrightarrow> (case v of None \<Rightarrow> es = [] | Some x \<Rightarrow> wins es x)"

lemma holds_winner_keep_newer:
  assumes "holds_winner es (map_of t k)" and "\<And>e. e \<in> set es \<Longrightarrow> patch_rank (fst e) \<le> patch_rank p"
  shows "holds_winner (es @ [(p, op)]) (map_of (keep_newer k (tag_op p op) t) k)"
proof (cases "map_of t k")
  case None
  with assms(1) show ?thesis by (simp add: holds_winner_def keep_newer_def wins_def)
next
  case (Some x)
  with assms(1) obtain q op' where q: "(q, op') \<in> set es" "x = tag_op q op'"
    "\<forall>e \<in> set es. pt_base_lamport (fst e) < pt_base_lamport q \<or>
        pt_base_lamport (fst e) = pt_base_lamport q \<and> pt_actor_id q \<le> pt_actor_id (fst e)"
    by (auto simp: holds_winner_def wins_def)
  have rank: "pt_base_lamport q < pt_base_lamport p \<or> pt_base_lamport q = pt_base_lamport p \<and> pt_actor_id q \<le> pt_actor_id p"
    using assms(2) [OF q(1)] by (auto simp: patch_rank_def)
  show ?thesis
  proof (cases "pt_base_lamport q < pt_base_lamport p")
    case True
    have "wins (es @ [(p, op)]) (tag_op p op)" using True q(3) unfolding wins_def by fastforce
    then show ?thesis using Some True q(2) by (simp add: holds_winner_def keep_newer_def tag_op_def)
  next
    case False
    have "wins (es @ [(p, op)]) x" using False q rank unfolding wins_def by fastforce
    then show ?thesis using Some False q(2) by (simp add: holds_winner_def keep_newer_def tag_op_def)
  qed
qed

lemma about_snoc [simp]:
  "about ty t (es @ [(p, op)]) = about ty t es @ (if pp_op_type op = Some ty \<and> pp_task_id op = Some t then [(p, op)] else [])"
  by (simp add: about_def)

lemma map_of_keep_newer_other: "k' \<noteq> k \<Longrightarrow> map_of (keep_newer k x t) k' = map_of t k'"
  by (simp add: keep_newer_def split: option.splits)

definition payload_link :: "(string, json) table \<Rightarrow> (json \<times> json) option" where
  "payload_link pl =
     (case (map_of pl ''parent'', map_of pl ''child'') of
        (Some v, Some w) \<Rightarrow> (case (node_of v, node_of w) of (Inr a, Inr b) \<Rightarrow> Some (a, b) | _ \<Rightarrow> None)
      | _ \<Rightarrow> None)"

text \<open>What validation checks of one operation.  It does not look at the ends of a link, which may be unhashable.\<close>

definition checked_op :: "patch_op \<Rightarrow> bool" where
  "checked_op op \<longleftrightarrow> (\<exists>ty t. pp_op_type op = Some ty \<and> pp_task_id op = Some t \<and> op_type_of ty \<noteq> None \<and>
     (ty = ''LINK'' \<longrightarrow> (\<exists>pl. pp_payload op = Some pl \<and> has_key ''parent'' pl \<and> has_key ''child'' pl)))"

abbreviation is_link :: "patch_op \<Rightarrow> bool" where
  "is_link op \<equiv> pp_op_type op = Some ''LINK''"

definition unhashable :: "patch_op \<Rightarrow> bool" where
  "unhashable op \<longleftrightarrow> is_link op \<and> payload_link (payload_or_empty op) = None"

definition kept_op :: "(json \<times> json) set \<Rightarrow> (string \<times> string) \<times> tagged_op \<Rightarrow> bool" where
  "kept_op links r \<longleftrightarrow> (case r of ((t, ty), x) \<Rightarrow> ty \<noteq> ''ADD_TASK'' \<and> op_type_of ty \<noteq> None \<and>
     (ty = ''LINK'' \<longrightarrow> (\<exists>e \<in> links. payload_link (payload_or_empty (to_op x)) = Some e)))"

definition merge_inv :: "patch_entry list \<Rightarrow> merge_state \<Rightarrow> bool" where
  "merge_inv es m \<longleftrightarrow> keyed (mg_add_task_ops m) \<and> keyed (mg_merged_ops m) \<and> acyclic (set (mg_link_edges m)) \<and>
     length (mg_link_edges m) \<le> length (filter (is_link \<circ> snd) es) \<and>
     (\<forall>r \<in> set (mg_merged_ops m). kept_op (set (mg_link_edges m)) r) \<and>
     (\<forall>t. holds_winner (about ''ADD_TASK'' t es) (map_of (mg_add_task_ops m) t)) \<and>
     (\<forall>t. holds_winner (about ''STATE'' t es) (map_of (mg_merged_ops m) (t, ''STATE'')))"

lemma keyed_keep_newer [simp]: "keyed t \<Longrightarrow> keyed (keep_newer k x t)"
  by (simp add: keep_newer_def split: option.splits)

lemma set_dict_update: "r \<in> set (AList.update k x t) \<Longrightarrow> r = (k, x) \<or> r \<in> set t"
  by (induction t) (auto split: if_splits)

lemma set_keep_newer: "r \<in> set (keep_newer k x t) \<Longrightarrow> r = (k, x) \<or> r \<in> set t"
  by (auto simp: keep_newer_def dest: set_dict_update split: option.splits if_splits)

lemma merge_op_inv:
  assumes "lists_sets order" and "merge_inv es m" and "checked_op op" and "\<not> unhashable op"
    and "\<And>e. e \<in> set es \<Longrightarrow> patch_rank (fst e) \<le> patch_rank p"
    and "2 * length (filter (is_link \<circ> snd) (es @ [(p, op)])) < depth"
  shows "\<exists>m'. merge_op depth order p op m = Inr m' \<and> merge_inv (es @ [(p, op)]) m'"
proof -
  obtain ty t where op: "pp_op_type op = Some ty" "pp_task_id op = Some t" "op_type_of ty \<noteq> None"
    and ends: "ty = ''LINK'' \<longrightarrow> (\<exists>pl. pp_payload op = Some pl \<and> payload_link pl \<noteq> None)"
    using assms(3,4) by (auto simp: checked_op_def unhashable_def payload_or_empty_def)
  have rank: "\<And>e ty t. e \<in> set (about ty t es) \<Longrightarrow> patch_rank (fst e) \<le> patch_rank p"
    using assms(5) by (auto simp: about_def)
  consider (add) "ty = ''ADD_TASK''" | (state) "ty = ''STATE''" | (link) "ty = ''LINK''" |
    (other) "ty \<noteq> ''ADD_TASK''" "ty \<noteq> ''STATE''" "ty \<noteq> ''LINK''" by blast
  then show ?thesis
  proof cases
    case add
    have "holds_winner (about ''ADD_TASK'' u (es @ [(p, op)])) (map_of (keep_newer t (tag_op p op) (mg_add_task_ops m)) u)" for u
      using assms(2) op add by (auto simp: merge_inv_def map_of_keep_newer_other intro: holds_winner_keep_newer rank)
    then show ?thesis using assms(2) op add by (simp add: merge_inv_def merge_op_def)
  next
    case state
    have "holds_winner (about ''STATE'' u (es @ [(p, op)])) (map_of (keep_newer (t, ty) (tag_op p op) (mg_merged_ops m)) (u, ''STATE''))" for u
      using assms(2) op state by (auto simp: merge_inv_def map_of_keep_newer_other intro: holds_winner_keep_newer rank)
    then show ?thesis using assms(2) op state
      by (auto simp: merge_inv_def merge_op_def kept_op_def dest!: set_keep_newer)
  next
    case link
    then obtain pl a b where pl: "pp_payload op = Some pl" "payload_link pl = Some (a, b)" using ends by auto
    then obtain v w where vw: "map_of pl ''parent'' = Some v" "map_of pl ''child'' = Some w" "node_of v = Inr a" "node_of w = Inr b"
      by (auto simp: payload_link_def split: option.splits sum.splits)
    have "2 * length (mg_link_edges m) + 2 < depth" using assms(2,6) op(1) link by (simp add: merge_inv_def)
    then have exact: "detect_cycle depth order (mg_link_edges m) e = Inr (\<not> acyclic (insert e (set (mg_link_edges m))))" for e
      by (rule detect_cycle_exact [OF assms(1)])
    let ?cyc = "\<not> acyclic (insert (a, b) (set (mg_link_edges m)))"
    have step: "merge_op depth order p op m = Inr (if ?cyc then m
        else m\<lparr>mg_link_edges := mg_link_edges m @ [(a, b)],
               mg_merged_ops := AList.update (t, ty) (tag_op p op) (mg_merged_ops m)\<rparr>)"
      using op link pl vw by (simp add: merge_op_def link_end_def exact)
    have "kept_op (insert (a, b) E) ((t, ty), tag_op p op)" for E
      using op(3) link pl by (simp add: kept_op_def tag_op_def payload_or_empty_def)
    moreover have "kept_op E r \<Longrightarrow> kept_op (insert (a, b) E) r" for E r by (auto simp: kept_op_def)
    ultimately show ?thesis unfolding step using assms(2) op link by (auto simp: merge_inv_def dest!: set_dict_update)
  next
    case other
    then show ?thesis using assms(2) op by (auto simp: merge_inv_def merge_op_def kept_op_def dest!: set_dict_update)
  qed
qed

text \<open>An unhashable end makes the search for a cycle raise TypeError.\<close>

lemma node_of_cases: "node_of v = Inl Unhashable \<or> (\<exists>n. node_of v = Inr n)"
  by (simp add: node_of_def split: json.splits)

lemma merge_op_unhashable:
  assumes "checked_op op" and "unhashable op"
  shows "merge_op depth order p op m = Inl Unhashable"
proof -
  obtain t pl v w where op: "pp_op_type op = Some ''LINK''" "pp_task_id op = Some t" "pp_payload op = Some pl"
    and ends: "map_of pl ''parent'' = Some v" "map_of pl ''child'' = Some w" and none: "payload_link pl = None"
    using assms by (auto simp: checked_op_def unhashable_def payload_or_empty_def has_key_def)
  have "node_of v = Inl Unhashable \<or> (\<exists>n. node_of v = Inr n) \<and> node_of w = Inl Unhashable"
    using node_of_cases [of v] node_of_cases [of w] none by (auto simp: payload_link_def ends)
  then show ?thesis using op ends by (auto simp: merge_op_def link_end_def)
qed

section \<open>The merge of patches\<close>

text \<open>The two nested loops are one loop over the operations of all patches.\<close>

lemma entries_Cons: "entries (p # ps) = map (Pair p) (pt_ops p) @ entries ps"
  by (simp add: entries_def)

lemma merge_patch_entries:
  "res_fold (merge_op depth order p) ops = res_fold (\<lambda>(p, op). merge_op depth order p op) (map (Pair p) ops)"
proof (induction ops)
  case (Cons op ops)
  show ?case by (rule ext) (simp add: Cons.IH)
qed (simp add: fun_eq_iff)

lemma merge_entries: "res_fold (merge_patch depth order) ps = res_fold (\<lambda>(p, op). merge_op depth order p op) (entries ps)"
proof (induction ps)
  case (Cons p ps)
  have "merge_patch depth order p m = res_fold (\<lambda>(p, op). merge_op depth order p op) (map (Pair p) (pt_ops p)) m" for m
    by (simp add: merge_patch_def merge_patch_entries)
  then show ?case by (intro ext) (simp only: res_fold.simps Cons.IH entries_Cons res_fold_append)
qed (simp add: entries_def fun_eq_iff)

lemma merge_entries_inv:
  assumes "lists_sets order" and "merge_inv es m" and "list_all (checked_op \<circ> snd) xs"
    and "sorted (map (patch_rank \<circ> fst) (es @ xs))" and "2 * length (filter (is_link \<circ> snd) (es @ xs)) < depth"
  shows "if list_ex (unhashable \<circ> snd) xs then res_fold (\<lambda>(p, op). merge_op depth order p op) xs m = Inl Unhashable
    else \<exists>m'. res_fold (\<lambda>(p, op). merge_op depth order p op) xs m = Inr m' \<and> merge_inv (es @ xs) m'"
  using assms(2-5)
proof (induction xs arbitrary: es m)
  case (Cons x xs)
  obtain p op where x: "x = (p, op)" by (cases x)
  show ?case
  proof (cases "unhashable op")
    case True
    with Cons.prems(2) x show ?thesis by (simp add: merge_op_unhashable)
  next
    case False
    have "e \<in> set es \<Longrightarrow> patch_rank (fst e) \<le> patch_rank p" for e using Cons.prems(3) by (simp add: sorted_append x)
    moreover have "2 * length (filter (is_link \<circ> snd) (es @ [(p, op)])) < depth"
      using Cons.prems(4) unfolding x filter_append length_append filter.simps by (simp split: if_splits)
    ultimately obtain m1 where m1: "merge_op depth order p op m = Inr m1" "merge_inv (es @ [x]) m1"
      using merge_op_inv [OF assms(1) Cons.prems(1) _ False, of p depth] Cons.prems(2) by (auto simp only: x list.pred_inject o_apply snd_conv)
    have "if list_ex (unhashable \<circ> snd) xs then res_fold (\<lambda>(p, op). merge_op depth order p op) xs m1 = Inl Unhashable
      else \<exists>m'. res_fold (\<lambda>(p, op). merge_op depth order p op) xs m1 = Inr m' \<and> merge_inv ((es @ [x]) @ xs) m'"
      by (rule Cons.IH [OF m1(2)]) (use Cons.prems(2-4) in simp_all)
    then show ?thesis using m1(1) False by (cases "list_ex (unhashable \<circ> snd) xs") (simp_all add: x del: o_apply, simp_all)
  qed
qed simp

definition emitted :: "(nat \<Rightarrow> string) \<Rightarrow> int \<Rightarrow> nat \<Rightarrow> string \<times> string \<times> tagged_op \<Rightarrow> plan_op" where
  "emitted uuid base i r = (case r of (t, ty, x) \<Rightarrow>
     \<lparr>po_op_id = uuid i, po_thread_id = ''merged'', po_lamport = base + int i, po_actor_id = to_actor x, po_type = the (op_type_of ty),
      po_task_id = t, po_payload = payload_or_empty (to_op x), po_timestamp_ns = 0\<rparr>)"

lemma emit_ops_exact:
  "(\<And>t ty x. (t, ty, x) \<in> set xs \<Longrightarrow> op_type_of ty \<noteq> None) \<Longrightarrow>
     emit_ops uuid base i xs = Inr (map2 (emitted uuid base) [i..<i + length xs] xs)"
proof (induction uuid base i xs rule: emit_ops.induct)
  case (2 uuid base i t ty x xs)
  have all: "op_type_of ty' \<noteq> None" if "(t', ty', x') \<in> set ((t, ty, x) # xs)" for t' ty' x' using 2(2) that by blast
  then obtain k where k: "op_type_of ty = Some k" by (metis list.set_intros(1) not_None_eq)
  have "emit_ops uuid base (Suc i) xs = Inr (map2 (emitted uuid base) [Suc i..<Suc i + length xs] xs)"
    using 2(1) [OF k] all by (meson list.set_intros(2))
  then show ?case using k by (simp add: emitted_def upt_conv_Cons del: upt_Suc)
qed simp

lemma op_fault_checked: "op_fault i op = None \<Longrightarrow> checked_op op"
proof -
  assume f: "op_fault i op = None"
  have "\<not> has_key k []" for k :: string by (simp add: has_key_def)
  then have "has_key k (payload_or_empty op) \<Longrightarrow> \<exists>pl. pp_payload op = Some pl \<and> payload_or_empty op = pl" for k
    by (cases "pp_payload op") (auto simp: payload_or_empty_def)
  with f show ?thesis by (fastforce simp: op_fault_def checked_op_def split: option.splits if_splits)
qed

lemma ops_fault_all: "ops_fault i ops = None \<Longrightarrow> op \<in> set ops \<Longrightarrow> \<exists>j. op_fault j op = None"
  by (induction i ops rule: ops_fault.induct) (auto split: option.splits)

lemma validate_patch_checked: "validate_patch p = None \<Longrightarrow> op \<in> set (pt_ops p) \<Longrightarrow> checked_op op"
  by (metis op_fault_checked ops_fault_all validate_patch_def option.distinct(1))

text \<open>The LINK operations of all patches, and whether Python can hash both ends of each.\<close>

definition link_count :: "plan_patch list \<Rightarrow> nat" where
  "link_count ps = sum_list (map (\<lambda>p. length (filter is_link (pt_ops p))) ps)"

definition ends_hashable :: "plan_patch list \<Rightarrow> bool" where
  "ends_hashable ps \<longleftrightarrow> (\<forall>p \<in> set ps. \<forall>op \<in> set (pt_ops p). is_link op \<longrightarrow> payload_link (payload_or_empty op) \<noteq> None)"

lemma link_count_entries: "length (filter (is_link \<circ> snd) (entries ps)) = link_count ps"
  by (induction ps) (simp_all add: entries_def link_count_def filter_map o_def)

lemma link_count_sort: "link_count (sort_key f ps) = link_count ps"
  unfolding link_count_def by (simp only: sum_mset_sum_list [symmetric] mset_map mset_sort)

lemma sorted_entries: "sorted (map patch_rank ps) \<Longrightarrow> sorted (map (patch_rank \<circ> fst) (entries ps))"
proof (induction ps)
  case (Cons p ps)
  have "(q, op) \<in> set (entries ps) \<Longrightarrow> q \<in> set ps" for q op by (auto simp: entries_def)
  then have "x \<in> set (entries ps) \<Longrightarrow> patch_rank p \<le> patch_rank (fst x)" for x using Cons.prems by (cases x) auto
  moreover have "map (patch_rank \<circ> fst) (map (Pair p) ops) = replicate (length ops) (patch_rank p)" for ops
    by (simp add: map_replicate_const o_def)
  moreover have "sorted (map (patch_rank \<circ> fst) (entries ps))" by (rule Cons.IH) (use Cons.prems in simp)
  ultimately show ?case unfolding entries_Cons map_append sorted_append
    by (metis (no_types, lifting) sorted_replicate in_set_replicate imageE list.set_map o_apply)
qed (simp add: entries_def)

definition merged_state :: "nat \<Rightarrow> (json set \<Rightarrow> json list) \<Rightarrow> plan_patch list \<Rightarrow> patch_error + merge_state" where
  "merged_state depth order ps = res_fold (merge_patch depth order) (sort_key patch_rank ps)
     \<lparr>mg_merged_ops = [], mg_add_task_ops = [], mg_link_edges = []\<rparr>"

lemma merged_state_inv:
  assumes "lists_sets order" and "\<forall>p \<in> set ps. validate_patch p = None" and "2 * link_count ps < depth"
  shows "if ends_hashable ps then \<exists>m. merged_state depth order ps = Inr m \<and> merge_inv (entries (sort_key patch_rank ps)) m
    else merged_state depth order ps = Inl Unhashable"
proof -
  let ?es = "entries (sort_key patch_rank ps)"
  have "list_all (checked_op \<circ> snd) ?es"
    using validate_patch_checked assms(2) by (auto simp: list_all_iff entries_def)
  moreover have "merge_inv [] \<lparr>mg_merged_ops = [], mg_add_task_ops = [], mg_link_edges = []\<rparr>"
    by (simp add: merge_inv_def holds_winner_def about_def acyclic_def)
  moreover have "sorted (map (patch_rank \<circ> fst) ([] @ ?es))" using sorted_entries by simp
  moreover have "2 * length (filter (is_link \<circ> snd) ([] @ ?es)) < depth"
    using assms(3) by (simp only: append_Nil link_count_entries link_count_sort)
  moreover have "list_ex (unhashable \<circ> snd) ?es \<longleftrightarrow> \<not> ends_hashable ps"
    unfolding list_ex_iff ends_hashable_def unhashable_def entries_def by (auto simp del: not_None_eq split_paired_All split_paired_Ex)
  ultimately show ?thesis unfolding merged_state_def merge_entries using merge_entries_inv [OF assms(1), of "[]" _ ?es depth]
    by (cases "ends_hashable ps") simp_all
qed

lemma emit_order_types: "merge_inv es m \<Longrightarrow> (t, ty, x) \<in> set (emit_order m) \<Longrightarrow> op_type_of ty \<noteq> None"
proof -
  assume m: "merge_inv es m" and r: "(t, ty, x) \<in> set (emit_order m)"
  have "op_type_of ''ADD_TASK'' \<noteq> None" by (simp add: op_type_of_def)
  then show ?thesis using m r by (force simp: emit_order_def merge_inv_def kept_op_def)
qed

lemma op_type_of_inj: "op_type_of a = Some k \<Longrightarrow> op_type_of b = Some k \<Longrightarrow> a = b"
  by (auto simp: op_type_of_def split: if_splits)

definition emit_key :: "string \<times> string \<times> tagged_op \<Rightarrow> string \<times> string" where
  "emit_key r = (case r of (t, ty, x) \<Rightarrow> (t, ty))"

lemma emit_order_distinct: "merge_inv es m \<Longrightarrow> distinct (map emit_key (emit_order m))"
proof -
  assume inv: "merge_inv es m"
  have "map emit_key (map (\<lambda>(t, x). (t, ''ADD_TASK'', x)) tb) = map (\<lambda>t. (t, ''ADD_TASK'')) (keys tb)" for tb
    by (induction tb) (auto simp: emit_key_def)
  moreover have "map emit_key (filter (\<lambda>(t, ty, x). ty \<noteq> ''ADD_TASK'') (map (\<lambda>((t, ty), x). (t, ty, x)) tb)) =
      filter (\<lambda>(t, ty). ty \<noteq> ''ADD_TASK'') (keys tb)" for tb :: "(string \<times> string, tagged_op) table"
    by (induction tb) (auto simp: emit_key_def)
  ultimately show ?thesis
    using inv by (auto simp: emit_order_def merge_inv_def keyed_def distinct_map inj_on_def)
qed

lemma emitted_unique:
  assumes "\<And>t ty x. (t, ty, x) \<in> set xs \<Longrightarrow> op_type_of ty \<noteq> None" and "distinct (map emit_key xs)"
    and "(t, s, x) \<in> set xs" and "op_type_of s = Some ty"
  shows "\<exists>w. {v \<in> set (map2 (emitted uuid base) [0..<length xs] xs). po_type v = ty \<and> po_task_id v = t} = {w} \<and>
    po_payload w = payload_or_empty (to_op x) \<and> po_actor_id w = to_actor x"
proof -
  let ?e = "\<lambda>j. emitted uuid base j (xs ! j)"
  obtain i where i: "i < length xs" "xs ! i = (t, s, x)" using assms(3) by (auto simp: in_set_conv_nth)
  have ops: "set (map2 (emitted uuid base) [0..<length xs] xs) = ?e ` {..<length xs}"
    by (force simp: set_zip)
  have "j = i" if j: "j < length xs" "po_type (?e j) = ty" "po_task_id (?e j) = t" for j
  proof -
    obtain t' s' x' where xj: "xs ! j = (t', s', x')" by (cases "xs ! j")
    then have "op_type_of s' \<noteq> None" using assms(1) j(1) by (metis nth_mem)
    then have "op_type_of s' = Some ty" using j(2) xj by (auto simp: emitted_def)
    then have "s' = s" using assms(4) op_type_of_inj by blast
    then have "map emit_key xs ! j = map emit_key xs ! i" using j xj i by (simp add: emitted_def emit_key_def)
    then show ?thesis using assms(2) i(1) j(1) by (simp add: nth_eq_iff_index_eq del: nth_map)
  qed
  then have uniq: "v = ?e i" if "v \<in> ?e ` {..<length xs}" "po_type v = ty" "po_task_id v = t" for v
    using that by blast
  have e: "po_type (?e i) = ty" "po_task_id (?e i) = t" "po_payload (?e i) = payload_or_empty (to_op x)" "po_actor_id (?e i) = to_actor x"
    using i assms(4) by (simp_all add: emitted_def)
  have "?e i \<in> ?e ` {..<length xs}" using i(1) by blast
  with uniq e(1,2) have "{v \<in> ?e ` {..<length xs}. po_type v = ty \<and> po_task_id v = t} = {?e i}" by blast
  with e(3,4) show ?thesis unfolding ops by blast
qed

definition says :: "string \<Rightarrow> string \<Rightarrow> plan_patch \<Rightarrow> patch_op \<Rightarrow> bool" where
  "says s t p op \<longleftrightarrow> op \<in> set (pt_ops p) \<and> pp_op_type op = Some s \<and> pp_task_id op = Some t"

text \<open>Every task about which some patch says \<open>s\<close> has exactly one such operation in the result: that of the patch with the
  greatest base lamport, the least actor among those.\<close>

definition newest_kept :: "string \<Rightarrow> plan_op_type \<Rightarrow> plan_patch list \<Rightarrow> plan_op list \<Rightarrow> bool" where
  "newest_kept s ty ps ops \<longleftrightarrow> (\<forall>t. (\<exists>p \<in> set ps. \<exists>op. says s t p op) \<longrightarrow>
     (\<exists>p \<in> set ps. \<exists>op w. says s t p op \<and>
        (\<forall>q \<in> set ps. (\<exists>op. says s t q op) \<longrightarrow> pt_base_lamport q < pt_base_lamport p \<or>
           pt_base_lamport q = pt_base_lamport p \<and> pt_actor_id p \<le> pt_actor_id q) \<and>
        {v \<in> set ops. po_type v = ty \<and> po_task_id v = t} = {w} \<and>
        po_payload w = payload_or_empty op \<and> po_actor_id w = pt_actor_id p))"

lemma in_about: "(p, op) \<in> set (about s t (entries ps)) \<longleftrightarrow> p \<in> set ps \<and> says s t p op"
  by (auto simp: about_def entries_def says_def)

lemma emit_order_add: "map_of (mg_add_task_ops m) t = Some x \<Longrightarrow> (t, ''ADD_TASK'', x) \<in> set (emit_order m)"
  by (force simp: emit_order_def dest: map_of_SomeD)

lemma emit_order_state: "map_of (mg_merged_ops m) (t, ''STATE'') = Some x \<Longrightarrow> (t, ''STATE'', x) \<in> set (emit_order m)"
  by (force simp: emit_order_def dest: map_of_SomeD)

lemma newest_kept_merge:
  assumes inv: "merge_inv (entries ps) m" and ty: "op_type_of s = Some ty"
    and tb: "\<And>t. holds_winner (about s t (entries ps)) (lookup t)"
    and out: "\<And>t x. lookup t = Some x \<Longrightarrow> (t, s, x) \<in> set (emit_order m)"
  shows "newest_kept s ty ps (map2 (emitted uuid base) [0..<length (emit_order m)] (emit_order m))"
  unfolding newest_kept_def
proof (intro allI impI)
  fix t
  assume "\<exists>p \<in> set ps. \<exists>op. says s t p op"
  then have "about s t (entries ps) \<noteq> []" using in_about by (metis empty_iff empty_set)
  then obtain x where x: "lookup t = Some x" "wins (about s t (entries ps)) x"
    using tb [of t] by (auto simp: holds_winner_def split: option.splits)
  then obtain p op where p: "p \<in> set ps" "says s t p op" "x = tag_op p op"
    and best: "\<And>q op. q \<in> set ps \<Longrightarrow> says s t q op \<Longrightarrow> pt_base_lamport q < pt_base_lamport p \<or>
           pt_base_lamport q = pt_base_lamport p \<and> pt_actor_id p \<le> pt_actor_id q"
    unfolding wins_def in_about by (metis fst_conv in_about)
  have types: "\<And>t ty x. (t, ty, x) \<in> set (emit_order m) \<Longrightarrow> op_type_of ty \<noteq> None" by (rule emit_order_types [OF inv])
  obtain w where w: "{v \<in> set (map2 (emitted uuid base) [0..<length (emit_order m)] (emit_order m)). po_type v = ty \<and> po_task_id v = t} = {w}"
      "po_payload w = payload_or_empty (to_op x)" "po_actor_id w = to_actor x"
  proof -
    have "\<exists>w. {v \<in> set (map2 (emitted uuid base) [0..<length (emit_order m)] (emit_order m)). po_type v = ty \<and> po_task_id v = t} = {w} \<and>
        po_payload w = payload_or_empty (to_op x) \<and> po_actor_id w = to_actor x"
      by (rule emitted_unique [OF _ emit_order_distinct [OF inv] out [OF x(1)] ty]) (rule types)
    then show thesis using that by blast
  qed
  have "to_op x = op" "to_actor x = pt_actor_id p" using p(3) by (simp_all add: tag_op_def)
  with w p best show "\<exists>p \<in> set ps. \<exists>op w. says s t p op \<and>
        (\<forall>q \<in> set ps. (\<exists>op. says s t q op) \<longrightarrow> pt_base_lamport q < pt_base_lamport p \<or>
           pt_base_lamport q = pt_base_lamport p \<and> pt_actor_id p \<le> pt_actor_id q) \<and>
        {v \<in> set (map2 (emitted uuid base) [0..<length (emit_order m)] (emit_order m)). po_type v = ty \<and> po_task_id v = t} = {w} \<and>
        po_payload w = payload_or_empty op \<and> po_actor_id w = pt_actor_id p"
    by metis
qed

lemma merge_patches_inv:
  assumes "lists_sets order" and "\<forall>p \<in> set ps. validate_patch p = None" and "2 * link_count ps < depth"
    and "ends_hashable ps" and "ps \<noteq> []"
  obtains m where "merge_inv (entries (sort_key patch_rank ps)) m"
    and "merge_patches depth order uuid ps =
      Inr (map2 (emitted uuid (Max (pt_base_lamport ` set ps) + 1)) [0..<length (emit_order m)] (emit_order m))"
proof -
  obtain m where m: "merged_state depth order ps = Inr m" "merge_inv (entries (sort_key patch_rank ps)) m"
    using merged_state_inv [OF assms(1-3)] assms(4) by auto
  have "emit_ops uuid b 0 (emit_order m) = Inr (map2 (emitted uuid b) [0..<length (emit_order m)] (emit_order m))" for b
    using emit_ops_exact [of "emit_order m" uuid b 0] emit_order_types [OF m(2)] by simp
  then have "merge_patches depth order uuid ps =
      Inr (map2 (emitted uuid (Max (pt_base_lamport ` set ps) + 1)) [0..<length (emit_order m)] (emit_order m))"
    using assms(5) m(1) by (simp add: merge_patches_def merged_state_def Let_def)
  with m(2) that show thesis by blast
qed

lemma merge_patches_unhashable:
  assumes "lists_sets order" and "\<forall>p \<in> set ps. validate_patch p = None" and "2 * link_count ps < depth"
    and "\<not> ends_hashable ps" and "ps \<noteq> []"
  shows "merge_patches depth order uuid ps = Inl Unhashable"
  using merged_state_inv [OF assms(1-3)] assms(4,5) by (simp add: merge_patches_def merged_state_def Let_def)

definition op_links :: "plan_op list \<Rightarrow> (json \<times> json) set" where
  "op_links ops = {e. \<exists>v \<in> set ops. po_type v = LINK \<and> payload_link (po_payload v) = Some e}"

lemma emitted_links:
  assumes "merge_inv es m"
  shows "op_links (map2 (emitted uuid base) [0..<length (emit_order m)] (emit_order m)) \<subseteq> set (mg_link_edges m)"
proof
  fix e
  assume "e \<in> op_links (map2 (emitted uuid base) [0..<length (emit_order m)] (emit_order m))"
  then obtain t ty x i where r: "(t, ty, x) \<in> set (emit_order m)" "po_type (emitted uuid base i (t, ty, x)) = LINK"
    "payload_link (po_payload (emitted uuid base i (t, ty, x))) = Some e"
    by (auto simp: op_links_def dest: set_zip_rightD)
  then obtain k where "op_type_of ty = Some k" using emit_order_types [OF assms] by blast
  with r(2) have "op_type_of ty = Some LINK" by (simp add: emitted_def)
  moreover have "op_type_of ''LINK'' = Some LINK" by (simp add: op_type_of_def)
  ultimately have ty: "ty = ''LINK''" by (rule op_type_of_inj)
  with r(1) have "((t, ''LINK''), x) \<in> set (mg_merged_ops m)" by (auto simp: emit_order_def)
  with assms have "kept_op (set (mg_link_edges m)) ((t, ''LINK''), x)" by (auto simp: merge_inv_def)
  with r(3) show "e \<in> set (mg_link_edges m)" by (auto simp: kept_op_def emitted_def)
qed

text \<open>
  Claim C29.  Merging patches that \<open>validate_patch\<close> accepts, with more nested calls left than twice the number of their
  LINK operations, succeeds exactly when Python can hash both ends of every link; otherwise it raises TypeError.  The
  result numbers its operations with consecutive lamports above every base lamport; for every task it has exactly one
  ADD_TASK, of the patch with the greatest base lamport and the least actor among those, and one STATE likewise; and its
  links have no cycle.
\<close>

theorem merge_patches_exact:
  assumes "lists_sets order" and "\<forall>p \<in> set ps. validate_patch p = None" and "2 * link_count ps < depth" and "ps \<noteq> []"
  shows "if ends_hashable ps
    then \<exists>ops. merge_patches depth order uuid ps = Inr ops \<and>
      map po_lamport ops = map (\<lambda>i. Max (pt_base_lamport ` set ps) + 1 + int i) [0..<length ops] \<and>
      newest_kept ''ADD_TASK'' ADD_TASK ps ops \<and> newest_kept ''STATE'' STATE ps ops \<and> acyclic (op_links ops)
    else merge_patches depth order uuid ps = Inl Unhashable"
proof (cases "ends_hashable ps")
  case True
  let ?qs = "sort_key patch_rank ps" and ?b = "Max (pt_base_lamport ` set ps) + 1"
  obtain m where m: "merge_inv (entries ?qs) m"
    "merge_patches depth order uuid ps = Inr (map2 (emitted uuid ?b) [0..<length (emit_order m)] (emit_order m))"
    using merge_patches_inv [OF assms(1-3) True assms(4)] by metis
  have same: "newest_kept s ty ?qs = newest_kept s ty ps" for s ty by (intro ext) (simp add: newest_kept_def)
  have "newest_kept ''ADD_TASK'' ADD_TASK ?qs (map2 (emitted uuid ?b) [0..<length (emit_order m)] (emit_order m))"
    by (rule newest_kept_merge [OF m(1), where lookup = "map_of (mg_add_task_ops m)"])
      (use m(1) in \<open>simp_all add: merge_inv_def op_type_of_def emit_order_add\<close>)
  moreover have "newest_kept ''STATE'' STATE ?qs (map2 (emitted uuid ?b) [0..<length (emit_order m)] (emit_order m))"
    by (rule newest_kept_merge [OF m(1), where lookup = "\<lambda>t. map_of (mg_merged_ops m) (t, ''STATE'')"])
      (use m(1) in \<open>simp_all add: merge_inv_def op_type_of_def emit_order_state\<close>)
  moreover have "acyclic (set (mg_link_edges m))" using m(1) by (simp add: merge_inv_def)
  then have "acyclic (op_links (map2 (emitted uuid ?b) [0..<length (emit_order m)] (emit_order m)))"
    by (rule acyclic_subset) (rule emitted_links [OF m(1)])
  moreover have "map po_lamport (map2 (emitted uuid ?b) [0..<length xs] xs) = map (\<lambda>i. ?b + int i) [0..<length xs]" for xs
    by (rule nth_equalityI) (auto simp: emitted_def split: prod.splits)
  ultimately show ?thesis using m(2) True unfolding same by auto
next
  case False
  then show ?thesis using merge_patches_unhashable [OF assms(1-3) _ assms(4)] by simp
qed

text \<open>
  When no two patches have the same base lamport and actor, the result does not depend on the order in which the
  patches arrive.
\<close>

theorem merge_patches_deterministic:
  assumes "mset ps' = mset ps" and "inj_on patch_rank (set ps)"
  shows "merge_patches depth order uuid ps' = merge_patches depth order uuid ps"
proof -
  have "sort_key patch_rank ps' = sort_key patch_rank ps"
    using assms by (intro sort_key_inj_key_eq) (auto dest: mset_eq_setD)
  moreover have "ps' = [] \<longleftrightarrow> ps = []" using assms(1) by auto
  ultimately show ?thesis by (simp add: merge_patches_def)
qed

section \<open>Examples\<close>

definition mk_op :: "string \<Rightarrow> string \<Rightarrow> (string, json) table \<Rightarrow> patch_op" where
  "mk_op ty t pl = \<lparr>pp_op_type = Some ty, pp_task_id = Some t, pp_payload = Some pl\<rparr>"

definition link_op :: "string \<Rightarrow> string \<Rightarrow> string \<Rightarrow> patch_op" where
  "link_op t a b = mk_op ''LINK'' t [(''parent'', JStr a), (''child'', JStr b)]"

definition demo_patches :: "plan_patch list" where
  "demo_patches =
     [\<lparr>pt_patch_id = ''p2'', pt_actor_id = ''bob'', pt_base_lamport = 7, pt_ops = [mk_op ''ADD_TASK'' ''t'' [(''type'', JInt 2)], link_op ''u'' ''u'' ''t''],
       pt_timestamp_ns = 0\<rparr>,
      \<lparr>pt_patch_id = ''p1'', pt_actor_id = ''ann'', pt_base_lamport = 4, pt_ops = [mk_op ''ADD_TASK'' ''t'' [(''type'', JInt 1)], link_op ''t'' ''t'' ''u''],
       pt_timestamp_ns = 0\<rparr>]"

abbreviation merge_demo :: "plan_patch list \<Rightarrow> patch_error + plan_op list" where
  "merge_demo \<equiv> merge_patches 100 sorted_list_of_set (\<lambda>i. replicate i CHR ''x'')"

definition merge_view :: "plan_patch list \<Rightarrow> (plan_op_type \<times> string \<times> (string, json) table) list" where
  "merge_view ps = (case merge_demo ps of Inl e \<Rightarrow> [] | Inr ops \<Rightarrow> map (\<lambda>v. (po_type v, po_task_id v, po_payload v)) ops)"

text \<open>The end of a link is a list, which Python cannot hash.\<close>

definition listed_link :: plan_patch where
  "listed_link = \<lparr>pt_patch_id = ''p'', pt_actor_id = ''a'', pt_base_lamport = 1,
     pt_ops = [mk_op ''LINK'' ''t'' [(''parent'', JList [JStr ''x'']), (''child'', JStr ''t'')]], pt_timestamp_ns = 0\<rparr>"

lemma merge_patches_exact_witness:
  "(\<exists>ops. merge_demo demo_patches = Inr ops \<and> newest_kept ''ADD_TASK'' ADD_TASK demo_patches ops \<and> acyclic (op_links ops)) \<and>
   merge_demo [listed_link] = Inl Unhashable"
proof -
  note eval = demo_patches_def listed_link_def validate_patch_def op_fault_def op_type_of_def mk_op_def link_op_def
    payload_or_empty_def payload_link_def node_of_def has_key_def link_count_def ends_hashable_def
  have "\<forall>p \<in> set demo_patches. validate_patch p = None" "2 * link_count demo_patches < 100" "demo_patches \<noteq> []"
    "ends_hashable demo_patches" by (simp_all add: eval)
  moreover have "\<forall>p \<in> set [listed_link]. validate_patch p = None" "2 * link_count [listed_link] < 100" "[listed_link] \<noteq> []"
    "\<not> ends_hashable [listed_link]" by (simp_all add: eval)
  ultimately show ?thesis
    using merge_patches_exact [OF lists_sets_sorted, of demo_patches 100 "\<lambda>i. replicate i CHR ''x''"]
      merge_patches_exact [OF lists_sets_sorted, of "[listed_link]" 100 "\<lambda>i. replicate i CHR ''x''"] by fastforce
qed

lemma merge_patches_deterministic_witness:
  "merge_demo (rev demo_patches) = merge_demo demo_patches"
  by (rule merge_patches_deterministic) (simp_all add: demo_patches_def patch_rank_def inj_on_def)

text \<open>Validation does not bound the links: a chain of more links than nested calls are left raises RecursionError.\<close>

lemma long_chain_raises:
  "merge_patches 3 sorted_list_of_set (\<lambda>i. replicate i CHR ''x'')
     [\<lparr>pt_patch_id = ''p'', pt_actor_id = ''a'', pt_base_lamport = 1,
       pt_ops = [link_op ''1'' ''a'' ''b'', link_op ''2'' ''b'' ''c'', link_op ''3'' ''c'' ''d''], pt_timestamp_ns = 0\<rparr>] = Inl RecursionLimit"
  by code_simp

text \<open>The second link would close a cycle and is dropped; the ADD_TASK of the patch with the greater lamport wins.\<close>

lemma demo_merge:
  "merge_view demo_patches =
     [(ADD_TASK, ''t'', [(''type'', JInt 2)]), (LINK, ''t'', [(''parent'', JStr ''t''), (''child'', JStr ''u'')])]"
  by code_simp

text \<open>Links are kept one per task: of two links of one task only the last one is in the result, although no cycle is
  involved and both still count in later cycle tests.\<close>

lemma merged_link_lost:
  "merge_view [\<lparr>pt_patch_id = ''p'', pt_actor_id = ''a'', pt_base_lamport = 1, pt_ops = [link_op ''t'' ''t'' ''u'', link_op ''t'' ''t'' ''v''],
       pt_timestamp_ns = 0\<rparr>] = [(LINK, ''t'', [(''parent'', JStr ''t''), (''child'', JStr ''v'')])]"
  by code_simp

text \<open>Within one patch the first state of a task wins, not the last.\<close>

lemma first_state_wins:
  "merge_view [\<lparr>pt_patch_id = ''p'', pt_actor_id = ''a'', pt_base_lamport = 1,
       pt_ops = [mk_op ''STATE'' ''t'' [(''state'', JStr ''DECIDED'')], mk_op ''STATE'' ''t'' [(''state'', JStr ''FINAL'')]],
       pt_timestamp_ns = 0\<rparr>] = [(STATE, ''t'', [(''state'', JStr ''DECIDED'')])]"
  by code_simp

text \<open>Two patches of one actor with the same base lamport are merged in the order in which they arrive.\<close>

lemma equal_ranks_depend_on_order:
  "let p = \<lambda>s. \<lparr>pt_patch_id = s, pt_actor_id = ''a'', pt_base_lamport = 1, pt_ops = [mk_op ''STATE'' ''t'' [(''state'', JStr s)]],
       pt_timestamp_ns = 0\<rparr>
   in merge_view [p ''DECIDED'', p ''FINAL''] \<noteq> merge_view [p ''FINAL'', p ''DECIDED'']"
  by code_simp

end
