(* ===== verification/VersionProps.thy ===== *)
theory VersionProps
  imports Versions PatchProps
begin

text \<open>
  Correctness of plan versions: the root of a version identifies the state up to the order of keys, the version at a
  lamport is the last one recorded for the greatest lamport not above it, snapshots and diffs are exact for fresh
  version ids; and what the UPDATE_PLAN handler does to the store and to the versions.
\<close>

section \<open>Roots\<close>

definition normal_state :: "(string, task_data) table \<Rightarrow> string \<Rightarrow> json option" where
  "normal_state s t = map_option (\<lambda>d. sort_json (JObj d)) (map_of s t)"

definition sorted_state :: "(string, task_data) table \<Rightarrow> (string \<times> json) list" where
  "sorted_state s = map (\<lambda>(t, d). (t, sort_json (JObj d))) (sort_key fst s)"

lemma canonical_eq_iff: "canonical_state a = canonical_state b \<longleftrightarrow> sorted_state a = sorted_state b"
proof -
  let ?f = "\<lambda>(t, v). JList [JStr t, v]"
  have inj: "inj ?f" by (auto intro!: injI)
  have "sort_json (JList (map (\<lambda>(t, d). JList [JStr t, JObj d]) (sort_key fst s))) = JList (map ?f (sorted_state s))" for s
    by (simp add: sorted_state_def comp_def case_prod_beta)
  then show ?thesis
    by (simp only: canonical_state_def dumps_sorted_inj json.inject inj_map_eq_map [OF inj])
qed

lemma sorted_state_props:
  assumes "keyed s"
  shows "sorted (keys (sorted_state s))" "distinct (keys (sorted_state s))" "map_of (sorted_state s) = normal_state s"
proof -
  have k: "keys (sorted_state s) = map fst (sort_key fst s)" by (simp add: sorted_state_def comp_def case_prod_beta)
  show "sorted (keys (sorted_state s))" unfolding k by simp
  have d: "distinct (map fst (sort_key fst s))"
    using assms by (metis distinct_map inj_on_def keyed_def set_sort distinct_sort)
  then show "distinct (keys (sorted_state s))" unfolding k .
  have "map_of (sort_key fst s) = map_of s"
    using d assms by (intro map_of_eqI) (auto simp: keyed_def map_of_eq_Some_iff)
  then show "map_of (sorted_state s) = normal_state s"
    unfolding sorted_state_def map_of_map by (simp add: normal_state_def fun_eq_iff)
qed

text \<open>
  Claim C30.  Unless SHA-256 maps the two texts to one digest, two plan states have the same Merkle root exactly when
  they have the same tasks with the same data, up to the order of the keys of dictionaries.
\<close>

theorem merkle_root_identifies_state:
  assumes "keyed a" and "keyed b"
    and "sha256 (canonical_state a) = sha256 (canonical_state b) \<Longrightarrow> canonical_state a = canonical_state b"
  shows "compute_merkle_root sha256 (map (\<lambda>(t, d). (t, Data d)) a) = compute_merkle_root sha256 (map (\<lambda>(t, d). (t, Data d)) b) \<longleftrightarrow>
    normal_state a = normal_state b"
proof -
  have dicts: "task_dicts (map (\<lambda>(t, d). (t, Data d)) s) = Inr s" for s by (induction s) auto
  have "sorted_state a = sorted_state b" if "normal_state a = normal_state b"
  proof -
    note p = sorted_state_props [OF assms(1)] sorted_state_props [OF assms(2)]
    have "set (sorted_state a) = set (sorted_state b)"
      using that p by (metis map_of_eq_Some_iff subrelI subset_antisym)
    with p show ?thesis
      by (intro map_sorted_distinct_set_unique [of fst]) (auto simp: distinct_map)
  qed
  moreover have "normal_state a = normal_state b" if "sorted_state a = sorted_state b"
    using that sorted_state_props(3) [OF assms(1)] sorted_state_props(3) [OF assms(2)] by simp
  ultimately show ?thesis using assms(3) canonical_eq_iff [of a b] by (auto simp: compute_merkle_root_def dicts)
qed

lemma merkle_root_identifies_state_witness:
  "let a = [(''t'', [(''state'', JStr ''DRAFT''), (''n'', JInt 1)]), (''u'', [])];
       b = [(''u'', []), (''t'', [(''n'', JInt 1), (''state'', JStr ''DRAFT'')])]
   in compute_merkle_root id (map (\<lambda>(t, d). (t, Data d)) a) = compute_merkle_root id (map (\<lambda>(t, d). (t, Data d)) b)"
proof -
  let ?a = "[(''t'', [(''state'', JStr ''DRAFT''), (''n'', JInt 1)]), (''u'', [])]"
  let ?b = "[(''u'', []), (''t'', [(''n'', JInt 1), (''state'', JStr ''DRAFT'')])]"
  have "normal_state ?a = normal_state ?b" by (intro ext) (auto simp: normal_state_def)
  with merkle_root_identifies_state [of ?a ?b id] show ?thesis by (simp add: Let_def keyed_def)
qed

section \<open>Versions by lamport\<close>

record version_call =
  vc_id :: string
  vc_lamport :: int
  vc_state :: "(string, task_value) table"
  vc_metadata :: "(string, json) table"
  vc_now :: int

definition record_call :: "(string \<Rightarrow> string) \<Rightarrow> version_call \<Rightarrow> version_db \<Rightarrow> version_error + version_db" where
  "record_call sha256 c db =
     res_bind (record_version sha256 [] (vc_state c) (vc_lamport c) (Some (vc_id c)) (Some (vc_metadata c)) (vc_now c) db)
       (\<lambda>(v, db). Inr db)"

text \<open>The version a call makes.\<close>

definition version_of :: "(string \<Rightarrow> string) \<Rightarrow> version_call \<Rightarrow> plan_version" where
  "version_of sha256 c = \<lparr>pv_version_id = vc_id c, pv_lamport = vc_lamport c,
     pv_merkle_root = (case compute_merkle_root sha256 (vc_state c) of Inl e \<Rightarrow> [] | Inr r \<Rightarrow> r),
     pv_timestamp_ns = vc_now c, pv_metadata = vc_metadata c\<rparr>"

lemma record_call_versions:
  "record_call sha256 c db = Inr db' \<Longrightarrow> vd_versions db' = replace_version (version_of sha256 c) (vd_versions db)"
  by (auto simp: record_call_def record_version_def version_of_def res_simps Let_def)

text \<open>The calls that no later call with the same lamport has replaced.\<close>

definition current :: "version_call list \<Rightarrow> version_call \<Rightarrow> bool" where
  "current cs c \<longleftrightarrow> (\<exists>us vs. cs = us @ c # vs \<and> (\<forall>d \<in> set vs. vc_lamport d \<noteq> vc_lamport c))"

lemma current_snoc: "current (cs @ [c]) d \<longleftrightarrow> d = c \<or> current cs d \<and> vc_lamport d \<noteq> vc_lamport c"
proof -
  have "current (cs @ [c]) d" if "current cs d" "vc_lamport d \<noteq> vc_lamport c"
  proof -
    obtain us vs where "cs = us @ d # vs" "\<forall>e \<in> set vs. vc_lamport e \<noteq> vc_lamport d"
      using \<open>current cs d\<close> by (auto simp: current_def)
    then show ?thesis using that(2) unfolding current_def by (intro exI [of _ us] exI [of _ "vs @ [c]"]) auto
  qed
  moreover have "current (cs @ [c]) c" unfolding current_def by (intro exI [of _ cs] exI [of _ "[]"]) simp
  moreover have "d = c \<or> current cs d \<and> vc_lamport d \<noteq> vc_lamport c" if new: "current (cs @ [c]) d"
  proof -
    obtain us vs where s: "cs @ [c] = us @ d # vs" "\<forall>e \<in> set vs. vc_lamport e \<noteq> vc_lamport d"
      using new by (auto simp: current_def)
    show ?thesis
    proof (cases vs rule: rev_cases)
      case Nil
      with s show ?thesis by simp
    next
      case (snoc ws e)
      with s have "cs = us @ d # ws" "e = c" by simp_all
      with s(2) snoc show ?thesis unfolding current_def by auto
    qed
  qed
  ultimately show ?thesis by blast
qed

lemma current_in: "current cs c \<Longrightarrow> c \<in> set cs"
  by (auto simp: current_def)

lemma recorded_versions:
  assumes "res_fold (record_call sha256) cs no_versions = Inr db" and "distinct (map vc_id cs)"
  shows "distinct (map pv_lamport (vd_versions db)) \<and> set (vd_versions db) = version_of sha256 ` {c. current cs c}"
  using assms
proof (induction cs arbitrary: db rule: rev_induct)
  case Nil
  then show ?case by (auto simp: no_versions_def current_def)
next
  case (snoc c cs)
  then obtain db1 where db1: "res_fold (record_call sha256) cs no_versions = Inr db1" "record_call sha256 c db1 = Inr db"
    by (auto simp: res_fold_snoc_Inr)
  have IH: "distinct (map pv_lamport (vd_versions db1))" "set (vd_versions db1) = version_of sha256 ` {c. current cs c}"
    using snoc.IH [OF db1(1)] snoc.prems(2) by auto
  have fresh: "vc_id d \<noteq> vc_id c" if "current cs d" for d using current_in [OF that] snoc.prems(2) by (auto simp: image_iff)
  note vs = record_call_versions [OF db1(2)]
  have "distinct (map pv_lamport (filter P xs))" if "distinct (map pv_lamport xs)" for P and xs :: "plan_version list"
    using that by (rule distinct_map_filter)
  then have "distinct (map pv_lamport (vd_versions db))" unfolding vs replace_version_def using IH(1) by (auto simp: version_of_def)
  moreover have "set (vd_versions db) = version_of sha256 ` {d. current (cs @ [c]) d}"
    unfolding vs replace_version_def using IH(2) fresh by (auto simp: current_snoc version_of_def image_iff)
  ultimately show ?case by blast
qed

lemma current_exists: "c \<in> set cs \<Longrightarrow> \<exists>d. current cs d \<and> vc_lamport d = vc_lamport c"
proof (induction cs rule: rev_induct)
  case (snoc x xs)
  show ?case
  proof (cases "vc_lamport x = vc_lamport c")
    case True
    then show ?thesis by (auto simp: current_snoc)
  next
    case False
    with snoc show ?thesis unfolding current_snoc by (metis UnE set_append empty_iff empty_set set_ConsD)
  qed
qed simp

lemma get_version_at_lamport_iff:
  assumes "distinct (map pv_lamport (vd_versions db))"
  shows "get_version_at_lamport l db = Some v \<longleftrightarrow> v \<in> set (vd_versions db) \<and> pv_lamport v \<le> l \<and>
    (\<forall>w \<in> set (vd_versions db). pv_lamport w \<le> l \<longrightarrow> pv_lamport w \<le> pv_lamport v)"
proof -
  let ?xs = "sort_key (\<lambda>v. - pv_lamport v) (filter (\<lambda>v. pv_lamport v \<le> l) (vd_versions db))"
  have set: "set ?xs = {v \<in> set (vd_versions db). pv_lamport v \<le> l}" by simp
  have inj: "inj_on pv_lamport (set (vd_versions db))" using assms by (simp add: distinct_map)
  show ?thesis
  proof (cases ?xs)
    case Nil
    then show ?thesis using set by (auto simp: get_version_at_lamport_def)
  next
    case (Cons x xs)
    have "sorted (map (\<lambda>v. - pv_lamport v) ?xs)" by (rule sorted_sort_key)
    then have max: "\<forall>w \<in> set ?xs. pv_lamport w \<le> pv_lamport x" unfolding Cons by auto
    have x: "x \<in> set ?xs" unfolding Cons by simp
    have "get_version_at_lamport l db = Some x" by (simp add: get_version_at_lamport_def Cons)
    moreover have "v = x" if "v \<in> set (vd_versions db)" "pv_lamport v \<le> l"
      "\<forall>w \<in> set (vd_versions db). pv_lamport w \<le> l \<longrightarrow> pv_lamport w \<le> pv_lamport v"
    proof -
      have "v \<in> set ?xs" using that set by blast
      then have "pv_lamport v \<le> pv_lamport x" "pv_lamport x \<le> pv_lamport v" using max x that set by auto
      then show ?thesis using inj x that(1) set by (auto dest: inj_onD)
    qed
    ultimately show ?thesis using x max set by auto
  qed
qed

text \<open>
  After any calls with distinct version ids, the version at a lamport is that of the last call for the
  greatest recorded lamport not above it, and there is none exactly when every recorded lamport is above.
\<close>

theorem version_at_lamport_exact:
  assumes "res_fold (record_call sha256) cs no_versions = Inr db" and "distinct (map vc_id cs)"
  shows "(get_version_at_lamport l db = None \<longleftrightarrow> (\<forall>c \<in> set cs. l < vc_lamport c)) \<and>
    (\<forall>v. get_version_at_lamport l db = Some v \<longrightarrow>
      (\<exists>us c vs. cs = us @ c # vs \<and> v = version_of sha256 c \<and> (\<forall>d \<in> set vs. vc_lamport d \<noteq> vc_lamport c) \<and>
         vc_lamport c \<le> l \<and> (\<forall>d \<in> set cs. vc_lamport d \<le> l \<longrightarrow> vc_lamport d \<le> vc_lamport c)))"
proof (intro conjI allI impI)
  note R = recorded_versions [OF assms]
  have lam: "pv_lamport (version_of sha256 c) = vc_lamport c" for c by (simp add: version_of_def)
  have none: "get_version_at_lamport l db = None \<longleftrightarrow> filter (\<lambda>v. pv_lamport v \<le> l) (vd_versions db) = []"
    using length_sort [of "\<lambda>v. - pv_lamport v" "filter (\<lambda>v. pv_lamport v \<le> l) (vd_versions db)"]
    by (auto simp: get_version_at_lamport_def split: list.splits simp del: length_sort)
  have "\<dots> \<longleftrightarrow> (\<forall>c. current cs c \<longrightarrow> l < vc_lamport c)"
    unfolding filter_empty_conv using R lam by (auto simp: not_le)
  also have "\<dots> \<longleftrightarrow> (\<forall>c \<in> set cs. l < vc_lamport c)"
    using current_exists current_in by metis
  finally show "get_version_at_lamport l db = None \<longleftrightarrow> (\<forall>c \<in> set cs. l < vc_lamport c)" using none by simp
  fix v
  assume "get_version_at_lamport l db = Some v"
  then have v: "v \<in> set (vd_versions db)" "pv_lamport v \<le> l"
    "\<And>w. w \<in> set (vd_versions db) \<Longrightarrow> pv_lamport w \<le> l \<Longrightarrow> pv_lamport w \<le> pv_lamport v"
    using get_version_at_lamport_iff R by auto
  then obtain c where c: "current cs c" "v = version_of sha256 c" using R by auto
  have "vc_lamport d \<le> vc_lamport c" if d: "d \<in> set cs" "vc_lamport d \<le> l" for d
  proof -
    obtain e where e: "current cs e" "vc_lamport e = vc_lamport d" using current_exists [OF d(1)] by blast
    then have "version_of sha256 e \<in> set (vd_versions db)" using R by blast
    from v(3) [OF this] show ?thesis using e c d lam by simp
  qed
  with c v(2) lam show "\<exists>us c vs. cs = us @ c # vs \<and> v = version_of sha256 c \<and> (\<forall>d \<in> set vs. vc_lamport d \<noteq> vc_lamport c) \<and>
         vc_lamport c \<le> l \<and> (\<forall>d \<in> set cs. vc_lamport d \<le> l \<longrightarrow> vc_lamport d \<le> vc_lamport c)"
    unfolding current_def by metis
qed

definition demo_call :: "string \<Rightarrow> int \<Rightarrow> version_call" where
  "demo_call i l = \<lparr>vc_id = i, vc_lamport = l, vc_state = [(''t'', Data [(''state'', JStr i)])], vc_metadata = [], vc_now = 0\<rparr>"

definition demo_versions :: version_db where
  "demo_versions = (case res_fold (record_call id) [demo_call ''a'' 3, demo_call ''b'' 7, demo_call ''c'' 3] no_versions of
     Inl e \<Rightarrow> no_versions | Inr db \<Rightarrow> db)"

lemma version_at_lamport_exact_witness:
  "get_version_at_lamport 2 demo_versions = None \<and> get_version_at_lamport 5 demo_versions = Some (version_of id (demo_call ''c'' 3))"
proof -
  let ?cs = "[demo_call ''a'' 3, demo_call ''b'' 7, demo_call ''c'' 3]"
  have run: "res_fold (record_call id) ?cs no_versions = Inr demo_versions"
    by (simp add: demo_versions_def demo_call_def record_call_def record_version_def compute_merkle_root_def replace_snapshot_def
        sql_text_def Let_def)
  have d: "distinct (map vc_id ?cs)" by (simp add: demo_call_def)
  have some: "get_version_at_lamport 5 demo_versions \<noteq> None"
    using version_at_lamport_exact [OF run d, of 5] by (simp add: demo_call_def)
  then obtain v where v: "get_version_at_lamport 5 demo_versions = Some v" by blast
  then obtain us c vs where c: "?cs = us @ c # vs" "v = version_of id c" "\<forall>d \<in> set vs. vc_lamport d \<noteq> vc_lamport c" "vc_lamport c \<le> 5"
    using version_at_lamport_exact [OF run d, of 5] by blast
  then have "c = demo_call ''c'' 3"
    by (cases us; cases "tl us"; cases "tl (tl us)") (auto simp: demo_call_def)
  with v c(2) show ?thesis using version_at_lamport_exact [OF run d, of 2] by (simp add: demo_call_def)
qed

section \<open>Snapshots and differences\<close>

definition snapshot_ids :: "version_db \<Rightarrow> string set" where
  "snapshot_ids db = fst ` set (keys (vd_snapshots db))"

lemma replace_snapshots:
  assumes "res_fold (replace_snapshot i) ds rows = Inr rows'" and "distinct (keys ds)"
    and "\<And>t. t \<in> set (keys ds) \<Longrightarrow> (i, t) \<notin> set (keys rows)"
  shows "\<exists>new. rows' = rows @ new \<and> map (\<lambda>((v, t), s, d). (t, d)) new = ds \<and> (\<forall>r \<in> set new. fst (fst r) = i)"
  using assms
proof (induction ds arbitrary: rows)
  case (Cons x ds)
  obtain t d where x: "x = (t, d)" by (cases x)
  have "(i, t) \<notin> fst ` set rows" using Cons.prems(3) [of t] by (simp add: x)
  then have "AList.delete (i, t) rows = rows" by (rule delete_id)
  then obtain s where s: "res_fold (replace_snapshot i) ds (rows @ [((i, t), s, d)]) = Inr rows'"
    using Cons.prems(1) by (auto simp: x replace_snapshot_def res_simps)
  have "\<And>u. u \<in> set (keys ds) \<Longrightarrow> (i, u) \<notin> set (keys (rows @ [((i, t), s, d)]))"
    using Cons.prems(2,3) by (auto simp: x)
  with Cons.IH [OF s] Cons.prems(2) obtain new where
    "rows' = (rows @ [((i, t), s, d)]) @ new" "map (\<lambda>((v, t), s, d). (t, d)) new = ds" "\<forall>r \<in> set new. fst (fst r) = i"
    by auto
  then show ?case by (intro exI [of _ "((i, t), s, d) # new"]) (simp add: x)
qed simp

lemma snapshot_of_fresh:
  assumes "record_version sha256 u (map (\<lambda>(t, d). (t, Data d)) ds) l (Some i) m now db = Inr (v, db')"
    and "keyed ds" and "i \<notin> snapshot_ids db"
  shows "get_snapshot_data i db' = ds \<and> (\<forall>j. j \<noteq> i \<longrightarrow> get_snapshot_data j db' = get_snapshot_data j db) \<and>
    snapshot_ids db' \<subseteq> insert i (snapshot_ids db)"
proof -
  have dicts: "task_dicts (map (\<lambda>(t, d). (t, Data d)) ds) = Inr ds" by (induction ds) auto
  then have "res_fold (replace_snapshot i) ds (vd_snapshots db) = Inr (vd_snapshots db')"
    using assms(1) by (auto simp: record_version_def res_simps Let_def)
  moreover have "\<And>t. (i, t) \<notin> set (keys (vd_snapshots db))" using assms(3) by (force simp: snapshot_ids_def)
  ultimately obtain new where new: "vd_snapshots db' = vd_snapshots db @ new" "map (\<lambda>((v, t), s, d). (t, d)) new = ds"
      "\<forall>r \<in> set new. fst (fst r) = i"
    using replace_snapshots [of i ds "vd_snapshots db" "vd_snapshots db'"] assms(2) by (auto simp: keyed_def)
  have "filter (\<lambda>((v, t), s, d). v = i) new = new" using new(3) by (intro filter_True) auto
  moreover have "filter (\<lambda>((v, t), s, d). v = i) (vd_snapshots db) = []"
    using assms(3) by (force simp: snapshot_ids_def filter_empty_conv)
  moreover have "filter (\<lambda>((v, t), s, d). v = j) new = []" if "j \<noteq> i" for j
    using that new(3) by (force simp: filter_empty_conv)
  ultimately show ?thesis using new by (auto simp: get_snapshot_data_def snapshot_ids_def)
qed

text \<open>
  Two states recorded under fresh version ids are read back exactly, and their difference lists exactly the
  tasks added, the tasks removed and the tasks with different data.
\<close>

theorem recorded_diff_exact:
  assumes "record_version sha256 u (map (\<lambda>(t, d). (t, Data d)) a) la (Some i) ma na db = Inr (va, db1)"
    and "record_version sha256 u' (map (\<lambda>(t, d). (t, Data d)) b) lb (Some j) mb nb db1 = Inr (vb, db2)"
    and "keyed a" and "keyed b" and "i \<notin> snapshot_ids db" and "j \<notin> insert i (snapshot_ids db)" and "lists_sets order"
  shows "get_snapshot_data i db2 = a \<and> get_snapshot_data j db2 = b \<and>
    (let df = compute_diff order i j db2 in
     set (df_added df) = {(t, d). (t, d) \<in> set b \<and> map_of a t = None} \<and>
     set (df_removed df) = {(t, d). (t, d) \<in> set a \<and> map_of b t = None} \<and>
     set (df_modified df) = {(t, d, e). (t, d) \<in> set a \<and> (t, e) \<in> set b \<and> \<not> py_eq (JObj d) (JObj e)})"
proof -
  note A = snapshot_of_fresh [OF assms(1,3,5)]
  have "j \<notin> snapshot_ids db1" using A assms(6) by blast
  note B = snapshot_of_fresh [OF assms(2,4) this]
  have snap: "get_snapshot_data i db2 = a" "get_snapshot_data j db2 = b" using A B assms(6) by auto
  have order: "set (order S) = S" if "finite S" for S using assms(7) that by (simp add: lists_sets_def)
  have listed: "set (order (fst ` set b - fst ` set a)) = fst ` set b - fst ` set a"
    "set (order (fst ` set a - fst ` set b)) = fst ` set a - fst ` set b"
    "set (order (fst ` set a \<inter> fst ` set b)) = fst ` set a \<inter> fst ` set b" by (intro order; simp)+
  have a: "(t, d) \<in> set a \<longleftrightarrow> map_of a t = Some d" and b: "(t, d) \<in> set b \<longleftrightarrow> map_of b t = Some d" for t d
    using assms(3,4) by (simp_all add: keyed_map_of)
  have dom: "fst ` set c = {t. map_of c t \<noteq> None}" for c :: "(string, task_data) table"
    using dom_map_of_conv_image_fst [of c] by (simp add: dom_def)
  have "set (df_added (compute_diff order i j db2)) = {(t, d). (t, d) \<in> set b \<and> map_of a t = None}"
    unfolding a b by (simp add: compute_diff_def Let_def snap listed del: py_eq.simps) (auto simp: dom image_iff simp del: py_eq.simps)
  moreover have "set (df_removed (compute_diff order i j db2)) = {(t, d). (t, d) \<in> set a \<and> map_of b t = None}"
    unfolding a b by (simp add: compute_diff_def Let_def snap listed del: py_eq.simps) (auto simp: dom image_iff simp del: py_eq.simps)
  moreover have "set (df_modified (compute_diff order i j db2)) =
      {(t, d, e). (t, d) \<in> set a \<and> (t, e) \<in> set b \<and> \<not> py_eq (JObj d) (JObj e)}"
    unfolding a b by (simp add: compute_diff_def Let_def snap listed del: py_eq.simps) (auto simp: dom image_iff simp del: py_eq.simps)
  ultimately show ?thesis using snap by (simp add: Let_def)
qed

lemma recorded_diff_exact_witness:
  "\<exists>db. get_snapshot_data ''a'' db = [(''t'', [(''n'', JInt 1)]), (''u'', [])] \<and>
     set (df_modified (compute_diff sorted_list_of_set ''a'' ''b'' db)) = {(''t'', [(''n'', JInt 1)], [(''n'', JInt 2)])}"
proof -
  let ?a = "[(''t'', [(''n'', JInt 1)]), (''u'', [])] :: (string, task_data) table"
  let ?b = "[(''t'', [(''n'', JInt 2)])] :: (string, task_data) table"
  obtain va db1 where 1: "record_version id [] (map (\<lambda>(t, d). (t, Data d)) ?a) 1 (Some ''a'') None 0 no_versions = Inr (va, db1)"
    by (simp add: record_version_def compute_merkle_root_def replace_snapshot_def sql_text_def no_versions_def Let_def)
  obtain vb db2 where 2: "record_version id [] (map (\<lambda>(t, d). (t, Data d)) ?b) 2 (Some ''b'') None 0 db1 = Inr (vb, db2)"
    by (simp add: record_version_def compute_merkle_root_def replace_snapshot_def sql_text_def Let_def)
  have "snapshot_ids no_versions = {}" by (simp add: snapshot_ids_def no_versions_def)
  then have "get_snapshot_data ''a'' db2 = ?a \<and>
      set (df_modified (compute_diff sorted_list_of_set ''a'' ''b'' db2)) =
        {(t, d, e). (t, d) \<in> set ?a \<and> (t, e) \<in> set ?b \<and> \<not> py_eq (JObj d) (JObj e)}"
    using recorded_diff_exact [OF 1 2 _ _ _ _ lists_sets_sorted] by (simp add: keyed_def Let_def)
  moreover have "{(t, d, e). (t, d) \<in> set ?a \<and> (t, e) \<in> set ?b \<and> \<not> py_eq (JObj d) (JObj e)} = {(''t'', [(''n'', JInt 1)], [(''n'', JInt 2)])}"
    by auto
  ultimately show ?thesis by metis
qed

text \<open>Recording again under the same id keeps the tasks the new state no longer has: the snapshot is not the state whose
  root the version carries.\<close>

lemma stale_snapshot:
  "let r = (\<lambda>st l db. case record_version id [] st l (Some ''v'') None 0 db of Inl e \<Rightarrow> db | Inr (v, db) \<Rightarrow> db);
       db = r [(''u'', Data [])] 2 (r [(''t'', Data []), (''u'', Data [])] 1 no_versions)
   in get_snapshot_data ''v'' db = [(''t'', []), (''u'', [])] \<and> length (vd_versions db) = 1"
  by code_simp

section \<open>UPDATE_PLAN\<close>

text \<open>The handler skips exactly the operations that validation of a patch refuses.\<close>

lemma skip_op_iff_fault: "skip_op op \<longleftrightarrow> op_fault i op \<noteq> None"
  by (cases "pp_op_type op") (auto simp: skip_op_def op_fault_def Let_def split: if_splits)

lemma apply_updates_exact:
  "apply_updates uuid clock env k ops db = (None, n, db') \<Longrightarrow>
     n = k + length (filter (\<lambda>op. \<not> skip_op op) ops) \<and>
     ps_ops db' = ps_ops db @ map2 (update_op uuid clock env) [k..<n] (filter (\<lambda>op. \<not> skip_op op) ops)"
proof (induction uuid clock env k ops db rule: apply_updates.induct)
  case (2 uuid clock env k op ops db)
  show ?case
  proof (cases "skip_op op")
    case True
    with 2 show ?thesis by simp
  next
    case False
    with 2(3) obtain db1 where db1: "append_op (update_op uuid clock env k op) db = Inr db1"
      "apply_updates uuid clock env (Suc k) ops db1 = (None, n, db')"
      by (auto split: sum.splits)
    have "ps_ops db1 = ps_ops db @ [update_op uuid clock env k op]"
      using db1(1) by (auto simp: append_op_def apply_op_def res_simps Let_def split: if_splits plan_op_type.splits)
    moreover have "[k..<Suc (k + m)] = k # [Suc k..<Suc (k + m)]" for m by (simp add: upt_conv_Cons del: upt_Suc)
    ultimately show ?thesis using 2(2) [OF False db1] False by (auto simp del: upt_Suc)
  qed
qed simp

text \<open>
  UPDATE_PLAN appends exactly the valid operations of its patch, in their order and with consecutive lamports
  from that of the envelope on; but it never records a version: the task data it passes on are coroutines, which
  cannot be serialized, and the error is swallowed.
\<close>

theorem update_plan_exact:
  assumes "handle_update_plan order sha256 uuid clock env (db, vdb) = (None, db', vdb')"
  shows "vdb' = vdb \<and>
    ps_ops db' = ps_ops db @
      (if uuid 0 = [] \<or> ue_sender env = [] \<or> ue_lamport env < 0 then []
       else let ops = filter (\<lambda>op. op_fault 0 op = None) (ue_ops env) in
         map (\<lambda>i. update_op uuid clock env i (ops ! i)) [0..<length ops])"
proof -
  have ops: "filter (\<lambda>op. \<not> skip_op op) xs = filter (\<lambda>op. op_fault 0 op = None) xs" for xs
    by (simp add: skip_op_iff_fault [of _ 0])
  have zip: "map2 f [0..<length xs] xs = map (\<lambda>i. f i (xs ! i)) [0..<length xs]" for f :: "nat \<Rightarrow> patch_op \<Rightarrow> plan_op" and xs
    by (rule nth_equalityI) simp_all
  have fails: "record_version sha256 u (update_state order xs) l i m t vdb = Inl NotSerializable" if "update_state order xs \<noteq> []"
    for u xs l i m t
  proof -
    have "task_dicts (map (\<lambda>t. (t, Coroutine)) ts) = Inl NotSerializable" if "ts \<noteq> []" for ts
      using that by (cases ts) auto
    with that show ?thesis by (simp add: record_version_def compute_merkle_root_def update_state_def Let_def)
  qed
  show ?thesis
  proof (cases "ue_ops env = [] \<or> uuid 0 = [] \<or> ue_sender env = [] \<or> ue_lamport env < 0")
    case True
    then show ?thesis using assms by (auto simp: handle_update_plan_def Let_def split: if_splits)
  next
    case False
    then obtain n where n: "apply_updates uuid clock env 0 (ue_ops env) db = (None, n, db')" "vdb' = vdb"
      using assms fails by (auto simp: handle_update_plan_def Let_def split: prod.splits option.splits if_splits sum.splits)
    with False show ?thesis using apply_updates_exact [OF n(1)] by (auto simp: ops zip Let_def)
  qed
qed

definition demo_update :: update_envelope where
  "demo_update = \<lparr>ue_thread_id = ''th'', ue_lamport = 5, ue_sender = ''ann'',
     ue_ops = [mk_op ''ADD_TASK'' ''t'' [], mk_op ''STATE'' ''t'' [], mk_op ''STATE'' ''t'' [(''state'', JStr ''DECIDED'')]]\<rparr>"

lemma update_plan_exact_witness:
  "let (e, db, vdb) = handle_update_plan sorted_list_of_set id (\<lambda>i. replicate (Suc i) CHR ''x'') int demo_update (init_plan_store, no_versions)
   in e = None \<and> vdb = no_versions \<and> map po_lamport (ps_ops db) = [5, 6]"
proof -
  let ?u = "\<lambda>i. replicate (Suc i) CHR ''x''"
  obtain e db vdb where h: "handle_update_plan sorted_list_of_set id ?u int demo_update (init_plan_store, no_versions) = (e, db, vdb)"
    by (cases "handle_update_plan sorted_list_of_set id ?u int demo_update (init_plan_store, no_versions)")
  have "fst (handle_update_plan sorted_list_of_set id ?u int demo_update (init_plan_store, no_versions)) = None" by code_simp
  with h have e: "e = None" by simp
  have "vdb = no_versions \<and> map po_lamport (ps_ops db) = [5, 6]"
    using update_plan_exact [OF h [unfolded e]]
    by (simp add: demo_update_def init_plan_store_def mk_op_def op_fault_def op_type_of_def payload_or_empty_def has_key_def
        update_op_def Let_def)
  with e show ?thesis by (simp only: Let_def h prod.case)
qed

end
