(* ===== verification/Committees.thy ===== *)
theory Committees
  imports Calls Stake PyFloat PyString
begin

text \<open>
  The verifier pool (\<open>economics/pools.py\<close>), the reputation of verifiers (\<open>economics/reputation.py\<close>) and the selection
  of committees (\<open>economics/selection.py\<close>).  They share the connection and the lock of the ledger.  The float power
  \<open>**\<close> of the C library, the clock and the numbers \<open>random.random()\<close> returns are arguments.
\<close>

section \<open>The pool\<close>

record verifier_metadata =
  vm_org_id :: string
  vm_asn :: string
  vm_region :: string
  vm_reputation :: pyfloat
  vm_tee_verified :: bool

record verifier_row =
  vr_stake :: int
  vr_capabilities :: "string list"
  vr_metadata :: verifier_metadata
  vr_registered_at :: int
  vr_active :: bool

record reputation_event =
  re_event_id :: string
  re_did :: string
  re_event_type :: string
  re_delta :: pyfloat
  re_timestamp :: int
  re_verifier_id :: string

record pool_ledger = stake_ledger +
  verifiers :: "(string, verifier_row) table"
  reputation_events :: "reputation_event list"

definition init_pool_ledger :: pool_ledger where
  "init_pool_ledger = stake_ledger.extend init_stake_ledger (pool_ledger.fields [] [])"

definition set_verifiers :: "(string, verifier_row) table \<Rightarrow> 'a pool_ledger_scheme \<Rightarrow> 'a pool_ledger_scheme" where
  "set_verifiers vs db = db\<lparr>verifiers := vs\<rparr>"

definition register_verifier ::
  "string \<Rightarrow> int \<Rightarrow> string list \<Rightarrow> verifier_metadata \<Rightarrow> int \<Rightarrow> (unit, 'a pool_ledger_scheme) call" where
  "register_verifier verifier_id stk capabilities md now db =
     (if vm_reputation md < 0 \<or> vm_reputation md > 1 then raise_error (ValueError ''Reputation must be 0.0-1.0'') db
      else if get_staked_amount verifier_id db < stk then raise_error (ValueError ''Verifier stake mismatch'') db
      else holding_lock (\<lambda>db.
        (Inr (), set_verifiers (AList.delete verifier_id (verifiers db) @
           [(verifier_id, \<lparr>vr_stake = stk, vr_capabilities = capabilities, vr_metadata = md, vr_registered_at = now, vr_active = True\<rparr>)]) db)) db)"

definition change_verifier ::
  "string \<Rightarrow> (verifier_row \<Rightarrow> verifier_row) \<Rightarrow> (unit, 'a pool_ledger_scheme) call" where
  "change_verifier verifier_id f = holding_lock (\<lambda>db.
     if \<not> has_key verifier_id (verifiers db) then raise_error (ValueError ''Verifier not found'') db
     else (Inr (), set_verifiers (update_row verifier_id f (verifiers db)) db))"

definition deregister_verifier :: "string \<Rightarrow> (unit, 'a pool_ledger_scheme) call" where
  "deregister_verifier verifier_id = change_verifier verifier_id (\<lambda>v. v\<lparr>vr_active := False\<rparr>)"

definition update_capabilities :: "string \<Rightarrow> string list \<Rightarrow> (unit, 'a pool_ledger_scheme) call" where
  "update_capabilities verifier_id capabilities = change_verifier verifier_id (\<lambda>v. v\<lparr>vr_capabilities := capabilities\<rparr>)"

definition update_reputation :: "string \<Rightarrow> pyfloat \<Rightarrow> (unit, 'a pool_ledger_scheme) call" where
  "update_reputation verifier_id reputation db =
     (if reputation < 0 \<or> reputation > 1 then raise_error (ValueError ''Reputation must be 0.0-1.0'') db
      else change_verifier verifier_id (\<lambda>v. v\<lparr>vr_metadata := (vr_metadata v)\<lparr>vm_reputation := reputation\<rparr>\<rparr>) db)"

definition get_pool_members :: "bool \<Rightarrow> 'a pool_ledger_scheme \<Rightarrow> (string \<times> verifier_row) list" where
  "get_pool_members active_only db =
     sort_key (\<lambda>(i, v). - vr_registered_at v) (filter (\<lambda>(i, v). active_only \<longrightarrow> vr_active v) (verifiers db))"

definition get_active_verifiers :: "int \<Rightarrow> 'a pool_ledger_scheme \<Rightarrow> (string \<times> verifier_row) list" where
  "get_active_verifiers min_stake db =
     map (\<lambda>(i, v). (i, v\<lparr>vr_stake := get_staked_amount i db\<rparr>))
       (filter (\<lambda>(i, v). get_staked_amount i db \<ge> min_stake) (get_pool_members True db))"

definition get_verifier :: "string \<Rightarrow> 'a pool_ledger_scheme \<Rightarrow> verifier_row option" where
  "get_verifier verifier_id db = map_of (verifiers db) verifier_id"

section \<open>Reputation\<close>

definition FAILED_ATTESTATION_PENALTY :: pyfloat where "FAILED_ATTESTATION_PENALTY = - rnd (3 / 10)"
definition SUCCESSFUL_CHALLENGE_BOOST :: pyfloat where "SUCCESSFUL_CHALLENGE_BOOST = rnd (1 / 10)"
definition DECAY_RATE_PER_WEEK :: pyfloat where "DECAY_RATE_PER_WEEK = rnd (5 / 100)"

definition clamp :: "pyfloat \<Rightarrow> pyfloat" where
  "clamp v = max 0 (min 1 v)"

definition apply_delta :: "string \<Rightarrow> string \<Rightarrow> pyfloat \<Rightarrow> string \<Rightarrow> int \<Rightarrow> (unit, 'a pool_ledger_scheme) call" where
  "apply_delta did event_type delta uuid now = holding_lock (\<lambda>db.
     case get_verifier did db of
       None \<Rightarrow> raise_error (ValueError ''Verifier not found for DID'') db
     | Some v \<Rightarrow>
         call_bind (update_reputation did (clamp (fadd (vm_reputation (vr_metadata v)) delta))) (\<lambda>_ db.
           (Inr (), db\<lparr>reputation_events := reputation_events db @
              [\<lparr>re_event_id = uuid, re_did = did, re_event_type = event_type, re_delta = delta, re_timestamp = now,
                re_verifier_id = did\<rparr>]\<rparr>)) db)"

definition record_attestation_result :: "string \<Rightarrow> bool \<Rightarrow> string \<Rightarrow> int \<Rightarrow> (unit, 'a pool_ledger_scheme) call" where
  "record_attestation_result did verdict uuid now =
     (if verdict then return_value () else apply_delta did ''ATTESTATION_FAILED'' FAILED_ATTESTATION_PENALTY uuid now)"

definition record_challenge_result :: "string \<Rightarrow> bool \<Rightarrow> string \<Rightarrow> int \<Rightarrow> (unit, 'a pool_ledger_scheme) call" where
  "record_challenge_result did upheld uuid now =
     (if upheld then apply_delta did ''CHALLENGE_SUCCESS'' SUCCESSFUL_CHALLENGE_BOOST uuid now else return_value ())"

definition last_activity :: "string \<Rightarrow> verifier_row \<Rightarrow> 'a pool_ledger_scheme \<Rightarrow> int" where
  "last_activity did v db =
     (case map re_timestamp (filter (\<lambda>e. re_did e = did \<or> re_verifier_id e = did) (reputation_events db)) of
        [] \<Rightarrow> vr_registered_at v
      | t # ts \<Rightarrow> let m = fold max ts t in if m = 0 then vr_registered_at v else m)"

definition get_reputation :: "(pyfloat \<Rightarrow> pyfloat \<Rightarrow> pyfloat) \<Rightarrow> string \<Rightarrow> int \<Rightarrow> 'a pool_ledger_scheme \<Rightarrow> pyfloat" where
  "get_reputation pow did now db =
     (case get_verifier did db of
        None \<Rightarrow> 0
      | Some v \<Rightarrow>
          let weeks_inactive = fdiv (to_float (now - last_activity did v db)) 604800000000000;
              reputation = vm_reputation (vr_metadata v)
          in if weeks_inactive > rnd (1 / 100)
             then clamp (fmul reputation (pow (fsub 1 DECAY_RATE_PER_WEEK) weeks_inactive))
             else reputation)"

definition apply_decay :: "(pyfloat \<Rightarrow> pyfloat \<Rightarrow> pyfloat) \<Rightarrow> string \<Rightarrow> int \<Rightarrow> (pyfloat, 'a pool_ledger_scheme) call" where
  "apply_decay pow did now db =
     (let current_rep = get_reputation pow did now db in
      case get_verifier did db of
        None \<Rightarrow> (Inr 0, db)
      | Some v \<Rightarrow>
          if \<bar>fsub current_rep (vm_reputation (vr_metadata v))\<bar> > rnd (1 / 1000)
          then call_bind (update_reputation did current_rep) (\<lambda>_. return_value current_rep) db
          else (Inr current_rep, db))"

definition get_reputation_history :: "string \<Rightarrow> int \<Rightarrow> 'a pool_ledger_scheme \<Rightarrow> reputation_event list" where
  "get_reputation_history did limit db =
     sql_limit limit (sort_key (\<lambda>e. - re_timestamp e) (filter (\<lambda>e. re_did e = did \<or> re_verifier_id e = did) (reputation_events db)))"

section \<open>Committees\<close>

record diversity_constraints =
  dv_max_org_percentage :: pyfloat
  dv_max_asn_percentage :: pyfloat
  dv_max_region_percentage :: pyfloat

definition default_diversity :: diversity_constraints where
  "default_diversity = \<lparr>dv_max_org_percentage = rnd (3 / 10), dv_max_asn_percentage = rnd (4 / 10), dv_max_region_percentage = rnd (1 / 2)\<rparr>"

definition calculate_weight ::
  "(pyfloat \<Rightarrow> pyfloat \<Rightarrow> pyfloat) \<Rightarrow> int \<Rightarrow> int \<Rightarrow> 'a pool_ledger_scheme \<Rightarrow> string \<times> verifier_row \<Rightarrow> pyfloat" where
  "calculate_weight pow now1 now2 db = (\<lambda>(i, v).
     let stake_weight = fsqrt (to_float (vr_stake v));
         reputation = get_reputation pow i now1 db;
         age_days = fdiv (to_float (now2 - vr_registered_at v)) 86400000000000;
         recency_factor = fsub 1 (min (fmul (fdiv age_days 365) (rnd (2 / 10))) (rnd (2 / 10)));
         tee_multiplier = (if vm_tee_verified (vr_metadata v) then 2 else 1)
     in fmul (fmul (fmul stake_weight reputation) recency_factor) tee_multiplier)"

definition within_share :: "(verifier_metadata \<Rightarrow> string) \<Rightarrow> pyfloat \<Rightarrow> (string \<times> verifier_row) list \<Rightarrow> bool" where
  "within_share field max_pct committee =
     (let values = map (\<lambda>(i, v). field (vr_metadata v)) committee;
          max_allowed = \<lceil>fmul (to_float (int (length committee))) max_pct\<rceil>
      in list_all (\<lambda>x. int (count_list values x) \<le> max_allowed) values)"

definition enforce_diversity :: "(string \<times> verifier_row) list \<Rightarrow> diversity_constraints \<Rightarrow> bool" where
  "enforce_diversity committee constraints \<longleftrightarrow>
     committee = [] \<or>
     within_share vm_org_id (dv_max_org_percentage constraints) committee \<and>
     within_share vm_asn (dv_max_asn_percentage constraints) committee \<and>
     within_share vm_region (dv_max_region_percentage constraints) committee"

datatype selection_error = InsufficientVerifiers | NoPositiveWeight | EmptyPopulation

fun accumulate :: "pyfloat \<Rightarrow> pyfloat list \<Rightarrow> pyfloat list" where
  "accumulate s [] = []"
| "accumulate s (w # ws) = fadd s w # accumulate (fadd s w) ws"

definition cum_weights :: "pyfloat list \<Rightarrow> pyfloat list" where
  "cum_weights ws = (case ws of [] \<Rightarrow> [] | w # ws \<Rightarrow> w # accumulate w ws)"

function bisect_right :: "pyfloat list \<Rightarrow> pyfloat \<Rightarrow> nat \<Rightarrow> nat \<Rightarrow> nat" where
  "bisect_right a x lo hi =
     (if lo < hi then
        let mid = (lo + hi) div 2 in if x < a ! mid then bisect_right a x lo mid else bisect_right a x (mid + 1) hi
      else lo)"
  by auto
termination by (relation "measure (\<lambda>(a, x, lo, hi). hi - lo)") auto

declare bisect_right.simps [simp del]

text \<open>\<open>random.choices\<close>: every position is an independent draw, so a candidate may be drawn more than once.\<close>

definition random_choices :: "'c list \<Rightarrow> pyfloat list \<Rightarrow> nat \<Rightarrow> (nat \<Rightarrow> pyfloat) \<Rightarrow> selection_error + 'c list" where
  "random_choices population weights k draw =
     (let cum = cum_weights weights in
      if cum = [] then Inl EmptyPopulation
      else if last cum \<le> 0 then Inl NoPositiveWeight
      else Inr (map (\<lambda>i. population ! bisect_right cum (fmul (draw i) (last cum)) 0 (length population - 1)) [0..<k]))"

text \<open>\<open>n\<close> attempts are left; \<open>draws a i\<close> is the random number for position \<open>i\<close> of attempt \<open>a\<close>.\<close>

fun sample_committee ::
  "nat \<Rightarrow> nat \<Rightarrow> (string \<times> verifier_row) list \<Rightarrow> pyfloat list \<Rightarrow> nat \<Rightarrow> diversity_constraints \<Rightarrow> (nat \<Rightarrow> nat \<Rightarrow> pyfloat)
     \<Rightarrow> selection_error + (string \<times> verifier_row) list option" where
  "sample_committee a 0 candidates weights k constraints draws = Inr None"
| "sample_committee a (Suc n) candidates weights k constraints draws =
     res_bind (random_choices candidates weights k (draws a)) (\<lambda>committee.
       if enforce_diversity committee constraints then Inr (Some committee)
       else sample_committee (Suc a) n candidates weights k constraints draws)"

definition greedy_committee ::
  "int \<Rightarrow> diversity_constraints \<Rightarrow> (string \<times> verifier_row) list \<Rightarrow> (string \<times> verifier_row) list" where
  "greedy_committee k constraints sorted_candidates =
     foldl (\<lambda>committee c.
       if int (length committee) \<ge> k then committee
       else if enforce_diversity (committee @ [c]) constraints then committee @ [c] else committee) [] sorted_candidates"

definition select_committee ::
  "(pyfloat \<Rightarrow> pyfloat \<Rightarrow> pyfloat) \<Rightarrow> (nat \<Rightarrow> int) \<Rightarrow> (nat \<Rightarrow> nat \<Rightarrow> pyfloat) \<Rightarrow> int \<Rightarrow> int \<Rightarrow> diversity_constraints option
     \<Rightarrow> 'a pool_ledger_scheme \<Rightarrow> selection_error + (string \<times> verifier_row) list" where
  "select_committee pow clock draws k min_stake constraints db =
     (let constraints = (case constraints of None \<Rightarrow> default_diversity | Some c \<Rightarrow> c);
          candidates = get_active_verifiers min_stake db
      in if int (length candidates) < k then Inl InsufficientVerifiers
         else
           let weights = map (\<lambda>i. calculate_weight pow (clock (2 * i)) (clock (2 * i + 1)) db (candidates ! i)) [0..<length candidates]
           in res_bind (sample_committee 0 1000 candidates weights (nat k) constraints draws) (\<lambda>found.
                case found of
                  Some committee \<Rightarrow> Inr committee
                | None \<Rightarrow>
                    let sorted_candidates = map fst (sort_key (\<lambda>x. - snd x) (zip candidates weights));
                        committee = greedy_committee k constraints sorted_candidates
                    in if int (length committee) < k then Inr (take (nat k) sorted_candidates) else Inr committee))"

end
