(* ===== verification/CommitteeProps.thy ===== *)
theory CommitteeProps
  imports Committees
begin

text \<open>
  Correctness of committees: their size, the stake of their members and diversity; reputations stay between 0 and 1;
  and the calls that should change a reputation block for ever on the lock of the ledger.
\<close>

section \<open>Selection\<close>

lemma bisect_right_bounds: "lo \<le> hi \<Longrightarrow> lo \<le> bisect_right a x lo hi \<and> bisect_right a x lo hi \<le> hi"
proof (induction a x lo hi rule: bisect_right.induct)
  case (1 a x lo hi)
  show ?case
  proof (cases "lo < hi")
    case True
    let ?mid = "(lo + hi) div 2"
    have mid: "lo \<le> ?mid" "?mid < hi" using True by linarith+
    show ?thesis
    proof (cases "x < a ! ?mid")
      case True
      with 1(1) [OF \<open>lo < hi\<close> refl True] mid \<open>lo < hi\<close> show ?thesis by (subst (1 2) bisect_right.simps) (simp add: Let_def)
    next
      case False
      with 1(2) [OF \<open>lo < hi\<close> refl False] mid \<open>lo < hi\<close> show ?thesis by (subst (1 2) bisect_right.simps) (simp add: Let_def)
    qed
  next
    case False
    with 1(3) show ?thesis by (subst (1 2) bisect_right.simps) simp
  qed
qed

lemma random_choices_spec:
  assumes "random_choices population weights k draw = Inr c" and "length weights = length population"
  shows "length c = k \<and> set c \<subseteq> set population"
proof -
  let ?f = "\<lambda>i. bisect_right (cum_weights weights) (fmul (draw i) (last (cum_weights weights))) 0 (length population - 1)"
  have c: "c = map (\<lambda>i. population ! ?f i) [0..<k]" and ne: "cum_weights weights \<noteq> []"
    using assms(1) by (auto simp: random_choices_def Let_def split: if_splits)
  have "population \<noteq> []" using ne assms(2) by (cases weights) (auto simp: cum_weights_def)
  then have "?f i < length population" for i
    using bisect_right_bounds [of 0 "length population - 1"] by (cases population) (auto simp: less_Suc_eq_le)
  then show ?thesis by (auto simp: c)
qed

lemma sample_committee_spec:
  assumes "sample_committee a n candidates weights k cs draws = Inr (Some c)" and "length weights = length candidates"
  shows "length c = k \<and> set c \<subseteq> set candidates \<and> enforce_diversity c cs"
  using assms(1)
proof (induction n arbitrary: a)
  case (Suc n)
  then obtain d where d: "random_choices candidates weights k (draws a) = Inr d"
    "(if enforce_diversity d cs then Inr (Some d) else sample_committee (Suc a) n candidates weights k cs draws) = Inr (Some c)"
    by (auto simp: res_simps)
  show ?case
  proof (cases "enforce_diversity d cs")
    case True
    with d random_choices_spec [OF d(1) assms(2)] show ?thesis by simp
  next
    case False
    with d Suc.IH show ?thesis by simp
  qed
qed simp

lemma greedy_committee_spec:
  "let c = greedy_committee k cs xs in set c \<subseteq> set xs \<and> enforce_diversity c cs \<and> int (length c) \<le> max 0 k"
proof (induction xs rule: rev_induct)
  case Nil
  then show ?case by (simp add: greedy_committee_def enforce_diversity_def)
next
  case (snoc x xs)
  then show ?case by (auto simp: greedy_committee_def Let_def)
qed

lemma active_verifier:
  assumes "keyed (verifiers db)" and "(i, v) \<in> set (get_active_verifiers m db)"
  shows "\<exists>row. get_verifier i db = Some row \<and> vr_active row \<and> v = row\<lparr>vr_stake := get_staked_amount i db\<rparr> \<and> m \<le> get_staked_amount i db"
  using assms by (auto simp: get_active_verifiers_def get_pool_members_def get_verifier_def keyed_def)

lemma active_distinct: "keyed (verifiers db) \<Longrightarrow> distinct (map fst (get_active_verifiers m db))"
proof -
  assume "keyed (verifiers db)"
  then have "distinct (map fst (filter P (verifiers db)))" for P by (simp add: keyed_def distinct_map_filter)
  then have "distinct (map fst (sort_key f (filter P (verifiers db))))" for P and f :: "string \<times> verifier_row \<Rightarrow> int"
    by (metis distinct_map distinct_sort set_sort)
  then have "distinct (map fst (filter Q (get_pool_members True db)))" for Q
    unfolding get_pool_members_def by (rule distinct_map_filter)
  moreover have "map fst (get_active_verifiers m db) = map fst (filter (\<lambda>(i, v). get_staked_amount i db \<ge> m) (get_pool_members True db))"
    by (simp add: get_active_verifiers_def comp_def case_prod_beta)
  ultimately show ?thesis by simp
qed

lemma sorted_candidates_spec:
  fixes f :: "'b \<times> pyfloat \<Rightarrow> pyfloat"
  assumes "length ws = length xs" and "distinct (map g xs)"
  shows "set (map fst (sort_key f (zip xs ws))) = set xs \<and> distinct (map g (map fst (sort_key f (zip xs ws))))"
proof -
  have z: "map fst (zip xs ws) = xs" using assms(1) by simp
  then have s: "set (map fst (sort_key f (zip xs ws))) = set xs" by (metis set_map set_sort)
  have "distinct (map g (map fst (zip xs ws)))" using z assms(2) by simp
  then have "distinct (map (\<lambda>p. g (fst p)) (sort_key f (zip xs ws)))"
    by (simp add: comp_def distinct_map distinct_sort)
  with s show ?thesis by (simp add: comp_def)
qed

lemma distinct_map_take: "distinct (map f xs) \<Longrightarrow> distinct (map f (take n xs))"
  unfolding take_map [symmetric] by (rule distinct_take)

text \<open>
  Claim C31.  A committee is refused when fewer than k active verifiers hold the minimum stake now.  Otherwise a committee
  that is returned has exactly k places, all taken by active verifiers of the pool with at least the minimum stake, and
  it meets the diversity limits or consists of k different verifiers.
\<close>

theorem committee_sound:
  assumes "keyed (verifiers db)" and "0 \<le> k"
    and "cs' = (case cs of None \<Rightarrow> default_diversity | Some c \<Rightarrow> c)"
  shows "(int (length (get_active_verifiers min_stake db)) < k \<longrightarrow>
      select_committee pow clock draws k min_stake cs db = Inl InsufficientVerifiers) \<and>
    (\<forall>c. select_committee pow clock draws k min_stake cs db = Inr c \<longrightarrow>
       int (length c) = k \<and> (enforce_diversity c cs' \<or> distinct (map fst c)) \<and>
       (\<forall>(i, v) \<in> set c. \<exists>row. get_verifier i db = Some row \<and> vr_active row \<and> min_stake \<le> get_staked_amount i db \<and>
          v = row\<lparr>vr_stake := get_staked_amount i db\<rparr>))"
proof -
  let ?cand = "get_active_verifiers min_stake db"
  let ?ws = "map (\<lambda>i. calculate_weight pow (clock (2 * i)) (clock (2 * i + 1)) db (?cand ! i)) [0..<length ?cand]"
  define srt where "srt = map fst (sort_key (\<lambda>x. - snd x) (zip ?cand ?ws))"
  have len: "length ?ws = length ?cand" by simp
  have sc: "set srt = set ?cand" "distinct (map fst srt)" "length srt = length ?cand"
    using sorted_candidates_spec [OF len active_distinct [OF assms(1)], of "\<lambda>x. - snd x"] by (simp_all add: srt_def)
  have result: "int (length c) = k \<and> (enforce_diversity c cs' \<or> distinct (map fst c)) \<and> set c \<subseteq> set ?cand"
    if sel: "select_committee pow clock draws k min_stake cs db = Inr c" for c
  proof -
    have enough: "\<not> int (length ?cand) < k" using sel by (auto simp: select_committee_def Let_def split: if_splits)
    obtain found where f: "sample_committee 0 1000 ?cand ?ws (nat k) cs' draws = Inr found"
      and r: "c = (case found of Some committee \<Rightarrow> committee
         | None \<Rightarrow> let committee = greedy_committee k cs' srt in if int (length committee) < k then take (nat k) srt else committee)"
      using sel enough unfolding select_committee_def Let_def assms(3) [symmetric] srt_def [symmetric] if_not_P [OF enough] res_bind_eq_Inr
      by (cases "sample_committee 0 1000 ?cand ?ws (nat k) cs' draws") (auto split: option.splits if_splits)
    show ?thesis
    proof (cases found)
      case (Some committee)
      with sample_committee_spec [OF f [unfolded Some] len] r assms(2) show ?thesis by simp
    next
      case None
      have g: "set (greedy_committee k cs' srt) \<subseteq> set ?cand" "enforce_diversity (greedy_committee k cs' srt) cs'"
        "int (length (greedy_committee k cs' srt)) \<le> max 0 k"
        using greedy_committee_spec [of k cs' srt] sc(1) by (simp_all add: Let_def)
      have t: "int (length (take (nat k) srt)) = k" using enough assms(2) sc(3) by simp
      have "distinct (map fst (take (nat k) srt))" using sc(2) by (rule distinct_map_take)
      moreover have "set (take (nat k) srt) \<subseteq> set ?cand" using sc(1) set_take_subset by metis
      ultimately show ?thesis using r None g t assms(2) by (auto simp: Let_def split: if_splits)
    qed
  qed
  have refused: "select_committee pow clock draws k min_stake cs db = Inl InsufficientVerifiers" if "int (length ?cand) < k"
    using that by (simp add: select_committee_def Let_def)
  have member: "\<forall>(i, v) \<in> set c. \<exists>row. get_verifier i db = Some row \<and> vr_active row \<and> min_stake \<le> get_staked_amount i db \<and>
      v = row\<lparr>vr_stake := get_staked_amount i db\<rparr>" if "set c \<subseteq> set ?cand" for c
  proof
    fix x
    assume x: "x \<in> set c"
    obtain i v where iv: "x = (i, v)" by (cases x)
    with x that have "(i, v) \<in> set ?cand" by blast
    from active_verifier [OF assms(1) this] show "case x of (i, v) \<Rightarrow> \<exists>row. get_verifier i db = Some row \<and> vr_active row \<and>
        min_stake \<le> get_staked_amount i db \<and> v = row\<lparr>vr_stake := get_staked_amount i db\<rparr>"
      unfolding iv by auto
  qed
  show ?thesis
  proof (intro conjI allI impI)
    fix c
    assume "select_committee pow clock draws k min_stake cs db = Inr c"
    note r = result [OF this]
    from r show "int (length c) = k" "enforce_diversity c cs' \<or> distinct (map fst c)" by blast+
    from r show "\<forall>(i, v) \<in> set c. \<exists>row. get_verifier i db = Some row \<and> vr_active row \<and> min_stake \<le> get_staked_amount i db \<and>
      v = row\<lparr>vr_stake := get_staked_amount i db\<rparr>" by (intro member) blast
  qed (rule refused)
qed

section \<open>Changing a reputation blocks\<close>

lemma clamp_range: "0 \<le> clamp v" "clamp v \<le> 1" "\<not> clamp v < 0" "\<not> 1 < clamp v"
  by (simp_all add: clamp_def)

text \<open>
  The penalty for a failed attestation and the boost for a successful challenge are never applied: the call
  holds the lock of the ledger and asks for it again, so it never returns, changes nothing, and every later call that
  needs the lock blocks as well.
\<close>

theorem reputation_change_blocks:
  assumes "\<not> lock_held db" and "get_verifier did db = Some v"
  shows "record_attestation_result did False uuid now db = (Inl Deadlock, db\<lparr>lock_held := True\<rparr>) \<and>
    record_challenge_result did True uuid now db = (Inl Deadlock, db\<lparr>lock_held := True\<rparr>) \<and>
    (\<forall>other f. change_verifier other f (db\<lparr>lock_held := True\<rparr>) = (Inl Deadlock, db\<lparr>lock_held := True\<rparr>))"
proof -
  have "apply_delta did ty delta uuid now db = (Inl Deadlock, db\<lparr>lock_held := True\<rparr>)" for ty delta
    using assms by (simp add: apply_delta_def holding_lock_def update_reputation_def change_verifier_def get_verifier_def
        call_bind_def clamp_range Let_def)
  then show ?thesis by (simp add: record_attestation_result_def record_challenge_result_def change_verifier_def holding_lock_def)
qed

section \<open>Reputations stay in range\<close>

datatype pool_cmd =
    Register string int "string list" verifier_metadata int
  | Deregister string
  | Capabilities string "string list"
  | Reputation string pyfloat
  | Attested string bool string int
  | Challenged string bool string int
  | Decay "pyfloat \<Rightarrow> pyfloat \<Rightarrow> pyfloat" string int

fun pool_call :: "pool_cmd \<Rightarrow> pool_ledger \<Rightarrow> pool_ledger" where
  "pool_call (Register i s c m t) db = snd (register_verifier i s c m t db)"
| "pool_call (Deregister i) db = snd (deregister_verifier i db)"
| "pool_call (Capabilities i c) db = snd (update_capabilities i c db)"
| "pool_call (Reputation i r) db = snd (update_reputation i r db)"
| "pool_call (Attested i b u t) db = snd (record_attestation_result i b u t db)"
| "pool_call (Challenged i b u t) db = snd (record_challenge_result i b u t db)"
| "pool_call (Decay pow i t) db = snd (apply_decay pow i t db)"

definition rated :: "verifier_row \<Rightarrow> bool" where
  "rated v \<longleftrightarrow> 0 \<le> vm_reputation (vr_metadata v) \<and> vm_reputation (vr_metadata v) \<le> 1"

definition pool_ok :: "'a pool_ledger_scheme \<Rightarrow> bool" where
  "pool_ok db \<longleftrightarrow> keyed (verifiers db) \<and> (\<forall>i v. map_of (verifiers db) i = Some v \<longrightarrow> rated v)"

lemma pool_ok_lock [simp]: "pool_ok (db\<lparr>lock_held := b\<rparr>) = pool_ok db"
  by (simp add: pool_ok_def)

lemma holding_lock_ok: "(\<And>db. pool_ok db \<Longrightarrow> pool_ok (snd (body db))) \<Longrightarrow> pool_ok db \<Longrightarrow> pool_ok (snd (holding_lock body db))"
proof -
  assume b: "\<And>db. pool_ok db \<Longrightarrow> pool_ok (snd (body db))" and "pool_ok db"
  then have "pool_ok (snd (body (db\<lparr>lock_held := True\<rparr>)))" by simp
  with \<open>pool_ok db\<close> show ?thesis by (auto simp: holding_lock_def split: prod.splits)
qed

lemma change_verifier_ok:
  assumes "\<And>v. rated v \<Longrightarrow> rated (f v)" and "pool_ok db"
  shows "pool_ok (snd (change_verifier i f db))"
  unfolding change_verifier_def
  by (rule holding_lock_ok [OF _ assms(2)]) (auto simp: pool_ok_def raise_error_def set_verifiers_def assms(1))

lemma update_reputation_ok: "pool_ok db \<Longrightarrow> pool_ok (snd (update_reputation i r db))"
  unfolding update_reputation_def by (auto simp: raise_error_def rated_def intro: change_verifier_ok)

lemma apply_delta_ok: "pool_ok db \<Longrightarrow> pool_ok (snd (apply_delta i ty d u t db))"
proof (unfold apply_delta_def, rule holding_lock_ok)
  fix db :: "'a pool_ledger_scheme"
  assume "pool_ok db"
  note up = update_reputation_ok [OF this, of i]
  show "pool_ok (snd (case get_verifier i db of
       None \<Rightarrow> raise_error (ValueError ''Verifier not found for DID'') db
     | Some v \<Rightarrow>
         call_bind (update_reputation i (clamp (fadd (vm_reputation (vr_metadata v)) d))) (\<lambda>_ db.
           (Inr (), db\<lparr>reputation_events := reputation_events db @
              [\<lparr>re_event_id = u, re_did = i, re_event_type = ty, re_delta = d, re_timestamp = t, re_verifier_id = i\<rparr>]\<rparr>)) db))"
    using \<open>pool_ok db\<close> up
    by (auto simp: raise_error_def call_bind_def pool_ok_def split: option.splits prod.splits sum.splits) (metis snd_conv)+
qed

lemma pool_ok_call: "pool_ok db \<Longrightarrow> pool_ok (pool_call c db)"
proof (cases c)
  case (Register i s c m t)
  assume ok: "pool_ok db"
  have "pool_ok (set_verifiers (AList.delete i (verifiers d) @ [(i, v)]) d)" if "pool_ok d" "rated v" for d :: pool_ledger and v
  proof -
    have "\<not> has_key i (AList.delete i (verifiers d))" by simp
    then have "keyed (add_row i v (AList.delete i (verifiers d)))" using that(1) by (simp add: pool_ok_def)
    then show ?thesis using that by (auto simp: pool_ok_def set_verifiers_def add_row_def [symmetric] split: option.splits if_splits)
  qed
  then show ?thesis using ok unfolding Register
    by (auto simp: register_verifier_def raise_error_def rated_def intro!: holding_lock_ok)
next
  case (Deregister i)
  then show ?thesis if "pool_ok db" using that by (auto simp: deregister_verifier_def rated_def intro!: change_verifier_ok)
next
  case (Capabilities i c)
  then show ?thesis if "pool_ok db" using that by (auto simp: update_capabilities_def rated_def intro!: change_verifier_ok)
next
  case (Decay pow i t)
  then show ?thesis if ok: "pool_ok db"
    using ok update_reputation_ok [OF ok, of i]
    by (auto simp: apply_decay_def call_bind_def return_value_def Let_def split: option.splits prod.splits sum.splits) (metis snd_conv)+
qed (auto simp: record_attestation_result_def record_challenge_result_def return_value_def intro: update_reputation_ok apply_delta_ok)

fun pool_step :: "pool_cmd \<Rightarrow> pool_ledger \<Rightarrow> error + pool_ledger" where
  "pool_step c db = Inr (pool_call c db)"

interpretation pool: guarded_machine pool_step pool_ok
  by unfold_locales (auto intro: pool_ok_call)

text \<open>
  Whatever is registered, updated, attested, challenged or decayed, every reputation in the pool stays between
  0 and 1, and so does every reputation that is read, whatever the power function of the platform returns.
\<close>

theorem reputations_in_range:
  "let db = run_cmds pool_step cs init_pool_ledger; r = get_reputation pow did now db in
   0 \<le> r \<and> r \<le> 1 \<and> list_all (\<lambda>(i, v). 0 \<le> vm_reputation (vr_metadata v) \<and> vm_reputation (vr_metadata v) \<le> 1) (verifiers db)"
proof -
  have "pool_ok init_pool_ledger"
    by (simp add: pool_ok_def init_pool_ledger_def stake_ledger.extend_def pool_ledger.fields_def)
  then have "pool_ok (run_cmds pool_step cs init_pool_ledger)" by (rule pool.run_inv)
  then show ?thesis
    by (auto simp: pool_ok_def rated_def get_reputation_def get_verifier_def clamp_range list_all_iff keyed_map_of Let_def split: option.splits)
qed

section \<open>Examples\<close>

definition demo_verifier :: "string \<Rightarrow> verifier_row" where
  "demo_verifier s = \<lparr>vr_stake = 100, vr_capabilities = [], vr_metadata = \<lparr>vm_org_id = s, vm_asn = s, vm_region = s,
     vm_reputation = 1, vm_tee_verified = False\<rparr>, vr_registered_at = 0, vr_active = True\<rparr>"

definition demo_pool :: pool_ledger where
  "demo_pool = init_pool_ledger\<lparr>accounts := map (\<lambda>i. (i, \<lparr>balance = 0, locked = 100, unbonding = 0\<rparr>)) [''a'', ''b'', ''c'', ''d''],
     verifiers := map (\<lambda>i. (i, demo_verifier i)) [''a'', ''b'', ''c'', ''d'']\<rparr>"

definition demo_draws :: "nat \<Rightarrow> nat \<Rightarrow> pyfloat" where
  "demo_draws a i = (if i < 2 then 0 else 1 / 2)"

abbreviation demo_committee :: "selection_error + (string \<times> verifier_row) list" where
  "demo_committee \<equiv> select_committee (\<lambda>_ _. 1) (\<lambda>_. 0) demo_draws 4 100 None demo_pool"

text \<open>The committee of four holds two verifiers, each twice: the draws are with replacement and the diversity limits
  of four places admit two from one organisation.\<close>

lemma demo_candidates: "get_active_verifiers 100 demo_pool = map (\<lambda>i. (i, demo_verifier i)) [''a'', ''b'', ''c'', ''d'']"
  by (simp add: get_active_verifiers_def get_pool_members_def demo_pool_def demo_verifier_def get_staked_amount_def get_account_def)

lemma demo_weight: "calculate_weight (\<lambda>_ _. 1) 0 0 demo_pool (i, demo_verifier i) = (if has_key i (verifiers demo_pool) then 10 else 0)"
proof -
  have "fsqrt (to_float 100) = 10" by code_simp
  moreover have "\<not> rnd (1 / 100) < 0" using rnd_nonneg [of "1 / 100"] by simp
  then have "get_reputation (\<lambda>_ _. 1) i 0 demo_pool = (if has_key i (verifiers demo_pool) then 1 else 0)"
    by (auto simp: get_reputation_def get_verifier_def demo_pool_def demo_verifier_def has_key_def last_activity_def to_float_def fdiv_def
        init_pool_ledger_def stake_ledger.extend_def pool_ledger.fields_def Let_def)
  moreover have "rnd 1 = 1" "rnd 10 = 10" using rnd_of_int [of 1] rnd_of_int [of 10] by simp_all
  moreover have "0 \<le> rnd (2 / 10)" by (simp add: rnd_nonneg)
  ultimately show ?thesis
    by (simp add: calculate_weight_def demo_verifier_def to_float_def fdiv_def fmul_def fsub_def Let_def)
qed

lemma committee_repeats_members:
  "map_sum (\<lambda>e. e) (map fst) demo_committee = Inr [''a'', ''a'', ''c'', ''c'']"
proof -
  let ?cand = "map (\<lambda>i. (i, demo_verifier i)) [''a'', ''b'', ''c'', ''d'']"
  have keys: "has_key i (verifiers demo_pool) \<longleftrightarrow> i \<in> {''a'', ''b'', ''c'', ''d''}" for i by (auto simp: demo_pool_def has_key_iff)
  have w: "map (\<lambda>i. calculate_weight (\<lambda>_ _. 1) 0 0 demo_pool (?cand ! i)) [0..<4] = [10, 10, 10, 10]"
    by (simp add: upt_rec demo_weight keys)
  let ?c = "map (\<lambda>i. (i, demo_verifier i)) [''a'', ''a'', ''c'', ''c'']"
  have draw: "random_choices ?cand [10, 10, 10, 10] 4 (demo_draws 0) = Inr ?c" by code_simp
  have div: "enforce_diversity ?c default_diversity" by code_simp
  have "sample_committee 0 (Suc 999) ?cand [10, 10, 10, 10] 4 default_diversity demo_draws = Inr (Some ?c)"
    unfolding sample_committee.simps draw res_bind_Inr if_P [OF div] ..
  then have sample: "sample_committee 0 1000 ?cand [10, 10, 10, 10] 4 default_diversity demo_draws = Inr (Some ?c)" by simp
  have len: "length ?cand = 4" "nat 4 = 4" "\<not> int 4 < 4" by simp_all
  have "demo_committee = Inr ?c"
    unfolding select_committee_def demo_candidates Let_def option.case len if_not_P [OF len(3)] w sample res_bind_Inr ..
  then show ?thesis by simp
qed

lemma committee_sound_witness:
  "\<exists>c. demo_committee = Inr c \<and> length c = 4 \<and> (enforce_diversity c default_diversity \<or> distinct (map fst c))"
proof -
  obtain c where c: "demo_committee = Inr c" using committee_repeats_members by (cases demo_committee) auto
  have "keyed (verifiers demo_pool)" by (simp add: demo_pool_def keyed_def)
  from committee_sound [OF this, of 4 default_diversity None 100 "\<lambda>_ _. 1" "\<lambda>_. 0" demo_draws] c show ?thesis by auto
qed

lemma reputation_change_blocks_witness:
  "fst (record_attestation_result ''a'' False ''u'' 5 demo_pool) = Inl Deadlock"
proof -
  have "\<not> lock_held demo_pool" "get_verifier ''a'' demo_pool = Some (demo_verifier ''a'')"
    by (simp_all add: demo_pool_def get_verifier_def init_pool_ledger_def stake_ledger.extend_def init_stake_ledger_def
        ledger.extend_def init_ledger_def)
  from reputation_change_blocks [OF this] show ?thesis by simp
qed

text \<open>Decay is not recorded as an event, so applying it twice at one moment decays twice for the same idle time.\<close>

lemma decay_compounds:
  "let f = (\<lambda>_ _. 1 / 2); now = 604800000000000; (r1, db1) = apply_decay f ''a'' now demo_pool; (r2, db2) = apply_decay f ''a'' now db1
   in r1 = Inr (1 / 2) \<and> r2 = Inr (1 / 4)"
  by code_simp

end
