(* ===== verification/Policy.thy ===== *)
theory Policy
  imports Tables PyFloat JsonText
begin

text \<open>
  Policy enforcement: the policy engine (\<open>policy/opa_engine.py\<close>), gas metering (\<open>policy/gas_meter.py\<close>), the metered
  runtime (\<open>policy/wasm_runtime.py\<close>), the three gates (\<open>policy/gates.py\<close>), the decorator of handlers
  (\<open>policy/enforcement.py\<close>), the envelope check and digest of decisions (\<open>policy/__init__.py\<close>,
  \<open>policy/eval_digest.py\<close>) and the gates on the bus (\<open>bus.py\<close>).  The engine of an enforcer is a constructor argument, so
  it is an argument here; the OPA binary is never asked by default.  SHA-256, signatures, the text of a JSON value in an
  f-string and the order in which a set is listed are arguments.
\<close>

section \<open>The policy engine\<close>

type_synonym envelope = "(string, json) table"

datatype policy_reason =
    InvalidKind json | PayloadTooLarge int | MissingFields "string list" | AllChecksPassed | GasLimitExceeded int int

datatype policy_error = PyTypeError | PyAttributeError | GasExceeded int int

record policy_result =
  pr_allowed :: bool
  pr_reasons :: "policy_reason list"
  pr_gas_used :: int
  pr_policy_version :: string

definition ALLOWED_KINDS :: "string set" where
  "ALLOWED_KINDS = {''NEED'', ''PROPOSE'', ''CLAIM'', ''COMMIT'', ''ATTEST'', ''DECIDE'', ''FINALIZE'', ''YIELD'', ''RELEASE'',
     ''UPDATE_PLAN'', ''ATTEST_PLAN'', ''CHALLENGE'', ''INVALIDATE'', ''RECONCILE'', ''CHECKPOINT''}"

definition MAX_PAYLOAD_SIZE :: int where "MAX_PAYLOAD_SIZE = 1048576"

definition REQUIRED_FIELDS :: "string set" where
  "REQUIRED_FIELDS = {''kind'', ''thread_id'', ''lamport'', ''actor_id''}"

definition json_get :: "string \<Rightarrow> json \<Rightarrow> envelope \<Rightarrow> json" where
  "json_get k d env = (case map_of env k of None \<Rightarrow> d | Some v \<Rightarrow> v)"

definition as_number :: "json \<Rightarrow> policy_error + int" where
  "as_number v = (case v of JInt n \<Rightarrow> Inr n | JBool b \<Rightarrow> Inr (of_bool b) | _ \<Rightarrow> Inl PyTypeError)"

text \<open>\<open>v in S\<close> for a set of strings raises for values that cannot be hashed.\<close>

definition in_strings :: "json \<Rightarrow> string set \<Rightarrow> policy_error + bool" where
  "in_strings v S = (case v of JStr s \<Rightarrow> Inr (s \<in> S) | JList _ \<Rightarrow> Inl PyTypeError | JObj _ \<Rightarrow> Inl PyTypeError | _ \<Rightarrow> Inr False)"

definition evaluate_policy :: "(string set \<Rightarrow> string list) \<Rightarrow> envelope \<Rightarrow> policy_error + policy_result" where
  "evaluate_policy order env =
     (let kind = json_get ''kind'' JNull env in
      res_bind (in_strings kind ALLOWED_KINDS) (\<lambda>known.
      res_bind (as_number (json_get ''payload_size'' (JInt 0) env)) (\<lambda>payload_size.
      let missing_fields = REQUIRED_FIELDS - set (keys env);
          reasons = (if known then [] else [InvalidKind kind]) @
            (if payload_size \<ge> MAX_PAYLOAD_SIZE then [PayloadTooLarge payload_size] else []) @
            (if missing_fields = {} then [] else [MissingFields (order missing_fields)]);
          allowed = (reasons = [])
      in Inr \<lparr>pr_allowed = allowed, pr_reasons = (if allowed then [AllChecksPassed] else reasons),
              pr_gas_used = int (length env), pr_policy_version = ''1.0.0''\<rparr>)))"

section \<open>Gas\<close>

record gas_meter =
  gm_limit :: int
  gm_used :: int
  gm_operations :: int
  gm_enabled :: bool

definition COST_FIELD_ACCESS :: int where "COST_FIELD_ACCESS = 1"
definition COST_COMPARISON :: int where "COST_COMPARISON = 2"
definition COST_SET_MEMBERSHIP :: int where "COST_SET_MEMBERSHIP = 5"
definition COST_ITERATION_PER_ITEM :: int where "COST_ITERATION_PER_ITEM = 10"
definition COST_FUNCTION_CALL :: int where "COST_FUNCTION_CALL = 20"

definition new_gas_meter :: "int \<Rightarrow> gas_meter" where
  "new_gas_meter gas_limit = \<lparr>gm_limit = gas_limit, gm_used = 0, gm_operations = 0, gm_enabled = True\<rparr>"

definition reset_gas :: "gas_meter \<Rightarrow> gas_meter" where
  "reset_gas m = m\<lparr>gm_used := 0, gm_operations := 0\<rparr>"

definition check_gas_limit :: "gas_meter \<Rightarrow> policy_error + unit" where
  "check_gas_limit m = (if gm_enabled m \<and> gm_used m > gm_limit m then Inl (GasExceeded (gm_used m) (gm_limit m)) else Inr ())"

text \<open>Usage is tracked even when the limit is exceeded and the call raises.\<close>

definition consume :: "int \<Rightarrow> gas_meter \<Rightarrow> (policy_error + unit) \<times> gas_meter" where
  "consume amount m = (let m = m\<lparr>gm_used := gm_used m + amount, gm_operations := gm_operations m + 1\<rparr> in (check_gas_limit m, m))"

definition estimate_remaining_operations :: "int \<Rightarrow> gas_meter \<Rightarrow> int" where
  "estimate_remaining_operations cost_per_op m =
     (let remaining = gm_limit m - gm_used m in if cost_per_op \<le> 0 then 0 else max 0 (remaining div cost_per_op))"

definition gas_remaining :: "gas_meter \<Rightarrow> int" where
  "gas_remaining m = max 0 (gm_limit m - gm_used m)"

fun consume_all :: "int list \<Rightarrow> gas_meter \<Rightarrow> (policy_error + unit) \<times> gas_meter" where
  "consume_all [] m = (Inr (), m)"
| "consume_all (c # cs) m = (case consume c m of (Inl e, m) \<Rightarrow> (Inl e, m) | (Inr u, m) \<Rightarrow> consume_all cs m)"

section \<open>The metered runtime\<close>

type_synonym engine = "envelope \<Rightarrow> policy_error + policy_result"

definition metered_costs :: "envelope \<Rightarrow> int list" where
  "metered_costs input_data =
     map (\<lambda>_. COST_FIELD_ACCESS) (filter (\<lambda>f. has_key f input_data) [''kind'', ''thread_id'', ''lamport'', ''actor_id'', ''payload_size'']) @
     [COST_SET_MEMBERSHIP, COST_COMPARISON, COST_COMPARISON, COST_FUNCTION_CALL]"

definition evaluate_with_metering :: "engine \<Rightarrow> envelope \<Rightarrow> gas_meter \<Rightarrow> (policy_error + policy_result) \<times> gas_meter" where
  "evaluate_with_metering engine input_data m =
     (case consume_all (metered_costs input_data) m of
        (Inl e, m) \<Rightarrow> (Inl e, m)
      | (Inr u, m) \<Rightarrow>
          (case engine input_data of
             Inl e \<Rightarrow> (Inl e, m)
           | Inr result \<Rightarrow>
               if pr_reasons result = [] then (Inr result, m)
               else (case consume (COST_ITERATION_PER_ITEM * int (length (pr_reasons result))) m of
                       (Inl e, m) \<Rightarrow> (Inl e, m)
                     | (Inr u, m) \<Rightarrow> (Inr result, m))))"

definition wasm_evaluate :: "engine \<Rightarrow> int \<Rightarrow> envelope \<Rightarrow> policy_error + policy_result" where
  "wasm_evaluate engine gas_limit input_data =
     (case evaluate_with_metering engine input_data (new_gas_meter gas_limit) of
        (Inr result, m) \<Rightarrow> Inr (result\<lparr>pr_gas_used := gm_used m\<rparr>)
      | (Inl (GasExceeded used limit), m) \<Rightarrow>
          Inr \<lparr>pr_allowed = False, pr_reasons = [GasLimitExceeded used limit], pr_gas_used = gm_used m, pr_policy_version = ''1.0.0''\<rparr>
      | (Inl e, m) \<Rightarrow> Inl e)"

section \<open>The gates\<close>

datatype policy_gate = PREFLIGHT | INGRESS | COMMIT_GATE

datatype violation = Exceeded string int int

datatype decision_reason = Reason policy_reason | Violations "policy_reason option" "violation list" | GateError policy_error

record policy_decision =
  pd_allowed :: bool
  pd_gate :: policy_gate
  pd_reason :: "decision_reason option"
  pd_gas_used :: int
  pd_policy_hash :: "string option"

record gate_enforcer =
  ge_gas_meter :: gas_meter
  ge_enable_cache :: bool
  ge_preflight_cache :: "(string, policy_decision) table"

definition new_enforcer :: "bool \<Rightarrow> gate_enforcer" where
  "new_enforcer enable_cache = \<lparr>ge_gas_meter = new_gas_meter 100000, ge_enable_cache = enable_cache, ge_preflight_cache = []\<rparr>"

definition gate_value :: "policy_gate \<Rightarrow> string" where
  "gate_value g = (case g of PREFLIGHT \<Rightarrow> ''preflight'' | INGRESS \<Rightarrow> ''ingress'' | COMMIT_GATE \<Rightarrow> ''commit_gate'')"

definition make_cache_key :: "(json \<Rightarrow> string) \<Rightarrow> envelope \<Rightarrow> string" where
  "make_cache_key show_json env =
     show_json (json_get ''operation'' (JStr ''unknown'') env) @ '':'' @ show_json (json_get ''agent_id'' (JStr ''unknown'') env)"

definition extract_policy_input :: "envelope \<Rightarrow> policy_gate \<Rightarrow> envelope" where
  "extract_policy_input env gate =
     [(''gate'', JStr (gate_value gate)),
      (''operation'', json_get ''operation'' JNull env),
      (''agent_id'', json_get ''agent_id'' JNull env),
      (''thread_id'', json_get ''thread_id'' JNull env),
      (''payload'', json_get ''payload'' (JObj []) env),
      (''lamport'', json_get ''lamport'' (JInt 0) env),
      (''signature'', json_get ''signature'' JNull env),
      (''timestamp'', json_get ''timestamp'' JNull env)]"

definition first_reason :: "policy_result \<Rightarrow> policy_reason option" where
  "first_reason r = (case pr_reasons r of [] \<Rightarrow> None | x # _ \<Rightarrow> Some x)"

definition gate_error :: "policy_gate \<Rightarrow> policy_error \<Rightarrow> policy_decision" where
  "gate_error gate e = \<lparr>pd_allowed = False, pd_gate = gate, pd_reason = Some (GateError e), pd_gas_used = 0, pd_policy_hash = None\<rparr>"

definition decide_gate :: "policy_gate \<Rightarrow> int \<Rightarrow> policy_result \<Rightarrow> policy_decision" where
  "decide_gate gate gas r = \<lparr>pd_allowed = pr_allowed r, pd_gate = gate, pd_reason = map_option Reason (first_reason r),
     pd_gas_used = gas, pd_policy_hash = Some (pr_policy_version r)\<rparr>"

definition preflight_validate ::
  "(json \<Rightarrow> string) \<Rightarrow> engine \<Rightarrow> envelope \<Rightarrow> gate_enforcer \<Rightarrow> policy_decision \<times> gate_enforcer" where
  "preflight_validate show_json opa env g =
     (let cache_key = make_cache_key show_json env in
      case (if ge_enable_cache g then map_of (ge_preflight_cache g) cache_key else None) of
        Some d \<Rightarrow> (d, g)
      | None \<Rightarrow>
          (case opa (extract_policy_input env PREFLIGHT) of
             Inl e \<Rightarrow> (gate_error PREFLIGHT e, g)
           | Inr r \<Rightarrow>
               let d = decide_gate PREFLIGHT 0 r in
               (d, if ge_enable_cache g then g\<lparr>ge_preflight_cache := AList.update cache_key d (ge_preflight_cache g)\<rparr> else g)))"

text \<open>The gas meter of the enforcer is reset and read, but the runtime meters with one of its own.\<close>

definition ingress_validate :: "engine \<Rightarrow> envelope \<Rightarrow> gate_enforcer \<Rightarrow> policy_decision \<times> gate_enforcer" where
  "ingress_validate wasm env g =
     (let g = g\<lparr>ge_gas_meter := reset_gas (ge_gas_meter g)\<rparr> in
      case wasm (extract_policy_input env INGRESS) of
        Inl e \<Rightarrow> (gate_error INGRESS e, g)
      | Inr r \<Rightarrow> (decide_gate INGRESS (gm_used (ge_gas_meter g)) r, g))"

definition json_dict :: "json \<Rightarrow> policy_error + envelope" where
  "json_dict v = (case v of JObj d \<Rightarrow> Inr d | _ \<Rightarrow> Inl PyAttributeError)"

text \<open>A resource that is not claimed is unlimited; the claim is multiplied by 1.1 in floats.\<close>

definition check_resource :: "string \<Rightarrow> envelope \<Rightarrow> envelope \<Rightarrow> policy_error + violation list" where
  "check_resource name claimed_resources actual_resources =
     res_bind (case map_of claimed_resources name of None \<Rightarrow> Inr None | Some v \<Rightarrow> res_bind (as_number v) (\<lambda>n. Inr (Some n))) (\<lambda>claimed.
     res_bind (as_number (json_get name (JInt 0) actual_resources)) (\<lambda>actual.
     Inr (case claimed of
            None \<Rightarrow> []
          | Some c \<Rightarrow> if of_int actual > fmul (to_float c) (rnd (11 / 10)) then [Exceeded name c actual] else [])))"

definition check_resource_violations :: "envelope \<Rightarrow> envelope \<Rightarrow> policy_error + violation list" where
  "check_resource_violations env telemetry =
     res_bind (json_dict (json_get ''payload'' (JObj []) env)) (\<lambda>payload.
     res_bind (json_dict (json_get ''resources'' (JObj []) payload)) (\<lambda>claimed.
     res_bind (json_dict (json_get ''resources'' (JObj []) telemetry)) (\<lambda>actual.
     res_bind (check_resource ''cpu_ms'' claimed actual) (\<lambda>v1.
     res_bind (check_resource ''memory_mb'' claimed actual) (\<lambda>v2.
     res_bind (check_resource ''gas'' claimed actual) (\<lambda>v3. Inr (v1 @ v2 @ v3)))))))"

definition commit_gate_validate :: "engine \<Rightarrow> envelope \<Rightarrow> envelope \<Rightarrow> gate_enforcer \<Rightarrow> policy_decision \<times> gate_enforcer" where
  "commit_gate_validate wasm env telemetry g =
     (let g = g\<lparr>ge_gas_meter := reset_gas (ge_gas_meter g)\<rparr> in
      case res_bind (wasm (extract_policy_input env COMMIT_GATE @ [(''telemetry'', JObj telemetry)])) (\<lambda>r.
             res_bind (check_resource_violations env telemetry) (\<lambda>vs. Inr (r, vs))) of
        Inl e \<Rightarrow> (gate_error COMMIT_GATE e, g)
      | Inr (r, vs) \<Rightarrow>
          (\<lparr>pd_allowed = (pr_allowed r \<and> vs = []), pd_gate = COMMIT_GATE,
            pd_reason = (if vs = [] then map_option Reason (first_reason r) else Some (Violations (first_reason r) vs)),
            pd_gas_used = gm_used (ge_gas_meter g), pd_policy_hash = Some (pr_policy_version r)\<rparr>, g))"

definition clear_cache :: "gate_enforcer \<Rightarrow> gate_enforcer" where
  "clear_cache g = g\<lparr>ge_preflight_cache := []\<rparr>"

section \<open>Handlers and the bus\<close>

datatype enforcement_error = MissingEnvelopeFields | PolicyRejected "decision_reason option" | PolicyFailed string | EnforcementTypeError

definition require_policy_validation ::
  "engine \<Rightarrow> (envelope \<Rightarrow> 's \<Rightarrow> 's) \<Rightarrow> envelope \<Rightarrow> gate_enforcer \<times> 's \<Rightarrow> (enforcement_error + unit) \<times> gate_enforcer \<times> 's" where
  "require_policy_validation wasm handler env = (\<lambda>(g, s).
     if \<not> list_all (\<lambda>f. has_key f env) [''thread_id'', ''sender_pk_b64'', ''lamport'', ''operation'', ''payload'']
     then (Inl MissingEnvelopeFields, g, s)
     else let (d, g) = ingress_validate wasm env g in
       if \<not> pd_allowed d then (Inl (PolicyRejected (pd_reason d)), g, s) else (Inr (), g, handler env s))"

definition current_policy_hash :: "(string \<Rightarrow> string) \<Rightarrow> string" where
  "current_policy_hash sha256 = sha256 (dumps_sorted (JObj
     [(''allowed_kinds'', JList (map JStr (sorted_list_of_set ALLOWED_KINDS))),
      (''max_payload_bytes'', JInt 65536),
      (''required_fields'', JList (map JStr [''kind'', ''lamport'', ''payload'', ''policy_engine_hash'', ''thread_id''])),
      (''version'', JStr ''legacy-v0-compat'')]))"

definition validate_envelope :: "(string \<Rightarrow> string) \<Rightarrow> (envelope \<Rightarrow> bool) \<Rightarrow> envelope \<Rightarrow> enforcement_error + unit" where
  "validate_envelope sha256 verify_envelope env =
     (case in_strings (json_get ''kind'' JNull env) (ALLOWED_KINDS \<union> {''PLAN'', ''FINAL''}) of
        Inl e \<Rightarrow> Inl EnforcementTypeError
      | Inr known \<Rightarrow>
          if \<not> known then Inl (PolicyFailed ''kind not allowed'')
          else if length (dumps_sorted (json_get ''payload'' (JObj []) env)) > 65536 then Inl (PolicyFailed ''payload too large'')
          else if json_get ''policy_engine_hash'' JNull env \<noteq> JStr (current_policy_hash sha256)
          then Inl (PolicyFailed ''policy_engine_hash mismatch'')
          else if \<not> verify_envelope env then Inl (PolicyFailed ''signature or payload_hash invalid'')
          else Inr ())"

text \<open>\<open>published\<close> are the envelopes handed to NATS.\<close>

definition publish_envelope ::
  "(json \<Rightarrow> string) \<Rightarrow> (string \<Rightarrow> string) \<Rightarrow> (envelope \<Rightarrow> bool) \<Rightarrow> engine \<Rightarrow> envelope
     \<Rightarrow> gate_enforcer \<times> envelope list \<Rightarrow> (enforcement_error + unit) \<times> gate_enforcer \<times> envelope list" where
  "publish_envelope show_json sha256 verify_envelope opa env = (\<lambda>(g, published).
     case validate_envelope sha256 verify_envelope env of
       Inl e \<Rightarrow> (Inl e, g, published)
     | Inr u \<Rightarrow>
         let (d, g) = preflight_validate show_json opa env g in
         if \<not> pd_allowed d then (Inl (PolicyRejected (pd_reason d)), g, published) else (Inr (), g, published @ [env]))"

text \<open>One message of a subscription: an envelope that is refused is terminated, the others are delivered.\<close>

definition deliver_envelope ::
  "(string \<Rightarrow> string) \<Rightarrow> (envelope \<Rightarrow> bool) \<Rightarrow> engine \<Rightarrow> (envelope \<Rightarrow> 's \<Rightarrow> 's) \<Rightarrow> envelope \<Rightarrow> gate_enforcer \<times> 's \<Rightarrow> gate_enforcer \<times> 's" where
  "deliver_envelope sha256 verify_envelope wasm handler env = (\<lambda>(g, s).
     case validate_envelope sha256 verify_envelope env of
       Inl e \<Rightarrow> (g, s)
     | Inr u \<Rightarrow>
         let (d, g) = ingress_validate wasm env g in if \<not> pd_allowed d then (g, s) else (g, handler env s))"

section \<open>Digests of decisions\<close>

fun canonicalize :: "json \<Rightarrow> json" where
  "canonicalize (JObj xs) = JObj (map (\<lambda>p. (fst p, canonicalize (snd p))) (sort_key fst xs))"
| "canonicalize (JList xs) = JList (map canonicalize xs)"
| "canonicalize v = v"

definition eval_text :: "envelope \<Rightarrow> envelope \<Rightarrow> string \<Rightarrow> string" where
  "eval_text policy_input decision policy_hash =
     dumps_sorted (JObj [(''input'', canonicalize (JObj policy_input)), (''decision'', canonicalize (JObj decision)),
       (''policy_hash'', JStr policy_hash)])"

definition compute_eval_digest :: "(string \<Rightarrow> string) \<Rightarrow> envelope \<Rightarrow> envelope \<Rightarrow> string \<Rightarrow> string" where
  "compute_eval_digest sha256 policy_input decision policy_hash = sha256 (eval_text policy_input decision policy_hash)"

record eval_record =
  er_policy_input :: "envelope option"
  er_policy_decision :: "envelope option"
  er_policy_hash :: "string option"
  er_policy_eval_digest :: "string option"

definition create_eval_record :: "(string \<Rightarrow> string) \<Rightarrow> envelope \<Rightarrow> envelope \<Rightarrow> string \<Rightarrow> eval_record" where
  "create_eval_record sha256 policy_input decision policy_hash =
     \<lparr>er_policy_input = Some policy_input, er_policy_decision = Some decision, er_policy_hash = Some policy_hash,
      er_policy_eval_digest = Some (compute_eval_digest sha256 policy_input decision policy_hash)\<rparr>"

definition verify_eval_digest :: "(string \<Rightarrow> string) \<Rightarrow> eval_record \<Rightarrow> bool" where
  "verify_eval_digest sha256 r =
     (case (er_policy_eval_digest r, er_policy_input r, er_policy_decision r, er_policy_hash r) of
        (Some claimed_digest, Some policy_input, Some decision, Some policy_hash) \<Rightarrow>
          claimed_digest \<noteq> [] \<and> policy_input \<noteq> [] \<and> decision \<noteq> [] \<and> policy_hash \<noteq> [] \<and>
          compute_eval_digest sha256 policy_input decision policy_hash = claimed_digest
      | _ \<Rightarrow> False)"

end
