(* ===== verification/PolicyProps.thy ===== *)
theory PolicyProps
  imports Policy
begin

text \<open>
  Correctness of policy enforcement: what the gates decide with the engines an enforcer has by default, what the bus and
  the decorated handlers do with those decisions, the gas an evaluation is charged, and what a digest of a decision
  commits to.
\<close>

section \<open>The default engines\<close>

lemma map_of_extract [simp]:
  "map_of (extract_policy_input env gate) ''kind'' = None" "map_of (extract_policy_input env gate) ''payload_size'' = None"
  by (simp_all add: extract_policy_input_def)

lemma evaluate_without_kind:
  assumes "map_of env ''kind'' = None" and "map_of env ''payload_size'' = None"
  shows "\<exists>r. evaluate_policy order env = Inr r \<and> \<not> pr_allowed r"
  using assms by (simp add: evaluate_policy_def json_get_def in_strings_def as_number_def Let_def)

lemma wasm_evaluate_denies:
  assumes "\<And>r. engine env = Inr r \<Longrightarrow> \<not> pr_allowed r" and "wasm_evaluate engine gas_limit env = Inr r"
  shows "\<not> pr_allowed r"
  using assms by (auto simp: wasm_evaluate_def evaluate_with_metering_def split: prod.splits sum.splits policy_error.splits if_splits)

section \<open>The gates with the default engines\<close>

text \<open>Calls on one enforcer whose runtime has the gas limit \<open>limit\<close>.\<close>

datatype gate_cmd = Preflight envelope | Ingress envelope | CommitGate envelope envelope | ClearCache

fun gate_call :: "(json \<Rightarrow> string) \<Rightarrow> (string set \<Rightarrow> string list) \<Rightarrow> int \<Rightarrow> gate_cmd \<Rightarrow> gate_enforcer \<Rightarrow> gate_enforcer" where
  "gate_call show_json order limit (Preflight env) g = snd (preflight_validate show_json (evaluate_policy order) env g)"
| "gate_call show_json order limit (Ingress env) g = snd (ingress_validate (wasm_evaluate (evaluate_policy order) limit) env g)"
| "gate_call show_json order limit (CommitGate env tel) g =
     snd (commit_gate_validate (wasm_evaluate (evaluate_policy order) limit) env tel g)"
| "gate_call show_json order limit ClearCache g = clear_cache g"

definition gate_step ::
  "(json \<Rightarrow> string) \<Rightarrow> (string set \<Rightarrow> string list) \<Rightarrow> int \<Rightarrow> gate_cmd \<Rightarrow> gate_enforcer \<Rightarrow> policy_error + gate_enforcer" where
  "gate_step show_json order limit c g = Inr (gate_call show_json order limit c g)"

definition cache_denies :: "gate_enforcer \<Rightarrow> bool" where
  "cache_denies g \<longleftrightarrow> (\<forall>k d. map_of (ge_preflight_cache g) k = Some d \<longrightarrow> \<not> pd_allowed d)"

lemma preflight_denies:
  assumes "cache_denies g"
  shows "\<not> pd_allowed (fst (preflight_validate show_json (evaluate_policy order) env g)) \<and>
    cache_denies (snd (preflight_validate show_json (evaluate_policy order) env g))"
proof -
  obtain r where r: "evaluate_policy order (extract_policy_input env PREFLIGHT) = Inr r" "\<not> pr_allowed r"
    using evaluate_without_kind [of "extract_policy_input env PREFLIGHT"] by auto
  with assms show ?thesis
    by (auto simp: preflight_validate_def cache_denies_def decide_gate_def Let_def split: option.splits if_splits)
qed

lemma wasm_denies:
  "map_of env ''kind'' = None \<Longrightarrow> map_of env ''payload_size'' = None \<Longrightarrow>
   wasm_evaluate (evaluate_policy order) limit env = Inr r \<Longrightarrow> \<not> pr_allowed r"
  using evaluate_without_kind [of env order] by (auto elim!: wasm_evaluate_denies [rotated])

lemma ingress_denies: "\<not> pd_allowed (fst (ingress_validate (wasm_evaluate (evaluate_policy order) limit) env g))"
  using wasm_denies [of "extract_policy_input env INGRESS" order limit]
  by (auto simp: ingress_validate_def decide_gate_def gate_error_def Let_def split: sum.splits)

lemma commit_gate_denies: "\<not> pd_allowed (fst (commit_gate_validate (wasm_evaluate (evaluate_policy order) limit) env tel g))"
  using wasm_denies [of "extract_policy_input env COMMIT_GATE @ [(''telemetry'', JObj tel)]" order limit]
  by (auto simp: commit_gate_validate_def gate_error_def Let_def map_add_def res_simps split: sum.splits)

lemma later_gates_keep_cache:
  "cache_denies g \<Longrightarrow> cache_denies (snd (ingress_validate wasm env g))"
  "cache_denies g \<Longrightarrow> cache_denies (snd (commit_gate_validate wasm env tel g))"
  "cache_denies (clear_cache g)"
  by (auto simp: ingress_validate_def commit_gate_validate_def cache_denies_def clear_cache_def Let_def split: sum.splits)

interpretation gates: guarded_machine "gate_step show_json order limit" cache_denies
proof
  fix s c s'
  assume "cache_denies s" "gate_step show_json order limit c s = Inr s'"
  then show "cache_denies s'"
    by (cases c) (auto simp: gate_step_def preflight_denies later_gates_keep_cache)
qed

text \<open>
  Claim C32.  With the engines an enforcer has by default, every gate denies every envelope, after any earlier calls:
  the input the gates build has no kind, and the engine allows no input without one.  So publishing raises and hands
  nothing to NATS, a decorated handler never runs, and a subscription never delivers.
\<close>

theorem gates_deny_everything:
  "let g = run_cmds (gate_step show_json order limit) cs (new_enforcer cache); opa = evaluate_policy order; wasm = wasm_evaluate opa limit in
   \<not> pd_allowed (fst (preflight_validate show_json opa env g)) \<and>
   \<not> pd_allowed (fst (ingress_validate wasm env g)) \<and>
   \<not> pd_allowed (fst (commit_gate_validate wasm env telemetry g)) \<and>
   (\<exists>e g'. publish_envelope show_json sha256 verified opa env (g, published) = (Inl e, g', published)) \<and>
   (\<exists>e g'. require_policy_validation wasm handler env (g, s) = (Inl e, g', s)) \<and>
   (\<exists>g'. deliver_envelope sha256 verified wasm handler env (g, s) = (g', s))"
proof -
  define opa where "opa = evaluate_policy order"
  define wasm where "wasm = wasm_evaluate opa limit"
  define g where "g = run_cmds (gate_step show_json order limit) cs (new_enforcer cache)"
  have "cache_denies (new_enforcer cache)" by (simp add: cache_denies_def new_enforcer_def)
  then have "cache_denies g" unfolding g_def by (rule gates.run_inv)
  then have p: "\<not> pd_allowed (fst (preflight_validate show_json opa env g))" by (simp add: preflight_denies opa_def)
  have i: "\<not> pd_allowed (fst (ingress_validate wasm env g))" and c: "\<not> pd_allowed (fst (commit_gate_validate wasm env telemetry g))"
    by (simp_all add: ingress_denies commit_gate_denies wasm_def opa_def)
  have "\<exists>e g'. publish_envelope show_json sha256 verified opa env (g, published) = (Inl e, g', published)"
    using p by (auto simp: publish_envelope_def Let_def split: sum.splits prod.splits)
  moreover have "\<exists>e g'. require_policy_validation wasm handler env (g, s) = (Inl e, g', s)"
    using i by (auto simp: require_policy_validation_def Let_def split: prod.splits)
  moreover have "\<exists>g'. deliver_envelope sha256 verified wasm handler env (g, s) = (g', s)"
    using i by (auto simp: deliver_envelope_def Let_def split: sum.splits prod.splits)
  ultimately show ?thesis
    using p i c unfolding Let_def opa_def [symmetric] wasm_def [symmetric] g_def [symmetric] by blast
qed

section \<open>What the gates record\<close>

text \<open>With any engine, the preflight gate answers from its cache by operation and agent alone: a decision for one payload
  is the decision for every other.\<close>

lemma preflight_ignores_payload:
  assumes "ge_enable_cache g" and "make_cache_key show_json env = make_cache_key show_json env'"
    and "opa (extract_policy_input env PREFLIGHT) = Inr r"
  shows "let (d, g') = preflight_validate show_json opa env g in preflight_validate show_json opa' env' g' = (d, g')"
  using assms by (auto simp: preflight_validate_def Let_def split: option.splits)

text \<open>The gas that ingress and commit gate report is always 0.\<close>

lemma reported_gas_is_zero:
  "pd_gas_used (fst (ingress_validate wasm env g)) = 0" "pd_gas_used (fst (commit_gate_validate wasm env tel g)) = 0"
  by (auto simp: ingress_validate_def commit_gate_validate_def decide_gate_def gate_error_def reset_gas_def Let_def split: sum.splits)

section \<open>Gas\<close>

lemma consume_within: "gm_used m + c \<le> gm_limit m \<Longrightarrow>
    consume c m = (Inr (), m\<lparr>gm_used := gm_used m + c, gm_operations := gm_operations m + 1\<rparr>)"
  by (simp add: consume_def check_gas_limit_def Let_def)

lemma consume_above: "gm_enabled m \<Longrightarrow> gm_limit m < gm_used m + c \<Longrightarrow>
    consume c m = (Inl (GasExceeded (gm_used m + c) (gm_limit m)), m\<lparr>gm_used := gm_used m + c, gm_operations := gm_operations m + 1\<rparr>)"
  by (simp add: consume_def check_gas_limit_def Let_def)

lemma consume_all_within:
  "\<forall>c \<in> set cs. 0 \<le> c \<Longrightarrow> gm_used m + sum_list cs \<le> gm_limit m \<Longrightarrow>
   consume_all cs m = (Inr (), m\<lparr>gm_used := gm_used m + sum_list cs, gm_operations := gm_operations m + int (length cs)\<rparr>)"
proof (induction cs arbitrary: m)
  case (Cons c cs)
  have "0 \<le> sum_list cs" using Cons.prems(1) by (intro sum_list_nonneg) simp
  then have c: "consume c m = (Inr (), m\<lparr>gm_used := gm_used m + c, gm_operations := gm_operations m + 1\<rparr>)"
    using Cons.prems(2) by (intro consume_within) simp
  show ?case using Cons.prems Cons.IH [of "m\<lparr>gm_used := gm_used m + c, gm_operations := gm_operations m + 1\<rparr>"] by (simp add: c add.assoc)
qed simp

lemma consume_all_above:
  "\<forall>c \<in> set cs. 0 \<le> c \<and> c \<le> k \<Longrightarrow> gm_enabled m \<Longrightarrow> gm_used m \<le> gm_limit m \<Longrightarrow> gm_limit m < gm_used m + sum_list cs \<Longrightarrow>
   \<exists>used m'. consume_all cs m = (Inl (GasExceeded used (gm_limit m)), m') \<and> gm_used m' = used \<and> gm_limit m < used \<and> used \<le> gm_limit m + k"
proof (induction cs arbitrary: m)
  case (Cons c cs)
  show ?case
  proof (cases "gm_used m + c \<le> gm_limit m")
    case True
    with Cons.prems Cons.IH [of "m\<lparr>gm_used := gm_used m + c, gm_operations := gm_operations m + 1\<rparr>"] show ?thesis
      by (simp add: consume_within add.assoc)
  next
    case False
    with Cons.prems show ?thesis by (simp add: consume_above)
  qed
qed simp

definition base_cost :: "envelope \<Rightarrow> int" where
  "base_cost env = sum_list (metered_costs env)"

lemma metered_costs_bounded: "c \<in> set (metered_costs env) \<Longrightarrow> 0 \<le> c \<and> c \<le> 20"
  by (auto simp: metered_costs_def COST_FIELD_ACCESS_def COST_SET_MEMBERSHIP_def COST_COMPARISON_def COST_FUNCTION_CALL_def)

text \<open>
  A metered evaluation is charged exactly the fields present, the fixed operations and 10 per reason.  Within
  the limit it is the engine's result with that charge; above it the evaluation is denied, and the charge exceeds the
  limit by at most the one operation that crossed it.
\<close>

theorem metered_evaluation_exact:
  assumes "0 \<le> limit" and "engine env = Inr r"
  shows "let total = base_cost env + 10 * int (length (pr_reasons r)) in
    (total \<le> limit \<longrightarrow> wasm_evaluate engine limit env = Inr (r\<lparr>pr_gas_used := total\<rparr>)) \<and>
    (limit < total \<longrightarrow> (\<exists>used. wasm_evaluate engine limit env =
        Inr \<lparr>pr_allowed = False, pr_reasons = [GasLimitExceeded used limit], pr_gas_used = used, pr_policy_version = ''1.0.0''\<rparr> \<and>
        limit < used \<and> used \<le> limit + max 20 (10 * int (length (pr_reasons r)))))"
proof -
  let ?m = "new_gas_meter limit"
  let ?n = "10 * int (length (pr_reasons r))"
  define m1 where "m1 = ?m\<lparr>gm_used := base_cost env, gm_operations := int (length (metered_costs env))\<rparr>"
  have m: "gm_used ?m = 0" "gm_limit ?m = limit" "gm_enabled ?m" "gm_operations ?m = 0" by (simp_all add: new_gas_meter_def)
  have m1: "gm_used m1 = base_cost env" "gm_limit m1 = limit" "gm_enabled m1" by (simp_all add: m1_def new_gas_meter_def)
  have nonneg: "\<forall>c \<in> set (metered_costs env). 0 \<le> c" using metered_costs_bounded by blast
  have small: "consume_all (metered_costs env) ?m = (Inr (), m1)" if "base_cost env \<le> limit"
    using consume_all_within [OF nonneg, of ?m] that by (simp add: m m1_def base_cost_def)
  have eval: "evaluate_with_metering engine env ?m =
      (if pr_reasons r = [] then (Inr r, m1) else (case consume ?n m1 of (Inl e, m) \<Rightarrow> (Inl e, m) | (Inr u, m) \<Rightarrow> (Inr r, m)))"
    if "base_cost env \<le> limit"
    by (simp add: evaluate_with_metering_def small [OF that] assms(2) COST_ITERATION_PER_ITEM_def)
  show ?thesis
  proof (cases "base_cost env \<le> limit")
    case True
    show ?thesis
    proof (cases "base_cost env + ?n \<le> limit")
      case fits: True
      show ?thesis using fits consume_within [of m1 ?n] by (simp add: wasm_evaluate_def eval [OF True] m1)
    next
      case False
      moreover have "pr_reasons r \<noteq> []" using False True by auto
      ultimately show ?thesis using True consume_above [of m1 ?n] by (simp add: wasm_evaluate_def eval [OF True] m1)
    qed
  next
    case False
    have b: "\<forall>c \<in> set (metered_costs env). 0 \<le> c \<and> c \<le> 20" using metered_costs_bounded by blast
    obtain used m' where "consume_all (metered_costs env) ?m = (Inl (GasExceeded used limit), m')" "gm_used m' = used" "limit < used" "used \<le> limit + 20"
      using consume_all_above [OF b, of ?m] False assms(1) by (auto simp: m base_cost_def)
    with False show ?thesis by (auto simp: wasm_evaluate_def evaluate_with_metering_def Let_def)
  qed
qed

section \<open>Digests\<close>

lemma insort_key_map_fst: "insort_key fst (fst p, f (snd p)) (map (\<lambda>p. (fst p, f (snd p))) xs) = map (\<lambda>p. (fst p, f (snd p))) (insort_key fst p xs)"
  by (induction xs) auto

lemma sort_key_map_fst: "sort_key fst (map (\<lambda>p. (fst p, f (snd p))) xs) = map (\<lambda>p. (fst p, f (snd p))) (sort_key fst xs)"
  by (induction xs) (simp_all add: insort_key_map_fst)

lemma sort_json_canonicalize: "sort_json (canonicalize v) = sort_json v"
proof (induction v)
  case (JObj xs)
  have "map (\<lambda>p. (fst p, sort_json (canonicalize (snd p)))) (sort_key fst xs) = map (\<lambda>p. (fst p, sort_json (snd p))) (sort_key fst xs)"
    using JObj.IH by (intro map_cong) auto
  then show ?case
    using sort_key_map_fst [of "\<lambda>v. sort_json (canonicalize v)" "sort_key fst xs"] sort_key_map_fst [of sort_json xs]
    by (simp add: comp_def sort_key_id_if_sorted)
qed auto

lemma eval_text_inj:
  "eval_text a b h = eval_text a' b' h' \<longleftrightarrow>
   sort_json (JObj a) = sort_json (JObj a') \<and> sort_json (JObj b) = sort_json (JObj b') \<and> h = h'"
proof -
  have "sort_key fst [(''input'', x), (''decision'', y), (''policy_hash'', z)] = [(''decision'', y), (''input'', x), (''policy_hash'', z)]"
    for x y z :: json
    by simp
  then show ?thesis unfolding eval_text_def dumps_sorted_inj by (auto simp: sort_json_canonicalize simp del: canonicalize.simps)
qed

text \<open>
  A record created for an evaluation verifies exactly when input, decision and policy hash are all nonempty,
  and, unless SHA-256 collides on the two texts, two evaluations have the same digest exactly when policy hash, input and
  decision agree, the latter two up to the order of keys.
\<close>

theorem eval_digest_commits:
  assumes "\<And>s. sha256 s \<noteq> []"
    and "\<And>s t. sha256 s = sha256 t \<Longrightarrow> {s, t} \<subseteq> {eval_text a b h, eval_text a' b' h'} \<Longrightarrow> s = t"
  shows "(verify_eval_digest sha256 (create_eval_record sha256 a b h) \<longleftrightarrow> a \<noteq> [] \<and> b \<noteq> [] \<and> h \<noteq> []) \<and>
    (compute_eval_digest sha256 a b h = compute_eval_digest sha256 a' b' h' \<longleftrightarrow>
       sort_json (JObj a) = sort_json (JObj a') \<and> sort_json (JObj b) = sort_json (JObj b') \<and> h = h')"
proof
  have "compute_eval_digest sha256 a b h \<noteq> []" by (simp add: compute_eval_digest_def assms(1))
  then show "verify_eval_digest sha256 (create_eval_record sha256 a b h) \<longleftrightarrow> a \<noteq> [] \<and> b \<noteq> [] \<and> h \<noteq> []"
    by (simp add: verify_eval_digest_def create_eval_record_def)
  have "compute_eval_digest sha256 a b h = compute_eval_digest sha256 a' b' h' \<longleftrightarrow> eval_text a b h = eval_text a' b' h'"
    using assms(2) [of "eval_text a b h" "eval_text a' b' h'"] by (auto simp: compute_eval_digest_def)
  then show "compute_eval_digest sha256 a b h = compute_eval_digest sha256 a' b' h' \<longleftrightarrow>
       sort_json (JObj a) = sort_json (JObj a') \<and> sort_json (JObj b) = sort_json (JObj b') \<and> h = h'"
    by (simp add: eval_text_inj)
qed

section \<open>Examples\<close>

lemma metered_evaluation_exact_witness:
  "wasm_evaluate (evaluate_policy sorted_list_of_set) 100 [(''gate'', JStr ''ingress'')] \<noteq> Inl PyTypeError"
proof -
  obtain r where r: "evaluate_policy sorted_list_of_set [(''gate'', JStr ''ingress'')] = Inr r"
    using evaluate_without_kind [of "[(''gate'', JStr ''ingress'')]"] by auto
  from metered_evaluation_exact [of 100 "evaluate_policy sorted_list_of_set", OF _ r] show ?thesis
    by (auto simp: Let_def)
qed

lemma eval_digest_commits_witness:
  "compute_eval_digest (\<lambda>s. CHR ''h'' # s) [(''kind'', JStr ''NEED'')] [(''allowed'', JBool True)] ''v1'' \<noteq>
   compute_eval_digest (\<lambda>s. CHR ''h'' # s) [(''kind'', JStr ''NEED'')] [(''allowed'', JBool False)] ''v1''"
  using eval_digest_commits [of "\<lambda>s. CHR ''h'' # s" "[(''kind'', JStr ''NEED'')]" "[(''allowed'', JBool True)]" "''v1''"
      "[(''kind'', JStr ''NEED'')]" "[(''allowed'', JBool False)]" "''v1''"] by simp

end
