(* ===== verification/Clocks.thy ===== *)
theory Clocks
  imports Tables PyFloat
begin

text \<open>
  The Lamport clock with its batched file (\<open>lamport.py\<close>), the cache of seen messages and the deduplicating bus
  (\<open>hybrid_bus.py\<close>), and the partition detector (\<open>monitoring/partition_detector.py\<close>).  Readings of \<open>time.time()\<close> are
  arguments.  Every method holds its lock from beginning to end, so calls are atomic; the file holds the number the clock
  wrote last, \<open>None\<close> when there is no file.
\<close>

section \<open>The Lamport clock\<close>

definition BATCH_INTERVAL :: pyfloat where "BATCH_INTERVAL = 1"
definition BATCH_SIZE :: int where "BATCH_SIZE = 100"

record lamport =
  lc_file :: "int option"
  lc_counter :: int
  lc_dirty :: bool
  lc_last_write_time :: pyfloat
  lc_ticks_since_write :: int

definition read_counter :: "int option \<Rightarrow> int" where
  "read_counter f = (case f of None \<Rightarrow> 0 | Some n \<Rightarrow> n)"

definition new_lamport :: "int option \<Rightarrow> pyfloat \<Rightarrow> lamport" where
  "new_lamport f now = \<lparr>lc_file = f, lc_counter = read_counter f, lc_dirty = False, lc_last_write_time = now, lc_ticks_since_write = 0\<rparr>"

definition flush_unsafe :: "pyfloat \<Rightarrow> lamport \<Rightarrow> lamport" where
  "flush_unsafe now s =
     (if lc_dirty s
      then s\<lparr>lc_file := Some (lc_counter s), lc_dirty := False, lc_last_write_time := now, lc_ticks_since_write := 0\<rparr>
      else s)"

text \<open>\<open>now\<close> is read for the interval test, \<open>later\<close> when the flush notes its time.\<close>

definition lamport_tick :: "pyfloat \<Rightarrow> pyfloat \<Rightarrow> lamport \<Rightarrow> int \<times> lamport" where
  "lamport_tick now later s =
     (let s = s\<lparr>lc_counter := lc_counter s + 1, lc_dirty := True, lc_ticks_since_write := lc_ticks_since_write s + 1\<rparr>;
          current_value = lc_counter s
      in (current_value,
          if lc_ticks_since_write s \<ge> BATCH_SIZE then flush_unsafe later s
          else if fsub now (lc_last_write_time s) \<ge> BATCH_INTERVAL then flush_unsafe later s
          else s))"

definition lamport_observe :: "int \<Rightarrow> pyfloat \<Rightarrow> lamport \<Rightarrow> int \<times> lamport" where
  "lamport_observe other now s =
     (let c = max (lc_counter s) other + 1
      in (c, \<lparr>lc_file = Some c, lc_counter = c, lc_dirty = False, lc_last_write_time = now, lc_ticks_since_write = 0\<rparr>))"

text \<open>The process ends without a flush and another one opens the file.\<close>

definition lamport_restart :: "pyfloat \<Rightarrow> lamport \<Rightarrow> lamport" where
  "lamport_restart now s = new_lamport (lc_file s) now"

section \<open>The cache of seen messages\<close>

datatype cache_error = PyKeyError

record message_cache =
  mc_max_size :: int
  mc_ttl_seconds :: pyfloat
  mc_cache :: "(string, pyfloat) table"

definition new_message_cache :: "int \<Rightarrow> pyfloat \<Rightarrow> message_cache" where
  "new_message_cache max_size ttl_seconds = \<lparr>mc_max_size = max_size, mc_ttl_seconds = ttl_seconds, mc_cache = []\<rparr>"

fun evict_oldest :: "int \<Rightarrow> (string, pyfloat) table \<Rightarrow> cache_error + (string, pyfloat) table" where
  "evict_oldest max_size [] = (if 0 > max_size then Inl PyKeyError else Inr [])"
| "evict_oldest max_size (e # c) = (if int (length (e # c)) > max_size then evict_oldest max_size c else Inr (e # c))"

definition cache_add :: "pyfloat \<Rightarrow> string \<Rightarrow> message_cache \<Rightarrow> cache_error + (bool \<times> message_cache)" where
  "cache_add now msg_id mc =
     (case map_of (mc_cache mc) msg_id of
        Some ts \<Rightarrow> Inr (False, mc\<lparr>mc_cache := AList.delete msg_id (mc_cache mc) @ [(msg_id, ts)]\<rparr>)
      | None \<Rightarrow> res_bind (evict_oldest (mc_max_size mc) (add_row msg_id now (mc_cache mc))) (\<lambda>c. Inr (True, mc\<lparr>mc_cache := c\<rparr>)))"

definition cache_cleanup :: "pyfloat \<Rightarrow> message_cache \<Rightarrow> message_cache" where
  "cache_cleanup now mc =
     (let cutoff_time = fsub now (mc_ttl_seconds mc);
          expired = map fst (filter (\<lambda>(i, ts). ts < cutoff_time) (mc_cache mc))
      in mc\<lparr>mc_cache := fold AList.delete expired (mc_cache mc)\<rparr>)"

section \<open>The hybrid bus\<close>

datatype transport = P2P | NATS

datatype bus_event = RecordSend string transport | RecordError transport | RecordReceive string transport

record 'e hybrid_bus =
  hb_message_cache :: message_cache
  hb_message_count :: int
  hb_monitor :: "bus_event list"
  hb_handled :: "'e list"

definition CLEANUP_INTERVAL :: int where "CLEANUP_INTERVAL = 100"

text \<open>\<open>p2p_ok\<close> and \<open>nats_ok\<close> say whether the transports accept the envelope; there need not be a NATS bus.\<close>

definition hybrid_publish :: "('e \<Rightarrow> string) \<Rightarrow> bool \<Rightarrow> bool option \<Rightarrow> 'e \<Rightarrow> 'e hybrid_bus \<Rightarrow> 'e hybrid_bus" where
  "hybrid_publish compute_msg_id p2p_ok nats_ok env b =
     b\<lparr>hb_monitor := hb_monitor b @ [if p2p_ok then RecordSend (compute_msg_id env) P2P else RecordError P2P] @
         (case nats_ok of None \<Rightarrow> [] | Some ok \<Rightarrow> [if ok then RecordSend (compute_msg_id env) NATS else RecordError NATS])\<rparr>"

definition hybrid_subscribe :: "pyfloat \<Rightarrow> 'e hybrid_bus \<Rightarrow> 'e hybrid_bus" where
  "hybrid_subscribe now b =
     (let b = b\<lparr>hb_message_count := hb_message_count b + 1\<rparr>
      in if hb_message_count b mod CLEANUP_INTERVAL = 0 then b\<lparr>hb_message_cache := cache_cleanup now (hb_message_cache b)\<rparr> else b)"

text \<open>\<open>hb_handled\<close> lists the envelopes the handler of the user was called with.\<close>

definition deduplicated_handler ::
  "('e \<Rightarrow> string) \<Rightarrow> transport \<Rightarrow> pyfloat \<Rightarrow> 'e \<Rightarrow> 'e hybrid_bus \<Rightarrow> cache_error + 'e hybrid_bus" where
  "deduplicated_handler compute_msg_id transport now env b =
     (let msg_id = compute_msg_id env in
      res_bind (cache_add now msg_id (hb_message_cache b)) (\<lambda>(added, mc).
      let b = b\<lparr>hb_message_cache := mc\<rparr> in
      Inr (if \<not> added then b
           else b\<lparr>hb_monitor := hb_monitor b @ [RecordReceive msg_id transport], hb_handled := hb_handled b @ [env]\<rparr>)))"

section \<open>The partition detector\<close>

record peer_status =
  ps_last_heartbeat :: pyfloat
  ps_is_alive :: bool

datatype partition_event = OnPartition string | OnHeal string

text \<open>\<open>pd_events\<close> are the calls of the two callbacks.\<close>

record partition_detector =
  pd_timeout :: pyfloat
  pd_peers :: "(string, peer_status) table"
  pd_partitioned_peers :: "string list"
  pd_events :: "partition_event list"

definition new_detector :: "pyfloat \<Rightarrow> int \<Rightarrow> partition_detector" where
  "new_detector heartbeat_interval missed_heartbeat_threshold =
     \<lparr>pd_timeout = fmul heartbeat_interval (to_float missed_heartbeat_threshold), pd_peers = [], pd_partitioned_peers = [], pd_events = []\<rparr>"

definition detector_register :: "string \<Rightarrow> pyfloat \<Rightarrow> partition_detector \<Rightarrow> partition_detector" where
  "detector_register peer_id now d =
     (if has_key peer_id (pd_peers d) then d
      else d\<lparr>pd_peers := add_row peer_id \<lparr>ps_last_heartbeat = now, ps_is_alive = True\<rparr> (pd_peers d)\<rparr>)"

definition detector_heartbeat :: "string \<Rightarrow> pyfloat \<Rightarrow> partition_detector \<Rightarrow> partition_detector" where
  "detector_heartbeat peer_id now d =
     (if \<not> has_key peer_id (pd_peers d) then d
      else let d = d\<lparr>pd_peers := update_row peer_id (\<lambda>s. s\<lparr>ps_last_heartbeat := now\<rparr>) (pd_peers d)\<rparr>
        in if peer_id \<in> set (pd_partitioned_peers d)
           then d\<lparr>pd_partitioned_peers := removeAll peer_id (pd_partitioned_peers d),
                  pd_peers := update_row peer_id (\<lambda>s. s\<lparr>ps_is_alive := True\<rparr>) (pd_peers d),
                  pd_events := pd_events d @ [OnHeal peer_id]\<rparr>
           else d)"

definition check_peer :: "pyfloat \<Rightarrow> string \<Rightarrow> partition_detector \<Rightarrow> partition_detector" where
  "check_peer now peer_id d =
     (case map_of (pd_peers d) peer_id of
        None \<Rightarrow> d
      | Some status \<Rightarrow>
          if fsub now (ps_last_heartbeat status) > pd_timeout d \<and> peer_id \<notin> set (pd_partitioned_peers d)
          then d\<lparr>pd_partitioned_peers := pd_partitioned_peers d @ [peer_id],
                 pd_peers := update_row peer_id (\<lambda>s. s\<lparr>ps_is_alive := False\<rparr>) (pd_peers d),
                 pd_events := pd_events d @ [OnPartition peer_id]\<rparr>
          else d)"

text \<open>The peers found newly partitioned, and the detector.\<close>

definition detect_partition :: "pyfloat \<Rightarrow> partition_detector \<Rightarrow> string list \<times> partition_detector" where
  "detect_partition now d =
     (let d' = fold (check_peer now) (keys (pd_peers d)) d
      in (filter (\<lambda>p. p \<notin> set (pd_partitioned_peers d)) (pd_partitioned_peers d'), d'))"

definition get_alive_peers :: "partition_detector \<Rightarrow> string list" where
  "get_alive_peers d = map fst (filter (\<lambda>(p, s). ps_is_alive s) (pd_peers d))"

definition is_partitioned :: "partition_detector \<Rightarrow> bool" where
  "is_partitioned d \<longleftrightarrow> pd_partitioned_peers d \<noteq> []"

end
