(* ===== verification/ClockProps.thy ===== *)
theory ClockProps
  imports Clocks
begin

text \<open>
  Correctness of the clock, the cache and the detector: values grow and the file lags by fewer than a batch; the cache is
  the list of the most recently seen messages; partition and heal callbacks alternate for every peer.
\<close>

section \<open>The Lamport clock\<close>

datatype clock_cmd = ClockTick pyfloat pyfloat | ClockObserve int pyfloat | ClockFlush pyfloat

text \<open>The values the calls return, in order, and the clock afterwards.\<close>

fun clock_run :: "clock_cmd list \<Rightarrow> lamport \<Rightarrow> int list \<times> lamport" where
  "clock_run [] s = ([], s)"
| "clock_run (ClockTick now later # cs) s = (let (v, s) = lamport_tick now later s; (vs, s) = clock_run cs s in (v # vs, s))"
| "clock_run (ClockObserve other now # cs) s = (let (v, s) = lamport_observe other now s; (vs, s) = clock_run cs s in (v # vs, s))"
| "clock_run (ClockFlush now # cs) s = clock_run cs (flush_unsafe now s)"

definition clock_ok :: "lamport \<Rightarrow> bool" where
  "clock_ok s \<longleftrightarrow> read_counter (lc_file s) + lc_ticks_since_write s = lc_counter s \<and>
     0 \<le> lc_ticks_since_write s \<and> lc_ticks_since_write s < BATCH_SIZE \<and> (lc_dirty s \<longleftrightarrow> 0 < lc_ticks_since_write s)"

lemma clock_ok_flush [simp]: "clock_ok s \<Longrightarrow> clock_ok (flush_unsafe now s)" "lc_counter (flush_unsafe now s) = lc_counter s"
  by (auto simp: clock_ok_def flush_unsafe_def read_counter_def BATCH_SIZE_def)

lemma clock_ok_tick:
  assumes "clock_ok s"
  shows "clock_ok (snd (lamport_tick now later s)) \<and> fst (lamport_tick now later s) = lc_counter s + 1 \<and>
    lc_counter (snd (lamport_tick now later s)) = lc_counter s + 1"
  using assms by (auto simp: lamport_tick_def clock_ok_def flush_unsafe_def read_counter_def BATCH_SIZE_def Let_def)

lemma clock_ok_observe:
  "clock_ok (snd (lamport_observe other now s)) \<and> fst (lamport_observe other now s) = max (lc_counter s) other + 1 \<and>
    lc_counter (snd (lamport_observe other now s)) = max (lc_counter s) other + 1"
  by (auto simp: lamport_observe_def clock_ok_def read_counter_def BATCH_SIZE_def Let_def)

lemma clock_run_ok:
  "clock_ok s \<Longrightarrow> let (vs, s') = clock_run cs s in
     clock_ok s' \<and> sorted_wrt (<) (lc_counter s # vs) \<and> lc_counter s' = last (lc_counter s # vs)"
proof (induction cs arbitrary: s)
  case (Cons c cs)
  show ?case
  proof (cases c)
    case (ClockTick now later)
    from clock_ok_tick [OF Cons.prems, of now later] Cons.IH [of "snd (lamport_tick now later s)"] show ?thesis
      by (fastforce simp: ClockTick case_prod_beta Let_def)
  next
    case (ClockObserve other now)
    from clock_ok_observe [of other now s] Cons.IH [of "snd (lamport_observe other now s)"] show ?thesis
      by (fastforce simp: ClockObserve case_prod_beta Let_def)
  next
    case (ClockFlush now)
    with Cons.prems Cons.IH [of "flush_unsafe now s"] show ?thesis by simp
  qed
qed simp

text \<open>
  Within one process the values that tick and observe return are strictly increasing and all above the value
  read from the file; the file lags behind the clock by fewer than 100 ticks, so a process that opens it after a crash
  starts at most 99 values back.
\<close>

theorem lamport_values_increase:
  "let (vs, s) = clock_run cs (new_lamport f now); s' = lamport_restart later s in
   sorted_wrt (<) (read_counter f # vs) \<and> lc_counter s = last (read_counter f # vs) \<and>
   lc_counter s - 100 < lc_counter s' \<and> lc_counter s' \<le> lc_counter s"
proof -
  have "clock_ok (new_lamport f now)" by (simp add: clock_ok_def new_lamport_def BATCH_SIZE_def)
  from clock_run_ok [OF this, of cs] show ?thesis
    by (auto simp: Let_def case_prod_beta new_lamport_def lamport_restart_def clock_ok_def BATCH_SIZE_def)
qed

text \<open>The comment says that restarts do not go backwards; after a crash the values of the unwritten ticks are issued
  again.\<close>

lemma restart_reissues_values:
  "let (vs, s) = clock_run [ClockTick 0 0, ClockTick 0 0] (new_lamport None 0); (vs', s') = clock_run [ClockTick 0 0] (lamport_restart 0 s)
   in vs = [1, 2] \<and> vs' = [1]"
  by (simp add: new_lamport_def lamport_tick_def lamport_restart_def read_counter_def fsub_def BATCH_SIZE_def BATCH_INTERVAL_def Let_def)

section \<open>The cache of seen messages\<close>

text \<open>The most recently used entries of a history, least recent first.\<close>

definition recent :: "nat \<Rightarrow> 'a list \<Rightarrow> 'a list" where
  "recent n xs = drop (length (remdups xs) - n) (remdups xs)"

lemma remdups_snoc: "remdups (xs @ [x]) = removeAll x (remdups xs) @ [x]"
  by (induction xs) auto

lemma removeAll_drop:
  assumes "distinct xs" and "x \<in> set (drop k xs)" and "k \<le> length xs"
  shows "drop k (removeAll x xs @ [x]) = removeAll x (drop k xs) @ [x]"
proof -
  have "xs = take k xs @ drop k xs" by simp
  moreover from this have "x \<notin> set (take k xs)" using assms(1,2) by (metis IntI distinct_append empty_iff)
  ultimately have "removeAll x xs = take k xs @ removeAll x (drop k xs)" by (metis removeAll_append removeAll_id)
  then show ?thesis using assms(3) by simp
qed

lemma length_removeAll_distinct: "distinct xs \<Longrightarrow> length (removeAll x xs) = length xs - (if x \<in> set xs then 1 else 0)"
  by (simp add: distinct_remove1_removeAll [symmetric] length_remove1)

lemma recent_hit:
  assumes "x \<in> set (recent n xs)"
  shows "recent n (xs @ [x]) = removeAll x (recent n xs) @ [x]"
proof -
  let ?r = "remdups xs"
  have x: "x \<in> set ?r" using assms by (auto simp: recent_def dest: in_set_dropD)
  then have "0 < length ?r" by (cases ?r) auto
  then have "length (remdups (xs @ [x])) = length ?r" unfolding remdups_snoc using length_removeAll_distinct [of ?r x] x by simp
  then show ?thesis
    using removeAll_drop [of ?r x "length ?r - n"] assms by (simp add: recent_def remdups_snoc)
qed

lemma recent_miss:
  assumes "x \<notin> set (recent n xs)"
  shows "recent n (xs @ [x]) = (let c = recent n xs @ [x] in drop (length c - n) c)"
proof -
  let ?r = "remdups xs"
  let ?k = "length ?r - n"
  define p where "p = take ?k ?r"
  define c where "c = drop ?k ?r"
  have r: "?r = p @ c" "length p = ?k" by (simp_all add: p_def c_def)
  have c: "recent n xs = c" "x \<notin> set c" using assms by (simp_all add: recent_def c_def)
  have "distinct p" using r(1) by (metis distinct_append distinct_remdups)
  then have lp: "length (removeAll x p) = length p - (if x \<in> set p then 1 else 0)" by (rule length_removeAll_distinct)
  have split: "remdups (xs @ [x]) = removeAll x p @ c @ [x]"
    unfolding remdups_snoc r(1) using c(2) by simp
  have len: "length c = min n (length ?r)" by (simp add: c_def)
  show ?thesis
  proof (cases "x \<in> set p")
    case True
    then have "0 < length p" by (cases p) auto
    then have "n < length ?r" using r(2) by simp
    then have n: "length c = n" using len by simp
    then have "length (removeAll x p @ c @ [x]) - n = Suc (length (removeAll x p))" by simp
    then have "recent n (xs @ [x]) = drop 1 (c @ [x])" unfolding recent_def split by simp
    then show ?thesis using n by (simp add: c(1))
  next
    case False
    then have "removeAll x p = p" by simp
    moreover have "drop (length (p @ c @ [x]) - n) (p @ c @ [x]) = drop (length (c @ [x]) - n) (c @ [x])"
    proof (cases "n \<le> length ?r")
      case True
      then show ?thesis using len r(2) by simp
    next
      case False
      then have "p = []" using r(2) by simp
      then show ?thesis by simp
    qed
    ultimately show ?thesis by (simp only: recent_def [of n "xs @ [x]"] split c(1) Let_def)
  qed
qed

lemma evict_oldest_drop: "0 \<le> m \<Longrightarrow> evict_oldest m c = Inr (drop (length c - nat m) c)"
proof (induction m c rule: evict_oldest.induct)
  case (2 m e c)
  then show ?case by (cases "int (length (e # c)) > m") (auto simp: Suc_diff_le nat_less_iff not_less le_nat_iff)
qed simp

datatype cache_cmd = AddMessage pyfloat string | CleanUp pyfloat

text \<open>A run of \<open>add\<close> and \<open>cleanup\<close>, with what \<open>add\<close> answers.\<close>

fun cache_run :: "cache_cmd list \<Rightarrow> message_cache \<Rightarrow> cache_error + (bool list \<times> message_cache)" where
  "cache_run [] mc = Inr ([], mc)"
| "cache_run (AddMessage now x # cs) mc =
     res_bind (cache_add now x mc) (\<lambda>(b, mc). res_bind (cache_run cs mc) (\<lambda>(bs, mc). Inr (b # bs, mc)))"
| "cache_run (CleanUp now # cs) mc = cache_run cs (cache_cleanup now mc)"

text \<open>What the cache promises: \<open>ys\<close> is the history of the messages, \<open>t i\<close> the time at which \<open>i\<close> was last reported
  as new.  A message is new when it is not among the \<open>n\<close> most recent ones; a cleanup forgets those of them that were
  reported as new longer than the time to live ago, and all older ones.\<close>

fun seen_run :: "nat \<Rightarrow> pyfloat \<Rightarrow> cache_cmd list \<Rightarrow> string list \<Rightarrow> (string \<Rightarrow> pyfloat) \<Rightarrow> bool list \<times> string list \<times> (string \<Rightarrow> pyfloat)" where
  "seen_run n ttl [] ys t = ([], ys, t)"
| "seen_run n ttl (AddMessage now x # cs) ys t =
     (if x \<in> set (recent n ys) then apfst (Cons False) (seen_run n ttl cs (ys @ [x]) t)
      else apfst (Cons True) (seen_run n ttl cs (ys @ [x]) (t(x := now))))"
| "seen_run n ttl (CleanUp now # cs) ys t = seen_run n ttl cs (filter (\<lambda>i. \<not> t i < fsub now ttl) (recent n ys)) t"

abbreviation dated :: "(string \<Rightarrow> pyfloat) \<Rightarrow> string list \<Rightarrow> (string, pyfloat) table" where
  "dated t is \<equiv> map (\<lambda>i. (i, t i)) is"

lemma map_of_dated: "map_of (dated t is) x = (if x \<in> set is then Some (t x) else None)"
  by (induction "is") auto

lemma delete_dated: "AList.delete x (dated t is) = dated t (removeAll x is)"
  by (induction "is") auto

lemma dated_other: "x \<notin> set is \<Longrightarrow> dated (t(x := now)) is = dated t is"
  by (rule map_cong) auto

lemma fold_delete: "fold AList.delete ks t = filter (\<lambda>(k, v). k \<notin> set ks) t"
  by (induction ks arbitrary: t) (auto simp: AList.delete_eq intro!: filter_cong)

lemma recent_id: "distinct xs \<Longrightarrow> length xs \<le> n \<Longrightarrow> recent n xs = xs"
  by (simp add: recent_def distinct_remdups_id)

lemma recent_distinct: "distinct (recent n xs) \<and> length (recent n xs) \<le> n"
  by (simp add: recent_def)

text \<open>The relation between the cache and the history.\<close>

definition caches :: "nat \<Rightarrow> pyfloat \<Rightarrow> string list \<Rightarrow> (string \<Rightarrow> pyfloat) \<Rightarrow> message_cache \<Rightarrow> bool" where
  "caches n ttl ys t mc \<longleftrightarrow> mc_max_size mc = int n \<and> mc_ttl_seconds mc = ttl \<and> mc_cache mc = dated t (recent n ys)"

lemma add_hit:
  assumes "caches n ttl ys t mc" and "x \<in> set (recent n ys)"
  shows "\<exists>mc'. cache_add now x mc = Inr (False, mc') \<and> caches n ttl (ys @ [x]) t mc'"
  using assms by (simp add: caches_def cache_add_def map_of_dated delete_dated recent_hit)

lemma add_miss:
  assumes "caches n ttl ys t mc" and x: "x \<notin> set (recent n ys)"
  shows "\<exists>mc'. cache_add now x mc = Inr (True, mc') \<and> caches n ttl (ys @ [x]) (t(x := now)) mc'"
proof -
  let ?r = "recent n ys"
  have "dated (t(x := now)) (recent n (ys @ [x])) = drop (length (?r @ [x]) - n) (dated (t(x := now)) (?r @ [x]))"
    by (simp only: recent_miss [OF x] Let_def drop_map)
  also have "dated (t(x := now)) (?r @ [x]) = dated t ?r @ [(x, now)]"
    using dated_other [OF x] by simp
  finally show ?thesis
    using assms by (simp add: caches_def cache_add_def map_of_dated evict_oldest_drop add_row_def)
qed

lemma cleanup_caches:
  assumes "caches n ttl ys t mc"
  shows "caches n ttl (filter (\<lambda>i. \<not> t i < fsub now ttl) (recent n ys)) t (cache_cleanup now mc)"
proof -
  let ?r = "recent n ys" and ?P = "\<lambda>i. \<not> t i < fsub now ttl"
  have "mc_cache (cache_cleanup now mc) = dated t (filter ?P ?r)"
    using assms by (auto simp: caches_def cache_cleanup_def Let_def fold_delete filter_map comp_def intro!: arg_cong [where f = "dated t"] filter_cong)
  moreover have "recent n (filter ?P ?r) = filter ?P ?r"
    using recent_distinct [of n ys] by (intro recent_id) (auto intro: order_trans [OF length_filter_le])
  ultimately show ?thesis using assms by (simp add: caches_def cache_cleanup_def Let_def)
qed

lemma cache_run_refines:
  assumes "caches n ttl ys t mc" and "seen_run n ttl cs ys t = (answers, ys', t')"
  shows "\<exists>mc'. cache_run cs mc = Inr (answers, mc') \<and> caches n ttl ys' t' mc'"
  using assms
proof (induction cs arbitrary: ys t mc answers)
  case (Cons c cs)
  show ?case
  proof (cases c)
    case (AddMessage now x)
    show ?thesis
    proof (cases "x \<in> set (recent n ys)")
      case True
      obtain mc1 where "cache_add now x mc = Inr (False, mc1)" "caches n ttl (ys @ [x]) t mc1"
        using add_hit [OF Cons.prems(1) True] by blast
      with Cons.IH [of "ys @ [x]" t mc1] Cons.prems(2) AddMessage True show ?thesis
        by (cases "seen_run n ttl cs (ys @ [x]) t") auto
    next
      case False
      obtain mc1 where "cache_add now x mc = Inr (True, mc1)" "caches n ttl (ys @ [x]) (t(x := now)) mc1"
        using add_miss [OF Cons.prems(1) False] by blast
      obtain bs where bs: "seen_run n ttl cs (ys @ [x]) (t(x := now)) = (bs, ys', t')" "answers = True # bs"
        using Cons.prems(2) AddMessage False by (cases "seen_run n ttl cs (ys @ [x]) (t(x := now))") auto
      from Cons.IH [OF \<open>caches n ttl (ys @ [x]) (t(x := now)) mc1\<close> bs(1)] show ?thesis
        using AddMessage \<open>cache_add now x mc = Inr (True, mc1)\<close> bs(2) by auto
    qed
  next
    case (CleanUp now)
    with Cons.IH [OF cleanup_caches [OF Cons.prems(1)]] Cons.prems(2) show ?thesis by simp
  qed
qed simp

text \<open>
  Claim C33.  The cache of a bus refines a history of the messages, cleanups included: for every sequence of messages and
  cleanups no call raises, a message is reported as new exactly when it is not among the max_size most recently seen
  different ones that no cleanup has forgotten, and those are exactly what the cache holds, least recent first, each with
  the time at which it was last reported as new; a cleanup forgets exactly those of them whose time is before its moment
  less the time to live.
\<close>

theorem cache_is_most_recent:
  "\<exists>answers ys t mc. seen_run n ttl cs [] (\<lambda>i. 0) = (answers, ys, t) \<and>
     cache_run cs (new_message_cache (int n) ttl) = Inr (answers, mc) \<and>
     mc_cache mc = map (\<lambda>i. (i, t i)) (recent n ys) \<and> length (mc_cache mc) \<le> n"
proof -
  obtain answers ys t where r: "seen_run n ttl cs [] (\<lambda>i. 0) = (answers, ys, t)"
    by (cases "seen_run n ttl cs [] (\<lambda>i. 0)") auto
  have "caches n ttl [] (\<lambda>i. 0) (new_message_cache (int n) ttl)"
    by (simp add: caches_def new_message_cache_def recent_def)
  from cache_run_refines [OF this r] obtain mc where
    "cache_run cs (new_message_cache (int n) ttl) = Inr (answers, mc)" "caches n ttl ys t mc" by blast
  with r recent_distinct [of n ys] show ?thesis by (auto simp: caches_def)
qed

text \<open>While no more than \<open>max_size\<close> different messages are seen, no envelope is handled twice.\<close>

lemma recent_all: "card (set xs) \<le> n \<Longrightarrow> set (recent n xs) = set xs"
  by (simp add: recent_def length_remdups_card_conv)

lemma evicted_message_is_new_again:
  "map_sum (\<lambda>e. e) fst (cache_run [AddMessage 1 ''a'', AddMessage 2 ''b'', AddMessage 3 ''c'', AddMessage 4 ''a'']
     (new_message_cache 2 300)) = Inr [True, True, True, True]"
  by code_simp

text \<open>An expired message is new again although it was seen, again and again, until the cleanup.\<close>

lemma expired_message_is_new_again:
  "map_sum (\<lambda>e. e) fst (cache_run [AddMessage 1 ''a'', AddMessage 301 ''a'', CleanUp 302, AddMessage 303 ''a'']
     (new_message_cache 2 300)) = Inr [True, False, True]"
  by code_simp

section \<open>The partition detector\<close>

datatype detector_cmd = RegisterPeer string pyfloat | PeerHeartbeat string pyfloat | Detect pyfloat

fun detector_step :: "detector_cmd \<Rightarrow> partition_detector \<Rightarrow> unit + partition_detector" where
  "detector_step (RegisterPeer p now) d = Inr (detector_register p now d)"
| "detector_step (PeerHeartbeat p now) d = Inr (detector_heartbeat p now d)"
| "detector_step (Detect now) d = Inr (snd (detect_partition now d))"

fun event_peer :: "partition_event \<Rightarrow> string" where
  "event_peer (OnPartition p) = p"
| "event_peer (OnHeal p) = p"

definition events_of :: "string \<Rightarrow> partition_detector \<Rightarrow> partition_event list" where
  "events_of p d = filter (\<lambda>e. event_peer e = p) (pd_events d)"

text \<open>The callbacks of a peer: partition and heal in turn.\<close>

fun in_turn :: "string \<Rightarrow> bool \<Rightarrow> partition_event list \<Rightarrow> bool \<Rightarrow> bool" where
  "in_turn p b [] c \<longleftrightarrow> b = c"
| "in_turn p b (e # es) c \<longleftrightarrow> e = (if b then OnHeal p else OnPartition p) \<and> in_turn p (\<not> b) es c"

lemma in_turn_snoc: "in_turn p b (es @ [e]) c \<longleftrightarrow> in_turn p b es (\<not> c) \<and> e = (if c then OnPartition p else OnHeal p)"
  by (induction es arbitrary: b) auto

definition detector_ok :: "partition_detector \<Rightarrow> bool" where
  "detector_ok d \<longleftrightarrow> keyed (pd_peers d) \<and> (\<forall>p \<in> set (pd_partitioned_peers d). has_key p (pd_peers d)) \<and>
     (\<forall>p s. map_of (pd_peers d) p = Some s \<longrightarrow> (ps_is_alive s \<longleftrightarrow> p \<notin> set (pd_partitioned_peers d))) \<and>
     (\<forall>p. in_turn p False (events_of p d) (p \<in> set (pd_partitioned_peers d)))"

lemma detector_okD: "detector_ok d \<Longrightarrow> in_turn p False (events_of p d) (p \<in> set (pd_partitioned_peers d))"
  by (simp add: detector_ok_def)

lemma detector_ok_check: "detector_ok d \<Longrightarrow> detector_ok (check_peer now p d)"
proof -
  assume ok: "detector_ok d"
  have "in_turn q False (events_of q (check_peer now p d)) (q \<in> set (pd_partitioned_peers (check_peer now p d)))" for q
    using detector_okD [OF ok, of q] by (cases "q = p") (auto simp: check_peer_def events_of_def in_turn_snoc split: option.splits)
  with ok show ?thesis unfolding detector_ok_def by (auto simp: check_peer_def has_key_def split: option.splits if_splits)
qed

lemma detector_ok_detect: "detector_ok d \<Longrightarrow> detector_ok (snd (detect_partition now d))"
proof -
  have "detector_ok (fold (check_peer now) ps d)" if "detector_ok d" for ps
    using that by (induction ps arbitrary: d) (auto simp: detector_ok_check)
  then show "detector_ok d \<Longrightarrow> ?thesis" by (simp add: detect_partition_def Let_def)
qed

lemma detector_ok_register: "detector_ok d \<Longrightarrow> detector_ok (detector_register p now d)"
  unfolding detector_ok_def by (auto simp: detector_register_def events_of_def has_key_def split: option.splits if_splits)

lemma detector_ok_heartbeat: "detector_ok d \<Longrightarrow> detector_ok (detector_heartbeat p now d)"
proof -
  assume ok: "detector_ok d"
  have "in_turn q False (events_of q (detector_heartbeat p now d)) (q \<in> set (pd_partitioned_peers (detector_heartbeat p now d)))" for q
    using detector_okD [OF ok, of q] by (cases "q = p") (auto simp: detector_heartbeat_def events_of_def in_turn_snoc Let_def)
  with ok show ?thesis unfolding detector_ok_def by (auto simp: detector_heartbeat_def Let_def split: if_splits)
qed

interpretation detector: guarded_machine detector_step detector_ok
proof
  fix s c s'
  assume "detector_ok s" "detector_step c s = Inr s'"
  then show "detector_ok s'"
    by (cases c) (auto simp: detector_ok_detect detector_ok_register detector_ok_heartbeat)
qed

lemma check_peer_frame:
  "pd_timeout (check_peer now p d) = pd_timeout d"
  "q \<noteq> p \<Longrightarrow> map_of (pd_peers (check_peer now p d)) q = map_of (pd_peers d) q"
  "q \<noteq> p \<Longrightarrow> q \<in> set (pd_partitioned_peers (check_peer now p d)) \<longleftrightarrow> q \<in> set (pd_partitioned_peers d)"
  by (auto simp: check_peer_def split: option.splits)

lemma check_all_partitioned:
  "distinct ps \<Longrightarrow> q \<in> set (pd_partitioned_peers (fold (check_peer now) ps d)) \<longleftrightarrow>
    q \<in> set (pd_partitioned_peers d) \<or>
    q \<in> set ps \<and> (\<exists>s. map_of (pd_peers d) q = Some s \<and> pd_timeout d < fsub now (ps_last_heartbeat s))"
proof (induction ps arbitrary: d)
  case (Cons p ps)
  have "q \<in> set (pd_partitioned_peers (fold (check_peer now) ps (check_peer now p d))) \<longleftrightarrow>
    q \<in> set (pd_partitioned_peers (check_peer now p d)) \<or>
    q \<in> set ps \<and> (\<exists>s. map_of (pd_peers (check_peer now p d)) q = Some s \<and>
      pd_timeout (check_peer now p d) < fsub now (ps_last_heartbeat s))"
    using Cons.prems by (intro Cons.IH) simp
  then show ?case
  proof (cases "q = p")
    case True
    then show ?thesis using Cons.prems Cons.IH [of "check_peer now p d"] by (auto simp: check_peer_def split: option.splits)
  next
    case False
    with Cons.prems Cons.IH [of "check_peer now p d"] show ?thesis by (simp add: check_peer_frame)
  qed
qed simp

text \<open>
  Claim C34.  In every state the detector reaches, detection at time \<open>now\<close> leaves partitioned exactly the peers that were,
  and the registered ones whose last heartbeat is older than the timeout; exactly the others are alive; and the callbacks
  of every peer are partition and heal in turn, starting with partition and ending as the peer is.
\<close>

theorem partition_detection_exact:
  "let d = run_cmds detector_step cs (new_detector interval threshold); (found, d') = detect_partition now d in
   set (pd_partitioned_peers d') = set (pd_partitioned_peers d) \<union>
     {p. \<exists>s. map_of (pd_peers d) p = Some s \<and> fmul interval (to_float threshold) < fsub now (ps_last_heartbeat s)} \<and>
   set found = set (pd_partitioned_peers d') - set (pd_partitioned_peers d) \<and>
   set (get_alive_peers d') = set (keys (pd_peers d')) - set (pd_partitioned_peers d') \<and>
   in_turn p False (events_of p d') (p \<in> set (pd_partitioned_peers d'))"
proof -
  define d where "d = run_cmds detector_step cs (new_detector interval threshold)"
  define d' where "d' = snd (detect_partition now d)"
  have "detector_ok (new_detector interval threshold)" by (simp add: detector_ok_def new_detector_def events_of_def)
  then have ok: "detector_ok d" unfolding d_def by (rule detector.run_inv)
  then have ok': "detector_ok d'" unfolding d'_def by (rule detector_ok_detect)
  have timeout: "pd_timeout (run_cmds detector_step cs d0) = pd_timeout d0" for d0
  proof (induction cs arbitrary: d0)
    case (Cons c cs)
    have f: "pd_timeout (fold (check_peer t) ps e) = pd_timeout e" for t ps e
      by (induction ps arbitrary: e) (simp_all add: check_peer_frame)
    have "pd_timeout (attempt detector_step c d0) = pd_timeout d0"
      by (cases c) (auto simp: attempt_def detector_register_def detector_heartbeat_def detect_partition_def f Let_def)
    with Cons show ?case by simp
  qed simp
  have t: "pd_timeout d = fmul interval (to_float threshold)" unfolding d_def timeout by (simp add: new_detector_def)
  have "distinct (keys (pd_peers d))" using ok by (simp add: detector_ok_def keyed_def)
  from check_all_partitioned [OF this]
  have part: "set (pd_partitioned_peers d') = set (pd_partitioned_peers d) \<union>
     {p. \<exists>s. map_of (pd_peers d) p = Some s \<and> fmul interval (to_float threshold) < fsub now (ps_last_heartbeat s)}"
    by (auto simp: d'_def detect_partition_def t Let_def dest: map_of_SomeD) (force dest: map_of_SomeD)
  have "set (get_alive_peers d') = {p. \<exists>s. map_of (pd_peers d') p = Some s \<and> ps_is_alive s}"
  proof -
    have "q \<in> set (get_alive_peers d') \<longleftrightarrow> (\<exists>s. (q, s) \<in> set (pd_peers d') \<and> ps_is_alive s)" for q
      by (force simp: get_alive_peers_def)
    moreover have "keyed (pd_peers d')" using ok' by (simp add: detector_ok_def)
    ultimately show ?thesis by (simp add: keyed_map_of set_eq_iff)
  qed
  also have "\<dots> = set (keys (pd_peers d')) - set (pd_partitioned_peers d')"
  proof -
    have k: "q \<in> set (keys t) \<longleftrightarrow> (\<exists>s. map_of t q = Some s)" for q and t :: "(string, peer_status) table"
      unfolding has_key_iff [symmetric] has_key_def by blast
    have "(\<exists>s. map_of (pd_peers d') q = Some s \<and> ps_is_alive s) \<longleftrightarrow>
        (\<exists>s. map_of (pd_peers d') q = Some s) \<and> q \<notin> set (pd_partitioned_peers d')" for q
      using ok' by (auto simp: detector_ok_def)
    then show ?thesis unfolding set_eq_iff Diff_iff mem_Collect_eq k by blast
  qed
  finally have alive: "set (get_alive_peers d') = set (keys (pd_peers d')) - set (pd_partitioned_peers d')" .
  have found: "set (fst (detect_partition now d)) = set (pd_partitioned_peers d') - set (pd_partitioned_peers d)"
    by (auto simp: d'_def detect_partition_def Let_def)
  show ?thesis
    unfolding Let_def d_def [symmetric] case_prod_beta d'_def [symmetric]
    by (intro conjI part found alive detector_okD [OF ok'])
qed

end
