(* ===== verification/Peers.thy ===== *)
theory Peers
  imports Tables PyFloat
begin

text \<open>
  The reputation of peers (\<open>p2p/peer_reputation.py\<close>) and the pool of connections (\<open>p2p/connection_pool.py\<close>), which may
  hold a reference to the reputation: it is an argument of the pool's operations.  Readings of \<open>time.time()\<close> are
  arguments; where one call reads the clock for every connection, \<open>clock i\<close> is the reading for the \<open>i\<close>-th one.
\<close>

section \<open>Peer reputation\<close>

record peer_stats =
  st_messages_delivered :: int
  st_messages_failed :: int
  st_total_latency_ms :: pyfloat
  st_latency_samples :: int
  st_last_seen :: pyfloat
  st_first_seen :: pyfloat
  st_blacklisted :: bool

record peer_reputation =
  rp_blacklist_threshold :: pyfloat
  rp_peers :: "(string, peer_stats) table"
  rp_blacklist :: "string set"

definition BLACKLIST_THRESHOLD :: pyfloat where "BLACKLIST_THRESHOLD = rnd (3 / 10)"
definition GOOD_LATENCY_MS :: pyfloat where "GOOD_LATENCY_MS = 100"
definition BAD_LATENCY_MS :: pyfloat where "BAD_LATENCY_MS = 1000"

definition new_peer_reputation :: "pyfloat \<Rightarrow> peer_reputation" where
  "new_peer_reputation blacklist_threshold = \<lparr>rp_blacklist_threshold = blacklist_threshold, rp_peers = [], rp_blacklist = {}\<rparr>"

definition new_peer_stats :: "pyfloat \<Rightarrow> pyfloat \<Rightarrow> peer_stats" where
  "new_peer_stats seen first = \<lparr>st_messages_delivered = 0, st_messages_failed = 0, st_total_latency_ms = 0,
     st_latency_samples = 0, st_last_seen = seen, st_first_seen = first, st_blacklisted = False\<rparr>"

definition get_reliability :: "peer_stats \<Rightarrow> pyfloat" where
  "get_reliability s =
     (let total = st_messages_delivered s + st_messages_failed s
      in if total = 0 then 1 / 2 else fdiv (to_float (st_messages_delivered s)) (to_float total))"

definition get_avg_latency_ms :: "peer_stats \<Rightarrow> pyfloat" where
  "get_avg_latency_ms s =
     (if st_latency_samples s = 0 then 0 else fdiv (st_total_latency_ms s) (to_float (st_latency_samples s)))"

definition latency_score :: "pyfloat \<Rightarrow> pyfloat" where
  "latency_score avg_latency =
     (if avg_latency = 0 then rnd (3 / 10)
      else if avg_latency \<le> GOOD_LATENCY_MS then rnd (3 / 10)
      else if avg_latency \<ge> BAD_LATENCY_MS then 0
      else let ratio = fdiv (fsub BAD_LATENCY_MS avg_latency) (fsub BAD_LATENCY_MS GOOD_LATENCY_MS) in fmul ratio (rnd (3 / 10)))"

definition peer_score :: "string \<Rightarrow> peer_reputation \<Rightarrow> pyfloat" where
  "peer_score peer_id r =
     (case map_of (rp_peers r) peer_id of
        None \<Rightarrow> 1 / 2
      | Some stats \<Rightarrow>
          let reliability_score = fmul (get_reliability stats) (rnd (7 / 10));
              total_score = fadd reliability_score (latency_score (get_avg_latency_ms stats))
          in max 0 (min 1 total_score))"

definition change_stats :: "string \<Rightarrow> (peer_stats \<Rightarrow> peer_stats) \<Rightarrow> peer_reputation \<Rightarrow> peer_reputation" where
  "change_stats peer_id f r = r\<lparr>rp_peers := update_row peer_id f (rp_peers r)\<rparr>"

definition get_or_create_stats :: "string \<Rightarrow> pyfloat \<Rightarrow> peer_reputation \<Rightarrow> peer_reputation" where
  "get_or_create_stats peer_id now r =
     (if has_key peer_id (rp_peers r) then r else r\<lparr>rp_peers := add_row peer_id (new_peer_stats now now) (rp_peers r)\<rparr>)"

definition record_message_delivered :: "string \<Rightarrow> pyfloat option \<Rightarrow> pyfloat \<Rightarrow> peer_reputation \<Rightarrow> peer_reputation" where
  "record_message_delivered peer_id latency_ms now r =
     (let r = get_or_create_stats peer_id now r;
          r = change_stats peer_id (\<lambda>s. s\<lparr>st_messages_delivered := st_messages_delivered s + 1, st_last_seen := now\<rparr>) r;
          r = (case latency_ms of None \<Rightarrow> r
               | Some l \<Rightarrow> change_stats peer_id (\<lambda>s. s\<lparr>st_total_latency_ms := fadd (st_total_latency_ms s) l,
                   st_latency_samples := st_latency_samples s + 1\<rparr>) r)
      in if peer_id \<in> rp_blacklist r \<and> peer_score peer_id r > fadd (rp_blacklist_threshold r) (rnd (1 / 10))
         then change_stats peer_id (\<lambda>s. s\<lparr>st_blacklisted := False\<rparr>) (r\<lparr>rp_blacklist := rp_blacklist r - {peer_id}\<rparr>)
         else r)"

definition record_message_failed :: "string \<Rightarrow> pyfloat \<Rightarrow> peer_reputation \<Rightarrow> peer_reputation" where
  "record_message_failed peer_id now r =
     (let r = get_or_create_stats peer_id now r;
          r = change_stats peer_id (\<lambda>s. s\<lparr>st_messages_failed := st_messages_failed s + 1, st_last_seen := now\<rparr>) r;
          score = peer_score peer_id r
      in if score < rp_blacklist_threshold r \<and> peer_id \<notin> rp_blacklist r
         then change_stats peer_id (\<lambda>s. s\<lparr>st_blacklisted := True\<rparr>) (r\<lparr>rp_blacklist := insert peer_id (rp_blacklist r)\<rparr>)
         else r)"

text \<open>Slices \<open>xs[:count]\<close> with a negative \<open>count\<close> drop from the end.\<close>

definition py_take :: "int \<Rightarrow> 'a list \<Rightarrow> 'a list" where
  "py_take count xs = (if 0 \<le> count then take (nat count) xs else take (length xs - nat (- count)) xs)"

definition get_best_peers :: "int \<Rightarrow> peer_reputation \<Rightarrow> string list" where
  "get_best_peers count r =
     py_take count (sort_key (\<lambda>p. - peer_score p r) (filter (\<lambda>p. p \<notin> rp_blacklist r) (keys (rp_peers r))))"

definition get_worst_peers :: "int \<Rightarrow> peer_reputation \<Rightarrow> string list" where
  "get_worst_peers count r = py_take count (sort_key (\<lambda>p. peer_score p r) (keys (rp_peers r)))"

section \<open>The pool of connections\<close>

record connection =
  cn_host :: string
  cn_port :: int
  cn_connected_at :: pyfloat
  cn_last_activity :: pyfloat
  cn_is_active :: bool

record connection_pool =
  cp_max_connections :: int
  cp_connection_timeout :: int
  cp_target_peer_count :: int
  cp_connections :: "(string, connection) table"

definition new_connection_pool :: "int \<Rightarrow> int \<Rightarrow> int \<Rightarrow> connection_pool" where
  "new_connection_pool max_connections connection_timeout target_peer_count =
     \<lparr>cp_max_connections = max_connections, cp_connection_timeout = connection_timeout,
      cp_target_peer_count = target_peer_count, cp_connections = []\<rparr>"

definition close_connection :: "string \<Rightarrow> connection_pool \<Rightarrow> bool \<times> connection_pool" where
  "close_connection peer_id p =
     (if \<not> has_key peer_id (cp_connections p) then (False, p)
      else (True, p\<lparr>cp_connections := AList.delete peer_id (cp_connections p)\<rparr>))"

text \<open>The connections with their idle times, in the order of the dictionary.\<close>

definition idle_connections :: "(nat \<Rightarrow> pyfloat) \<Rightarrow> connection_pool \<Rightarrow> (string \<times> pyfloat) list" where
  "idle_connections clock p = map (\<lambda>(i, (peer_id, c)). (peer_id, fsub (clock i) (cn_last_activity c))) (enumerate 0 (cp_connections p))"

definition evict_connection :: "(nat \<Rightarrow> pyfloat) \<Rightarrow> peer_reputation option \<Rightarrow> connection_pool \<Rightarrow> bool \<times> connection_pool" where
  "evict_connection clock reputation p =
     (if cp_connections p = [] then (False, p)
      else case (case reputation of None \<Rightarrow> [] | Some r \<Rightarrow> filter (\<lambda>w. has_key w (cp_connections p)) (get_worst_peers 1 r)) of
             w # _ \<Rightarrow> (True, snd (close_connection w p))
           | [] \<Rightarrow>
               (case sort_key (\<lambda>x. - snd x) (idle_connections clock p) of
                  [] \<Rightarrow> (False, p)
                | (oldest_peer, _) # _ \<Rightarrow> (True, snd (close_connection oldest_peer p))))"

definition add_connection ::
  "(nat \<Rightarrow> pyfloat) \<Rightarrow> peer_reputation option \<Rightarrow> string \<Rightarrow> string \<Rightarrow> int \<Rightarrow> pyfloat \<Rightarrow> connection_pool
     \<Rightarrow> connection option \<times> connection_pool" where
  "add_connection clock reputation peer_id host port now p =
     (case map_of (cp_connections p) peer_id of
        Some c \<Rightarrow> (Some c, p)
      | None \<Rightarrow>
          if (case reputation of None \<Rightarrow> False | Some r \<Rightarrow> peer_id \<in> rp_blacklist r) then (None, p)
          else let (room, p) = (if int (length (cp_connections p)) \<ge> cp_max_connections p
                                then evict_connection clock reputation p else (True, p)) in
            if \<not> room then (None, p)
            else let c = \<lparr>cn_host = host, cn_port = port, cn_connected_at = now, cn_last_activity = now, cn_is_active = True\<rparr>
                 in (Some c, p\<lparr>cp_connections := add_row peer_id c (cp_connections p)\<rparr>))"

definition get_connection :: "string \<Rightarrow> pyfloat \<Rightarrow> connection_pool \<Rightarrow> connection option \<times> connection_pool" where
  "get_connection peer_id now p =
     (case map_of (cp_connections p) peer_id of
        None \<Rightarrow> (None, p)
      | Some c \<Rightarrow>
          if cn_is_active c
          then (Some (c\<lparr>cn_last_activity := now\<rparr>),
                p\<lparr>cp_connections := update_row peer_id (\<lambda>c. c\<lparr>cn_last_activity := now\<rparr>) (cp_connections p)\<rparr>)
          else (None, p))"

definition remove_timed_out :: "(nat \<Rightarrow> pyfloat) \<Rightarrow> connection_pool \<Rightarrow> connection_pool" where
  "remove_timed_out clock p =
     (let timed_out = map fst (filter (\<lambda>(peer_id, idle_time). idle_time > of_int (cp_connection_timeout p)) (idle_connections clock p))
      in fold (\<lambda>peer_id p. snd (close_connection peer_id p)) timed_out p)"

definition rotate_low_quality :: "peer_reputation \<Rightarrow> connection_pool \<Rightarrow> connection_pool" where
  "rotate_low_quality r p =
     (if int (length (cp_connections p)) \<le> cp_target_peer_count p then p
      else case sort_key (\<lambda>w. peer_score w r) (keys (cp_connections p)) of
             [] \<Rightarrow> p
           | w # _ \<Rightarrow> if peer_score w r < 1 / 2 then snd (close_connection w p) else p)"

definition maintain_connections :: "(nat \<Rightarrow> pyfloat) \<Rightarrow> peer_reputation option \<Rightarrow> connection_pool \<Rightarrow> connection_pool" where
  "maintain_connections clock reputation p =
     (let p = remove_timed_out clock p in case reputation of None \<Rightarrow> p | Some r \<Rightarrow> rotate_low_quality r p)"

end
