(* ===== verification/PeerProps.thy ===== *)
theory PeerProps
  imports Peers
begin

text \<open>
  Correctness of peers: what the score of a peer is made of and whom it can blacklist, and the bound on connections with
  the exact cases in which a connection is refused.
\<close>

section \<open>Reputation\<close>

datatype reputation_cmd = Delivered string "pyfloat option" pyfloat | Failed string pyfloat

fun reputation_step :: "reputation_cmd \<Rightarrow> peer_reputation \<Rightarrow> unit + peer_reputation" where
  "reputation_step (Delivered p l now) r = Inr (record_message_delivered p l now r)"
| "reputation_step (Failed p now) r = Inr (record_message_failed p now r)"

lemma peer_score_range: "0 \<le> peer_score p r \<and> peer_score p r \<le> 1"
  by (simp add: peer_score_def Let_def split: option.splits)

text \<open>No delivery of \<open>p\<close> comes with a latency.\<close>

fun without_latency :: "string \<Rightarrow> reputation_cmd \<Rightarrow> bool" where
  "without_latency p (Delivered q l now) \<longleftrightarrow> q = p \<longrightarrow> l = None"
| "without_latency p (Failed q now) \<longleftrightarrow> True"

definition unsampled :: "string \<Rightarrow> peer_reputation \<Rightarrow> bool" where
  "unsampled p r \<longleftrightarrow> (\<forall>s. map_of (rp_peers r) p = Some s \<longrightarrow>
     st_latency_samples s = 0 \<and> 0 \<le> st_messages_delivered s \<and> 0 \<le> st_messages_failed s)"

lemma to_float_nonneg: "0 \<le> n \<Longrightarrow> 0 \<le> to_float n"
  by (simp add: to_float_def rnd_nonneg)

lemma unsampled_score: "unsampled p r \<Longrightarrow> BLACKLIST_THRESHOLD \<le> peer_score p r"
proof -
  assume u: "unsampled p r"
  have third: "0 \<le> rnd (3 / 10)" "rnd (3 / 10) \<le> 1" by (rule rnd_nonneg) (use rnd_le_int [of "3 / 10" 1] in simp_all)
  have half: "rnd (3 / 10) \<le> 1 / 2" using rnd_mono [of "3 / 10" "1 / 2"] rnd_half [of 1] by simp
  show ?thesis
  proof (cases "map_of (rp_peers r) p")
    case None
    then show ?thesis using half by (simp add: peer_score_def BLACKLIST_THRESHOLD_def)
  next
    case (Some s)
    define x where "x = fmul (get_reliability s) (rnd (7 / 10))"
    have s: "st_latency_samples s = 0" "0 \<le> st_messages_delivered s" "0 \<le> st_messages_failed s" using u Some by (auto simp: unsampled_def)
    have "0 \<le> get_reliability s"
      using s by (auto simp: get_reliability_def fdiv_def Let_def intro!: rnd_nonneg divide_nonneg_nonneg to_float_nonneg)
    moreover have "0 \<le> rnd (7 / 10)" by (simp add: rnd_nonneg)
    ultimately have "0 \<le> x" by (simp add: x_def fmul_def rnd_nonneg)
    have again: "rnd (rnd (3 / 10)) = rnd (3 / 10)" by code_simp
    have "rnd (rnd (3 / 10)) \<le> rnd (x + rnd (3 / 10))" using \<open>0 \<le> x\<close> by (intro rnd_mono) simp
    then have "rnd (3 / 10) \<le> fadd x (rnd (3 / 10))" by (simp only: again fadd_def)
    moreover have "get_avg_latency_ms s = 0" using s(1) by (simp add: get_avg_latency_ms_def)
    ultimately show ?thesis
      using third by (simp add: peer_score_def Some x_def [symmetric] latency_score_def BLACKLIST_THRESHOLD_def Let_def)
  qed
qed

definition spared :: "string \<Rightarrow> peer_reputation \<Rightarrow> bool" where
  "spared p r \<longleftrightarrow> unsampled p r \<and> p \<notin> rp_blacklist r \<and> rp_blacklist_threshold r = BLACKLIST_THRESHOLD"

lemma spared_created: "spared p r \<Longrightarrow> spared p (get_or_create_stats q now r)"
  by (auto simp: spared_def unsampled_def get_or_create_stats_def new_peer_stats_def has_key_def split: option.splits if_splits)

lemma spared_change:
  assumes "spared p r" and "q = p \<Longrightarrow> (\<And>s. st_latency_samples (f s) = st_latency_samples s \<and>
    st_messages_delivered s \<le> st_messages_delivered (f s) \<and> st_messages_failed s \<le> st_messages_failed (f s))"
  shows "spared p (change_stats q f r)"
  using assms(1) assms(2) by (auto simp: spared_def unsampled_def change_stats_def) (metis order_trans)+

lemma spared_step:
  assumes "spared p r" and "without_latency p c" and "reputation_step c r = Inr r'"
  shows "spared p r'"
proof (cases c)
  case (Delivered q l now)
  let ?r = "case l of None \<Rightarrow> change_stats q (\<lambda>s. s\<lparr>st_messages_delivered := st_messages_delivered s + 1, st_last_seen := now\<rparr>) (get_or_create_stats q now r)
     | Some l \<Rightarrow> change_stats q (\<lambda>s. s\<lparr>st_total_latency_ms := fadd (st_total_latency_ms s) l, st_latency_samples := st_latency_samples s + 1\<rparr>)
         (change_stats q (\<lambda>s. s\<lparr>st_messages_delivered := st_messages_delivered s + 1, st_last_seen := now\<rparr>) (get_or_create_stats q now r))"
  have r: "spared p ?r" using assms(1,2) Delivered
    by (auto intro!: spared_change spared_created split: option.splits)
  then have "spared p (?r\<lparr>rp_blacklist := rp_blacklist ?r - {q}\<rparr>)" by (auto simp: spared_def unsampled_def)
  then have "spared p (change_stats q (\<lambda>s. s\<lparr>st_blacklisted := False\<rparr>) (?r\<lparr>rp_blacklist := rp_blacklist ?r - {q}\<rparr>))"
    by (intro spared_change) auto
  with r show ?thesis using assms(3) by (auto simp: Delivered record_message_delivered_def Let_def split: if_splits)
next
  case (Failed q now)
  let ?r = "change_stats q (\<lambda>s. s\<lparr>st_messages_failed := st_messages_failed s + 1, st_last_seen := now\<rparr>) (get_or_create_stats q now r)"
  have r: "spared p ?r" using assms(1) by (intro spared_change spared_created) auto
  have "spared p (?r\<lparr>rp_blacklist := insert q (rp_blacklist ?r)\<rparr>)" if "peer_score q ?r < rp_blacklist_threshold ?r"
  proof -
    have "q \<noteq> p" using that unsampled_score [of p ?r] r by (auto simp: spared_def)
    with r show ?thesis by (auto simp: spared_def unsampled_def)
  qed
  then have "spared p (change_stats q (\<lambda>s. s\<lparr>st_blacklisted := True\<rparr>) (?r\<lparr>rp_blacklist := insert q (rp_blacklist ?r)\<rparr>))"
    if "peer_score q ?r < rp_blacklist_threshold ?r"
    using that by (intro spared_change) auto
  with r show ?thesis using assms(3) by (auto simp: Failed record_message_failed_def Let_def split: if_splits)
qed

text \<open>
  With the default threshold a peer is never blacklisted for failing: as long as no delivery of it came with a
  latency, it is not on the blacklist after any number of failures, since the full latency component alone is the
  threshold.
\<close>

theorem failing_peer_never_blacklisted:
  assumes "list_all (without_latency p) cs"
  shows "p \<notin> rp_blacklist (run_cmds reputation_step cs (new_peer_reputation BLACKLIST_THRESHOLD)) \<and>
    BLACKLIST_THRESHOLD \<le> peer_score p (run_cmds reputation_step cs (new_peer_reputation BLACKLIST_THRESHOLD))"
proof -
  have "spared p (run_cmds reputation_step cs r)" if "spared p r" for r
    using assms that
  proof (induction cs arbitrary: r)
    case (Cons c cs)
    have "spared p (attempt reputation_step c r)"
      using Cons.prems spared_step [of p r c] by (cases c) (auto simp: attempt_def)
    with Cons show ?case by simp
  qed simp
  moreover have "spared p (new_peer_reputation BLACKLIST_THRESHOLD)" by (simp add: spared_def unsampled_def new_peer_reputation_def)
  ultimately have "spared p (run_cmds reputation_step cs (new_peer_reputation BLACKLIST_THRESHOLD))" by blast
  then show ?thesis using unsampled_score by (simp add: spared_def)
qed

lemma failing_peer_never_blacklisted_witness:
  "''p'' \<notin> rp_blacklist (run_cmds reputation_step [Failed ''p'' 1, Failed ''p'' 2, Failed ''p'' 3, Failed ''p'' 4]
     (new_peer_reputation BLACKLIST_THRESHOLD))"
  using failing_peer_never_blacklisted [of "''p''" "[Failed ''p'' 1, Failed ''p'' 2, Failed ''p'' 3, Failed ''p'' 4]"] by simp

text \<open>A slow peer is blacklisted at its first failures.\<close>

lemma slow_peer_blacklisted:
  "''p'' \<in> rp_blacklist (run_cmds reputation_step [Delivered ''p'' (Some 2000) 1, Failed ''p'' 2, Failed ''p'' 3]
     (new_peer_reputation BLACKLIST_THRESHOLD))"
  by code_simp

section \<open>Connections\<close>

definition pool_fits :: "connection_pool \<Rightarrow> bool" where
  "pool_fits p \<longleftrightarrow> keyed (cp_connections p) \<and> int (length (cp_connections p)) \<le> max 0 (cp_max_connections p) \<and>
     (\<forall>i c. map_of (cp_connections p) i = Some c \<longrightarrow> cn_is_active c)"

lemma length_update_row: "length (update_row k f t) = length t"
  by (simp add: update_row_def)

lemma length_delete: "keyed t \<Longrightarrow> length (AList.delete k t) = length t - (if has_key k t then 1 else 0)"
proof (induction t)
  case (Cons x t)
  then have k: "keyed t" "fst x \<notin> set (keys t)" by (simp_all add: keyed_def)
  show ?case
  proof (cases "fst x = k")
    case True
    then have "\<not> has_key k t" using k(2) by (simp add: has_key_iff)
    with Cons.IH [OF k(1)] True show ?thesis by (cases x) (simp add: has_key_def)
  next
    case False
    then have "has_key k (x # t) = has_key k t" by (cases x) (simp add: has_key_def)
    moreover have "has_key k t \<Longrightarrow> 0 < length t" by (cases t) (simp_all add: has_key_def)
    ultimately show ?thesis using Cons.IH [OF k(1)] False by (cases x) (auto simp: Suc_diff_le)
  qed
qed (simp add: has_key_def)

lemma close_fits: "pool_fits p \<Longrightarrow> pool_fits (snd (close_connection i p))"
  using length_delete [of "cp_connections p" i] by (auto simp: close_connection_def pool_fits_def split: if_splits)

lemma close_frame [simp]: "cp_max_connections (snd (close_connection i p)) = cp_max_connections p"
  by (simp add: close_connection_def)

lemma idle_keys [simp]: "map fst (idle_connections clock p) = keys (cp_connections p)"
proof -
  have "map (\<lambda>x. fst (snd x)) (enumerate n t) = keys t" for n and t :: "(string, connection) table"
    by (induction t arbitrary: n) auto
  from this [of 0] show ?thesis by (simp add: idle_connections_def comp_def case_prod_beta)
qed

lemma evict_room:
  assumes "keyed (cp_connections p)"
  shows "evict_connection clock reputation p = (False, p) \<and> cp_connections p = [] \<or>
    (\<exists>i. has_key i (cp_connections p) \<and> evict_connection clock reputation p = (True, snd (close_connection i p)))"
proof (cases "cp_connections p = []")
  case True
  then show ?thesis by (simp add: evict_connection_def)
next
  case False
  define ws where "ws = (case reputation of None \<Rightarrow> [] | Some r \<Rightarrow> filter (\<lambda>w. has_key w (cp_connections p)) (get_worst_peers 1 r))"
  show ?thesis
  proof (cases ws)
    case (Cons w ws')
    then have "w \<in> set ws" by simp
    then have "has_key w (cp_connections p)" by (auto simp: ws_def split: option.splits)
    moreover have "evict_connection clock reputation p = (True, snd (close_connection w p))"
      using False Cons by (simp add: evict_connection_def ws_def [symmetric])
    ultimately show ?thesis by blast
  next
    case Nil
    have "sort_key (\<lambda>x. - snd x) (idle_connections clock p) \<noteq> []"
      using False idle_keys [of clock p] by (metis length_0_conv length_map length_sort)
    then obtain o' d rest where s: "sort_key (\<lambda>x. - snd x) (idle_connections clock p) = (o', d) # rest" by (metis list.exhaust surj_pair)
    then have "(o', d) \<in> set (idle_connections clock p)" by (metis list.set_intros(1) set_sort)
    then have "o' \<in> set (map fst (idle_connections clock p))" by (force simp del: idle_keys)
    then have "o' \<in> set (keys (cp_connections p))" by (simp only: idle_keys)
    moreover have "evict_connection clock reputation p = (True, snd (close_connection o' p))"
      using False Nil s by (simp add: evict_connection_def ws_def [symmetric])
    ultimately show ?thesis by (auto simp: has_key_iff)
  qed
qed

datatype pool_request =
    Connect "nat \<Rightarrow> pyfloat" "peer_reputation option" string string int pyfloat
  | Lookup string pyfloat
  | CloseConn string
  | Maintain "nat \<Rightarrow> pyfloat" "peer_reputation option"

fun pool_serve :: "pool_request \<Rightarrow> connection_pool \<Rightarrow> unit + connection_pool" where
  "pool_serve (Connect clock rep i host port now) p = Inr (snd (add_connection clock rep i host port now p))"
| "pool_serve (Lookup i now) p = Inr (snd (get_connection i now p))"
| "pool_serve (CloseConn i) p = Inr (snd (close_connection i p))"
| "pool_serve (Maintain clock rep) p = Inr (maintain_connections clock rep p)"

lemma add_row_fits:
  assumes "pool_fits p" and "\<not> has_key i (cp_connections p)" and "int (length (cp_connections p)) < cp_max_connections p" and "cn_is_active c"
  shows "pool_fits (p\<lparr>cp_connections := add_row i c (cp_connections p)\<rparr>)"
  using assms by (auto simp: pool_fits_def add_row_def [of i c "cp_connections p", THEN arg_cong [of _ _ length]] split: option.splits if_splits)

lemma add_connection_cases:
  assumes "pool_fits p" and "\<not> has_key i (cp_connections p)" and "\<not> (case rep of None \<Rightarrow> False | Some r \<Rightarrow> i \<in> rp_blacklist r)"
  shows "if cp_max_connections p \<le> 0 then add_connection clock rep i host port now p = (None, p)
    else \<exists>c p'. add_connection clock rep i host port now p = (Some c, p') \<and> pool_fits p' \<and> has_key i (cp_connections p')"
proof -
  let ?n = "int (length (cp_connections p))"
  have none: "map_of (cp_connections p) i = None" using assms(2) by (simp add: has_key_def)
  have k: "keyed (cp_connections p)" and le: "?n \<le> max 0 (cp_max_connections p)" using assms(1) by (simp_all add: pool_fits_def)
  consider (full) "cp_max_connections p \<le> 0" | (room) "?n < cp_max_connections p" | (evict) "?n = cp_max_connections p" "0 < cp_max_connections p"
    using le by linarith
  then show ?thesis
  proof cases
    case full
    then have "cp_connections p = []" using le by simp
    with full none assms(3) show ?thesis by (auto simp: add_connection_def evict_connection_def split: option.splits)
  next
    case room
    with none assms(3) add_row_fits [OF assms(1,2) room] show ?thesis
      by (auto simp: add_connection_def Let_def split: option.splits)
  next
    case evict
    then have "cp_connections p \<noteq> []" by auto
    then obtain j where j: "has_key j (cp_connections p)" "evict_connection clock rep p = (True, snd (close_connection j p))"
      using evict_room [OF k, of clock rep] by auto
    let ?p = "snd (close_connection j p)"
    have "int (length (cp_connections ?p)) < cp_max_connections ?p" "\<not> has_key i (cp_connections ?p)"
      using evict j(1) assms(2) length_delete [OF k, of j] by (simp_all add: close_connection_def)
    from add_row_fits [OF close_fits [OF assms(1)] this(2,1)] evict j none assms(3) show ?thesis
      by (auto simp: add_connection_def Let_def split: option.splits)
  qed
qed

lemma add_connection_fits: "pool_fits p \<Longrightarrow> pool_fits (snd (add_connection clock rep i host port now p))"
proof -
  assume fits: "pool_fits p"
  show ?thesis
  proof (cases "has_key i (cp_connections p) \<or> (case rep of None \<Rightarrow> False | Some r \<Rightarrow> i \<in> rp_blacklist r)")
    case True
    then show ?thesis using fits by (auto simp: add_connection_def has_key_def split: option.splits)
  next
    case False
    with add_connection_cases [OF fits, of i rep clock host port now] fits show ?thesis by (auto split: if_splits)
  qed
qed

lemma serve_frame: "pool_serve q p = Inr p' \<Longrightarrow> cp_max_connections p' = cp_max_connections p"
proof -
  have f: "cp_max_connections (fold (\<lambda>i p. snd (close_connection i p)) xs p) = cp_max_connections p" for xs p
    by (induction xs arbitrary: p) simp_all
  have "cp_max_connections (snd (evict_connection clock rep p)) = cp_max_connections p" for clock rep p
    by (auto simp: evict_connection_def split: list.splits option.splits)
  then show "pool_serve q p = Inr p' \<Longrightarrow> ?thesis"
    by (cases q) (auto simp: add_connection_def get_connection_def maintain_connections_def rotate_low_quality_def remove_timed_out_def f
        Let_def split: option.splits list.splits prod.splits if_splits; metis snd_conv)+
qed

interpretation pool_limit: guarded_machine pool_serve pool_fits
proof
  fix p q p'
  assume fits: "pool_fits p" and s: "pool_serve q p = Inr p'"
  have closes: "pool_fits (fold (\<lambda>i p. snd (close_connection i p)) xs p)" if "pool_fits p" for xs p
    using that by (induction xs arbitrary: p) (auto intro: close_fits)
  show "pool_fits p'"
  proof (cases q)
    case (Lookup i now)
    with fits s show ?thesis by (auto simp: get_connection_def pool_fits_def length_update_row split: option.splits if_splits)
  next
    case (Maintain clock rep)
    have "pool_fits (remove_timed_out clock p)" by (simp add: remove_timed_out_def closes [OF fits] Let_def)
    with s show ?thesis
      by (auto simp: Maintain maintain_connections_def rotate_low_quality_def Let_def close_fits split: option.splits list.splits)
  qed (use fits s in \<open>auto intro: add_connection_fits close_fits\<close>)
qed

text \<open>
  Whatever is requested, and whatever the reputations are, the pool never holds more than max_connections
  connections and all of them are active; and a request for a peer that is not connected is refused exactly when the peer
  is blacklisted or the pool allows no connection at all.
\<close>

theorem connections_bounded:
  "let p = run_cmds pool_serve qs (new_connection_pool limit timeout target) in
   int (length (cp_connections p)) \<le> max 0 limit \<and>
   list_all (\<lambda>(i, c). cn_is_active c) (cp_connections p) \<and>
   (fst (add_connection clock rep i host port now p) = None \<longleftrightarrow>
      \<not> has_key i (cp_connections p) \<and> ((case rep of None \<Rightarrow> False | Some r \<Rightarrow> i \<in> rp_blacklist r) \<or> limit \<le> 0))"
proof -
  define p where "p = run_cmds pool_serve qs (new_connection_pool limit timeout target)"
  have "pool_fits (new_connection_pool limit timeout target)" by (simp add: pool_fits_def new_connection_pool_def)
  then have fits: "pool_fits p" unfolding p_def by (rule pool_limit.run_inv)
  have "cp_max_connections (run_cmds pool_serve qs p0) = cp_max_connections p0" for p0
    by (induction qs arbitrary: p0) (auto simp: attempt_def serve_frame split: sum.splits)
  then have l: "cp_max_connections p = limit" by (simp add: p_def new_connection_pool_def)
  have refused: "fst (add_connection clock rep i host port now p) = None \<longleftrightarrow>
      \<not> has_key i (cp_connections p) \<and> ((case rep of None \<Rightarrow> False | Some r \<Rightarrow> i \<in> rp_blacklist r) \<or> limit \<le> 0)"
  proof (cases "has_key i (cp_connections p) \<or> (case rep of None \<Rightarrow> False | Some r \<Rightarrow> i \<in> rp_blacklist r)")
    case True
    then show ?thesis by (auto simp: add_connection_def has_key_def split: option.splits)
  next
    case False
    with add_connection_cases [OF fits, of i rep clock host port now] l show ?thesis by (auto split: if_splits)
  qed
  have "int (length (cp_connections p)) \<le> max 0 limit" "list_all (\<lambda>(i, c). cn_is_active c) (cp_connections p)"
    using fits l by (auto simp: pool_fits_def list_all_iff keyed_map_of)
  with refused show ?thesis unfolding p_def [symmetric] Let_def by blast
qed

end
