(* ===== verification/Gossip.thy ===== *)
theory Gossip
  imports Tables PyFloat PyString JsonText
begin

text \<open>
  The publish/subscribe router (\<open>p2p/gossipsub.py\<close>): subscriptions, the mesh of every topic, fanout sets, the cache of seen
  messages and the scores of peers.  SHA-256, the clock and the order in which a set of peers is listed are arguments;
  bytes are characters; a handler is a name, and what the router does is the list of calls of handlers.
\<close>

section \<open>Messages\<close>

record gossip_message =
  gm_msg_id :: string
  gm_topic :: string
  gm_data :: string
  gm_from_peer :: string
  gm_sequence :: int
  gm_timestamp :: pyfloat

definition hex_bytes :: "string \<Rightarrow> string" where
  "hex_bytes bs = concat (map (\<lambda>c. [hex_digit (of_char c div 16), hex_digit (of_char c mod 16)]) bs)"

definition message_text :: "string \<Rightarrow> string \<Rightarrow> string \<Rightarrow> int \<Rightarrow> string" where
  "message_text topic data from_peer sequence = topic @ hex_bytes data @ from_peer @ str_of_int sequence"

definition create_message :: "(string \<Rightarrow> string) \<Rightarrow> string \<Rightarrow> string \<Rightarrow> string \<Rightarrow> int \<Rightarrow> pyfloat \<Rightarrow> gossip_message" where
  "create_message sha256 topic data from_peer sequence now =
     \<lparr>gm_msg_id = take 16 (sha256 (message_text topic data from_peer sequence)), gm_topic = topic, gm_data = data,
      gm_from_peer = from_peer, gm_sequence = sequence, gm_timestamp = now\<rparr>"

section \<open>Scores\<close>

record gossip_score =
  gs_score :: pyfloat
  gs_messages_delivered :: int
  gs_messages_invalid :: int
  gs_last_seen :: pyfloat

definition new_gossip_score :: "pyfloat \<Rightarrow> gossip_score" where
  "new_gossip_score now = \<lparr>gs_score = 0, gs_messages_delivered = 0, gs_messages_invalid = 0, gs_last_seen = now\<rparr>"

definition update_score :: "pyfloat \<Rightarrow> gossip_score \<Rightarrow> gossip_score" where
  "update_score now s =
     (let score = of_int (gs_messages_delivered s - gs_messages_invalid s * 2);
          time_since_seen = fsub now (gs_last_seen s)
      in s\<lparr>gs_score := (if time_since_seen > 60 then fmul score (rnd (9 / 10)) else score)\<rparr>)"

section \<open>The router\<close>

definition mesh_D :: nat where "mesh_D = 6"
definition mesh_D_LOW :: nat where "mesh_D_LOW = 4"
definition mesh_D_HIGH :: nat where "mesh_D_HIGH = 12"
definition HEARTBEAT_INTERVAL :: pyfloat where "HEARTBEAT_INTERVAL = 1"
definition SEEN_MSG_TTL :: pyfloat where "SEEN_MSG_TTL = 120"

record gossip_router =
  gr_subscriptions :: "(string, string list) table"
  gr_mesh :: "(string, string set) table"
  gr_fanout :: "(string, string set) table"
  gr_seen_messages :: "(string, gossip_message) table"
  gr_peer_scores :: "(string, gossip_score) table"
  gr_peers :: "string set"
  gr_sequence :: int
  gr_last_heartbeat :: pyfloat
  gr_delivered :: "(string \<times> string) list"

definition new_router :: "pyfloat \<Rightarrow> gossip_router" where
  "new_router now = \<lparr>gr_subscriptions = [], gr_mesh = [], gr_fanout = [], gr_seen_messages = [], gr_peer_scores = [],
     gr_peers = {}, gr_sequence = 0, gr_last_heartbeat = now, gr_delivered = []\<rparr>"

definition add_peer :: "string \<Rightarrow> pyfloat \<Rightarrow> gossip_router \<Rightarrow> gossip_router" where
  "add_peer peer_id now g =
     (if peer_id \<in> gr_peers g then g
      else g\<lparr>gr_peers := insert peer_id (gr_peers g), gr_peer_scores := AList.update peer_id (new_gossip_score now) (gr_peer_scores g)\<rparr>)"

definition discard_peer :: "string \<Rightarrow> (string, string set) table \<Rightarrow> (string, string set) table" where
  "discard_peer peer_id = map (\<lambda>(t, ps). (t, ps - {peer_id}))"

definition remove_peer :: "string \<Rightarrow> gossip_router \<Rightarrow> gossip_router" where
  "remove_peer peer_id g =
     (if peer_id \<notin> gr_peers g then g
      else g\<lparr>gr_peers := gr_peers g - {peer_id}, gr_mesh := discard_peer peer_id (gr_mesh g),
             gr_fanout := discard_peer peer_id (gr_fanout g)\<rparr>)"

definition score_of :: "gossip_router \<Rightarrow> string \<Rightarrow> pyfloat" where
  "score_of g p = (case map_of (gr_peer_scores g) p of None \<Rightarrow> 0 | Some s \<Rightarrow> gs_score s)"

definition select_peers_for_mesh :: "(string set \<Rightarrow> string list) \<Rightarrow> gossip_router \<Rightarrow> string set" where
  "select_peers_for_mesh order g =
     (let available_peers = sort_key (\<lambda>p. - score_of g p) (order (gr_peers g)) in set (take mesh_D available_peers))"

text \<open>\<open>subscriptions\<close> is a \<open>defaultdict\<close>: looking a topic up enters it.\<close>

definition handlers_of :: "string \<Rightarrow> gossip_router \<Rightarrow> string list" where
  "handlers_of topic g = (case map_of (gr_subscriptions g) topic of None \<Rightarrow> [] | Some hs \<Rightarrow> hs)"

definition set_handlers :: "string \<Rightarrow> string list \<Rightarrow> gossip_router \<Rightarrow> gossip_router" where
  "set_handlers topic hs g = g\<lparr>gr_subscriptions := AList.update topic hs (gr_subscriptions g)\<rparr>"

definition join_mesh :: "(string set \<Rightarrow> string list) \<Rightarrow> string \<Rightarrow> gossip_router \<Rightarrow> gossip_router" where
  "join_mesh order topic g = g\<lparr>gr_mesh := AList.update topic (select_peers_for_mesh order g) (gr_mesh g)\<rparr>"

definition subscribe_topic :: "(string set \<Rightarrow> string list) \<Rightarrow> string \<Rightarrow> string \<Rightarrow> gossip_router \<Rightarrow> gossip_router" where
  "subscribe_topic order topic handler g =
     (let hs = handlers_of topic g;
          g = set_handlers topic (if handler \<in> set hs then hs else hs @ [handler]) g
      in if has_key topic (gr_mesh g) then g else join_mesh order topic g)"

definition unsubscribe_topic :: "string \<Rightarrow> string option \<Rightarrow> gossip_router \<Rightarrow> gossip_router" where
  "unsubscribe_topic topic handler g =
     (let hs = (case handler of None \<Rightarrow> [] | Some h \<Rightarrow> remove1 h (handlers_of topic g));
          g = set_handlers topic hs g
      in if hs = [] \<and> has_key topic (gr_mesh g) then g\<lparr>gr_mesh := AList.delete topic (gr_mesh g)\<rparr> else g)"

definition deliver_message :: "gossip_message \<Rightarrow> gossip_router \<Rightarrow> gossip_router" where
  "deliver_message msg g =
     g\<lparr>gr_delivered := gr_delivered g @ map (\<lambda>h. (h, gm_data msg)) (handlers_of (gm_topic msg) g)\<rparr>"

text \<open>The peers a message is sent to, and the router.\<close>

definition publish_message ::
  "(string \<Rightarrow> string) \<Rightarrow> (string set \<Rightarrow> string list) \<Rightarrow> string \<Rightarrow> string \<Rightarrow> string \<Rightarrow> pyfloat \<Rightarrow> gossip_router
     \<Rightarrow> string set \<times> gossip_router" where
  "publish_message sha256 order from_peer topic message now g =
     (let g = g\<lparr>gr_sequence := gr_sequence g + 1\<rparr>;
          msg = create_message sha256 topic message from_peer (gr_sequence g) now;
          g = g\<lparr>gr_seen_messages := AList.update (gm_msg_id msg) msg (gr_seen_messages g)\<rparr>;
          (peers_to_send, g) =
            (case map_of (gr_mesh g) topic of
               Some ps \<Rightarrow> (ps, g)
             | None \<Rightarrow>
                 (case map_of (gr_fanout g) topic of
                    Some ps \<Rightarrow> (ps, g)
                  | None \<Rightarrow> let ps = select_peers_for_mesh order g in (ps, g\<lparr>gr_fanout := AList.update topic ps (gr_fanout g)\<rparr>)))
      in (peers_to_send, if has_key topic (gr_subscriptions g) then deliver_message msg g else g))"

definition handle_message :: "gossip_message \<Rightarrow> pyfloat \<Rightarrow> pyfloat \<Rightarrow> gossip_router \<Rightarrow> gossip_router" where
  "handle_message msg now later g =
     (if has_key (gm_msg_id msg) (gr_seen_messages g) then g
      else let g = g\<lparr>gr_seen_messages := add_row (gm_msg_id msg) msg (gr_seen_messages g),
              gr_peer_scores := update_row (gm_from_peer msg) (\<lambda>s. update_score later
                (s\<lparr>gs_messages_delivered := gs_messages_delivered s + 1, gs_last_seen := now\<rparr>)) (gr_peer_scores g)\<rparr>
        in if has_key (gm_topic msg) (gr_subscriptions g) then deliver_message msg g else g)"

definition maintain_mesh :: "(string set \<Rightarrow> string list) \<Rightarrow> gossip_router \<Rightarrow> string set \<Rightarrow> string set" where
  "maintain_mesh order g peers =
     (if card peers < mesh_D_LOW
      then peers \<union> set (take (mesh_D - card peers) (order (select_peers_for_mesh order g - peers)))
      else if card peers > mesh_D_HIGH
      then peers - set (take (card peers - mesh_D) (sort_key (score_of g) (order peers)))
      else peers)"

definition gossip_heartbeat :: "(string set \<Rightarrow> string list) \<Rightarrow> pyfloat \<Rightarrow> gossip_router \<Rightarrow> gossip_router" where
  "gossip_heartbeat order current_time g =
     (if fsub current_time (gr_last_heartbeat g) < HEARTBEAT_INTERVAL then g
      else let cutoff_time = fsub current_time SEEN_MSG_TTL in
        g\<lparr>gr_last_heartbeat := current_time,
          gr_mesh := map (\<lambda>(t, ps). (t, maintain_mesh order g ps)) (gr_mesh g),
          gr_seen_messages := filter (\<lambda>(i, msg). \<not> gm_timestamp msg < cutoff_time) (gr_seen_messages g)\<rparr>)"

definition get_peers_in_topic :: "string \<Rightarrow> gossip_router \<Rightarrow> string set" where
  "get_peers_in_topic topic g = (case map_of (gr_mesh g) topic of None \<Rightarrow> {} | Some ps \<Rightarrow> ps)"

end
