(* ===== verification/GossipProps.thy ===== *)
theory GossipProps
  imports Gossip
begin

text \<open>
  Correctness of the router: the size of the meshes, duplicates, and the identifiers of messages.
\<close>

section \<open>The meshes\<close>

datatype gossip_cmd =
    AddPeer string pyfloat
  | RemovePeer string
  | SubscribeTo string string
  | UnsubscribeFrom string "string option"
  | PublishTo string string string pyfloat
  | Receive gossip_message pyfloat pyfloat
  | Beat pyfloat

fun gossip_step ::
  "(string \<Rightarrow> string) \<Rightarrow> (string set \<Rightarrow> string list) \<Rightarrow> gossip_cmd \<Rightarrow> gossip_router \<Rightarrow> unit + gossip_router" where
  "gossip_step sha256 order (AddPeer p now) g = Inr (add_peer p now g)"
| "gossip_step sha256 order (RemovePeer p) g = Inr (remove_peer p g)"
| "gossip_step sha256 order (SubscribeTo t h) g = Inr (subscribe_topic order t h g)"
| "gossip_step sha256 order (UnsubscribeFrom t h) g = Inr (unsubscribe_topic t h g)"
| "gossip_step sha256 order (PublishTo me t m now) g = Inr (snd (publish_message sha256 order me t m now g))"
| "gossip_step sha256 order (Receive msg now later) g = Inr (handle_message msg now later g)"
| "gossip_step sha256 order (Beat now) g = Inr (gossip_heartbeat order now g)"

definition small_mesh :: "string set \<Rightarrow> string set \<Rightarrow> bool" where
  "small_mesh peers ps \<longleftrightarrow> ps \<subseteq> peers \<and> card ps \<le> mesh_D"

definition mesh_ok :: "gossip_router \<Rightarrow> bool" where
  "mesh_ok g \<longleftrightarrow> finite (gr_peers g) \<and> list_all (\<lambda>(t, ps). small_mesh (gr_peers g) ps) (gr_mesh g)"

lemma lists_sets_length: "lists_sets order \<Longrightarrow> finite A \<Longrightarrow> length (order A) = card A \<and> set (order A) = A \<and> distinct (order A)"
  by (metis distinct_card lists_sets_def)

lemma selected_peers:
  assumes "lists_sets order" and "finite (gr_peers g)"
  shows "select_peers_for_mesh order g \<subseteq> gr_peers g \<and>
    card (select_peers_for_mesh order g) = min mesh_D (card (gr_peers g))"
proof -
  define xs where "xs = sort_key (\<lambda>p. - score_of g p) (order (gr_peers g))"
  have xs: "set xs = gr_peers g" "distinct xs" "length xs = card (gr_peers g)"
    using lists_sets_length [OF assms] by (simp_all add: xs_def)
  have "card (set (take mesh_D xs)) = min mesh_D (length xs)" using xs(2) by (simp add: distinct_card)
  then show ?thesis using xs set_take_subset [of mesh_D xs] by (simp add: select_peers_for_mesh_def xs_def [symmetric])
qed

lemma maintained_mesh:
  assumes "lists_sets order" and "finite (gr_peers g)" and "small_mesh (gr_peers g) ps"
  shows "small_mesh (gr_peers g) (maintain_mesh order g ps) \<and> min mesh_D_LOW (card (gr_peers g)) \<le> card (maintain_mesh order g ps)"
proof (cases "card ps < mesh_D_LOW")
  case True
  let ?S = "select_peers_for_mesh order g"
  have ps: "ps \<subseteq> gr_peers g" "finite ps" using assms(2,3) by (auto simp: small_mesh_def dest: finite_subset)
  have S: "?S \<subseteq> gr_peers g" "card ?S = min mesh_D (card (gr_peers g))" using selected_peers [OF assms(1,2)] by blast+
  then have fin: "finite ?S" "finite (?S - ps)" using assms(2) by (auto dest: finite_subset)
  define xs where "xs = take (mesh_D - card ps) (order (?S - ps))"
  have o: "length (order (?S - ps)) = card (?S - ps)" "set (order (?S - ps)) = ?S - ps" "distinct (order (?S - ps))"
    using lists_sets_length [OF assms(1) fin(2)] by blast+
  have "set xs \<subseteq> ?S - ps" using set_take_subset [of "mesh_D - card ps" "order (?S - ps)"] by (simp add: xs_def o(2))
  moreover have "card (set xs) = min (mesh_D - card ps) (card (?S - ps))" using o by (simp add: xs_def distinct_card)
  ultimately have c: "card (ps \<union> set xs) = card ps + min (mesh_D - card ps) (card (?S - ps))"
    using ps(2) by (subst card_Un_disjoint) auto
  have "card ?S - card ps \<le> card (?S - ps)" using ps(2) by (rule diff_card_le_card_Diff)
  then have "min mesh_D_LOW (card (gr_peers g)) \<le> card (ps \<union> set xs)"
    using S(2) True unfolding c by (simp add: mesh_D_def mesh_D_LOW_def)
  moreover have "card (ps \<union> set xs) \<le> mesh_D" using True unfolding c by (simp add: mesh_D_def mesh_D_LOW_def)
  moreover have "ps \<union> set xs \<subseteq> gr_peers g" using ps(1) S(1) \<open>set xs \<subseteq> ?S - ps\<close> by blast
  moreover have "maintain_mesh order g ps = ps \<union> set xs" using True by (simp add: maintain_mesh_def xs_def)
  ultimately show ?thesis by (simp add: small_mesh_def)
next
  case False
  with assms(3) show ?thesis by (simp add: maintain_mesh_def small_mesh_def mesh_D_def mesh_D_HIGH_def)
qed

lemma small_mesh_mono: "small_mesh A ps \<Longrightarrow> A \<subseteq> B \<Longrightarrow> small_mesh B ps"
  by (auto simp: small_mesh_def)

lemma mesh_ok_update: "mesh_ok g \<Longrightarrow> small_mesh (gr_peers g) ps \<Longrightarrow> mesh_ok (g\<lparr>gr_mesh := AList.update t ps (gr_mesh g)\<rparr>)"
proof -
  have "list_all P (AList.update t ps xs)" if "list_all P xs" "P (t, ps)" for P and xs :: "(string, string set) table"
    using that by (induction xs) auto
  then show "mesh_ok g \<Longrightarrow> small_mesh (gr_peers g) ps \<Longrightarrow> ?thesis" by (simp add: mesh_ok_def)
qed

lemma mesh_ok_frame:
  "gr_peers g' = gr_peers g \<Longrightarrow> gr_mesh g' = gr_mesh g \<Longrightarrow> mesh_ok g' = mesh_ok g"
  by (simp add: mesh_ok_def)

lemma mesh_ok_add: "mesh_ok g \<Longrightarrow> mesh_ok (add_peer p now g)"
  by (auto simp: mesh_ok_def add_peer_def list_all_iff intro: small_mesh_mono)

lemma mesh_ok_remove: "mesh_ok g \<Longrightarrow> mesh_ok (remove_peer p g)"
proof -
  have "small_mesh (gr_peers g - {p}) (ps - {p})" if "small_mesh (gr_peers g) ps" "finite (gr_peers g)" for ps
    using that card_mono [of ps "ps - {p}"] finite_subset [of ps "gr_peers g"] by (auto simp: small_mesh_def)
  then show "mesh_ok g \<Longrightarrow> ?thesis"
    by (auto simp: mesh_ok_def remove_peer_def discard_peer_def list_all_iff)
qed

lemma mesh_ok_subscribe: "lists_sets order \<Longrightarrow> mesh_ok g \<Longrightarrow> mesh_ok (subscribe_topic order t h g)"
proof -
  assume o: "lists_sets order" and ok: "mesh_ok g"
  have "mesh_ok (set_handlers t hs g)" for hs using ok by (simp add: mesh_ok_def set_handlers_def)
  moreover have "small_mesh (gr_peers g) (select_peers_for_mesh order g)" if "finite (gr_peers g)" for g
    using selected_peers [OF o that] by (simp add: small_mesh_def)
  ultimately show ?thesis
    by (simp add: subscribe_topic_def join_mesh_def Let_def mesh_ok_update mesh_ok_def [THEN iffD1, THEN conjunct1])
qed

lemma mesh_ok_unsubscribe: "mesh_ok g \<Longrightarrow> mesh_ok (unsubscribe_topic t h g)"
proof -
  have "set (AList.delete t xs) \<subseteq> set xs" for xs :: "(string, string set) table" by (induction xs) auto
  then show "mesh_ok g \<Longrightarrow> ?thesis"
    by (force simp: unsubscribe_topic_def set_handlers_def mesh_ok_def list_all_iff Let_def split: option.splits)
qed

lemma mesh_ok_publish: "mesh_ok g \<Longrightarrow> mesh_ok (snd (publish_message sha256 order me t m now g))"
  by (simp add: publish_message_def deliver_message_def mesh_ok_def Let_def split: option.splits)

lemma mesh_ok_handle: "mesh_ok g \<Longrightarrow> mesh_ok (handle_message msg now later g)"
  by (simp add: handle_message_def deliver_message_def mesh_ok_def Let_def)

lemma mesh_ok_heartbeat: "lists_sets order \<Longrightarrow> mesh_ok g \<Longrightarrow> mesh_ok (gossip_heartbeat order now g)"
  using maintained_mesh [of order g] by (auto simp: gossip_heartbeat_def mesh_ok_def list_all_iff Let_def)

interpretation meshes: guarded_machine "gossip_step sha256 order" "\<lambda>g. lists_sets order \<longrightarrow> mesh_ok g"
proof
  fix g c g'
  assume "lists_sets order \<longrightarrow> mesh_ok g" "gossip_step sha256 order c g = Inr g'"
  then show "lists_sets order \<longrightarrow> mesh_ok g'"
    by (cases c) (auto simp: mesh_ok_add mesh_ok_remove mesh_ok_subscribe mesh_ok_unsubscribe mesh_ok_publish mesh_ok_handle
        mesh_ok_heartbeat)
qed

text \<open>
  Claim C35.  In every reachable state every mesh consists of at most D = 6 known peers, so the branch for more than
  D_HIGH = 12 is never taken; and after a heartbeat that is due every mesh has at least D_LOW = 4 peers, or all there are.
\<close>

theorem meshes_bounded:
  assumes "lists_sets order" and "g = run_cmds (gossip_step sha256 order) cs (new_router start)"
    and "HEARTBEAT_INTERVAL \<le> fsub now (gr_last_heartbeat g)"
  shows "list_all (\<lambda>(t, ps). ps \<subseteq> gr_peers g \<and> card ps \<le> mesh_D) (gr_mesh g) \<and>
    list_all (\<lambda>(t, ps). ps \<subseteq> gr_peers g \<and> card ps \<le> mesh_D \<and> min mesh_D_LOW (card (gr_peers g)) \<le> card ps)
      (gr_mesh (gossip_heartbeat order now g))"
proof -
  have "lists_sets order \<longrightarrow> mesh_ok (new_router start)" by (simp add: mesh_ok_def new_router_def)
  from meshes.run_inv [OF this, of sha256 cs] have ok: "mesh_ok g" using assms(1,2) by simp
  have beat: "gr_mesh (gossip_heartbeat order now g) = map (\<lambda>(t, ps). (t, maintain_mesh order g ps)) (gr_mesh g)"
    using assms(3) by (simp add: gossip_heartbeat_def Let_def)
  have fin: "finite (gr_peers g)" using ok by (simp add: mesh_ok_def)
  have small: "small_mesh (gr_peers g) ps" if "(t, ps) \<in> set (gr_mesh g)" for t ps
    using ok that by (auto simp: mesh_ok_def list_all_iff)
  have "small_mesh (gr_peers g) (maintain_mesh order g ps) \<and> min mesh_D_LOW (card (gr_peers g)) \<le> card (maintain_mesh order g ps)"
    if "(t, ps) \<in> set (gr_mesh g)" for t ps
    by (rule maintained_mesh [OF assms(1) fin small [OF that]])
  with small show ?thesis unfolding beat small_mesh_def by (fastforce simp: list_all_iff)
qed

section \<open>Duplicates\<close>

text \<open>A message whose identifier is among the seen ones changes nothing; right after it was handled it is.\<close>

lemma duplicate_ignored:
  "handle_message msg now later (handle_message msg now' later' g) = handle_message msg now' later' g"
proof -
  have "has_key (gm_msg_id msg) (gr_seen_messages (handle_message msg now' later' g))"
    by (auto simp: handle_message_def deliver_message_def Let_def)
  then show ?thesis by (subst handle_message_def) simp
qed

text \<open>The text that is hashed joins its parts without separators: two different messages have one identifier, and the
  second one is dropped, whatever the hash function is.\<close>

lemma different_messages_share_id:
  "gm_msg_id (create_message sha256 t d ''peer1'' 2 now) = gm_msg_id (create_message sha256 t d ''peer'' 12 now')"
proof -
  have "str_of_int 2 = ''2''" "str_of_int 12 = ''12''" by code_simp+
  then show ?thesis by (simp add: create_message_def message_text_def)
qed

text \<open>A fanout set is chosen once and never refilled: a topic first published to before any peer is known reaches no
  peer later either.\<close>

lemma fanout_stays_empty:
  assumes "map_of (gr_mesh g) t = None" and "map_of (gr_fanout g) t = Some {}"
  shows "fst (publish_message sha256 order me t m now g) = {}"
    and "map_of (gr_fanout (snd (publish_message sha256 order me t m now g))) t = Some {}"
    and "map_of (gr_fanout (add_peer p now g)) t = Some {}"
    and "map_of (gr_fanout (gossip_heartbeat order now g)) t = Some {}"
  using assms by (auto simp: publish_message_def deliver_message_def add_peer_def gossip_heartbeat_def Let_def)

section \<open>Examples\<close>

definition demo_router :: gossip_router where
  "demo_router = run_cmds (gossip_step (\<lambda>s. s) sorted_list_of_set)
     [SubscribeTo ''t'' ''h'', AddPeer ''a'' 0, AddPeer ''b'' 0] (new_router 0)"

lemma meshes_bounded_witness:
  "list_all (\<lambda>(t, ps). min mesh_D_LOW (card (gr_peers demo_router)) \<le> card ps)
     (gr_mesh (gossip_heartbeat sorted_list_of_set 5 demo_router))"
proof -
  have "gr_last_heartbeat demo_router = 0"
    by (simp add: demo_router_def attempt_def subscribe_topic_def set_handlers_def join_mesh_def add_peer_def new_router_def has_key_def Let_def)
  moreover have "rnd 5 = 5" using rnd_of_int [of 5] by simp
  ultimately have "HEARTBEAT_INTERVAL \<le> fsub 5 (gr_last_heartbeat demo_router)" by (simp add: fsub_def HEARTBEAT_INTERVAL_def)
  from meshes_bounded [OF lists_sets_sorted demo_router_def this] show ?thesis by (auto simp: list_all_iff)
qed

end
