(* ===== verification/Auctions.thy ===== *)
theory Auctions
  imports Tables PyFloat
begin

text \<open>
  Auctions of tasks: the life of an auction and its bids (\<open>auction/bidding.py\<close>), the evaluation of bids
  (\<open>auction/selection.py\<close>) and the backoff between attempts (\<open>auction/backoff.py\<close>).  \<open>time.time_ns()\<close> and
  \<open>random.random()\<close> are arguments.  Costs, times and reputations are floats; dictionaries of a fixed shape are records.
\<close>

section \<open>Evaluation of bids\<close>

record auction_proposal =
  ap_proposal_id :: "string option"
  ap_cost :: "pyfloat option"
  ap_eta :: "pyfloat option"
  ap_reputation :: "pyfloat option"
  ap_capabilities :: "string list option"

record auction_bid =
  ab_agent_id :: string
  ab_proposal_id :: string
  ab_cost :: pyfloat
  ab_eta :: pyfloat
  ab_reputation :: pyfloat
  ab_capabilities :: "string list"
  ab_timestamp :: int

definition WEIGHT_COST :: pyfloat where "WEIGHT_COST = rnd (4 / 10)"
definition WEIGHT_ETA :: pyfloat where "WEIGHT_ETA = rnd (3 / 10)"
definition WEIGHT_REPUTATION :: pyfloat where "WEIGHT_REPUTATION = rnd (2 / 10)"
definition WEIGHT_CAPABILITIES :: pyfloat where "WEIGHT_CAPABILITIES = rnd (1 / 10)"

definition score_bid :: "auction_bid \<Rightarrow> pyfloat \<Rightarrow> pyfloat" where
  "score_bid b budget =
     (let cost_score = (if budget > 0 then fsub 1 (min (fdiv (ab_cost b) budget) 1) else 0);
          eta_score = fsub 1 (min (fdiv (ab_eta b) 604800) 1);
          rep_score = min (max (ab_reputation b) 0) 1;
          cap_score = min (fdiv (to_float (int (length (ab_capabilities b)))) 10) 1;
          composite = fadd (fadd (fadd (fmul cost_score WEIGHT_COST) (fmul eta_score WEIGHT_ETA))
            (fmul rep_score WEIGHT_REPUTATION)) (fmul cap_score WEIGHT_CAPABILITIES)
      in fmul composite 100)"

text \<open>\<open>min\<close> with a key returns the first of the least elements.\<close>

fun min_by :: "('a \<Rightarrow> 'b::linorder) \<Rightarrow> 'a \<Rightarrow> 'a list \<Rightarrow> 'a" where
  "min_by f x [] = x"
| "min_by f x (y # ys) = min_by f (if f y < f x then y else x) ys"

definition handle_ties :: "auction_bid list \<Rightarrow> auction_bid" where
  "handle_ties bids =
     (let bids_by_rep = sort_key (\<lambda>b. - ab_reputation b) bids;
          max_rep = ab_reputation (hd bids_by_rep);
          top_rep_bids = filter (\<lambda>b. ab_reputation b = max_rep) bids_by_rep
      in if length top_rep_bids > 1 then min_by ab_timestamp (hd top_rep_bids) (tl top_rep_bids) else hd top_rep_bids)"

definition select_winner :: "auction_bid list \<Rightarrow> pyfloat \<Rightarrow> auction_bid option" where
  "select_winner bids budget =
     (if bids = [] then None
      else let scored_bids = sort_key (\<lambda>x. - fst x) (map (\<lambda>b. (score_bid b budget, b)) bids);
               max_score = fst (hd scored_bids);
               tied_bids = map snd (filter (\<lambda>(score, b). score = max_score) scored_bids)
           in Some (if length tied_bids > 1 then handle_ties tied_bids else hd tied_bids))"

section \<open>Auctions\<close>

datatype auction_status = Open | Closed | Timeout

record auction =
  au_budget :: pyfloat
  au_bids :: "auction_bid list"
  au_start_time :: int
  au_status :: auction_status
  au_round :: int
  au_extensions :: "int option"

record auction_manager =
  am_bid_window :: int
  am_auctions :: "(string, auction) table"

definition new_auction_manager :: "int \<Rightarrow> auction_manager" where
  "new_auction_manager bid_window = \<lparr>am_bid_window = bid_window, am_auctions = []\<rparr>"

definition put_auction :: "string \<Rightarrow> auction \<Rightarrow> auction_manager \<Rightarrow> auction_manager" where
  "put_auction need_id a m = m\<lparr>am_auctions := AList.update need_id a (am_auctions m)\<rparr>"

definition start_auction :: "string \<Rightarrow> pyfloat \<Rightarrow> int \<Rightarrow> auction_manager \<Rightarrow> auction \<times> auction_manager" where
  "start_auction need_id budget now m =
     (let a = \<lparr>au_budget = budget, au_bids = [], au_start_time = now, au_status = Open, au_round = 1, au_extensions = None\<rparr>
      in (a, put_auction need_id a m))"

text \<open>The division of integers rounds the exact quotient.\<close>

definition elapsed_seconds :: "int \<Rightarrow> auction \<Rightarrow> pyfloat" where
  "elapsed_seconds now a = rnd (of_int (now - au_start_time a) / 1000000000)"

definition time_until_close :: "int \<Rightarrow> int \<Rightarrow> auction \<Rightarrow> pyfloat" where
  "time_until_close bid_window now a = fsub (to_float bid_window) (elapsed_seconds now a)"

definition or_default :: "'a \<Rightarrow> 'a option \<Rightarrow> 'a" where
  "or_default d x = (case x of None \<Rightarrow> d | Some v \<Rightarrow> v)"

definition anti_snipe :: "int \<Rightarrow> int \<Rightarrow> auction \<Rightarrow> auction" where
  "anti_snipe bid_window now a =
     (if time_until_close bid_window now a < 5
      then let extensions = or_default 0 (au_extensions a) in
        if extensions < 3
        then a\<lparr>au_start_time := au_start_time a - 5 * 1000000000, au_extensions := Some (extensions + 1)\<rparr>
        else a\<lparr>au_extensions := Some extensions\<rparr>
      else a)"

definition accept_auction_bid ::
  "string \<Rightarrow> string \<Rightarrow> auction_proposal \<Rightarrow> int \<Rightarrow> auction_manager \<Rightarrow> bool \<times> auction_manager" where
  "accept_auction_bid need_id agent_id p now m =
     (case map_of (am_auctions m) need_id of
        None \<Rightarrow> (False, m)
      | Some a \<Rightarrow>
          if au_status a \<noteq> Open then (False, m)
          else if elapsed_seconds now a > of_int (am_bid_window m) then (False, m)
          else let cost = or_default 0 (ap_cost p) in
            if cost > au_budget a then (False, m)
            else let a = anti_snipe (am_bid_window m) now a;
                     bid = \<lparr>ab_agent_id = agent_id, ab_proposal_id = or_default [] (ap_proposal_id p), ab_cost = cost,
                       ab_eta = or_default 0 (ap_eta p), ab_reputation = or_default (1 / 2) (ap_reputation p),
                       ab_capabilities = or_default [] (ap_capabilities p), ab_timestamp = now\<rparr>
                 in (True, put_auction need_id (a\<lparr>au_bids := au_bids a @ [bid]\<rparr>) m))"

definition close_auction :: "string \<Rightarrow> auction_manager \<Rightarrow> auction_bid option \<times> auction_manager" where
  "close_auction need_id m =
     (case map_of (am_auctions m) need_id of
        None \<Rightarrow> (None, m)
      | Some a \<Rightarrow> (select_winner (au_bids a) (au_budget a), put_auction need_id (a\<lparr>au_status := Closed\<rparr>) m))"

definition timeout_auction :: "string \<Rightarrow> auction_manager \<Rightarrow> bool \<times> auction_manager" where
  "timeout_auction need_id m =
     (case map_of (am_auctions m) need_id of
        None \<Rightarrow> (False, m)
      | Some a \<Rightarrow> (True, put_auction need_id (a\<lparr>au_status := Timeout\<rparr>) m))"

text \<open>The auction with the time that remains and the number of bids.\<close>

definition get_auction_status :: "string \<Rightarrow> int \<Rightarrow> auction_manager \<Rightarrow> (auction \<times> pyfloat \<times> nat) option" where
  "get_auction_status need_id now m =
     map_option (\<lambda>a. (a, max 0 (time_until_close (am_bid_window m) now a), length (au_bids a))) (map_of (am_auctions m) need_id)"

section \<open>Backoff\<close>

datatype backoff_error = PyOverflowError

text \<open>A power of two from 2 ^ 1024 on cannot be converted to a float.\<close>

definition calculate_backoff :: "nat \<Rightarrow> pyfloat \<Rightarrow> pyfloat \<Rightarrow> pyfloat \<Rightarrow> pyfloat \<Rightarrow> backoff_error + pyfloat" where
  "calculate_backoff n base max_delay jitter random =
     (if n \<ge> 1024 then Inl PyOverflowError
      else let exponential = fmul base (2 ^ n);
               capped = min exponential max_delay;
               uniform = fadd (- jitter) (fmul (fsub jitter (- jitter)) random);
               jittered = fadd capped uniform
           in Inr (max 0 jittered))"

record randomized_backoff =
  rb_base :: pyfloat
  rb_max_delay :: pyfloat
  rb_jitter :: pyfloat
  rb_attempt :: nat

definition get_delay :: "nat \<Rightarrow> pyfloat \<Rightarrow> randomized_backoff \<Rightarrow> backoff_error + pyfloat" where
  "get_delay n random b = calculate_backoff n (rb_base b) (rb_max_delay b) (rb_jitter b) random"

definition next_delay :: "pyfloat \<Rightarrow> randomized_backoff \<Rightarrow> backoff_error + (pyfloat \<times> randomized_backoff)" where
  "next_delay random b = res_bind (get_delay (rb_attempt b) random b) (\<lambda>d. Inr (d, b\<lparr>rb_attempt := rb_attempt b + 1\<rparr>))"

definition reset_backoff :: "randomized_backoff \<Rightarrow> randomized_backoff" where
  "reset_backoff b = b\<lparr>rb_attempt := 0\<rparr>"

end
