(* ===== verification/AuctionProps.thy ===== *)
theory AuctionProps
  imports Auctions
begin

text \<open>
  Correctness of auctions: the winner is the best accepted bid and within the budget; a bid in the last seconds ends the
  window it should extend; the delays of the backoff.
\<close>

section \<open>The winner\<close>

lemma min_by_least: "min_by f x ys \<in> set (x # ys) \<and> list_all (\<lambda>y. f (min_by f x ys) \<le> f y) (x # ys)"
proof (induction ys arbitrary: x)
  case (Cons y ys)
  from Cons.IH [of y] Cons.IH [of x] show ?case by (auto simp: list_all_iff)
qed simp

lemma hd_sort_key: "xs \<noteq> [] \<Longrightarrow> hd (sort_key f xs) \<in> set xs \<and> list_all (\<lambda>y. f (hd (sort_key f xs)) \<le> f y) xs"
proof -
  assume "xs \<noteq> []"
  then obtain y ys where s: "sort_key f xs = y # ys" by (cases "sort_key f xs") (metis length_0_conv length_sort, blast)
  have "sorted (map f (y # ys))" by (metis s sorted_sort_key)
  then have "list_all (\<lambda>z. f y \<le> f z) (y # ys)" by (auto simp: list_all_iff)
  moreover have "set xs = set (y # ys)" by (metis s set_sort)
  ultimately show ?thesis by (simp add: s list_all_iff)
qed

definition beaten_by :: "pyfloat \<Rightarrow> auction_bid \<Rightarrow> auction_bid \<Rightarrow> bool" where
  "beaten_by budget w b \<longleftrightarrow> score_bid b budget < score_bid w budget \<or>
     score_bid b budget = score_bid w budget \<and>
       (ab_reputation b < ab_reputation w \<or> ab_reputation b = ab_reputation w \<and> ab_timestamp w \<le> ab_timestamp b)"

lemma handle_ties_best:
  assumes "bids \<noteq> []"
  shows "handle_ties bids \<in> set bids \<and> list_all (\<lambda>b. ab_reputation b < ab_reputation (handle_ties bids) \<or>
    ab_reputation b = ab_reputation (handle_ties bids) \<and> ab_timestamp (handle_ties bids) \<le> ab_timestamp b) bids"
proof -
  define by_rep where "by_rep = sort_key (\<lambda>b. - ab_reputation b) bids"
  define top where "top = filter (\<lambda>b. ab_reputation b = ab_reputation (hd by_rep)) by_rep"
  have h: "hd by_rep \<in> set bids" "\<And>b. b \<in> set bids \<Longrightarrow> ab_reputation b \<le> ab_reputation (hd by_rep)"
    using hd_sort_key [OF assms, of "\<lambda>b. - ab_reputation b"] by (auto simp: by_rep_def list_all_iff)
  have set_top: "set top = {b \<in> set bids. ab_reputation b = ab_reputation (hd by_rep)}" by (auto simp: top_def by_rep_def)
  then have "top \<noteq> []" using h(1) by auto
  then obtain t ts where top: "top = t # ts" by (cases top) auto
  have w: "handle_ties bids = min_by ab_timestamp t ts"
    by (cases ts) (simp_all add: handle_ties_def by_rep_def [symmetric] top_def [symmetric] top Let_def)
  have "handle_ties bids \<in> set top" "\<And>b. b \<in> set top \<Longrightarrow> ab_timestamp (handle_ties bids) \<le> ab_timestamp b"
    using min_by_least [of ab_timestamp t ts] unfolding w top by (auto simp: list_all_iff)
  with set_top h(2) show ?thesis by (fastforce simp: list_all_iff order.strict_iff_order)
qed

lemma select_winner_best:
  assumes "bids \<noteq> []"
  shows "\<exists>w. select_winner bids budget = Some w \<and> w \<in> set bids \<and> list_all (beaten_by budget w) bids"
proof -
  define scored where "scored = sort_key (\<lambda>x. - fst x) (map (\<lambda>b. (score_bid b budget, b)) bids)"
  define tied where "tied = map snd (filter (\<lambda>(score, b). score = fst (hd scored)) scored)"
  have h: "hd scored \<in> set (map (\<lambda>b. (score_bid b budget, b)) bids)"
    "\<And>b. b \<in> set bids \<Longrightarrow> score_bid b budget \<le> fst (hd scored)"
    using hd_sort_key [of "map (\<lambda>b. (score_bid b budget, b)) bids" "\<lambda>x. - fst x"] assms by (auto simp: scored_def list_all_iff)
  have set_tied: "set tied = {b \<in> set bids. score_bid b budget = fst (hd scored)}" by (force simp: tied_def scored_def)
  then have ne: "tied \<noteq> []" using h(1) by auto
  define w where "w = (if length tied > 1 then handle_ties tied else hd tied)"
  have sel: "select_winner bids budget = Some w"
    using assms by (simp add: select_winner_def scored_def [symmetric] tied_def [symmetric] w_def Let_def del: length_map)
  have best: "w \<in> set tied \<and> list_all (\<lambda>b. ab_reputation b < ab_reputation w \<or>
      ab_reputation b = ab_reputation w \<and> ab_timestamp w \<le> ab_timestamp b) tied"
  proof (cases "length tied > 1")
    case True
    with handle_ties_best [OF ne] show ?thesis by (simp add: w_def)
  next
    case False
    with ne obtain x where "tied = [x]" by (cases tied) auto
    then show ?thesis by (simp add: w_def)
  qed
  have "beaten_by budget w b" if b: "b \<in> set bids" for b
  proof (cases "score_bid b budget = fst (hd scored)")
    case True
    with best b show ?thesis by (auto simp: beaten_by_def set_tied list_all_iff)
  next
    case False
    with best b h(2) [OF b] show ?thesis by (auto simp: beaten_by_def set_tied)
  qed
  with sel best set_tied show ?thesis by (auto simp: list_all_iff)
qed

section \<open>Runs of auctions\<close>

datatype auction_cmd =
    StartAuction string pyfloat int
  | AcceptBid string string auction_proposal int
  | CloseAuction string
  | TimeoutAuction string

fun auction_step :: "auction_cmd \<Rightarrow> auction_manager \<Rightarrow> unit + auction_manager" where
  "auction_step (StartAuction i b now) m = Inr (snd (start_auction i b now m))"
| "auction_step (AcceptBid i a p now) m = Inr (snd (accept_auction_bid i a p now m))"
| "auction_step (CloseAuction i) m = Inr (snd (close_auction i m))"
| "auction_step (TimeoutAuction i) m = Inr (snd (timeout_auction i m))"

definition sound_auction :: "auction \<Rightarrow> bool" where
  "sound_auction a \<longleftrightarrow> list_all (\<lambda>b. ab_cost b \<le> au_budget a) (au_bids a) \<and>
     (case au_extensions a of None \<Rightarrow> True | Some n \<Rightarrow> 0 \<le> n \<and> n \<le> 3)"

definition auctions_ok :: "auction_manager \<Rightarrow> bool" where
  "auctions_ok m \<longleftrightarrow> (\<forall>i a. map_of (am_auctions m) i = Some a \<longrightarrow> sound_auction a)"

lemma auctions_okD: "auctions_ok m \<Longrightarrow> map_of (am_auctions m) i = Some a \<Longrightarrow> sound_auction a"
  by (simp add: auctions_ok_def)

lemma auctions_ok_put: "auctions_ok m \<Longrightarrow> sound_auction a \<Longrightarrow> auctions_ok (put_auction i a m)"
  by (auto simp: auctions_ok_def put_auction_def)

lemma sound_anti_snipe: "sound_auction a \<Longrightarrow> sound_auction (anti_snipe w now a)"
  by (auto simp: sound_auction_def anti_snipe_def or_default_def Let_def split: option.splits)

lemma anti_snipe_frame [simp]: "au_budget (anti_snipe w now a) = au_budget a" "au_bids (anti_snipe w now a) = au_bids a"
  "au_status (anti_snipe w now a) = au_status a"
  by (simp_all add: anti_snipe_def Let_def)

interpretation auctions: guarded_machine auction_step auctions_ok
proof
  fix m c m'
  assume ok: "auctions_ok m" and s: "auction_step c m = Inr m'"
  show "auctions_ok m'"
  proof (cases c)
    case (StartAuction i b now)
    have "sound_auction \<lparr>au_budget = b, au_bids = [], au_start_time = now, au_status = Open, au_round = 1, au_extensions = None\<rparr>"
      by (simp add: sound_auction_def)
    with ok s show ?thesis by (auto simp: StartAuction start_auction_def Let_def intro: auctions_ok_put)
  next
    case (AcceptBid i a p now)
    have bid: "sound_auction (anti_snipe w now x\<lparr>au_bids := au_bids x @ [b]\<rparr>)" if "sound_auction x" "ab_cost b \<le> au_budget x" for x b w
      using sound_anti_snipe [OF that(1), of w now] that(2) by (simp add: sound_auction_def)
    have "auctions_ok (snd (accept_auction_bid i a p now m))"
    proof (cases "fst (accept_auction_bid i a p now m)")
      case True
      then obtain x where x: "map_of (am_auctions m) i = Some x" "or_default 0 (ap_cost p) \<le> au_budget x"
        by (auto simp: accept_auction_bid_def Let_def split: option.splits if_splits)
      with True show ?thesis
        by (auto simp: accept_auction_bid_def Let_def intro!: auctions_ok_put [OF ok] bid auctions_okD [OF ok x(1)] split: if_splits)
    next
      case False
      with ok show ?thesis by (auto simp: accept_auction_bid_def Let_def split: option.splits if_splits)
    qed
    with s show ?thesis by (simp add: AcceptBid)
  next
    case (CloseAuction i)
    have "sound_auction (x\<lparr>au_status := st\<rparr>) = sound_auction x" for x st by (simp add: sound_auction_def)
    then show ?thesis using ok s
      by (auto simp: CloseAuction close_auction_def intro!: auctions_ok_put dest: auctions_okD split: option.splits)
  next
    case (TimeoutAuction i)
    have "sound_auction (x\<lparr>au_status := st\<rparr>) = sound_auction x" for x st by (simp add: sound_auction_def)
    then show ?thesis using ok s
      by (auto simp: TimeoutAuction timeout_auction_def intro!: auctions_ok_put dest: auctions_okD split: option.splits)
  qed
qed

text \<open>
  Claim C36.  After any calls, closing an auction with bids chooses one of them: its cost is within the budget, and every
  other bid has a lower score, or the same score and a lower reputation, or the same of both and is not earlier.  Without
  bids there is no winner.
\<close>

theorem auction_winner_exact:
  assumes "m = run_cmds auction_step cs (new_auction_manager window)" and "map_of (am_auctions m) i = Some a"
  shows "(au_bids a = [] \<longrightarrow> fst (close_auction i m) = None) \<and>
    (au_bids a \<noteq> [] \<longrightarrow> (\<exists>w. fst (close_auction i m) = Some w \<and> w \<in> set (au_bids a) \<and> ab_cost w \<le> au_budget a \<and>
       list_all (beaten_by (au_budget a) w) (au_bids a)))"
proof -
  have "auctions_ok (new_auction_manager window)" by (simp add: auctions_ok_def new_auction_manager_def)
  then have "auctions_ok m" unfolding assms(1) by (rule auctions.run_inv)
  then have "list_all (\<lambda>b. ab_cost b \<le> au_budget a) (au_bids a)" using assms(2) by (simp add: auctions_ok_def sound_auction_def)
  with select_winner_best [of "au_bids a" "au_budget a"] assms(2) show ?thesis
    by (auto simp: close_auction_def select_winner_def list_all_iff)
qed

section \<open>Late bids\<close>

lemma above_window:
  assumes "0 \<le> w" and "w \<le> 2 ^ 22" and "of_int w + 1 / 1000000000 \<le> x"
  shows "of_int w < rnd x"
proof -
  let ?y = "of_int (w * 2 ^ 30 + 1) * pow2 (- 30) :: rat"
  have y: "?y = of_int w + 1 / 1073741824" by (simp add: pow2_def field_simps)
  have "\<bar>w * 2 ^ 30 + 1\<bar> \<le> 2 ^ 53" using assms(1,2) by simp
  then have "rnd ?y = ?y" by (rule rnd_exact [OF refl])
  moreover have "?y \<le> x" using assms(3) unfolding y by linarith
  ultimately have "?y \<le> rnd x" using rnd_mono [of ?y x] by simp
  then show ?thesis unfolding y by linarith
qed

lemma last_seconds:
  assumes "5 \<le> w" and "w \<le> 2 ^ 22" and "time_until_close w now a < 5"
  shows "of_int (w - 5) + 1 / 1000000000 \<le> (of_int (now - au_start_time a) / 1000000000 :: rat)"
proof -
  let ?x = "of_int (now - au_start_time a) / 1000000000 :: rat"
  have "\<not> ?x \<le> of_int (w - 5)"
  proof
    assume "?x \<le> of_int (w - 5)"
    then have "rnd ?x \<le> of_int (w - 5)" using assms(1,2) by (intro rnd_le_int) simp_all
    then have "of_int 5 \<le> of_int w - rnd ?x" by simp
    then have "of_int 5 \<le> rnd (of_int w - rnd ?x)" by (rule rnd_ge_int) simp
    moreover have "to_float w = of_int w" using assms(1,2) by (intro to_float_exact) simp
    ultimately show False using assms(3) by (simp add: time_until_close_def elapsed_seconds_def fsub_def)
  qed
  then have "of_int ((w - 5) * 1000000000) < (of_int (now - au_start_time a) :: rat)" by (simp add: field_simps)
  then have "(w - 5) * 1000000000 + 1 \<le> now - au_start_time a" by (simp only: of_int_less_iff)
  then have "of_int ((w - 5) * 1000000000 + 1) \<le> (of_int (now - au_start_time a) :: rat)" by (simp only: of_int_le_iff)
  then show ?thesis by (simp add: field_simps)
qed

text \<open>
  A bid that is accepted in the last five seconds of the window, and should extend it by five, ends it: the
  start of the auction is moved back, so every bid from that moment on is refused, whatever it offers and whoever makes
  it.
\<close>

theorem late_bid_ends_auction:
  assumes "accept_auction_bid i agent p now m = (True, m')" and "map_of (am_auctions m) i = Some a"
    and "time_until_close (am_bid_window m) now a < 5" and "or_default 0 (au_extensions a) < 3"
    and "5 \<le> am_bid_window m" and "am_bid_window m \<le> 2 ^ 22" and "now \<le> later"
  shows "accept_auction_bid i agent' p' later m' = (False, m')"
proof -
  let ?w = "am_bid_window m"
  obtain e bs where m': "m' = put_auction i (a\<lparr>au_start_time := au_start_time a - 5000000000, au_extensions := e, au_bids := bs\<rparr>) m"
    using assms(1-4) by (auto simp: accept_auction_bid_def anti_snipe_def Let_def split: if_splits)
  have "of_int (?w - 5) + 1 / 1000000000 \<le> (of_int (now - au_start_time a) / 1000000000 :: rat)"
    by (rule last_seconds) (use assms in auto)
  moreover have "(of_int (now - au_start_time a) :: rat) \<le> of_int (later - au_start_time a)" using assms(7) by simp
  ultimately have "of_int ?w + 1 / 1000000000 \<le> (of_int (later - (au_start_time a - 5000000000)) / 1000000000 :: rat)"
    by (simp add: field_simps)
  then have "of_int ?w < rnd (of_int (later - (au_start_time a - 5000000000)) / 1000000000)"
    using assms(5,6) by (intro above_window) auto
  then show ?thesis by (simp add: m' accept_auction_bid_def put_auction_def elapsed_seconds_def)
qed

section \<open>Backoff\<close>

text \<open>
  With the default parameters the delay after n failed attempts is within half a second of 2 ^ n seconds,
  capped at 60, and never negative; from attempt 1024 on the computation raises an exception instead of staying at the
  cap.
\<close>

theorem default_backoff_exact:
  assumes "0 \<le> r" and "r \<le> 1"
  shows "(if n < 1024
     then \<exists>d. calculate_backoff n 1 60 (1 / 2) r = Inr d \<and> 0 \<le> d \<and> min (2 ^ n) 60 - 1 / 2 \<le> d \<and> d \<le> min (2 ^ n) 60 + 1 / 2
     else calculate_backoff n 1 60 (1 / 2) r = Inl PyOverflowError)"
proof (cases "n < 1024")
  case True
  define c :: pyfloat where "c = min (2 ^ n) 60"
  have p: "rnd (2 ^ n) = (2 ^ n :: rat)" using rnd_exact [of "2 ^ n" 1 "int n"] by (simp add: pow2_of_nat)
  have rat_min: "min (2 ^ n) 60 = (of_int (min (2 ^ n) 60) :: rat)" by (simp add: of_int_min)
  define k :: int where "k = min (2 ^ n) 60"
  have k: "c = of_int k" "1 \<le> k" "k \<le> 60" using rat_min by (simp_all add: c_def k_def)
  have one: "rnd 1 = (1 :: rat)" using rnd_of_int [of 1] by simp
  have h: "rnd (1 / 2) = 1 / 2" "rnd (- 1 / 2) = - 1 / 2" using rnd_half [of 1] rnd_half [of "- 1"] by simp_all
  have r: "0 \<le> rnd r" "rnd r \<le> 1" using assms rnd_nonneg [of r] rnd_le_int [of r 1] by simp_all
  define u where "u = rnd (- 1 / 2 + rnd r)"
  have u: "- 1 / 2 \<le> u" "u \<le> 1 / 2"
    using r rnd_mono [of "- 1 / 2" "- 1 / 2 + rnd r"] rnd_mono [of "- 1 / 2 + rnd r" "1 / 2"] h by (simp_all add: u_def)
  have half: "rnd (of_int (2 * k + s) / 2) = of_int (2 * k + s) / 2" if "\<bar>s\<bar> \<le> 1" for s
    using k(2,3) that by (intro rnd_half) auto
  have "of_int (2 * k - 1) / 2 \<le> rnd (c + u)"
    using rnd_mono [of "of_int (2 * k - 1) / 2" "c + u"] half [of "- 1"] u k(1) by simp
  moreover have "rnd (c + u) \<le> of_int (2 * k + 1) / 2"
    using rnd_mono [of "c + u" "of_int (2 * k + 1) / 2"] half [of 1] u k(1) by simp
  ultimately have d: "c - 1 / 2 \<le> rnd (c + u)" "rnd (c + u) \<le> c + 1 / 2" using k(1) by simp_all
  have "calculate_backoff n 1 60 (1 / 2) r = Inr (max 0 (rnd (c + u)))"
    using True by (simp add: calculate_backoff_def fmul_def fadd_def fsub_def p one c_def u_def)
  moreover have "(1 :: rat) \<le> c" using k by simp
  ultimately show ?thesis using d True by (auto simp: c_def [symmetric])
next
  case False
  then show ?thesis by (simp add: calculate_backoff_def)
qed

section \<open>Examples\<close>

definition demo_proposal :: "pyfloat \<Rightarrow> auction_proposal" where
  "demo_proposal c = \<lparr>ap_proposal_id = None, ap_cost = Some c, ap_eta = None, ap_reputation = None, ap_capabilities = None\<rparr>"

definition demo_auctions :: auction_manager where
  "demo_auctions = run_cmds auction_step [StartAuction ''n'' 100 0, AcceptBid ''n'' ''a'' (demo_proposal 50) 1000000000]
     (new_auction_manager 30)"

lemma demo_auction:
  "map_of (am_auctions demo_auctions) ''n'' = Some \<lparr>au_budget = 100, au_bids = [\<lparr>ab_agent_id = ''a'', ab_proposal_id = [],
     ab_cost = 50, ab_eta = 0, ab_reputation = 1 / 2, ab_capabilities = [], ab_timestamp = 1000000000\<rparr>], au_start_time = 0,
     au_status = Open, au_round = 1, au_extensions = None\<rparr>"
  by code_simp

lemma auction_winner_exact_witness:
  "\<exists>w. fst (close_auction ''n'' demo_auctions) = Some w \<and> ab_cost w \<le> 100"
  using auction_winner_exact [OF demo_auctions_def demo_auction] by auto

lemma late_bid_ends_auction_witness:
  "fst (accept_auction_bid ''n'' ''c'' (demo_proposal 10) 27000000001
     (snd (accept_auction_bid ''n'' ''b'' (demo_proposal 40) 27000000000 demo_auctions))) = False"
proof -
  obtain m' where m': "accept_auction_bid ''n'' ''b'' (demo_proposal 40) 27000000000 demo_auctions = (True, m')"
  proof -
    have "fst (accept_auction_bid ''n'' ''b'' (demo_proposal 40) 27000000000 demo_auctions)" by code_simp
    then show ?thesis using that by (cases "accept_auction_bid ''n'' ''b'' (demo_proposal 40) 27000000000 demo_auctions") simp
  qed
  have w: "am_bid_window demo_auctions = 30" by code_simp
  have "rnd 27 = 27" "rnd 30 = 30" "rnd 3 = 3" using rnd_of_int [of 27] rnd_of_int [of 30] rnd_of_int [of 3] by simp_all
  with late_bid_ends_auction [OF m' demo_auction, of 27000000001] show ?thesis
    by (simp add: w m' time_until_close_def elapsed_seconds_def to_float_def fsub_def or_default_def)
qed

lemma default_backoff_exact_witness: "\<exists>d. calculate_backoff 3 1 60 (1 / 2) (1 / 4) = Inr d \<and> d \<le> 8 + 1 / 2"
  using default_backoff_exact [of "1 / 4" 3] by auto

end
