(* ===== verification/Market.thy ===== *)
theory Market
  imports Stake Tables PyFloat
begin

text \<open>
  The task marketplace (\<open>marketplace/market.py\<close>) and the registry of agents (\<open>marketplace/registry.py\<close>), each over one
  SQLite connection.  Python opens a transaction at the first change and these classes never roll back: a call that
  raises leaves what it wrote before, and the next commit of any call makes it permanent.  Foreign keys are not enforced.
  Times are readings of \<open>time.time()\<close> (\<open>clock i\<close> where a call takes several), \<open>avg\<close> is SQLite's \<open>AVG\<close>; rows that \<open>ORDER BY\<close> does not separate keep the
  order of insertion.
\<close>

section \<open>Tasks and bids\<close>

datatype market_status = OPEN | BIDDING | ASSIGNED | COMPLETED | CANCELLED

datatype bid_status = Pending | Accepted | Rejected

datatype market_error = IntegrityError | MarketValueError string

record market_task =
  mt_description :: string
  mt_capabilities_required :: "string list"
  mt_budget :: pyfloat
  mt_deadline :: "pyfloat option"
  mt_status :: market_status
  mt_poster_id :: string
  mt_assigned_to :: "string option"
  mt_created_at :: pyfloat

record market_bid =
  mb_task_id :: string
  mb_agent_id :: string
  mb_amount :: pyfloat
  mb_estimated_time :: pyfloat
  mb_message :: string
  mb_created_at :: pyfloat
  mb_status :: bid_status

record agent_rating =
  ar_agent_id :: string
  ar_rater_id :: string
  ar_rating :: pyfloat
  ar_comment :: string
  ar_created_at :: pyfloat

record price_row =
  pw_capability :: string
  pw_price :: pyfloat
  pw_recorded_at :: pyfloat

record market_db =
  md_tasks :: "(string, market_task) table"
  md_bids :: "(string, market_bid) table"
  md_ratings :: "agent_rating list"
  md_prices :: "price_row list"

definition empty_market :: market_db where
  "empty_market = \<lparr>md_tasks = [], md_bids = [], md_ratings = [], md_prices = []\<rparr>"

definition post_task ::
  "string \<Rightarrow> string \<Rightarrow> string list \<Rightarrow> pyfloat \<Rightarrow> string \<Rightarrow> pyfloat option \<Rightarrow> (nat \<Rightarrow> pyfloat) \<Rightarrow> market_db \<Rightarrow> market_error + market_db" where
  "post_task task_id description capabilities_required budget poster_id deadline clock db =
     (if has_key task_id (md_tasks db) then Inl IntegrityError
      else Inr (db\<lparr>md_tasks := add_row task_id \<lparr>mt_description = description, mt_capabilities_required = capabilities_required,
                 mt_budget = budget, mt_deadline = deadline, mt_status = OPEN, mt_poster_id = poster_id, mt_assigned_to = None,
                 mt_created_at = clock 0\<rparr> (md_tasks db),
               md_prices := md_prices db @
                 map (\<lambda>(i, c). \<lparr>pw_capability = c, pw_price = budget, pw_recorded_at = clock i\<rparr>) (enumerate 1 capabilities_required)\<rparr>))"

definition list_available_tasks ::
  "string list \<Rightarrow> pyfloat option \<Rightarrow> market_status option \<Rightarrow> market_db \<Rightarrow> (string \<times> market_task) list" where
  "list_available_tasks capabilities max_budget status db =
     filter (\<lambda>(i, t). list_all (\<lambda>c. c \<in> set (mt_capabilities_required t)) capabilities)
       (sort_key (\<lambda>(i, t). - mt_created_at t)
         (filter (\<lambda>(i, t). mt_status t = (case status of None \<Rightarrow> OPEN | Some s \<Rightarrow> s) \<and>
            (case max_budget of None \<Rightarrow> True | Some b \<Rightarrow> mt_budget t \<le> b)) (md_tasks db)))"

definition submit_bid ::
  "string \<Rightarrow> string \<Rightarrow> string \<Rightarrow> pyfloat \<Rightarrow> pyfloat \<Rightarrow> string \<Rightarrow> pyfloat \<Rightarrow> market_db \<Rightarrow> market_error + market_db" where
  "submit_bid bid_id task_id agent_id amount estimated_time message now db =
     (if has_key bid_id (md_bids db) then Inl IntegrityError
      else Inr (db\<lparr>md_bids := add_row bid_id \<lparr>mb_task_id = task_id, mb_agent_id = agent_id, mb_amount = amount,
                 mb_estimated_time = estimated_time, mb_message = message, mb_created_at = now, mb_status = Pending\<rparr> (md_bids db),
               md_tasks := update_row task_id (\<lambda>t. t\<lparr>mt_status := BIDDING\<rparr>) (md_tasks db)\<rparr>))"

definition get_bid_history :: "string \<Rightarrow> market_db \<Rightarrow> (string \<times> market_bid) list" where
  "get_bid_history task_id db =
     sort_key (\<lambda>(i, b). mb_amount b) (sort_key (\<lambda>(i, b). mb_created_at b) (filter (\<lambda>(i, b). mb_task_id b = task_id) (md_bids db)))"

definition decide_bid :: "string \<Rightarrow> string \<Rightarrow> string \<Rightarrow> market_bid \<Rightarrow> market_bid" where
  "decide_bid bid_id task_id i b =
     (if i = bid_id then b\<lparr>mb_status := Accepted\<rparr> else if mb_task_id b = task_id then b\<lparr>mb_status := Rejected\<rparr> else b)"

definition accept_bid :: "string \<Rightarrow> market_db \<Rightarrow> bool \<times> market_db" where
  "accept_bid bid_id db =
     (case map_of (md_bids db) bid_id of
        None \<Rightarrow> (False, db)
      | Some bid \<Rightarrow>
          (True, db\<lparr>md_bids := map (\<lambda>(i, b). (i, decide_bid bid_id (mb_task_id bid) i b)) (md_bids db),
                    md_tasks := update_row (mb_task_id bid)
                      (\<lambda>t. t\<lparr>mt_status := ASSIGNED, mt_assigned_to := Some (mb_agent_id bid)\<rparr>) (md_tasks db)\<rparr>))"

definition rate_agent :: "string \<Rightarrow> string \<Rightarrow> pyfloat \<Rightarrow> string \<Rightarrow> pyfloat \<Rightarrow> market_db \<Rightarrow> market_error + market_db" where
  "rate_agent agent_id rater_id rating comment now db =
     (if \<not> (0 \<le> rating \<and> rating \<le> 5) then Inl (MarketValueError ''Rating must be between 0.0 and 5.0'')
      else Inr (db\<lparr>md_ratings := md_ratings db @
        [\<lparr>ar_agent_id = agent_id, ar_rater_id = rater_id, ar_rating = rating, ar_comment = comment, ar_created_at = now\<rparr>]\<rparr>))"

section \<open>Analytics\<close>

definition ratings_of :: "string \<Rightarrow> market_db \<Rightarrow> agent_rating list" where
  "ratings_of agent_id db = filter (\<lambda>r. ar_agent_id r = agent_id) (md_ratings db)"

record rating_summary =
  rs_total_ratings :: nat
  rs_avg_rating :: pyfloat
  rs_min_rating :: pyfloat
  rs_max_rating :: pyfloat
  rs_recent_ratings :: "agent_rating list"

fun least :: "pyfloat \<Rightarrow> pyfloat list \<Rightarrow> pyfloat" where
  "least x [] = x"
| "least x (y # ys) = least (min x y) ys"

fun greatest :: "pyfloat \<Rightarrow> pyfloat list \<Rightarrow> pyfloat" where
  "greatest x [] = x"
| "greatest x (y # ys) = greatest (max x y) ys"

definition get_agent_ratings :: "(pyfloat list \<Rightarrow> pyfloat) \<Rightarrow> string \<Rightarrow> market_db \<Rightarrow> rating_summary" where
  "get_agent_ratings avg agent_id db =
     (let rs = map ar_rating (ratings_of agent_id db);
          recent = take 10 (sort_key (\<lambda>r. - ar_created_at r) (ratings_of agent_id db))
      in case rs of
           [] \<Rightarrow> \<lparr>rs_total_ratings = 0, rs_avg_rating = 0, rs_min_rating = 0, rs_max_rating = 0, rs_recent_ratings = recent\<rparr>
         | r # rest \<Rightarrow> \<lparr>rs_total_ratings = length rs, rs_avg_rating = avg rs, rs_min_rating = least r rest,
             rs_max_rating = greatest r rest, rs_recent_ratings = recent\<rparr>)"

definition get_leaderboard :: "(pyfloat list \<Rightarrow> pyfloat) \<Rightarrow> int \<Rightarrow> market_db \<Rightarrow> (nat \<times> string \<times> pyfloat \<times> nat) list" where
  "get_leaderboard avg limit db =
     (let agents = remdups (map ar_agent_id (md_ratings db));
          rated = filter (\<lambda>(a, v, n). n \<ge> 3) (map (\<lambda>a. (a, avg (map ar_rating (ratings_of a db)), length (ratings_of a db))) agents);
          rows = sql_limit limit (sort_key (\<lambda>(a, v, n). - v) (sort_key (\<lambda>(a, v, n). - int n) rated))
      in enumerate 1 rows)"

datatype trend = Up | Down | Stable

record price_trend =
  pt_capability :: string
  pt_avg_price :: pyfloat
  pt_min_price :: pyfloat
  pt_max_price :: pyfloat
  pt_total_tasks :: nat
  pt_trend_direction :: trend

definition trend_of :: "(pyfloat list \<Rightarrow> pyfloat) \<Rightarrow> string \<Rightarrow> pyfloat list \<Rightarrow> price_trend" where
  "trend_of avg capability prices =
     (let v = avg prices; mn = least (hd prices) (tl prices); mx = greatest (hd prices) (tl prices)
      in \<lparr>pt_capability = capability, pt_avg_price = v, pt_min_price = mn, pt_max_price = mx, pt_total_tasks = length prices,
          pt_trend_direction = (if mx > fmul v (rnd (12 / 10)) then Up else if mn < fmul v (rnd (8 / 10)) then Down else Stable)\<rparr>)"

text \<open>An empty capability asks for all of them, like none.\<close>

definition track_price_trends ::
  "(pyfloat list \<Rightarrow> pyfloat) \<Rightarrow> string option \<Rightarrow> int \<Rightarrow> pyfloat \<Rightarrow> market_db \<Rightarrow> price_trend list" where
  "track_price_trends avg capability days now db =
     (let cutoff = fsub now (to_float (days * 24 * 3600));
          rows = filter (\<lambda>r. pw_recorded_at r > cutoff \<and>
            (case capability of None \<Rightarrow> True | Some c \<Rightarrow> c = [] \<or> pw_capability r = c)) (md_prices db)
      in map (\<lambda>c. trend_of avg c (map pw_price (filter (\<lambda>r. pw_capability r = c) rows))) (remdups (map pw_capability rows)))"

section \<open>The registry of agents\<close>

datatype agent_status = ACTIVE | INACTIVE | SUSPENDED

record manifest =
  mf_capabilities :: "string list option"
  mf_has_pricing :: bool
  mf_tags :: "string list option"

record registration =
  rg_registration_id :: string
  rg_manifest :: manifest
  rg_stake :: pyfloat
  rg_status :: agent_status
  rg_registered_at :: pyfloat
  rg_updated_at :: pyfloat

record agent_stats =
  as_total_tasks :: int
  as_completed_tasks :: int
  as_failed_tasks :: int
  as_total_response_time_ms :: pyfloat
  as_total_earnings :: pyfloat
  as_reputation_score :: pyfloat
  as_last_active :: pyfloat
  as_total_uptime_seconds :: pyfloat

record registry_db =
  rd_registrations :: "(string, registration) table"
  rd_capabilities :: "(string \<times> string) list"
  rd_tags :: "(string \<times> string) list"
  rd_stats :: "(string, agent_stats) table"

definition empty_registry :: registry_db where
  "empty_registry = \<lparr>rd_registrations = [], rd_capabilities = [], rd_tags = [], rd_stats = []\<rparr>"

text \<open>One \<open>INSERT\<close> per value; the primary key refuses a pair that is there.\<close>

fun insert_pairs :: "string \<Rightarrow> string list \<Rightarrow> (string \<times> string) list \<Rightarrow> bool \<times> (string \<times> string) list" where
  "insert_pairs agent_id [] t = (True, t)"
| "insert_pairs agent_id (v # vs) t =
     (if (agent_id, v) \<in> set t then (False, t) else insert_pairs agent_id vs (t @ [(agent_id, v)]))"

definition values_of :: "string list option \<Rightarrow> string list" where
  "values_of vs = (case vs of None \<Rightarrow> [] | Some xs \<Rightarrow> xs)"

definition insert_capabilities :: "string \<Rightarrow> manifest \<Rightarrow> registry_db \<Rightarrow> bool \<times> registry_db" where
  "insert_capabilities agent_id mf db =
     (let (ok, caps) = insert_pairs agent_id (values_of (mf_capabilities mf)) (rd_capabilities db)
      in (ok, db\<lparr>rd_capabilities := caps\<rparr>))"

definition insert_tags :: "string \<Rightarrow> manifest \<Rightarrow> registry_db \<Rightarrow> bool \<times> registry_db" where
  "insert_tags agent_id mf db =
     (let (ok, tags) = insert_pairs agent_id (values_of (mf_tags mf)) (rd_tags db) in (ok, db\<lparr>rd_tags := tags\<rparr>))"

text \<open>What a call returns or raises, and the database it leaves.\<close>

definition register_agent ::
  "string \<Rightarrow> manifest \<Rightarrow> pyfloat \<Rightarrow> string \<Rightarrow> pyfloat \<Rightarrow> registry_db \<Rightarrow> (market_error + string) \<times> registry_db" where
  "register_agent agent_id mf stk uuid now db =
     (if mf_capabilities mf = None \<or> \<not> mf_has_pricing mf then (Inl (MarketValueError ''Manifest missing required field''), db)
      else if has_key agent_id (rd_registrations db) then (Inl (MarketValueError ''already registered''), db)
      else if uuid \<in> rg_registration_id ` snd ` set (rd_registrations db) then (Inl IntegrityError, db)
      else let db = db\<lparr>rd_registrations := add_row agent_id \<lparr>rg_registration_id = uuid, rg_manifest = mf, rg_stake = stk,
                 rg_status = ACTIVE, rg_registered_at = now, rg_updated_at = now\<rparr> (rd_registrations db)\<rparr>;
               (ok, db) = insert_capabilities agent_id mf db
           in if \<not> ok then (Inl IntegrityError, db)
              else let (ok, db) = insert_tags agent_id mf db
                in if \<not> ok \<or> has_key agent_id (rd_stats db) then (Inl IntegrityError, db)
                   else (Inr uuid, db\<lparr>rd_stats := add_row agent_id \<lparr>as_total_tasks = 0, as_completed_tasks = 0, as_failed_tasks = 0,
                          as_total_response_time_ms = 0, as_total_earnings = 0, as_reputation_score = rnd (8 / 10),
                          as_last_active = now, as_total_uptime_seconds = 0\<rparr> (rd_stats db)\<rparr>))"

definition update_manifest :: "string \<Rightarrow> manifest \<Rightarrow> pyfloat \<Rightarrow> registry_db \<Rightarrow> (market_error + unit) \<times> registry_db" where
  "update_manifest agent_id mf now db =
     (if \<not> has_key agent_id (rd_registrations db) then (Inl (MarketValueError ''not found''), db)
      else let db = db\<lparr>rd_registrations := update_row agent_id (\<lambda>r. r\<lparr>rg_manifest := mf, rg_updated_at := now\<rparr>) (rd_registrations db),
                       rd_capabilities := filter (\<lambda>(a, c). a \<noteq> agent_id) (rd_capabilities db)\<rparr>;
               (ok, db) = insert_capabilities agent_id mf db
           in if \<not> ok then (Inl IntegrityError, db)
              else let db = db\<lparr>rd_tags := filter (\<lambda>(a, t). a \<noteq> agent_id) (rd_tags db)\<rparr>;
                       (ok, db) = insert_tags agent_id mf db
                in if \<not> ok then (Inl IntegrityError, db) else (Inr (), db))"

record search_filters =
  sf_min_reputation :: "pyfloat option"
  sf_status :: "agent_status option"
  sf_tags :: "string list"

text \<open>\<open>GROUP BY agent_id HAVING COUNT(DISTINCT capability) = len(capabilities)\<close>.\<close>

definition has_capabilities :: "string list \<Rightarrow> string \<Rightarrow> registry_db \<Rightarrow> bool" where
  "has_capabilities capabilities agent_id db \<longleftrightarrow>
     length (remdups (filter (\<lambda>c. c \<in> set capabilities) (map snd (filter (\<lambda>(a, c). a = agent_id) (rd_capabilities db))))) =
       length capabilities"

definition reputation_of :: "string \<Rightarrow> registry_db \<Rightarrow> pyfloat option" where
  "reputation_of agent_id db = map_option as_reputation_score (map_of (rd_stats db) agent_id)"

definition passes_filters :: "search_filters \<Rightarrow> string \<Rightarrow> registration \<Rightarrow> registry_db \<Rightarrow> bool" where
  "passes_filters f agent_id r db \<longleftrightarrow>
     (case sf_min_reputation f of None \<Rightarrow> True | Some m \<Rightarrow> (case reputation_of agent_id db of None \<Rightarrow> False | Some v \<Rightarrow> m \<le> v)) \<and>
     (case sf_status f of None \<Rightarrow> True | Some s \<Rightarrow> rg_status r = s) \<and>
     (sf_tags f = [] \<or> list_ex (\<lambda>t. (agent_id, t) \<in> set (rd_tags db)) (sf_tags f))"

text \<open>\<open>ORDER BY reputation_score DESC, registered_at DESC\<close>: missing scores come last.\<close>

definition search_agents :: "string list \<Rightarrow> search_filters option \<Rightarrow> registry_db \<Rightarrow> (string \<times> registration) list" where
  "search_agents capabilities filters db =
     (let rows = filter (\<lambda>(a, r). (capabilities = [] \<or> has_capabilities capabilities a db) \<and>
            (case filters of None \<Rightarrow> True | Some f \<Rightarrow> passes_filters f a r db)) (rd_registrations db);
          rows = sort_key (\<lambda>(a, r). - rg_registered_at r) rows;
          scored = filter (\<lambda>(a, r). reputation_of a db \<noteq> None) rows
      in sort_key (\<lambda>(a, r). - the (reputation_of a db)) scored @ filter (\<lambda>(a, r). reputation_of a db = None) rows)"

definition record_task_completion :: "string \<Rightarrow> bool \<Rightarrow> pyfloat \<Rightarrow> pyfloat \<Rightarrow> pyfloat \<Rightarrow> registry_db \<Rightarrow> registry_db" where
  "record_task_completion agent_id success response_time_ms earnings now db =
     db\<lparr>rd_stats := update_row agent_id (\<lambda>s. s\<lparr>as_total_tasks := as_total_tasks s + 1,
          as_completed_tasks := as_completed_tasks s + (if success then 1 else 0),
          as_failed_tasks := as_failed_tasks s + (if success then 0 else 1),
          as_total_response_time_ms := fadd (as_total_response_time_ms s) (if success then response_time_ms else 0),
          as_total_earnings := fadd (as_total_earnings s) earnings, as_last_active := now\<rparr>) (rd_stats db)\<rparr>"

definition update_agent_reputation :: "string \<Rightarrow> pyfloat \<Rightarrow> registry_db \<Rightarrow> registry_db" where
  "update_agent_reputation agent_id new_reputation db =
     db\<lparr>rd_stats := update_row agent_id (\<lambda>s. s\<lparr>as_reputation_score := new_reputation\<rparr>) (rd_stats db)\<rparr>"

definition set_agent_status :: "string \<Rightarrow> agent_status \<Rightarrow> pyfloat \<Rightarrow> registry_db \<Rightarrow> registry_db" where
  "set_agent_status agent_id status now db =
     db\<lparr>rd_registrations := update_row agent_id (\<lambda>r. r\<lparr>rg_status := status, rg_updated_at := now\<rparr>) (rd_registrations db)\<rparr>"

record stats_view =
  sv_stats :: agent_stats
  sv_success_rate :: pyfloat
  sv_avg_response_time_ms :: pyfloat
  sv_uptime_percentage :: pyfloat

definition get_agent_stats :: "string \<Rightarrow> pyfloat \<Rightarrow> registry_db \<Rightarrow> stats_view option" where
  "get_agent_stats agent_id now db =
     (case map_of (rd_stats db) agent_id of
        None \<Rightarrow> None
      | Some s \<Rightarrow> Some \<lparr>sv_stats = s,
          sv_success_rate = (if as_total_tasks s > 0 then fdiv (to_float (as_completed_tasks s)) (to_float (as_total_tasks s)) else 0),
          sv_avg_response_time_ms =
            (if as_completed_tasks s > 0 then fdiv (as_total_response_time_ms s) (to_float (as_completed_tasks s)) else 0),
          sv_uptime_percentage =
            (case map_of (rd_registrations db) agent_id of
               None \<Rightarrow> 0
             | Some r \<Rightarrow> let total_time = fsub now (rg_registered_at r)
                 in if total_time > 0 then min 100 (fmul (fdiv (as_total_uptime_seconds s) total_time) 100) else 0)\<rparr>)"

end
