(* ===== verification/MarketProps.thy ===== *)
theory MarketProps
  imports Market
begin

text \<open>
  Correctness of the marketplace and the registry: one accepted bid per task, exact search, and what a registration that
  raises leaves behind.
\<close>

section \<open>Bids\<close>

datatype market_cmd =
    PostTask string string "string list" pyfloat string "pyfloat option" "nat \<Rightarrow> pyfloat"
  | SubmitBid string string string pyfloat pyfloat string pyfloat
  | AcceptBid string
  | RateAgent string string pyfloat string pyfloat

fun market_step :: "market_cmd \<Rightarrow> market_db \<Rightarrow> market_error + market_db" where
  "market_step (PostTask t d c b p dl clock) db = post_task t d c b p dl clock db"
| "market_step (SubmitBid i t a x e m now) db = submit_bid i t a x e m now db"
| "market_step (AcceptBid i) db = Inr (snd (accept_bid i db))"
| "market_step (RateAgent a r x c now) db = rate_agent a r x c now db"

definition accepted_bids :: "string \<Rightarrow> market_db \<Rightarrow> string list" where
  "accepted_bids t db = map fst (filter (\<lambda>(i, b). mb_task_id b = t \<and> mb_status b = Accepted) (md_bids db))"

definition market_ok :: "market_db \<Rightarrow> bool" where
  "market_ok db \<longleftrightarrow> keyed (md_bids db) \<and> (\<forall>t. length (accepted_bids t db) \<le> 1) \<and>
     list_all (\<lambda>r. 0 \<le> ar_rating r \<and> ar_rating r \<le> 5) (md_ratings db)"

lemma decide_bid_task [simp]: "mb_task_id (decide_bid i t j b) = mb_task_id b"
  by (simp add: decide_bid_def)

lemma filter_key: "keyed t \<Longrightarrow> map_of t k = Some v \<Longrightarrow> map fst (filter (\<lambda>(i, b). i = k) t) = [k]"
proof (induction t)
  case (Cons x t)
  then have "keyed t" "fst x \<notin> set (keys t)" by (simp_all add: keyed_def)
  moreover have "map fst (filter (\<lambda>(i, b). i = k) t) = []" if "k \<notin> set (keys t)" using that by (force simp: filter_empty_conv)
  ultimately show ?case using Cons by (cases x) (auto split: if_splits)
qed simp

lemma accepted_after:
  assumes "keyed (md_bids db)" and "map_of (md_bids db) i = Some b"
  shows "accepted_bids t (snd (accept_bid i db)) = (if t = mb_task_id b then [i] else accepted_bids t db)"
proof -
  let ?T = "mb_task_id b"
  have same: "mb_task_id b' = ?T" if "(i, b') \<in> set (md_bids db)" for b'
    using that assms by (simp add: keyed_map_of)
  have "accepted_bids t (snd (accept_bid i db)) =
      map fst (filter (\<lambda>(j, b'). mb_task_id b' = t \<and> mb_status (decide_bid i ?T j b') = Accepted) (md_bids db))"
    using assms(2) by (simp add: accept_bid_def accepted_bids_def filter_map comp_def case_prod_unfold)
  also have "\<dots> = (if t = ?T then map fst (filter (\<lambda>(j, b'). j = i) (md_bids db)) else accepted_bids t db)"
    using same by (auto simp: accepted_bids_def decide_bid_def intro!: arg_cong [where f = "map fst"] filter_cong)
  finally show ?thesis by (simp add: filter_key [OF assms])
qed

lemma market_ok_accept: "market_ok db \<Longrightarrow> market_ok (snd (accept_bid i db))"
proof -
  assume ok: "market_ok db"
  show ?thesis
  proof (cases "map_of (md_bids db) i")
    case None
    then show ?thesis using ok by (simp add: accept_bid_def)
  next
    case (Some b)
    have k: "keyed (md_bids db)" using ok by (simp add: market_ok_def)
    have "keyed (md_bids (snd (accept_bid i db)))"
      using k Some by (simp add: accept_bid_def keyed_def comp_def case_prod_beta)
    moreover have "md_ratings (snd (accept_bid i db)) = md_ratings db" using Some by (simp add: accept_bid_def)
    ultimately show ?thesis using ok accepted_after [OF k Some] by (simp add: market_ok_def)
  qed
qed

interpretation market: guarded_machine market_step market_ok
proof
  fix db c db'
  assume ok: "market_ok db" and s: "market_step c db = Inr db'"
  show "market_ok db'"
  proof (cases c)
    case (SubmitBid i t a x e m now)
    have "accepted_bids t' db' = accepted_bids t' db" for t'
      using s by (auto simp: SubmitBid submit_bid_def accepted_bids_def add_row_def split: if_splits)
    with ok s show ?thesis by (auto simp: SubmitBid submit_bid_def market_ok_def split: if_splits)
  next
    case (AcceptBid i)
    with s show ?thesis using market_ok_accept [OF ok] by auto
  qed (use ok s in \<open>auto simp: post_task_def rate_agent_def market_ok_def accepted_bids_def split: if_splits\<close>)
qed

lemma map_of_map_keyed: "map_of (map (\<lambda>(k, v). (k, f k v)) t) j = map_option (f j) (map_of t j)"
  by (induction t) auto

text \<open>
  Claim C37.  After any calls every task has at most one accepted bid and every rating is between 0 and 5.  Accepting a
  bid that exists makes it the only accepted bid of its task, rejects every other bid of the task and leaves all bids of
  other tasks as they were; the task is assigned to the agent of the bid and no other task changes.  Accepting a bid that
  does not exist changes nothing.
\<close>

theorem one_accepted_bid:
  "let db = run_cmds market_step cs empty_market in
   length (accepted_bids t db) \<le> 1 \<and>
   list_all (\<lambda>r. 0 \<le> ar_rating r \<and> ar_rating r \<le> 5) (md_ratings db) \<and>
   (case map_of (md_bids db) i of
      None \<Rightarrow> accept_bid i db = (False, db)
    | Some b \<Rightarrow> fst (accept_bid i db) \<and>
        accepted_bids t (snd (accept_bid i db)) = (if t = mb_task_id b then [i] else accepted_bids t db) \<and>
        (\<forall>j. map_of (md_bids (snd (accept_bid i db))) j =
           map_option (\<lambda>b'. if j = i then b'\<lparr>mb_status := Accepted\<rparr>
                            else if mb_task_id b' = mb_task_id b then b'\<lparr>mb_status := Rejected\<rparr> else b') (map_of (md_bids db) j)) \<and>
        (\<forall>t'. map_of (md_tasks (snd (accept_bid i db))) t' =
           map_option (\<lambda>x. if t' = mb_task_id b then x\<lparr>mt_status := ASSIGNED, mt_assigned_to := Some (mb_agent_id b)\<rparr> else x)
             (map_of (md_tasks db) t')))"
proof -
  define db where "db = run_cmds market_step cs empty_market"
  have "market_ok empty_market" by (simp add: market_ok_def empty_market_def accepted_bids_def)
  then have ok: "market_ok db" unfolding db_def by (rule market.run_inv)
  have k: "keyed (md_bids db)" and a: "length (accepted_bids t db) \<le> 1"
    and r: "list_all (\<lambda>r. 0 \<le> ar_rating r \<and> ar_rating r \<le> 5) (md_ratings db)"
    using ok by (simp_all add: market_ok_def)
  show ?thesis
  proof (cases "map_of (md_bids db) i")
    case None
    with a r show ?thesis unfolding db_def [symmetric] Let_def by (simp add: accept_bid_def)
  next
    case (Some b)
    have "fst (accept_bid i db)" using Some by (simp add: accept_bid_def)
    moreover have "map_of (md_bids (snd (accept_bid i db))) j =
        map_option (\<lambda>b'. if j = i then b'\<lparr>mb_status := Accepted\<rparr>
          else if mb_task_id b' = mb_task_id b then b'\<lparr>mb_status := Rejected\<rparr> else b') (map_of (md_bids db) j)" for j
      using Some by (cases "map_of (md_bids db) j") (auto simp: accept_bid_def map_of_map_keyed decide_bid_def)
    moreover have "map_of (md_tasks (snd (accept_bid i db))) t' =
        map_option (\<lambda>x. if t' = mb_task_id b then x\<lparr>mt_status := ASSIGNED, mt_assigned_to := Some (mb_agent_id b)\<rparr> else x)
          (map_of (md_tasks db) t')" for t'
      using Some by (cases "map_of (md_tasks db) t'") (auto simp: accept_bid_def)
    ultimately show ?thesis
      using a r accepted_after [OF k Some, of t] Some unfolding db_def [symmetric] Let_def by simp
  qed
qed

text \<open>A bid that comes after the assignment puts the task back to bidding, still assigned and with its accepted bid.\<close>

lemma late_bid_reopens_task:
  assumes "map_of (md_tasks db) t = Some x" and "\<not> has_key i (md_bids db)"
  shows "\<exists>db'. submit_bid i t a v e m now db = Inr db' \<and> accepted_bids t db' = accepted_bids t db \<and>
    map_of (md_tasks db') t = Some (x\<lparr>mt_status := BIDDING\<rparr>)"
  using assms by (auto simp: submit_bid_def accepted_bids_def add_row_def)

section \<open>The registry\<close>

datatype registry_cmd =
    RegisterAgent string manifest pyfloat string pyfloat
  | UpdateManifest string manifest pyfloat
  | TaskDone string bool pyfloat pyfloat pyfloat
  | NewReputation string pyfloat
  | NewStatus string agent_status pyfloat

fun registry_step :: "registry_cmd \<Rightarrow> registry_db \<Rightarrow> unit + registry_db" where
  "registry_step (RegisterAgent a mf s u now) db = Inr (snd (register_agent a mf s u now db))"
| "registry_step (UpdateManifest a mf now) db = Inr (snd (update_manifest a mf now db))"
| "registry_step (TaskDone a b r e now) db = Inr (record_task_completion a b r e now db)"
| "registry_step (NewReputation a v) db = Inr (update_agent_reputation a v db)"
| "registry_step (NewStatus a st now) db = Inr (set_agent_status a st now db)"

text \<open>A manifest that lists no capability and no tag twice.\<close>

definition tidy :: "manifest \<Rightarrow> bool" where
  "tidy mf \<longleftrightarrow> distinct (values_of (mf_capabilities mf)) \<and> distinct (values_of (mf_tags mf))"

fun tidy_cmd :: "registry_cmd \<Rightarrow> bool" where
  "tidy_cmd (RegisterAgent a mf s u now) = tidy mf"
| "tidy_cmd (UpdateManifest a mf now) = tidy mf"
| "tidy_cmd c = True"

lemma insert_pairs_fresh:
  "distinct vs \<Longrightarrow> \<forall>v \<in> set vs. (a, v) \<notin> set t \<Longrightarrow> insert_pairs a vs t = (True, t @ map (Pair a) vs)"
proof (induction vs arbitrary: t)
  case (Cons v vs)
  have "\<forall>w \<in> set vs. (a, w) \<notin> set (t @ [(a, v)])" using Cons.prems by auto
  with Cons show ?case by simp
qed simp

lemma insert_pairs_repeated: "\<not> distinct vs \<Longrightarrow> fst (insert_pairs a vs t) = False"
proof -
  have hit: "fst (insert_pairs a vs t) = False" if "v \<in> set vs" "(a, v) \<in> set t" for v vs t
    using that by (induction vs arbitrary: t) auto
  show "\<not> distinct vs \<Longrightarrow> ?thesis"
  proof (induction vs arbitrary: t)
    case (Cons v vs)
    then show ?case using hit [of v vs "t @ [(a, v)]"] by auto
  qed simp
qed

text \<open>Every table says of an agent what its manifest says.\<close>

definition pairs_of :: "(manifest \<Rightarrow> string list option) \<Rightarrow> (string, registration) table \<Rightarrow> (string \<times> string) set" where
  "pairs_of f rs = {(a, v). \<exists>r. map_of rs a = Some r \<and> v \<in> set (values_of (f (rg_manifest r)))}"

definition registry_ok :: "registry_db \<Rightarrow> bool" where
  "registry_ok db \<longleftrightarrow> keyed (rd_registrations db) \<and>
     set (rd_capabilities db) = pairs_of mf_capabilities (rd_registrations db) \<and>
     set (rd_tags db) = pairs_of mf_tags (rd_registrations db) \<and>
     (\<forall>a. has_key a (rd_stats db) \<longleftrightarrow> has_key a (rd_registrations db))"

lemma pairs_of_add: "\<not> has_key a rs \<Longrightarrow>
    pairs_of f (add_row a r rs) = pairs_of f rs \<union> Pair a ` set (values_of (f (rg_manifest r)))"
  by (auto simp: pairs_of_def has_key_def split: option.splits if_splits)

lemma pairs_of_update: "has_key a rs \<Longrightarrow> (\<And>r. rg_manifest (g r) = mf) \<Longrightarrow>
    pairs_of f (update_row a g rs) = {(b, v) \<in> pairs_of f rs. b \<noteq> a} \<union> Pair a ` set (values_of (f mf))"
  by (auto simp: pairs_of_def has_key_def split: if_splits)

lemma pairs_of_same: "(\<And>r. rg_manifest (g r) = rg_manifest r) \<Longrightarrow> pairs_of f (update_row a g rs) = pairs_of f rs"
  by (auto simp: pairs_of_def split: if_splits)

lemma registry_ok_register:
  assumes "registry_ok db" and "tidy mf"
  shows "registry_ok (snd (register_agent a mf s u now db))"
proof (cases "mf_capabilities mf = None \<or> \<not> mf_has_pricing mf \<or> has_key a (rd_registrations db) \<or>
    u \<in> rg_registration_id ` snd ` set (rd_registrations db)")
  case True
  then show ?thesis using assms(1) by (auto simp: register_agent_def)
next
  case False
  then have new: "\<not> has_key a (rd_registrations db)" "\<not> has_key a (rd_stats db)" using assms(1) by (auto simp: registry_ok_def)
  then have "(a, v) \<notin> set (rd_capabilities db)" "(a, v) \<notin> set (rd_tags db)" for v
    using assms(1) by (auto simp: registry_ok_def pairs_of_def has_key_def)
  then have i: "insert_pairs a (values_of (mf_capabilities mf)) (rd_capabilities db) =
      (True, rd_capabilities db @ map (Pair a) (values_of (mf_capabilities mf)))"
    "insert_pairs a (values_of (mf_tags mf)) (rd_tags db) = (True, rd_tags db @ map (Pair a) (values_of (mf_tags mf)))"
    using assms(2) by (simp_all add: tidy_def insert_pairs_fresh)
  show ?thesis
    using False assms(1) new i
    by (simp add: register_agent_def insert_capabilities_def insert_tags_def registry_ok_def pairs_of_add)
qed

lemma registry_ok_update:
  assumes "registry_ok db" and "tidy mf"
  shows "registry_ok (snd (update_manifest a mf now db))"
proof (cases "has_key a (rd_registrations db)")
  case False
  then show ?thesis using assms(1) by (simp add: update_manifest_def)
next
  case True
  have i: "insert_pairs a (values_of (mf_capabilities mf)) (filter (\<lambda>(b, c). b \<noteq> a) t) =
      (True, filter (\<lambda>(b, c). b \<noteq> a) t @ map (Pair a) (values_of (mf_capabilities mf)))"
    "insert_pairs a (values_of (mf_tags mf)) (filter (\<lambda>(b, c). b \<noteq> a) t) =
      (True, filter (\<lambda>(b, c). b \<noteq> a) t @ map (Pair a) (values_of (mf_tags mf)))" for t
    using assms(2) by (auto simp: tidy_def intro!: insert_pairs_fresh)
  show ?thesis
    using True assms(1) i
    by (auto simp: update_manifest_def insert_capabilities_def insert_tags_def registry_ok_def pairs_of_update)
qed

lemma registry_ok_columns:
  assumes "registry_ok db"
  shows "registry_ok (db\<lparr>rd_stats := update_row a f (rd_stats db)\<rparr>)"
    and "(\<And>r. rg_manifest (g r) = rg_manifest r) \<Longrightarrow> registry_ok (db\<lparr>rd_registrations := update_row a g (rd_registrations db)\<rparr>)"
  using assms by (simp_all add: registry_ok_def pairs_of_same)

lemma registry_ok_step: "registry_ok db \<Longrightarrow> tidy_cmd c \<Longrightarrow> registry_step c db = Inr db' \<Longrightarrow> registry_ok db'"
  by (cases c) (auto simp: registry_ok_register registry_ok_update record_task_completion_def update_agent_reputation_def
      set_agent_status_def registry_ok_columns)

lemma registry_ok_run: "list_all tidy_cmd cs \<Longrightarrow> registry_ok db \<Longrightarrow> registry_ok (run_cmds registry_step cs db)"
proof (induction cs arbitrary: db)
  case (Cons c cs)
  have "registry_ok (attempt registry_step c db)"
    using Cons.prems registry_ok_step [of db c] by (cases c) (auto simp: attempt_def)
  with Cons show ?case by simp
qed simp

lemma card_inter_length: "card (set xs \<inter> C) = length xs \<longleftrightarrow> distinct xs \<and> set xs \<subseteq> C"
proof
  assume eq: "card (set xs \<inter> C) = length xs"
  moreover have "card (set xs \<inter> C) \<le> card (set xs)" by (intro card_mono) auto
  ultimately have c: "card (set xs) = length xs" using card_length [of xs] by linarith
  then have "set xs \<inter> C = set xs" using eq by (intro card_subset_eq) auto
  with c show "distinct xs \<and> set xs \<subseteq> C" by (simp add: card_distinct le_iff_inf)
qed (simp add: Int_absorb2 distinct_card)

lemma has_capabilities_iff:
  assumes "registry_ok db" and "map_of (rd_registrations db) a = Some r"
  shows "has_capabilities caps a db \<longleftrightarrow> distinct caps \<and> set caps \<subseteq> set (values_of (mf_capabilities (rg_manifest r)))"
proof -
  let ?C = "set (values_of (mf_capabilities (rg_manifest r)))"
  have "(a, v) \<in> set (rd_capabilities db) \<longleftrightarrow> v \<in> ?C" for v
    using assms by (simp add: registry_ok_def pairs_of_def)
  moreover have "snd ` {x \<in> S. fst x = a} = {v. (a, v) \<in> S}" for S :: "(string \<times> string) set" by force
  ultimately have "snd ` {x \<in> set (rd_capabilities db). fst x = a} = ?C" by simp
  then have "set (filter (\<lambda>c. c \<in> set caps) (map snd (filter (\<lambda>(b, c). b = a) (rd_capabilities db)))) = set caps \<inter> ?C"
    by (auto simp: case_prod_beta)
  then show ?thesis unfolding has_capabilities_def length_remdups_card_conv by (simp add: card_inter_length)
qed

lemma set_search: "set (search_agents caps fs db) = {(a, r) \<in> set (rd_registrations db).
    (caps = [] \<or> has_capabilities caps a db) \<and> (case fs of None \<Rightarrow> True | Some f \<Rightarrow> passes_filters f a r db)}"
  by (auto simp: search_agents_def Let_def)

text \<open>
  Claim C38.  As long as no manifest lists a capability or a tag twice, a search finds exactly the registered agents whose
  latest manifest has all the capabilities asked for, whose status and reputation meet the filters and which have one of
  the tags; asking for a capability twice finds nobody.
\<close>

theorem search_exact:
  assumes "list_all tidy_cmd cs" and "db = run_cmds registry_step cs empty_registry"
  shows "set (search_agents caps (Some f) db) = {(a, r). map_of (rd_registrations db) a = Some r \<and>
      (caps = [] \<or> distinct caps \<and> set caps \<subseteq> set (values_of (mf_capabilities (rg_manifest r)))) \<and>
      (case sf_min_reputation f of None \<Rightarrow> True
       | Some m \<Rightarrow> \<exists>s. map_of (rd_stats db) a = Some s \<and> m \<le> as_reputation_score s) \<and>
      (case sf_status f of None \<Rightarrow> True | Some st \<Rightarrow> rg_status r = st) \<and>
      (sf_tags f = [] \<or> set (sf_tags f) \<inter> set (values_of (mf_tags (rg_manifest r))) \<noteq> {})}"
proof -
  have "registry_ok empty_registry" by (simp add: registry_ok_def empty_registry_def pairs_of_def has_key_def)
  then have ok: "registry_ok db" unfolding assms(2) by (rule registry_ok_run [OF assms(1)])
  then have k: "keyed (rd_registrations db)" by (simp add: registry_ok_def)
  have "passes_filters f a r db \<longleftrightarrow>
      (case sf_min_reputation f of None \<Rightarrow> True | Some m \<Rightarrow> \<exists>s. map_of (rd_stats db) a = Some s \<and> m \<le> as_reputation_score s) \<and>
      (case sf_status f of None \<Rightarrow> True | Some st \<Rightarrow> rg_status r = st) \<and>
      (sf_tags f = [] \<or> set (sf_tags f) \<inter> set (values_of (mf_tags (rg_manifest r))) \<noteq> {})"
    if "map_of (rd_registrations db) a = Some r" for a r
  proof -
    have "(a, t) \<in> set (rd_tags db) \<longleftrightarrow> t \<in> set (values_of (mf_tags (rg_manifest r)))" for t
      using ok that by (simp add: registry_ok_def pairs_of_def)
    then show ?thesis
      by (auto simp: passes_filters_def reputation_of_def list_ex_iff split: option.splits)
  qed
  then show ?thesis unfolding set_search by (auto simp: keyed_map_of [OF k] has_capabilities_iff [OF ok])
qed

text \<open>
  A registration whose manifest lists a capability twice raises an exception and still registers the agent:
  it is in the table, it has no statistics, and every later registration of the same agent is refused.
\<close>

theorem failed_registration_registers:
  assumes "mf_capabilities mf = Some caps" and "mf_has_pricing mf" and "\<not> distinct caps"
    and "\<not> has_key a (rd_registrations db)" and "u \<notin> rg_registration_id ` snd ` set (rd_registrations db)"
  shows "\<exists>db'. register_agent a mf s u now db = (Inl IntegrityError, db') \<and>
    (\<exists>r. map_of (rd_registrations db') a = Some r \<and> rg_status r = ACTIVE) \<and>
    map_of (rd_stats db') a = map_of (rd_stats db) a \<and>
    (\<exists>e. register_agent a mf' s' u' later db' = (Inl e, db'))"
proof -
  obtain t where t: "insert_pairs a caps (rd_capabilities db) = (False, t)"
    using insert_pairs_repeated [OF assms(3), of a "rd_capabilities db"] by (metis prod.collapse)
  let ?r = "\<lparr>rg_registration_id = u, rg_manifest = mf, rg_stake = s, rg_status = ACTIVE, rg_registered_at = now, rg_updated_at = now\<rparr>"
  let ?db = "db\<lparr>rd_registrations := add_row a ?r (rd_registrations db), rd_capabilities := t\<rparr>"
  have reg: "register_agent a mf s u now db = (Inl IntegrityError, ?db)"
    using assms t by (simp add: register_agent_def insert_capabilities_def values_of_def)
  moreover have "map_of (rd_registrations ?db) a = Some ?r" using assms(4) by (simp add: has_key_def)
  moreover have "\<exists>e. register_agent a mf' s' u' later ?db = (Inl e, ?db)" by (simp add: register_agent_def)
  ultimately show ?thesis by auto
qed

section \<open>Examples\<close>

definition demo_manifest :: "string list \<Rightarrow> manifest" where
  "demo_manifest caps = \<lparr>mf_capabilities = Some caps, mf_has_pricing = True, mf_tags = None\<rparr>"

definition no_filters :: search_filters where
  "no_filters = \<lparr>sf_min_reputation = None, sf_status = None, sf_tags = []\<rparr>"

lemma search_exact_witness:
  "map fst (search_agents [''y''] (Some no_filters) (run_cmds registry_step [RegisterAgent ''a'' (demo_manifest [''x'', ''y'']) 1 ''u'' 5]
     empty_registry)) \<noteq> []"
proof -
  let ?cs = "[RegisterAgent ''a'' (demo_manifest [''x'', ''y'']) 1 ''u'' 5]"
  have t: "list_all tidy_cmd ?cs" by (simp add: tidy_def demo_manifest_def values_of_def)
  have "map_of (rd_registrations (run_cmds registry_step ?cs empty_registry)) ''a'' = Some \<lparr>rg_registration_id = ''u'',
      rg_manifest = demo_manifest [''x'', ''y''], rg_stake = 1, rg_status = ACTIVE, rg_registered_at = 5, rg_updated_at = 5\<rparr>"
    by (simp add: attempt_def register_agent_def insert_capabilities_def insert_tags_def demo_manifest_def values_of_def
        empty_registry_def has_key_def add_row_def)
  then have "search_agents [''y''] (Some no_filters) (run_cmds registry_step ?cs empty_registry) \<noteq> []"
    using search_exact [OF t refl, of "[''y'']" no_filters]
    by (force simp: no_filters_def demo_manifest_def values_of_def simp del: run_cmds.simps)
  then show ?thesis by simp
qed

lemma failed_registration_registers_witness:
  "fst (register_agent ''a'' (demo_manifest [''x'', ''x'']) 1 ''u'' 5 empty_registry) = Inl IntegrityError"
  using failed_registration_registers [of "demo_manifest [''x'', ''x'']" "[''x'', ''x'']" "''a''" empty_registry "''u''" 1 5
      "demo_manifest [''x'']" 1 "''v''" 6]
  by (auto simp: demo_manifest_def empty_registry_def has_key_def)

end
