(* ===== verification/JsonRead.thy ===== *)
theory JsonRead
  imports JsonText "HOL-Library.AList" "HOL-Library.Multiset"
begin

text \<open>
  The reader \<open>json.loads\<close> for the values of the model: objects (the last of several equal keys wins, at the place of the
  first), arrays, strings with their escapes, whole numbers and the three literals, with white space between tokens.  A
  text with a fraction, an exponent, NaN or a character above code point 255 stands for no value of the model and is
  refused.  The fuel counts nested calls; twice the length of the text is enough for every text, and what is written by
  \<open>json.dumps\<close> is read back.
\<close>

section \<open>Tokens\<close>

definition json_space :: "char \<Rightarrow> bool" where
  "json_space c \<longleftrightarrow> (of_char c :: nat) \<in> {32, 9, 10, 13}"

definition skip_ws :: "string \<Rightarrow> string" where
  "skip_ws s = dropWhile json_space s"

definition hex_read :: "char \<Rightarrow> nat option" where
  "hex_read c =
     (let n = of_char c :: nat in
      if 48 \<le> n \<and> n \<le> 57 then Some (n - 48)
      else if 97 \<le> n \<and> n \<le> 102 then Some (n - 87)
      else if 65 \<le> n \<and> n \<le> 70 then Some (n - 55)
      else None)"

definition hex4 :: "char \<Rightarrow> char \<Rightarrow> char \<Rightarrow> char \<Rightarrow> nat option" where
  "hex4 a b c d =
     (case (hex_read a, hex_read b, hex_read c, hex_read d) of
        (Some a, Some b, Some c, Some d) \<Rightarrow> Some (4096 * a + 256 * b + 16 * c + d)
      | _ \<Rightarrow> None)"

definition unescape :: "char \<Rightarrow> char option" where
  "unescape d =
     (if d = dquote \<or> d = CHR 0x5C \<or> d = CHR ''/'' then Some d
      else if d = CHR ''n'' then Some (char_of (10 :: nat))
      else if d = CHR ''r'' then Some (char_of (13 :: nat))
      else if d = CHR ''t'' then Some (char_of (9 :: nat))
      else if d = CHR ''b'' then Some (char_of (8 :: nat))
      else if d = CHR ''f'' then Some (char_of (12 :: nat))
      else None)"

text \<open>The rest of a string after its opening quote, and what follows the closing one.  Control characters must be
  escaped.\<close>

fun scan_string :: "string \<Rightarrow> (string \<times> string) option" where
  "scan_string [] = None"
| "scan_string (c # s) =
     (if c = dquote then Some ([], s)
      else if c = CHR 0x5C then
        (case s of
           [] \<Rightarrow> None
         | d # s1 \<Rightarrow>
             if d = CHR ''u'' then
               (case s1 of
                  h1 # h2 # h3 # h4 # s2 \<Rightarrow>
                    (case hex4 h1 h2 h3 h4 of
                       None \<Rightarrow> None
                     | Some n \<Rightarrow> if n < 256 then map_option (apfst (Cons (char_of n))) (scan_string s2) else None)
                | _ \<Rightarrow> None)
             else
               (case unescape d of None \<Rightarrow> None | Some x \<Rightarrow> map_option (apfst (Cons x)) (scan_string s1)))
      else if (of_char c :: nat) < 32 then None
      else map_option (apfst (Cons c)) (scan_string s))"

definition scan_nat :: "string \<Rightarrow> (nat \<times> string) option" where
  "scan_nat s =
     (case s of
        [] \<Rightarrow> None
      | c # r \<Rightarrow>
          if c = CHR ''0'' then Some (0, r)
          else if is_digit c then map_option (\<lambda>n. (n, dropWhile is_digit s)) (digits_value 0 False (takeWhile is_digit s))
          else None)"

definition scan_int :: "string \<Rightarrow> (json \<times> string) option" where
  "scan_int s =
     (case s of
        [] \<Rightarrow> None
      | c # r \<Rightarrow>
          if c = CHR ''-'' then map_option (\<lambda>(n, q). (JInt (- int n), q)) (scan_nat r)
          else map_option (\<lambda>(n, q). (JInt (int n), q)) (scan_nat s))"

definition scan_literal :: "string \<Rightarrow> (json \<times> string) option" where
  "scan_literal s =
     (if take 4 s = ''null'' then Some (JNull, drop 4 s)
      else if take 4 s = ''true'' then Some (JBool True, drop 4 s)
      else if take 5 s = ''false'' then Some (JBool False, drop 5 s)
      else scan_int s)"

section \<open>Values\<close>

definition dict_of :: "(string \<times> json) list \<Rightarrow> (string \<times> json) list" where
  "dict_of ms = fold (\<lambda>(k, v). AList.update k v) ms []"

text \<open>A value; the elements of an array after the opening bracket or a comma; the members of an object likewise.\<close>

fun parse_value :: "nat \<Rightarrow> string \<Rightarrow> (json \<times> string) option"
  and parse_elems :: "nat \<Rightarrow> string \<Rightarrow> (json list \<times> string) option"
  and parse_members :: "nat \<Rightarrow> string \<Rightarrow> ((string \<times> json) list \<times> string) option" where
  "parse_value 0 s = None"
| "parse_value (Suc n) s =
     (case skip_ws s of
        [] \<Rightarrow> None
      | c # r \<Rightarrow>
          if c = dquote then map_option (apfst JStr) (scan_string r)
          else if c = CHR ''['' then
            (case skip_ws r of
               [] \<Rightarrow> None
             | d # q \<Rightarrow> if d = CHR '']'' then Some (JList [], q) else map_option (apfst JList) (parse_elems n (d # q)))
          else if c = CHR ''{'' then
            (case skip_ws r of
               [] \<Rightarrow> None
             | d # q \<Rightarrow> if d = CHR ''}'' then Some (JObj [], q)
                        else map_option (apfst (JObj \<circ> dict_of)) (parse_members n (d # q)))
          else scan_literal (c # r))"
| "parse_elems 0 s = None"
| "parse_elems (Suc n) s =
     (case parse_value n s of
        None \<Rightarrow> None
      | Some (v, r) \<Rightarrow>
          (case skip_ws r of
             [] \<Rightarrow> None
           | d # q \<Rightarrow>
               if d = CHR '','' then map_option (apfst (Cons v)) (parse_elems n q)
               else if d = CHR '']'' then Some ([v], q)
               else None))"
| "parse_members 0 s = None"
| "parse_members (Suc n) s =
     (case skip_ws s of
        [] \<Rightarrow> None
      | c # r \<Rightarrow>
          if c \<noteq> dquote then None
          else
            (case scan_string r of
               None \<Rightarrow> None
             | Some (k, r1) \<Rightarrow>
                 (case skip_ws r1 of
                    [] \<Rightarrow> None
                  | e # r2 \<Rightarrow>
                      if e \<noteq> CHR '':'' then None
                      else
                        (case parse_value n r2 of
                           None \<Rightarrow> None
                         | Some (v, r3) \<Rightarrow>
                             (case skip_ws r3 of
                                [] \<Rightarrow> None
                              | d # q \<Rightarrow>
                                  if d = CHR '','' then map_option (apfst (Cons (k, v))) (parse_members n q)
                                  else if d = CHR ''}'' then Some ([(k, v)], q)
                                  else None)))))"

definition loads :: "string \<Rightarrow> json option" where
  "loads s =
     (case parse_value (2 * length s + 2) s of
        None \<Rightarrow> None
      | Some (v, r) \<Rightarrow> if skip_ws r = [] then Some v else None)"

section \<open>What is printed is read back\<close>

lemma hex_read_digit [simp]: "n < 16 \<Longrightarrow> hex_read (hex_digit n) = Some n"
  by (simp add: hex_read_def hex_digit_def take_bit_eq_mod Let_def)

lemma hex4_byte: "n < 256 \<Longrightarrow> hex4 CHR ''0'' CHR ''0'' (hex_digit (n div 16)) (hex_digit (n mod 16)) = Some n"
  by (simp add: hex4_def hex_read_def [of "CHR ''0''"] less_mult_imp_div_less)

lemma scan_escape: "scan_string (escape_char c @ r) = map_option (apfst (Cons c)) (scan_string r)"
proof -
  let ?n = "of_char c :: nat"
  have lt: "?n < 256" by simp
  have "(of_char dquote :: nat) = 34" "(of_char CHR 0x5C :: nat) = 92" by simp_all
  then have special: "?n = 34 \<longleftrightarrow> c = dquote" "?n = 92 \<longleftrightarrow> c = CHR 0x5C"
    by (metis of_char_eq_iff)+
  consider "?n = 34" | "?n = 92" | "?n = 10" | "?n = 13" | "?n = 9" | "?n = 8" | "?n = 12"
    | (hex) "?n \<notin> {34, 92, 10, 13, 9, 8, 12}" "?n < 32 \<or> 126 < ?n" | (plain) "?n \<notin> {34, 92}" "32 \<le> ?n" "?n \<le> 126" by fastforce
  then show ?thesis
  proof cases
    case hex
    then have "escape_char c = CHR 0x5C # ''u00'' @ [hex_digit (?n div 16), hex_digit (?n mod 16)]"
      by (simp add: escape_char_def Let_def)
    then show ?thesis using hex4_byte [OF lt] lt by simp
  next
    case plain
    then have "escape_char c = [c]" by (simp add: escape_char_def Let_def)
    then show ?thesis using plain special by simp
  qed (auto simp: escape_char_def unescape_def Let_def char_of_eqI special)
qed

lemma scan_quoted: "scan_string (concat (map escape_char s) @ dquote # r) = Some (s, r)"
  by (induction s) (simp_all add: scan_escape)

lemma not_space [simp]:
  "\<not> json_space CHR '',''" "\<not> json_space CHR '']''" "\<not> json_space CHR ''}''" "\<not> json_space CHR '':''" "\<not> json_space dquote"
  "\<not> json_space CHR ''n''" "\<not> json_space CHR ''t''" "\<not> json_space CHR ''f''" "\<not> json_space CHR ''[''" "\<not> json_space CHR ''{''"
  "\<not> json_space CHR ''-''"
  by (simp_all add: json_space_def)

lemma digit_not_space: "is_digit c \<Longrightarrow> \<not> json_space c"
  by (auto simp: json_space_def is_digit_def)

lemma skip_ws_Cons [simp]: "\<not> json_space c \<Longrightarrow> skip_ws (c # r) = c # r"
  by (simp add: skip_ws_def)

lemma skip_ws_Nil [simp]: "skip_ws [] = []"
  by (simp add: skip_ws_def)

lemma printed_not_space: "print_json v \<noteq> [] \<and> \<not> json_space (hd (print_json v))"
proof -
  have "head_kind c = 7" if "json_space c" for c
  proof -
    have "c \<noteq> CHR ''n''" "c \<noteq> CHR ''t''" "c \<noteq> CHR ''f''" "c \<noteq> dquote" "c \<noteq> CHR ''[''" "c \<noteq> CHR ''{''" "c \<noteq> CHR ''-''"
      using that not_space by blast+
    moreover have "\<not> is_digit c" using that digit_not_space by blast
    ultimately show ?thesis by (simp add: head_kind_def)
  qed
  moreover have "kind_of v \<noteq> 7" by (cases v) auto
  ultimately show ?thesis using print_json_head [of v] by metis
qed

lemma skip_printed: "skip_ws (print_json v @ r) = print_json v @ r"
  using printed_not_space [of v] by (cases "print_json v") auto

lemma delimited_no_digit: "delimited r \<Longrightarrow> takeWhile is_digit r = [] \<and> dropWhile is_digit r = r"
  by (cases r) (auto simp: delimited_def)

lemma hd_str_of_nat: "0 < n \<Longrightarrow> hd (str_of_nat n) \<noteq> CHR ''0''"
proof (induction n rule: str_of_nat.induct)
  case (1 n)
  show ?case
  proof (cases "n < 10")
    case True
    have "(of_char CHR ''0'' :: nat) = 48" by simp
    moreover have "(of_char (digit_char n) :: nat) \<noteq> 48" using 1 True by simp
    ultimately have "digit_char n \<noteq> CHR ''0''" by metis
    then show ?thesis using True by (subst str_of_nat.simps) simp
  next
    case False
    then show ?thesis using 1 by (subst str_of_nat.simps) simp
  qed
qed

lemma scan_nat_str: "delimited r \<Longrightarrow> scan_nat (str_of_nat n @ r) = Some (n, r)"
proof (cases "n = 0")
  case True
  assume "delimited r"
  have "str_of_nat 0 = ''0''" by (subst str_of_nat.simps) (simp add: digit_char_def char_of_eqI)
  then show ?thesis using True by (simp add: scan_nat_def)
next
  case False
  assume r: "delimited r"
  obtain c cs where s: "str_of_nat n = c # cs" by (cases "str_of_nat n") auto
  have c: "c \<noteq> CHR ''0''" using hd_str_of_nat [of n] False s by simp
  have d: "list_all is_digit (c # cs)" using list_all_digits [of n] s by simp
  then have "takeWhile is_digit (c # cs @ r) = c # cs" "dropWhile is_digit (c # cs @ r) = r"
    using delimited_no_digit [OF r] by (auto simp: list_all_iff takeWhile_append2 dropWhile_append2)
  then show ?thesis
    using c d digits_value_str [of False n] by (simp add: scan_nat_def s del: digits_value.simps)
qed

lemma scan_int_str: "delimited r \<Longrightarrow> scan_literal (str_of_int i @ r) = Some (JInt i, r)"
proof -
  assume r: "delimited r"
  have lit: "scan_literal (c # s) = scan_int (c # s)" if "is_digit c \<or> c = CHR ''-''" for c s
    using that by (auto simp: scan_literal_def)
  obtain c cs where s: "str_of_int i = c # cs" and c: "is_digit c \<or> c = CHR ''-''"
    using str_of_int_chars [of i] by (cases "str_of_int i") auto
  have "scan_int (str_of_int i @ r) = Some (JInt i, r)"
  proof (cases "i < 0")
    case True
    then show ?thesis using scan_nat_str [OF r] by (simp add: scan_int_def str_of_int_def)
  next
    case False
    have "hd (str_of_nat (nat i)) \<noteq> CHR ''-''" using dash_not_in_str by (metis hd_in_set str_of_nat_nonempty)
    then show ?thesis using False scan_nat_str [OF r, of "nat i"]
      by (cases "str_of_nat (nat i)") (auto simp: scan_int_def str_of_int_def)
  qed
  with lit [OF c] s show ?thesis by simp
qed

text \<open>A value Python can hold: no object has a key twice.\<close>

fun json_keyed :: "json \<Rightarrow> bool" where
  "json_keyed (JList xs) \<longleftrightarrow> (\<forall>x \<in> set xs. json_keyed x)"
| "json_keyed (JObj xs) \<longleftrightarrow> distinct (map fst xs) \<and> (\<forall>p \<in> set xs. json_keyed (snd p))"
| "json_keyed v \<longleftrightarrow> True"

lemma update_new_key: "k \<notin> fst ` set xs \<Longrightarrow> AList.update k v xs = xs @ [(k, v)]"
  by (induction xs) auto

lemma dict_of_keyed: "distinct (map fst ms) \<Longrightarrow> dict_of ms = ms"
proof -
  have "fold (\<lambda>(k, v). AList.update k v) ms acc = acc @ ms"
    if "distinct (map fst (acc @ ms))" for acc :: "(string \<times> json) list"
    using that by (induction ms arbitrary: acc) (auto simp: update_new_key)
  then show "distinct (map fst ms) \<Longrightarrow> ?thesis" by (simp add: dict_of_def)
qed

definition parses_printed :: "json \<Rightarrow> bool" where
  "parses_printed v \<longleftrightarrow>
     (\<forall>r n. delimited r \<longrightarrow> length (print_json v) \<le> n \<longrightarrow> parse_value n (print_json v @ r) = Some (v, r))"

lemma delimited_Cons: "delimited (c # r) \<longleftrightarrow> c \<in> {CHR '','', CHR '']'', CHR ''}''}"
  by (simp add: delimited_def)

lemma printed_length: "0 < length (print_json v)"
  using printed_not_space [of v] by simp

lemma parse_elems_printed:
  assumes "\<forall>x \<in> set xs. parses_printed x" and "xs \<noteq> []" and "length (comma_join (map print_json xs)) < n"
  shows "parse_elems n (comma_join (map print_json xs) @ CHR '']'' # r) = Some (xs, r)"
  using assms
proof (induction xs arbitrary: n)
  case (Cons x xs)
  let ?rest = "(if xs = [] then [] else CHR '','' # comma_join (map print_json xs)) @ CHR '']'' # r"
  obtain n' where n: "n = Suc n'" using Cons.prems(3) by (cases n) auto
  have joined: "comma_join (map print_json (x # xs)) = print_json x @ (if xs = [] then [] else CHR '','' # comma_join (map print_json xs))"
    by (simp add: comma_join_Cons)
  have "delimited ?rest" by (simp add: delimited_Cons)
  moreover have "length (print_json x) \<le> n'" using Cons.prems(3) unfolding joined n by simp
  ultimately have v: "parse_value n' (print_json x @ ?rest) = Some (x, ?rest)"
    using Cons.prems(1) unfolding parses_printed_def by (meson list.set_intros(1))
  show ?case
  proof (cases "xs = []")
    case True
    then show ?thesis using v by (simp add: n)
  next
    case False
    have "length (comma_join (map print_json xs)) < n'"
      using Cons.prems(3) False printed_length [of x] unfolding joined n by simp
    then have "parse_elems n' (comma_join (map print_json xs) @ CHR '']'' # r) = Some (xs, r)"
      using Cons.IH Cons.prems(1) False by simp
    then show ?thesis using v False unfolding joined n by simp
  qed
qed simp

abbreviation print_member :: "string \<times> json \<Rightarrow> string" where
  "print_member p \<equiv> quote_string (fst p) @ CHR '':'' # print_json (snd p)"

lemma parse_members_printed:
  assumes "\<forall>p \<in> set ms. parses_printed (snd p)" and "ms \<noteq> []" and "length (comma_join (map print_member ms)) < n"
  shows "parse_members n (comma_join (map print_member ms) @ CHR ''}'' # r) = Some (ms, r)"
  using assms
proof (induction ms arbitrary: n)
  case (Cons p ms)
  let ?rest = "(if ms = [] then [] else CHR '','' # comma_join (map print_member ms)) @ CHR ''}'' # r"
  obtain n' where n: "n = Suc n'" using Cons.prems(3) by (cases n) auto
  have joined: "comma_join (map print_member (p # ms)) =
      quote_string (fst p) @ CHR '':'' # print_json (snd p) @ (if ms = [] then [] else CHR '','' # comma_join (map print_member ms))"
    by (simp add: comma_join_Cons)
  have key: "scan_string (concat (map escape_char (fst p)) @ dquote # q) = Some (fst p, q)" for q by (rule scan_quoted)
  have "delimited ?rest" by (simp add: delimited_Cons)
  moreover have "length (print_json (snd p)) \<le> n'" using Cons.prems(3) unfolding joined n by simp
  ultimately have v: "parse_value n' (print_json (snd p) @ ?rest) = Some (snd p, ?rest)"
    using Cons.prems(1) unfolding parses_printed_def by (meson list.set_intros(1))
  show ?case
  proof (cases "ms = []")
    case True
    then show ?thesis using v key by (simp add: n quote_string_def)
  next
    case False
    have "length (comma_join (map print_member ms)) < n'"
      using Cons.prems(3) False unfolding joined n by simp
    then have "parse_members n' (comma_join (map print_member ms) @ CHR ''}'' # r) = Some (ms, r)"
      using Cons.IH Cons.prems(1) False by simp
    then show ?thesis using v key False unfolding joined n by (simp add: quote_string_def)
  qed
qed simp

lemma json_keyed_parses: "json_keyed v \<Longrightarrow> parses_printed v"
proof (induction v)
  case JNull
  show ?case unfolding parses_printed_def
  proof (intro allI impI)
    fix r n assume "length (print_json JNull) \<le> n"
    then obtain n' where "n = Suc n'" by (cases n) auto
    then show "parse_value n (print_json JNull @ r) = Some (JNull, r)" by (simp add: scan_literal_def)
  qed
next
  case (JBool b)
  show ?case unfolding parses_printed_def
  proof (intro allI impI)
    fix r n assume "length (print_json (JBool b)) \<le> n"
    then obtain n' where "n = Suc n'" by (cases n; cases b) auto
    then show "parse_value n (print_json (JBool b) @ r) = Some (JBool b, r)" by (cases b) (simp_all add: scan_literal_def)
  qed
next
  case (JInt i)
  obtain c cs where s: "str_of_int i = c # cs" and c: "is_digit c \<or> c = CHR ''-''"
    using str_of_int_chars [of i] by (cases "str_of_int i") auto
  then have "\<not> json_space c" "c \<noteq> dquote" "c \<noteq> CHR ''[''" "c \<noteq> CHR ''{''" by (auto dest: digit_not_space)
  then show ?case unfolding parses_printed_def
  proof (intro allI impI)
    fix r n assume r: "delimited r" and "length (print_json (JInt i)) \<le> n"
    then obtain n' where "n = Suc n'" using s by (cases n) auto
    then show "parse_value n (print_json (JInt i) @ r) = Some (JInt i, r)"
      using scan_int_str [OF r, of i] s \<open>\<not> json_space c\<close> \<open>c \<noteq> dquote\<close> \<open>c \<noteq> CHR ''[''\<close> \<open>c \<noteq> CHR ''{''\<close> by simp
  qed
next
  case (JStr t)
  show ?case unfolding parses_printed_def
  proof (intro allI impI)
    fix r n assume "length (print_json (JStr t)) \<le> n"
    then obtain n' where "n = Suc n'" by (cases n) (auto simp: quote_string_def)
    then show "parse_value n (print_json (JStr t) @ r) = Some (JStr t, r)"
      using scan_quoted [of t r] by (simp add: quote_string_def)
  qed
next
  case (JList xs)
  then have sub: "\<forall>x \<in> set xs. parses_printed x" by simp
  show ?case unfolding parses_printed_def
  proof (intro allI impI)
    fix r n assume len: "length (print_json (JList xs)) \<le> n"
    then obtain n' where n: "n = Suc n'" by (cases n) auto
    show "parse_value n (print_json (JList xs) @ r) = Some (JList xs, r)"
    proof (cases xs)
      case (Cons x ys)
      then obtain d q where d: "comma_join (map print_json xs) = d # q" "d = hd (print_json x)"
        using printed_not_space [of x] by (cases "print_json x") (auto simp: comma_join_Cons)
      then have "\<not> json_space d" using printed_not_space by simp
      moreover have "d \<noteq> CHR '']''"
        using print_json_head [of x] d by (cases x) (auto simp: head_kind_def split: if_splits)
      moreover have "parse_elems n' (comma_join (map print_json xs) @ CHR '']'' # r) = Some (xs, r)"
        using sub len n Cons by (intro parse_elems_printed) auto
      ultimately show ?thesis using d by (simp add: n)
    qed (simp add: n)
  qed
next
  case (JObj ms)
  then have sub: "\<forall>p \<in> set ms. parses_printed (snd p)" by (metis json_keyed.simps(2) snds.intros prod.collapse)
  have "dict_of ms = ms" using JObj.prems by (simp add: dict_of_keyed)
  show ?case unfolding parses_printed_def
  proof (intro allI impI)
    fix r n assume len: "length (print_json (JObj ms)) \<le> n"
    then obtain n' where n: "n = Suc n'" by (cases n) auto
    show "parse_value n (print_json (JObj ms) @ r) = Some (JObj ms, r)"
    proof (cases ms)
      case (Cons p ps)
      then obtain q where d: "comma_join (map print_member ms) = dquote # q"
        by (auto simp: comma_join_Cons quote_string_def)
      moreover have "parse_members n' (comma_join (map print_member ms) @ CHR ''}'' # r) = Some (ms, r)"
        using sub len n Cons by (intro parse_members_printed) auto
      ultimately show ?thesis using \<open>dict_of ms = ms\<close> by (simp add: n)
    qed (simp add: n)
  qed
qed

theorem loads_print: "json_keyed v \<Longrightarrow> loads (print_json v) = Some v"
proof -
  assume "json_keyed v"
  then have "parses_printed v" by (rule json_keyed_parses)
  moreover have "delimited []" "length (print_json v) \<le> 2 * length (print_json v) + 2" by (simp_all add: delimited_def)
  ultimately have "parse_value (2 * length (print_json v) + 2) (print_json v @ []) = Some (v, [])"
    unfolding parses_printed_def by blast
  then show ?thesis by (simp add: loads_def del: parse_value.simps)
qed

lemma json_keyed_sort: "json_keyed v \<Longrightarrow> json_keyed (sort_json v)"
proof (induction v)
  case (JObj ms)
  let ?s = "sort_key fst (map (\<lambda>p. (fst p, sort_json (snd p))) ms)"
  have "mset (map fst ?s) = mset (map fst (map (\<lambda>p. (fst p, sort_json (snd p))) ms))"
    by (simp only: mset_map mset_sort)
  also have "map fst (map (\<lambda>p. (fst p, sort_json (snd p))) ms) = map fst ms" by (simp add: comp_def)
  finally have "distinct (map fst ?s)"
    using JObj.prems by (metis json_keyed.simps(2) mset_eq_imp_distinct_iff)
  then show ?case using JObj by auto
qed auto

theorem loads_dumps: "json_keyed v \<Longrightarrow> loads (dumps_sorted v) = Some (sort_json v)"
  by (simp add: dumps_sorted_def loads_print json_keyed_sort)

section \<open>Enough fuel\<close>

lemma skip_ws_length: "length (skip_ws s) \<le> length s"
  by (simp add: skip_ws_def length_dropWhile_le)

lemma scan_string_shorter: "scan_string s = Some (t, r) \<Longrightarrow> length r < length s"
proof (induction s arbitrary: t r rule: length_induct)
  case (1 s)
  have ih: "scan_string u = Some (t, r) \<Longrightarrow> length u < length s \<Longrightarrow> length r < length u" for u t
    using 1 by blast
  obtain c s1 where s: "s = c # s1" using 1(2) by (cases s) auto
  show ?case
  proof (cases "c = CHR 0x5C")
    case True
    then obtain d s2 where s1: "s1 = d # s2" using 1(2) s by (cases s1) auto
    show ?thesis
      using 1(2) ih s s1 True
      by (cases "d = CHR ''u''") (fastforce split: list.splits option.splits if_splits)+
  next
    case False
    then show ?thesis using 1(2) ih s by (fastforce split: if_splits)
  qed
qed

lemma scan_nat_shorter: "scan_nat s = Some (n, r) \<Longrightarrow> length r < length s"
  by (cases s) (auto simp: scan_nat_def length_dropWhile_le le_imp_less_Suc split: if_splits)

lemma scan_literal_shorter: "scan_literal s = Some (v, r) \<Longrightarrow> length r < length s"
proof -
  assume lit: "scan_literal s = Some (v, r)"
  then have "s \<noteq> []" by (auto simp: scan_literal_def scan_int_def)
  show ?thesis
  proof (cases "scan_int s")
    case None
    then show ?thesis using lit \<open>s \<noteq> []\<close> by (auto simp: scan_literal_def split: if_splits)
  next
    case (Some p)
    have "length r < length s" if "scan_int s = Some (v, r)" for v r
      using that by (cases s) (auto simp: scan_int_def less_Suc_eq dest: scan_nat_shorter split: if_splits)
    then show ?thesis using lit \<open>s \<noteq> []\<close> by (auto simp: scan_literal_def split: if_splits)
  qed
qed

lemma parse_shorter:
  "(parse_value n s = Some (v, r) \<longrightarrow> length r < length s) \<and>
   (parse_elems n s = Some (vs, r) \<longrightarrow> length r < length s) \<and>
   (parse_members n s = Some (ms, r) \<longrightarrow> length r < length s)"
proof (induction n arbitrary: s v vs ms r)
  case (Suc n)
  have ih: "parse_value n s = Some (v, r) \<Longrightarrow> length r < length s"
    "parse_elems n s = Some (vs, r) \<Longrightarrow> length r < length s"
    "parse_members n s = Some (ms, r) \<Longrightarrow> length r < length s" for s v vs ms r
    using Suc by blast+
  have ws: "skip_ws s = c # q \<Longrightarrow> length q < length s" for s c q
    using skip_ws_length [of s] by simp
  have "parse_value (Suc n) s = Some (v, r) \<Longrightarrow> length r < length s"
  proof -
    assume p: "parse_value (Suc n) s = Some (v, r)"
    then obtain c q where c: "skip_ws s = c # q" by (auto split: list.splits)
    with p show ?thesis
      using ws [OF c] skip_ws_length [of q] scan_literal_shorter [of "c # q" v r] skip_ws_length [of s]
      by (auto split: list.splits if_splits dest!: ih scan_string_shorter)
  qed
  moreover have "parse_elems (Suc n) s = Some (vs, r) \<Longrightarrow> length r < length s"
    by (auto split: option.splits list.splits if_splits dest!: ih ws)
  moreover have "parse_members (Suc n) s = Some (ms, r) \<Longrightarrow> length r < length s"
    by (auto split: option.splits list.splits if_splits dest!: ih ws scan_string_shorter)
  ultimately show ?case by blast
qed simp


text \<open>More fuel than twice the length of the text changes nothing: the reader never stops for lack of fuel.\<close>

lemma parse_fuel:
  "(2 * length s < n \<longrightarrow> 2 * length s < m \<longrightarrow> parse_value n s = parse_value m s) \<and>
   (2 * length s + 1 < n \<longrightarrow> 2 * length s + 1 < m \<longrightarrow> parse_elems n s = parse_elems m s) \<and>
   (2 * length s + 1 < n \<longrightarrow> 2 * length s + 1 < m \<longrightarrow> parse_members n s = parse_members m s)"
proof (induction n arbitrary: m s)
  case (Suc n)
  show ?case
  proof (cases m)
    case (Suc k)
    have ih: "2 * length s < n \<Longrightarrow> 2 * length s < k \<Longrightarrow> parse_value n s = parse_value k s"
      "2 * length s + 1 < n \<Longrightarrow> 2 * length s + 1 < k \<Longrightarrow> parse_elems n s = parse_elems k s"
      "2 * length s + 1 < n \<Longrightarrow> 2 * length s + 1 < k \<Longrightarrow> parse_members n s = parse_members k s" for s
      using Suc.IH by blast+
    have ws: "skip_ws s = c # q \<Longrightarrow> length q < length s" for s c q
      using skip_ws_length [of s] by simp
    have "parse_value (Suc n) s = parse_value (Suc k) s" if "2 * length s < Suc n" "2 * length s < Suc k"
    proof (cases "skip_ws s")
      case (Cons c r)
      have "parse_elems n (d # q) = parse_elems k (d # q)" "parse_members n (d # q) = parse_members k (d # q)"
        if "skip_ws r = d # q" for d q
        using ws [OF Cons] ws [OF that] \<open>2 * length s < Suc n\<close> \<open>2 * length s < Suc k\<close> by (auto intro!: ih)
      with Cons show ?thesis by (auto split: list.splits)
    qed simp
    moreover have "parse_elems (Suc n) s = parse_elems (Suc k) s" if "2 * length s + 1 < Suc n" "2 * length s + 1 < Suc k"
    proof (cases "parse_value k s")
      case None
      then show ?thesis using ih(1) [of s] that by simp
    next
      case (Some p)
      obtain v r where p: "p = (v, r)" by (cases p)
      have "length r < length s" using parse_shorter Some p by blast
      then have "parse_elems n q = parse_elems k q" if "skip_ws r = d # q" for d q
        using ws [OF that] \<open>2 * length s + 1 < Suc n\<close> \<open>2 * length s + 1 < Suc k\<close> by (auto intro!: ih)
      then show ?thesis using Some p ih(1) [of s] that by (auto split: list.splits)
    qed
    moreover have "parse_members (Suc n) s = parse_members (Suc k) s" if "2 * length s + 1 < Suc n" "2 * length s + 1 < Suc k"
    proof (cases "skip_ws s")
      case (Cons c r)
      have len: "length r < length s" by (rule ws [OF Cons])
      have val: "parse_value n t = parse_value k t" if "length t \<le> length r" for t
        using that len \<open>2 * length s + 1 < Suc n\<close> \<open>2 * length s + 1 < Suc k\<close> by (intro ih) auto
      have mem: "parse_members n t = parse_members k t" if "length t < length r" for t
        using that len \<open>2 * length s + 1 < Suc n\<close> \<open>2 * length s + 1 < Suc k\<close> by (intro ih) auto
      show ?thesis
      proof (cases "scan_string r")
        case (Some p)
        obtain key r1 where p: "p = (key, r1)" by (cases p)
        have r1: "length r1 < length r" using scan_string_shorter Some p by blast
        show ?thesis
        proof (cases "skip_ws r1")
          case (Cons e r2)
          have r2: "length r2 < length r1" by (rule ws [OF Cons])
          show ?thesis
          proof (cases "parse_value k r2")
            case None
            then show ?thesis using val [of r2] r1 r2 \<open>skip_ws s = c # r\<close> Some p Cons by simp
          next
            case v: (Some w)
            obtain x r3 where w: "w = (x, r3)" by (cases w)
            have r3: "length r3 < length r2" using parse_shorter v w by blast
            have "parse_members n q = parse_members k q" if "skip_ws r3 = d # q" for d q
              using ws [OF that] r1 r2 r3 by (intro mem) simp
            then show ?thesis
              using v w val [of r2] r1 r2 \<open>skip_ws s = c # r\<close> Some p Cons by (auto split: list.splits)
          qed
        qed (use \<open>skip_ws s = c # r\<close> Some p in simp)
      qed (use Cons in simp)
    qed simp
    ultimately show ?thesis using Suc by blast
  qed simp
qed simp

lemma loads_any_fuel:
  "2 * length s < n \<Longrightarrow>
     loads s = (case parse_value n s of None \<Rightarrow> None | Some (v, r) \<Rightarrow> if skip_ws r = [] then Some v else None)"
  using parse_fuel [of s n "2 * length s + 2"] by (simp add: loads_def del: parse_value.simps)

end
