(* ===== verification/Compression.thy ===== *)
theory Compression
  imports JsonRead PyFloat
begin

text \<open>
  Compression of plan states and of the operations of a thread (\<open>checkpoint/compression.py\<close>): the canonical JSON text
  of a value, encoded in UTF-8 and handed to zstandard.  The two zstandard calls are arguments, \<open>zstd\<close> and \<open>unzstd\<close>
  (\<open>None\<close>: the frame cannot be read), of which the lemmas assume only that decompressing a compressed string gives it back.  Bytes
  and characters are both of type \<open>char\<close>; characters above code point 255 are outside the model.
\<close>

section \<open>Text and bytes\<close>

definition encode_char :: "char \<Rightarrow> string" where
  "encode_char c = (let n = of_char c :: nat in if n < 128 then [c] else [char_of (192 + n div 64), char_of (128 + n mod 64)])"

definition encode_utf8 :: "string \<Rightarrow> string" where
  "encode_utf8 s = concat (map encode_char s)"

fun decode_utf8 :: "string \<Rightarrow> string option" where
  "decode_utf8 [] = Some []"
| "decode_utf8 (b # bs) =
     (if (of_char b :: nat) < 128 then map_option (Cons b) (decode_utf8 bs)
      else
        (case bs of
           [] \<Rightarrow> None
         | c # cs \<Rightarrow>
             let m = of_char b :: nat; n = of_char c :: nat in
             if (m = 194 \<or> m = 195) \<and> 128 \<le> n \<and> n < 192
             then map_option (Cons (char_of (64 * (m - 192) + (n - 128)))) (decode_utf8 cs) else None))"

text \<open>\<open>bytes.hex\<close> and \<open>bytes.fromhex\<close>, which skips white space between the bytes.\<close>

definition hex_text :: "string \<Rightarrow> string" where
  "hex_text s = concat (map (\<lambda>c. let n = of_char c in [hex_digit (n div 16), hex_digit (n mod 16)]) s)"

definition ascii_space :: "char \<Rightarrow> bool" where
  "ascii_space c \<longleftrightarrow> (let n = of_char c :: nat in 9 \<le> n \<and> n \<le> 13 \<or> n = 32)"

fun from_hex :: "string \<Rightarrow> string option" where
  "from_hex [] = Some []"
| "from_hex (a # s) =
     (if ascii_space a then from_hex s
      else
        (case s of
           [] \<Rightarrow> None
         | b # r \<Rightarrow>
             (case (hex_read a, hex_read b) of
                (Some m, Some n) \<Rightarrow> map_option (Cons (char_of (16 * m + n))) (from_hex r)
              | _ \<Rightarrow> None)))"

section \<open>The compressor\<close>

definition compress_state :: "(string \<Rightarrow> string) \<Rightarrow> json \<Rightarrow> string" where
  "compress_state zstd plan_state = zstd (encode_utf8 (dumps_sorted plan_state))"

definition read_bytes :: "(string \<Rightarrow> string option) \<Rightarrow> string \<Rightarrow> json option" where
  "read_bytes unzstd data =
     (case unzstd data of
        None \<Rightarrow> None
      | Some bytes \<Rightarrow> (case decode_utf8 bytes of None \<Rightarrow> None | Some s \<Rightarrow> loads s))"

definition decompress_state :: "(string \<Rightarrow> string option) \<Rightarrow> string \<Rightarrow> json option" where
  "decompress_state unzstd data = read_bytes unzstd data"

record thread_summary =
  th_op_count :: nat
  th_thread_id :: json
  th_first_lamport :: json
  th_last_lamport :: json
  th_compressed_ops :: "string option"
  th_compressed_size :: nat
  th_original_size :: nat
  th_original_hash :: string
  th_compression_ratio :: pyfloat

definition entry_of :: "string \<Rightarrow> (string \<times> json) list \<Rightarrow> json" where
  "entry_of k op = (case map_of op k of None \<Rightarrow> JNull | Some v \<Rightarrow> v)"

definition compress_thread :: "(string \<Rightarrow> string) \<Rightarrow> (string \<Rightarrow> string) \<Rightarrow> (string \<times> json) list list \<Rightarrow> thread_summary" where
  "compress_thread zstd sha256 thread_ops =
     (let data = encode_utf8 (dumps_sorted (JList (map JObj thread_ops)));
          compressed = zstd data
      in \<lparr>th_op_count = length thread_ops,
          th_thread_id = (if thread_ops = [] then JNull else entry_of ''thread_id'' (hd thread_ops)),
          th_first_lamport = (if thread_ops = [] then JInt 0 else entry_of ''lamport'' (hd thread_ops)),
          th_last_lamport = (if thread_ops = [] then JInt 0 else entry_of ''lamport'' (last thread_ops)),
          th_compressed_ops = Some compressed, th_compressed_size = length compressed, th_original_size = length data,
          th_original_hash = sha256 data,
          th_compression_ratio = fdiv (of_nat (length compressed)) (of_nat (length data))\<rparr>)"

definition decompress_thread :: "(string \<Rightarrow> string option) \<Rightarrow> thread_summary \<Rightarrow> json option" where
  "decompress_thread unzstd summary =
     (case th_compressed_ops summary of
        None \<Rightarrow> None
      | Some compressed \<Rightarrow> if compressed = [] then None else read_bytes unzstd compressed)"

definition verify_compressed :: "json \<Rightarrow> json \<Rightarrow> bool" where
  "verify_compressed original decompressed \<longleftrightarrow> dumps_sorted original = dumps_sorted decompressed"

text \<open>\<open>None\<close> is the ValueError of \<open>range\<close> for a step of zero.\<close>

definition compress_batch :: "(string \<Rightarrow> string) \<Rightarrow> json list \<Rightarrow> int \<Rightarrow> string list option" where
  "compress_batch zstd items max_batch_size =
     (if max_batch_size = 0 then None
      else if max_batch_size < 0 then Some []
      else
        let k = nat max_batch_size; starts = map (\<lambda>j. j * k) [0..<(length items + k - 1) div k]
        in Some (concat (map (\<lambda>i. map (compress_state zstd) (take k (drop i items))) starts)))"

section \<open>Nothing is lost\<close>

lemma decode_encode: "decode_utf8 (encode_utf8 s) = Some s"
proof (induction s)
  case (Cons c s)
  let ?n = "of_char c :: nat"
  have "?n < 256" by simp
  then have "?n div 64 < 4" by (simp add: less_mult_imp_div_less)
  moreover have "2 \<le> ?n div 64" if "\<not> ?n < 128" using div_le_mono [of 128 ?n 64] that by simp
  ultimately have high: "?n div 64 = 2 \<or> ?n div 64 = 3" if "\<not> ?n < 128" using that by linarith
  have "64 * (?n div 64) + ?n mod 64 = ?n" by simp
  then have same: "char_of (64 * (?n div 64) + ?n mod 64) = c" by (simp only: char_of_char)
  show ?case
  proof (cases "?n < 128")
    case True
    then show ?thesis using Cons by (simp add: encode_utf8_def encode_char_def)
  next
    case False
    let ?m = "?n div 64" and ?l = "?n mod 64"
    have bytes: "(of_char (char_of (192 + ?m) :: char) :: nat) = 192 + ?m" "(of_char (char_of (128 + ?l) :: char) :: nat) = 128 + ?l"
      using high [OF False] by (auto simp: take_bit_eq_mod)
    have m: "192 + ?m = 194 \<or> 192 + ?m = 195" using high [OF False] by auto
    have "encode_utf8 (c # s) = char_of (192 + ?m) # char_of (128 + ?l) # encode_utf8 s"
      using False by (simp add: encode_utf8_def encode_char_def Let_def)
    then show ?thesis using Cons m same by (auto simp: bytes Let_def simp del: of_char_of)
  qed
qed (simp add: encode_utf8_def)

lemma hex_digit_not_space: "n < 16 \<Longrightarrow> \<not> ascii_space (hex_digit n)"
  by (simp add: ascii_space_def hex_digit_def take_bit_eq_mod Let_def)

lemma from_hex_text: "from_hex (hex_text s) = Some s"
proof (induction s)
  case (Cons c s)
  let ?n = "of_char c :: nat"
  have "?n < 256" by simp
  then have d: "?n div 16 < 16" by (simp add: less_mult_imp_div_less)
  have "16 * (?n div 16) + ?n mod 16 = ?n" by simp
  then have "char_of (16 * (?n div 16) + ?n mod 16) = c" by (simp only: char_of_char)
  moreover have "hex_text (c # s) = hex_digit (?n div 16) # hex_digit (?n mod 16) # hex_text s"
    by (simp add: hex_text_def Let_def)
  ultimately show ?case using Cons d by (simp add: hex_digit_not_space)
qed (simp add: hex_text_def)

lemma read_bytes_zstd:
  assumes "\<And>s. unzstd (zstd s) = Some s" and "json_keyed v"
  shows "read_bytes unzstd (zstd (encode_utf8 (dumps_sorted v))) = Some (sort_json v)"
  using assms by (simp add: read_bytes_def decode_encode loads_dumps)

theorem decompress_compress_state:
  assumes "\<And>s. unzstd (zstd s) = Some s" and "json_keyed v"
  shows "decompress_state unzstd (compress_state zstd v) = Some (sort_json v)"
  using read_bytes_zstd [of unzstd zstd v] assms by (simp add: decompress_state_def compress_state_def)

text \<open>A zstandard frame is never empty.\<close>

theorem decompress_compress_thread:
  assumes "\<And>s. unzstd (zstd s) = Some s" and "\<And>s. zstd s \<noteq> []" and "\<forall>op \<in> set ops. json_keyed (JObj op)"
  shows "decompress_thread unzstd (compress_thread zstd sha256 ops) = Some (JList (map (sort_json \<circ> JObj) ops))"
proof -
  let ?data = "encode_utf8 (dumps_sorted (JList (map JObj ops)))"
  have "json_keyed (JList (map JObj ops))" using assms(3) by simp
  from read_bytes_zstd [of unzstd zstd, OF assms(1) this]
  have "read_bytes unzstd (zstd ?data) = Some (JList (map (sort_json \<circ> JObj) ops))" by simp
  moreover have "th_compressed_ops (compress_thread zstd sha256 ops) = Some (zstd ?data)"
    by (simp add: compress_thread_def Let_def)
  ultimately show ?thesis using assms(2) unfolding decompress_thread_def by (simp only: option.case if_False)
qed

lemma sort_json_idem: "sort_json (sort_json v) = sort_json v"
proof (induction v)
  case (JObj ms)
  let ?f = "\<lambda>p. (fst p, sort_json (snd p))" let ?s = "sort_key fst (map ?f ms)"
  have "?f p = p" if p: "p \<in> set ?s" for p
  proof -
    obtain q where q: "q \<in> set ms" "p = ?f q" using p by (auto simp only: set_sort set_map image_iff)
    have "sort_json (sort_json (snd q)) = sort_json (snd q)"
      using JObj.IH [OF q(1), of "snd q"] by (cases q) auto
    with q show ?thesis by simp
  qed
  then have "map ?f ?s = ?s" by (rule map_idI)
  moreover have "sort_key fst ?s = ?s" by (rule sort_key_id_if_sorted) simp
  ultimately show ?case by simp
qed simp_all

text \<open>What comes out of the decompressor passes the check against the original.\<close>

theorem decompressed_verifies:
  assumes "\<And>s. unzstd (zstd s) = Some s" and "json_keyed v"
    and "decompress_state unzstd (compress_state zstd v) = Some v'"
  shows "verify_compressed v v'"
  using decompress_compress_state [of unzstd zstd v] assms by (auto simp: verify_compressed_def dumps_sorted_def sort_json_idem)

text \<open>States that differ in the order of their keys only are compressed to the same bytes, others to different ones.\<close>

theorem compress_state_deterministic:
  assumes "\<And>s. unzstd (zstd s) = Some s" and "json_keyed v" and "json_keyed w"
  shows "compress_state zstd v = compress_state zstd w \<longleftrightarrow> sort_json v = sort_json w"
  using decompress_compress_state [of unzstd zstd] assms by (metis compress_state_def dumps_sorted_def option.inject)

lemma concat_chunks: "concat (map (\<lambda>j. take k (drop (j * k) xs)) [0..<m]) = take (m * k) xs"
proof (induction m)
  case (Suc m)
  have "take (m * k) xs @ take k (drop (m * k) xs) = take (Suc m * k) xs" by (simp add: take_add [symmetric] add.commute)
  then show ?case using Suc by simp
qed simp

theorem compress_batch_exact: "0 < max_batch_size \<Longrightarrow> compress_batch zstd items max_batch_size = Some (map (compress_state zstd) items)"
proof -
  assume pos: "0 < max_batch_size"
  define k where "k = nat max_batch_size"
  define m where "m = (length items + k - 1) div k"
  have "0 < k" using pos by (simp add: k_def)
  have "length items + k - 1 = m * k + (length items + k - 1) mod k" by (simp add: m_def)
  moreover have "(length items + k - 1) mod k < k" using \<open>0 < k\<close> by simp
  ultimately have "length items \<le> m * k" using \<open>0 < k\<close> by linarith
  then have "concat (map (\<lambda>j. take k (drop (j * k) items)) [0..<m]) = items" by (simp add: concat_chunks)
  then have "map (compress_state zstd) items = map (compress_state zstd) (concat (map (\<lambda>j. take k (drop (j * k) items)) [0..<m]))"
    by simp
  then have "map (compress_state zstd) items =
      concat (map (\<lambda>j. map (compress_state zstd) (take k (drop (j * k) items))) [0..<m])"
    by (simp only: map_concat list.map_comp comp_def)
  then show ?thesis using pos by (simp add: compress_batch_def k_def m_def Let_def comp_def)
qed

end
