(* ===== verification/Storage.thy ===== *)
theory Storage
  imports Tables Compression Merkle
begin

text \<open>
  Bounded growth of the log and snapshots: pruning with two tiers of storage (\<open>checkpoint/pruning.py\<close>), checkpoints
  (\<open>checkpoint/checkpoint.py\<close>), synchronisation from them (\<open>checkpoint/sync.py\<close>) and the CHECKPOINT handler
  (\<open>handlers/checkpoint.py\<close>).  A directory is a table of files; what the file system does with a write, SHA-256, the
  zstandard calls \<open>zstd\<close> and \<open>unzstd\<close> under the compressor, the text of a JSON value and the clock are arguments.
\<close>

section \<open>Two tiers of storage\<close>

record log_op =
  lo_op_id :: "string option"
  lo_epoch :: "int option"
  lo_data :: "(string \<times> json) list"

text \<open>An empty dictionary is false.\<close>

definition op_truthy :: "log_op \<Rightarrow> bool" where
  "op_truthy op \<longleftrightarrow> lo_op_id op \<noteq> None \<or> lo_epoch op \<noteq> None \<or> lo_data op \<noteq> []"

datatype write_outcome = Written | NotOpened | Broken

text \<open>\<open>ts_files\<close> are the files of the shards by operation (\<open>None\<close>: no JSON), \<open>ts_index_file\<close> the saved index.\<close>

record tiered_storage =
  ts_hot_tier :: "(string, log_op) table"
  ts_cold_index :: "string set"
  ts_files :: "(string, log_op option) table"
  ts_index_file :: "string set option"

definition write_to_cold :: "write_outcome \<Rightarrow> string \<Rightarrow> log_op \<Rightarrow> tiered_storage \<Rightarrow> bool \<times> tiered_storage" where
  "write_to_cold outcome op_id op s =
     (case outcome of
        Written \<Rightarrow> (True, s\<lparr>ts_files := AList.update op_id (Some op) (ts_files s)\<rparr>)
      | NotOpened \<Rightarrow> (False, s)
      | Broken \<Rightarrow> (False, s\<lparr>ts_files := AList.update op_id None (ts_files s)\<rparr>))"

definition read_from_cold :: "string \<Rightarrow> tiered_storage \<Rightarrow> log_op option" where
  "read_from_cold op_id s = (case map_of (ts_files s) op_id of None \<Rightarrow> None | Some c \<Rightarrow> c)"

text \<open>\<open>saved\<close>: the index could be written.\<close>

definition save_cold_index :: "bool \<Rightarrow> tiered_storage \<Rightarrow> tiered_storage" where
  "save_cold_index saved s = (if saved then s\<lparr>ts_index_file := Some (ts_cold_index s)\<rparr> else s)"

definition load_cold_index :: "tiered_storage \<Rightarrow> tiered_storage" where
  "load_cold_index s = (case ts_index_file s of None \<Rightarrow> s | Some i \<Rightarrow> s\<lparr>ts_cold_index := i\<rparr>)"

text \<open>A new process over the same directory.\<close>

definition reopen_storage :: "tiered_storage \<Rightarrow> tiered_storage" where
  "reopen_storage s = load_cold_index (s\<lparr>ts_hot_tier := [], ts_cold_index := {}\<rparr>)"

definition add_to_hot :: "string \<Rightarrow> log_op \<Rightarrow> tiered_storage \<Rightarrow> tiered_storage" where
  "add_to_hot op_id op s = s\<lparr>ts_hot_tier := AList.update op_id op (ts_hot_tier s)\<rparr>"

definition move_op :: "(log_op \<Rightarrow> write_outcome) \<Rightarrow> log_op \<Rightarrow> int \<times> tiered_storage \<Rightarrow> int \<times> tiered_storage" where
  "move_op disk op = (\<lambda>(moved, s).
     case lo_op_id op of
       None \<Rightarrow> (moved, s)
     | Some op_id \<Rightarrow>
         if op_id = [] then (moved, s)
         else let (ok, s) = write_to_cold (disk op) op_id op s
           in if ok then (moved + 1, s\<lparr>ts_hot_tier := AList.delete op_id (ts_hot_tier s), ts_cold_index := insert op_id (ts_cold_index s)\<rparr>)
              else (moved, s))"

definition move_to_cold :: "(log_op \<Rightarrow> write_outcome) \<Rightarrow> bool \<Rightarrow> log_op list \<Rightarrow> tiered_storage \<Rightarrow> int \<times> tiered_storage" where
  "move_to_cold disk saved ops s = (let (moved, s) = fold (move_op disk) ops (0, s) in (moved, save_cold_index saved s))"

definition retrieve_from_cold :: "string list \<Rightarrow> tiered_storage \<Rightarrow> log_op list" where
  "retrieve_from_cold op_ids s =
     filter op_truthy (List.map_filter (\<lambda>i. if i \<in> ts_cold_index s then read_from_cold i s else None) op_ids)"

definition get_op :: "string \<Rightarrow> tiered_storage \<Rightarrow> log_op option" where
  "get_op op_id s =
     (case map_of (ts_hot_tier s) op_id of
        Some op \<Rightarrow> if op_truthy op then Some op else if op_id \<in> ts_cold_index s then read_from_cold op_id s else None
      | None \<Rightarrow> if op_id \<in> ts_cold_index s then read_from_cold op_id s else None)"

definition prune_from_hot :: "string option list \<Rightarrow> tiered_storage \<Rightarrow> tiered_storage" where
  "prune_from_hot op_ids s = s\<lparr>ts_hot_tier := fold (\<lambda>i t. case i of None \<Rightarrow> t | Some i \<Rightarrow> AList.delete i t) op_ids (ts_hot_tier s)\<rparr>"

record pruning_policy =
  py_keep_epochs :: int
  py_min_ops_per_epoch :: int

definition should_prune :: "pruning_policy \<Rightarrow> int \<Rightarrow> int \<Rightarrow> bool" where
  "should_prune p op_epoch current_epoch \<longleftrightarrow> \<not> current_epoch - op_epoch \<le> py_keep_epochs p"

definition get_pruning_threshold :: "pruning_policy \<Rightarrow> int \<Rightarrow> int" where
  "get_pruning_threshold p current_epoch = current_epoch - py_keep_epochs p"

definition op_epoch :: "log_op \<Rightarrow> int" where
  "op_epoch op = (case lo_epoch op of None \<Rightarrow> 0 | Some e \<Rightarrow> e)"

definition prune_before_epoch ::
  "(log_op \<Rightarrow> write_outcome) \<Rightarrow> bool \<Rightarrow> pruning_policy \<Rightarrow> log_op list \<Rightarrow> int \<Rightarrow> tiered_storage \<Rightarrow> (int \<times> int) \<times> tiered_storage" where
  "prune_before_epoch disk saved p ops current_epoch s =
     (let threshold_epoch = get_pruning_threshold p current_epoch;
          to_cold = filter (\<lambda>op. op_epoch op < threshold_epoch) ops;
          to_cold_ids = map lo_op_id to_cold;
          kept = int (length (filter (\<lambda>op. \<not> op_epoch op < threshold_epoch) ops));
          (moved, s) = move_to_cold disk saved to_cold s;
          s = (if moved > 0 then prune_from_hot (take (nat moved) to_cold_ids) s else s)
      in ((moved, kept), s))"

section \<open>Checkpoints\<close>

type_synonym plan_summary = "(string \<times> json) list"

record checkpoint =
  ck_epoch :: int
  ck_merkle_root :: string
  ck_state_summary :: json
  ck_timestamp_ns :: int
  ck_op_count :: int
  ck_metadata :: plan_summary

record signed_checkpoint =
  sc_checkpoint :: checkpoint
  sc_signatures :: "(string \<times> string) list"

definition checkpoint_hash :: "(string \<Rightarrow> string) \<Rightarrow> (json \<Rightarrow> string) \<Rightarrow> checkpoint \<Rightarrow> string" where
  "checkpoint_hash sha256 dumps c = sha256 (dumps (JObj [(''epoch'', JInt (ck_epoch c)), (''merkle_root'', JStr (ck_merkle_root c)),
     (''op_count'', JInt (ck_op_count c)), (''timestamp_ns'', JInt (ck_timestamp_ns c)), (''state_summary'', ck_state_summary c)]))"

definition add_signature :: "string \<Rightarrow> string \<Rightarrow> signed_checkpoint \<Rightarrow> signed_checkpoint" where
  "add_signature verifier_id signature sc = sc\<lparr>sc_signatures := sc_signatures sc @ [(verifier_id, signature)]\<rparr>"

definition verify_quorum :: "int \<Rightarrow> signed_checkpoint \<Rightarrow> bool" where
  "verify_quorum required_count sc \<longleftrightarrow> int (length (sc_signatures sc)) \<ge> required_count"

text \<open>\<open>cm_files\<close> is the directory: the JSON of a checkpoint by file name.\<close>

record checkpoint_manager =
  cm_files :: "(string, signed_checkpoint) table"
  cm_checkpoints :: "(int, signed_checkpoint) table"
  cm_enable_compression :: bool

definition open_manager :: "bool \<Rightarrow> (string, signed_checkpoint) table \<Rightarrow> checkpoint_manager" where
  "open_manager enable_compression files = \<lparr>cm_files = files, cm_checkpoints = [], cm_enable_compression = enable_compression\<rparr>"

definition create_checkpoint :: "(string \<Rightarrow> string) \<Rightarrow> int \<Rightarrow> plan_summary \<Rightarrow> string list \<Rightarrow> int \<Rightarrow> checkpoint" where
  "create_checkpoint sha256 epoch plan_state op_hashes now =
     \<lparr>ck_epoch = epoch, ck_merkle_root = fst (build_tree sha256 op_hashes init_tree), ck_state_summary = JObj plan_state,
      ck_timestamp_ns = now, ck_op_count = int (length op_hashes), ck_metadata = []\<rparr>"

definition sign_checkpoint :: "checkpoint \<Rightarrow> (string \<times> string) list \<Rightarrow> signed_checkpoint" where
  "sign_checkpoint c verifier_signatures = \<lparr>sc_checkpoint = c, sc_signatures = verifier_signatures\<rparr>"

definition checkpoint_prefix :: string where "checkpoint_prefix = ''checkpoint_epoch_''"

definition checkpoint_name :: "int \<Rightarrow> string" where
  "checkpoint_name epoch = checkpoint_prefix @ str_of_int epoch @ ''.json''"

definition stored_form :: "(string \<Rightarrow> string) \<Rightarrow> bool \<Rightarrow> signed_checkpoint \<Rightarrow> signed_checkpoint" where
  "stored_form zstd compressing sc =
     (if compressing
      then sc\<lparr>sc_checkpoint := (sc_checkpoint sc)\<lparr>ck_state_summary :=
             JObj [(''_compressed'', JBool True),
                   (''_data'', JStr (hex_text (compress_state zstd (ck_state_summary (sc_checkpoint sc)))))]\<rparr>\<rparr>
      else sc)"

definition store_checkpoint :: "(string \<Rightarrow> string) \<Rightarrow> signed_checkpoint \<Rightarrow> checkpoint_manager \<Rightarrow> checkpoint_manager" where
  "store_checkpoint zstd sc m =
     (let epoch = ck_epoch (sc_checkpoint sc)
      in m\<lparr>cm_files := AList.update (checkpoint_name epoch) (stored_form zstd (cm_enable_compression m) sc) (cm_files m),
           cm_checkpoints := AList.update epoch sc (cm_checkpoints m)\<rparr>)"

definition json_truthy :: "json \<Rightarrow> bool" where
  "json_truthy v = (case v of JNull \<Rightarrow> False | JBool b \<Rightarrow> b | JInt n \<Rightarrow> n \<noteq> 0 | JStr s \<Rightarrow> s \<noteq> [] | JList xs \<Rightarrow> xs \<noteq> [] | JObj xs \<Rightarrow> xs \<noteq> [])"

definition marked_compressed :: "json \<Rightarrow> bool" where
  "marked_compressed state =
     (case state of
        JObj entries \<Rightarrow> (case map_of entries ''_compressed'' of None \<Rightarrow> False | Some v \<Rightarrow> json_truthy v)
      | _ \<Rightarrow> False)"

definition data_entry :: "json \<Rightarrow> json option" where
  "data_entry state = (case state of JObj entries \<Rightarrow> map_of entries ''_data'' | _ \<Rightarrow> None)"

text \<open>A marked state without data, or whose data are no hexadecimal text, raises inside the \<open>try\<close>: \<open>None\<close>.\<close>

definition loaded_form :: "(string \<Rightarrow> string option) \<Rightarrow> bool \<Rightarrow> signed_checkpoint \<Rightarrow> signed_checkpoint option" where
  "loaded_form unzstd decompressing sc =
     (let state = ck_state_summary (sc_checkpoint sc) in
      if marked_compressed state \<and> decompressing
      then (case data_entry state of
              Some (JStr d) \<Rightarrow>
                (case from_hex d of
                   None \<Rightarrow> None
                 | Some bytes \<Rightarrow>
                     (case decompress_state unzstd bytes of
                        Some st \<Rightarrow> if json_truthy st then Some (sc\<lparr>sc_checkpoint := (sc_checkpoint sc)\<lparr>ck_state_summary := st\<rparr>\<rparr>)
                                   else Some sc
                      | None \<Rightarrow> Some sc))
            | _ \<Rightarrow> None)
      else Some sc)"

definition load_checkpoint ::
  "(string \<Rightarrow> string option) \<Rightarrow> string \<Rightarrow> checkpoint_manager \<Rightarrow> signed_checkpoint option \<times> checkpoint_manager" where
  "load_checkpoint unzstd name m =
     (case map_of (cm_files m) name of
        None \<Rightarrow> (None, m)
      | Some f \<Rightarrow>
          (case loaded_form unzstd (cm_enable_compression m) f of
             None \<Rightarrow> (None, m)
           | Some sc \<Rightarrow> (Some sc, m\<lparr>cm_checkpoints := AList.update (ck_epoch (sc_checkpoint sc)) sc (cm_checkpoints m)\<rparr>)))"

definition get_checkpoint ::
  "(string \<Rightarrow> string option) \<Rightarrow> int \<Rightarrow> checkpoint_manager \<Rightarrow> signed_checkpoint option \<times> checkpoint_manager" where
  "get_checkpoint unzstd epoch m =
     (case map_of (cm_checkpoints m) epoch of
        Some sc \<Rightarrow> (Some sc, m)
      | None \<Rightarrow>
          if has_key (checkpoint_name epoch) (cm_files m) then load_checkpoint unzstd (checkpoint_name epoch) m else (None, m))"

text \<open>The files in descending order of their names.\<close>

definition get_latest_checkpoint ::
  "(string \<Rightarrow> string option) \<Rightarrow> checkpoint_manager \<Rightarrow> signed_checkpoint option \<times> checkpoint_manager" where
  "get_latest_checkpoint unzstd m =
     (case rev (sort (keys (cm_files m))) of [] \<Rightarrow> (None, m) | name # _ \<Rightarrow> load_checkpoint unzstd name m)"

text \<open>The epoch of a file name: \<open>int(path.stem.split("_")[-1])\<close>.\<close>

definition epoch_of_name :: "string \<Rightarrow> int option" where
  "epoch_of_name name = parse_int (last (split_on CHR ''_'' (take (length name - 5) name)))"

definition list_checkpoints :: "checkpoint_manager \<Rightarrow> int list" where
  "list_checkpoints m = sort (List.map_filter epoch_of_name (keys (cm_files m)))"

definition delete_checkpoint :: "int \<Rightarrow> checkpoint_manager \<Rightarrow> bool \<times> checkpoint_manager" where
  "delete_checkpoint epoch m =
     (if \<not> has_key (checkpoint_name epoch) (cm_files m) then (False, m)
      else (True, m\<lparr>cm_files := AList.delete (checkpoint_name epoch) (cm_files m),
                    cm_checkpoints := AList.delete epoch (cm_checkpoints m)\<rparr>))"

section \<open>Synchronisation from a checkpoint\<close>

record synced_op =
  so_epoch :: "int option"
  so_lamport :: "int option"

definition or_zero :: "int option \<Rightarrow> int" where
  "or_zero x = (case x of None \<Rightarrow> 0 | Some n \<Rightarrow> n)"

definition verify_continuity :: "signed_checkpoint \<Rightarrow> synced_op list \<Rightarrow> bool" where
  "verify_continuity sc ops \<longleftrightarrow>
     ops = [] \<or>
     list_all (\<lambda>op. \<not> or_zero (so_epoch op) \<le> ck_epoch (sc_checkpoint sc)) ops \<and>
     (let lamports = map (\<lambda>op. or_zero (so_lamport op)) ops in lamports = sort lamports)"

record sync_result =
  sr_checkpoint_epoch :: int
  sr_checkpoint_ops :: int
  sr_new_ops :: nat
  sr_state :: json

text \<open>Downloading and applying serialise the checkpoint and read it back.\<close>

definition fast_sync_node ::
  "(string \<Rightarrow> string option) \<Rightarrow> (int \<Rightarrow> synced_op list) option \<Rightarrow> checkpoint_manager \<Rightarrow> sync_result option \<times> checkpoint_manager" where
  "fast_sync_node unzstd op_source m =
     (case get_latest_checkpoint unzstd m of
        (None, m) \<Rightarrow> (None, m)
      | (Some latest, m) \<Rightarrow>
          (case get_checkpoint unzstd (ck_epoch (sc_checkpoint latest)) m of
             (None, m) \<Rightarrow> (None, m)
           | (Some sc, m) \<Rightarrow>
               let state = ck_state_summary (sc_checkpoint sc);
                   ops = (case op_source of None \<Rightarrow> [] | Some f \<Rightarrow> f (ck_epoch (sc_checkpoint latest)))
               in (if \<not> json_truthy state \<or> \<not> verify_continuity latest ops then None
                   else Some \<lparr>sr_checkpoint_epoch = ck_epoch (sc_checkpoint latest), sr_checkpoint_ops = ck_op_count (sc_checkpoint latest),
                     sr_new_ops = length ops, sr_state = state\<rparr>, m)))"

definition should_use_fast_sync :: "int \<Rightarrow> bool \<Rightarrow> bool" where
  "should_use_fast_sync full_sync_op_count checkpoint_available \<longleftrightarrow> checkpoint_available \<and> full_sync_op_count > 1000"

section \<open>The CHECKPOINT handler\<close>

record checkpoint_payload =
  cpl_epoch :: "int option"
  cpl_merkle_root :: "string option"
  cpl_state_summary :: "json option"
  cpl_timestamp_ns :: "int option"
  cpl_op_count :: "int option"
  cpl_metadata :: "plan_summary option"
  cpl_signatures :: "(string \<times> string) list option"

definition handle_checkpoint ::
  "(string \<Rightarrow> string) \<Rightarrow> int \<Rightarrow> checkpoint_payload \<Rightarrow> checkpoint_manager option \<Rightarrow> checkpoint_manager option" where
  "handle_checkpoint zstd now p manager =
     (case (cpl_epoch p, cpl_merkle_root p, cpl_state_summary p) of
        (Some epoch, Some merkle_root, Some state_summary) \<Rightarrow>
          if merkle_root = [] \<or> \<not> json_truthy state_summary then manager
          else map_option (store_checkpoint zstd
            \<lparr>sc_checkpoint = \<lparr>ck_epoch = epoch, ck_merkle_root = merkle_root, ck_state_summary = state_summary,
               ck_timestamp_ns = (case cpl_timestamp_ns p of None \<Rightarrow> now | Some t \<Rightarrow> t), ck_op_count = or_zero (cpl_op_count p),
               ck_metadata = (case cpl_metadata p of None \<Rightarrow> [] | Some d \<Rightarrow> d)\<rparr>,
             sc_signatures = (case cpl_signatures p of None \<Rightarrow> [] | Some s \<Rightarrow> s)\<rparr>) manager
      | _ \<Rightarrow> manager)"

end
