(* ===== verification/StorageProps.thy ===== *)
theory StorageProps
  imports Storage MerkleProps
begin

text \<open>
  Correctness of storage: pruning keeps every operation readable when the disk works, and what a failing write loses;
  a stored checkpoint is read back by another process and serves proofs of its operations; the order in which file names
  name the latest checkpoint.
\<close>

section \<open>Pruning\<close>

text \<open>The policy's test and its threshold agree.\<close>

lemma should_prune_threshold: "should_prune p e current \<longleftrightarrow> e < get_pruning_threshold p current"
  by (auto simp: should_prune_def get_pruning_threshold_def)

text \<open>An operation the list names is the one the storage holds under its identifier.\<close>

definition stored_op :: "tiered_storage \<Rightarrow> log_op \<Rightarrow> bool" where
  "stored_op s op \<longleftrightarrow> (\<exists>i. lo_op_id op = Some i \<and> i \<noteq> [] \<and> get_op i s = Some op)"

text \<open>The operation is on disk, indexed and no longer in memory.\<close>

definition archived :: "tiered_storage \<Rightarrow> log_op \<Rightarrow> bool" where
  "archived s op \<longleftrightarrow> (\<exists>i. lo_op_id op = Some i \<and> map_of (ts_hot_tier s) i = None \<and> i \<in> ts_cold_index s \<and>
     map_of (ts_files s) i = Some (Some op))"

lemma get_op_archived: "archived s op \<Longrightarrow> lo_op_id op = Some i \<Longrightarrow> get_op i s = Some op"
  by (auto simp: archived_def get_op_def read_from_cold_def)

text \<open>What an identifier finds depends on its entry in each of the three places only.\<close>

lemma get_op_cong:
  "map_of (ts_hot_tier s) i = map_of (ts_hot_tier t) i \<Longrightarrow> i \<in> ts_cold_index s \<longleftrightarrow> i \<in> ts_cold_index t \<Longrightarrow>
     map_of (ts_files s) i = map_of (ts_files t) i \<Longrightarrow> get_op i s = get_op i t"
  unfolding get_op_def read_from_cold_def by (cases "map_of (ts_hot_tier t) i") simp_all

lemma move_op_written:
  assumes "disk op = Written" and "stored_op s op"
  shows "\<exists>s'. move_op disk op (n, s) = (n + 1, s') \<and> (\<forall>j. get_op j s' = get_op j s) \<and> archived s' op \<and>
    (\<forall>op'. archived s op' \<longrightarrow> archived s' op') \<and>
    (\<forall>j. map_of (ts_hot_tier s') j = (if lo_op_id op = Some j then None else map_of (ts_hot_tier s) j))"
proof -
  obtain i where i: "lo_op_id op = Some i" "i \<noteq> []" "get_op i s = Some op" using assms(2) by (auto simp: stored_op_def)
  let ?s = "s\<lparr>ts_hot_tier := AList.delete i (ts_hot_tier s), ts_cold_index := insert i (ts_cold_index s),
      ts_files := AList.update i (Some op) (ts_files s)\<rparr>"
  have step: "move_op disk op (n, s) = (n + 1, ?s)" using i assms(1) by (simp add: move_op_def write_to_cold_def)
  have "archived ?s op" using i by (simp add: archived_def)
  moreover have "archived ?s op'" if a: "archived s op'" for op'
  proof -
    obtain j where "lo_op_id op' = Some j" using a unfolding archived_def by blast
    with a have j: "lo_op_id op' = Some j" "archived s op'" by simp_all
    have "op' = op" if "j = i" using get_op_archived [OF j(2,1)] i(3) that by simp
    with j \<open>archived ?s op\<close> show ?thesis by (cases "j = i") (auto simp: archived_def)
  qed
  moreover have "get_op j ?s = get_op j s" for j
    using get_op_archived [OF \<open>archived ?s op\<close> i(1)] i(3) by (cases "j = i") (auto intro!: get_op_cong)
  moreover have "map_of (ts_hot_tier ?s) j = (if lo_op_id op = Some j then None else map_of (ts_hot_tier s) j)" for j
    using i(1) by (simp add: delete_conv')
  ultimately show ?thesis using step by blast
qed

lemma move_ops_written:
  assumes "\<forall>op \<in> set ops. disk op = Written \<and> stored_op s op"
  shows "\<exists>s'. fold (move_op disk) ops (n, s) = (n + int (length ops), s') \<and> (\<forall>j. get_op j s' = get_op j s) \<and>
    (\<forall>op \<in> set ops. archived s' op) \<and> (\<forall>op. archived s op \<longrightarrow> archived s' op) \<and>
    (\<forall>j. map_of (ts_hot_tier s') j = (if Some j \<in> lo_op_id ` set ops then None else map_of (ts_hot_tier s) j))"
  using assms
proof (induction ops arbitrary: n s)
  case (Cons op ops)
  obtain s1 where s1: "move_op disk op (n, s) = (n + 1, s1)" "\<forall>j. get_op j s1 = get_op j s" "archived s1 op"
    "\<forall>op'. archived s op' \<longrightarrow> archived s1 op'"
    "\<forall>j. map_of (ts_hot_tier s1) j = (if lo_op_id op = Some j then None else map_of (ts_hot_tier s) j)"
    using move_op_written [of disk op s n] Cons.prems by auto
  have "\<forall>op \<in> set ops. disk op = Written \<and> stored_op s1 op" using Cons.prems s1(2) by (simp add: stored_op_def)
  from Cons.IH [OF this, of "n + 1"] obtain s2 where s2: "fold (move_op disk) ops (n + 1, s1) = (n + 1 + int (length ops), s2)"
    "\<forall>j. get_op j s2 = get_op j s1" "\<forall>op \<in> set ops. archived s2 op" "\<forall>op. archived s1 op \<longrightarrow> archived s2 op"
    "\<forall>j. map_of (ts_hot_tier s2) j = (if Some j \<in> lo_op_id ` set ops then None else map_of (ts_hot_tier s1) j)" by blast
  have "map_of (ts_hot_tier s2) j = (if Some j \<in> lo_op_id ` set (op # ops) then None else map_of (ts_hot_tier s) j)" for j
    unfolding s2(5) [rule_format] s1(5) [rule_format] by auto
  with s1 s2 show ?case by (intro exI [of _ s2]) simp
qed simp

lemma prune_absent: "\<forall>i. Some i \<in> set ids \<longrightarrow> map_of (ts_hot_tier s) i = None \<Longrightarrow>
    (\<forall>j. map_of (ts_hot_tier (prune_from_hot ids s)) j = map_of (ts_hot_tier s) j)"
proof -
  have "map_of (fold (\<lambda>i t. case i of None \<Rightarrow> t | Some i \<Rightarrow> AList.delete i t) ids t) j = map_of t j"
    if "\<forall>i. Some i \<in> set ids \<longrightarrow> map_of t i = None" for t :: "(string, log_op) table" and j
    using that by (induction ids arbitrary: t) (auto split: option.splits)
  then show "\<forall>i. Some i \<in> set ids \<longrightarrow> map_of (ts_hot_tier s) i = None \<Longrightarrow> ?thesis" by (simp add: prune_from_hot_def)
qed

text \<open>
  Claim C39.  When every write succeeds and the list holds operations of the storage under their identifiers, pruning takes
  exactly the operations of epochs before the threshold out of memory, counts them and keeps all others in memory; every
  identifier finds the operation it found before; and the operations that were moved are found by a new process over the
  directory as well (those that were kept are in the memory of this process only).
\<close>

theorem pruning_keeps_operations:
  assumes "\<forall>op \<in> set ops. disk op = Written \<and> stored_op s op"
    and "prune_before_epoch disk True p ops current s = ((moved, kept), s')"
  shows "moved = int (length (filter (\<lambda>op. should_prune p (op_epoch op) current) ops)) \<and> moved + kept = int (length ops) \<and>
    (\<forall>i. map_of (ts_hot_tier s') i =
       (if \<exists>op \<in> set ops. should_prune p (op_epoch op) current \<and> lo_op_id op = Some i then None else map_of (ts_hot_tier s) i)) \<and>
    (\<forall>i. get_op i s' = get_op i s) \<and>
    (\<forall>op \<in> set ops. should_prune p (op_epoch op) current \<longrightarrow>
       (\<exists>i. lo_op_id op = Some i \<and> get_op i (reopen_storage s') = Some op))"
proof -
  define old where "old = filter (\<lambda>op. op_epoch op < get_pruning_threshold p current) ops"
  have old: "\<forall>op \<in> set old. disk op = Written \<and> stored_op s op" using assms(1) by (simp add: old_def)
  obtain s1 where s1: "fold (move_op disk) old (0, s) = (int (length old), s1)" "\<And>j. get_op j s1 = get_op j s"
    "\<forall>op \<in> set old. archived s1 op"
    "\<And>j. map_of (ts_hot_tier s1) j = (if Some j \<in> lo_op_id ` set old then None else map_of (ts_hot_tier s) j)"
    using move_ops_written [OF old, of 0] by auto
  define s2 where "s2 = save_cold_index True s1"
  define s3 where "s3 = (if int (length old) > 0 then prune_from_hot (take (length old) (map lo_op_id old)) s2 else s2)"
  define rest where "rest = filter (\<lambda>op. \<not> op_epoch op < get_pruning_threshold p current) ops"
  have "prune_before_epoch disk True p ops current s = ((int (length old), int (length rest)), s3)"
    unfolding prune_before_epoch_def move_to_cold_def Let_def old_def [symmetric] rest_def [symmetric] s1(1) s3_def s2_def
    by simp
  then have mv: "moved = int (length old)" "kept = int (length (filter (\<lambda>op. \<not> op_epoch op < get_pruning_threshold p current) ops))"
    "s' = s3"
    using assms(2) by (simp_all add: rest_def)
  have fields: "ts_hot_tier s2 = ts_hot_tier s1" "ts_cold_index s2 = ts_cold_index s1" "ts_files s2 = ts_files s1"
    "ts_index_file s2 = Some (ts_cold_index s1)"
    by (simp_all add: s2_def save_cold_index_def)
  have "\<forall>i. Some i \<in> set (take (length old) (map lo_op_id old)) \<longrightarrow> map_of (ts_hot_tier s2) i = None"
    using s1(3) fields(1) by (auto simp: archived_def)
  from prune_absent [OF this] have hot: "map_of (ts_hot_tier s3) j = map_of (ts_hot_tier s1) j" for j
    using fields(1) by (simp add: s3_def)
  have files: "ts_cold_index s3 = ts_cold_index s1" "ts_files s3 = ts_files s1" "ts_index_file s3 = Some (ts_cold_index s1)"
    using fields by (simp_all add: s3_def prune_from_hot_def)
  have get: "get_op i s3 = get_op i s" for i
    by (subst s1(2) [symmetric], rule get_op_cong) (simp_all add: hot files)
  have pruned: "\<exists>i. lo_op_id op = Some i \<and> get_op i (reopen_storage s3) = Some op"
    if "op \<in> set ops" "should_prune p (op_epoch op) current" for op
  proof -
    have "op \<in> set old" using that by (simp add: old_def should_prune_threshold)
    then obtain i where "lo_op_id op = Some i" "map_of (ts_hot_tier s1) i = None" "i \<in> ts_cold_index s1" "map_of (ts_files s1) i = Some (Some op)"
      using s1(3) by (auto simp: archived_def)
    then show ?thesis
      by (auto simp: hot reopen_storage_def load_cold_index_def files get_op_def read_from_cold_def)
  qed
  have "length old + length (filter (\<lambda>op. \<not> op_epoch op < get_pruning_threshold p current) ops) = length ops"
    unfolding old_def by (rule sum_length_filter_compl)
  moreover have "map_of (ts_hot_tier s3) i =
      (if \<exists>op \<in> set ops. should_prune p (op_epoch op) current \<and> lo_op_id op = Some i then None else map_of (ts_hot_tier s) i)" for i
  proof -
    have "Some i \<in> lo_op_id ` set old \<longleftrightarrow> (\<exists>op \<in> set ops. should_prune p (op_epoch op) current \<and> lo_op_id op = Some i)"
      unfolding old_def should_prune_threshold by force
    then show ?thesis using hot s1(4) by simp
  qed
  ultimately show ?thesis using get pruned mv by (simp add: old_def should_prune_threshold)
qed

text \<open>When the first write fails, the identifiers cut off the hot tier are not those that were written: the operation
  that is on disk nowhere is deleted from memory.\<close>

definition demo_op :: "string \<Rightarrow> int \<Rightarrow> log_op" where
  "demo_op i e = \<lparr>lo_op_id = Some i, lo_epoch = Some e, lo_data = []\<rparr>"

definition demo_storage :: tiered_storage where
  "demo_storage = fold (\<lambda>i. add_to_hot i (demo_op i 1)) [''a'', ''b'']
     \<lparr>ts_hot_tier = [], ts_cold_index = {}, ts_files = [], ts_index_file = None\<rparr>"

definition demo_policy :: pruning_policy where
  "demo_policy = \<lparr>py_keep_epochs = 10, py_min_ops_per_epoch = 100\<rparr>"

lemma failed_write_loses_operation:
  "let disk = (\<lambda>op. if lo_op_id op = Some ''a'' then NotOpened else Written);
       (counts, s) = prune_before_epoch disk True demo_policy [demo_op ''a'' 1, demo_op ''b'' 1] 20 demo_storage
   in counts = (1, 0) \<and> get_op ''a'' demo_storage \<noteq> None \<and> get_op ''a'' s = None"
  by code_simp

lemma pruning_keeps_operations_witness:
  "get_op ''a'' (snd (prune_before_epoch (\<lambda>op. Written) True demo_policy [demo_op ''a'' 1, demo_op ''b'' 1] 20 demo_storage)) =
     get_op ''a'' demo_storage"
proof -
  have "\<forall>op \<in> set [demo_op ''a'' 1, demo_op ''b'' 1]. (\<lambda>op. Written) op = Written \<and> stored_op demo_storage op"
    by (simp add: stored_op_def demo_op_def demo_storage_def add_to_hot_def get_op_def op_truthy_def)
  moreover obtain moved kept s' where run: "prune_before_epoch (\<lambda>op. Written) True demo_policy
      [demo_op ''a'' 1, demo_op ''b'' 1] 20 demo_storage = ((moved, kept), s')"
    by (metis surj_pair)
  ultimately have "\<forall>i. get_op i s' = get_op i demo_storage"
    using pruning_keeps_operations [of "[demo_op ''a'' 1, demo_op ''b'' 1]" "\<lambda>op. Written" demo_storage demo_policy 20 moved kept s']
    by blast
  with run show ?thesis by simp
qed

section \<open>Checkpoints\<close>

lemma str_of_int_nonneg: "0 \<le> e \<Longrightarrow> str_of_int e = str_of_nat (nat e)"
  by (simp add: str_of_int_def)

lemma checkpoint_name_inj: "checkpoint_name e = checkpoint_name e' \<longleftrightarrow> e = e'"
  by (auto simp: checkpoint_name_def dest: str_of_int_inj)

lemma split_on_digits: "list_all is_digit s \<Longrightarrow> split_on CHR ''_'' s = [s]"
  by (induction s) (auto simp: is_digit_def)

lemma epoch_of_checkpoint_name: "0 \<le> e \<Longrightarrow> epoch_of_name (checkpoint_name e) = Some e"
proof -
  assume "0 \<le> e"
  let ?d = "str_of_nat (nat e)"
  have "take (length (checkpoint_name e) - 5) (checkpoint_name e) = ''checkpoint'' @ CHR ''_'' # ''epoch'' @ CHR ''_'' # ?d"
    using \<open>0 \<le> e\<close> by (simp add: checkpoint_name_def checkpoint_prefix_def str_of_int_nonneg)
  moreover have "split_on CHR ''_'' (''checkpoint'' @ CHR ''_'' # ''epoch'' @ CHR ''_'' # ?d) = [''checkpoint'', ''epoch'', ?d]"
    by (subst split_on_append, simp, subst split_on_append, simp, simp only: split_on_digits [OF list_all_digits])
  ultimately show ?thesis using \<open>0 \<le> e\<close> parse_int_str [of "nat e"] by (simp add: epoch_of_name_def)
qed

lemma loaded_stored:
  assumes "\<And>s. unzstd (zstd s) = Some s" and "json_keyed (ck_state_summary (sc_checkpoint sc))"
    and "json_truthy (sort_json (ck_state_summary (sc_checkpoint sc)))"
  shows "loaded_form unzstd True (stored_form zstd True sc) =
    Some (sc\<lparr>sc_checkpoint := (sc_checkpoint sc)\<lparr>ck_state_summary := sort_json (ck_state_summary (sc_checkpoint sc))\<rparr>\<rparr>)"
proof -
  let ?st = "ck_state_summary (sc_checkpoint sc)" let ?d = "hex_text (compress_state zstd ?st)"
  have "marked_compressed (JObj [(''_compressed'', JBool True), (''_data'', JStr ?d)])"
    "data_entry (JObj [(''_compressed'', JBool True), (''_data'', JStr ?d)]) = Some (JStr ?d)"
    by (simp_all add: marked_compressed_def data_entry_def json_truthy_def)
  moreover have "from_hex ?d = Some (compress_state zstd ?st)" by (rule from_hex_text)
  moreover have "decompress_state unzstd (compress_state zstd ?st) = Some (sort_json ?st)"
    using assms(1,2) by (rule decompress_compress_state)
  ultimately show ?thesis using assms(3) by (simp add: loaded_form_def stored_form_def)
qed

lemma loaded_uncompressed: "loaded_form unzstd False sc = Some sc" "stored_form zstd False sc = sc"
  by (simp_all add: loaded_form_def stored_form_def Let_def)

text \<open>
  Claim C40.  A checkpoint that is created, signed and stored is what the manager returns for its epoch.  Another process
  over the same directory reads the same checkpoint: without compression unchanged, with compression (which goes through
  canonical JSON, UTF-8, zstandard and hexadecimal text and back) with the state that was stored, the keys of its
  objects sorted.  The epoch is listed once more, in order; no other epoch is affected; and the Merkle root proves every
  operation it was made of.  Assumed: zstandard gives back what it compressed, the state is a non-empty dictionary
  without floats (an empty one is not restored, lemma \<open>empty_state_not_restored\<close>) and the epoch is not negative.
\<close>

theorem checkpoint_stored_and_restored:
  assumes "\<And>s. unzstd (zstd s) = Some s" and "json_keyed (JObj plan_state)" and "plan_state \<noteq> []" and "0 \<le> epoch"
    and "c = create_checkpoint sha256 epoch plan_state op_hashes now" and "sc = sign_checkpoint c sigs"
    and "m' = store_checkpoint zstd sc m"
  shows "fst (get_checkpoint unzstd epoch m') = Some sc \<and> ck_state_summary c = JObj plan_state \<and>
    fst (get_checkpoint unzstd epoch (open_manager (cm_enable_compression m) (cm_files m'))) =
      Some (if cm_enable_compression m then sc\<lparr>sc_checkpoint := c\<lparr>ck_state_summary := sort_json (JObj plan_state)\<rparr>\<rparr> else sc) \<and>
    set (list_checkpoints m') = insert epoch (set (list_checkpoints m)) \<and> sorted (list_checkpoints m') \<and>
    (\<forall>e. e \<noteq> epoch \<longrightarrow> fst (get_checkpoint unzstd e m') = fst (get_checkpoint unzstd e m)) \<and>
    (\<forall>i < length op_hashes. \<exists>p. get_proof (int i) (snd (build_tree sha256 op_hashes init_tree)) = Some (Some p) \<and>
       verify_proof sha256 (op_hashes ! i) p (ck_merkle_root c))"
proof -
  let ?b = "cm_enable_compression m"
  have c: "ck_epoch c = epoch" "ck_state_summary c = JObj plan_state" "sc_checkpoint sc = c"
    using assms(5,6) by (simp_all add: create_checkpoint_def sign_checkpoint_def)
  have files: "cm_files m' = AList.update (checkpoint_name epoch) (stored_form zstd ?b sc) (cm_files m)"
    and cache: "cm_checkpoints m' = AList.update epoch sc (cm_checkpoints m)"
    and b: "cm_enable_compression m' = ?b"
    using assms(7) c by (simp_all add: store_checkpoint_def Let_def)
  have same: "fst (get_checkpoint unzstd epoch m') = Some sc" by (simp add: get_checkpoint_def cache)
  have "sort_json (JObj plan_state) = JObj [] \<longleftrightarrow> plan_state = []"
    by simp (metis length_0_conv length_map length_sort)
  then have "json_truthy (sort_json (ck_state_summary (sc_checkpoint sc)))"
    using assms(3) c by (simp add: json_truthy_def)
  then have "loaded_form unzstd ?b (stored_form zstd ?b sc) =
      Some (if ?b then sc\<lparr>sc_checkpoint := c\<lparr>ck_state_summary := sort_json (JObj plan_state)\<rparr>\<rparr> else sc)"
    using loaded_stored [of unzstd zstd sc, OF assms(1)] assms(2) c loaded_uncompressed
    by (cases ?b) (simp_all del: sort_json.simps)
  then have fresh: "fst (get_checkpoint unzstd epoch (open_manager ?b (cm_files m'))) =
      Some (if ?b then sc\<lparr>sc_checkpoint := c\<lparr>ck_state_summary := sort_json (JObj plan_state)\<rparr>\<rparr> else sc)"
    by (simp add: get_checkpoint_def open_manager_def load_checkpoint_def files del: sort_json.simps)
  have listed: "set (list_checkpoints m') = insert epoch (set (list_checkpoints m))"
  proof -
    have "set (keys (cm_files m')) = insert (checkpoint_name epoch) (set (keys (cm_files m)))"
      unfolding files using dom_update [of "checkpoint_name epoch"] by (simp add: dom_map_of_conv_image_fst [symmetric] del: dom_fun_upd)
    then show ?thesis using epoch_of_checkpoint_name [OF assms(4)]
      by (auto simp: list_checkpoints_def set_map_filter)
  qed
  have others: "fst (get_checkpoint unzstd e m') = fst (get_checkpoint unzstd e m)" if "e \<noteq> epoch" for e
    using that by (simp add: get_checkpoint_def load_checkpoint_def cache files b has_key_def checkpoint_name_inj split: option.splits)
  have proofs: "\<exists>p. get_proof (int i) (snd (build_tree sha256 op_hashes init_tree)) = Some (Some p) \<and>
      verify_proof sha256 (op_hashes ! i) p (ck_merkle_root c)" if "i < length op_hashes" for i
    using proof_exists [OF surjective_pairing that, of sha256 init_tree] assms(5) by (auto simp: create_checkpoint_def)
  have "sorted (list_checkpoints m')" by (simp add: list_checkpoints_def)
  with same fresh listed others proofs c(2) show ?thesis by blast
qed

text \<open>File names are compared as strings: after epochs 9 and 10 the latest checkpoint is that of epoch 9, and a new node
  synchronises from it.\<close>

definition demo_signed :: "int \<Rightarrow> plan_summary \<Rightarrow> signed_checkpoint" where
  "demo_signed e st = sign_checkpoint (create_checkpoint (\<lambda>s. s) e st [''h''] 0) []"

definition demo_manager :: checkpoint_manager where
  "demo_manager = fold (\<lambda>e. store_checkpoint (\<lambda>s. s) (demo_signed e [(''epoch'', JInt e)])) [9, 10] (open_manager False [])"

lemma latest_checkpoint_by_name:
  "map_option (ck_epoch \<circ> sc_checkpoint) (fst (get_latest_checkpoint Some demo_manager)) = Some 9 \<and>
   list_checkpoints demo_manager = [9, 10] \<and>
   map_option sr_checkpoint_epoch (fst (fast_sync_node Some None demo_manager)) = Some 9"
  by code_simp

text \<open>An empty state comes back as the marker of compressed states, since an empty dictionary counts as no state.\<close>

lemma empty_state_not_restored:
  "map_option (ck_state_summary \<circ> sc_checkpoint) (loaded_form Some True (stored_form (\<lambda>s. s) True (demo_signed 1 []))) =
     Some (JObj [(''_compressed'', JBool True), (''_data'', JStr ''7b7d'')])"
  by code_simp

text \<open>One verifier can make up a quorum by signing several times.\<close>

lemma quorum_counts_repetitions: "verify_quorum 2 (add_signature v sig (add_signature v sig sc))"
  by (simp add: verify_quorum_def add_signature_def)

lemma checkpoint_stored_and_restored_witness:
  "map_option (ck_state_summary \<circ> sc_checkpoint) (fst (get_checkpoint (\<lambda>s. Some (rev s)) 3
     (open_manager True (cm_files (store_checkpoint rev (demo_signed 3 [(''t'', JInt 1), (''s'', JStr ''x'')]) (open_manager True [])))))) =
   Some (JObj [(''s'', JStr ''x''), (''t'', JInt 1)])"
proof -
  let ?st = "[(''t'', JInt 1), (''s'', JStr ''x'')]"
  have "sort_json (JObj ?st) = JObj [(''s'', JStr ''x''), (''t'', JInt 1)]" by code_simp
  moreover have "json_keyed (JObj ?st)" by simp
  ultimately show ?thesis
    using checkpoint_stored_and_restored [of "\<lambda>s. Some (rev s)" rev ?st 3 _ "\<lambda>s. s" "[''h'']" 0
        "demo_signed 3 ?st" "[]" _ "open_manager True []", OF _ _ _ _ refl _ refl]
    by (simp add: demo_signed_def open_manager_def sign_checkpoint_def del: sort_json.simps)
qed

end
