(* ===== verification/Handlers.thy ===== *)
theory Handlers
  imports Patches Consensus Leases Auctions Dependencies Commitment Committees Storage Policy
begin

text \<open>
  The handlers of task messages (\<open>handlers/\<close>: \<open>need.py\<close>, \<open>propose.py\<close>, \<open>propose_extended.py\<close>, \<open>claim.py\<close>,
  \<open>claim_extended.py\<close>, \<open>decide.py\<close>, \<open>release.py\<close>, \<open>yield_handler.py\<close>, \<open>heartbeat.py\<close>): each turns a message into
  operations of the plan store and calls the component it guards.  A payload is a record of the entries the handler
  reads, \<open>None\<close> for an absent one; a patch stays JSON.  \<open>uuid n\<close> and \<open>clock n\<close> are the identifiers and clock readings a
  call may draw.  The consensus adapter is not part of the repository: what it answers to an attempt in the current
  epoch is the argument \<open>attempt_decide\<close> and its state a component of the node.
\<close>

section \<open>Messages and the node\<close>

record 'p message =
  ms_thread_id :: string
  ms_lamport :: int
  ms_sender :: string
  ms_payload :: 'p

record claim_lease =
  cl_task_id :: string
  cl_worker_id :: string
  cl_ttl :: int
  cl_created_at :: int
  cl_last_heartbeat :: int
  cl_heartbeat_interval :: int

text \<open>The objects injected into the modules, \<open>None\<close> where one may be missing, and the module variables.\<close>

record 'c node =
  nd_plan :: plan_store
  nd_consensus :: "'c option"
  nd_epochs :: epoch_manager
  nd_ballots :: "(string, string set) table"
  nd_claims :: "(string, claim_lease) table"
  nd_lease_manager :: "lease_system option"
  nd_auctions :: "auction_manager option"
  nd_pool :: "pool_ledger option"
  nd_quorums :: quorum_tracker
  nd_dag :: "dependency_dag option"
  nd_commitments :: "commitment_protocol option"
  nd_gates :: gate_enforcer

text \<open>A call returns the exception it raises, if any, and the node it leaves.\<close>

datatype handler_error = StoreError plan_error | CoroutineNotIterable | NotAllowed enforcement_error

type_synonym 'c act = "'c node \<Rightarrow> handler_error option \<times> 'c node"

definition and_then :: "'c act \<Rightarrow> 'c act \<Rightarrow> 'c act" where
  "and_then a b n = (case a n of (None, n) \<Rightarrow> b n | (Some e, n) \<Rightarrow> (Some e, n))"

definition append_to_plan :: "plan_op \<Rightarrow> 'c act" where
  "append_to_plan op n =
     (case append_op op (nd_plan n) of Inl e \<Rightarrow> (Some (StoreError e), n) | Inr p \<Rightarrow> (None, n\<lparr>nd_plan := p\<rparr>))"

definition json_opt :: "('a \<Rightarrow> json) \<Rightarrow> 'a option \<Rightarrow> json" where
  "json_opt f x = (case x of None \<Rightarrow> JNull | Some v \<Rightarrow> f v)"

definition annotate_op :: "string \<Rightarrow> 'p message \<Rightarrow> string \<Rightarrow> string \<Rightarrow> (string, json) table \<Rightarrow> int \<Rightarrow> plan_op" where
  "annotate_op i m task_id annotation_type entries ts =
     \<lparr>po_op_id = i, po_thread_id = ms_thread_id m, po_lamport = ms_lamport m, po_actor_id = ms_sender m, po_type = ANNOTATE,
      po_task_id = task_id, po_payload = (''annotation_type'', JStr annotation_type) # entries, po_timestamp_ns = ts\<rparr>"

definition state_operation :: "string \<Rightarrow> 'p message \<Rightarrow> int \<Rightarrow> string \<Rightarrow> string \<Rightarrow> int \<Rightarrow> plan_op" where
  "state_operation i m lamport task_id new_state ts =
     \<lparr>po_op_id = i, po_thread_id = ms_thread_id m, po_lamport = lamport, po_actor_id = ms_sender m, po_type = STATE,
      po_task_id = task_id, po_payload = [(''state'', JStr new_state)], po_timestamp_ns = ts\<rparr>"

definition no_text :: "string option \<Rightarrow> bool" where
  "no_text x \<longleftrightarrow> x = None \<or> x = Some []"

definition not_positive :: "int option \<Rightarrow> bool" where
  "not_positive x = (case x of None \<Rightarrow> False | Some v \<Rightarrow> v \<le> 0)"

section \<open>NEED\<close>

record need_payload =
  np_task_type :: "string option"
  np_requires :: "json option"
  np_produces :: "json option"
  np_budget :: "pyfloat option"

text \<open>The handler up to the sleep for the bid window, and what it does after it.\<close>

definition handle_need :: "(nat \<Rightarrow> string) \<Rightarrow> (nat \<Rightarrow> int) \<Rightarrow> need_payload message \<Rightarrow> 'c act" where
  "handle_need uuid clock m =
     (let task_id = uuid 0; p = ms_payload m in
      and_then (append_to_plan
        \<lparr>po_op_id = uuid 1, po_thread_id = ms_thread_id m, po_lamport = ms_lamport m, po_actor_id = ms_sender m, po_type = ADD_TASK,
         po_task_id = task_id,
         po_payload = [(''type'', JStr (or_default ''generic'' (np_task_type p))),
                       (''requires'', or_default (JList []) (np_requires p)), (''produces'', or_default (JList []) (np_produces p))],
         po_timestamp_ns = clock 0\<rparr>)
      (\<lambda>n. (None, n\<lparr>nd_auctions :=
         map_option (\<lambda>a. snd (start_auction task_id (or_default 1000 (np_budget p)) (clock 1) a)) (nd_auctions n)\<rparr>)))"

definition finish_need :: "string \<Rightarrow> 'c node \<Rightarrow> auction_bid option \<times> 'c node" where
  "finish_need task_id n =
     (case nd_auctions n of
        None \<Rightarrow> (None, n)
      | Some a \<Rightarrow>
          (case close_auction task_id a of
             (Some winner, a) \<Rightarrow> (Some winner, n\<lparr>nd_auctions := Some a\<rparr>)
           | (None, a) \<Rightarrow> (None, n\<lparr>nd_auctions := Some (snd (timeout_auction task_id a))\<rparr>)))"

section \<open>PROPOSE and CLAIM\<close>

record propose_payload =
  pp_need_id :: "string option"
  pp_proposal_id :: "string option"
  pp_plan :: "json option"
  pp_metadata :: "json option"

definition handle_propose :: "(nat \<Rightarrow> string) \<Rightarrow> (nat \<Rightarrow> int) \<Rightarrow> propose_payload message \<Rightarrow> 'c act" where
  "handle_propose uuid clock m =
     (let p = ms_payload m; proposal_id = or_default (uuid 0) (pp_proposal_id p) in
      append_to_plan (annotate_op (uuid 1) m (or_default ''global'' (pp_need_id p)) ''proposal''
        [(''proposal_id'', JStr proposal_id), (''plan'', or_default (JList []) (pp_plan p)), (''proposer'', JStr (ms_sender m)),
         (''metadata'', or_default (JObj []) (pp_metadata p))] (clock 0)))"

record claim_payload =
  cp_task_id :: "string option"
  cp_claim_id :: "string option"
  cp_lease_ttl :: "int option"

definition handle_claim :: "(nat \<Rightarrow> string) \<Rightarrow> (nat \<Rightarrow> int) \<Rightarrow> claim_payload message \<Rightarrow> 'c act" where
  "handle_claim uuid clock m n =
     (let p = ms_payload m in
      if no_text (cp_task_id p) then (None, n)
      else append_to_plan (annotate_op (uuid 1) m (the (cp_task_id p)) ''claim''
        [(''claim_id'', JStr (or_default (uuid 0) (cp_claim_id p))), (''claimer'', JStr (ms_sender m)),
         (''lease_ttl'', JInt (or_default 300 (cp_lease_ttl p))), (''claimed_at'', JInt (clock 0))] (clock 1)) n)"

section \<open>PROPOSE_EXTENDED\<close>

record proposal_payload =
  xp_need_id :: "string option"
  xp_proposal_id :: "string option"
  xp_ballot :: "string option"
  xp_patch :: "(string, json) table list"
  xp_cost :: "int option"
  xp_eta :: "int option"

definition valid_patch_op :: "(string, json) table \<Rightarrow> bool" where
  "valid_patch_op op_data \<longleftrightarrow>
     (case map_of op_data ''op_type'' of Some (JStr s) \<Rightarrow> Patches.op_type_of s \<noteq> None | _ \<Rightarrow> False) \<and>
     (case map_of op_data ''task_id'' of None \<Rightarrow> False | Some t \<Rightarrow> json_truthy t)"

definition ballots_of :: "string \<Rightarrow> (string, string set) table \<Rightarrow> string set" where
  "ballots_of sender t = (case map_of t sender of None \<Rightarrow> {} | Some s \<Rightarrow> s)"

definition handle_propose_extended :: "(nat \<Rightarrow> string) \<Rightarrow> (nat \<Rightarrow> int) \<Rightarrow> proposal_payload message \<Rightarrow> 'c act" where
  "handle_propose_extended uuid clock m n =
     (let p = ms_payload m; sender = ms_sender m in
      if no_text (xp_need_id p) \<or> no_text (xp_ballot p) then (None, n)
      else
        let ballot = the (xp_ballot p);
            n = n\<lparr>nd_ballots := (if has_key sender (nd_ballots n) then nd_ballots n else AList.update sender {} (nd_ballots n))\<rparr>;
            valid_ops = filter valid_patch_op (xp_patch p)
        in if ballot \<in> ballots_of sender (nd_ballots n) \<or> xp_patch p = [] \<or> valid_ops = [] \<or> not_positive (xp_cost p) \<or>
              not_positive (xp_eta p) then (None, n)
           else append_to_plan (annotate_op (uuid 1) m (the (xp_need_id p)) ''proposal_extended''
               [(''proposal_id'', JStr (or_default (uuid 0) (xp_proposal_id p))), (''ballot'', JStr ballot),
                (''patch'', JList (map JObj valid_ops)), (''cost'', json_opt JInt (xp_cost p)), (''eta'', json_opt JInt (xp_eta p)),
                (''proposer'', JStr sender), (''proposed_at'', JInt (clock 0))] (clock 1))
             (n\<lparr>nd_ballots := AList.update sender (insert ballot (ballots_of sender (nd_ballots n))) (nd_ballots n)\<rparr>))"

section \<open>DECIDE\<close>

record decide_payload =
  dp_need_id :: "string option"
  dp_proposal_id :: "string option"
  dp_task_id :: "string option"
  dp_epoch :: "int option"
  dp_k_plan :: "int option"

text \<open>What the adapter answers in the current epoch; without an adapter there is no answer.\<close>

type_synonym 'c adapter = "int \<Rightarrow> decide_record \<Rightarrow> 'c \<Rightarrow> decide_record option \<times> 'c"

definition ask_consensus :: "'c adapter \<Rightarrow> decide_record \<Rightarrow> 'c node \<Rightarrow> decide_record option \<times> 'c node" where
  "ask_consensus attempt_decide r n =
     (case nd_consensus n of
        None \<Rightarrow> (None, n)
      | Some c \<Rightarrow> let (answer, c) = attempt_decide (current_epoch (nd_epochs n)) r c in (answer, n\<lparr>nd_consensus := Some c\<rparr>))"

definition handle_decide :: "'c adapter \<Rightarrow> (nat \<Rightarrow> string) \<Rightarrow> (nat \<Rightarrow> int) \<Rightarrow> decide_payload message \<Rightarrow> 'c act" where
  "handle_decide attempt_decide uuid clock m n =
     (let p = ms_payload m in
      if no_text (dp_need_id p) \<or> no_text (dp_proposal_id p) then (None, n)
      else
        let need_id = the (dp_need_id p); proposal_id = the (dp_proposal_id p);
            epoch = or_default 1 (dp_epoch p); k_plan = or_default 1 (dp_k_plan p)
        in case ask_consensus attempt_decide \<lparr>dr_need_id = need_id, dr_proposal_id = proposal_id, dr_epoch = epoch,
                  dr_lamport = ms_lamport m, dr_k_plan = k_plan, dr_decider_id = ms_sender m, dr_timestamp_ns = clock 0\<rparr> n of
             (None, n) \<Rightarrow> (None, n)
           | (Some r, n) \<Rightarrow>
               and_then
                 (if no_text (dp_task_id p) then Pair None
                  else append_to_plan (state_operation (uuid 0) m (ms_lamport m) (the (dp_task_id p)) ''DECIDED'' (clock 1)))
                 (append_to_plan (annotate_op (uuid 1) m (if no_text (dp_task_id p) then need_id else the (dp_task_id p)) ''decide''
                    [(''need_id'', JStr need_id), (''proposal_id'', JStr proposal_id), (''epoch'', JInt epoch),
                     (''k_plan'', JInt k_plan), (''decider'', JStr (ms_sender m)), (''decided_at'', JInt (clock 2))] (clock 3))) n)"

section \<open>CLAIM_EXTENDED\<close>

definition MIN_LEASE_TTL :: int where "MIN_LEASE_TTL = 60"

record lease_claim_payload =
  lp_task_id :: "string option"
  lp_worker_id :: "string option"
  lp_lease_ttl :: "int option"
  lp_cost :: "int option"
  lp_eta :: "int option"
  lp_heartbeat_interval :: "int option"
  lp_need_id :: "string option"
  lp_proposal_id :: "string option"
  lp_epoch :: "int option"
  lp_k_plan :: "int option"

definition find_task_lease :: "string \<Rightarrow> (string, claim_lease) table \<Rightarrow> claim_lease option" where
  "find_task_lease task_id t = List.find (\<lambda>l. cl_task_id l = task_id) (map snd t)"

definition claim_refused :: "'p message \<Rightarrow> lease_claim_payload \<Rightarrow> (string, claim_lease) table \<Rightarrow> bool" where
  "claim_refused m p t \<longleftrightarrow>
     (let ttl = or_default 0 (lp_lease_ttl p); interval = or_default 30 (lp_heartbeat_interval p) in
      no_text (lp_task_id p) \<or> ttl = 0 \<or> ttl < MIN_LEASE_TTL \<or> interval \<le> 0 \<or> interval \<ge> ttl \<or>
      not_positive (lp_cost p) \<or> not_positive (lp_eta p) \<or>
      (case find_task_lease (the (lp_task_id p)) t of
         None \<Rightarrow> False | Some l \<Rightarrow> cl_worker_id l \<noteq> or_default (ms_sender m) (lp_worker_id p)))"

text \<open>The DECIDE message the handler makes out of the claim.\<close>

definition claim_decide :: "lease_claim_payload message \<Rightarrow> decide_payload message" where
  "claim_decide m =
     (let p = ms_payload m; task_id = the (lp_task_id p) in
      \<lparr>ms_thread_id = ms_thread_id m, ms_lamport = ms_lamport m + 1, ms_sender = ms_sender m,
       ms_payload = \<lparr>dp_need_id = Some (or_default task_id (lp_need_id p)),
         dp_proposal_id = Some (or_default (or_default (ms_sender m) (lp_worker_id p)) (lp_proposal_id p)),
         dp_task_id = Some task_id, dp_epoch = Some (or_default 1 (lp_epoch p)), dp_k_plan = Some (or_default 1 (lp_k_plan p))\<rparr>\<rparr>)"

definition handle_claim_extended ::
  "'c adapter \<Rightarrow> (nat \<Rightarrow> string) \<Rightarrow> (nat \<Rightarrow> int) \<Rightarrow> lease_claim_payload message \<Rightarrow> 'c act" where
  "handle_claim_extended attempt_decide uuid clock m n =
     (let p = ms_payload m in
      if claim_refused m p (nd_claims n) then (None, n)
      else
        let task_id = the (lp_task_id p); worker_id = or_default (ms_sender m) (lp_worker_id p);
            lease_ttl = the (lp_lease_ttl p); interval = or_default 30 (lp_heartbeat_interval p);
            lease_id = uuid 2; current_time = clock 4
        in and_then (handle_decide attempt_decide uuid clock (claim_decide m)) (\<lambda>n.
             if (case get_task task_id (nd_plan n) of None \<Rightarrow> True | Some t \<Rightarrow> tk_state t \<noteq> ''DECIDED'') then (None, n)
             else append_to_plan (annotate_op (uuid 3) m task_id ''claim_extended''
                 [(''lease_id'', JStr lease_id), (''worker_id'', JStr worker_id), (''lease_ttl'', JInt lease_ttl),
                  (''heartbeat_interval'', JInt interval), (''cost'', json_opt JInt (lp_cost p)), (''eta'', json_opt JInt (lp_eta p)),
                  (''claimed_at'', JInt current_time)] current_time)
               (n\<lparr>nd_claims := AList.update lease_id
                 \<lparr>cl_task_id = task_id, cl_worker_id = worker_id, cl_ttl = lease_ttl, cl_created_at = current_time,
                  cl_last_heartbeat = current_time, cl_heartbeat_interval = interval\<rparr> (nd_claims n)\<rparr>)) n)"

section \<open>RELEASE and YIELD\<close>

record release_payload =
  rl_task_id :: "string option"
  rl_lease_id :: "string option"
  rl_reason :: "string option"

definition handle_release :: "(nat \<Rightarrow> string) \<Rightarrow> (nat \<Rightarrow> int) \<Rightarrow> release_payload message \<Rightarrow> 'c act" where
  "handle_release uuid clock m n =
     (let p = ms_payload m; reason = or_default ''timeout'' (rl_reason p) in
      if no_text (rl_task_id p) \<or> no_text (rl_lease_id p) then (None, n)
      else
        let task_id = the (rl_task_id p); reason = (if reason \<in> {''timeout'', ''heartbeat_miss''} then reason else ''timeout'')
        in and_then (append_to_plan (annotate_op (uuid 0) m task_id ''release''
               [(''lease_id'', JStr (the (rl_lease_id p))), (''reason'', JStr reason), (''released_at'', JInt (clock 0)),
                (''system_initiated'', JBool True)] (clock 1)))
             (append_to_plan (state_operation (uuid 1) m (ms_lamport m + 1) task_id ''DRAFT'' (clock 2))) n)"

record yield_payload =
  yp_task_id :: "string option"
  yp_reason :: "string option"

text \<open>The handler itself catches every exception; \<open>receive_yield\<close> is the handler behind its decorator, where \<open>env\<close> is the
  envelope as the gate of the process sees it.\<close>

definition handle_yield :: "(nat \<Rightarrow> string) \<Rightarrow> (nat \<Rightarrow> int) \<Rightarrow> yield_payload message \<Rightarrow> 'c node \<Rightarrow> 'c node" where
  "handle_yield uuid clock m n =
     (let p = ms_payload m in
      if ms_thread_id m = [] \<or> ms_sender m = [] \<or> no_text (yp_task_id p) then n
      else
        let task_id = the (yp_task_id p)
        in snd (and_then (append_to_plan (annotate_op (uuid 0) m task_id ''yield''
               [(''yielder'', JStr (ms_sender m)), (''reason'', JStr (or_default ''voluntary_yield'' (yp_reason p))),
                (''yielded_at'', JInt (clock 0))] (clock 1)))
             (append_to_plan (state_operation (uuid 1) m (ms_lamport m + 1) task_id ''DRAFT'' (clock 2))) n))"

definition receive_yield ::
  "engine \<Rightarrow> (nat \<Rightarrow> string) \<Rightarrow> (nat \<Rightarrow> int) \<Rightarrow> envelope \<Rightarrow> yield_payload message \<Rightarrow> 'c act" where
  "receive_yield wasm uuid clock env m n =
     (case require_policy_validation wasm (\<lambda>_. handle_yield uuid clock m) env (nd_gates n, n) of
        (Inl e, g, n) \<Rightarrow> (Some (NotAllowed e), n\<lparr>nd_gates := g\<rparr>)
      | (Inr u, g, n) \<Rightarrow> (None, n\<lparr>nd_gates := g\<rparr>))"

section \<open>HEARTBEAT\<close>

record heartbeat_payload =
  hp_lease_id :: "string option"
  hp_worker_id :: "string option"
  hp_progress :: "int option"

text \<open>The lease manager and the heartbeat protocol over it are injected together.\<close>

definition handle_heartbeat :: "(nat \<Rightarrow> string) \<Rightarrow> (nat \<Rightarrow> int) \<Rightarrow> heartbeat_payload message \<Rightarrow> 'c act" where
  "handle_heartbeat uuid clock m n =
     (let p = ms_payload m in
      if no_text (hp_lease_id p) \<or> no_text (hp_worker_id p) then (None, n)
      else
        let lease_id = the (hp_lease_id p); worker_id = the (hp_worker_id p);
            progress = (case hp_progress p of None \<Rightarrow> None | Some v \<Rightarrow> if 0 \<le> v \<and> v \<le> 100 then Some v else None);
            record_progress = (\<lambda>task_id. append_to_plan (annotate_op (uuid 0) m task_id ''heartbeat''
              [(''lease_id'', JStr lease_id), (''worker_id'', JStr worker_id), (''progress'', json_opt JInt progress),
               (''heartbeat_at'', JInt (clock 2))] (clock 3)))
        in case nd_lease_manager n of
             None \<Rightarrow> record_progress ''unknown'' n
           | Some s \<Rightarrow>
               (case get_lease lease_id s of
                  None \<Rightarrow> (None, n)
                | Some lease \<Rightarrow>
                    if ls_worker_id lease \<noteq> worker_id then (None, n)
                    else let (ok, s) = heartbeat lease_id (clock 0) s in
                      if \<not> ok then (None, n\<lparr>nd_lease_manager := Some s\<rparr>)
                      else record_progress (ls_task_id lease)
                        (n\<lparr>nd_lease_manager := Some (receive_heartbeat lease_id (clock 1) s)\<rparr>)))"

end
