(* ===== verification/Verdicts.thy ===== *)
theory Verdicts
  imports Handlers Slashing Bounties
begin

text \<open>
  The handlers of results and verdicts (\<open>handlers/\<close>: \<open>commit.py\<close>, \<open>attest.py\<close>, \<open>attest_plan.py\<close>, \<open>finalize.py\<close>,
  \<open>reconcile.py\<close>, \<open>invalidate.py\<close>).  Where a handler asks a policy gate, the envelope as the gate sees it is an argument
  beside the message.  A method of the plan store that is asynchronous and called without \<open>await\<close> does nothing and returns
  a coroutine, which is true and cannot be iterated.
\<close>

section \<open>COMMIT\<close>

record commit_payload =
  mp_task_id :: "string option"
  mp_artifact_hash :: "string option"
  mp_commit_id :: "string option"
  mp_shard_id :: "int option"
  mp_need_id :: "string option"
  mp_commitment_dependencies :: "string list"

text \<open>Exceptions of the protocol are caught.\<close>

definition handle_cross_shard_commitment ::
  "(string \<Rightarrow> string) \<Rightarrow> int \<Rightarrow> int \<Rightarrow> commit_payload \<Rightarrow> string \<Rightarrow> commitment_protocol \<Rightarrow> commitment_protocol" where
  "handle_cross_shard_commitment sha256 now shard_id p artifact_hash s =
     (if no_text (mp_need_id p) then s
      else case publish_commitment (create_commitment sha256 shard_id (the (mp_need_id p)) artifact_hash
                  (Some (mp_commitment_dependencies p)) now) s of
             Inl (e, s) \<Rightarrow> s
           | Inr (success, s) \<Rightarrow> s)"

definition handle_commit ::
  "engine \<Rightarrow> (string \<Rightarrow> bool) \<Rightarrow> (string \<Rightarrow> string) \<Rightarrow> (nat \<Rightarrow> string) \<Rightarrow> (nat \<Rightarrow> int) \<Rightarrow> envelope \<Rightarrow> envelope
     \<Rightarrow> commit_payload message \<Rightarrow> 'c act" where
  "handle_commit wasm has_blob sha256 uuid clock env telemetry m n =
     (let p = ms_payload m; (d, g) = commit_gate_validate wasm env telemetry (nd_gates n); n = n\<lparr>nd_gates := g\<rparr> in
      if \<not> pd_allowed d \<or> no_text (mp_task_id p) \<or> no_text (mp_artifact_hash p) \<or> \<not> has_blob (the (mp_artifact_hash p))
      then (None, n)
      else
        let artifact_hash = the (mp_artifact_hash p)
        in and_then (append_to_plan (annotate_op (uuid 1) m (the (mp_task_id p)) ''commit''
             [(''commit_id'', JStr (or_default (uuid 0) (mp_commit_id p))), (''artifact_hash'', JStr artifact_hash),
              (''committer'', JStr (ms_sender m)), (''committed_at'', JInt (clock 0)), (''telemetry'', JObj telemetry)] (clock 1)))
           (\<lambda>n. (None, case mp_shard_id p of
              None \<Rightarrow> n
            | Some shard_id \<Rightarrow> n\<lparr>nd_commitments := map_option
                (handle_cross_shard_commitment sha256 (clock 2) shard_id p artifact_hash) (nd_commitments n)\<rparr>)) n)"

section \<open>ATTEST\<close>

record attest_payload =
  tp_commit_id :: "string option"
  tp_task_id :: "string option"
  tp_verdict :: "string option"
  tp_attestation_id :: "string option"

definition or_unknown :: "string option \<Rightarrow> string" where
  "or_unknown x = (if no_text x then ''unknown'' else the x)"

text \<open>\<open>show_reason\<close> is the text of the reason of a decision.  The operations of the thread are a coroutine that was not
  awaited, so counting the attestations raises.\<close>

definition handle_attest ::
  "engine \<Rightarrow> (decision_reason option \<Rightarrow> json) \<Rightarrow> (string \<Rightarrow> string) \<Rightarrow> (nat \<Rightarrow> string) \<Rightarrow> (nat \<Rightarrow> int) \<Rightarrow> envelope \<Rightarrow> envelope
     \<Rightarrow> attest_payload message \<Rightarrow> 'c act" where
  "handle_attest wasm show_reason sha256 uuid clock env telemetry m n =
     (let p = ms_payload m in
      if no_text (tp_commit_id p) then (None, n)
      else
        let commit_id = the (tp_commit_id p);
            d = fst (commit_gate_validate wasm env telemetry (new_enforcer True));
            verdict = (if pd_allowed d then or_default ''approved'' (tp_verdict p) else ''rejected'');
            policy_input = [(''commit_id'', JStr commit_id), (''task_id'', json_opt JStr (tp_task_id p)),
              (''telemetry'', JObj telemetry), (''attester'', JStr (ms_sender m))];
            decision = [(''allowed'', JBool (pd_allowed d)), (''reason'', show_reason (pd_reason d)), (''gas_used'', JInt (pd_gas_used d))];
            r = create_eval_record sha256 policy_input decision (or_unknown (pd_policy_hash d))
        in and_then (append_to_plan (annotate_op (uuid 1) m (or_unknown (tp_task_id p)) ''attestation''
             [(''attestation_id'', JStr (or_default (uuid 0) (tp_attestation_id p))), (''commit_id'', JStr commit_id),
              (''attester'', JStr (ms_sender m)), (''verdict'', JStr verdict), (''attested_at'', JInt (clock 0)),
              (''policy_eval_digest'', json_opt JStr (er_policy_eval_digest r)),
              (''policy_decision'', json_opt JObj (er_policy_decision r)), (''gas_used'', JInt (pd_gas_used d))] (clock 1)))
           (Pair (Some CoroutineNotIterable)) n)"

section \<open>ATTEST_PLAN\<close>

text \<open>The epoch is an entry of the envelope itself.\<close>

record plan_attestation_payload =
  ap_need_id :: "string option"
  ap_plan_proposal_id :: "string option"
  ap_verdict :: "string option"
  ap_epoch :: "int option"

definition verifier_may_attest :: "string \<Rightarrow> 'c node \<Rightarrow> bool" where
  "verifier_may_attest sender n \<longleftrightarrow>
     (case nd_pool n of None \<Rightarrow> True | Some pool \<Rightarrow> (case get_verifier sender pool of None \<Rightarrow> False | Some v \<Rightarrow> vr_active v))"

definition plan_quorum :: "'c node \<Rightarrow> int" where
  "plan_quorum n =
     (let active_verifiers = (case nd_pool n of None \<Rightarrow> 10 | Some pool \<Rightarrow> int (length (get_active_verifiers 100 pool)))
      in get_k_plan active_verifiers (rnd (3 / 10)) 5)"

definition handle_attest_plan ::
  "'c adapter \<Rightarrow> (nat \<Rightarrow> string) \<Rightarrow> (nat \<Rightarrow> int) \<Rightarrow> plan_attestation_payload message \<Rightarrow> 'c act" where
  "handle_attest_plan attempt_decide uuid clock m n =
     (let p = ms_payload m; sender = ms_sender m; verdict = or_default ''approve'' (ap_verdict p) in
      if no_text (ap_need_id p) \<or> no_text (ap_plan_proposal_id p) \<or> verdict \<noteq> ''approve'' \<or> \<not> verifier_may_attest sender n
      then (None, n)
      else
        let need_id = the (ap_need_id p); proposal_id = the (ap_plan_proposal_id p); k_plan = plan_quorum n;
            (quorum_reached, quorums) = record_attestation need_id proposal_id sender k_plan (nd_quorums n)
        in and_then (append_to_plan (annotate_op (uuid 0) m need_id ''attest_plan''
             [(''proposal_id'', JStr proposal_id), (''verifier'', JStr sender), (''verdict'', JStr verdict),
              (''attested_at'', JInt (clock 0))] (clock 1)))
           (\<lambda>n. (None, if \<not> quorum_reached then n
              else snd (ask_consensus attempt_decide \<lparr>dr_need_id = need_id, dr_proposal_id = proposal_id,
                dr_epoch = or_default 1 (ap_epoch p), dr_lamport = ms_lamport m, dr_k_plan = k_plan,
                dr_decider_id = ''quorum-system'', dr_timestamp_ns = clock 2\<rparr> n)))
           (n\<lparr>nd_quorums := quorums\<rparr>))"

section \<open>FINALIZE\<close>

record finalize_payload =
  fp_task_id :: "string option"
  fp_shard_id :: "int option"
  fp_metadata :: "json option"

definition check_cross_shard_dependencies :: "int \<Rightarrow> dependency_dag \<Rightarrow> bool" where
  "check_cross_shard_dependencies shard_id d \<longleftrightarrow> get_blocking_shards shard_id d = {}"

definition handle_finalize ::
  "(int set \<Rightarrow> int list) \<Rightarrow> (nat \<Rightarrow> string) \<Rightarrow> (nat \<Rightarrow> int) \<Rightarrow> finalize_payload message \<Rightarrow> 'c act" where
  "handle_finalize order uuid clock m n =
     (let p = ms_payload m;
          shard = (case (nd_dag n, fp_shard_id p) of (Some d, Some shard_id) \<Rightarrow> Some (d, shard_id) | _ \<Rightarrow> None) in
      if no_text (fp_task_id p) \<or> (case shard of None \<Rightarrow> False | Some (d, i) \<Rightarrow> \<not> check_cross_shard_dependencies i d) then (None, n)
      else
        let task_id = the (fp_task_id p)
        in and_then (append_to_plan (state_operation (uuid 0) m (ms_lamport m) task_id ''FINAL'' (clock 0)))
          (and_then (append_to_plan (annotate_op (uuid 1) m task_id ''finalize''
             [(''finalized_by'', JStr (ms_sender m)), (''finalized_at'', JInt (clock 1)),
              (''metadata'', or_default (JObj []) (fp_metadata p))] (clock 2)))
          (\<lambda>n. (None, case shard of None \<Rightarrow> n | Some (d, i) \<Rightarrow> n\<lparr>nd_dag := Some (snd (mark_shard_complete order i d))\<rparr>))) n)"

section \<open>RECONCILE\<close>

text \<open>Marking the orphaned branches calls \<open>annotate_task\<close> without awaiting it.\<close>

definition handle_reconcile :: "int \<Rightarrow> 'c node \<Rightarrow> 'c node" where
  "handle_reconcile now n = n\<lparr>nd_epochs := snd (advance_epoch now (nd_epochs n))\<rparr>"

section \<open>INVALIDATE\<close>

record invalidate_payload =
  ip_task_id :: "string option"
  ip_challenge_id :: "string option"
  ip_slashed_verifiers :: "string list"
  ip_honest_verifiers :: "string list"
  ip_attestation_log :: "string option list option"
  ip_challenger :: "string option"
  ip_evidence_hash :: "string option"
  ip_new_k_result :: "int option"

text \<open>The annotations of the task are not awaited; exceptions of the slashing are caught.  A call that blocks on the lock
  of the ledger never returns, so what follows it is not done: the first component says whether the handler returns.\<close>

definition handle_invalidate ::
  "(nat \<Rightarrow> string) \<Rightarrow> int \<Rightarrow> invalidate_payload \<Rightarrow> 'a slash_ledger_scheme \<times> payout_distributor
     \<Rightarrow> bool \<times> 'a slash_ledger_scheme \<times> payout_distributor" where
  "handle_invalidate uuid now p = (\<lambda>(db, pd).
     if no_text (ip_task_id p) \<or> no_text (ip_challenge_id p) \<or> no_text (ip_challenger p) \<or> no_text (ip_evidence_hash p) \<or>
        ip_new_k_result p = None then (True, db, pd)
     else
       let (res, db) = (if ip_slashed_verifiers p = [] then (Inr None, db)
              else case slash_verifiers uuid (ip_slashed_verifiers p) (the (ip_evidence_hash p)) (the (ip_challenger p))
                     (Some (ip_honest_verifiers p)) now (ip_attestation_log p) db of
                     (Inl e, db) \<Rightarrow> (Inl e, db)
                   | (Inr r, db) \<Rightarrow> (Inr (Some r), db))
       in if res = Inl Deadlock then (False, db, pd)
          else (True, db, mark_invalidated (the (ip_task_id p)) pd))"

definition calculate_k_escalation :: "int \<Rightarrow> int \<Rightarrow> int \<Rightarrow> int \<Rightarrow> int" where
  "calculate_k_escalation current_k challenge_count active_verifiers upheld_challenges =
     (if upheld_challenges = 0 then current_k
      else if challenge_count = 1 then current_k + 2
      else min active_verifiers (2 * current_k))"

end
