(* ===== verification/HandlerProps.thy ===== *)
theory HandlerProps
  imports Verdicts ConsensusProps PolicyProps DependencyProps
begin

text \<open>
  Correctness of the handlers as one system: a run delivers messages to one node (every kind of message but UPDATE_PLAN,
  CHALLENGE, CHECKPOINT and INVALIDATE, whose handlers keep their own state and are added in \<open>ProcessProps\<close>), and the
  properties hold after every run.  A lease granted by CLAIM_EXTENDED is never given up; all recorded DECIDEs of a need
  agree; the recorded ballots of a proposer differ; shards are finalized in the order of their dependencies; what the
  default gates leave of COMMIT, YIELD and ATTEST.
\<close>

section \<open>Runs of messages\<close>

record 'c setting =
  sg_decide :: "'c adapter"
  sg_order :: "int set \<Rightarrow> int list"
  sg_wasm :: engine
  sg_has_blob :: "string \<Rightarrow> bool"
  sg_sha256 :: "string \<Rightarrow> string"
  sg_show_reason :: "decision_reason option \<Rightarrow> json"

datatype handler_cmd =
    NeedMsg "need_payload message" | NeedEnds string | AuctionBid string string auction_proposal int
  | ProposeMsg "propose_payload message" | ProposeExtendedMsg "proposal_payload message"
  | ClaimMsg "claim_payload message" | ClaimExtendedMsg "lease_claim_payload message"
  | DecideMsg "decide_payload message" | ReleaseMsg "release_payload message" | YieldMsg envelope "yield_payload message"
  | HeartbeatMsg "heartbeat_payload message" | CommitMsg envelope envelope "commit_payload message"
  | AttestMsg envelope envelope "attest_payload message" | AttestPlanMsg "plan_attestation_payload message"
  | FinalizeMsg "finalize_payload message" | ReconcileMsg int

type_synonym delivery = "(nat \<Rightarrow> string) \<times> (nat \<Rightarrow> int) \<times> handler_cmd"

fun deliver :: "'c setting \<Rightarrow> delivery \<Rightarrow> 'c act" where
  "deliver sg (u, c, NeedMsg m) = handle_need u c m"
| "deliver sg (u, c, NeedEnds t) = (\<lambda>n. (None, snd (finish_need t n)))"
| "deliver sg (u, c, AuctionBid i a p now) =
     (\<lambda>n. (None, n\<lparr>nd_auctions := map_option (\<lambda>s. snd (accept_auction_bid i a p now s)) (nd_auctions n)\<rparr>))"
| "deliver sg (u, c, ProposeMsg m) = handle_propose u c m"
| "deliver sg (u, c, ProposeExtendedMsg m) = handle_propose_extended u c m"
| "deliver sg (u, c, ClaimMsg m) = handle_claim u c m"
| "deliver sg (u, c, ClaimExtendedMsg m) = handle_claim_extended (sg_decide sg) u c m"
| "deliver sg (u, c, DecideMsg m) = handle_decide (sg_decide sg) u c m"
| "deliver sg (u, c, ReleaseMsg m) = handle_release u c m"
| "deliver sg (u, c, YieldMsg env m) = receive_yield (sg_wasm sg) u c env m"
| "deliver sg (u, c, HeartbeatMsg m) = handle_heartbeat u c m"
| "deliver sg (u, c, CommitMsg env tel m) = handle_commit (sg_wasm sg) (sg_has_blob sg) (sg_sha256 sg) u c env tel m"
| "deliver sg (u, c, AttestMsg env tel m) = handle_attest (sg_wasm sg) (sg_show_reason sg) (sg_sha256 sg) u c env tel m"
| "deliver sg (u, c, AttestPlanMsg m) = handle_attest_plan (sg_decide sg) u c m"
| "deliver sg (u, c, FinalizeMsg m) = handle_finalize (sg_order sg) u c m"
| "deliver sg (u, c, ReconcileMsg now) = (\<lambda>n. (None, handle_reconcile now n))"

definition handler_step :: "'c setting \<Rightarrow> delivery \<Rightarrow> 'c node \<Rightarrow> unit + 'c node" where
  "handler_step sg x n = Inr (snd (deliver sg x n))"

lemma attempt_handler [simp]: "attempt (handler_step sg) x n = snd (deliver sg x n)"
  by (simp add: attempt_def handler_step_def)

section \<open>What a handler leaves alone\<close>

lemma snd_and_then: "snd (and_then a b n) = (if fst (a n) = None then snd (b (snd (a n))) else snd (a n))"
  by (simp add: and_then_def split: prod.splits option.splits)

lemma append_frame [simp]:
  "nd_consensus (snd (append_to_plan op n)) = nd_consensus n" "nd_epochs (snd (append_to_plan op n)) = nd_epochs n"
  "nd_ballots (snd (append_to_plan op n)) = nd_ballots n" "nd_claims (snd (append_to_plan op n)) = nd_claims n"
  "nd_quorums (snd (append_to_plan op n)) = nd_quorums n" "nd_dag (snd (append_to_plan op n)) = nd_dag n"
  "nd_pool (snd (append_to_plan op n)) = nd_pool n"
  by (simp_all add: append_to_plan_def split: sum.splits)

lemma ask_frame:
  "ask_consensus d r n = (x, n') \<Longrightarrow> nd_plan n' = nd_plan n \<and> nd_ballots n' = nd_ballots n \<and> nd_claims n' = nd_claims n \<and>
     nd_quorums n' = nd_quorums n \<and> nd_dag n' = nd_dag n \<and> nd_epochs n' = nd_epochs n"
  by (auto simp: ask_consensus_def Let_def split: option.splits prod.splits)

lemma ask_frame_snd [simp]:
  "nd_plan (snd (ask_consensus d r n)) = nd_plan n" "nd_ballots (snd (ask_consensus d r n)) = nd_ballots n"
  "nd_claims (snd (ask_consensus d r n)) = nd_claims n" "nd_quorums (snd (ask_consensus d r n)) = nd_quorums n"
  "nd_dag (snd (ask_consensus d r n)) = nd_dag n"
  using ask_frame [OF surjective_pairing, of d r n] by simp_all

lemmas handler_defs = handle_need_def finish_need_def handle_propose_def handle_propose_extended_def handle_claim_def
  handle_claim_extended_def handle_decide_def handle_release_def handle_yield_def receive_yield_def require_policy_validation_def
  handle_heartbeat_def handle_commit_def handle_attest_def handle_attest_plan_def handle_finalize_def handle_reconcile_def

lemma decide_frame [simp]:
  "nd_claims (snd (handle_decide d u c m n)) = nd_claims n" "nd_ballots (snd (handle_decide d u c m n)) = nd_ballots n"
  "nd_quorums (snd (handle_decide d u c m n)) = nd_quorums n" "nd_dag (snd (handle_decide d u c m n)) = nd_dag n"
  by (auto simp: handle_decide_def Let_def snd_and_then dest!: ask_frame split: prod.splits option.splits)

lemmas handler_splits = prod.splits option.splits

lemma claims_frame: "(\<And>m. snd (snd x) \<noteq> ClaimExtendedMsg m) \<Longrightarrow> nd_claims (snd (deliver sg x n)) = nd_claims n"
  by (cases "(sg, x)" rule: deliver.cases)
     (auto simp: handler_defs Let_def snd_and_then dest!: ask_frame split: handler_splits)

lemma ballots_frame: "(\<And>m. snd (snd x) \<noteq> ProposeExtendedMsg m) \<Longrightarrow> nd_ballots (snd (deliver sg x n)) = nd_ballots n"
  by (cases "(sg, x)" rule: deliver.cases)
     (auto simp: handler_defs Let_def snd_and_then dest!: ask_frame split: handler_splits)

lemma dag_frame: "(\<And>m. snd (snd x) \<noteq> FinalizeMsg m) \<Longrightarrow> nd_dag (snd (deliver sg x n)) = nd_dag n"
  by (cases "(sg, x)" rule: deliver.cases)
     (auto simp: handler_defs Let_def snd_and_then dest!: ask_frame split: handler_splits)

section \<open>The annotations of a kind\<close>

definition is_note :: "string \<Rightarrow> plan_op \<Rightarrow> bool" where
  "is_note k op \<longleftrightarrow> map_of (po_payload op) ''annotation_type'' = Some (JStr k)"

definition notes_of :: "string \<Rightarrow> 'c node \<Rightarrow> plan_op list" where
  "notes_of k n = filter (is_note k) (ps_ops (nd_plan n))"

lemma append_op_ops: "append_op op db = Inr db' \<Longrightarrow> ps_ops db' = ps_ops db @ [op]"
  by (auto simp: append_op_def apply_op_def Let_def res_simps split: if_splits plan_op_type.splits)

lemma notes_append: "notes_of k (snd (append_to_plan op n)) =
    notes_of k n @ (if is_note k op \<and> fst (append_to_plan op n) = None then [op] else [])"
  by (auto simp: notes_of_def append_to_plan_def append_op_ops split: sum.splits)

lemma notes_frame [simp]:
  "notes_of k (n\<lparr>nd_consensus := a\<rparr>) = notes_of k n" "notes_of k (n\<lparr>nd_epochs := b\<rparr>) = notes_of k n" "notes_of k (n\<lparr>nd_ballots := d\<rparr>) = notes_of k n"
  "notes_of k (n\<lparr>nd_claims := e\<rparr>) = notes_of k n" "notes_of k (n\<lparr>nd_lease_manager := f\<rparr>) = notes_of k n"
  "notes_of k (n\<lparr>nd_auctions := g\<rparr>) = notes_of k n" "notes_of k (n\<lparr>nd_quorums := h\<rparr>) = notes_of k n" "notes_of k (n\<lparr>nd_dag := i\<rparr>) = notes_of k n"
  "notes_of k (n\<lparr>nd_commitments := j\<rparr>) = notes_of k n" "notes_of k (n\<lparr>nd_gates := l\<rparr>) = notes_of k n"
  by (simp_all add: notes_of_def)

lemma is_note_ops [simp]:
  "is_note k (annotate_op i m t k' fs ts) \<longleftrightarrow> k = k'" "\<not> is_note k (state_operation i m l t s ts)"
  by (auto simp: is_note_def annotate_op_def state_operation_def)

lemma notes_ask [simp]: "notes_of k (snd (ask_consensus d r n)) = notes_of k n"
  by (simp add: notes_of_def)

lemma notes_ask_eq: "ask_consensus d r n = (x, n') \<Longrightarrow> notes_of k n' = notes_of k n"
  by (drule ask_frame) (simp add: notes_of_def)

section \<open>Leases of CLAIM_EXTENDED\<close>

text \<open>All leases of a task belong to one worker, and the identifiers in use are among \<open>used\<close>.\<close>

definition claims_ok :: "string set \<Rightarrow> (string, claim_lease) table \<Rightarrow> bool" where
  "claims_ok used t \<longleftrightarrow> set (keys t) \<subseteq> used \<and>
     (\<forall>l \<in> snd ` set t. \<forall>l' \<in> snd ` set t. cl_task_id l = cl_task_id l' \<longrightarrow> cl_worker_id l = cl_worker_id l')"

definition lease_uuid :: "delivery \<Rightarrow> string" where
  "lease_uuid x = (case x of (u, c, cmd) \<Rightarrow> u 2)"

lemma set_update_fresh: "\<not> has_key k t \<Longrightarrow> set (AList.update k v t) = insert (k, v) (set t)"
  by (induction t) (auto simp: has_key_def split: if_splits)

lemma find_lease_worker:
  assumes "claims_ok used t" and "find_task_lease i t = None \<or> (\<exists>l. find_task_lease i t = Some l \<and> cl_worker_id l = w)"
    and "(j, l') \<in> set t" and "cl_task_id l' = i"
  shows "cl_worker_id l' = w"
proof -
  have "find_task_lease i t \<noteq> None"
    using assms(3,4) unfolding find_task_lease_def find_None_iff by force
  then obtain l where l: "find_task_lease i t = Some l" "cl_worker_id l = w" using assms(2) by auto
  then have "l \<in> snd ` set t" "cl_task_id l = i" by (auto simp: find_task_lease_def find_Some_iff)
  moreover have "l' \<in> snd ` set t" using assms(3) by force
  ultimately show ?thesis using assms(1,4) l(2) unfolding claims_ok_def by metis
qed

text \<open>A lease is added under a fresh identifier, for the worker that holds the task if there is one.\<close>

lemma claim_extended_claims:
  "nd_claims (snd (handle_claim_extended d u c m n)) = nd_claims n \<or>
   (\<exists>l. nd_claims (snd (handle_claim_extended d u c m n)) = AList.update (u 2) l (nd_claims n) \<and>
      (find_task_lease (cl_task_id l) (nd_claims n) = None \<or>
       (\<exists>l'. find_task_lease (cl_task_id l) (nd_claims n) = Some l' \<and> cl_worker_id l' = cl_worker_id l)))"
proof (cases "claim_refused m (ms_payload m) (nd_claims n)")
  case True
  then show ?thesis by (simp add: handle_claim_extended_def)
next
  case False
  define l where "l = \<lparr>cl_task_id = the (lp_task_id (ms_payload m)), cl_worker_id = or_default (ms_sender m) (lp_worker_id (ms_payload m)),
    cl_ttl = the (lp_lease_ttl (ms_payload m)), cl_created_at = c 4, cl_last_heartbeat = c 4,
    cl_heartbeat_interval = or_default 30 (lp_heartbeat_interval (ms_payload m))\<rparr>"
  have "find_task_lease (cl_task_id l) (nd_claims n) = None \<or>
      (\<exists>l'. find_task_lease (cl_task_id l) (nd_claims n) = Some l' \<and> cl_worker_id l' = cl_worker_id l)"
    using False by (cases "find_task_lease (cl_task_id l) (nd_claims n)") (simp_all add: claim_refused_def l_def Let_def)
  moreover have "nd_claims (snd (handle_claim_extended d u c m n)) \<in> {nd_claims n, AList.update (u 2) l (nd_claims n)}"
    using False by (simp add: handle_claim_extended_def snd_and_then Let_def l_def)
  ultimately show ?thesis by blast
qed

lemma claims_ok_mono: "claims_ok used t \<Longrightarrow> used \<subseteq> used' \<Longrightarrow> claims_ok used' t"
  unfolding claims_ok_def by blast

lemma claims_ok_update:
  assumes "claims_ok used t" and "k \<notin> used"
    and "find_task_lease (cl_task_id l) t = None \<or>
      (\<exists>l'. find_task_lease (cl_task_id l) t = Some l' \<and> cl_worker_id l' = cl_worker_id l)"
  shows "claims_ok (insert k used) (AList.update k l t)" and "set (AList.update k l t) = insert (k, l) (set t)"
proof -
  have keys: "set (keys t) \<subseteq> used" using assms(1) unfolding claims_ok_def by blast
  then have "\<not> has_key k t" using assms(2) by (auto simp: has_key_iff)
  from set_update_fresh [OF this] show s: "set (AList.update k l t) = insert (k, l) (set t)" .
  have w: "cl_worker_id l' = cl_worker_id l" if "l' \<in> snd ` set t" "cl_task_id l' = cl_task_id l" for l'
    using that find_lease_worker [OF assms(1,3)] by (metis imageE prod.collapse)
  have "set (keys (AList.update k l t)) \<subseteq> insert k used" using keys s by auto
  moreover have "snd ` set (AList.update k l t) = insert l (snd ` set t)" by (simp add: s)
  ultimately show "claims_ok (insert k used) (AList.update k l t)"
    using assms(1) w unfolding claims_ok_def by (metis insert_iff)
qed

lemma deliver_claims:
  assumes "claims_ok used (nd_claims n)" and "lease_uuid x \<notin> used"
  shows "claims_ok (insert (lease_uuid x) used) (nd_claims (snd (deliver sg x n))) \<and>
    set (nd_claims n) \<subseteq> set (nd_claims (snd (deliver sg x n)))"
proof (cases "\<exists>m. snd (snd x) = ClaimExtendedMsg m")
  case True
  then obtain u c m where x: "x = (u, c, ClaimExtendedMsg m)" by (metis prod.collapse)
  from claim_extended_claims [of "sg_decide sg" u c m n] show ?thesis
  proof (elim disjE exE conjE)
    assume "nd_claims (snd (handle_claim_extended (sg_decide sg) u c m n)) = nd_claims n"
    then show ?thesis using claims_ok_mono [OF assms(1) subset_insertI] by (simp add: x)
  next
    fix l
    assume u: "nd_claims (snd (handle_claim_extended (sg_decide sg) u c m n)) = AList.update (u 2) l (nd_claims n)"
      and "find_task_lease (cl_task_id l) (nd_claims n) = None"
    then show ?thesis using claims_ok_update [OF assms, of l] by (simp add: x lease_uuid_def subset_insertI)
  next
    fix l l'
    assume u: "nd_claims (snd (handle_claim_extended (sg_decide sg) u c m n)) = AList.update (u 2) l (nd_claims n)"
      and "find_task_lease (cl_task_id l) (nd_claims n) = Some l'" and "cl_worker_id l' = cl_worker_id l"
    then show ?thesis using claims_ok_update [OF assms, of l] by (simp add: x lease_uuid_def subset_insertI)
  qed
next
  case False
  then have "nd_claims (snd (deliver sg x n)) = nd_claims n" by (intro claims_frame) auto
  then show ?thesis using claims_ok_mono [OF assms(1) subset_insertI] by simp
qed

lemma run_claims:
  assumes "claims_ok used (nd_claims n)" and "distinct (map lease_uuid xs)" and "lease_uuid ` set xs \<inter> used = {}"
  shows "claims_ok (used \<union> lease_uuid ` set xs) (nd_claims (run_cmds (handler_step sg) xs n)) \<and>
    set (nd_claims n) \<subseteq> set (nd_claims (run_cmds (handler_step sg) xs n))"
  using assms
proof (induction xs arbitrary: n used)
  case (Cons x xs)
  have x: "lease_uuid x \<notin> used" using Cons.prems(3) by auto
  note step = deliver_claims [OF Cons.prems(1) x, of sg]
  have "lease_uuid ` set xs \<inter> insert (lease_uuid x) used = {}" using Cons.prems(2,3) by auto
  with Cons.IH [OF conjunct1 [OF step]] Cons.prems(2) conjunct2 [OF step] show ?case by auto
qed simp

text \<open>
  Claim C11.  A lease that CLAIM_EXTENDED has granted stays in the registry through every later message, RELEASE and
  YIELD included, and every later lease of the task is for the same worker: no other worker can ever claim the task.
\<close>

theorem claimed_for_ever:
  assumes "distinct (map lease_uuid (xs @ ys))" and "nd_claims n0 = []"
    and "n = run_cmds (handler_step sg) xs n0" and "n' = run_cmds (handler_step sg) ys n"
    and "(i, l) \<in> set (nd_claims n)"
  shows "(i, l) \<in> set (nd_claims n') \<and>
    list_all (\<lambda>(j, l'). cl_task_id l' = cl_task_id l \<longrightarrow> cl_worker_id l' = cl_worker_id l) (nd_claims n')"
proof -
  have "claims_ok {} (nd_claims n0)" unfolding claims_ok_def assms(2) by simp
  from run_claims [OF this, of xs sg] assms(1,3) have "claims_ok (lease_uuid ` set xs) (nd_claims n)" by simp
  from run_claims [OF this, of ys sg] assms(1,4)
  have ok: "claims_ok (lease_uuid ` set xs \<union> lease_uuid ` set ys) (nd_claims n')" and sub: "set (nd_claims n) \<subseteq> set (nd_claims n')"
    by auto
  with assms(5) have "(i, l) \<in> set (nd_claims n')" by blast
  have worker: "cl_worker_id l' = cl_worker_id l" if "(j, l') \<in> set (nd_claims n')" "cl_task_id l' = cl_task_id l" for j l'
  proof -
    have "l \<in> snd ` set (nd_claims n')" "l' \<in> snd ` set (nd_claims n')"
      using \<open>(i, l) \<in> set (nd_claims n')\<close> that(1) by force+
    then show ?thesis using ok that(2) unfolding claims_ok_def by blast
  qed
  show ?thesis unfolding list_all_iff
    by (intro conjI ballI \<open>(i, l) \<in> set (nd_claims n')\<close>) (auto simp only: prod.case split: prod.split intro: worker)
qed

section \<open>Ballots of PROPOSE_EXTENDED\<close>

abbreviation ballot_key :: "plan_op \<Rightarrow> string \<times> json option" where
  "ballot_key op \<equiv> (po_actor_id op, map_of (po_payload op) ''ballot'')"

definition used_once :: "plan_op list \<Rightarrow> (string \<Rightarrow> string set) \<Rightarrow> bool" where
  "used_once ops B \<longleftrightarrow> distinct (map ballot_key ops) \<and>
     (\<forall>op \<in> set ops. \<exists>b. map_of (po_payload op) ''ballot'' = Some (JStr b) \<and> b \<in> B (po_actor_id op))"

definition ballots_ok :: "'c node \<Rightarrow> bool" where
  "ballots_ok n \<longleftrightarrow> used_once (notes_of ''proposal_extended'' n) (\<lambda>a. ballots_of a (nd_ballots n))"

lemma used_once_mono: "used_once ops B \<Longrightarrow> (\<forall>a. B a \<subseteq> B' a) \<Longrightarrow> used_once ops B'"
  unfolding used_once_def by blast

lemma used_once_snoc:
  assumes "used_once ops B" and "b \<notin> B s" and "ballot_key op = (s, Some (JStr b))"
    and "\<forall>a. B' a = (if a = s then insert b (B s) else B a)"
  shows "used_once (ops @ [op]) B'"
proof -
  have "ballot_key op \<notin> ballot_key ` set ops"
  proof
    assume "ballot_key op \<in> ballot_key ` set ops"
    then obtain op' where "op' \<in> set ops" "ballot_key op' = (s, Some (JStr b))" using assms(3) by auto
    with assms(1,2) show False unfolding used_once_def by fastforce
  qed
  moreover have "used_once ops B'" using assms(4) by (intro used_once_mono [OF assms(1)]) auto
  ultimately show ?thesis using assms(3,4) unfolding used_once_def by (auto simp: image_iff)
qed

lemma proposals_frame: "(\<And>m. snd (snd x) \<noteq> ProposeExtendedMsg m) \<Longrightarrow>
    notes_of ''proposal_extended'' (snd (deliver sg x n)) = notes_of ''proposal_extended'' n"
  by (cases "(sg, x)" rule: deliver.cases)
     (auto simp: handler_defs Let_def snd_and_then notes_append is_note_def annotate_op_def state_operation_def
       dest!: ask_frame notes_ask_eq split: handler_splits)

lemma ballots_of_update [simp]: "ballots_of a (AList.update s x t) = (if a = s then x else ballots_of a t)"
  by (auto simp: ballots_of_def update_conv')

lemma ballots_of_absent: "\<not> has_key s t \<Longrightarrow> ballots_of s t = {}"
  by (auto simp: ballots_of_def has_key_def split: option.splits)

text \<open>A ballot that is accepted was not in use by its sender; it is in use from then on.\<close>

lemma propose_extended_effect:
  assumes "n' = snd (handle_propose_extended u c m n)" and "s = ms_sender m"
  shows "(notes_of ''proposal_extended'' n' = notes_of ''proposal_extended'' n \<and>
      (\<forall>a. ballots_of a (nd_ballots n) \<subseteq> ballots_of a (nd_ballots n'))) \<or>
    (\<exists>b op. b \<notin> ballots_of s (nd_ballots n) \<and> ballot_key op = (s, Some (JStr b)) \<and>
      notes_of ''proposal_extended'' n' = notes_of ''proposal_extended'' n @ [op] \<and>
      (\<forall>a. ballots_of a (nd_ballots n') = (if a = s then insert b (ballots_of s (nd_ballots n)) else ballots_of a (nd_ballots n))))"
proof -
  define p where "p = ms_payload m"
  define t where "t = (if has_key s (nd_ballots n) then nd_ballots n else AList.update s {} (nd_ballots n))"
  have t: "ballots_of a t = ballots_of a (nd_ballots n)" for a
    using ballots_of_absent [of s "nd_ballots n"] by (simp add: t_def)
  define b where "b = the (xp_ballot p)"
  define n1 where "n1 = n\<lparr>nd_ballots := AList.update s (insert b (ballots_of s t)) t\<rparr>"
  have n1: "ballots_of a (nd_ballots n1) = (if a = s then insert b (ballots_of s (nd_ballots n)) else ballots_of a (nd_ballots n))"
    "notes_of k n1 = notes_of k n" for a k
    by (simp_all add: n1_def t)
  define op where "op = annotate_op (u 1) m (the (xp_need_id p)) ''proposal_extended''
    [(''proposal_id'', JStr (or_default (u 0) (xp_proposal_id p))), (''ballot'', JStr b),
     (''patch'', JList (map JObj (filter valid_patch_op (xp_patch p)))), (''cost'', json_opt JInt (xp_cost p)),
     (''eta'', json_opt JInt (xp_eta p)), (''proposer'', JStr s), (''proposed_at'', JInt (c 0))] (c 1)"
  have op: "ballot_key op = (s, Some (JStr b))" "is_note ''proposal_extended'' op"
    by (simp_all add: op_def) (simp add: annotate_op_def assms(2))
  have eq: "handle_propose_extended u c m n =
      (if no_text (xp_need_id p) \<or> no_text (xp_ballot p) then (None, n)
       else if b \<in> ballots_of s t \<or> xp_patch p = [] \<or> filter valid_patch_op (xp_patch p) = [] \<or> not_positive (xp_cost p) \<or>
         not_positive (xp_eta p) then (None, n\<lparr>nd_ballots := t\<rparr>) else append_to_plan op n1)"
    unfolding handle_propose_extended_def Let_def p_def t_def b_def n1_def op_def assms(2) by simp
  have "n' = n \<or> n' = n\<lparr>nd_ballots := t\<rparr> \<or> n' = snd (append_to_plan op n1) \<and> b \<notin> ballots_of s t"
    unfolding assms(1) eq by (simp split: if_split)
  then consider "n' = n" | "n' = n\<lparr>nd_ballots := t\<rparr>" | "n' = snd (append_to_plan op n1)" "b \<notin> ballots_of s t" by blast
  then show ?thesis
  proof cases
    case 3
    have "notes_of ''proposal_extended'' n' = notes_of ''proposal_extended'' n @ (if fst (append_to_plan op n1) = None then [op] else [])"
      "nd_ballots n' = nd_ballots n1" using 3 op by (simp_all add: notes_append n1)
    with 3 op show ?thesis by (cases "fst (append_to_plan op n1) = None") (auto simp: n1 t)
  qed (simp_all add: t)
qed

lemma ballots_step: "ballots_ok n \<Longrightarrow> ballots_ok (snd (deliver sg x n))"
proof (cases "\<exists>m. snd (snd x) = ProposeExtendedMsg m")
  case True
  assume ok: "ballots_ok n"
  from True obtain u c m where x: "x = (u, c, ProposeExtendedMsg m)" by (metis prod.collapse)
  let ?n' = "snd (handle_propose_extended u c m n)"
  from propose_extended_effect [OF refl refl, of u c m n] have "ballots_ok ?n'"
    using used_once_mono [OF ok [unfolded ballots_ok_def]] used_once_snoc [OF ok [unfolded ballots_ok_def]]
    unfolding ballots_ok_def by (elim disjE exE conjE) metis+
  then show ?thesis by (simp add: x)
next
  case False
  assume ok: "ballots_ok n"
  from False have "notes_of ''proposal_extended'' (snd (deliver sg x n)) = notes_of ''proposal_extended'' n"
    "nd_ballots (snd (deliver sg x n)) = nd_ballots n" by (auto intro: proposals_frame ballots_frame)
  with ok show ?thesis by (simp add: ballots_ok_def)
qed

interpretation ballots: guarded_machine "handler_step sg" ballots_ok for sg
  by unfold_locales (auto simp: handler_step_def intro: ballots_step)

text \<open>
  Over these messages no proposer has two recorded extended proposals with the same ballot, and every recorded one
  carries a ballot that its proposer can never use again.  (UPDATE_PLAN can record such an annotation itself.)
\<close>

theorem ballots_recorded_once:
  assumes "notes_of ''proposal_extended'' n0 = []" and "n = run_cmds (handler_step sg) xs n0"
    and "i < length (notes_of ''proposal_extended'' n)" and "op = notes_of ''proposal_extended'' n ! i"
  shows "(\<exists>b. map_of (po_payload op) ''ballot'' = Some (JStr b) \<and>
      (\<forall>u c m. ms_sender m = po_actor_id op \<and> xp_ballot (ms_payload m) = Some b \<longrightarrow>
         nd_plan (snd (handle_propose_extended u c m n)) = nd_plan n)) \<and>
    (\<forall>j < i. po_actor_id (notes_of ''proposal_extended'' n ! j) = po_actor_id op \<longrightarrow>
       map_of (po_payload (notes_of ''proposal_extended'' n ! j)) ''ballot'' \<noteq> map_of (po_payload op) ''ballot'')"
proof -
  have "ballots_ok n0" using assms(1) by (simp add: ballots_ok_def used_once_def)
  then have ok: "ballots_ok n" unfolding assms(2) by (rule ballots.run_inv)
  have "op \<in> set (notes_of ''proposal_extended'' n)" using assms(3,4) by simp
  then obtain b where b: "map_of (po_payload op) ''ballot'' = Some (JStr b)" "b \<in> ballots_of (po_actor_id op) (nd_ballots n)"
    using ok unfolding ballots_ok_def used_once_def by blast
  have "nd_plan (snd (handle_propose_extended u c m n)) = nd_plan n"
    if "ms_sender m = po_actor_id op" "xp_ballot (ms_payload m) = Some b" for u c and m :: "proposal_payload message"
    using that b(2) ballots_of_absent [of "po_actor_id op" "nd_ballots n"]
    by (auto simp: handle_propose_extended_def Let_def)
  moreover have "ballot_key (notes_of ''proposal_extended'' n ! j) \<noteq> ballot_key op" if "j < i" for j
    using ok that assms(3) unfolding ballots_ok_def used_once_def assms(4) distinct_conv_nth by simp
  ultimately show ?thesis using b(1) by blast
qed

section \<open>Decisions\<close>

text \<open>What the consensus store of a node holds under a key, and what a recorded DECIDE says.\<close>

definition stored :: "(string \<Rightarrow> 'c \<Rightarrow> decide_record option) \<Rightarrow> string \<Rightarrow> 'c node \<Rightarrow> decide_record option" where
  "stored get k n = (case nd_consensus n of None \<Rightarrow> None | Some e \<Rightarrow> get k e)"

definition records :: "plan_op \<Rightarrow> string \<Rightarrow> decide_record \<Rightarrow> bool" where
  "records op i r \<longleftrightarrow> map_of (po_payload op) ''need_id'' = Some (JStr i) \<and>
     map_of (po_payload op) ''proposal_id'' = Some (JStr (dr_proposal_id r)) \<and>
     map_of (po_payload op) ''epoch'' = Some (JInt (dr_epoch r))"

definition decided_ok :: "(string \<Rightarrow> nat list) \<Rightarrow> (string \<Rightarrow> 'c \<Rightarrow> decide_record option) \<Rightarrow> 'c node \<Rightarrow> bool" where
  "decided_ok sha256 get n \<longleftrightarrow> (\<forall>op \<in> set (notes_of ''decide'' n).
     \<exists>i r. records op i r \<and> stored get (get_decide_key sha256 i) n = Some r)"

abbreviation keeps_decisions :: "(string \<Rightarrow> 'c \<Rightarrow> decide_record option) \<Rightarrow> 'c node \<Rightarrow> 'c node \<Rightarrow> bool" where
  "keeps_decisions get n n' \<equiv> \<forall>k d. stored get k n = Some d \<longrightarrow> stored get k n' = Some d"

lemma ask_keeps:
  assumes "etcd_laws txn get" and "ask_consensus (try_decide sha256 txn get) r n = (x, n')"
  shows "keeps_decisions get n n'"
proof (intro allI impI)
  fix k d
  assume s: "stored get k n = Some d"
  then obtain e where e: "nd_consensus n = Some e" "get k e = Some d" by (auto simp: stored_def split: option.splits)
  with assms(2) have "nd_consensus n' = Some (snd (try_decide sha256 txn get (current_epoch (nd_epochs n)) r e))"
    by (auto simp: ask_consensus_def Let_def split: prod.splits)
  then show "stored get k n' = Some d" using try_decide_keeps [OF assms(1) e(2)] by (simp add: stored_def)
qed

lemma ask_accepted:
  assumes "etcd_laws txn get" and "ask_consensus (try_decide sha256 txn get) r n = (Some d, n')"
  shows "\<exists>s. stored get (get_decide_key sha256 (dr_need_id r)) n' = Some s \<and>
    dr_proposal_id s = dr_proposal_id r \<and> dr_epoch s = dr_epoch r"
proof -
  obtain e where e: "nd_consensus n = Some e" using assms(2) by (cases "nd_consensus n") (auto simp: ask_consensus_def)
  obtain e' where "try_decide sha256 txn get (current_epoch (nd_epochs n)) r e = (Some d, e')" "nd_consensus n' = Some e'"
    using assms(2) e by (auto simp: ask_consensus_def Let_def split: prod.splits)
  with try_decide_accepted [OF assms(1)] show ?thesis by (fastforce simp: stored_def)
qed

lemma stored_frame [simp]: "stored get k (snd (append_to_plan op n)) = stored get k n"
  by (simp add: stored_def)

lemma decide_effect:
  fixes n :: "'a node"
  assumes "etcd_laws txn get" and "n' = snd (handle_decide (try_decide sha256 txn get) u c m n)"
  shows "keeps_decisions get n n' \<and> (notes_of ''decide'' n' = notes_of ''decide'' n \<or>
    (\<exists>op i r. notes_of ''decide'' n' = notes_of ''decide'' n @ [op] \<and> records op i r \<and>
       stored get (get_decide_key sha256 i) n' = Some r))"
proof (cases "no_text (dp_need_id (ms_payload m)) \<or> no_text (dp_proposal_id (ms_payload m))")
  case True
  then show ?thesis by (simp add: assms(2) handle_decide_def)
next
  case False
  define p where "p = ms_payload m"
  define r where "r = \<lparr>dr_need_id = the (dp_need_id p), dr_proposal_id = the (dp_proposal_id p), dr_epoch = or_default 1 (dp_epoch p),
    dr_lamport = ms_lamport m, dr_k_plan = or_default 1 (dp_k_plan p), dr_decider_id = ms_sender m, dr_timestamp_ns = c 0\<rparr>"
  obtain x n1 where a: "ask_consensus (try_decide sha256 txn get) r n = (x, n1)" by fastforce
  define op where "op = annotate_op (u 1) m (if no_text (dp_task_id p) then the (dp_need_id p) else the (dp_task_id p)) ''decide''
    [(''need_id'', JStr (dr_need_id r)), (''proposal_id'', JStr (dr_proposal_id r)), (''epoch'', JInt (dr_epoch r)),
     (''k_plan'', JInt (dr_k_plan r)), (''decider'', JStr (ms_sender m)), (''decided_at'', JInt (c 2))] (c 3)"
  define first :: "'a act" where "first = (if no_text (dp_task_id p) then Pair None
    else append_to_plan (state_operation (u 0) m (ms_lamport m) (the (dp_task_id p)) ''DECIDED'' (c 1)))"
  have n': "n' = (if x = None then n1 else snd (and_then first (append_to_plan op) n1))"
    unfolding assms(2) handle_decide_def Let_def
    using False a [unfolded r_def] by (simp add: p_def [symmetric] first_def op_def r_def split: option.split)
  have keeps: "keeps_decisions get n n1" by (rule ask_keeps [OF assms(1) a])
  have first: "stored get k (snd (first n1)) = stored get k n1" "notes_of ''decide'' (snd (first n1)) = notes_of ''decide'' n1" for k
    by (simp_all add: first_def notes_append)
  show ?thesis
  proof (cases "x = None \<or> fst (first n1) \<noteq> None")
    case True
    then have "n' \<in> {n1, snd (first n1)}" by (auto simp: n' snd_and_then)
    then show ?thesis using keeps notes_ask_eq [OF a] first by auto
  next
    case g: False
    then have n': "n' = snd (append_to_plan op (snd (first n1)))" by (auto simp: n' snd_and_then)
    from g obtain d where "x = Some d" by auto
    with ask_accepted [OF assms(1)] a obtain s where
      "stored get (get_decide_key sha256 (dr_need_id r)) n1 = Some s" "dr_proposal_id s = dr_proposal_id r" "dr_epoch s = dr_epoch r"
      by blast
    then have "records op (dr_need_id r) s" "stored get (get_decide_key sha256 (dr_need_id r)) n' = Some s"
      by (simp_all add: records_def op_def annotate_op_def n' first)
    moreover have "notes_of ''decide'' n' = notes_of ''decide'' n \<or> notes_of ''decide'' n' = notes_of ''decide'' n @ [op]"
      by (simp add: n' notes_append first notes_ask_eq [OF a])
    moreover have "keeps_decisions get n n'" using keeps by (simp add: n' first)
    ultimately show ?thesis by blast
  qed
qed

lemma decided_ok_step:
  assumes "decided_ok sha256 get n" and "keeps_decisions get n n'"
    and "notes_of ''decide'' n' = notes_of ''decide'' n \<or> (\<exists>op i r. notes_of ''decide'' n' = notes_of ''decide'' n @ [op] \<and>
      records op i r \<and> stored get (get_decide_key sha256 i) n' = Some r)"
  shows "decided_ok sha256 get n'"
  using assms(3) assms(1,2) unfolding decided_ok_def by (elim disjE exE conjE) (auto, blast+)

text \<open>CLAIM_EXTENDED records a DECIDE only through the handler of DECIDE; no other message records one.\<close>

lemma claim_extended_decides:
  assumes "n' = snd (handle_claim_extended d u c m n)"
  shows "n' = n \<or> (nd_consensus n' = nd_consensus (snd (handle_decide d u c (claim_decide m) n)) \<and>
    notes_of ''decide'' n' = notes_of ''decide'' (snd (handle_decide d u c (claim_decide m) n)))"
  by (simp add: assms handle_claim_extended_def Let_def snd_and_then notes_append split: option.split)

lemma decide_notes_frame: "(\<And>m. snd (snd x) \<noteq> DecideMsg m) \<Longrightarrow> (\<And>m. snd (snd x) \<noteq> ClaimExtendedMsg m) \<Longrightarrow>
    notes_of ''decide'' (snd (deliver sg x n)) = notes_of ''decide'' n"
  by (cases "(sg, x)" rule: deliver.cases)
     (auto simp: handler_defs Let_def snd_and_then notes_append is_note_def annotate_op_def state_operation_def
       dest!: ask_frame notes_ask_eq split: handler_splits)

lemma consensus_frame: "(\<And>m. snd (snd x) \<noteq> DecideMsg m) \<Longrightarrow> (\<And>m. snd (snd x) \<noteq> ClaimExtendedMsg m) \<Longrightarrow>
    (\<And>m. snd (snd x) \<noteq> AttestPlanMsg m) \<Longrightarrow> nd_consensus (snd (deliver sg x n)) = nd_consensus n"
  by (cases "(sg, x)" rule: deliver.cases)
     (auto simp: handler_defs Let_def snd_and_then split: handler_splits)

lemma attest_plan_keeps:
  assumes "etcd_laws txn get"
  shows "keeps_decisions get n (snd (handle_attest_plan (try_decide sha256 txn get) u c m n))"
proof -
  have "keeps_decisions get n (snd (ask_consensus (try_decide sha256 txn get) r n1))" if "nd_consensus n1 = nd_consensus n" for r n1
    using ask_keeps [OF assms, of sha256 r n1] that by (cases "ask_consensus (try_decide sha256 txn get) r n1") (auto simp: stored_def)
  then show ?thesis
    by (auto simp: handle_attest_plan_def Let_def snd_and_then stored_def split: prod.split)
qed

lemma handle_decide_ok:
  assumes "etcd_laws txn get" and "decided_ok sha256 get n"
  shows "decided_ok sha256 get (snd (handle_decide (try_decide sha256 txn get) u c m n))"
proof (rule decided_ok_step [OF assms(2)])
  let ?n' = "snd (handle_decide (try_decide sha256 txn get) u c m n)"
  from decide_effect [OF assms(1), of ?n' sha256 u c m n] show "keeps_decisions get n ?n'"
    and "notes_of ''decide'' ?n' = notes_of ''decide'' n \<or> (\<exists>op i r. notes_of ''decide'' ?n' = notes_of ''decide'' n @ [op] \<and>
      records op i r \<and> stored get (get_decide_key sha256 i) ?n' = Some r)"
    by simp_all
qed

lemma deliver_decisions:
  assumes "etcd_laws txn get" and "sg_decide sg = try_decide sha256 txn get" and "decided_ok sha256 get n"
  shows "decided_ok sha256 get (snd (deliver sg x n))"
proof -
  consider (decide) u c m where "x = (u, c, DecideMsg m)" | (claim) u c m where "x = (u, c, ClaimExtendedMsg m)" |
    (plan) u c m where "x = (u, c, AttestPlanMsg m)" |
    (other) "\<And>m. snd (snd x) \<noteq> DecideMsg m" "\<And>m. snd (snd x) \<noteq> ClaimExtendedMsg m" "\<And>m. snd (snd x) \<noteq> AttestPlanMsg m"
    by (metis prod.collapse)
  then show ?thesis
  proof cases
    case decide
    then show ?thesis using handle_decide_ok [OF assms(1,3)] by (simp add: assms(2))
  next
    case claim
    let ?d = "snd (handle_decide (sg_decide sg) u c (claim_decide m) n)"
    have d: "decided_ok sha256 get ?d" using handle_decide_ok [OF assms(1,3)] by (simp add: assms(2))
    from claim_extended_decides [OF refl, of "sg_decide sg" u c m n]
    have "decided_ok sha256 get (snd (handle_claim_extended (sg_decide sg) u c m n))"
    proof
      assume "nd_consensus (snd (handle_claim_extended (sg_decide sg) u c m n)) = nd_consensus ?d \<and>
        notes_of ''decide'' (snd (handle_claim_extended (sg_decide sg) u c m n)) = notes_of ''decide'' ?d"
      with d show ?thesis by (simp add: decided_ok_def stored_def)
    qed (simp add: assms(3))
    then show ?thesis by (simp add: claim)
  next
    case plan
    have "notes_of ''decide'' (snd (deliver sg x n)) = notes_of ''decide'' n" by (intro decide_notes_frame) (simp_all add: plan)
    moreover have "keeps_decisions get n (snd (deliver sg x n))" using attest_plan_keeps [OF assms(1)] by (simp add: plan assms(2))
    ultimately show ?thesis by (intro decided_ok_step [OF assms(3)]) simp_all
  next
    case other
    then have "nd_consensus (snd (deliver sg x n)) = nd_consensus n" "notes_of ''decide'' (snd (deliver sg x n)) = notes_of ''decide'' n"
      by (auto intro: consensus_frame decide_notes_frame)
    with assms(3) show ?thesis by (simp add: decided_ok_def stored_def)
  qed
qed

interpretation decisions: guarded_machine "handler_step sg"
    "\<lambda>n. etcd_laws txn get \<and> sg_decide sg = try_decide sha256 txn get \<and> decided_ok sha256 get n" for sg sha256 txn get
  by unfold_locales (auto simp: handler_step_def intro: deliver_decisions)

text \<open>
  Claim C12.  Over an atomic store, all DECIDEs a node records for one need in whatever run of messages, through DECIDE
  or through CLAIM_EXTENDED, name the same proposal and epoch, and these are what the store holds for the need at the
  end of the run.
\<close>

theorem recorded_decisions_agree:
  assumes "etcd_laws txn get" and "sg_decide sg = try_decide sha256 txn get" and "notes_of ''decide'' n0 = []"
    and "n = run_cmds (handler_step sg) xs n0" and "op \<in> set (notes_of ''decide'' n)" and "op' \<in> set (notes_of ''decide'' n)"
    and "map_of (po_payload op) ''need_id'' = map_of (po_payload op') ''need_id''"
  shows "map_of (po_payload op) ''proposal_id'' = map_of (po_payload op') ''proposal_id'' \<and>
    map_of (po_payload op) ''epoch'' = map_of (po_payload op') ''epoch'' \<and>
    (\<exists>e i r. nd_consensus n = Some e \<and> map_of (po_payload op) ''need_id'' = Some (JStr i) \<and> get_decide sha256 get i e = Some r \<and>
       map_of (po_payload op) ''proposal_id'' = Some (JStr (dr_proposal_id r)) \<and>
       map_of (po_payload op) ''epoch'' = Some (JInt (dr_epoch r)))"
proof -
  have "decided_ok sha256 get n0" using assms(3) by (simp add: decided_ok_def)
  with assms(1,2) decisions.run_inv [of txn get sg sha256 n0 xs] have ok: "decided_ok sha256 get n" by (simp add: assms(4))
  from ok assms(5) obtain i r where r: "records op i r" "stored get (get_decide_key sha256 i) n = Some r" unfolding decided_ok_def by blast
  from ok assms(6) obtain i' r' where r': "records op' i' r'" "stored get (get_decide_key sha256 i') n = Some r'"
    unfolding decided_ok_def by blast
  from r(1) r'(1) assms(7) have "i' = i" by (simp add: records_def)
  with r r' have "r' = r" by simp
  moreover obtain e where "nd_consensus n = Some e" "get (get_decide_key sha256 i) e = Some r"
    using r(2) by (auto simp: stored_def split: option.splits)
  ultimately show ?thesis using r(1) r'(1) by (simp add: records_def get_decide_def)
qed

section \<open>Shards\<close>

lemma mark_complete_fields [simp]:
  "dg_graph (snd (mark_shard_complete order i d)) = dg_graph d"
  "dg_completed_shards (snd (mark_shard_complete order i d)) = insert i (dg_completed_shards d)"
  by (simp_all add: mark_shard_complete_def Let_def release_waiting_fields)

lemma finalize_dag:
  assumes "nd_dag n = Some d" and "n' = snd (handle_finalize order u c m n)"
  shows "nd_dag n' = Some d \<or> (\<exists>i. get_dependencies i d \<subseteq> dg_completed_shards d \<and> nd_dag n' = Some (snd (mark_shard_complete order i d)))"
  unfolding assms(2)
  by (auto simp: handle_finalize_def Let_def snd_and_then assms(1) check_cross_shard_dependencies_def get_blocking_shards_def split: option.split)

definition shards_in_order :: "(int, int set) table \<Rightarrow> 'c node \<Rightarrow> bool" where
  "shards_in_order g n \<longleftrightarrow> (\<exists>d. nd_dag n = Some d \<and> dg_graph d = g \<and>
     (\<forall>s \<in> dg_completed_shards d. shards_at g s \<subseteq> dg_completed_shards d \<and> (s, s) \<notin> {(a, b). b \<in> shards_at g a}\<^sup>+))"

lemma reachable_complete:
  assumes "(a, b) \<in> {(a, b). b \<in> shards_at g a}\<^sup>+" and "\<forall>s \<in> C. shards_at g s \<subseteq> C" and "shards_at g a \<subseteq> C"
  shows "b \<in> C"
  using assms by (induction rule: trancl_induct) auto

lemma shards_step: "shards_in_order g n \<Longrightarrow> shards_in_order g (snd (deliver sg x n))"
proof (cases "\<exists>m. snd (snd x) = FinalizeMsg m")
  case True
  assume ok: "shards_in_order g n"
  then obtain d where d: "nd_dag n = Some d" "dg_graph d = g"
    "\<forall>s \<in> dg_completed_shards d. shards_at g s \<subseteq> dg_completed_shards d"
    "\<forall>s \<in> dg_completed_shards d. (s, s) \<notin> {(a, b). b \<in> shards_at g a}\<^sup>+"
    unfolding shards_in_order_def by blast
  from True obtain u c m where x: "x = (u, c, FinalizeMsg m)" by (metis prod.collapse)
  from finalize_dag [OF d(1) refl, of "sg_order sg" u c m] show ?thesis
  proof (elim disjE exE conjE)
    assume "nd_dag (snd (handle_finalize (sg_order sg) u c m n)) = Some d"
    with ok d(1) show ?thesis by (simp add: shards_in_order_def x)
  next
    fix i
    assume i: "get_dependencies i d \<subseteq> dg_completed_shards d"
      and n': "nd_dag (snd (handle_finalize (sg_order sg) u c m n)) = Some (snd (mark_shard_complete (sg_order sg) i d))"
    have sub: "shards_at g i \<subseteq> dg_completed_shards d" using i d(2) by (simp add: get_dependencies_def)
    have "(i, i) \<notin> {(a, b). b \<in> shards_at g a}\<^sup>+" using reachable_complete [OF _ d(3) sub, of i] d(4) by blast
    with d sub show ?thesis unfolding shards_in_order_def x deliver.simps n' by auto
  qed
next
  case False
  assume ok: "shards_in_order g n"
  from False have "nd_dag (snd (deliver sg x n)) = nd_dag n" by (intro dag_frame) auto
  with ok show ?thesis by (simp add: shards_in_order_def)
qed

interpretation shards: guarded_machine "handler_step sg" "shards_in_order g" for sg g
  by unfold_locales (auto simp: handler_step_def intro: shards_step)

text \<open>
  Claim C14.  Whatever messages a node handles, FINALIZE completes the shards in the order of their dependencies: at the
  end of every run the dependencies of each completed shard are completed, and a shard on a cycle of dependencies never is.
\<close>

theorem finalized_in_order:
  assumes "nd_dag n0 = Some d0" and "dg_completed_shards d0 = {}" and "nd_dag (run_cmds (handler_step sg) xs n0) = Some d"
    and "s \<in> dg_completed_shards d"
  shows "get_dependencies s d \<subseteq> dg_completed_shards d \<and> (s, s) \<notin> {(a, b). b \<in> get_dependencies a d}\<^sup>+ \<and> dg_graph d = dg_graph d0"
proof -
  have "shards_in_order (dg_graph d0) n0" using assms(1,2) by (simp add: shards_in_order_def)
  then have "shards_in_order (dg_graph d0) (run_cmds (handler_step sg) xs n0)" by (rule shards.run_inv)
  with assms(3,4) show ?thesis by (auto simp: shards_in_order_def get_dependencies_def)
qed

section \<open>Messages behind a gate\<close>

lemma commits_frame: "(\<And>e t m. snd (snd x) \<noteq> CommitMsg e t m) \<Longrightarrow>
    notes_of ''commit'' (snd (deliver sg x n)) = notes_of ''commit'' n"
  by (cases "(sg, x)" rule: deliver.cases)
     (auto simp: handler_defs Let_def snd_and_then notes_append is_note_def annotate_op_def state_operation_def
       dest!: ask_frame notes_ask_eq split: handler_splits)

lemma yields_frame: "(\<And>e m. snd (snd x) \<noteq> YieldMsg e m) \<Longrightarrow>
    notes_of ''yield'' (snd (deliver sg x n)) = notes_of ''yield'' n"
  by (cases "(sg, x)" rule: deliver.cases)
     (auto simp: handler_defs Let_def snd_and_then notes_append is_note_def annotate_op_def state_operation_def
       dest!: ask_frame notes_ask_eq split: handler_splits)

text \<open>The engine of the default policy never allows what the gates ask it.\<close>

lemma gated_frame:
  assumes "sg_wasm sg = wasm_evaluate (evaluate_policy order) limit"
  shows "notes_of ''commit'' (snd (deliver sg x n)) = notes_of ''commit'' n"
    and "notes_of ''yield'' (snd (deliver sg x n)) = notes_of ''yield'' n"
proof -
  have c: "\<not> pd_allowed (fst (commit_gate_validate (sg_wasm sg) env tel g))" "\<not> pd_allowed (fst (ingress_validate (sg_wasm sg) env g))"
    for env tel g by (simp_all add: assms commit_gate_denies ingress_denies)
  show "notes_of ''commit'' (snd (deliver sg x n)) = notes_of ''commit'' n"
  proof (cases "\<exists>e t m. snd (snd x) = CommitMsg e t m")
    case True
    then obtain u c e t m where x: "x = (u, c, CommitMsg e t m)" by (metis prod.collapse)
    show ?thesis using c(1) [of e t "nd_gates n"]
      by (cases "commit_gate_validate (sg_wasm sg) e t (nd_gates n)") (simp add: x handle_commit_def Let_def)
  qed (intro commits_frame, auto)
  show "notes_of ''yield'' (snd (deliver sg x n)) = notes_of ''yield'' n"
  proof (cases "\<exists>e m. snd (snd x) = YieldMsg e m")
    case True
    then obtain u c e m where x: "x = (u, c, YieldMsg e m)" by (metis prod.collapse)
    obtain d g where "ingress_validate (sg_wasm sg) e (nd_gates n) = (d, g)" "\<not> pd_allowed d"
      using c(2) [of e "nd_gates n"] by (metis prod.collapse)
    then show ?thesis by (simp add: x receive_yield_def require_policy_validation_def Let_def)
  qed (intro yields_frame, auto)
qed

lemma attest_rejects:
  assumes "sg_wasm sg = wasm_evaluate (evaluate_policy order) limit"
  shows "fst (handle_attest (sg_wasm sg) sh h u c env tel m n) \<noteq> None \<or> no_text (tp_commit_id (ms_payload m))"
    and "\<exists>ops. notes_of ''attestation'' (snd (handle_attest (sg_wasm sg) sh h u c env tel m n)) = notes_of ''attestation'' n @ ops \<and>
      (\<forall>op \<in> set ops. map_of (po_payload op) ''verdict'' = Some (JStr ''rejected''))"
proof -
  have c: "\<not> pd_allowed (fst (commit_gate_validate (sg_wasm sg) env tel g))" for g by (simp add: assms commit_gate_denies)
  show "fst (handle_attest (sg_wasm sg) sh h u c env tel m n) \<noteq> None \<or> no_text (tp_commit_id (ms_payload m))"
    by (simp add: handle_attest_def Let_def and_then_def split: prod.split option.split)
  show "\<exists>ops. notes_of ''attestation'' (snd (handle_attest (sg_wasm sg) sh h u c env tel m n)) = notes_of ''attestation'' n @ ops \<and>
      (\<forall>op \<in> set ops. map_of (po_payload op) ''verdict'' = Some (JStr ''rejected''))"
    by (simp add: handle_attest_def Let_def snd_and_then notes_append c) (simp add: annotate_op_def)
qed

lemma attestations_frame: "(\<And>e t m. snd (snd x) \<noteq> AttestMsg e t m) \<Longrightarrow>
    notes_of ''attestation'' (snd (deliver sg x n)) = notes_of ''attestation'' n"
  by (cases "(sg, x)" rule: deliver.cases)
     (auto simp: handler_defs Let_def snd_and_then notes_append is_note_def annotate_op_def state_operation_def
       dest!: ask_frame notes_ask_eq split: handler_splits)

definition gated_ok :: "plan_op list \<Rightarrow> plan_op list \<Rightarrow> 'c node \<Rightarrow> bool" where
  "gated_ok cs ys n \<longleftrightarrow> notes_of ''commit'' n = cs \<and> notes_of ''yield'' n = ys \<and>
     (\<forall>op \<in> set (notes_of ''attestation'' n). map_of (po_payload op) ''verdict'' = Some (JStr ''rejected''))"

lemma gated_step:
  assumes "sg_wasm sg = wasm_evaluate (evaluate_policy order) limit" and "gated_ok cs ys n"
  shows "gated_ok cs ys (snd (deliver sg x n))"
proof -
  have "\<exists>ops. notes_of ''attestation'' (snd (deliver sg x n)) = notes_of ''attestation'' n @ ops \<and>
      (\<forall>op \<in> set ops. map_of (po_payload op) ''verdict'' = Some (JStr ''rejected''))"
  proof (cases "\<exists>e t m. snd (snd x) = AttestMsg e t m")
    case True
    then obtain u c e t m where "x = (u, c, AttestMsg e t m)" by (metis prod.collapse)
    then show ?thesis using attest_rejects(2) [OF assms(1)] by simp
  next
    case False
    then have "notes_of ''attestation'' (snd (deliver sg x n)) = notes_of ''attestation'' n" by (intro attestations_frame) auto
    then show ?thesis by simp
  qed
  with assms(2) show ?thesis using gated_frame [OF assms(1), of x n] unfolding gated_ok_def by auto
qed

interpretation gated: guarded_machine "handler_step sg"
    "\<lambda>n. sg_wasm sg = wasm_evaluate (evaluate_policy order) limit \<and> gated_ok cs ys n" for sg order limit cs ys
  by unfold_locales (auto simp: handler_step_def intro: gated_step)

text \<open>
  With the repository's own policy engine behind the gates, no COMMIT and no YIELD is ever recorded, every
  attestation that is recorded says rejected, and an ATTEST with a commit identifier raises whatever it records.
\<close>

theorem gated_messages_rejected:
  assumes "sg_wasm sg = wasm_evaluate (evaluate_policy order) limit" and "ps_ops (nd_plan n0) = []"
    and "n = run_cmds (handler_step sg) xs n0"
  shows "notes_of ''commit'' n = [] \<and> notes_of ''yield'' n = [] \<and>
    list_all (\<lambda>op. map_of (po_payload op) ''verdict'' = Some (JStr ''rejected'')) (notes_of ''attestation'' n) \<and>
    (tp_commit_id (ms_payload m) = Some (a # i) \<longrightarrow> fst (deliver sg (u, c, AttestMsg env tel m) n) \<noteq> None)"
proof -
  have "gated_ok [] [] n0" using assms(2) by (simp add: gated_ok_def notes_of_def)
  then have ok: "gated_ok [] [] n" using gated.run_inv [of sg order limit "[]" "[]" n0 xs] assms(1) by (simp add: assms(3))
  moreover have "fst (deliver sg (u, c, AttestMsg env tel m) n) \<noteq> None" if "tp_commit_id (ms_payload m) = Some (a # i)"
    using attest_rejects(1) [OF assms(1), of "sg_show_reason sg" "sg_sha256 sg" u c env tel m n] that by (simp add: no_text_def)
  ultimately show ?thesis unfolding gated_ok_def list_all_iff by blast
qed

section \<open>A sample node\<close>

text \<open>A node over a consensus store that is a map, with two shards of which the first waits for the second, and messages
  for it: a need, a claim of its task, its release and a claim by another worker.\<close>

definition sample_setting :: "(string \<rightharpoonup> decide_record) setting" where
  "sample_setting = \<lparr>sg_decide = try_decide (\<lambda>s. [7]) map_txn (\<lambda>k e. e k), sg_order = (\<lambda>s. []),
     sg_wasm = wasm_evaluate (evaluate_policy (\<lambda>s. [])) 100000, sg_has_blob = (\<lambda>h. True), sg_sha256 = (\<lambda>s. s),
     sg_show_reason = (\<lambda>r. JNull)\<rparr>"

definition sample_node :: "(string \<rightharpoonup> decide_record) node" where
  "sample_node = \<lparr>nd_plan = init_plan_store, nd_consensus = Some Map.empty,
     nd_epochs = \<lparr>current_epoch = 1, epoch_start = 0, coordinator_id = [], epoch_db = None\<rparr>, nd_ballots = [], nd_claims = [],
     nd_lease_manager = None, nd_auctions = None, nd_pool = None, nd_quorums = [],
     nd_dag = Some (add_dependency 1 2 ''n'' None empty_dag), nd_commitments = None, nd_gates = new_enforcer True\<rparr>"

definition sample :: "char \<Rightarrow> handler_cmd \<Rightarrow> delivery" where
  "sample a cmd = (\<lambda>k. a # replicate k CHR ''.'', int, cmd)"

abbreviation sent :: "string \<Rightarrow> int \<Rightarrow> 'p \<Rightarrow> 'p message" where
  "sent s l p \<equiv> \<lparr>ms_thread_id = ''t'', ms_lamport = l, ms_sender = s, ms_payload = p\<rparr>"

definition sample_need :: delivery where
  "sample_need = sample CHR ''a'' (NeedMsg (sent ''x'' 1 \<lparr>np_task_type = None, np_requires = None, np_produces = None, np_budget = None\<rparr>))"

definition sample_claim :: "char \<Rightarrow> string \<Rightarrow> int \<Rightarrow> delivery" where
  "sample_claim a w l = sample a (ClaimExtendedMsg (sent w l
     \<lparr>lp_task_id = Some ''a'', lp_worker_id = None, lp_lease_ttl = Some 60, lp_cost = None, lp_eta = None,
      lp_heartbeat_interval = None, lp_need_id = None, lp_proposal_id = Some ''p'', lp_epoch = None, lp_k_plan = None\<rparr>))"

definition sample_release :: delivery where
  "sample_release = sample CHR ''c'' (ReleaseMsg (sent ''w'' 5
     \<lparr>rl_task_id = Some ''a'', rl_lease_id = Some ''b..'', rl_reason = None\<rparr>))"

definition sample_proposal :: "char \<Rightarrow> string \<Rightarrow> delivery" where
  "sample_proposal a b = sample a (ProposeExtendedMsg (sent ''w'' 6 \<lparr>xp_need_id = Some ''n'', xp_proposal_id = None,
     xp_ballot = Some b, xp_patch = [[(''op_type'', JStr ''ADD_TASK''), (''task_id'', JStr ''a'')]], xp_cost = Some 3, xp_eta = None\<rparr>))"

definition sample_finalize :: "char \<Rightarrow> int \<Rightarrow> delivery" where
  "sample_finalize a s = sample a (FinalizeMsg (sent ''w'' 9 \<lparr>fp_task_id = Some ''a'', fp_shard_id = Some s, fp_metadata = None\<rparr>))"

theorem claimed_for_ever_witness:
  "let n = run_cmds (handler_step sample_setting) [sample_need, sample_claim CHR ''b'' ''w'' 2] sample_node;
       n' = run_cmds (handler_step sample_setting) [sample_release, sample_claim CHR ''d'' ''v'' 7] n
   in map (map_option tk_state \<circ> get_task ''a'' \<circ> nd_plan) [n, n'] = [Some ''DECIDED'', Some ''DRAFT''] \<and>
      (\<exists>l. nd_claims n = [(''b..'', l)] \<and> (''b..'', l) \<in> set (nd_claims n') \<and>
         list_all (\<lambda>(j, l'). cl_task_id l' = ''a'' \<longrightarrow> cl_worker_id l' = ''w'') (nd_claims n'))"
proof -
  define n where "n = run_cmds (handler_step sample_setting) [sample_need, sample_claim CHR ''b'' ''w'' 2] sample_node"
  have c: "nd_claims n = [(''b..'', \<lparr>cl_task_id = ''a'', cl_worker_id = ''w'', cl_ttl = 60, cl_created_at = 4,
      cl_last_heartbeat = 4, cl_heartbeat_interval = 30\<rparr>)]" unfolding n_def by code_simp
  have "map_option tk_state (get_task ''a'' (nd_plan n)) = Some ''DECIDED''" unfolding n_def by code_simp
  moreover have "map_option tk_state (get_task ''a'' (nd_plan (run_cmds (handler_step sample_setting)
      [sample_release, sample_claim CHR ''d'' ''v'' 7] n))) = Some ''DRAFT''" unfolding n_def by code_simp
  moreover have "distinct (map lease_uuid ([sample_need, sample_claim CHR ''b'' ''w'' 2] @ [sample_release, sample_claim CHR ''d'' ''v'' 7]))"
    by code_simp
  from claimed_for_ever [OF this _ n_def refl] c have "(''b..'', snd (hd (nd_claims n))) \<in> set (nd_claims
      (run_cmds (handler_step sample_setting) [sample_release, sample_claim CHR ''d'' ''v'' 7] n)) \<and>
    list_all (\<lambda>(j, l'). cl_task_id l' = ''a'' \<longrightarrow> cl_worker_id l' = ''w'')
      (nd_claims (run_cmds (handler_step sample_setting) [sample_release, sample_claim CHR ''d'' ''v'' 7] n))"
    by (simp add: sample_node_def)
  ultimately show ?thesis unfolding Let_def n_def [symmetric] using c by simp
qed

theorem ballots_recorded_once_witness:
  "let n = run_cmds (handler_step sample_setting) [sample_proposal CHR ''a'' ''1'', sample_proposal CHR ''b'' ''1'', sample_proposal CHR ''d'' ''2''] sample_node
   in map po_op_id (notes_of ''proposal_extended'' n) = [''a.'', ''d.''] \<and>
      map_of (po_payload (notes_of ''proposal_extended'' n ! 0)) ''ballot'' \<noteq> map_of (po_payload (notes_of ''proposal_extended'' n ! 1)) ''ballot''"
proof -
  define n where "n = run_cmds (handler_step sample_setting) [sample_proposal CHR ''a'' ''1'', sample_proposal CHR ''b'' ''1'', sample_proposal CHR ''d'' ''2''] sample_node"
  have i: "map po_op_id (notes_of ''proposal_extended'' n) = [''a.'', ''d.'']" unfolding n_def by code_simp
  then obtain op op' where ops: "notes_of ''proposal_extended'' n = [op, op']" by (auto simp: map_eq_Cons_conv)
  have "map po_actor_id (notes_of ''proposal_extended'' n) = [''w'', ''w'']" unfolding n_def by code_simp
  then have actor: "po_actor_id op = po_actor_id op'" by (simp add: ops)
  have s: "notes_of ''proposal_extended'' sample_node = []" by code_simp
  have l: "1 < length (notes_of ''proposal_extended'' n)" and second: "op' = notes_of ''proposal_extended'' n ! 1" by (simp_all add: ops)
  from conjunct2 [OF ballots_recorded_once [OF s n_def l second]] actor
  have "map_of (po_payload op) ''ballot'' \<noteq> map_of (po_payload op') ''ballot''" by (simp add: ops)
  then show ?thesis using i unfolding Let_def n_def [symmetric] by (simp add: ops)
qed

theorem recorded_decisions_agree_witness:
  "let n = run_cmds (handler_step sample_setting) [sample_need, sample_claim CHR ''b'' ''w'' 2, sample_claim CHR ''d'' ''w'' 3] sample_node
   in map po_op_id (notes_of ''decide'' n) = [''b.'', ''d.''] \<and>
      map_of (po_payload (notes_of ''decide'' n ! 0)) ''proposal_id'' = map_of (po_payload (notes_of ''decide'' n ! 1)) ''proposal_id''"
proof -
  define n where "n = run_cmds (handler_step sample_setting) [sample_need, sample_claim CHR ''b'' ''w'' 2, sample_claim CHR ''d'' ''w'' 3] sample_node"
  have i: "map po_op_id (notes_of ''decide'' n) = [''b.'', ''d.'']" unfolding n_def by code_simp
  then obtain op op' where ops: "notes_of ''decide'' n = [op, op']" by (auto simp: map_eq_Cons_conv)
  have "map (\<lambda>op. map_of (po_payload op) ''need_id'') (notes_of ''decide'' n) = [Some (JStr ''a''), Some (JStr ''a'')]"
    unfolding n_def by code_simp
  then have "map_of (po_payload op) ''need_id'' = map_of (po_payload op') ''need_id''" by (simp add: ops)
  moreover have "notes_of ''decide'' sample_node = []" by code_simp
  moreover have "sg_decide sample_setting = try_decide (\<lambda>s. [7]) map_txn (\<lambda>k e. e k)" by (simp add: sample_setting_def)
  ultimately have "map_of (po_payload op) ''proposal_id'' = map_of (po_payload op') ''proposal_id''"
    using recorded_decisions_agree [OF map_txn_laws _ _ n_def, of "\<lambda>s. [7]" op op'] ops by simp
  then show ?thesis using i unfolding Let_def n_def [symmetric] by (simp add: ops)
qed

theorem finalized_in_order_witness:
  "let n = run_cmds (handler_step sample_setting) [sample_finalize CHR ''a'' 1, sample_finalize CHR ''b'' 2, sample_finalize CHR ''d'' 1] sample_node
   in map po_op_id (notes_of ''finalize'' n) = [''b.'', ''d.''] \<and>
      (\<exists>d. nd_dag n = Some d \<and> dg_completed_shards d = {1, 2} \<and> get_dependencies 1 d = {2} \<and> get_dependencies 1 d \<subseteq> dg_completed_shards d)"
proof -
  define n where "n = run_cmds (handler_step sample_setting) [sample_finalize CHR ''a'' 1, sample_finalize CHR ''b'' 2, sample_finalize CHR ''d'' 1] sample_node"
  have i: "map po_op_id (notes_of ''finalize'' n) = [''b.'', ''d.'']" unfolding n_def by code_simp
  have "map_option dg_completed_shards (nd_dag n) = Some {1, 2}" unfolding n_def by code_simp
  then obtain d where d: "nd_dag n = Some d" "dg_completed_shards d = {1, 2}" by auto
  have "map_option (get_dependencies 1) (nd_dag n) = Some {2}" unfolding n_def by code_simp
  with d have "get_dependencies 1 d = {2}" by simp
  moreover have "dg_completed_shards (add_dependency 1 2 ''n'' None empty_dag) = {}" by code_simp
  ultimately show ?thesis
    using finalized_in_order [of sample_node "add_dependency 1 2 ''n'' None empty_dag" sample_setting _ d 1] d i
    unfolding Let_def n_def [symmetric] by (auto simp: n_def sample_node_def)
qed

definition sample_attest :: "char \<Rightarrow> delivery" where
  "sample_attest a = sample a (AttestMsg [] [] (sent ''w'' 4
     \<lparr>tp_commit_id = Some ''c'', tp_task_id = Some ''a'', tp_verdict = Some ''approved'', tp_attestation_id = None\<rparr>))"

theorem gated_messages_rejected_witness:
  "let n = run_cmds (handler_step sample_setting) [sample_attest CHR ''a''] sample_node
   in map po_op_id (notes_of ''attestation'' n) = [''a.''] \<and>
      list_all (\<lambda>op. map_of (po_payload op) ''verdict'' = Some (JStr ''rejected'')) (notes_of ''attestation'' n) \<and>
      fst (deliver sample_setting (sample_attest CHR ''b'') n) \<noteq> None"
proof -
  define n where "n = run_cmds (handler_step sample_setting) [sample_attest CHR ''a''] sample_node"
  have i: "map po_op_id (notes_of ''attestation'' n) = [''a.'']" unfolding n_def by code_simp
  have w: "sg_wasm sample_setting = wasm_evaluate (evaluate_policy (\<lambda>s. [])) 100000" by (simp add: sample_setting_def)
  have "ps_ops (nd_plan sample_node) = []" by code_simp
  from gated_messages_rejected [OF w this n_def, of "sent ''w'' 4
     \<lparr>tp_commit_id = Some ''c'', tp_task_id = Some ''a'', tp_verdict = Some ''approved'', tp_attestation_id = None\<rparr>" "CHR ''c''" "[]" "\<lambda>k. CHR ''b'' # replicate k CHR ''.''" int "[]" "[]"]
  show ?thesis using i unfolding Let_def n_def [symmetric] by (simp add: sample_attest_def sample_def)
qed

end
