(* ===== verification/ProcessProps.thy ===== *)
theory ProcessProps
  imports HandlerProps Versions ChallengeHandler StorageProps
begin

text \<open>
  The process that hosts a node: all registered handlers and INVALIDATE, with the states that some of them keep beside
  the node.  UPDATE_PLAN writes to the same plan store as the handlers of the node; CHALLENGE and INVALIDATE share the
  ledger when one is injected.  A handler that waits for a lock it holds itself blocks the process for ever.  Over these
  runs the ballots of PROPOSE_EXTENDED are used once.
\<close>

section \<open>The process\<close>

record 'c process =
  ps_node :: "'c node"
  ps_versions :: version_db
  ps_challenges :: challenge_state
  ps_ledger :: slash_ledger
  ps_payouts :: payout_distributor
  ps_checkpoints :: "checkpoint_manager option"
  ps_blocked :: bool

record 'c process_setting =
  pg_setting :: "'c setting"
  pg_order :: "string set \<Rightarrow> string list"
  pg_zstd :: "string \<Rightarrow> string"
  pg_ledger_injected :: bool

datatype process_cmd =
    NodeMsg handler_cmd | UpdatePlanMsg update_envelope | ChallengeMsg challenge_envelope
  | CheckpointMsg checkpoint_payload | InvalidateMsg invalidate_payload

type_synonym process_delivery = "(nat \<Rightarrow> string) \<times> (nat \<Rightarrow> int) \<times> process_cmd"

datatype process_error = HandlerError handler_error | ChallengeError error

type_synonym 'c process_act = "'c process \<Rightarrow> process_error option \<times> 'c process"

definition receive_update :: "'c process_setting \<Rightarrow> (nat \<Rightarrow> string) \<Rightarrow> (nat \<Rightarrow> int) \<Rightarrow> update_envelope \<Rightarrow> 'c process_act" where
  "receive_update sg u c env p =
     (case handle_update_plan (pg_order sg) (sg_sha256 (pg_setting sg)) u c env (nd_plan (ps_node p), ps_versions p) of
        (e, plan, versions) \<Rightarrow>
          (map_option (HandlerError \<circ> StoreError) e, p\<lparr>ps_node := (ps_node p)\<lparr>nd_plan := plan\<rparr>, ps_versions := versions\<rparr>))"

definition receive_challenge :: "'c process_setting \<Rightarrow> (nat \<Rightarrow> string) \<Rightarrow> (nat \<Rightarrow> int) \<Rightarrow> challenge_envelope \<Rightarrow> 'c process_act" where
  "receive_challenge sg u c env p =
     (case handle_challenge c u env ((ps_challenges p)\<lparr>st_ledger := if pg_ledger_injected sg then Some (ps_ledger p) else None\<rparr>) of
        Inl e \<Rightarrow> if e = Deadlock then (None, p\<lparr>ps_blocked := True\<rparr>) else (Some (ChallengeError e), p)
      | Inr st \<Rightarrow> (None, p\<lparr>ps_challenges := st, ps_ledger := (case st_ledger st of None \<Rightarrow> ps_ledger p | Some db \<Rightarrow> db)\<rparr>))"

definition receive_invalidate :: "(nat \<Rightarrow> string) \<Rightarrow> (nat \<Rightarrow> int) \<Rightarrow> invalidate_payload \<Rightarrow> 'c process_act" where
  "receive_invalidate u c pl p =
     (case handle_invalidate u (c 0) pl (ps_ledger p, ps_payouts p) of
        (returns, db, pd) \<Rightarrow> (None, p\<lparr>ps_ledger := db, ps_payouts := pd, ps_blocked := \<not> returns\<rparr>))"

fun process_msg :: "'c process_setting \<Rightarrow> process_delivery \<Rightarrow> 'c process_act" where
  "process_msg sg (u, c, NodeMsg x) p =
     (case deliver (pg_setting sg) (u, c, x) (ps_node p) of (e, n) \<Rightarrow> (map_option HandlerError e, p\<lparr>ps_node := n\<rparr>))"
| "process_msg sg (u, c, UpdatePlanMsg env) p = receive_update sg u c env p"
| "process_msg sg (u, c, ChallengeMsg env) p = receive_challenge sg u c env p"
| "process_msg sg (u, c, CheckpointMsg pl) p =
     (None, p\<lparr>ps_checkpoints := handle_checkpoint (pg_zstd sg) (c 0) pl (ps_checkpoints p)\<rparr>)"
| "process_msg sg (u, c, InvalidateMsg pl) p = receive_invalidate u c pl p"

definition process_step :: "'c process_setting \<Rightarrow> process_delivery \<Rightarrow> 'c process \<Rightarrow> unit + 'c process" where
  "process_step sg x p = Inr (if ps_blocked p then p else snd (process_msg sg x p))"

section \<open>Ballots\<close>

definition has_used :: "string \<Rightarrow> string \<Rightarrow> 'c process \<Rightarrow> bool" where
  "has_used s b p \<longleftrightarrow> b \<in> ballots_of s (nd_ballots (ps_node p))"

lemma propose_extended_ballots: "ballots_of s (nd_ballots n) \<subseteq> ballots_of s (nd_ballots (snd (handle_propose_extended u c m n)))"
  using propose_extended_effect [OF refl refl, of u c m n] by (elim disjE exE conjE) auto

lemma deliver_ballots: "ballots_of s (nd_ballots n) \<subseteq> ballots_of s (nd_ballots (snd (deliver sg x n)))"
proof (cases "\<exists>m. snd (snd x) = ProposeExtendedMsg m")
  case True
  then obtain u c m where "x = (u, c, ProposeExtendedMsg m)" by (metis prod.collapse)
  then show ?thesis by (simp add: propose_extended_ballots)
qed (simp add: ballots_frame)

lemma has_used_msg:
  assumes "has_used s b p"
  shows "has_used s b (snd (process_msg sg x p))"
proof (cases "\<exists>u c y. x = (u, c, NodeMsg y)")
  case True
  then obtain u c y where "x = (u, c, NodeMsg y)" by blast
  then show ?thesis using deliver_ballots [of s "ps_node p" "pg_setting sg" "(u, c, y)"] assms
    by (cases "deliver (pg_setting sg) (u, c, y) (ps_node p)") (auto simp: has_used_def)
next
  case False
  then have "nd_ballots (ps_node (snd (process_msg sg x p))) = nd_ballots (ps_node p)"
    by (cases "(sg, x, p)" rule: process_msg.cases)
      (auto simp: receive_update_def receive_challenge_def receive_invalidate_def split: prod.splits sum.splits)
  with assms show ?thesis by (simp add: has_used_def)
qed

interpretation used: guarded_machine "process_step sg" "has_used s b" for sg s b
  by unfold_locales (auto simp: process_step_def intro: has_used_msg split: if_splits)

text \<open>A ballot that is in use by its sender is refused without any effect.\<close>

lemma used_ballot_refused:
  assumes "xp_ballot (ms_payload m) = Some b" and "b \<in> ballots_of (ms_sender m) (nd_ballots n)"
  shows "handle_propose_extended u c m n = (None, n)"
proof -
  have "has_key (ms_sender m) (nd_ballots n)" using assms(2) ballots_of_absent [of "ms_sender m" "nd_ballots n"] by auto
  then show ?thesis using assms by (simp add: handle_propose_extended_def Let_def)
qed

text \<open>A proposal that changes the plan, or that the plan store refuses with an exception, takes its ballot into use.\<close>

lemma proposal_takes_ballot:
  assumes "handle_propose_extended u c m n = (e, n')" and "e \<noteq> None \<or> nd_plan n' \<noteq> nd_plan n"
  obtains b where "xp_ballot (ms_payload m) = Some b" and "b \<notin> ballots_of (ms_sender m) (nd_ballots n)"
    and "b \<in> ballots_of (ms_sender m) (nd_ballots n')"
proof -
  define s where "s = ms_sender m"
  define t where "t = (if has_key s (nd_ballots n) then nd_ballots n else AList.update s {} (nd_ballots n))"
  have t: "ballots_of a t = ballots_of a (nd_ballots n)" for a
    using ballots_of_absent [of s "nd_ballots n"] by (simp add: t_def)
  have no: "\<not> no_text (xp_ballot (ms_payload m))" and fresh: "the (xp_ballot (ms_payload m)) \<notin> ballots_of s t"
    using assms unfolding handle_propose_extended_def Let_def s_def [symmetric] t_def [symmetric] by (auto split: if_splits)
  have "nd_ballots n' = AList.update s (insert (the (xp_ballot (ms_payload m))) (ballots_of s t)) t"
    using assms unfolding handle_propose_extended_def Let_def s_def [symmetric] t_def [symmetric]
    by (auto split: if_splits dest: arg_cong [where f = "nd_ballots \<circ> snd"])
  then have "the (xp_ballot (ms_payload m)) \<in> ballots_of s (nd_ballots n')" by simp
  moreover obtain b where "xp_ballot (ms_payload m) = Some b" using no by (cases "xp_ballot (ms_payload m)") (auto simp: no_text_def)
  ultimately show thesis using fresh t that unfolding s_def by simp
qed

text \<open>A proposal that the handler accepts is recorded as one annotation with its ballot.\<close>

lemma proposal_recorded:
  assumes "handle_propose_extended u c m n = (None, n')" and "nd_plan n' \<noteq> nd_plan n"
  shows "\<exists>op. ps_ops (nd_plan n') = ps_ops (nd_plan n) @ [op] \<and> is_note ''proposal_extended'' op \<and>
    ballot_key op = (ms_sender m, map_option JStr (xp_ballot (ms_payload m)))"
proof -
  obtain b where b: "xp_ballot (ms_payload m) = Some b"
    using proposal_takes_ballot [OF assms(1)] assms(2) by blast
  from assms obtain op n1 where "append_to_plan op n1 = (None, n')" "nd_plan n1 = nd_plan n"
    "is_note ''proposal_extended'' op" "ballot_key op = (ms_sender m, Some (JStr b))"
    unfolding handle_propose_extended_def Let_def by (auto simp: b split: if_splits) (auto simp: annotate_op_def is_note_def)
  then show ?thesis by (auto simp: append_to_plan_def b append_op_ops split: sum.splits)
qed

text \<open>
  Claim C13.  When PROPOSE_EXTENDED changes the plan or the plan store raises, its ballot was not in use by its sender,
  and unless the store raised it is recorded in one annotation.  From then on, whatever messages of any kind the process
  handles, a PROPOSE_EXTENDED of the same sender with the same ballot is refused without any effect.
\<close>

theorem ballots_used_once:
  assumes "process_msg sg (u, c, NodeMsg (ProposeExtendedMsg m)) p = (e, p1)"
    and "e \<noteq> None \<or> nd_plan (ps_node p1) \<noteq> nd_plan (ps_node p)"
    and "p2 = run_cmds (process_step sg) xs p1"
    and "ms_sender m' = ms_sender m" and "xp_ballot (ms_payload m') = xp_ballot (ms_payload m)"
  shows "(\<exists>b. xp_ballot (ms_payload m) = Some b \<and> b \<notin> ballots_of (ms_sender m) (nd_ballots (ps_node p)) \<and>
      (e = None \<longrightarrow> (\<exists>op. ps_ops (nd_plan (ps_node p1)) = ps_ops (nd_plan (ps_node p)) @ [op] \<and>
         is_note ''proposal_extended'' op \<and> ballot_key op = (ms_sender m, Some (JStr b))))) \<and>
    process_msg sg (u', c', NodeMsg (ProposeExtendedMsg m')) p2 = (None, p2)"
proof -
  obtain e' n1 where n1: "handle_propose_extended u c m (ps_node p) = (e', n1)" "e = map_option HandlerError e'" "p1 = p\<lparr>ps_node := n1\<rparr>"
    using assms(1) by (auto split: prod.splits)
  with assms(2) obtain b where b: "xp_ballot (ms_payload m) = Some b" "b \<notin> ballots_of (ms_sender m) (nd_ballots (ps_node p))"
      "b \<in> ballots_of (ms_sender m) (nd_ballots n1)"
    using proposal_takes_ballot [OF n1(1)] by auto
  have "has_used (ms_sender m) b p1" using b(3) n1(3) by (simp add: has_used_def)
  then have "has_used (ms_sender m) b p2" unfolding assms(3) by (rule used.run_inv)
  then have "handle_propose_extended u' c' m' (ps_node p2) = (None, ps_node p2)"
    using used_ballot_refused [of m' b "ps_node p2" u' c'] b(1) assms(4,5) by (simp add: has_used_def)
  moreover have "\<exists>op. ps_ops (nd_plan n1) = ps_ops (nd_plan (ps_node p)) @ [op] \<and> is_note ''proposal_extended'' op \<and>
      ballot_key op = (ms_sender m, Some (JStr b))" if "e = None"
    using proposal_recorded [of u c m "ps_node p" n1] n1 assms(2) b(1) that by simp
  ultimately show ?thesis using b(1,2) n1(3) by simp
qed

section \<open>Examples\<close>

definition sample_process :: "(string \<rightharpoonup> decide_record) process" where
  "sample_process = \<lparr>ps_node = sample_node, ps_versions = no_versions,
     ps_challenges = \<lparr>st_abuse_detector = [], st_challenge_window = \<lparr>windows = [], window_lock = False\<rparr>, st_ledger = None, st_challenge_queue = []\<rparr>,
     ps_ledger = init_slash_ledger, ps_payouts = \<lparr>relationship_detector = [], invalidated_tasks = {}\<rparr>, ps_checkpoints = None, ps_blocked = False\<rparr>"

definition sample_process_setting :: "(string \<rightharpoonup> decide_record) process_setting" where
  "sample_process_setting = \<lparr>pg_setting = sample_setting, pg_order = sorted_list_of_set, pg_zstd = (\<lambda>s. s), pg_ledger_injected = False\<rparr>"

abbreviation ballot_msg :: "string \<Rightarrow> proposal_payload message" where
  "ballot_msg b \<equiv> sent ''w'' 6 \<lparr>xp_need_id = Some ''n'', xp_proposal_id = None, xp_ballot = Some b,
     xp_patch = [[(''op_type'', JStr ''ADD_TASK''), (''task_id'', JStr ''a'')]], xp_cost = Some 3, xp_eta = None\<rparr>"

abbreviation ids :: "char \<Rightarrow> nat \<Rightarrow> string" where
  "ids a \<equiv> \<lambda>k. a # replicate k CHR ''.''"

text \<open>An UPDATE_PLAN of the proposer that carries such an annotation itself.\<close>

definition forged_update :: process_delivery where
  "forged_update = (ids CHR ''u'', int, UpdatePlanMsg \<lparr>ue_thread_id = ''t'', ue_lamport = 7, ue_sender = ''w'',
     ue_ops = [\<lparr>pp_op_type = Some ''ANNOTATE'', pp_task_id = Some ''n'',
       pp_payload = Some [(''annotation_type'', JStr ''proposal_extended''), (''ballot'', JStr ''1'')]\<rparr>]\<rparr>)"

definition first_proposal :: process_delivery where
  "first_proposal = (ids CHR ''a'', int, NodeMsg (ProposeExtendedMsg (ballot_msg ''1'')))"

lemma ballots_used_once_witness:
  "let p1 = snd (process_msg sample_process_setting first_proposal sample_process);
       p2 = run_cmds (process_step sample_process_setting) [forged_update] p1
   in map po_op_id (ps_ops (nd_plan (ps_node p2))) = [''a.'', ''u.''] \<and>
      process_msg sample_process_setting (ids CHR ''d'', int, NodeMsg (ProposeExtendedMsg (ballot_msg ''1''))) p2 = (None, p2)"
proof -
  define p1 where "p1 = snd (process_msg sample_process_setting first_proposal sample_process)"
  define p2 where "p2 = run_cmds (process_step sample_process_setting) [forged_update] p1"
  have first: "process_msg sample_process_setting (ids CHR ''a'', int, NodeMsg (ProposeExtendedMsg (ballot_msg ''1''))) sample_process = (None, p1)"
  proof -
    have "fst (process_msg sample_process_setting first_proposal sample_process) = None" by code_simp
    then show ?thesis unfolding p1_def first_proposal_def by (simp only: prod_eq_iff fst_conv snd_conv)
  qed
  have "map po_op_id (ps_ops (nd_plan (ps_node p1))) = [''a.'']" "map po_op_id (ps_ops (nd_plan (ps_node sample_process))) = []"
    unfolding p1_def by code_simp+
  then have changed: "None \<noteq> None \<or> nd_plan (ps_node p1) \<noteq> nd_plan (ps_node sample_process)" by auto
  have "map po_op_id (ps_ops (nd_plan (ps_node p2))) = [''a.'', ''u.'']" unfolding p2_def p1_def by code_simp
  then show ?thesis using ballots_used_once [OF first changed p2_def refl refl] unfolding Let_def p1_def [symmetric] p2_def [symmetric] by blast
qed

text \<open>UPDATE_PLAN does not look at the annotations it appends: it records a second proposal with a ballot that is in use.\<close>

lemma update_plan_repeats_ballot:
  "let p = run_cmds (process_step sample_process_setting) [first_proposal, forged_update] sample_process
   in map ballot_key (notes_of ''proposal_extended'' (ps_node p)) = [(''w'', Some (JStr ''1'')), (''w'', Some (JStr ''1''))]"
  by code_simp

end
