(* ===== verification/Spec2Isabelle.thy ===== *)
theory Spec2Isabelle
  imports SlashingProps BountyProps LeaseProps ConsensusProps PlanProps GraphProps MerkleProps
    DependencyProps CommitmentProps ShardingProps ChallengeHandlerProps SafetyProps ChannelProps GovernanceProps VersionProps CommitteeProps PolicyProps
    ClockProps PeerProps GossipProps AuctionProps MarketProps StorageProps HandlerProps ProcessProps
begin

text \<open>
  Verification of the core of the agent network, a Python system in which agents publish needs, earn
  and stake credits, agree on decisions and replicate plans.  All paths are below \<open>src/src/\<close>.

  \<^bold>\<open>Parts of the program and how they interact.\<close>
  The economy (\<open>economics/\<close>) keeps accounts in one SQLite database: \<open>ledger.py\<close> owns
  accounts, escrows and the audit trail; \<open>stake.py\<close>, \<open>slashing.py\<close>, \<open>pools.py\<close> and
  \<open>reputation.py\<close> share its connection and its lock; \<open>bounties.py\<close> and \<open>payout.py\<close> call it;
  \<open>selection.py\<close> draws committees from the pool.  Challenges (\<open>challenges/\<close>,
  \<open>handlers/challenge.py\<close>) dispute results: a bond is escrowed, the proof is queued and verified,
  and the outcome slashes or refunds.  Leases (\<open>leases/\<close>, \<open>daemons/\<close>) hand out tasks for a time
  and a monitor takes them back.  Consensus (\<open>consensus/\<close>) fences epochs, counts attestations, writes
  at most one DECIDE per need and merges the decisions of healed partitions.  Plans
  (\<open>plan_store.py\<close>, \<open>plan/\<close>) are logs of operations with a derived view, once in SQLite and once
  as a replicated document; views sort and search the task graph, patches change it and versions
  record it.  Sharding (\<open>sharding/\<close>) places needs on nodes, orders shards by their dependencies,
  commits by reference and escrows artifacts.  Policy (\<open>policy/\<close>, \<open>bus.py\<close>) checks every envelope
  at three gates.  The marketplace (\<open>marketplace/\<close>, \<open>auction/\<close>) posts tasks, takes bids, pays over
  channels and governs its parameters.  Storage (\<open>checkpoint/\<close>) commits to a state by a Merkle
  root, prunes the log and restores nodes.  The network layer (\<open>p2p/\<close>, \<open>hybrid_bus.py\<close>,
  \<open>lamport.py\<close>, \<open>monitoring/\<close>) orders, spreads and deduplicates messages.

  \<^bold>\<open>Shared theories.\<close>
  \<^item> \<open>Prelude\<close>: fallible results (an exception is \<open>Inl\<close>, and a raising method of the ledger leaves
    the state it found because the transaction is rolled back), runs of commands, the contracts
    \<open>guarded_machine\<close> (an invariant that every step keeps holds after every run),
    \<open>monotone_machine\<close>, \<open>ranked_choice\<close> (a choice by rank is associative and commutative) and
    \<open>sliding_window\<close>, iteration over sets in an order that is an argument (\<open>lists_sets\<close>), JSON values.
  \<^item> \<open>Tables\<close>: SQLite tables and Python dictionaries as association lists in insertion order.
    \<open>PyString\<close>: decimal printing, \<open>split\<close>, \<open>int\<close>.  \<open>PyFloat\<close>: binary64 arithmetic as
    rounded rationals.  \<open>JsonText\<close>: the text of a JSON value and its injectivity.  \<open>JsonRead\<close>: the reader
    \<open>json.loads\<close> and its round trip with the writer.  \<open>JsonOrder\<close>: a linear order on JSON values.
    \<open>Walks\<close>: walks in a relation and the invariant of a depth-first search.  \<open>Calls\<close>: methods that take a lock that is not re-entrant; a second acquisition blocks.

  \<^bold>\<open>Components.\<close>  A theory holds the definitions in the order of the code, the theory of the same
  name with \<open>Props\<close> its properties and their witnesses.
  \<^item> \<open>Ledger\<close>: \<open>CreditLedger\<close>.  Conservation, replay of the audit trail, escrows settled once.
    \<open>Stake\<close>: conservation with the unbonding table, exact completion, and when an escrow can be released
    although unstaking shares its column of locked credits.
    \<open>Slashing\<close>, \<open>Relationships\<close>: penalties in binary64 arithmetic, the payouts of a slash, related
    parties.  \<open>Bounties\<close>: bounties and shares; the calls that block on the shared lock are theorems.
  \<^item> \<open>Committees\<close>: pool, reputation and committee selection.  Reputations stay in range, committees
    are sound.
  \<^item> \<open>Challenges\<close>, \<open>ChallengeFlow\<close>, \<open>ChallengeHandler\<close>: proofs, bonds and verdicts; queue,
    windows, escalation and limits; submission and outcome over the ledger.
  \<^item> \<open>Leases\<close>: leases refine one automaton with two timers per lease; a pass of the monitor is exact.
  \<^item> \<open>Consensus\<close>: epochs, quorum sizes, attestations, bootstrap mode, merge of decisions, the Raft
    adapter.  At most one DECIDE per need, agreement after a partition heals.
  \<^item> \<open>Plan\<close>, \<open>Graph\<close>, \<open>Patches\<close>, \<open>Versions\<close>: the two plan stores and their convergence, sorting
    and reachability of tasks, merges of patches, versions and the UPDATE_PLAN handler.
  \<^item> \<open>Dependencies\<close>, \<open>Commitment\<close>, \<open>Sharding\<close>: counters, orders and cycles of shards; finalized
    commitments are a least fixpoint and the cascade ends; routing and the escrow of artifacts.
  \<^item> \<open>Handlers\<close>, \<open>Verdicts\<close>, \<open>HandlerProps\<close>: the message handlers (\<open>handlers/\<close>) over one node that
    holds the plan store and the other components.  These runs deliver NEED, PROPOSE, PROPOSE_EXTENDED,
    CLAIM, CLAIM_EXTENDED, DECIDE, RELEASE, YIELD, HEARTBEAT, COMMIT, ATTEST, ATTEST_PLAN, FINALIZE and
    RECONCILE: decisions that DECIDE and CLAIM_EXTENDED record agree with the consensus store, shards are
    finalized in order, a lease is for ever; with the engine of the repository COMMIT and YIELD are never
    recorded.  \<open>ProcessProps\<close> adds UPDATE_PLAN, which writes to the same plan store, CHALLENGE,
    CHECKPOINT and INVALIDATE with their own states: over runs of all messages a ballot that
    PROPOSE_EXTENDED has accepted is refused from then on.
  \<^item> \<open>Policy\<close>: engine, gas, gates, handlers and bus.  What the gates admit and what a digest fixes.
  \<^item> \<open>Safety\<close>, \<open>Channels\<close>, \<open>Governance\<close>: circuit breaker and rate limits, payment channels,
    proposals and votes.  \<open>Market\<close>: tasks, bids, ratings and the registry of agents.
    \<open>Auctions\<close>: bids, winners and backoff.
  \<^item> \<open>Merkle\<close>, \<open>Compression\<close>, \<open>Storage\<close>: proofs of membership; \<open>checkpoint/compression.py\<close>; tiered
    storage, checkpoints, synchronisation and the CHECKPOINT handler.
  \<^item> \<open>Clocks\<close>, \<open>Peers\<close>, \<open>Gossip\<close>: Lamport clock, message cache and partition detector; peer scores
    and the connection pool; meshes of the publish/subscribe router.

  \<^bold>\<open>Parameters and hypotheses.\<close>
  Readings of the clock, generated UUIDs, random numbers, the order in which Python visits a set and
  the outcome of a disk write are arguments.  SHA-256, the two calls of the zstandard
  library (all of \<open>compression.py\<close> around them is modelled), the float power of the C
  library and SQLite's \<open>AVG\<close> are function arguments; where a theorem needs a law of one of them
  (no collision, decompression inverts compression) it is a hypothesis, and the witness gives a
  function that satisfies it.  The etcd client is a pair of functions with the documented laws of its
  transaction as hypotheses.  Values of type \<open>Any\<close> are \<open>json\<close>; characters are code points below 256.

  \<^bold>\<open>Bounds and fuel.\<close>
  \<open>dfs\<close> of \<open>detect_cycles\<close> takes fuel; the number of nodes plus one is enough because every
  call visits a new node, and the searches of \<open>Dependencies\<close> and \<open>Commitment\<close> likewise
  (\<open>enough_depth\<close>).  This is fuel of the model: the recursion limit of Python, about a thousand calls,
  is a further bound, and a longer chain of dependencies or commitments raises RecursionError in the code.
  For the merge of patches that limit is an argument: the number of nested calls left, of which more than
  twice the number of LINK operations is proved enough and \<open>long_chain_raises\<close> shows what a smaller one does.
  The reader of JSON counts its nested calls; \<open>loads_any_fuel\<close> proves that twice the length of the
  text is enough for every text.  The sampling of a committee makes the 1000 attempts of the code.  The
  other loops are total functions with their termination proofs.  Statements about binary64 arithmetic
  are bounded by the range in which integers are represented exactly (\<open>2^53\<close>) or in which the rounded
  product keeps its floor (\<open>2^49\<close>); rounding is to nearest even with an unbounded exponent.

  \<^bold>\<open>Not modelled.\<close>
  Threads are modelled by the lock discipline only: every method runs under one lock, so calls are
  sequential, and daemons are the pass they repeat.  Log output, metrics and statistics are left out, as are
  the network transports and discovery (NATS, libp2p), the OPA binary, the WASM, IPFS and Firecracker engines, signatures and
  key files, the zstandard library, the HTTP routes, the routing heuristics and the printing and registration
  around the handlers.
\<close>

end
